(* ===== verification/Prelude.thy ===== *)
theory Prelude
  imports Main "HOL-Library.Word"
begin

text \<open>
  Shared vocabulary of the development: names for the machine integers of the C++ code,
  little-endian byte access as the protocol code writes it, \<open>memcpy\<close> into a byte buffer,
  and the generic list and map lemmas that several components use.

  \<open>size_t\<close> values that only count bytes or elements of containers held in memory are
  \<open>nat\<close>; integers that are stored, sent, or allowed to wrap keep their width.
\<close>

unbundle bit_operations_syntax

section \<open>Types\<close>

type_synonym u8 = "8 word"
type_synonym u16 = "16 word"
type_synonym u32 = "32 word"
type_synonym u64 = "64 word"
type_synonym bytes = "u8 list"

section \<open>Collections of facts\<close>

named_theorems wire_simps \<open>evaluation of the wire encoders and decoders\<close>
named_theorems inv_intros \<open>preservation of component invariants\<close>

section \<open>Lists\<close>

lemma take_append_exact [simp]: "n = length xs \<Longrightarrow> take n (xs @ ys) = xs"
  by simp

lemma drop_append_exact [simp]: "n = length xs \<Longrightarrow> drop n (xs @ ys) = ys"
  by simp

lemma if_append_pull: "(if c then xs @ ys else xs) = xs @ (if c then ys else [])"
  by simp

lemma list_eq_by_four: "length xs = 4 \<Longrightarrow> xs = [xs ! 0, xs ! 1, xs ! 2, xs ! 3]"
  by (rule nth_equalityI) (auto simp: less_Suc_eq numeral_eq_Suc)

lemma unat_of_nat_small [simp]: "n < 2 ^ LENGTH('a) \<Longrightarrow> unat (of_nat n :: 'a::len word) = n"
  by (simp add: unat_of_nat)

lemma of_nat_eq_iff_unat: "n < 2 ^ LENGTH('a) \<Longrightarrow> (of_nat n :: 'a::len word) = w \<longleftrightarrow> n = unat w"
  by (metis unat_of_nat_small word_unat_eq_iff)

lemma filter_removeAll_key:
  "filter (\<lambda>p. fst p \<noteq> k) xs = xs" if "k \<notin> fst ` set xs"
  using that by (auto simp: filter_id_conv)

lemma sum_list_map_tl:
  "xs \<noteq> [] \<Longrightarrow> sum_list (map f (tl xs)) = sum_list (map f xs) - (f (hd xs) :: nat)"
  by (cases xs) auto

text \<open>Association lists with distinct keys.\<close>

lemma map_of_filter_distinct:
  assumes "distinct (map fst entries)"
  shows "map_of (filter keep entries) key = Option.bind (map_of entries key) (\<lambda>v. if keep (key, v) then Some v else None)"
  using assms
proof (induction entries)
  case (Cons e entries)
  have "map_of entries (fst e) = None" using Cons.prems by (auto simp: map_of_eq_None_iff)
  then show ?case using Cons by (cases e) (auto split: Option.bind_splits)
qed simp

lemma distinct_filter_keys: "distinct (map fst xs) \<Longrightarrow> distinct (map fst (filter P xs))"
  by (induction xs) auto

lemma find_Some_mem: "find P xs = Some x \<Longrightarrow> x \<in> set xs \<and> P x"
  by (induction xs) (auto split: if_splits)

subsection \<open>memcpy\<close>

text \<open>
  \<open>memcpy(dst + off, src, n)\<close> on a buffer held as a list. The callers below keep
  \<open>off + length src \<le> length dst\<close>; outside of it the C++ is undefined.
\<close>

definition memcpy_at :: "nat \<Rightarrow> 'a list \<Rightarrow> 'a list \<Rightarrow> 'a list" where
  "memcpy_at off src dst = take off dst @ src @ drop (off + length src) dst"

lemma length_memcpy_at [simp]:
  "off + length src \<le> length dst \<Longrightarrow> length (memcpy_at off src dst) = length dst"
  by (simp add: memcpy_at_def)

lemma memcpy_at_read_same:
  assumes "off + length src \<le> length dst"
  shows "take (length src) (drop off (memcpy_at off src dst)) = src"
  using assms by (simp add: memcpy_at_def)

lemma memcpy_at_read_other:
  assumes "off + length src \<le> length dst" and "a + n \<le> off \<or> off + length src \<le> a"
    and "a + n \<le> length dst"
  shows "take n (drop a (memcpy_at off src dst)) = take n (drop a dst)"
proof (cases "a + n \<le> off")
  case True
  then show ?thesis
    using assms by (simp add: memcpy_at_def min_def take_drop add.commute)
next
  case False
  then have "off + length src \<le> a" using assms by simp
  then obtain k where k: "a = off + length src + k" using le_Suc_ex by blast
  have "drop a (memcpy_at off src dst) = drop k (drop (off + length src) dst)"
    using assms k by (simp add: memcpy_at_def)
  then show ?thesis using k by (simp add: add.commute add.left_commute)
qed

section \<open>Little-endian integers in byte buffers\<close>

text \<open>
  \<open>put_u16\<close>, \<open>put_u32\<close>, \<open>put_u64\<close> of stream_socket_protocol.cpp store at a pointer; here
  they return the bytes stored. The readers take the bytes from the pointer on; they read
  the first 2, 4 or 8 of them and are only applied where that many are there.
\<close>

definition put_u16 :: "u16 \<Rightarrow> bytes" where
  "put_u16 value = [ucast (value AND 0xff), ucast (drop_bit 8 value AND 0xff)]"

definition put_u32 :: "u32 \<Rightarrow> bytes" where
  "put_u32 value =
     [ucast (value AND 0xff), ucast (drop_bit 8 value AND 0xff),
      ucast (drop_bit 16 value AND 0xff), ucast (drop_bit 24 value AND 0xff)]"

definition put_u64 :: "u64 \<Rightarrow> bytes" where
  "put_u64 value = put_u32 (ucast (value AND 0xffffffff)) @ put_u32 (ucast (drop_bit 32 value))"

definition get_u16 :: "bytes \<Rightarrow> u16" where
  "get_u16 b = ucast (b ! 0) OR push_bit 8 (ucast (b ! 1))"

definition get_u32 :: "bytes \<Rightarrow> u32" where
  "get_u32 b = ucast (b ! 0) OR push_bit 8 (ucast (b ! 1)) OR
     push_bit 16 (ucast (b ! 2)) OR push_bit 24 (ucast (b ! 3))"

definition get_u64 :: "bytes \<Rightarrow> u64" where
  "get_u64 b = ucast (get_u32 b) OR push_bit 32 (ucast (get_u32 (drop 4 b)))"

lemma length_put [simp]:
  "length (put_u16 a) = 2" "length (put_u32 b) = 4" "length (put_u64 c) = 8"
  by (simp_all add: put_u16_def put_u32_def put_u64_def)

lemma bit_ff [simp]: "bit (255 :: 'a::len word) n \<longleftrightarrow> n < 8 \<and> n < LENGTH('a)"
proof -
  have "(255 :: 'a word) = mask 8" by (simp add: mask_eq_exp_minus_1)
  then show ?thesis by (simp only: bit_mask_iff) auto
qed

lemma bit_ffffffff [simp]:
  "bit (4294967295 :: 'a::len word) n \<longleftrightarrow> n < 32 \<and> n < LENGTH('a)"
proof -
  have "(4294967295 :: 'a word) = mask 32" by (simp add: mask_eq_exp_minus_1)
  then show ?thesis by (simp only: bit_mask_iff) auto
qed

lemma bit_ff_plain [simp]:
  "bit (255 :: nat) n \<longleftrightarrow> n < 8" "bit (255 :: int) n \<longleftrightarrow> n < 8"
proof -
  have "(255 :: nat) = mask 8" and "(255 :: int) = mask 8"
    by (simp_all add: mask_eq_exp_minus_1)
  then show "bit (255 :: nat) n \<longleftrightarrow> n < 8" "bit (255 :: int) n \<longleftrightarrow> n < 8"
    by (simp_all only: bit_mask_iff) auto
qed

lemma bit_ffffffff_plain [simp]:
  "bit (4294967295 :: nat) n \<longleftrightarrow> n < 32" "bit (4294967295 :: int) n \<longleftrightarrow> n < 32"
proof -
  have "(4294967295 :: nat) = mask 32" and "(4294967295 :: int) = mask 32"
    by (simp_all add: mask_eq_exp_minus_1)
  then show "bit (4294967295 :: nat) n \<longleftrightarrow> n < 32" "bit (4294967295 :: int) n \<longleftrightarrow> n < 32"
    by (simp_all only: bit_mask_iff) auto
qed

lemma get_put_u16 [simp]: "get_u16 (put_u16 v @ rest) = v"
  by (rule bit_word_eqI) (auto simp: get_u16_def put_u16_def bit_simps)

lemma get_put_u32 [simp]: "get_u32 (put_u32 v @ rest) = v"
proof (rule bit_word_eqI)
  fix n assume "n < LENGTH(32)"
  then have n: "n < 32" by simp
  consider "n < 8" | "8 \<le> n \<and> n < 16" | "16 \<le> n \<and> n < 24" | "24 \<le> n"
    by linarith
  then show "bit (get_u32 (put_u32 v @ rest)) n = bit v n"
    using n by cases (auto simp: get_u32_def put_u32_def bit_simps)
qed

lemma get_put_u64 [simp]: "get_u64 (put_u64 v @ rest) = v"
proof -
  have "drop 4 (put_u64 v @ rest) = put_u32 (ucast (drop_bit 32 v)) @ rest"
    by (simp add: put_u64_def)
  moreover have "get_u32 (put_u64 v @ rest) = ucast (v AND 0xffffffff)"
    by (simp add: put_u64_def)
  ultimately have "get_u64 (put_u64 v @ rest) =
      ucast (ucast (v AND 0xffffffff) :: u32) OR
      push_bit 32 (ucast (ucast (drop_bit 32 v) :: u32))"
    by (simp add: get_u64_def)
  also have "\<dots> = v"
    by (rule bit_word_eqI) (auto simp: bit_simps)
  finally show ?thesis .
qed

lemmas get_put_nil [simp] =
  get_put_u16 [where rest = "[]", simplified]
  get_put_u32 [where rest = "[]", simplified]
  get_put_u64 [where rest = "[]", simplified]

lemma bit_u8_high [simp]: "8 \<le> n \<Longrightarrow> \<not> bit (b :: u8) n"
  using bit_imp_le_length by fastforce

lemma put_get_u16: "put_u16 (get_u16 [b, c]) = [b, c]"
  unfolding put_u16_def get_u16_def
  by (auto intro!: bit_word_eqI simp: bit_simps)

text \<open>Reading through a longer buffer only looks at the first bytes.\<close>

lemma get_u16_append: "2 \<le> length b \<Longrightarrow> get_u16 (b @ c) = get_u16 b"
  by (cases b; cases "tl b") (auto simp: get_u16_def nth_append)

lemma get_u32_append: "4 \<le> length b \<Longrightarrow> get_u32 (b @ c) = get_u32 b"
  by (subgoal_tac "0 < length b") (simp_all only: get_u32_def nth_append, simp)

lemma get_u64_append: "8 \<le> length b \<Longrightarrow> get_u64 (b @ c) = get_u64 b"
  by (simp add: get_u64_def nth_append get_u32_append)

end
