(* ===== verification/Frame_Queue.thy ===== *)
theory Frame_Queue
  imports Prelude
begin

text \<open>
  The two queue disciplines of the engine as interfaces. Frames leave both in arrival order;
  the capture ring refuses a frame when it is full, a stage's input queue drops its oldest
  one. The components that use a queue are proved from these laws.
\<close>

section \<open>Taking frames out\<close>

fun takes :: "('q \<Rightarrow> ('a \<times> 'q) option) \<Rightarrow> nat \<Rightarrow> 'q \<Rightarrow> 'a list \<times> 'q" where
  "takes deq 0 q = ([], q)"
| "takes deq (Suc n) q =
     (case deq q of
        None \<Rightarrow> ([], q)
      | Some (x, q') \<Rightarrow> (case takes deq n q' of (xs, q'') \<Rightarrow> (x # xs, q'')))"

locale fifo =
  fixes invar :: "'q \<Rightarrow> bool"
    and contents :: "'q \<Rightarrow> 'a list"
    and deq :: "'q \<Rightarrow> ('a \<times> 'q) option"
  assumes deq_nil: "invar q \<Longrightarrow> contents q = [] \<Longrightarrow> deq q = None"
    and deq_cons: "invar q \<Longrightarrow> contents q = x # xs \<Longrightarrow>
          \<exists>q'. deq q = Some (x, q') \<and> contents q' = xs \<and> invar q'"
begin

lemma deq_Some:
  assumes "invar q" and "deq q = Some (x, q')"
  shows "contents q = x # contents q' \<and> invar q'"
proof (cases "contents q")
  case Nil
  then show ?thesis using deq_nil assms by simp
next
  case (Cons y ys)
  then show ?thesis using deq_cons [OF assms(1) Cons] assms(2) by auto
qed

lemma deq_None_iff: "invar q \<Longrightarrow> deq q = None \<longleftrightarrow> contents q = []"
  using deq_nil deq_cons by (cases "contents q") fastforce+

lemma takes_contents:
  "invar q \<Longrightarrow> takes deq n q = (xs, q') \<Longrightarrow>
   xs = take n (contents q) \<and> contents q' = drop n (contents q) \<and> invar q'"
proof (induction n arbitrary: q xs)
  case (Suc n)
  show ?case
  proof (cases "contents q")
    case Nil
    then show ?thesis using Suc.prems deq_nil by simp
  next
    case (Cons y ys)
    then show ?thesis
      using deq_cons [OF Suc.prems(1) Cons] Suc.prems(2) Suc.IH
      by (fastforce split: prod.splits)
  qed
qed simp

end

section \<open>A queue that refuses when it is full\<close>

datatype 'a queue_op = Put 'a | Take

fun queue_run ::
  "('a \<Rightarrow> 'q \<Rightarrow> bool \<times> 'q) \<Rightarrow> ('q \<Rightarrow> ('a \<times> 'q) option) \<Rightarrow> 'a queue_op list \<Rightarrow> 'q
   \<Rightarrow> 'a list \<times> 'a list \<times> 'q" where
  "queue_run enq deq [] q = ([], [], q)"
| "queue_run enq deq (Put x # ops) q =
     (case enq x q of (ok, q') \<Rightarrow>
      case queue_run enq deq ops q' of (ins, outs, q'') \<Rightarrow> (if ok then x # ins else ins, outs, q''))"
| "queue_run enq deq (Take # ops) q =
     (case deq q of
        None \<Rightarrow> queue_run enq deq ops q
      | Some (x, q') \<Rightarrow>
          (case queue_run enq deq ops q' of (ins, outs, q'') \<Rightarrow> (ins, x # outs, q'')))"

locale refusing_fifo = fifo invar contents deq
  for invar :: "'q \<Rightarrow> bool" and contents :: "'q \<Rightarrow> 'a list"
    and deq :: "'q \<Rightarrow> ('a \<times> 'q) option" +
  fixes enq :: "'a \<Rightarrow> 'q \<Rightarrow> bool \<times> 'q"
    and room :: "'q \<Rightarrow> 'a \<Rightarrow> bool"
  assumes enq_room: "invar q \<Longrightarrow> room q x \<Longrightarrow>
      \<exists>q'. enq x q = (True, q') \<and> contents q' = contents q @ [x] \<and> invar q'"
    and enq_refused: "invar q \<Longrightarrow> \<not> room q x \<Longrightarrow> enq x q = (False, q)"
begin

lemma enq_cases:
  assumes "invar q" and "enq x q = (ok, q')"
  shows "ok = room q x \<and> invar q' \<and> contents q' = (if room q x then contents q @ [x] else contents q)"
  using enq_room [of q x] enq_refused [of q x] assms by (cases "room q x") auto

text \<open>Whatever the order of puts and takes, accepted frames come out once, in order.\<close>

lemma queue_run_fifo:
  "invar q \<Longrightarrow> queue_run enq deq ops q = (ins, outs, q') \<Longrightarrow>
   contents q @ ins = outs @ contents q' \<and> invar q'"
proof (induction ops arbitrary: q ins outs)
  case (Cons op ops)
  show ?case
  proof (cases op)
    case (Put x)
    then obtain ok q1 ins1 where e: "enq x q = (ok, q1)"
      and r: "queue_run enq deq ops q1 = (ins1, outs, q')" and i: "ins = (if ok then x # ins1 else ins1)"
      using Cons.prems(2) by (auto split: prod.splits)
    from enq_cases [OF Cons.prems(1) e] Cons.IH [OF _ r] i show ?thesis by (auto split: if_splits)
  next
    case Take
    show ?thesis
    proof (cases "deq q")
      case None
      with Take Cons show ?thesis by simp
    next
      case (Some p)
      then obtain x q1 where d: "deq q = Some (x, q1)" by (cases p) auto
      with Take Cons.prems(2) obtain outs1 where r: "queue_run enq deq ops q1 = (ins, outs1, q')"
        and o: "outs = x # outs1" by (auto split: prod.splits)
      from deq_Some [OF Cons.prems(1) d] Cons.IH [OF _ r] o show ?thesis by auto
    qed
  qed
qed simp

end

section \<open>A queue that drops its oldest frame\<close>

definition newest :: "nat \<Rightarrow> 'a list \<Rightarrow> 'a list" where
  "newest n xs = drop (length xs - n) xs"

lemma length_newest [simp]: "length (newest n xs) = min n (length xs)"
  by (simp add: newest_def)

lemma newest_short: "length xs \<le> n \<Longrightarrow> newest n xs = xs"
  by (simp add: newest_def)

lemma newest_snoc:
  assumes "0 < n" and "length xs \<le> n"
  shows "(if n \<le> length xs then tl xs else xs) @ [x] = newest n (xs @ [x])"
proof (cases "n \<le> length xs")
  case True
  with assms have "length xs = n" by simp
  with assms True show ?thesis by (cases xs) (simp_all add: newest_def)
qed (simp add: newest_def)

lemma newest_newest_append: "newest n (newest n xs @ ys) = newest n (xs @ ys)"
  by (cases "n \<le> length xs") (auto simp: newest_def add.commute)

locale dropping_fifo = fifo invar contents deq
  for invar :: "'q \<Rightarrow> bool" and contents :: "'q \<Rightarrow> 'a list"
    and deq :: "'q \<Rightarrow> ('a \<times> 'q) option" +
  fixes enq :: "'a \<Rightarrow> 'q \<Rightarrow> 'q"
    and cap :: "'q \<Rightarrow> nat"
    and admissible :: "'a \<Rightarrow> bool"
  assumes cap_pos: "invar q \<Longrightarrow> 0 < cap q"
    and bounded: "invar q \<Longrightarrow> length (contents q) \<le> cap q"
    and enq_contents: "invar q \<Longrightarrow> admissible x \<Longrightarrow>
          contents (enq x q) = newest (cap q) (contents q @ [x])"
    and enq_ignored: "\<not> admissible x \<Longrightarrow> enq x q = q"
    and enq_cap: "cap (enq x q) = cap q"
    and enq_invar: "invar q \<Longrightarrow> invar (enq x q)"
begin

text \<open>A burst leaves the newest \<open>cap\<close> frames; the overload never reaches the producer.\<close>

lemma burst_newest:
  "invar q \<Longrightarrow> contents (fold enq xs q) = newest (cap q) (contents q @ filter admissible xs) \<and>
     invar (fold enq xs q) \<and> cap (fold enq xs q) = cap q"
proof (induction xs arbitrary: q)
  case Nil
  then show ?case using bounded by (simp add: newest_short)
next
  case (Cons x xs)
  show ?case
  proof (cases "admissible x")
    case True
    from Cons.IH [OF enq_invar [OF Cons.prems]] show ?thesis
      using enq_contents [OF Cons.prems True] enq_cap True
        newest_newest_append [of "cap q" "contents q @ [x]" "filter admissible xs"]
      by simp
  next
    case False
    with Cons.IH [OF Cons.prems] show ?thesis by (simp add: enq_ignored)
  qed
qed

lemma newest_kept: "invar q \<Longrightarrow> admissible x \<Longrightarrow> last (contents (enq x q)) = x"
  using enq_contents [of q x] cap_pos [of q] by (simp add: newest_def last_drop)

end

end
