(* ===== verification/Shm_Ring.thy ===== *)
theory Shm_Ring
  imports Frame_Queue
begin

text \<open>
  core/include/zm/ShmRing.hpp and core/src/ShmRing.cpp: the single-producer,
  single-consumer ring in shared memory. The mapped segment is a header, an array of slot
  sizes and one flat byte buffer; slot \<open>i\<close> is \<open>slotSize\<close> bytes from \<open>i * slotSize\<close>.
  Indices stay below \<open>slotCount\<close>, so their \<open>size_t\<close> arithmetic does not wrap.

  First \<open>push\<close> and \<open>pop\<close> as whole calls, then the two of them interleaved one access to
  shared memory at a time.
\<close>

section \<open>State and operations\<close>

record shm_ring =
  rg_head :: nat
  rg_tail :: nat
  rg_slotCount :: nat
  rg_slotSize :: nat
  rg_slotSizes :: "nat list"
  rg_buffer :: bytes
  rg_cancelled :: bool

text \<open>The constructor; \<open>mem\<close> is what the mapped slot area holds, \<open>slotCount * slotSize\<close> bytes.\<close>

definition ShmRing_new :: "nat \<Rightarrow> nat \<Rightarrow> bytes \<Rightarrow> shm_ring" where
  "ShmRing_new slotCount slotSize mem =
     \<lparr>rg_head = 0, rg_tail = 0, rg_slotCount = slotCount, rg_slotSize = slotSize,
      rg_slotSizes = replicate slotCount 0, rg_buffer = mem, rg_cancelled = False\<rparr>"

definition store_size :: "nat \<Rightarrow> nat \<Rightarrow> shm_ring \<Rightarrow> shm_ring" where
  "store_size tail sz r = r\<lparr>rg_slotSizes := (rg_slotSizes r)[tail := sz]\<rparr>"

definition store_data :: "nat \<Rightarrow> bytes \<Rightarrow> shm_ring \<Rightarrow> shm_ring" where
  "store_data tail data r = r\<lparr>rg_buffer := memcpy_at (tail * rg_slotSize r) data (rg_buffer r)\<rparr>"

definition ring_push :: "bytes \<Rightarrow> shm_ring \<Rightarrow> bool \<times> shm_ring" where
  "ring_push data r =
     (if length data > rg_slotSize r then (False, r)
      else let head = rg_head r; tail = rg_tail r; next = (tail + 1) mod rg_slotCount r in
        if next = head then (False, r)
        else (True, (store_data tail data (store_size tail (length data) r))\<lparr>rg_tail := next\<rparr>))"

definition ring_cancel :: "shm_ring \<Rightarrow> shm_ring" where
  "ring_cancel r = r\<lparr>rg_cancelled := True\<rparr>"

definition read_slot :: "nat \<Rightarrow> shm_ring \<Rightarrow> bytes" where
  "read_slot i r = take (rg_slotSizes r ! i) (drop (i * rg_slotSize r) (rg_buffer r))"

text \<open>The part of \<open>pop\<close> after its wait: read the head slot and advance.\<close>

definition ring_take :: "shm_ring \<Rightarrow> (bytes \<times> shm_ring) option" where
  "ring_take r =
     (if rg_head r = rg_tail r then None
      else Some (read_slot (rg_head r) r, r\<lparr>rg_head := (rg_head r + 1) mod rg_slotCount r\<rparr>))"

text \<open>
  \<open>pop\<close> with its polling loop. Between two polls the environment (the producer, or the
  thread that cancels) acts on the ring; the list holds its actions, one per poll.
  \<open>PopWaiting\<close>: the list ended while the ring was empty and not cancelled.
\<close>

datatype pop_result = PopWaiting shm_ring | PopCancelled shm_ring | Popped bytes shm_ring

fun ring_pop :: "(shm_ring \<Rightarrow> shm_ring) list \<Rightarrow> shm_ring \<Rightarrow> pop_result" where
  "ring_pop env r =
     (case ring_take r of
        Some (data, r') \<Rightarrow> Popped data r'
      | None \<Rightarrow>
          if rg_cancelled r then PopCancelled r
          else (case env of [] \<Rightarrow> PopWaiting r | e # env' \<Rightarrow> ring_pop env' (e r)))"

declare ring_pop.simps [simp del]

section \<open>Invariant and contents\<close>

definition ring_ok :: "shm_ring \<Rightarrow> bool" where
  "ring_ok r \<longleftrightarrow> rg_head r < rg_slotCount r \<and> rg_tail r < rg_slotCount r \<and>
     length (rg_slotSizes r) = rg_slotCount r \<and>
     length (rg_buffer r) = rg_slotCount r * rg_slotSize r \<and>
     list_all (\<lambda>n. n \<le> rg_slotSize r) (rg_slotSizes r)"

definition ring_used :: "shm_ring \<Rightarrow> nat" where
  "ring_used r = (if rg_head r \<le> rg_tail r then rg_tail r - rg_head r
                  else rg_tail r + rg_slotCount r - rg_head r)"

definition ring_idx :: "shm_ring \<Rightarrow> nat \<Rightarrow> nat" where
  "ring_idx r k = (rg_head r + k) mod rg_slotCount r"

definition ring_contents :: "shm_ring \<Rightarrow> bytes list" where
  "ring_contents r = map (\<lambda>k. read_slot (ring_idx r k) r) [0..<ring_used r]"

definition ring_room :: "shm_ring \<Rightarrow> bytes \<Rightarrow> bool" where
  "ring_room r data \<longleftrightarrow> length data \<le> rg_slotSize r \<and> ring_used r + 1 < rg_slotCount r"

lemma ring_ok_new:
  "0 < slotCount \<Longrightarrow> length mem = slotCount * slotSize \<Longrightarrow> ring_ok (ShmRing_new slotCount slotSize mem)"
  by (simp add: ring_ok_def ShmRing_new_def list_all_iff)

lemma ring_contents_new [simp]: "ring_contents (ShmRing_new n s mem) = []"
  by (simp add: ring_contents_def ring_used_def ShmRing_new_def)

lemma mod_if_small: "(a::nat) < 2 * n \<Longrightarrow> a mod n = (if a < n then a else a - n)"
  by (simp add: mod_if)

lemma ring_ok_tail: "ring_ok r \<Longrightarrow> rg_tail r < rg_slotCount r"
  by (simp add: ring_ok_def)

lemma ring_idx_less: "ring_ok r \<Longrightarrow> ring_idx r k < rg_slotCount r"
  by (simp add: ring_ok_def ring_idx_def)

lemma ring_used_less: "ring_ok r \<Longrightarrow> ring_used r < rg_slotCount r"
  by (auto simp: ring_ok_def ring_used_def)

lemma ring_idx_used: "ring_ok r \<Longrightarrow> ring_idx r (ring_used r) = rg_tail r"
  by (auto simp: ring_ok_def ring_used_def ring_idx_def mod_if_small)

lemma ring_idx_not_tail:
  assumes "ring_ok r" and "k < ring_used r"
  shows "ring_idx r k \<noteq> rg_tail r"
proof -
  from assms have "rg_head r + k < 2 * rg_slotCount r"
    using ring_used_less [OF assms(1)] by (simp add: ring_ok_def)
  with assms show ?thesis
    by (auto simp: ring_ok_def ring_used_def ring_idx_def mod_if_small split: if_splits)
qed

lemma ring_full_iff:
  assumes "ring_ok r"
  shows "(rg_tail r + 1) mod rg_slotCount r = rg_head r \<longleftrightarrow> \<not> ring_used r + 1 < rg_slotCount r"
  using assms by (auto simp: ring_ok_def ring_used_def mod_if split: if_splits)

lemma slot_bounds:
  assumes "i < n" and "len \<le> (s::nat)"
  shows "i * s + len \<le> n * s"
proof -
  from assms(1) have "(i + 1) * s \<le> n * s" by (intro mult_le_mono1) simp
  with assms(2) show ?thesis by simp
qed

lemma slots_apart:
  assumes "i \<noteq> j" and "a \<le> s" and "b \<le> (s::nat)"
  shows "i * s + a \<le> j * s \<or> j * s + b \<le> i * s"
proof (cases "i < j")
  case True
  then have "i * s + a \<le> j * s" using slot_bounds [of i j a s] assms by simp
  then show ?thesis ..
next
  case False
  with assms have "j * s + b \<le> i * s" using slot_bounds [of j i b s] by simp
  then show ?thesis ..
qed

text \<open>Writing the tail slot does not change any slot that is in use.\<close>

lemma read_slot_store_data:
  assumes ok: "ring_ok r" and t: "t < rg_slotCount r" and len: "length data \<le> rg_slotSize r"
    and i: "i < rg_slotCount r" "i \<noteq> t"
  shows "read_slot i (store_data t data r) = read_slot i r"
proof -
  let ?s = "rg_slotSize r" and ?n = "rg_slotSizes r ! i"
  have n: "?n \<le> ?s" using ok i(1) by (simp add: ring_ok_def list_all_length)
  have "t * ?s + length data \<le> length (rg_buffer r)"
    using slot_bounds [OF t len] ok by (simp add: ring_ok_def)
  moreover have "i * ?s + ?n \<le> length (rg_buffer r)"
    using slot_bounds [OF i(1) n] ok by (simp add: ring_ok_def)
  moreover have "i * ?s + ?n \<le> t * ?s \<or> t * ?s + length data \<le> i * ?s"
    using slots_apart [OF i(2) n len] .
  ultimately show ?thesis
    by (simp add: read_slot_def store_data_def memcpy_at_read_other)
qed

lemma read_slot_store_size: "i \<noteq> t \<Longrightarrow> read_slot i (store_size t n r) = read_slot i r"
  by (simp add: read_slot_def store_size_def)

lemma read_slot_written:
  assumes ok: "ring_ok r" and t: "t < rg_slotCount r" and len: "length data \<le> rg_slotSize r"
    and sz: "rg_slotSizes r ! t = length data"
  shows "read_slot t (store_data t data r) = data"
proof -
  have "t * rg_slotSize r + length data \<le> length (rg_buffer r)"
    using slot_bounds [OF t len] ok by (simp add: ring_ok_def)
  then show ?thesis
    using sz memcpy_at_read_same by (simp add: read_slot_def store_data_def)
qed

lemma ring_fields [simp]:
  "rg_head (store_data t d r) = rg_head r" "rg_tail (store_data t d r) = rg_tail r"
  "rg_slotCount (store_data t d r) = rg_slotCount r" "rg_slotSize (store_data t d r) = rg_slotSize r"
  "rg_slotSizes (store_data t d r) = rg_slotSizes r"
  "rg_head (store_size t n r) = rg_head r" "rg_tail (store_size t n r) = rg_tail r"
  "rg_slotCount (store_size t n r) = rg_slotCount r" "rg_slotSize (store_size t n r) = rg_slotSize r"
  "rg_slotSizes (store_size t n r) = (rg_slotSizes r)[t := n]"
  "rg_buffer (store_size t n r) = rg_buffer r"
  by (simp_all add: store_data_def store_size_def)

lemma ring_ok_store_size [inv_intros]:
  "ring_ok r \<Longrightarrow> n \<le> rg_slotSize r \<Longrightarrow> ring_ok (store_size t n r)"
  by (cases "t < length (rg_slotSizes r)")
    (auto simp: ring_ok_def list_all_length nth_list_update list_update_beyond)

lemma ring_ok_store_data [inv_intros]:
  assumes "ring_ok r" and "t < rg_slotCount r" and "length d \<le> rg_slotSize r"
  shows "ring_ok (store_data t d r)"
proof -
  have "t * rg_slotSize r + length d \<le> length (rg_buffer r)"
    using slot_bounds [OF assms(2,3)] assms(1) by (simp add: ring_ok_def)
  then have "length (rg_buffer (store_data t d r)) = length (rg_buffer r)"
    by (simp add: store_data_def)
  with assms(1) show ?thesis by (simp add: ring_ok_def)
qed

lemma ring_contents_cong:
  assumes "rg_head r' = rg_head r" and "rg_tail r' = rg_tail r"
    and "rg_slotCount r' = rg_slotCount r"
    and "\<And>k. k < ring_used r \<Longrightarrow> read_slot (ring_idx r k) r' = read_slot (ring_idx r k) r"
  shows "ring_contents r' = ring_contents r"
proof -
  have "ring_used r' = ring_used r" and "\<And>k. ring_idx r' k = ring_idx r k"
    using assms(1-3) by (simp_all add: ring_used_def ring_idx_def)
  with assms(4) show ?thesis by (simp add: ring_contents_def)
qed

lemma contents_store_size:
  "ring_ok r \<Longrightarrow> ring_contents (store_size (rg_tail r) n r) = ring_contents r"
  by (rule ring_contents_cong) (simp_all add: read_slot_store_size ring_idx_not_tail)

lemma contents_store_data:
  "ring_ok r \<Longrightarrow> length d \<le> rg_slotSize r \<Longrightarrow>
   ring_contents (store_data (rg_tail r) d r) = ring_contents r"
  by (rule ring_contents_cong)
    (simp_all add: read_slot_store_data ring_idx_not_tail ring_idx_less ring_ok_tail)

lemma ring_used_publish:
  assumes "ring_ok r" and "ring_used r + 1 < rg_slotCount r"
  shows "ring_used (r\<lparr>rg_tail := (rg_tail r + 1) mod rg_slotCount r\<rparr>) = ring_used r + 1"
  using assms by (auto simp: ring_ok_def ring_used_def mod_if split: if_splits)

lemma contents_publish:
  assumes ok: "ring_ok r" and room: "ring_used r + 1 < rg_slotCount r"
  shows "ring_contents (r\<lparr>rg_tail := (rg_tail r + 1) mod rg_slotCount r\<rparr>) =
           ring_contents r @ [read_slot (rg_tail r) r]"
proof -
  let ?r = "r\<lparr>rg_tail := (rg_tail r + 1) mod rg_slotCount r\<rparr>"
  have "read_slot (ring_idx ?r k) ?r = read_slot (ring_idx r k) r" for k
    by (simp add: ring_idx_def read_slot_def)
  then show ?thesis
    using ring_used_publish [OF assms] ring_idx_used [OF ok] by (simp add: ring_contents_def)
qed

lemma ring_ok_publish [inv_intros]:
  "ring_ok r \<Longrightarrow> ring_ok (r\<lparr>rg_tail := (rg_tail r + 1) mod rg_slotCount r\<rparr>)"
  by (auto simp: ring_ok_def)

lemma ring_ok_advance [inv_intros]:
  "ring_ok r \<Longrightarrow> ring_ok (r\<lparr>rg_head := (rg_head r + 1) mod rg_slotCount r\<rparr>)"
  by (auto simp: ring_ok_def)

lemma ring_used_0_iff: "ring_ok r \<Longrightarrow> ring_used r = 0 \<longleftrightarrow> rg_head r = rg_tail r"
  by (auto simp: ring_ok_def ring_used_def)

lemma ring_used_advance:
  assumes "ring_ok r" and "rg_head r \<noteq> rg_tail r"
  shows "ring_used r = Suc (ring_used (r\<lparr>rg_head := (rg_head r + 1) mod rg_slotCount r\<rparr>))"
  using assms by (auto simp: ring_ok_def ring_used_def mod_if split: if_splits)

lemma contents_advance:
  assumes ok: "ring_ok r" and ne: "rg_head r \<noteq> rg_tail r"
  shows "ring_contents r =
     read_slot (rg_head r) r # ring_contents (r\<lparr>rg_head := (rg_head r + 1) mod rg_slotCount r\<rparr>)"
proof -
  let ?r = "r\<lparr>rg_head := (rg_head r + 1) mod rg_slotCount r\<rparr>"
  have "ring_idx ?r k = ring_idx r (Suc k)" for k
    by (simp add: ring_idx_def mod_simps)
  moreover have "ring_idx r 0 = rg_head r" using ok by (simp add: ring_idx_def ring_ok_def)
  ultimately show ?thesis
    using ring_used_advance [OF assms]
    by (simp add: ring_contents_def map_upt_Suc read_slot_def del: upt_Suc)
qed

section \<open>The ring as a refusing queue\<close>

lemma ring_push_accepts:
  assumes ok: "ring_ok r" and room: "ring_room r data"
  shows "\<exists>r'. ring_push data r = (True, r') \<and> ring_contents r' = ring_contents r @ [data] \<and> ring_ok r'"
proof -
  let ?t = "rg_tail r"
  let ?r1 = "store_size ?t (length data) r" let ?r2 = "store_data ?t data ?r1"
  have len: "length data \<le> rg_slotSize r" and used: "ring_used r + 1 < rg_slotCount r"
    using room by (simp_all add: ring_room_def)
  have t: "?t < rg_slotCount r" using ok by (rule ring_ok_tail)
  have ok1: "ring_ok ?r1" using ok len by (rule ring_ok_store_size)
  have ok2: "ring_ok ?r2" using ok1 t len by (simp add: ring_ok_store_data)
  have c2: "ring_contents ?r2 = ring_contents r"
    using contents_store_data [OF ok1, of data] contents_store_size [OF ok] len by simp
  have used2: "ring_used ?r2 = ring_used r" by (simp add: ring_used_def)
  have "rg_slotSizes ?r1 ! ?t = length data" using ok t by (simp add: ring_ok_def)
  then have read: "read_slot ?t ?r2 = data" using ok1 t len by (simp add: read_slot_written)
  have "ring_push data r = (True, ?r2\<lparr>rg_tail := (?t + 1) mod rg_slotCount r\<rparr>)"
    using ring_full_iff [OF ok] used len by (simp add: ring_push_def Let_def)
  moreover have "ring_contents (?r2\<lparr>rg_tail := (?t + 1) mod rg_slotCount r\<rparr>) = ring_contents r @ [data]"
    using contents_publish [OF ok2] used used2 c2 read by simp
  moreover have "ring_ok (?r2\<lparr>rg_tail := (?t + 1) mod rg_slotCount r\<rparr>)"
    using ring_ok_publish [OF ok2] by simp
  ultimately show ?thesis by blast
qed

lemma ring_push_refuses:
  "ring_ok r \<Longrightarrow> \<not> ring_room r data \<Longrightarrow> ring_push data r = (False, r)"
  using ring_full_iff [of r] by (auto simp: ring_push_def ring_room_def Let_def)

interpretation rq: refusing_fifo ring_ok ring_contents ring_take ring_push ring_room
proof
  fix r :: shm_ring
  assume ok: "ring_ok r"
  {
    assume "ring_contents r = []"
    then have "ring_used r = 0" by (simp add: ring_contents_def)
    then show "ring_take r = None" using ring_used_0_iff [OF ok] by (simp add: ring_take_def)
  next
    fix x xs assume c: "ring_contents r = x # xs"
    then have "ring_used r \<noteq> 0" by (cases "ring_used r = 0") (auto simp: ring_contents_def)
    then have ne: "rg_head r \<noteq> rg_tail r" using ring_used_0_iff [OF ok] by simp
    show "\<exists>r'. ring_take r = Some (x, r') \<and> ring_contents r' = xs \<and> ring_ok r'"
      using contents_advance [OF ok ne] ring_ok_advance [OF ok] c ne by (auto simp: ring_take_def)
  next
    fix data assume "ring_room r data"
    with ok show "\<exists>r'. ring_push data r = (True, r') \<and> ring_contents r' = ring_contents r @ [data] \<and>
        ring_ok r'" by (rule ring_push_accepts)
  next
    fix data assume "\<not> ring_room r data"
    with ok show "ring_push data r = (False, r)" by (rule ring_push_refuses)
  }
qed

section \<open>Producer and consumer interleaved\<close>

text \<open>
  One rule per access to shared memory. The producer loads \<open>head\<close> (acquire) and its own
  \<open>tail\<close>, then writes the size, the bytes, and publishes \<open>tail\<close> (release); the consumer loads
  its own \<open>head\<close> and \<open>tail\<close> (acquire), reads the size and the bytes, and stores \<open>head\<close>
  (release). The acquire and release pairs order the slot accesses as the interleaving does.
  \<open>pushed\<close> and \<open>popped\<close> record the frames accepted and returned.
\<close>

datatype prod_pc = PIdle | PGo bytes nat nat | PSized bytes nat nat | PCopied bytes nat nat
datatype cons_pc = CIdle | CGo nat | CSized nat nat | CRead nat bytes

record spsc =
  ring :: shm_ring
  prod :: prod_pc
  cons :: cons_pc
  pushed :: "bytes list"
  popped :: "bytes list"

definition spsc_init :: "shm_ring \<Rightarrow> spsc" where
  "spsc_init r = \<lparr>ring = r, prod = PIdle, cons = CIdle, pushed = [], popped = []\<rparr>"

inductive spsc_step :: "spsc \<Rightarrow> spsc \<Rightarrow> bool" where
  push_reject: "prod s = PIdle \<Longrightarrow>
     length (data :: bytes) > rg_slotSize (ring s) \<or>
     (rg_tail (ring s) + 1) mod rg_slotCount (ring s) = rg_head (ring s) \<Longrightarrow> spsc_step s s"
| push_begin: "prod s = PIdle \<Longrightarrow> \<not> length data > rg_slotSize (ring s) \<Longrightarrow>
     tail = rg_tail (ring s) \<Longrightarrow> nxt = (tail + 1) mod rg_slotCount (ring s) \<Longrightarrow>
     nxt \<noteq> rg_head (ring s) \<Longrightarrow> spsc_step s (s\<lparr>prod := PGo data tail nxt\<rparr>)"
| push_size: "prod s = PGo data tail nxt \<Longrightarrow>
     spsc_step s (s\<lparr>prod := PSized data tail nxt, ring := store_size tail (length data) (ring s)\<rparr>)"
| push_copy: "prod s = PSized data tail nxt \<Longrightarrow>
     spsc_step s (s\<lparr>prod := PCopied data tail nxt, ring := store_data tail data (ring s)\<rparr>)"
| push_publish: "prod s = PCopied data tail nxt \<Longrightarrow>
     spsc_step s (s\<lparr>prod := PIdle, ring := (ring s)\<lparr>rg_tail := nxt\<rparr>, pushed := pushed s @ [data]\<rparr>)"
| pop_begin: "cons s = CIdle \<Longrightarrow> head = rg_head (ring s) \<Longrightarrow> head \<noteq> rg_tail (ring s) \<Longrightarrow>
     spsc_step s (s\<lparr>cons := CGo head\<rparr>)"
| pop_size: "cons s = CGo head \<Longrightarrow>
     spsc_step s (s\<lparr>cons := CSized head (rg_slotSizes (ring s) ! head)\<rparr>)"
| pop_copy: "cons s = CSized head n \<Longrightarrow>
     spsc_step s (s\<lparr>cons := CRead head (take n (drop (head * rg_slotSize (ring s)) (rg_buffer (ring s))))\<rparr>)"
| pop_advance: "cons s = CRead head data \<Longrightarrow>
     spsc_step s (s\<lparr>cons := CIdle, popped := popped s @ [data],
       ring := (ring s)\<lparr>rg_head := (head + 1) mod rg_slotCount (ring s)\<rparr>\<rparr>)"
| cancel: "spsc_step s (s\<lparr>ring := ring_cancel (ring s)\<rparr>)"

inductive spsc_reachable :: "shm_ring \<Rightarrow> spsc \<Rightarrow> bool" for r where
  init: "spsc_reachable r (spsc_init r)"
| step: "spsc_reachable r s \<Longrightarrow> spsc_step s t \<Longrightarrow> spsc_reachable r t"

text \<open>
  The invariant. A producer that is past its checks owns the tail slot, whose size (after
  \<open>push_size\<close>) and bytes (after \<open>push_copy\<close>) are the frame's; a consumer that is past its
  wait holds the size and the bytes of the oldest frame.
\<close>

definition prod_ok :: "spsc \<Rightarrow> bool" where
  "prod_ok s \<longleftrightarrow>
     (case prod s of
        PIdle \<Rightarrow> True
      | PGo data tail nxt \<Rightarrow> ring_room (ring s) data \<and> tail = rg_tail (ring s) \<and>
          nxt = (tail + 1) mod rg_slotCount (ring s)
      | PSized data tail nxt \<Rightarrow> ring_room (ring s) data \<and> tail = rg_tail (ring s) \<and>
          nxt = (tail + 1) mod rg_slotCount (ring s) \<and> rg_slotSizes (ring s) ! tail = length data
      | PCopied data tail nxt \<Rightarrow> ring_room (ring s) data \<and> tail = rg_tail (ring s) \<and>
          nxt = (tail + 1) mod rg_slotCount (ring s) \<and> read_slot tail (ring s) = data)"

definition cons_ok :: "spsc \<Rightarrow> bool" where
  "cons_ok s \<longleftrightarrow>
     (case cons s of
        CIdle \<Rightarrow> True
      | CGo head \<Rightarrow> head = rg_head (ring s) \<and> head \<noteq> rg_tail (ring s)
      | CSized head n \<Rightarrow> head = rg_head (ring s) \<and> head \<noteq> rg_tail (ring s) \<and>
          n = rg_slotSizes (ring s) ! head
      | CRead head data \<Rightarrow> head = rg_head (ring s) \<and> head \<noteq> rg_tail (ring s) \<and>
          data = read_slot head (ring s))"

definition spsc_inv :: "spsc \<Rightarrow> bool" where
  "spsc_inv s \<longleftrightarrow> ring_ok (ring s) \<and> prod_ok s \<and> cons_ok s \<and>
     pushed s = popped s @ ring_contents (ring s)"

lemma spsc_inv_init: "ring_ok r \<Longrightarrow> ring_contents r = [] \<Longrightarrow> spsc_inv (spsc_init r)"
  by (simp add: spsc_inv_def spsc_init_def prod_ok_def cons_ok_def)

lemma ring_room_store [simp]:
  "ring_room (store_size t n r) d = ring_room r d" "ring_room (store_data t e r) d = ring_room r d"
  by (simp_all add: ring_room_def ring_used_def)

lemma spsc_inv_push_begin:
  assumes "spsc_inv s" and "prod s = PIdle" and "\<not> length data > rg_slotSize (ring s)"
    and "tail = rg_tail (ring s)" and "nxt = (tail + 1) mod rg_slotCount (ring s)"
    and "nxt \<noteq> rg_head (ring s)"
  shows "spsc_inv (s\<lparr>prod := PGo data tail nxt\<rparr>)"
proof -
  have "cons_ok (s\<lparr>prod := PGo data tail nxt\<rparr>) = cons_ok s"
    by (simp add: cons_ok_def split: cons_pc.split)
  then show ?thesis
    using assms ring_full_iff [of "ring s"]
    by (auto simp: spsc_inv_def prod_ok_def ring_room_def)
qed

lemma spsc_inv_push_size:
  assumes inv: "spsc_inv s" and pc: "prod s = PGo data tail nxt"
  shows "spsc_inv (s\<lparr>prod := PSized data tail nxt, ring := store_size tail (length data) (ring s)\<rparr>)"
proof -
  have ok: "ring_ok (ring s)" and t: "tail = rg_tail (ring s)" and room: "ring_room (ring s) data"
    using inv pc by (auto simp: spsc_inv_def prod_ok_def)
  have len: "length data \<le> rg_slotSize (ring s)" using room by (simp add: ring_room_def)
  have "cons_ok (s\<lparr>prod := PSized data tail nxt, ring := store_size tail (length data) (ring s)\<rparr>)"
    using inv t by (auto simp: spsc_inv_def cons_ok_def read_slot_store_size split: cons_pc.splits)
  moreover have "rg_slotSizes (store_size tail (length data) (ring s)) ! tail = length data"
    using ok t by (simp add: ring_ok_def)
  ultimately show ?thesis
    using inv pc room t len ring_ok_store_size [OF ok] contents_store_size [OF ok]
    by (auto simp: spsc_inv_def prod_ok_def)
qed

lemma spsc_inv_push_copy:
  assumes inv: "spsc_inv s" and pc: "prod s = PSized data tail nxt"
  shows "spsc_inv (s\<lparr>prod := PCopied data tail nxt, ring := store_data tail data (ring s)\<rparr>)"
proof -
  have ok: "ring_ok (ring s)" and t: "tail = rg_tail (ring s)" and room: "ring_room (ring s) data"
    and sz: "rg_slotSizes (ring s) ! tail = length data"
    using inv pc by (auto simp: spsc_inv_def prod_ok_def)
  have len: "length data \<le> rg_slotSize (ring s)" using room by (simp add: ring_room_def)
  have lt: "tail < rg_slotCount (ring s)" using ok t by (simp add: ring_ok_tail)
  have hd: "rg_head (ring s) < rg_slotCount (ring s)" using ok by (simp add: ring_ok_def)
  have "cons_ok (s\<lparr>prod := PCopied data tail nxt, ring := store_data tail data (ring s)\<rparr>)"
    using inv t hd read_slot_store_data [OF ok lt len hd]
    by (auto simp: spsc_inv_def cons_ok_def split: cons_pc.splits)
  then show ?thesis
    using inv pc room t len lt ring_ok_store_data [OF ok lt len] contents_store_data [OF ok len]
      read_slot_written [OF ok lt len sz]
    by (simp add: spsc_inv_def prod_ok_def)
qed

lemma spsc_inv_push_publish:
  assumes inv: "spsc_inv s" and pc: "prod s = PCopied data tail nxt"
  shows "spsc_inv (s\<lparr>prod := PIdle, ring := (ring s)\<lparr>rg_tail := nxt\<rparr>, pushed := pushed s @ [data]\<rparr>)"
proof -
  let ?r = "ring s"
  have ok: "ring_ok ?r" and t: "tail = rg_tail ?r" and room: "ring_used ?r + 1 < rg_slotCount ?r"
    and n: "nxt = (rg_tail ?r + 1) mod rg_slotCount ?r" and d: "read_slot (rg_tail ?r) ?r = data"
    using inv pc by (auto simp: spsc_inv_def prod_ok_def ring_room_def)
  have ne: "rg_head ?r \<noteq> nxt" using ring_full_iff [OF ok] room n by auto
  have "cons_ok (s\<lparr>prod := PIdle, ring := ?r\<lparr>rg_tail := nxt\<rparr>, pushed := pushed s @ [data]\<rparr>)"
    using inv ne by (auto simp: spsc_inv_def cons_ok_def read_slot_def split: cons_pc.splits)
  then show ?thesis
    using inv contents_publish [OF ok room] ring_ok_publish [OF ok] n d
    by (simp add: spsc_inv_def prod_ok_def)
qed

lemma spsc_inv_pop_advance:
  assumes inv: "spsc_inv s" and pc: "cons s = CRead head data"
  shows "spsc_inv (s\<lparr>cons := CIdle, popped := popped s @ [data],
     ring := (ring s)\<lparr>rg_head := (head + 1) mod rg_slotCount (ring s)\<rparr>\<rparr>)"
proof -
  let ?r = "ring s" and ?r' = "(ring s)\<lparr>rg_head := (head + 1) mod rg_slotCount (ring s)\<rparr>"
  have ok: "ring_ok ?r" and h: "head = rg_head ?r" and ne: "rg_head ?r \<noteq> rg_tail ?r"
    and d: "data = read_slot (rg_head ?r) ?r"
    using inv pc by (simp_all add: spsc_inv_def cons_ok_def)
  have "ring_room ?r' x" if "ring_room ?r x" for x
    using that ring_used_advance [OF ok ne] h by (simp add: ring_room_def)
  then have "prod_ok (s\<lparr>cons := CIdle, popped := popped s @ [data], ring := ?r'\<rparr>)"
    using inv by (auto simp: spsc_inv_def prod_ok_def read_slot_def split: prod_pc.splits)
  then show ?thesis
    using inv contents_advance [OF ok ne] ring_ok_advance [OF ok] h d
    by (simp add: spsc_inv_def cons_ok_def)
qed

lemma spsc_inv_pop_read:
  "spsc_inv s \<Longrightarrow> cons s = CIdle \<Longrightarrow> rg_head (ring s) \<noteq> rg_tail (ring s) \<Longrightarrow>
     spsc_inv (s\<lparr>cons := CGo (rg_head (ring s))\<rparr>)"
  "spsc_inv s \<Longrightarrow> cons s = CGo head \<Longrightarrow>
     spsc_inv (s\<lparr>cons := CSized head (rg_slotSizes (ring s) ! head)\<rparr>)"
  "spsc_inv s \<Longrightarrow> cons s = CSized head n \<Longrightarrow>
     spsc_inv (s\<lparr>cons := CRead head (take n (drop (head * rg_slotSize (ring s)) (rg_buffer (ring s))))\<rparr>)"
  by (auto simp: spsc_inv_def cons_ok_def prod_ok_def read_slot_def split: prod_pc.splits)

lemma spsc_inv_cancel: "spsc_inv s \<Longrightarrow> spsc_inv (s\<lparr>ring := ring_cancel (ring s)\<rparr>)"
  by (auto simp: spsc_inv_def cons_ok_def prod_ok_def ring_cancel_def ring_ok_def ring_room_def
      ring_used_def read_slot_def ring_contents_def ring_idx_def split: prod_pc.splits cons_pc.splits)

lemma spsc_step_inv: "spsc_step s t \<Longrightarrow> spsc_inv s \<Longrightarrow> spsc_inv t"
  by (induction rule: spsc_step.induct)
    (blast intro: spsc_inv_push_begin spsc_inv_push_size spsc_inv_push_copy spsc_inv_push_publish
      spsc_inv_pop_read spsc_inv_pop_advance spsc_inv_cancel)+

lemma spsc_reachable_inv:
  assumes "spsc_reachable r s" and "ring_ok r" and "ring_contents r = []"
  shows "spsc_inv s"
  using assms(1) by induction (use assms(2,3) spsc_inv_init spsc_step_inv in blast)+

section \<open>Waiting\<close>

lemma ring_pop_wakes:
  "list_all (\<lambda>e. e = id) env \<Longrightarrow> ring_take r = None \<Longrightarrow> \<not> rg_cancelled r \<Longrightarrow>
   ring_pop (env @ [ring_cancel]) r = PopCancelled (ring_cancel r)"
proof (induction env)
  case Nil
  then show ?case
    by (simp add: ring_pop.simps ring_take_def ring_cancel_def split: if_splits)
next
  case (Cons e env)
  then show ?case by (subst ring_pop.simps) simp
qed

section \<open>Properties\<close>

text \<open>C13. The shared-memory ring is race free: however the producer's and the consumer's
  accesses interleave from a fresh ring, the frames popped so far followed by the frames in
  the ring are exactly the frames accepted, in order and with their bytes intact; a slot is
  never read while it is being written.\<close>

theorem spsc_fifo:
  assumes "0 < slotCount" and "length mem = slotCount * slotSize"
    and "spsc_reachable (ShmRing_new slotCount slotSize mem) s"
  shows "pushed s = popped s @ ring_contents (ring s)"
proof -
  from assms(1,2) have "ring_ok (ShmRing_new slotCount slotSize mem)" by (rule ring_ok_new)
  from spsc_reachable_inv [OF assms(3) this ring_contents_new] show ?thesis
    by (simp add: spsc_inv_def)
qed

text \<open>Two steps of a concrete run: a push of one byte begins and writes its size.\<close>

theorem spsc_fifo_witness:
  "\<exists>s. spsc_reachable (ShmRing_new 2 1 [0, 0]) s \<and> prod s = PSized [7] 0 1 \<and>
     pushed s = popped s @ ring_contents (ring s)"
proof -
  let ?r = "ShmRing_new 2 1 [0, 0]"
  let ?s0 = "spsc_init ?r" let ?s1 = "?s0\<lparr>prod := PGo [7] 0 1\<rparr>"
  let ?s2 = "?s1\<lparr>prod := PSized [7] 0 1, ring := store_size 0 (length [7 :: u8]) (ring ?s1)\<rparr>"
  have "spsc_step ?s0 ?s1"
    by (rule spsc_step.push_begin) (simp_all add: spsc_init_def ShmRing_new_def)
  moreover have "spsc_step ?s1 ?s2" by (rule spsc_step.push_size) simp
  ultimately have r2: "spsc_reachable ?r ?s2"
    using spsc_reachable.init spsc_reachable.step by blast
  have "pushed ?s2 = popped ?s2 @ ring_contents (ring ?s2)"
    by (rule spsc_fifo [of 2 "[0, 0]" 1, OF _ _ r2]) simp_all
  with r2 show ?thesis by (intro exI [of _ ?s2]) simp
qed

text \<open>As whole calls, \<open>push\<close> and \<open>pop\<close> run in any order on a fresh ring hand out exactly
  the accepted frames in order: what was put in is what came out followed by what is left.\<close>

theorem ring_push_pop_fifo:
  assumes "0 < slotCount" and "length mem = slotCount * slotSize"
    and "queue_run ring_push ring_take ops (ShmRing_new slotCount slotSize mem) = (ins, outs, r')"
  shows "ins = outs @ ring_contents r'"
  using rq.queue_run_fifo [OF ring_ok_new [OF assms(1,2)] assms(3)] by simp

theorem ring_push_pop_fifo_witness:
  "\<exists>r'. queue_run ring_push ring_take [Put [1], Put [2, 3], Put [4], Take]
     (ShmRing_new 3 2 [0, 0, 0, 0, 0, 0]) = ([[1], [2, 3]], [[1]], r') \<and>
   [[1], [2, 3]] = [[1]] @ ring_contents r'"
proof -
  let ?ops = "[Put [1], Put [2, 3], Put [4], Take]" and ?r = "ShmRing_new 3 2 [0, 0, 0, 0, 0, 0]"
  obtain r' where r': "queue_run ring_push ring_take ?ops ?r = ([[1], [2, 3]], [[1]], r')"
    by (simp add: ring_push_def ring_take_def ShmRing_new_def Let_def store_size_def store_data_def
        memcpy_at_def read_slot_def)
  with ring_push_pop_fifo [of 3 "[0, 0, 0, 0, 0, 0]" 2, OF _ _ r'] show ?thesis by auto
qed

text \<open>The ring refuses a frame exactly when the frame is larger than a slot or
  \<open>slotCount - 1\<close> frames are waiting, and then leaves its state alone; otherwise it appends
  the frame. One slot is never used.\<close>

theorem ring_push_result:
  assumes "ring_ok r" and "ring_push data r = (ok, r')"
  shows "(ok \<longleftrightarrow> length data \<le> rg_slotSize r \<and> length (ring_contents r) + 1 < rg_slotCount r) \<and>
    (if ok then ring_contents r' = ring_contents r @ [data] else r' = r) \<and> ring_ok r'"
proof -
  have "length (ring_contents r) = ring_used r" by (simp add: ring_contents_def)
  with rq.enq_cases [OF assms] rq.enq_refused [OF assms(1), of data] assms(2) show ?thesis
    by (auto simp: ring_room_def)
qed

theorem ring_push_result_witness:
  "ring_ok (ShmRing_new 1 4 [0, 0, 0, 0]) \<and>
   ring_push [1] (ShmRing_new 1 4 [0, 0, 0, 0]) = (False, ShmRing_new 1 4 [0, 0, 0, 0])"
proof -
  let ?r = "ShmRing_new 1 4 [0, 0, 0, 0]"
  have ok: "ring_ok ?r" by (rule ring_ok_new) simp_all
  obtain b r' where p: "ring_push [1] ?r = (b, r')" by fastforce
  from ring_push_result [OF ok p] have "b = False \<and> r' = ?r"
    by (auto simp: ShmRing_new_def split: if_splits)
  with ok p show ?thesis by simp
qed

text \<open>A \<open>pop\<close> that waits on an empty ring returns false at the first poll after
  \<open>cancel\<close>, however many polls found the ring empty before it: shutdown is not blocked by a
  silent camera.\<close>

theorem ring_pop_cancellable:
  assumes "ring_take r = None" and "\<not> rg_cancelled r"
  shows "ring_pop (replicate n id @ [ring_cancel]) r = PopCancelled (ring_cancel r)"
  by (rule ring_pop_wakes) (use assms in \<open>simp_all add: list_all_iff\<close>)

theorem ring_pop_cancellable_witness:
  "ring_take (ShmRing_new 2 1 [0, 0]) = None \<and> \<not> rg_cancelled (ShmRing_new 2 1 [0, 0]) \<and>
   ring_pop (replicate 3 id @ [ring_cancel]) (ShmRing_new 2 1 [0, 0]) =
     PopCancelled (ring_cancel (ShmRing_new 2 1 [0, 0]))"
proof -
  have h: "ring_take (ShmRing_new 2 1 [0, 0]) = None" "\<not> rg_cancelled (ShmRing_new 2 1 [0, 0])"
    by (simp_all add: ring_take_def ShmRing_new_def)
  with ring_pop_cancellable [OF h, of 3] show ?thesis by blast
qed

end
