(* ===== verification/Json_Api.thy ===== *)
theory Json_Api
  imports Prelude
begin

text \<open>
  The JSON library (nlohmann::json) as the program uses it. It is not part of the repository,
  so every function that reads or writes JSON takes its operations as the argument \<open>J\<close>, a
  record over the type \<open>'j\<close> of JSON values. \<open>None\<close> in a reader is the exception that the
  library documents for a value of the wrong type.

  \<open>jdoc_api\<close> at the end is one concrete instance, on a plain document type. It only serves
  to evaluate the program's functions on concrete inputs.
\<close>

datatype json_scalar = ScalarU64 u64 | ScalarInt int | ScalarBool bool | ScalarStr string

record 'j json_api =
  j_parse :: "string \<Rightarrow> 'j option"              \<comment> \<open>parse; None: parse error or discarded\<close>
  j_dump :: "'j \<Rightarrow> string option"              \<comment> \<open>dump()\<close>
  j_is_object :: "'j \<Rightarrow> bool"
  j_is_array :: "'j \<Rightarrow> bool"
  j_is_string :: "'j \<Rightarrow> bool"
  j_is_integer :: "'j \<Rightarrow> bool"                 \<comment> \<open>is_number_integer()\<close>
  j_elements :: "'j \<Rightarrow> 'j list"                \<comment> \<open>range-for over an array\<close>
  j_field :: "'j \<Rightarrow> string \<Rightarrow> 'j option"        \<comment> \<open>contains(key) and operator[](key)\<close>
  j_string :: "'j \<Rightarrow> string option"            \<comment> \<open>get<std::string>()\<close>
  j_unsigned :: "'j \<Rightarrow> u64 option"              \<comment> \<open>is_number_unsigned(), get\<close>
  j_int :: "'j \<Rightarrow> int option"                  \<comment> \<open>get<int>()\<close>
  j_value_string :: "'j \<Rightarrow> string \<Rightarrow> string \<Rightarrow> string option"   \<comment> \<open>value(key, default)\<close>
  j_value_bool :: "'j \<Rightarrow> string \<Rightarrow> bool \<Rightarrow> bool option"
  j_value_int :: "'j \<Rightarrow> string \<Rightarrow> int \<Rightarrow> int option"
  j_value_u64 :: "'j \<Rightarrow> string \<Rightarrow> u64 \<Rightarrow> u64 option"
  j_dump_object :: "(string \<times> json_scalar) list \<Rightarrow> string option"
    \<comment> \<open>dump() of an object built from scalar members\<close>

text \<open>\<open>std::string\<close> contents as the bytes of a message payload, and back.\<close>

definition str_bytes :: "string \<Rightarrow> bytes" where
  "str_bytes s = map of_char s"

definition bytes_str :: "bytes \<Rightarrow> string" where
  "bytes_str b = map (\<lambda>w. char_of (unat w)) b"

lemma length_str_bytes [simp]: "length (str_bytes s) = length s"
  by (simp add: str_bytes_def)

lemma str_bytes_nil [simp]: "str_bytes s = [] \<longleftrightarrow> s = []"
  by (simp add: str_bytes_def)

text \<open>
  Reading a configuration into a context, where an exception ends it and keeps the members read before.
  \<open>cfg_step\<close> is one statement \<open>ctx->x = j.value(...)\<close>; \<open>Inl\<close> is the state at the exception.
\<close>

definition cfg_step :: "'a option \<Rightarrow> ('a \<Rightarrow> 'c \<Rightarrow> 'c) \<Rightarrow> 'c + 'c \<Rightarrow> 'c + 'c" where
  "cfg_step value upd c =
     (case c of Inl ctx \<Rightarrow> Inl ctx
      | Inr ctx \<Rightarrow> (case value of None \<Rightarrow> Inl ctx | Some v \<Rightarrow> Inr (upd v ctx)))"

definition cfg_result :: "'c + 'c \<Rightarrow> 'c" where
  "cfg_result c = (case c of Inl ctx \<Rightarrow> ctx | Inr ctx \<Rightarrow> ctx)"

text \<open>\<open>value(key, long)\<close>, for a member that is an integer.\<close>

definition value_long :: "'j json_api \<Rightarrow> 'j \<Rightarrow> string \<Rightarrow> int \<Rightarrow> int option" where
  "value_long J j key d = map_option sint (j_value_u64 J j key (of_int d))"

text \<open>The strings among the elements of a member.\<close>

definition string_elements :: "'j json_api \<Rightarrow> 'j option \<Rightarrow> string list" where
  "string_elements J field =
     (case field of
        None \<Rightarrow> []
      | Some arr \<Rightarrow>
          if j_is_array J arr
          then List.map_filter (\<lambda>t. if j_is_string J t then j_string J t else None) (j_elements J arr) else [])"

section \<open>A concrete instance\<close>

datatype jdoc = JNull | JBool bool | JInt int | JStr string
  | JArr "jdoc list" | JObj "(string \<times> jdoc) list"

fun jdoc_is_object :: "jdoc \<Rightarrow> bool" where
  "jdoc_is_object (JObj _) = True"
| "jdoc_is_object _ = False"

fun jdoc_is_array :: "jdoc \<Rightarrow> bool" where
  "jdoc_is_array (JArr _) = True"
| "jdoc_is_array _ = False"

fun jdoc_is_string :: "jdoc \<Rightarrow> bool" where
  "jdoc_is_string (JStr _) = True"
| "jdoc_is_string _ = False"

fun jdoc_is_integer :: "jdoc \<Rightarrow> bool" where
  "jdoc_is_integer (JInt _) = True"
| "jdoc_is_integer _ = False"

fun jdoc_elements :: "jdoc \<Rightarrow> jdoc list" where
  "jdoc_elements (JArr xs) = xs"
| "jdoc_elements _ = []"

fun jdoc_field :: "jdoc \<Rightarrow> string \<Rightarrow> jdoc option" where
  "jdoc_field (JObj kvs) k = map_of kvs k"
| "jdoc_field _ k = None"

fun jdoc_string :: "jdoc \<Rightarrow> string option" where
  "jdoc_string (JStr s) = Some s"
| "jdoc_string _ = None"

fun jdoc_int :: "jdoc \<Rightarrow> int option" where
  "jdoc_int (JInt i) = Some i"
| "jdoc_int _ = None"

fun jdoc_unsigned :: "jdoc \<Rightarrow> u64 option" where
  "jdoc_unsigned (JInt i) = (if 0 \<le> i then Some (of_int i) else None)"
| "jdoc_unsigned _ = None"

fun jdoc_bool :: "jdoc \<Rightarrow> bool option" where
  "jdoc_bool (JBool b) = Some b"
| "jdoc_bool _ = None"

definition jdoc_value :: "(jdoc \<Rightarrow> 'a option) \<Rightarrow> jdoc \<Rightarrow> string \<Rightarrow> 'a \<Rightarrow> 'a option" where
  "jdoc_value get j k d =
     (if \<not> jdoc_is_object j then None
      else case jdoc_field j k of None \<Rightarrow> Some d | Some v \<Rightarrow> get v)"

text \<open>The texts that this instance parses are given by a table.\<close>

definition jdoc_api :: "(string \<rightharpoonup> jdoc) \<Rightarrow> jdoc json_api" where
  "jdoc_api texts = \<lparr>j_parse = texts, j_dump = (\<lambda>_. Some ''{}''),
     j_is_object = jdoc_is_object, j_is_array = jdoc_is_array, j_is_string = jdoc_is_string,
     j_is_integer = jdoc_is_integer, j_elements = jdoc_elements, j_field = jdoc_field,
     j_string = jdoc_string, j_unsigned = jdoc_unsigned, j_int = jdoc_int, j_value_string = jdoc_value jdoc_string,
     j_value_bool = jdoc_value jdoc_bool, j_value_int = jdoc_value jdoc_int,
     j_value_u64 = jdoc_value (\<lambda>v. map_option of_int (jdoc_int v)),
     j_dump_object = (\<lambda>_. Some ''{}'')\<rparr>"

lemmas jdoc_simps = jdoc_api_def jdoc_value_def

end
