(* ===== verification/Pipeline_Loader.thy ===== *)
theory Pipeline_Loader
  imports Json_Api "HOL-Library.Monad_Syntax" "HOL-Library.Multiset"
begin

text \<open>
  The pipeline file: core/src/PipelineLoader.cpp, with the node type of
  core/include/zm/PluginManager.hpp. The recursion over the plugin tree is a partial
  function: it returns when the JSON value has finite depth, which is proved from that
  hypothesis on the library. An exception leaves the nodes built so far in \<open>pipeline_\<close>.
\<close>

section \<open>Nodes\<close>

record PluginConfig =
  pc_path :: string
  pc_config_json :: string
  pc_children :: "nat list"
  pc_queue_depth :: int

definition PluginConfig_init :: PluginConfig where
  "PluginConfig_init = \<lparr>pc_path = [], pc_config_json = [], pc_children = [], pc_queue_depth = 16\<rparr>"

text \<open>
  One entry of the tree without its children, as \<open>add_plugin\<close> reads it; \<open>ext\<close> is
  \<open>ZM_PLUGIN_EXT\<close>, which the build platform selects. \<open>None\<close>: the library threw.
\<close>

definition plugin_ext_linux :: string where "plugin_ext_linux = ''.so''"

definition plugin_path :: "'j json_api \<Rightarrow> string \<Rightarrow> 'j \<Rightarrow> string option" where
  "plugin_path J ext plugin =
     (case j_field J plugin ''path'' of
        Some p \<Rightarrow> j_string J p
      | None \<Rightarrow>
          (case j_field J plugin ''kind'' of
             Some k \<Rightarrow>
               (case j_string J k of
                  None \<Rightarrow> None
                | Some kind \<Rightarrow> Some (''plugins/'' @ kind @ ''/'' @ kind @ ext))
           | None \<Rightarrow> Some []))"

definition plugin_config_json :: "'j json_api \<Rightarrow> 'j \<Rightarrow> string option" where
  "plugin_config_json J plugin =
     (case j_field J plugin ''config'' of
        Some c \<Rightarrow> j_dump J c
      | None \<Rightarrow> (case j_field J plugin ''cfg'' of Some c \<Rightarrow> j_dump J c | None \<Rightarrow> Some []))"

definition plugin_queue_depth :: "'j json_api \<Rightarrow> 'j \<Rightarrow> int option" where
  "plugin_queue_depth J plugin =
     (case j_field J plugin ''queue_depth'' of
        Some q \<Rightarrow> if j_is_integer J q then j_int J q else Some 16
      | None \<Rightarrow> Some 16)"

definition plugin_node :: "'j json_api \<Rightarrow> string \<Rightarrow> 'j \<Rightarrow> PluginConfig option" where
  "plugin_node J ext plugin = do {
     path \<leftarrow> plugin_path J ext plugin;
     config \<leftarrow> plugin_config_json J plugin;
     depth \<leftarrow> plugin_queue_depth J plugin;
     Some \<lparr>pc_path = path, pc_config_json = config, pc_children = [], pc_queue_depth = depth\<rparr>
   }"

definition plugin_children :: "'j json_api \<Rightarrow> 'j \<Rightarrow> 'j list" where
  "plugin_children J plugin =
     (case j_field J plugin ''children'' of
        Some cs \<Rightarrow> if j_is_array J cs then j_elements J cs else []
      | None \<Rightarrow> [])"

definition push_child :: "nat option \<Rightarrow> nat \<Rightarrow> PluginConfig list \<Rightarrow> PluginConfig list" where
  "push_child parent ci nodes =
     (case parent of
        None \<Rightarrow> nodes
      | Some p \<Rightarrow> nodes[p := (nodes ! p)\<lparr>pc_children := pc_children (nodes ! p) @ [ci]\<rparr>])"

section \<open>The recursion\<close>

text \<open>
  \<open>add_plugins J ext parent js nodes\<close> is the loop \<open>for (child : js) add_plugin(child)\<close> with the
  body of \<open>add_plugin\<close> in place: the top-level loop has no parent, the recursive one pushes
  the index it gets back, if it is not -1, to its node. \<open>Inl\<close>: an exception propagates.
\<close>

partial_function (option) add_plugins ::
  "'j json_api \<Rightarrow> string \<Rightarrow> nat option \<Rightarrow> 'j list \<Rightarrow> PluginConfig list \<Rightarrow>
   (PluginConfig list + PluginConfig list) option" where
  "add_plugins J ext parent js nodes =
     (case js of
        [] \<Rightarrow> Some (Inr nodes)
      | plugin # rest \<Rightarrow>
          if \<not> j_is_object J plugin then add_plugins J ext parent rest nodes
          else (case plugin_node J ext plugin of
                  None \<Rightarrow> Some (Inl nodes)
                | Some pcfg \<Rightarrow>
                    Option.bind
                      (add_plugins J ext (Some (length nodes)) (plugin_children J plugin)
                        (nodes @ [pcfg]))
                      (\<lambda>r. case r of
                         Inl nodes' \<Rightarrow> Some (Inl nodes')
                       | Inr nodes' \<Rightarrow>
                           add_plugins J ext parent rest
                             (push_child parent (length nodes) nodes'))))"

definition link_chain :: "PluginConfig list \<Rightarrow> PluginConfig list" where
  "link_chain nodes =
     map (\<lambda>i. if i + 1 < length nodes
              then (nodes ! i)\<lparr>pc_children := pc_children (nodes ! i) @ [i + 1]\<rparr> else nodes ! i)
       [0..<length nodes]"

text \<open>The end of \<open>load\<close>: the backward-compatible chain, and the result.\<close>

definition load_finish :: "PluginConfig list \<Rightarrow> bool \<times> PluginConfig list" where
  "load_finish nodes =
     (let anyChildren = list_ex (\<lambda>p. pc_children p \<noteq> []) nodes;
          nodes = (if \<not> anyChildren \<and> length nodes > 1 then link_chain nodes else nodes)
      in (nodes \<noteq> [], nodes))"

text \<open>
  The checks at the start of \<open>load\<close>: the array under \<open>plugins\<close>, or \<open>None\<close> for a return of false. The
  file's contents are the argument, \<open>None\<close> for a file that cannot be opened.
\<close>

definition plugin_array :: "'j json_api \<Rightarrow> string option \<Rightarrow> 'j list option" where
  "plugin_array J file =
     (case file of
        None \<Rightarrow> None
      | Some text \<Rightarrow>
          (case j_parse J text of
             None \<Rightarrow> None
           | Some root \<Rightarrow>
               if \<not> j_is_object J root then None
               else (case j_field J root ''plugins'' of
                       None \<Rightarrow> None
                     | Some arr \<Rightarrow> if \<not> j_is_array J arr then None else Some (j_elements J arr))))"

text \<open>\<open>load\<close>: its result and \<open>pipeline_\<close>.\<close>

definition load :: "'j json_api \<Rightarrow> string \<Rightarrow> string option \<Rightarrow> (bool \<times> PluginConfig list) option" where
  "load J ext file =
     (case plugin_array J file of
        None \<Rightarrow> Some (False, [])
      | Some arr \<Rightarrow>
          Option.bind (add_plugins J ext None arr [])
            (\<lambda>r. case r of
               Inl nodes \<Rightarrow> Some (False, nodes)
             | Inr nodes \<Rightarrow> Some (load_finish nodes)))"

section \<open>The topology\<close>

definition edges :: "PluginConfig list \<Rightarrow> nat list" where
  "edges nodes = concat (map pc_children nodes)"

text \<open>Every child stands after its node, inside the vector, and under one node, once.\<close>

definition forest :: "PluginConfig list \<Rightarrow> bool" where
  "forest nodes \<longleftrightarrow> (\<forall>i < length nodes. \<forall>c \<in> set (pc_children (nodes ! i)). i < c \<and> c < length nodes) \<and>
     distinct (edges nodes)"

lemma edges_append [simp]: "edges (xs @ ys) = edges xs @ edges ys"
  by (simp add: edges_def)

lemma mem_edges: "c \<in> set (edges nodes) \<longleftrightarrow> (\<exists>i < length nodes. c \<in> set (pc_children (nodes ! i)))"
  by (fastforce simp: edges_def set_conv_nth [of nodes])

lemma mset_edges_push:
  "p < length nodes \<Longrightarrow>
   mset (edges (push_child (Some p) c nodes)) = add_mset c (mset (edges nodes))"
proof -
  assume p: "p < length nodes"
  then have n: "nodes = take p nodes @ (nodes ! p) # drop (Suc p) nodes"
    by (rule id_take_nth_drop)
  have "push_child (Some p) c nodes =
      take p nodes @ (nodes ! p)\<lparr>pc_children := pc_children (nodes ! p) @ [c]\<rparr> # drop (Suc p) nodes"
    using p by (simp add: push_child_def upd_conv_take_nth_drop)
  moreover have "edges nodes = edges (take p nodes) @ pc_children (nodes ! p) @ edges (drop (Suc p) nodes)"
    by (subst (1) n) (simp add: edges_def)
  ultimately show ?thesis by (simp add: edges_def)
qed

lemma length_push_child [simp]: "length (push_child q c nodes) = length nodes"
  by (simp add: push_child_def split: option.split)

lemma push_child_nth:
  "i < length nodes \<Longrightarrow> push_child q c nodes ! i =
     (if q = Some i then (nodes ! i)\<lparr>pc_children := pc_children (nodes ! i) @ [c]\<rparr> else nodes ! i)"
  by (auto simp: push_child_def nth_list_update split: option.split)

lemma forestI:
  assumes "\<And>i c. i < length nodes \<Longrightarrow> c \<in> set (pc_children (nodes ! i)) \<Longrightarrow> i < c \<and> c < length nodes"
    and "distinct (edges nodes)"
  shows "forest nodes"
  unfolding forest_def using assms by blast

lemma forestD:
  assumes "forest nodes"
  shows "i < length nodes \<Longrightarrow> c \<in> set (pc_children (nodes ! i)) \<Longrightarrow> i < c \<and> c < length nodes"
    and "distinct (edges nodes)"
  using assms unfolding forest_def by blast+

lemma forest_push:
  assumes f: "forest nodes" and "p < c" and "c < length nodes" and "c \<notin> set (edges nodes)"
  shows "forest (push_child (Some p) c nodes)"
proof (rule forestI)
  have "mset (edges (push_child (Some p) c nodes)) = mset (c # edges nodes)"
    using assms(2, 3) by (simp add: mset_edges_push)
  then have "distinct (edges (push_child (Some p) c nodes)) = distinct (c # edges nodes)"
    by (rule mset_eq_imp_distinct_iff)
  then show "distinct (edges (push_child (Some p) c nodes))"
    using forestD(2) [OF f] assms(4) by simp
next
  fix i c'
  assume "i < length (push_child (Some p) c nodes)"
    and "c' \<in> set (pc_children (push_child (Some p) c nodes ! i))"
  then have "i < length nodes" and "c' \<in> set (pc_children (nodes ! i)) \<or> (i = p \<and> c' = c)"
    by (auto simp: push_child_nth split: if_splits)
  with forestD(1) [OF f, of i c'] assms(2, 3)
  show "i < c' \<and> c' < length (push_child (Some p) c nodes)" by auto
qed

lemma forest_snoc:
  assumes f: "forest nodes" and "pc_children n = []"
  shows "forest (nodes @ [n])"
proof (rule forestI)
  show "distinct (edges (nodes @ [n]))"
    using assms(2) forestD(2) [OF f] by (simp add: edges_def)
next
  fix i c
  assume "i < length (nodes @ [n])" and "c \<in> set (pc_children ((nodes @ [n]) ! i))"
  then have "i < length nodes" and "c \<in> set (pc_children (nodes ! i))"
    using assms(2) by (auto simp: nth_append split: if_splits)
  with forestD(1) [OF f, of i c] show "i < c \<and> c < length (nodes @ [n])" by simp
qed

text \<open>What the recursion leaves, by induction over its calls that return.\<close>

definition grows :: "PluginConfig list \<Rightarrow> PluginConfig list \<Rightarrow> nat option \<Rightarrow> bool" where
  "grows nodes nodes' parent \<longleftrightarrow> forest nodes' \<and> length nodes \<le> length nodes' \<and>
     set (edges nodes') \<subseteq> set (edges nodes) \<union> {length nodes..<length nodes'}"

lemma edges_bound: "forest nodes \<Longrightarrow> c \<in> set (edges nodes) \<Longrightarrow> c < length nodes"
  using forestD(1) [of nodes _ c] by (auto simp: mem_edges)

lemma edges_push_subset:
  "(\<forall>p. q = Some p \<longrightarrow> p < length nodes) \<Longrightarrow>
   set (edges (push_child q c nodes)) \<subseteq> insert c (set (edges nodes))"
proof (cases q)
  case None
  then show ?thesis by (auto simp: push_child_def)
next
  case (Some p)
  moreover assume "\<forall>p. q = Some p \<longrightarrow> p < length nodes"
  ultimately have "mset (edges (push_child q c nodes)) = mset (c # edges nodes)"
    by (simp add: mset_edges_push)
  from mset_eq_setD [OF this] show ?thesis by simp
qed

lemma plugin_node_leaf: "plugin_node J ext p = Some n \<Longrightarrow> pc_children n = []"
  by (auto simp: plugin_node_def bind_eq_Some_conv)

text \<open>The step: the node is added, its children are grown under it, then it gets its parent.\<close>

lemma grows_node:
  assumes "forest nodes" and par: "\<forall>p. parent = Some p \<longrightarrow> p < length nodes"
    and "pc_children n = []" and g: "grows (nodes @ [n]) nodes' (Some (length nodes))"
  shows "grows nodes nodes' parent"
    and "grows nodes (push_child parent (length nodes) nodes') parent"
proof -
  let ?c = "length nodes"
  have e: "edges (nodes @ [n]) = edges nodes" using assms(3) by (simp add: edges_def)
  have f': "forest nodes'" and len: "?c < length nodes'"
    and sub: "set (edges nodes') \<subseteq> set (edges nodes) \<union> {Suc ?c..<length nodes'}"
    using g e by (auto simp: grows_def)
  from f' len sub show "grows nodes nodes' parent" by (auto simp: grows_def)
  have "?c \<notin> set (edges nodes')"
    using sub edges_bound [OF assms(1)] by fastforce
  then have "forest (push_child parent ?c nodes')"
    using par f' len forest_push [of nodes' _ ?c] by (cases parent) (auto simp: push_child_def)
  moreover have "set (edges (push_child parent ?c nodes')) \<subseteq>
      set (edges nodes) \<union> {?c..<length nodes'}"
    using edges_push_subset [of parent nodes' ?c] par len sub by fastforce
  ultimately show "grows nodes (push_child parent ?c nodes') parent"
    using len by (simp add: grows_def)
qed

lemma grows_trans: "grows a b p \<Longrightarrow> grows b c q \<Longrightarrow> grows a c q"
  by (fastforce simp: grows_def)

lemma add_plugins_grows:
  assumes "add_plugins J ext parent js nodes = Some r"
  shows "forest nodes \<longrightarrow> (\<forall>p. parent = Some p \<longrightarrow> p < length nodes) \<longrightarrow>
    grows nodes (case r of Inl n \<Rightarrow> n | Inr n \<Rightarrow> n) parent"
proof (rule add_plugins.raw_induct [OF _ assms, where P = "\<lambda>J ext parent js nodes r.
    forest nodes \<longrightarrow> (\<forall>p. parent = Some p \<longrightarrow> p < length nodes) \<longrightarrow>
    grows nodes (case r of Inl n \<Rightarrow> n | Inr n \<Rightarrow> n) parent"], goal_cases)
  case (1 add J ext parent js nodes r)
  show ?case
  proof (intro impI)
    assume f: "forest nodes" and par: "\<forall>p. parent = Some p \<longrightarrow> p < length nodes"
    show "grows nodes (case r of Inl n \<Rightarrow> n | Inr n \<Rightarrow> n) parent"
    proof (cases js)
      case Nil
      with 1(2) f show ?thesis by (auto simp: grows_def)
    next
      case (Cons plugin rest)
      show ?thesis
      proof (cases "j_is_object J plugin")
        case False
        with 1(2) Cons have "add J ext parent rest nodes = Some r" by simp
        from 1(1) [OF this] f par show ?thesis by blast
      next
        case obj: True
        show ?thesis
        proof (cases "plugin_node J ext plugin")
          case None
          with 1(2) Cons obj f show ?thesis by (auto simp: grows_def)
        next
          case (Some n)
          let ?c = "length nodes"
          have leaf: "pc_children n = []" by (rule plugin_node_leaf [OF Some])
          from 1(2) Cons obj Some obtain r1 where
            a: "add J ext (Some ?c) (plugin_children J plugin) (nodes @ [n]) = Some r1"
            and k: "(case r1 of Inl nodes' \<Rightarrow> Some (Inl nodes')
              | Inr nodes' \<Rightarrow> add J ext parent rest (push_child parent ?c nodes')) = Some r"
            by (auto simp: bind_eq_Some_conv)
          have g: "grows (nodes @ [n]) (case r1 of Inl n \<Rightarrow> n | Inr n \<Rightarrow> n) (Some ?c)"
            using 1(1) [OF a] forest_snoc [OF f leaf] by simp
          show ?thesis
          proof (cases r1)
            case (Inl nodes')
            with g k grows_node(1) [OF f par leaf] show ?thesis by auto
          next
            case (Inr nodes')
            with g have g': "grows nodes (push_child parent ?c nodes') parent"
              using grows_node(2) [OF f par leaf] by simp
            from k Inr have "add J ext parent rest (push_child parent ?c nodes') = Some r" by simp
            from 1(1) [OF this] g' par grows_trans [OF g'] show ?thesis
              by (auto simp: grows_def)
          qed
        qed
      qed
    qed
  qed
qed

text \<open>The flat array that becomes a chain.\<close>

lemma length_link_chain [simp]: "length (link_chain nodes) = length nodes"
  by (simp add: link_chain_def)

lemma link_chain_nth:
  "i < length nodes \<Longrightarrow> link_chain nodes ! i =
     (if i + 1 < length nodes
      then (nodes ! i)\<lparr>pc_children := pc_children (nodes ! i) @ [i + 1]\<rparr> else nodes ! i)"
  by (simp add: link_chain_def)

lemma concat_successors:
  "concat (map (\<lambda>i. if i + 1 < n then [i + 1] else []) [0..<n]) = [1..<n :: nat]"
proof (cases n)
  case (Suc k)
  have "map (\<lambda>i. if i + 1 < Suc k then [i + 1] else []) [0..<k] = map (\<lambda>i. [i + 1]) [0..<k]"
    by simp
  moreover have "concat (map (\<lambda>i. [i + 1]) [0..<k]) = [1..<Suc k]"
    by (induction k) simp_all
  moreover have "[0..<Suc k] = [0..<k] @ [k]" by simp
  ultimately show ?thesis by (simp only: Suc map_append concat_append) simp
qed simp

lemma edges_link_chain:
  assumes "\<forall>n \<in> set nodes. pc_children n = []"
  shows "edges (link_chain nodes) = [1..<length nodes]"
proof -
  have "map pc_children (link_chain nodes) =
      map (\<lambda>i. if i + 1 < length nodes then [i + 1] else []) [0..<length nodes]"
    using assms by (intro nth_equalityI) (simp_all add: link_chain_nth)
  then show ?thesis by (simp only: edges_def concat_successors)
qed

lemma forest_link_chain:
  assumes "\<forall>n \<in> set nodes. pc_children n = []"
  shows "forest (link_chain nodes)"
proof (rule forestI)
  show "distinct (edges (link_chain nodes))"
    using assms by (simp add: edges_link_chain)
next
  fix i c
  assume i: "i < length (link_chain nodes)" and c: "c \<in> set (pc_children (link_chain nodes ! i))"
  with assms have "pc_children (nodes ! i) = []" by simp
  with i c show "i < c \<and> c < length (link_chain nodes)"
    by (auto simp: link_chain_nth split: if_splits)
qed

lemma forest_nil [simp]: "forest []"
  by (simp add: forest_def edges_def)

lemma add_plugins_nil [simp]: "add_plugins J ext parent [] nodes = Some (Inr nodes)"
  by (simp add: add_plugins.simps)

lemma add_plugins_flat:
  assumes "\<forall>j \<in> set js. plugin_children J j = []"
    and "those (map (plugin_node J ext) (filter (j_is_object J) js)) = Some ns"
  shows "add_plugins J ext None js nodes = Some (Inr (nodes @ ns))"
  using assms
proof (induction js arbitrary: nodes ns)
  case (Cons j js)
  show ?case
  proof (cases "j_is_object J j")
    case True
    with Cons.prems obtain n ns' where "plugin_node J ext j = Some n" "ns = n # ns'"
      "those (map (plugin_node J ext) (filter (j_is_object J) js)) = Some ns'"
      by (auto split: option.splits)
    with Cons True show ?thesis
      by (subst add_plugins.simps) (simp add: push_child_def)
  next
    case False
    with Cons show ?thesis by (subst add_plugins.simps) simp
  qed
qed simp

lemma add_plugins_returns:
  assumes "\<forall>j \<in> set js. \<forall>parent nodes. add_plugins J ext parent (plugin_children J j) nodes \<noteq> None"
  shows "add_plugins J ext parent js nodes \<noteq> None"
  using assms
proof (induction js arbitrary: nodes)
  case (Cons j js)
  have sub: "add_plugins J ext p (plugin_children J j) n \<noteq> None" for p n
    using Cons.prems by simp
  have rest: "add_plugins J ext parent js n \<noteq> None" for n
    using Cons.IH Cons.prems by simp
  show ?case
  proof (cases "plugin_node J ext j")
    case None
    with rest show ?thesis by (subst add_plugins.simps) simp
  next
    case (Some n)
    obtain r where r: "add_plugins J ext (Some (length nodes)) (plugin_children J j) (nodes @ [n]) = Some r"
      using sub by blast
    show ?thesis
      using rest by (subst add_plugins.simps) (simp add: Some r split: sum.split)
  qed
qed simp

lemma add_plugins_total:
  assumes "wf {(c, j). c \<in> set (plugin_children J j)}"
  shows "add_plugins J ext parent js nodes \<noteq> None"
proof -
  have "\<forall>parent nodes. add_plugins J ext parent (plugin_children J j) nodes \<noteq> None" for j
    using assms
  proof (induction j rule: wf_induct_rule)
    case (less j)
    then have "\<forall>c \<in> set (plugin_children J j).
        \<forall>parent nodes. add_plugins J ext parent (plugin_children J c) nodes \<noteq> None"
      by simp
    then show ?case using add_plugins_returns by blast
  qed
  then show ?thesis by (simp add: add_plugins_returns)
qed

lemma load_finish_forest:
  assumes "forest nodes"
  shows "forest (snd (load_finish nodes)) \<and>
    (fst (load_finish nodes) \<longleftrightarrow> nodes \<noteq> [])"
  using assms forest_link_chain [of nodes] length_link_chain [of nodes]
  by (cases nodes) (auto simp: load_finish_def Let_def list_ex_iff simp del: length_link_chain)

lemma load_cases:
  assumes "load J ext file = Some r"
  obtains "r = (False, [])"
  | js nodes where "add_plugins J ext None js [] = Some (Inl nodes)" "r = (False, nodes)"
  | js nodes where "add_plugins J ext None js [] = Some (Inr nodes)" "r = load_finish nodes"
proof (cases "plugin_array J file")
  case None
  with assms that(1) show ?thesis by (simp add: load_def)
next
  case (Some js)
  with assms obtain q where a: "add_plugins J ext None js [] = Some q"
    and r: "(case q of Inl nodes \<Rightarrow> Some (False, nodes) | Inr nodes \<Rightarrow> Some (load_finish nodes)) = Some r"
    by (auto simp: load_def bind_eq_Some_conv)
  show ?thesis
  proof (cases q)
    case (Inl n)
    with a r that(2) show ?thesis by simp
  next
    case (Inr n)
    with a r that(3) show ?thesis by simp
  qed
qed

lemma those_results: "those (map read docs) = Some nodes \<Longrightarrow> Some ` set nodes \<subseteq> read ` set docs"
  by (induction docs arbitrary: nodes) (auto split: option.splits, force+)

section \<open>Properties\<close>

text \<open>
  C29. Pipeline topology: whatever the file contains, the vector that \<open>load\<close> leaves is a
  forest in pre-order: every child index lies inside the vector, after its node, and no stage
  is the child of two nodes or twice of one, so routing frames along the children never
  cycles and never duplicates a frame. A successful load has at least one plugin.
\<close>
theorem pipeline_forest:
  assumes "load J ext file = Some (ok, nodes)"
  shows "forest nodes \<and> (ok \<longrightarrow> nodes \<noteq> [])"
  using assms
proof (cases rule: load_cases)
  case 1
  then show ?thesis by simp
next
  case (2 js ns)
  with add_plugins_grows [OF 2(1)] show ?thesis by (simp add: grows_def)
next
  case (3 js ns)
  from add_plugins_grows [OF 3(1)] have "forest ns" by (simp add: grows_def)
  from load_finish_forest [OF this] 3(2) show ?thesis
    by (auto simp: load_finish_def Let_def)
qed

theorem pipeline_forest_witness:
  "\<exists>n m. load (jdoc_api [''f'' \<mapsto> JObj [(''plugins'', JArr [JObj [(''kind'', JStr ''a''),
        (''children'', JArr [JObj [(''path'', JStr ''b'')]])]])]]) ''.so'' (Some ''f'') =
      Some (True, [n, m]) \<and>
    pc_children n = [1] \<and> pc_path n = ''plugins/a/a.so'' \<and> forest [n, m]"
proof -
  let ?J = "jdoc_api [''f'' \<mapsto> JObj [(''plugins'', JArr [JObj [(''kind'', JStr ''a''),
        (''children'', JArr [JObj [(''path'', JStr ''b'')]])]])]]"
  obtain n m where l: "load ?J ''.so'' (Some ''f'') = Some (True, [n, m])"
    and "pc_children n = [1]" "pc_path n = ''plugins/a/a.so''"
    by (simp add: load_def plugin_array_def load_finish_def link_chain_def jdoc_simps add_plugins.simps
        plugin_node_def plugin_path_def plugin_config_json_def plugin_queue_depth_def
        plugin_children_def push_child_def)
  with pipeline_forest [OF l] show ?thesis by blast
qed

text \<open>
  C40. Loading returns: when the library's values have finite depth, as parsed text has, the
  recursion over the children ends and \<open>load\<close> gives a result for every file.
\<close>
theorem pipeline_load_returns:
  assumes "wf {(c, j). c \<in> set (plugin_children J j)}"
  shows "\<exists>ok nodes. load J ext file = Some (ok, nodes)"
proof -
  have total: "add_plugins J ext None js [] \<noteq> None" for js
    by (rule add_plugins_total [OF assms])
  have "load J ext file \<noteq> None"
  proof (cases "plugin_array J file")
    case (Some js)
    obtain r where "add_plugins J ext None js [] = Some r" using total by blast
    then show ?thesis using Some by (cases r) (simp_all add: load_def)
  qed (simp add: load_def)
  then show ?thesis by (cases "load J ext file") auto
qed

theorem pipeline_load_returns_witness:
  "\<exists>ok nodes. load (jdoc_api [''f'' \<mapsto> JObj [(''plugins'', JArr [JInt 3])]]) ''.so'' (Some ''f'') =
     Some (ok, nodes)"
proof (rule pipeline_load_returns)
  let ?J = "jdoc_api [''f'' \<mapsto> JObj [(''plugins'', JArr [JInt 3])]]"
  have "(c, j) \<in> measure size" if c: "c \<in> set (plugin_children ?J j)" for c j
  proof -
    from c obtain kvs d where j: "j = JObj kvs" and f: "map_of kvs ''children'' = Some d"
      and m: "c \<in> set (jdoc_elements d)"
      by (cases j; cases "jdoc_field j ''children''")
        (simp_all add: plugin_children_def jdoc_simps split: if_splits)
    obtain cs where d: "d = JArr cs" using m by (cases d) auto
    have "size c < size d" using m unfolding d by (induction cs) auto
    moreover have "size d < size (JObj kvs)"
      using map_of_SomeD [OF f] by (induction kvs) auto
    ultimately show ?thesis using j by simp
  qed
  then show "wf {(c, j). c \<in> set (plugin_children ?J j)}"
    by (intro wf_subset [OF wf_measure [of size]]) auto
qed

text \<open>
  Backward compatibility: a file whose entries declare no children is loaded as the list
  of its object entries, in order, and linked as a chain, each stage feeding the next one and
  the last feeding none; non-objects are skipped.
\<close>
theorem pipeline_flat_chain:
  assumes "j_parse J text = Some root" and "j_is_object J root"
    and "j_field J root ''plugins'' = Some arr" and "j_is_array J arr"
    and "\<forall>j \<in> set (j_elements J arr). plugin_children J j = []"
    and "those (map (plugin_node J ext) (filter (j_is_object J) (j_elements J arr))) = Some ns"
  shows "\<exists>nodes. load J ext (Some text) = Some (ns \<noteq> [], nodes) \<and> length nodes = length ns \<and>
    (\<forall>i < length ns. nodes ! i =
       (ns ! i)\<lparr>pc_children := (if i + 1 < length ns then [i + 1] else [])\<rparr>)"
proof -
  have leaf: "\<forall>n \<in> set ns. pc_children n = []"
  proof
    fix n assume "n \<in> set ns"
    with those_results [OF assms(6)] obtain x where "plugin_node J ext x = Some n" by (metis imageE imageI subsetD)
    then show "pc_children n = []" by (rule plugin_node_leaf)
  qed
  have "load J ext (Some text) = Some (load_finish ns)"
    using assms(1-4) add_plugins_flat [OF assms(5, 6), of "[]"]
    by (simp add: load_def plugin_array_def)
  moreover have "(ns ! i)\<lparr>pc_children := []\<rparr> = ns ! i" if "i < length ns" for i
    using leaf that by simp
  moreover have "(link_chain ns = []) = (ns = [])"
    using length_link_chain [of ns] by (metis length_0_conv)
  ultimately show ?thesis
    using leaf by (auto simp: load_finish_def Let_def list_ex_iff link_chain_nth)
qed

theorem pipeline_flat_chain_witness:
  "\<exists>nodes. load (jdoc_api [''f'' \<mapsto> JObj [(''plugins'', JArr [JObj [(''path'', JStr ''a'')], JNull,
      JObj [(''path'', JStr ''b'')]])]]) ''.so'' (Some ''f'') = Some (True, nodes) \<and>
    length nodes = 2"
  using pipeline_flat_chain [of "jdoc_api [''f'' \<mapsto> JObj [(''plugins'', JArr
        [JObj [(''path'', JStr ''a'')], JNull, JObj [(''path'', JStr ''b'')]])]]" "''f''"
      "JObj [(''plugins'', JArr [JObj [(''path'', JStr ''a'')], JNull, JObj [(''path'', JStr ''b'')]])]"
      "JArr [JObj [(''path'', JStr ''a'')], JNull, JObj [(''path'', JStr ''b'')]]" "''.so''"]
  by (auto simp: jdoc_simps plugin_children_def plugin_node_def plugin_path_def
      plugin_config_json_def plugin_queue_depth_def)

end
