(* ===== verification/Stage_Runner.thy ===== *)
theory Stage_Runner
  imports Frame_Queue "HOL-Library.Sublist"
begin

text \<open>
  The per-stage thread and its input queue: core/include/zm/StageRunner.hpp and
  core/src/StageRunner.cpp. Each public operation is atomic under the stage's mutex; the
  thread's loop is split where the code gives up the mutex: \<open>stage_wake\<close> is the part from
  \<open>cv_.wait\<close> to the \<open>pop_front\<close>, \<open>stage_finish\<close> the return of the plugin's \<open>on_frame\<close>. Between
  the two any other operation may run. A null \<open>buf\<close> is \<open>None\<close>; stages refer to their children
  by their index in the vector of runners.
\<close>

section \<open>State and operations\<close>

text \<open>Where the thread of \<open>run\<close> is.\<close>

datatype stage_pc = NotRunning | Waiting | Handling bytes

record stage =
  sr_has_on_frame :: bool
  sr_max_depth :: nat
  sr_children :: "nat option list"
  sr_queue :: "bytes list"
  sr_running :: bool
  sr_pc :: stage_pc
  sr_dropped :: u64
  sr_processed :: u64

definition StageRunner_new :: "bool \<Rightarrow> nat \<Rightarrow> stage" where
  "StageRunner_new has_on_frame max_depth =
     \<lparr>sr_has_on_frame = has_on_frame, sr_max_depth = (if max_depth \<noteq> 0 then max_depth else 1),
      sr_children = [], sr_queue = [], sr_running = False, sr_pc = NotRunning,
      sr_dropped = 0, sr_processed = 0\<rparr>"

definition stage_start :: "stage \<Rightarrow> stage" where
  "stage_start s = (if sr_running s then s else s\<lparr>sr_running := True, sr_pc := Waiting\<rparr>)"

text \<open>
  \<open>stop\<close> clears the flag, notifies, and joins: it returns when the thread is at \<open>NotRunning\<close>.
\<close>

definition stage_stop :: "stage \<Rightarrow> stage" where
  "stage_stop s = s\<lparr>sr_running := False\<rparr>"

definition stage_joined :: "stage \<Rightarrow> bool" where
  "stage_joined s \<longleftrightarrow> sr_pc s = NotRunning"

definition stage_deliver :: "bytes option \<Rightarrow> stage \<Rightarrow> stage" where
  "stage_deliver buf s =
     (case buf of
        None \<Rightarrow> s
      | Some p \<Rightarrow>
          if length p = 0 then s
          else let s = (if length (sr_queue s) \<ge> sr_max_depth s
                        then s\<lparr>sr_queue := tl (sr_queue s), sr_dropped := sr_dropped s + 1\<rparr> else s)
          in s\<lparr>sr_queue := sr_queue s @ [p]\<rparr>)"

text \<open>\<open>None\<close>: the thread is not at the wait, or its predicate is false.\<close>

definition stage_wake :: "stage \<Rightarrow> stage option" where
  "stage_wake s =
     (if sr_pc s \<noteq> Waiting then None
      else if \<not> sr_running s then Some (s\<lparr>sr_pc := NotRunning\<rparr>)
      else case sr_queue s of
             [] \<Rightarrow> None
           | item # q \<Rightarrow> Some (s\<lparr>sr_queue := q, sr_pc := Handling item\<rparr>))"

text \<open>
  \<open>on_frame\<close> has returned or thrown (both handlers only log), or the plugin has none; then
  the loop condition is read.
\<close>

definition stage_finish :: "stage \<Rightarrow> stage option" where
  "stage_finish s =
     (case sr_pc s of
        Handling item \<Rightarrow>
          Some (s\<lparr>sr_processed := sr_processed s + 1,
                 sr_pc := (if sr_running s then Waiting else NotRunning)\<rparr>)
      | _ \<Rightarrow> None)"

definition deliver_to :: "bytes option \<Rightarrow> nat \<Rightarrow> stage option list \<Rightarrow> stage option list" where
  "deliver_to buf i rs =
     (if i < length rs then rs[i := map_option (stage_deliver buf) (rs ! i)] else rs)"

definition forwardToChildren ::
  "nat option list \<Rightarrow> bytes option \<Rightarrow> stage option list \<Rightarrow> stage option list" where
  "forwardToChildren children buf rs =
     fold (\<lambda>child rs. case child of None \<Rightarrow> rs | Some i \<Rightarrow> deliver_to buf i rs) children rs"

section \<open>The queue discipline\<close>

definition stage_ok :: "stage \<Rightarrow> bool" where
  "stage_ok s \<longleftrightarrow> 0 < sr_max_depth s \<and> length (sr_queue s) \<le> sr_max_depth s \<and>
     (sr_running s \<longrightarrow> sr_pc s \<noteq> NotRunning)"

text \<open>The two \<open>queue_\<close> statements of \<open>run\<close>, apart from the thread state.\<close>

definition stage_pop :: "stage \<Rightarrow> (bytes \<times> stage) option" where
  "stage_pop s = (case sr_queue s of [] \<Rightarrow> None | item # q \<Rightarrow> Some (item, s\<lparr>sr_queue := q\<rparr>))"

lemma stage_deliver_frame [simp]:
  "sr_max_depth (stage_deliver b s) = sr_max_depth s"
  "sr_children (stage_deliver b s) = sr_children s"
  "sr_running (stage_deliver b s) = sr_running s"
  "sr_pc (stage_deliver b s) = sr_pc s"
  "sr_processed (stage_deliver b s) = sr_processed s"
  "sr_has_on_frame (stage_deliver b s) = sr_has_on_frame s"
  by (simp_all add: stage_deliver_def Let_def split: option.split)

lemma stage_deliver_queue:
  assumes "stage_ok s" and "p \<noteq> []"
  shows "sr_queue (stage_deliver (Some p) s) = newest (sr_max_depth s) (sr_queue s @ [p])"
  using newest_snoc [of "sr_max_depth s" "sr_queue s" p] assms
  by (cases "sr_max_depth s \<le> length (sr_queue s)") (auto simp: stage_deliver_def Let_def stage_ok_def)

lemma stage_deliver_ignored [simp]:
  "stage_deliver None s = s" "stage_deliver (Some []) s = s"
  by (simp_all add: stage_deliver_def)

lemma stage_deliver_ok [inv_intros]: "stage_ok s \<Longrightarrow> stage_ok (stage_deliver b s)"
proof (cases "b = None \<or> b = Some []")
  case False
  moreover assume "stage_ok s"
  ultimately obtain p where "b = Some p" "p \<noteq> []" and s: "stage_ok s" by auto
  with stage_deliver_queue [OF s] show ?thesis by (simp add: stage_ok_def)
qed auto

interpretation stage_q: dropping_fifo stage_ok sr_queue stage_pop
  "\<lambda>p. stage_deliver (Some p)" sr_max_depth "\<lambda>p. p \<noteq> []"
proof unfold_locales
  show "stage_ok q \<Longrightarrow> sr_queue q = [] \<Longrightarrow> stage_pop q = None" for q
    by (simp add: stage_pop_def)
  show "stage_ok q \<Longrightarrow> sr_queue q = x # xs \<Longrightarrow>
      \<exists>q'. stage_pop q = Some (x, q') \<and> sr_queue q' = xs \<and> stage_ok q'" for q x xs
    by (simp add: stage_pop_def stage_ok_def)
  show "stage_ok q \<Longrightarrow> 0 < sr_max_depth q" for q
    by (simp add: stage_ok_def)
  show "stage_ok q \<Longrightarrow> length (sr_queue q) \<le> sr_max_depth q" for q
    by (simp add: stage_ok_def)
qed (simp_all add: stage_deliver_queue stage_deliver_ok)

section \<open>Runs of a stage\<close>

datatype stage_event = Deliver "bytes option" | Start | Stop | Wake | Finish

fun stage_step :: "stage_event \<Rightarrow> stage \<Rightarrow> stage option" where
  "stage_step (Deliver b) s = Some (stage_deliver b s)"
| "stage_step Start s = (if \<not> sr_running s \<and> \<not> stage_joined s then None else Some (stage_start s))"
| "stage_step Stop s = Some (stage_stop s)"
| "stage_step Wake s = stage_wake s"
| "stage_step Finish s = stage_finish s"

text \<open>
  A run returns its last state and the frames that the thread took, in order. \<open>Start\<close> after a
  \<open>Stop\<close> waits for the join, as the two are called from one thread. \<open>None\<close>: an event was
  not possible where it stood.
\<close>

fun stage_run :: "stage_event list \<Rightarrow> stage \<Rightarrow> (stage \<times> bytes list) option" where
  "stage_run [] s = Some (s, [])"
| "stage_run (e # es) s =
     (case stage_step e s of
        None \<Rightarrow> None
      | Some s' \<Rightarrow>
          (case stage_run es s' of
             None \<Rightarrow> None
           | Some (s'', taken) \<Rightarrow>
               Some (s'', (case (e, sr_pc s') of (Wake, Handling item) \<Rightarrow> item # taken | _ \<Rightarrow> taken))))"

fun delivered :: "stage_event list \<Rightarrow> bytes list" where
  "delivered [] = []"
| "delivered (Deliver (Some p) # es) = (if p = [] then delivered es else p # delivered es)"
| "delivered (_ # es) = delivered es"

definition in_hand :: "stage \<Rightarrow> u64" where
  "in_hand s = (case sr_pc s of Handling _ \<Rightarrow> 1 | _ \<Rightarrow> 0)"

lemma stage_step_ok [inv_intros]:
  assumes "stage_ok s" and "stage_step e s = Some s'"
  shows "stage_ok s'"
  using assms
  by (cases e)
    (auto simp: stage_deliver_ok stage_start_def stage_stop_def stage_wake_def stage_finish_def
      stage_joined_def split: if_splits list.splits stage_pc.splits,
     auto simp: stage_ok_def)

lemma subseq_newest: "subseq (newest n xs) xs"
  by (simp add: newest_def suffix_imp_subseq suffix_drop)

text \<open>What one event does to the counters, the queue and the frame in hand.\<close>

lemma stage_run_account:
  assumes "stage_ok s" and "stage_run es s = Some (s', taken)"
  shows "stage_ok s' \<and> sr_max_depth s' = sr_max_depth s \<and>
    subseq (taken @ sr_queue s') (sr_queue s @ delivered es) \<and>
    sr_dropped s' + of_nat (length taken) + of_nat (length (sr_queue s')) =
      sr_dropped s + of_nat (length (sr_queue s)) + of_nat (length (delivered es)) \<and>
    sr_processed s' + in_hand s' = sr_processed s + in_hand s + of_nat (length taken)"
  using assms
proof (induction es arbitrary: s taken)
  case (Cons e es)
  from Cons.prems(2) obtain s1 taken1 where st: "stage_step e s = Some s1"
    and run: "stage_run es s1 = Some (s', taken1)"
    and tk: "taken = (case (e, sr_pc s1) of (Wake, Handling item) \<Rightarrow> item # taken1 | _ \<Rightarrow> taken1)"
    by (auto split: option.splits)
  have ok1: "stage_ok s1" by (rule stage_step_ok [OF Cons.prems(1) st])
  note IH = Cons.IH [OF ok1 run]
  show ?case
  proof (cases e)
    case (Deliver b)
    then have s1: "s1 = stage_deliver b s" and t: "taken = taken1" using st tk by auto
    show ?thesis
    proof (cases "b = None \<or> b = Some []")
      case True
      then show ?thesis using IH s1 t Deliver by auto
    next
      case False
      then obtain p where b: "b = Some p" and p: "p \<noteq> []" by auto
      have q: "sr_queue s1 = newest (sr_max_depth s) (sr_queue s @ [p])"
        using stage_deliver_queue [OF Cons.prems(1) p] s1 b by simp
      have "subseq (sr_queue s1) (sr_queue s @ [p])" using q by (simp add: subseq_newest)
      then have "subseq (sr_queue s1 @ delivered es) ((sr_queue s @ [p]) @ delivered es)"
        by (intro list_emb_append_mono) auto
      then have sub: "subseq (sr_queue s1 @ delivered es) (sr_queue s @ delivered (e # es))"
        using Deliver b p by simp
      have cnt: "sr_dropped s1 + of_nat (length (sr_queue s1)) =
          sr_dropped s + of_nat (length (sr_queue s)) + 1"
        using Cons.prems(1) p s1 b
        by (auto simp: stage_deliver_def Let_def stage_ok_def neq_Nil_conv not_le)
      have "in_hand s1 = in_hand s" using s1 by (simp add: in_hand_def)
      moreover have "length (delivered (e # es)) = Suc (length (delivered es))"
        using Deliver b p by simp
      ultimately show ?thesis
        using IH s1 t sub cnt subseq_order.trans by (auto simp: algebra_simps)
    qed
  next
    case Start
    then show ?thesis using IH st tk
      by (auto simp: stage_start_def in_hand_def stage_joined_def split: if_splits)
  next
    case Stop
    then show ?thesis using IH st tk by (auto simp: stage_stop_def in_hand_def)
  next
    case Wake
    then show ?thesis using IH st tk
      by (auto simp: stage_wake_def in_hand_def algebra_simps split: if_splits list.splits)
  next
    case Finish
    then show ?thesis using IH st tk
      by (auto simp: stage_finish_def in_hand_def split: stage_pc.splits if_splits)
  qed
qed simp

lemma StageRunner_new_ok [simp]: "stage_ok (StageRunner_new h d)"
  by (simp add: StageRunner_new_def stage_ok_def)

lemma stopped_takes_nothing:
  "\<not> sr_running s \<Longrightarrow> Start \<notin> set es \<Longrightarrow> stage_run es s = Some (s', taken) \<Longrightarrow>
     taken = [] \<and> \<not> sr_running s'"
proof (induction es arbitrary: s taken)
  case (Cons e es)
  from Cons.prems obtain s1 taken1 where st: "stage_step e s = Some s1"
    and run: "stage_run es s1 = Some (s', taken1)"
    and tk: "taken = (case (e, sr_pc s1) of (Wake, Handling item) \<Rightarrow> item # taken1 | _ \<Rightarrow> taken1)"
    by (auto split: option.splits)
  have "\<not> sr_running s1 \<and> (e = Wake \<longrightarrow> sr_pc s1 = NotRunning)"
    using st Cons.prems(1, 2)
    by (cases e) (auto simp: stage_stop_def stage_wake_def stage_finish_def
        split: if_splits list.splits stage_pc.splits)
  with Cons.IH [OF _ _ run] Cons.prems(2) tk show ?case
    by (cases e) auto
qed simp

lemma forwardToChildren_Cons:
  "forwardToChildren (c # cs) b rs =
     forwardToChildren cs b (case c of None \<Rightarrow> rs | Some i \<Rightarrow> deliver_to b i rs)"
  by (simp add: forwardToChildren_def)

lemma length_deliver_to [simp]: "length (deliver_to b i rs) = length rs"
  by (simp add: deliver_to_def)

lemma deliver_to_nth:
  "j < length rs \<Longrightarrow> deliver_to b i rs ! j = (if i = j then map_option (stage_deliver b) (rs ! j) else rs ! j)"
  by (simp add: deliver_to_def)

lemma length_forwardToChildren [simp]: "length (forwardToChildren cs b rs) = length rs"
  by (induction cs arbitrary: rs) (auto simp: forwardToChildren_def split: option.split)

lemma forwardToChildren_nth:
  "j < length rs \<Longrightarrow> forwardToChildren cs b rs ! j =
     map_option (stage_deliver b ^^ count_list cs (Some j)) (rs ! j)"
proof (induction cs arbitrary: rs)
  case Nil
  then show ?case by (cases "rs ! j") (auto simp: forwardToChildren_def)
next
  case (Cons c cs)
  then show ?case
    by (cases c; cases "rs ! j")
      (auto simp: forwardToChildren_Cons deliver_to_nth funpow_swap1)
qed

section \<open>Properties\<close>

text \<open>
  C28. A stage's queue, over every interleaving of deliveries, thread steps, starts and stops:
  it never holds more than \<open>max_depth\<close> frames (1 if 0 was asked for), the frames taken and
  still queued are a subsequence of the frames delivered, so nothing is reordered, repeated
  or invented, and every non-empty frame delivered is accounted for: dropped, processed, in
  the plugin's hands, or queued.
\<close>
theorem stage_accounting:
  assumes "stage_run es (StageRunner_new h d) = Some (s, taken)"
  shows "length (sr_queue s) \<le> max 1 d \<and>
    subseq (taken @ sr_queue s) (delivered es) \<and>
    sr_dropped s + sr_processed s + in_hand s + of_nat (length (sr_queue s)) =
      of_nat (length (delivered es))"
proof -
  note acc = stage_run_account [OF StageRunner_new_ok assms]
  have "stage_ok s" and "sr_max_depth s = (if d \<noteq> 0 then d else 1)"
    using acc by (auto simp: StageRunner_new_def)
  then have "length (sr_queue s) \<le> max 1 d"
    by (auto simp: stage_ok_def split: if_splits)
  moreover have h: "sr_processed s + in_hand s = of_nat (length taken)"
    and "sr_dropped s + of_nat (length taken) + of_nat (length (sr_queue s)) =
      of_nat (length (delivered es))"
    using acc by (simp_all add: StageRunner_new_def in_hand_def)
  then have "sr_dropped s + (sr_processed s + in_hand s) + of_nat (length (sr_queue s)) =
      of_nat (length (delivered es))"
    by simp
  ultimately show ?thesis using acc by (simp add: StageRunner_new_def add.assoc)
qed

theorem stage_accounting_witness:
  "\<exists>s. stage_run [Start, Deliver (Some [1]), Wake, Deliver (Some [2]), Deliver (Some [3]), Finish]
      (StageRunner_new True 1) = Some (s, [[1]]) \<and>
    sr_queue s = [[3]] \<and> sr_dropped s = 1 \<and>
    sr_dropped s + sr_processed s + in_hand s + of_nat (length (sr_queue s)) = (3 :: u64)"
proof -
  let ?es = "[Start, Deliver (Some [1]), Wake, Deliver (Some [2]), Deliver (Some [3]), Finish]"
  obtain s where s: "stage_run ?es (StageRunner_new True 1) = Some (s, [[1]])"
    and "sr_queue s = [[3]] \<and> sr_dropped s = 1"
    by (simp add: StageRunner_new_def stage_start_def stage_joined_def stage_deliver_def
        stage_wake_def stage_finish_def Let_def)
  with stage_accounting [OF s] show ?thesis by (intro exI [of _ s]) simp
qed

text \<open>
  Overload policy of a stage: while its plugin is busy, a burst of frames leaves the
  newest \<open>max_depth\<close> frames in the queue, in order, and the caller of \<open>deliver\<close> never waits;
  empty frames are ignored.
\<close>
theorem stage_keeps_newest:
  assumes "stage_ok s"
  shows "sr_queue (fold (\<lambda>p. stage_deliver (Some p)) ps s) =
    newest (sr_max_depth s) (sr_queue s @ filter (\<lambda>p. p \<noteq> []) ps)"
  by (rule stage_q.burst_newest [OF assms, THEN conjunct1])

theorem stage_keeps_newest_witness:
  "sr_queue (fold (\<lambda>p. stage_deliver (Some p)) [[1], [2], [], [3]] (StageRunner_new True 2)) =
     [[2], [3]]"
  by (subst stage_keeps_newest) (simp_all add: StageRunner_new_def newest_def stage_ok_def)

text \<open>
  Routing: \<open>forwardToChildren\<close> delivers the frame to every stage exactly as often as the
  stage stands in the children vector, and to no other stage; null children are skipped.
\<close>
theorem forward_routes:
  assumes "j < length rs"
  shows "forwardToChildren cs b rs ! j =
    map_option (stage_deliver b ^^ count_list cs (Some j)) (rs ! j)"
  using assms by (rule forwardToChildren_nth)

theorem forward_routes_witness:
  "forwardToChildren [Some 1, None] (Some [7]) [None, Some (StageRunner_new True 4)] ! 1 =
     Some (stage_deliver (Some [7]) (StageRunner_new True 4))"
  by (subst forward_routes) simp_all

text \<open>
  Shutdown of a stage: once \<open>stop\<close> has cleared the flag the thread takes no further
  frame, whatever else is delivered, so the backlog is dropped; and the join cannot hang on
  the queue: one more step of the thread (the plugin's return, or waking from the wait)
  brings it to its end.
\<close>
theorem stage_stop_ends:
  assumes "stage_run es (stage_stop s) = Some (s', taken)" and "Start \<notin> set es"
  shows "taken = [] \<and> (stage_joined s' \<or>
    (\<exists>e s''. e \<in> {Wake, Finish} \<and> stage_step e s' = Some s'' \<and> stage_joined s''))"
proof -
  have "\<not> sr_running (stage_stop s)" by (simp add: stage_stop_def)
  from stopped_takes_nothing [OF this assms(2, 1)] have "taken = []" and r: "\<not> sr_running s'" by auto
  moreover have "\<exists>e s''. e \<in> {Wake, Finish} \<and> stage_step e s' = Some s'' \<and> stage_joined s''"
    if "\<not> stage_joined s'"
  proof (cases "sr_pc s'")
    case NotRunning
    with that show ?thesis by (simp add: stage_joined_def)
  next
    case Waiting
    with r show ?thesis by (intro exI [of _ Wake]) (simp add: stage_wake_def stage_joined_def)
  next
    case (Handling item)
    with r show ?thesis by (intro exI [of _ Finish]) (simp add: stage_finish_def stage_joined_def)
  qed
  ultimately show ?thesis by blast
qed

theorem stage_stop_ends_witness:
  "\<exists>s'. stage_run [Deliver (Some [1]), Wake] (stage_stop (stage_start (StageRunner_new True 2))) =
      Some (s', []) \<and> sr_queue s' = [[1]]"
proof -
  obtain s' t where r: "stage_run [Deliver (Some [1]), Wake]
      (stage_stop (stage_start (StageRunner_new True 2))) = Some (s', t)" and "sr_queue s' = [[1]]"
    by (simp add: StageRunner_new_def stage_start_def stage_stop_def stage_deliver_def
        stage_wake_def Let_def)
  with stage_stop_ends [OF r] show ?thesis by simp
qed

end
