(* ===== verification/Plugin_Manager.thy ===== *)
theory Plugin_Manager
  imports Pipeline_Loader Stage_Runner
begin

text \<open>
  Loading, starting and stopping a pipeline: core/src/PluginManager.cpp with the plugin type of
  core/include/zm_plugin.h. The dynamic linker is the argument \<open>L\<close>. A plugin is represented by what
  the manager reads of it; its callbacks appear as entries of the lifecycle log that each
  operation returns, in the order in which the code makes the calls.
\<close>

section \<open>Plugins\<close>

definition ZM_PLUGIN_ABI_VERSION :: u32 where "ZM_PLUGIN_ABI_VERSION = 1"

datatype zm_plugin_type =
  ZM_PLUGIN_INPUT | ZM_PLUGIN_PROCESS | ZM_PLUGIN_DETECT | ZM_PLUGIN_OUTPUT | ZM_PLUGIN_STORE

record zm_plugin =
  zp_version :: u32
  zp_type :: zm_plugin_type
  zp_start :: bool       \<comment> \<open>the pointer is set\<close>
  zp_stop :: bool
  zp_on_frame :: bool

record 'h linker =
  l_dlopen :: "string \<Rightarrow> 'h option"
  l_init :: "'h \<Rightarrow> zm_plugin option"    \<comment> \<open>dlsym of zm_plugin_init, and its call\<close>

record 'h PluginInstance =
  pi_handle :: 'h
  pi_plugin :: zm_plugin
  pi_config :: PluginConfig

datatype 'h load_action = Dlopen string | Dlclose 'h | Init 'h

text \<open>\<open>loadPipeline\<close>: the result, \<open>pipeline_\<close>, and the linker calls that succeeded.\<close>

fun load_loop ::
  "'h linker \<Rightarrow> PluginConfig list \<Rightarrow> 'h PluginInstance list \<Rightarrow>
   bool \<times> 'h PluginInstance list \<times> 'h load_action list" where
  "load_loop L [] pipeline = (True, pipeline, [])"
| "load_loop L (pcfg # rest) pipeline =
     (case l_dlopen L (pc_path pcfg) of
        None \<Rightarrow> (False, pipeline, [])
      | Some handle \<Rightarrow>
          (case l_init L handle of
             None \<Rightarrow> (False, pipeline, [Dlopen (pc_path pcfg), Dlclose handle])
           | Some plugin \<Rightarrow>
               (case load_loop L rest
                   (pipeline @ [\<lparr>pi_handle = handle, pi_plugin = plugin, pi_config = pcfg\<rparr>]) of
                  (ok, pl, acts) \<Rightarrow> (ok, pl, Dlopen (pc_path pcfg) # Init handle # acts))))"

definition loadPipeline ::
  "'h linker \<Rightarrow> PluginConfig list \<Rightarrow> bool \<times> 'h PluginInstance list \<times> 'h load_action list" where
  "loadPipeline L cfgs = load_loop L cfgs []"

definition pluginCount :: "'h PluginInstance list \<Rightarrow> nat" where
  "pluginCount pipeline = length pipeline"

definition getHandle :: "'h PluginInstance list \<Rightarrow> nat \<Rightarrow> 'h option" where
  "getHandle pipeline index = (if index < length pipeline then Some (pi_handle (pipeline ! index)) else None)"

section \<open>Starting and stopping\<close>

datatype lifecycle =
  PluginStart nat | RunnerStart nat | CaptureStart nat "nat option list"
| CaptureStop nat | RunnerStop nat | PluginStop nat

record 'h manager =
  pm_pipeline :: "'h PluginInstance list"
  pm_runners :: "stage option list"
  pm_capture :: "(nat \<times> nat option list) option"    \<comment> \<open>the input plugin and its outputs\<close>

fun input_index_from :: "nat \<Rightarrow> 'h PluginInstance list \<Rightarrow> nat" where
  "input_index_from i [] = i"
| "input_index_from i (inst # rest) =
     (if zp_type (pi_plugin inst) = ZM_PLUGIN_INPUT then i else input_index_from (i + 1) rest)"

definition make_runner :: "'h PluginInstance \<Rightarrow> stage" where
  "make_runner inst =
     StageRunner_new (zp_on_frame (pi_plugin inst))
       (let depth = (if pc_queue_depth (pi_config inst) > 0 then pc_queue_depth (pi_config inst) else 16)
        in nat depth)"

definition make_runners :: "nat \<Rightarrow> 'h PluginInstance list \<Rightarrow> stage option list" where
  "make_runners inputIdx pipeline =
     map (\<lambda>i. if i = inputIdx then None else Some (make_runner (pipeline ! i))) [0..<length pipeline]"

definition childRunnersOf :: "'h PluginInstance list \<Rightarrow> stage option list \<Rightarrow> nat \<Rightarrow> nat option list" where
  "childRunnersOf pipeline runners i =
     map Some (filter (\<lambda>ci. ci < length pipeline \<and> runners ! ci \<noteq> None)
       (pc_children (pi_config (pipeline ! i))))"

definition set_children :: "'h PluginInstance list \<Rightarrow> stage option list \<Rightarrow> stage option list" where
  "set_children pipeline runners =
     map (\<lambda>i. map_option (\<lambda>s. s\<lparr>sr_children := childRunnersOf pipeline runners i\<rparr>) (runners ! i))
       [0..<length pipeline]"

definition startAll :: "'h manager \<Rightarrow> 'h manager \<times> lifecycle list" where
  "startAll m =
     (let pipeline = pm_pipeline m; n = length pipeline in
      if pipeline = [] then (m, [])
      else let inputIdx = input_index_from 0 pipeline in
        if inputIdx = n then (m, [])
        else let runners = set_children pipeline (make_runners inputIdx pipeline);
                 outputs = childRunnersOf pipeline runners inputIdx;
                 starts = map PluginStart (filter (\<lambda>i. i \<noteq> inputIdx \<and> zp_start (pi_plugin (pipeline ! i))) [0..<n]);
                 threads = map RunnerStart (filter (\<lambda>i. runners ! i \<noteq> None) [0..<n])
             in (m\<lparr>pm_runners := map (map_option stage_start) runners,
                   pm_capture := Some (inputIdx, outputs)\<rparr>,
                 starts @ threads @ [CaptureStart inputIdx outputs]))"

definition stopAll :: "'h manager \<Rightarrow> 'h manager \<times> lifecycle list" where
  "stopAll m =
     (let pipeline = pm_pipeline m;
          capture = (case pm_capture m of None \<Rightarrow> [] | Some (i, outputs) \<Rightarrow> [CaptureStop i]);
          threads = map RunnerStop (filter (\<lambda>i. pm_runners m ! i \<noteq> None) [0..<length (pm_runners m)]);
          stops = map PluginStop (filter (\<lambda>i. zp_type (pi_plugin (pipeline ! i)) \<noteq> ZM_PLUGIN_INPUT \<and>
                    zp_stop (pi_plugin (pipeline ! i))) [0..<length pipeline])
      in (m\<lparr>pm_capture := None, pm_runners := []\<rparr>, capture @ threads @ stops))"

section \<open>Facts\<close>

lemma load_loop_paths:
  "load_loop L cfgs pl = (ok, pl', acts) \<Longrightarrow>
   \<exists>new. pl' = pl @ new \<and> map pi_config new = take (length new) cfgs \<and>
     (ok \<longleftrightarrow> length new = length cfgs) \<and>
     (\<forall>inst \<in> set new. l_dlopen L (pc_path (pi_config inst)) = Some (pi_handle inst) \<and>
        l_init L (pi_handle inst) = Some (pi_plugin inst))"
proof (induction cfgs arbitrary: pl acts)
  case (Cons c cfgs)
  show ?case
  proof (cases "l_dlopen L (pc_path c)")
    case None
    with Cons.prems show ?thesis by (intro exI [of _ "[]"]) auto
  next
    case (Some h)
    show ?thesis
    proof (cases "l_init L h")
      case None
      with Some Cons.prems show ?thesis by (intro exI [of _ "[]"]) auto
    next
      case p: (Some p)
      let ?i = "\<lparr>pi_handle = h, pi_plugin = p, pi_config = c\<rparr>"
      from Some p Cons.prems obtain acts' where "load_loop L cfgs (pl @ [?i]) = (ok, pl', acts')"
        by (auto split: prod.splits)
      from Cons.IH [OF this] obtain new where "pl' = (pl @ [?i]) @ new"
        "map pi_config new = take (length new) cfgs" "ok \<longleftrightarrow> length new = length cfgs"
        "\<forall>inst \<in> set new. l_dlopen L (pc_path (pi_config inst)) = Some (pi_handle inst) \<and>
          l_init L (pi_handle inst) = Some (pi_plugin inst)"
        by blast
      with Some p show ?thesis by (intro exI [of _ "?i # new"]) auto
    qed
  qed
qed (auto intro: exI [of _ "[]"])

lemma input_index_from_le: "input_index_from i pl \<le> i + length pl"
  by (induction i pl rule: input_index_from.induct) auto

lemma input_index_from_first:
  "input_index_from i pl < i + length pl \<Longrightarrow>
   zp_type (pi_plugin (pl ! (input_index_from i pl - i))) = ZM_PLUGIN_INPUT \<and>
   i \<le> input_index_from i pl \<and>
   (\<forall>k < input_index_from i pl - i. zp_type (pi_plugin (pl ! k)) \<noteq> ZM_PLUGIN_INPUT)"
proof (induction i pl rule: input_index_from.induct)
  case (2 i inst rest)
  show ?case
  proof (cases "zp_type (pi_plugin inst) = ZM_PLUGIN_INPUT")
    case False
    with 2 show ?thesis
      by (auto simp: nth_Cons' Suc_diff_le less_Suc_eq_0_disj split: if_splits)
  qed simp
qed simp

lemma runners_nth:
  "i < length pl \<Longrightarrow> set_children pl (make_runners k pl) ! i =
     (if i = k then None
      else Some ((make_runner (pl ! i))\<lparr>sr_children := childRunnersOf pl (make_runners k pl) i\<rparr>))"
  by (simp add: set_children_def make_runners_def)

lemma make_runners_nth:
  "i < length pl \<Longrightarrow> make_runners k pl ! i = (if i = k then None else Some (make_runner (pl ! i)))"
  by (simp add: make_runners_def)

lemma length_runners [simp]:
  "length (set_children pl rs) = length pl" "length (make_runners k pl) = length pl"
  by (simp_all add: set_children_def make_runners_def)

lemma childRunnersOf_eq:
  "childRunnersOf pl (make_runners k pl) i =
     map Some (filter (\<lambda>ci. ci < length pl \<and> ci \<noteq> k) (pc_children (pi_config (pl ! i))))"
  unfolding childRunnersOf_def make_runners_def
  by (rule arg_cong [where f = "map Some"], rule filter_cong) auto

section \<open>Routing from a plugin\<close>

text \<open>
  \<open>chain_on_frame\<close>: \<open>host_ctx\<close> is the plugin's own runner, by index; null does nothing. It may be
  called from the plugin's own threads, so it can run between any two steps of the stages.
\<close>

definition chain_on_frame :: "nat option \<Rightarrow> bytes option \<Rightarrow> stage option list \<Rightarrow> stage option list" where
  "chain_on_frame host_ctx buf rs =
     (case host_ctx of
        None \<Rightarrow> rs
      | Some i \<Rightarrow> (case rs ! i of None \<Rightarrow> rs | Some s \<Rightarrow> forwardToChildren (sr_children s) buf rs))"

section \<open>The started pipeline\<close>

text \<open>Where each plugin's frames go: the runner's children, or the capture thread's outputs.\<close>

definition feeds :: "'h manager \<Rightarrow> nat \<Rightarrow> nat option list" where
  "feeds m i =
     (case pm_capture m of
        None \<Rightarrow> []
      | Some (k, outputs) \<Rightarrow>
          if i = k then outputs
          else (case pm_runners m ! i of None \<Rightarrow> [] | Some s \<Rightarrow> sr_children s))"

lemma stage_start_children [simp]: "sr_children (stage_start s) = sr_children s"
  by (simp add: stage_start_def)

definition configs :: "'h manager \<Rightarrow> PluginConfig list" where
  "configs m = map pi_config (pm_pipeline m)"

text \<open>The log and the state of a start that finds an input plugin.\<close>

lemma startAll_started:
  fixes m :: "'h manager"
  defines "pl \<equiv> pm_pipeline m"
  assumes "input_index_from 0 pl < length pl" and "startAll m = (m', up)"
  shows "pm_pipeline m' = pl"
    and "pm_runners m' = map (map_option stage_start) (set_children pl (make_runners (input_index_from 0 pl) pl))"
    and "pm_capture m' = Some (input_index_from 0 pl,
      childRunnersOf pl (make_runners (input_index_from 0 pl) pl) (input_index_from 0 pl))"
    and "up = map PluginStart (filter (\<lambda>i. i \<noteq> input_index_from 0 pl \<and> zp_start (pi_plugin (pl ! i))) [0..<length pl])
      @ map RunnerStart (filter (\<lambda>i. i \<noteq> input_index_from 0 pl) [0..<length pl])
      @ [CaptureStart (input_index_from 0 pl)
          (childRunnersOf pl (make_runners (input_index_from 0 pl) pl) (input_index_from 0 pl))]"
proof -
  let ?k = "input_index_from 0 pl"
  let ?rs = "set_children pl (make_runners ?k pl)"
  have ne: "pl \<noteq> []" using assms(2) by auto
  have ch: "childRunnersOf pl ?rs ?k = childRunnersOf pl (make_runners ?k pl) ?k"
    unfolding childRunnersOf_def
    by (rule arg_cong [where f = "map Some"], rule filter_cong)
      (auto simp: runners_nth make_runners_nth)
  have th: "filter (\<lambda>i. ?rs ! i \<noteq> None) [0..<length pl] = filter (\<lambda>i. i \<noteq> ?k) [0..<length pl]"
    by (rule filter_cong) (auto simp: runners_nth)
  have e: "startAll m = (m\<lparr>pm_runners := map (map_option stage_start) ?rs,
      pm_capture := Some (?k, childRunnersOf pl (make_runners ?k pl) ?k)\<rparr>,
      map PluginStart (filter (\<lambda>i. i \<noteq> ?k \<and> zp_start (pi_plugin (pl ! i))) [0..<length pl])
      @ map RunnerStart (filter (\<lambda>i. i \<noteq> ?k) [0..<length pl])
      @ [CaptureStart ?k (childRunnersOf pl (make_runners ?k pl) ?k)])"
    using assms(2) ne unfolding startAll_def Let_def pl_def [symmetric] ch th by simp
  with assms(3) show "pm_pipeline m' = pl" "pm_runners m' = map (map_option stage_start) ?rs"
    "pm_capture m' = Some (?k, childRunnersOf pl (make_runners ?k pl) ?k)"
    "up = map PluginStart (filter (\<lambda>i. i \<noteq> ?k \<and> zp_start (pi_plugin (pl ! i))) [0..<length pl])
      @ map RunnerStart (filter (\<lambda>i. i \<noteq> ?k) [0..<length pl])
      @ [CaptureStart ?k (childRunnersOf pl (make_runners ?k pl) ?k)]"
    by (auto simp: pl_def)
qed

lemma started_feeds:
  assumes "input_index_from 0 (pm_pipeline m) < length (pm_pipeline m)" and "startAll m = (m', up)"
    and "i < length (pm_pipeline m)"
  shows "feeds m' i = map Some (filter (\<lambda>c. c < length (configs m) \<and> c \<noteq> input_index_from 0 (pm_pipeline m))
    (pc_children (configs m ! i)))"
  using startAll_started [OF assms(1,2)] assms(3)
  by (simp add: feeds_def runners_nth childRunnersOf_eq configs_def)

lemma concat_filter: "concat (map (\<lambda>x. map f (filter P (g x))) xs) = map f (filter P (concat (map g xs)))"
  by (induction xs) simp_all

lemma map_nth_upt: "map (\<lambda>i. f (xs ! i)) [0..<length xs] = map f xs"
  by (rule nth_equalityI) simp_all

lemma count_list_map_filter:
  assumes "inj f"
  shows "count_list (map f (filter P [0..<n])) (f i) = (if i < n \<and> P i then 1 else 0)"
  by (induction n) (auto simp: inj_eq [OF assms] less_Suc_eq)

lemma count_list_map_disjoint: "(\<And>x. f x \<noteq> y) \<Longrightarrow> count_list (map f xs) y = 0"
  by (induction xs) auto

section \<open>Properties\<close>

text \<open>
  Topology of the running pipeline: for a pipeline whose configuration is the forest that
  the loader builds, the edges along which frames travel after \<open>startAll\<close> are the configured
  ones, less those into the input plugin; every edge leads to a later stage and no stage is
  fed twice, so a captured frame reaches each stage at most once along one path.
\<close>
theorem started_pipeline_tree:
  assumes "forest (configs m)" and "input_index_from 0 (pm_pipeline m) < length (pm_pipeline m)"
    and "startAll m = (m', up)"
  shows "concat (map (feeds m') [0..<length (configs m)]) =
      map Some (filter (\<lambda>c. c \<noteq> input_index_from 0 (pm_pipeline m)) (edges (configs m))) \<and>
    distinct (concat (map (feeds m') [0..<length (configs m)])) \<and>
    (\<forall>i < length (configs m). \<forall>c. Some c \<in> set (feeds m' i) \<longrightarrow> i < c \<and> c < length (configs m))"
proof -
  let ?n = "length (configs m)" and ?k = "input_index_from 0 (pm_pipeline m)"
  have n: "?n = length (pm_pipeline m)" by (simp add: configs_def)
  have fe: "feeds m' i = map Some (filter (\<lambda>c. c < ?n \<and> c \<noteq> ?k) (pc_children (configs m ! i)))"
    if "i < ?n" for i
    using started_feeds [OF assms(2,3)] that n by simp
  have "map (feeds m') [0..<?n] =
      map (\<lambda>i. map Some (filter (\<lambda>c. c < ?n \<and> c \<noteq> ?k) (pc_children (configs m ! i)))) [0..<?n]"
    by (rule map_cong) (simp_all add: fe)
  also have "concat \<dots> = map Some (filter (\<lambda>c. c < ?n \<and> c \<noteq> ?k) (edges (configs m)))"
    unfolding concat_filter edges_def map_nth_upt by (rule refl)
  also have "\<dots> = map Some (filter (\<lambda>c. c \<noteq> ?k) (edges (configs m)))"
    using edges_bound [OF assms(1)] by (auto intro: filter_cong)
  finally have e: "concat (map (feeds m') [0..<?n]) = map Some (filter (\<lambda>c. c \<noteq> ?k) (edges (configs m)))" .
  moreover have "distinct (map Some (filter (\<lambda>c. c \<noteq> ?k) (edges (configs m))))"
    using forestD(2) [OF assms(1)] by (simp add: distinct_map)
  moreover have "i < c \<and> c < ?n" if "i < ?n" "Some c \<in> set (feeds m' i)" for i c
  proof -
    from that(2) fe [OF that(1)] have "c \<in> set (pc_children (configs m ! i))" by auto
    with forestD(1) [OF assms(1) that(1)] show ?thesis by blast
  qed
  ultimately show ?thesis by metis
qed

definition demo_plugin :: "zm_plugin_type \<Rightarrow> zm_plugin" where
  "demo_plugin t = \<lparr>zp_version = 1, zp_type = t, zp_start = True, zp_stop = True, zp_on_frame = True\<rparr>"

definition demo_manager :: "nat manager" where
  "demo_manager = \<lparr>pm_pipeline =
     [\<lparr>pi_handle = 1, pi_plugin = demo_plugin ZM_PLUGIN_INPUT,
       pi_config = PluginConfig_init\<lparr>pc_children := [1]\<rparr>\<rparr>,
      \<lparr>pi_handle = 2, pi_plugin = demo_plugin ZM_PLUGIN_DETECT, pi_config = PluginConfig_init\<rparr>,
      \<lparr>pi_handle = 3, pi_plugin = demo_plugin ZM_PLUGIN_INPUT, pi_config = PluginConfig_init\<rparr>],
     pm_runners = [], pm_capture = None\<rparr>"

lemma demo_manager_facts [simp]:
  "input_index_from 0 (pm_pipeline demo_manager) = 0" "length (pm_pipeline demo_manager) = 3"
  "length (configs demo_manager) = 3" "edges (configs demo_manager) = [1]"
  "zp_type (pi_plugin (pm_pipeline demo_manager ! Suc 0)) = ZM_PLUGIN_DETECT"
  "zp_type (pi_plugin (pm_pipeline demo_manager ! 2)) = ZM_PLUGIN_INPUT"
  "zp_start (pi_plugin (pm_pipeline demo_manager ! Suc 0))" "zp_start (pi_plugin (pm_pipeline demo_manager ! 2))"
  "zp_stop (pi_plugin (pm_pipeline demo_manager ! Suc 0))" "zp_stop (pi_plugin (pm_pipeline demo_manager ! 2))"
  by (simp_all add: demo_manager_def demo_plugin_def configs_def edges_def PluginConfig_init_def)

lemma demo_manager_forest [simp]: "forest (configs demo_manager)"
proof (rule forestI)
  fix i c assume "i < length (configs demo_manager)" "c \<in> set (pc_children (configs demo_manager ! i))"
  then show "i < c \<and> c < length (configs demo_manager)"
    by (auto simp: demo_manager_def configs_def PluginConfig_init_def less_Suc_eq)
qed simp

theorem started_pipeline_tree_witness:
  "concat (map (feeds (fst (startAll demo_manager))) [0..<length (configs demo_manager)]) = [Some 1]"
  using started_pipeline_tree [OF demo_manager_forest, of "fst (startAll demo_manager)" "snd (startAll demo_manager)"]
  by simp

text \<open>
  Lifecycle: \<open>startAll\<close> starts every stage's plugin before any stage thread and the capture
  last; \<open>stopAll\<close> undoes it in reverse: the capture, then every thread, once, and only then the
  plugins, each plugin that is not an input once. No \<open>on_frame\<close> can be running when a plugin's
  \<open>stop\<close> is called.
\<close>
theorem lifecycle_order:
  assumes "input_index_from 0 (pm_pipeline m) < length (pm_pipeline m)"
    and "startAll m = (m1, up)" and "stopAll m1 = (m2, down)"
    and "i < length (pm_pipeline m)" and "i \<noteq> input_index_from 0 (pm_pipeline m)"
  shows "(\<exists>ps ts k outs. up = map PluginStart ps @ map RunnerStart ts @ [CaptureStart k outs] \<and>
      down = [CaptureStop k] @ map RunnerStop ts @ drop (1 + length ts) down \<and>
      (\<forall>a \<in> set (drop (1 + length ts) down). \<exists>j. a = PluginStop j)) \<and>
    count_list up (RunnerStart i) = 1 \<and> count_list down (RunnerStop i) = 1 \<and>
    count_list up (PluginStart i) = (if zp_start (pi_plugin (pm_pipeline m ! i)) then 1 else 0) \<and>
    count_list down (PluginStop i) =
      (if zp_stop (pi_plugin (pm_pipeline m ! i)) \<and> zp_type (pi_plugin (pm_pipeline m ! i)) \<noteq> ZM_PLUGIN_INPUT
       then 1 else 0) \<and>
    pm_runners m2 = [] \<and> pm_capture m2 = None"
proof -
  let ?pl = "pm_pipeline m" and ?k = "input_index_from 0 (pm_pipeline m)"
  note st = startAll_started [OF assms(1,2)]
  define ts where "ts = filter (\<lambda>i. i \<noteq> ?k) [0..<length ?pl]"
  define ss where "ss = filter (\<lambda>i. zp_type (pi_plugin (?pl ! i)) \<noteq> ZM_PLUGIN_INPUT \<and>
    zp_stop (pi_plugin (?pl ! i))) [0..<length ?pl]"
  have "filter (\<lambda>i. pm_runners m1 ! i \<noteq> None) [0..<length (pm_runners m1)] = ts"
    unfolding ts_def st(2) by (simp, rule filter_cong) (auto simp: runners_nth)
  then have down: "down = [CaptureStop ?k] @ map RunnerStop ts @ map PluginStop ss"
    and m2: "pm_runners m2 = []" "pm_capture m2 = None"
    using assms(3) st(1,3) by (auto simp: stopAll_def Let_def ss_def)
  have up: "up = map PluginStart (filter (\<lambda>i. i \<noteq> ?k \<and> zp_start (pi_plugin (?pl ! i))) [0..<length ?pl])
      @ map RunnerStart ts @ [CaptureStart ?k (childRunnersOf ?pl (make_runners ?k ?pl) ?k)]"
    using st(4) by (simp add: ts_def)
  have shape: "\<exists>ps ts k outs. up = map PluginStart ps @ map RunnerStart ts @ [CaptureStart k outs] \<and>
      down = [CaptureStop k] @ map RunnerStop ts @ drop (1 + length ts) down \<and>
      (\<forall>a \<in> set (drop (1 + length ts) down). \<exists>j. a = PluginStop j)"
    by (rule exI, rule exI [of _ ts], rule exI [of _ ?k], rule exI) (auto simp: up down)
  have inj: "inj PluginStart" "inj RunnerStart" "inj RunnerStop" "inj PluginStop"
    by (auto simp: inj_def)
  have c: "count_list up (RunnerStart i) = 1" "count_list down (RunnerStop i) = 1"
    "count_list up (PluginStart i) = (if zp_start (pi_plugin (?pl ! i)) then 1 else 0)"
    "count_list down (PluginStop i) = (if zp_stop (pi_plugin (?pl ! i)) \<and>
       zp_type (pi_plugin (?pl ! i)) \<noteq> ZM_PLUGIN_INPUT then 1 else 0)"
    using assms(4,5)
    by (auto simp: up down ts_def ss_def count_list_map_filter [OF inj(1)] count_list_map_filter [OF inj(2)]
        count_list_map_filter [OF inj(3)] count_list_map_filter [OF inj(4)] count_list_map_disjoint)
  show ?thesis using shape c m2 by blast
qed

theorem lifecycle_order_witness:
  "count_list (snd (stopAll (fst (startAll demo_manager)))) (PluginStop 1) = 1"
  using lifecycle_order [of demo_manager "fst (startAll demo_manager)" "snd (startAll demo_manager)"
      "fst (stopAll (fst (startAll demo_manager)))" "snd (stopAll (fst (startAll demo_manager)))" 1]
  by simp

text \<open>
  A gap in the lifecycle: when a pipeline names a second input plugin, \<open>startAll\<close> starts it
  as a stage, and \<open>stopAll\<close> never stops it.
\<close>
theorem second_input_not_stopped:
  assumes "input_index_from 0 (pm_pipeline m) < length (pm_pipeline m)"
    and "startAll m = (m1, up)" and "stopAll m1 = (m2, down)"
    and "i < length (pm_pipeline m)" and "i \<noteq> input_index_from 0 (pm_pipeline m)"
    and "zp_type (pi_plugin (pm_pipeline m ! i)) = ZM_PLUGIN_INPUT"
    and "zp_start (pi_plugin (pm_pipeline m ! i))"
  shows "PluginStart i \<in> set up \<and> PluginStop i \<notin> set down \<and> CaptureStop i \<notin> set down"
  using startAll_started [OF assms(1,2)] assms(3-7)
  by (auto simp: stopAll_def Let_def)

theorem second_input_not_stopped_witness:
  "PluginStart 2 \<in> set (snd (startAll demo_manager)) \<and>
   PluginStop 2 \<notin> set (snd (stopAll (fst (startAll demo_manager))))"
  using second_input_not_stopped [of demo_manager "fst (startAll demo_manager)" "snd (startAll demo_manager)"
      "fst (stopAll (fst (startAll demo_manager)))" "snd (stopAll (fst (startAll demo_manager)))" 2]
  by simp

text \<open>
  Loading: \<open>loadPipeline\<close> keeps exactly the instances of the configurations before the first
  one that cannot be opened or has no entry point, in order and with the handles and plugins
  that the linker gave, and returns true when there is no such one.
\<close>
theorem load_pipeline_prefix:
  assumes "loadPipeline L cfgs = (ok, pipeline, acts)"
  shows "map pi_config pipeline = take (length pipeline) cfgs \<and> (ok \<longleftrightarrow> length pipeline = length cfgs) \<and>
    (\<forall>inst \<in> set pipeline. l_dlopen L (pc_path (pi_config inst)) = Some (pi_handle inst) \<and>
       l_init L (pi_handle inst) = Some (pi_plugin inst))"
  using load_loop_paths [of L cfgs "[]" ok pipeline acts] assms by (auto simp: loadPipeline_def)

theorem load_pipeline_prefix_witness:
  "\<exists>pipeline acts. loadPipeline \<lparr>l_dlopen = (\<lambda>p. if p = ''x'' then None else Some p),
      l_init = (\<lambda>h. Some (demo_plugin ZM_PLUGIN_OUTPUT))\<rparr>
      [PluginConfig_init\<lparr>pc_path := ''a''\<rparr>, PluginConfig_init\<lparr>pc_path := ''x''\<rparr>] = (False, pipeline, acts) \<and>
    length pipeline = 1"
proof -
  let ?L = "\<lparr>l_dlopen = (\<lambda>p. if p = ''x'' then None else Some p), l_init = (\<lambda>h. Some (demo_plugin ZM_PLUGIN_OUTPUT))\<rparr>"
  let ?cs = "[PluginConfig_init\<lparr>pc_path := ''a''\<rparr>, PluginConfig_init\<lparr>pc_path := ''x''\<rparr>]"
  obtain pipeline acts where l: "loadPipeline ?L ?cs = (False, pipeline, acts)" and "length pipeline = 1"
    by (simp add: loadPipeline_def)
  with load_pipeline_prefix [OF l] show ?thesis by blast
qed

end
