(* ===== verification/Stream_Protocol.thy ===== *)
theory Stream_Protocol
  imports Prelude
begin

text \<open>
  The stream socket wire protocol: core/include/zm/stream_socket_protocol.hpp and
  core/src/stream_socket_protocol.cpp. Pointer and length pairs are byte lists; a parser's
  out-parameter is the second component of its result, also when it returns false.
\<close>

section \<open>Constants\<close>

definition kProtocolVersion :: u8 where "kProtocolVersion = 1"
definition kHeaderSize :: nat where "kHeaderSize = 24"
definition kHeaderLengthBytes :: u32 where "kHeaderLengthBytes = 20"
definition kMaxMessageLength :: u32 where "kMaxMessageLength = 32 * 1024 * 1024"
definition kCodecIdNone :: u32 where "kCodecIdNone = 0"
definition kFlagKeyframe :: u8 where "kFlagKeyframe = 0x01"

datatype MessageType =
  Hello | Media | Keyframe | Stats | Bye | Event | Subscribe | Command | Response | Talkback

fun message_type_code :: "MessageType \<Rightarrow> u8" where
  "message_type_code Hello = 0x01"
| "message_type_code Media = 0x02"
| "message_type_code Keyframe = 0x03"
| "message_type_code Stats = 0x04"
| "message_type_code Bye = 0x05"
| "message_type_code Event = 0x06"
| "message_type_code Subscribe = 0x10"
| "message_type_code Command = 0x11"
| "message_type_code Response = 0x12"
| "message_type_code Talkback = 0x13"

datatype StreamId = Video | Audio | Monitor

fun stream_id_code :: "StreamId \<Rightarrow> u8" where
  "stream_id_code Video = 0"
| "stream_id_code Audio = 1"
| "stream_id_code Monitor = 2"

text \<open>HELLO and EVENT TLV tags.\<close>

definition kTlvCodecId :: u8 where "kTlvCodecId = 0x01"
definition kTlvExtradata :: u8 where "kTlvExtradata = 0x02"
definition kTlvWidth :: u8 where "kTlvWidth = 0x03"
definition kTlvHeight :: u8 where "kTlvHeight = 0x04"
definition kTlvFpsNum :: u8 where "kTlvFpsNum = 0x05"
definition kTlvFpsDen :: u8 where "kTlvFpsDen = 0x06"
definition kTlvSampleRate :: u8 where "kTlvSampleRate = 0x07"
definition kTlvChannels :: u8 where "kTlvChannels = 0x08"
definition kTlvProfile :: u8 where "kTlvProfile = 0x09"
definition kTlvLevel :: u8 where "kTlvLevel = 0x0A"

definition kTlvWallClockUs :: u8 where "kTlvWallClockUs = 0x01"
definition kTlvMessage :: u8 where "kTlvMessage = 0x02"
definition kTlvStateId :: u8 where "kTlvStateId = 0x03"
definition kTlvPrevStateId :: u8 where "kTlvPrevStateId = 0x04"
definition kTlvDetail :: u8 where "kTlvDetail = 0x05"
definition kTlvStateName :: u8 where "kTlvStateName = 0x06"
definition kTlvHealthCode :: u8 where "kTlvHealthCode = 0x07"
definition kTlvJsonDetail :: u8 where "kTlvJsonDetail = 0x10"

lemmas tlv_tag_defs [wire_simps] =
  kTlvCodecId_def kTlvExtradata_def kTlvWidth_def kTlvHeight_def kTlvFpsNum_def
  kTlvFpsDen_def kTlvSampleRate_def kTlvChannels_def kTlvProfile_def kTlvLevel_def
  kTlvWallClockUs_def kTlvMessage_def kTlvStateId_def kTlvPrevStateId_def kTlvDetail_def
  kTlvStateName_def kTlvHealthCode_def kTlvJsonDetail_def

text \<open>EVENT codes.\<close>

definition kEventSnapshot :: u16 where "kEventSnapshot = 0x0001"
definition kEventConnectionFailed :: u16 where "kEventConnectionFailed = 0x0101"
definition kEventConnectionRestored :: u16 where "kEventConnectionRestored = 0x0102"
definition kEventPrimeCaptureFailed :: u16 where "kEventPrimeCaptureFailed = 0x0103"
definition kEventPrimeCaptureRestored :: u16 where "kEventPrimeCaptureRestored = 0x0104"
definition kEventCaptureFailed :: u16 where "kEventCaptureFailed = 0x0105"
definition kEventCaptureResumed :: u16 where "kEventCaptureResumed = 0x0106"
definition kEventStateChanged :: u16 where "kEventStateChanged = 0x0201"
definition kEventDetection :: u16 where "kEventDetection = 0x0301"
definition kEventDescription :: u16 where "kEventDescription = 0x0302"
definition kEventRecordingSaved :: u16 where "kEventRecordingSaved = 0x0303"
definition kEventRecordingOpening :: u16 where "kEventRecordingOpening = 0x0304"
definition kEventReviewAssets :: u16 where "kEventReviewAssets = 0x0306"

lemmas event_code_defs [wire_simps] =
  kEventSnapshot_def kEventConnectionFailed_def kEventConnectionRestored_def
  kEventPrimeCaptureFailed_def kEventPrimeCaptureRestored_def kEventCaptureFailed_def
  kEventCaptureResumed_def kEventStateChanged_def kEventDetection_def
  kEventDescription_def kEventRecordingSaved_def kEventRecordingOpening_def
  kEventReviewAssets_def

section \<open>The fixed header\<close>

record Header =
  h_length :: u32
  h_version :: u8
  h_type :: u8
  h_stream :: u8
  h_flags :: u8
  h_sequence :: u32
  h_generation :: u32
  h_pts_us :: u64

definition payload_size :: "Header \<Rightarrow> u32" where
  "payload_size h = h_length h - kHeaderLengthBytes"

definition SerializeHeader :: "Header \<Rightarrow> bytes" where
  "SerializeHeader h =
     put_u32 (h_length h) @ [h_version h, h_type h, h_stream h, h_flags h] @
     put_u32 (h_sequence h) @ put_u32 (h_generation h) @ put_u64 (h_pts_us h)"

definition ParseHeader :: "bytes \<Rightarrow> bool \<times> Header" where
  "ParseHeader inp =
     (let header = \<lparr>h_length = get_u32 inp, h_version = inp ! 4, h_type = inp ! 5,
                    h_stream = inp ! 6, h_flags = inp ! 7,
                    h_sequence = get_u32 (drop 8 inp), h_generation = get_u32 (drop 12 inp),
                    h_pts_us = get_u64 (drop 16 inp)\<rparr>
      in (if h_version header \<noteq> kProtocolVersion then False
          else if h_length header < kHeaderLengthBytes \<or> h_length header > kMaxMessageLength
          then False else True, header))"

definition header_valid :: "Header \<Rightarrow> bool" where
  "header_valid h \<longleftrightarrow> h_version h = kProtocolVersion \<and>
     kHeaderLengthBytes \<le> h_length h \<and> h_length h \<le> kMaxMessageLength"

lemma length_SerializeHeader [simp]: "length (SerializeHeader h) = kHeaderSize"
  by (simp add: SerializeHeader_def kHeaderSize_def)

lemma ParseHeader_SerializeHeader [simp]:
  "ParseHeader (SerializeHeader h @ rest) = (header_valid h, h)"
proof -
  let ?b = "SerializeHeader h @ rest"
  have 8: "drop 8 ?b = put_u32 (h_sequence h) @ put_u32 (h_generation h) @ put_u64 (h_pts_us h) @ rest"
    by (simp add: SerializeHeader_def)
  have 12: "drop 12 ?b = put_u32 (h_generation h) @ put_u64 (h_pts_us h) @ rest"
    by (simp add: SerializeHeader_def)
  have 16: "drop 16 ?b = put_u64 (h_pts_us h) @ rest"
    by (simp add: SerializeHeader_def)
  have bytes: "?b ! 4 = h_version h" "?b ! 5 = h_type h" "?b ! 6 = h_stream h" "?b ! 7 = h_flags h"
    by (simp_all add: SerializeHeader_def nth_append)
  have 0: "get_u32 ?b = h_length h"
    by (simp add: SerializeHeader_def)
  show ?thesis
    unfolding ParseHeader_def Let_def 0 8 12 16 bytes
    by (auto simp: header_valid_def not_less)
qed

lemma ParseHeader_valid: "ParseHeader b = (ok, h) \<Longrightarrow> ok = header_valid h"
  unfolding ParseHeader_def header_valid_def Let_def
  by (cases "b ! 4 = kProtocolVersion") (auto simp: not_less split: if_splits)

lemma payload_size_valid:
  assumes "header_valid h"
  shows "unat (payload_size h) + 20 = unat (h_length h)"
    and "unat (payload_size h) \<le> 32 * 1024 * 1024 - 20"
proof -
  have le: "20 \<le> unat (h_length h)" "unat (h_length h) \<le> 33554432"
    using assms
    by (simp_all add: header_valid_def word_le_nat_alt kHeaderLengthBytes_def kMaxMessageLength_def)
  have "unat (payload_size h) = unat (h_length h) - 20"
    using assms
    by (simp add: payload_size_def header_valid_def unat_sub kHeaderLengthBytes_def)
  with le show "unat (payload_size h) + 20 = unat (h_length h)"
    and "unat (payload_size h) \<le> 32 * 1024 * 1024 - 20" by simp_all
qed

section \<open>TLV lists\<close>

text \<open>
  \<open>append_tlv(out, tag, value, len)\<close>: the pointer \<open>value\<close> is the list of bytes it points
  to, of which the first \<open>len\<close> are inserted.
\<close>

definition append_tlv :: "bytes \<Rightarrow> u8 \<Rightarrow> bytes \<Rightarrow> u16 \<Rightarrow> bytes" where
  "append_tlv out tag value len = out @ [tag] @ put_u16 len @ take (unat len) value"

definition append_tlv_u32 :: "bytes \<Rightarrow> u8 \<Rightarrow> u32 \<Rightarrow> bytes" where
  "append_tlv_u32 out tag value = append_tlv out tag (put_u32 value) 4"

definition append_tlv_u64 :: "bytes \<Rightarrow> u8 \<Rightarrow> u64 \<Rightarrow> bytes" where
  "append_tlv_u64 out tag value = append_tlv out tag (put_u64 value) 8"

definition clamp_u16 :: "nat \<Rightarrow> u16" where
  "clamp_u16 n = (if n > 0xffff then 0xffff else of_nat n)"

definition append_tlv_str :: "bytes \<Rightarrow> u8 \<Rightarrow> bytes \<Rightarrow> bytes" where
  "append_tlv_str out tag value = append_tlv out tag value (clamp_u16 (length value))"

lemma unat_clamp_u16 [simp]: "unat (clamp_u16 n) = min n 0xffff"
  by (simp add: clamp_u16_def min_def)

text \<open>
  One TLV as the two parsers read it: the prologue that \<open>ParseHello\<close> and \<open>ParseEvent\<close>
  share. \<open>None\<close> is their \<open>return false\<close> on a truncated TLV.
\<close>

definition tlv_next :: "bytes \<Rightarrow> (u8 \<times> bytes \<times> bytes) option" where
  "tlv_next rest =
     (if length rest < 3 then None
      else let tag = rest ! 0; value_len = unat (get_u16 (drop 1 rest)); rest' = drop 3 rest
      in if length rest' < value_len then None
         else Some (tag, take value_len rest', drop value_len rest'))"

lemma tlv_next_shorter: "tlv_next rest = Some (tag, value, rest') \<Longrightarrow> length rest' < length rest"
  by (auto simp: tlv_next_def Let_def split: if_splits)

text \<open>The specification side: a TLV and a TLV list on the wire.\<close>

definition tlv :: "u8 \<Rightarrow> bytes \<Rightarrow> bytes" where
  "tlv tag value = tag # put_u16 (of_nat (length value)) @ value"

definition tlvs :: "(u8 \<times> bytes) list \<Rightarrow> bytes" where
  "tlvs ts = concat (map (\<lambda>(t, v). tlv t v) ts)"

lemma tlvs_simps [simp]: "tlvs [] = []" "tlvs ((t, v) # ts) = tlv t v @ tlvs ts"
  by (simp_all add: tlvs_def)

lemma tlvs_append [simp]: "tlvs (ts @ us) = tlvs ts @ tlvs us"
  by (simp add: tlvs_def)

lemma tlv_not_nil [simp]: "tlv t v \<noteq> []"
  by (simp add: tlv_def)

lemma tlv_next_tlv [simp]:
  assumes "length v \<le> 0xffff"
  shows "tlv_next (tlv t v @ rest) = Some (t, v, rest)"
proof -
  have "unat (of_nat (length v) :: u16) = length v"
    using assms by simp
  then show ?thesis by (simp add: tlv_next_def tlv_def)
qed

lemma tlv_next_SomeD:
  assumes "tlv_next d = Some (t, v, rest)"
  shows "d = tlv t v @ rest \<and> length v \<le> 0xffff"
proof -
  let ?n = "unat (get_u16 (drop 1 d))"
  from assms have len: "3 \<le> length d" "?n \<le> length (drop 3 d)" and
    parts: "t = d ! 0" "v = take ?n (drop 3 d)" "rest = drop ?n (drop 3 d)"
    by (auto simp: tlv_next_def Let_def split: if_splits)
  have lv: "length v = ?n" using len parts by simp
  have lt: "?n < 2 ^ 16" using unsigned_less [of "get_u16 (drop 1 d)"] by simp
  obtain a b c ds where d: "d = a # b # c # ds"
    using len(1) by (metis Suc_le_length_iff numeral_3_eq_3)
  have "put_u16 (get_u16 [b, c]) = [b, c]" by (rule put_get_u16)
  moreover have "get_u16 (drop 1 d) = get_u16 [b, c]"
    using d by (simp add: get_u16_def)
  ultimately have "put_u16 (of_nat (length v)) = [b, c]"
    using lv by simp
  then have "tlv t v @ rest = a # b # c # (v @ rest)"
    using parts(1) d by (simp add: tlv_def)
  then show ?thesis using d parts lv lt by simp
qed

lemma append_tlv_tlv:
  assumes "unat len \<le> length value"
  shows "append_tlv out tag value len = out @ tlv tag (take (unat len) value)"
  using assms by (simp add: append_tlv_def tlv_def min_def)

lemma append_tlv_u32_tlv [wire_simps]: "append_tlv_u32 out tag v = out @ tlv tag (put_u32 v)"
  by (simp add: append_tlv_u32_def append_tlv_tlv)

lemma append_tlv_u64_tlv [wire_simps]: "append_tlv_u64 out tag v = out @ tlv tag (put_u64 v)"
  by (simp add: append_tlv_u64_def append_tlv_tlv)

lemma append_tlv_clamped [wire_simps]:
  "append_tlv out tag v (clamp_u16 (length v)) = out @ tlv tag (take 0xffff v)"
  by (simp add: append_tlv_tlv min_def)

lemma append_tlv_str_tlv [wire_simps]: "append_tlv_str out tag v = out @ tlv tag (take 0xffff v)"
  by (simp add: append_tlv_str_def append_tlv_clamped)

section \<open>HELLO\<close>

record HelloInfo =
  hi_codec_id :: u32
  hi_extradata :: bytes
  hi_width :: u32
  hi_height :: u32
  hi_fps_num :: u32
  hi_fps_den :: u32
  hi_sample_rate :: u32
  hi_channels :: u32
  hi_profile :: u32
  hi_level :: u32

definition HelloInfo_init :: HelloInfo where
  "HelloInfo_init = \<lparr>hi_codec_id = kCodecIdNone, hi_extradata = [], hi_width = 0, hi_height = 0,
     hi_fps_num = 0, hi_fps_den = 0, hi_sample_rate = 0, hi_channels = 0,
     hi_profile = 0, hi_level = 0\<rparr>"

text \<open>A null \<open>extradata\<close> pointer is \<open>None\<close>.\<close>

definition BuildHello ::
  "u32 \<Rightarrow> bytes option \<Rightarrow> u32 \<Rightarrow> u32 \<Rightarrow> u32 \<Rightarrow> u32 \<Rightarrow> u32 \<Rightarrow> u32 \<Rightarrow> bytes" where
  "BuildHello codec_id extradata width height fps_num fps_den sample_rate channels =
     (let out = append_tlv_u32 [] kTlvCodecId codec_id;
          out = (case extradata of
                   None \<Rightarrow> out
                 | Some ed \<Rightarrow> if length ed > 0
                     then append_tlv out kTlvExtradata ed (clamp_u16 (length ed)) else out);
          out = (if width > 0 then append_tlv_u32 out kTlvWidth width else out);
          out = (if height > 0 then append_tlv_u32 out kTlvHeight height else out);
          out = (if fps_num > 0 \<and> fps_den > 0
                 then append_tlv_u32 (append_tlv_u32 out kTlvFpsNum fps_num) kTlvFpsDen fps_den
                 else out);
          out = (if sample_rate > 0 then append_tlv_u32 out kTlvSampleRate sample_rate else out);
          out = (if channels > 0 then append_tlv_u32 out kTlvChannels channels else out)
      in out)"

definition hello_known_numeric :: "u8 \<Rightarrow> bool" where
  "hello_known_numeric tag \<longleftrightarrow> tag \<ge> kTlvCodecId \<and> tag \<le> kTlvLevel \<and> tag \<noteq> kTlvExtradata"

definition hello_field :: "u8 \<Rightarrow> bytes \<Rightarrow> HelloInfo \<Rightarrow> HelloInfo" where
  "hello_field tag value info =
     (if tag = kTlvCodecId then info\<lparr>hi_codec_id := get_u32 value\<rparr>
      else if tag = kTlvExtradata then info\<lparr>hi_extradata := value\<rparr>
      else if tag = kTlvWidth then info\<lparr>hi_width := get_u32 value\<rparr>
      else if tag = kTlvHeight then info\<lparr>hi_height := get_u32 value\<rparr>
      else if tag = kTlvFpsNum then info\<lparr>hi_fps_num := get_u32 value\<rparr>
      else if tag = kTlvFpsDen then info\<lparr>hi_fps_den := get_u32 value\<rparr>
      else if tag = kTlvSampleRate then info\<lparr>hi_sample_rate := get_u32 value\<rparr>
      else if tag = kTlvChannels then info\<lparr>hi_channels := get_u32 value\<rparr>
      else if tag = kTlvProfile then info\<lparr>hi_profile := get_u32 value\<rparr>
      else if tag = kTlvLevel then info\<lparr>hi_level := get_u32 value\<rparr>
      else info)"

text \<open>The while loop, over the bytes from \<open>data + pos\<close> to \<open>data + len\<close>.\<close>

function parse_hello_loop :: "bytes \<Rightarrow> HelloInfo \<Rightarrow> bool \<times> HelloInfo" where
  "parse_hello_loop rest info =
     (if rest = [] then (True, info)
      else case tlv_next rest of
             None \<Rightarrow> (False, info)
           | Some (tag, value, rest') \<Rightarrow>
               if hello_known_numeric tag \<and> length value \<noteq> 4 then (False, info)
               else parse_hello_loop rest' (hello_field tag value info))"
  by pat_completeness auto
termination
  by (relation "measure (\<lambda>(rest, _). length rest)") (auto dest: tlv_next_shorter)

declare parse_hello_loop.simps [simp del]

definition ParseHello :: "bytes \<Rightarrow> bool \<times> HelloInfo" where
  "ParseHello data =
     (case parse_hello_loop data HelloInfo_init of
        (False, info) \<Rightarrow> (False, info)
      | (True, info) \<Rightarrow> (hi_codec_id info \<noteq> kCodecIdNone, info))"

lemma parse_hello_loop_nil [simp]: "parse_hello_loop [] info = (True, info)"
  by (simp add: parse_hello_loop.simps)

lemma parse_hello_loop_tlv [simp]:
  "length v \<le> 0xffff \<Longrightarrow> parse_hello_loop (tlv t v @ rest) info =
     (if hello_known_numeric t \<and> length v \<noteq> 4 then (False, info)
      else parse_hello_loop rest (hello_field t v info))"
  by (subst parse_hello_loop.simps) simp

definition hello_tlv_ok :: "u8 \<times> bytes \<Rightarrow> bool" where
  "hello_tlv_ok tv \<longleftrightarrow> length (snd tv) \<le> 0xffff \<and>
     (hello_known_numeric (fst tv) \<longrightarrow> length (snd tv) = 4)"

lemma parse_hello_loop_tlvs:
  "list_all hello_tlv_ok ts \<Longrightarrow>
   parse_hello_loop (tlvs ts @ rest) info =
     parse_hello_loop rest (fold (\<lambda>(t, v). hello_field t v) ts info)"
  by (induction ts arbitrary: info) (auto simp: hello_tlv_ok_def)

text \<open>A successful parse has read a TLV list to its end.\<close>

lemma parse_hello_loop_TrueD:
  assumes "parse_hello_loop d info = (True, r)"
  shows "\<exists>ts. d = tlvs ts \<and> list_all hello_tlv_ok ts \<and> r = fold (\<lambda>(t, v). hello_field t v) ts info"
  using assms
proof (induction d info rule: parse_hello_loop.induct)
  case (1 d info)
  show ?case
  proof (cases "d = []")
    case True
    with "1.prems" show ?thesis by (intro exI [of _ "[]"]) simp
  next
    case False
    with "1.prems" obtain t v rest where n: "tlv_next d = Some (t, v, rest)"
      and ok: "hello_known_numeric t \<longrightarrow> length v = 4"
      and rec: "parse_hello_loop rest (hello_field t v info) = (True, r)"
      by (subst (asm) parse_hello_loop.simps) (auto split: option.splits if_splits)
    have "\<not> (hello_known_numeric t \<and> length v \<noteq> 4)" using ok by simp
    from "1.IH" [OF False n refl refl this rec] obtain ts where
      "rest = tlvs ts" "list_all hello_tlv_ok ts"
      "r = fold (\<lambda>(t, v). hello_field t v) ts (hello_field t v info)" by auto
    with tlv_next_SomeD [OF n] ok show ?thesis
      by (intro exI [of _ "(t, v) # ts"]) (auto simp: hello_tlv_ok_def list_all_iff)
  qed
qed

lemma hello_field_unknown:
  assumes "t = 0 \<or> t > kTlvLevel"
  shows "hello_field t v info = info" and "\<not> hello_known_numeric t"
proof -
  have ne: "t \<noteq> k" if "0 < k" and "k \<le> kTlvLevel" for k
    using assms that by (auto simp: not_less [symmetric])
  show "hello_field t v info = info"
    by (simp add: hello_field_def ne kTlvCodecId_def kTlvExtradata_def kTlvWidth_def
        kTlvHeight_def kTlvFpsNum_def kTlvFpsDen_def kTlvSampleRate_def kTlvChannels_def
        kTlvProfile_def kTlvLevel_def)
  show "\<not> hello_known_numeric t"
    using assms by (auto simp: hello_known_numeric_def kTlvCodecId_def not_less [symmetric])
qed

text \<open>\<open>BuildHello\<close> as a TLV list, and what its parse returns.\<close>

definition hello_tlv_list ::
  "u32 \<Rightarrow> bytes option \<Rightarrow> u32 \<Rightarrow> u32 \<Rightarrow> u32 \<Rightarrow> u32 \<Rightarrow> u32 \<Rightarrow> u32 \<Rightarrow> (u8 \<times> bytes) list" where
  "hello_tlv_list codec_id extradata width height fps_num fps_den sample_rate channels =
     [(kTlvCodecId, put_u32 codec_id)] @
     (case extradata of None \<Rightarrow> [] | Some ed \<Rightarrow>
        if ed = [] then [] else [(kTlvExtradata, take 0xffff ed)]) @
     (if width > 0 then [(kTlvWidth, put_u32 width)] else []) @
     (if height > 0 then [(kTlvHeight, put_u32 height)] else []) @
     (if fps_num > 0 \<and> fps_den > 0
      then [(kTlvFpsNum, put_u32 fps_num), (kTlvFpsDen, put_u32 fps_den)] else []) @
     (if sample_rate > 0 then [(kTlvSampleRate, put_u32 sample_rate)] else []) @
     (if channels > 0 then [(kTlvChannels, put_u32 channels)] else [])"

lemma BuildHello_tlvs:
  "BuildHello c e w h n d s ch = tlvs (hello_tlv_list c e w h n d s ch)"
proof -
  define o1 where "o1 = append_tlv_u32 [] kTlvCodecId c"
  define o2 where "o2 = (case e of None \<Rightarrow> o1 | Some ed \<Rightarrow>
    if length ed > 0 then append_tlv o1 kTlvExtradata ed (clamp_u16 (length ed)) else o1)"
  define o3 where "o3 = (if w > 0 then append_tlv_u32 o2 kTlvWidth w else o2)"
  define o4 where "o4 = (if h > 0 then append_tlv_u32 o3 kTlvHeight h else o3)"
  define o5 where "o5 = (if n > 0 \<and> d > 0
    then append_tlv_u32 (append_tlv_u32 o4 kTlvFpsNum n) kTlvFpsDen d else o4)"
  define o6 where "o6 = (if s > 0 then append_tlv_u32 o5 kTlvSampleRate s else o5)"
  define o7 where "o7 = (if ch > 0 then append_tlv_u32 o6 kTlvChannels ch else o6)"
  have o2: "o2 = tlvs ((kTlvCodecId, put_u32 c) # (case e of None \<Rightarrow> [] | Some ed \<Rightarrow>
        if ed = [] then [] else [(kTlvExtradata, take 0xffff ed)]))"
    by (simp add: o2_def o1_def append_tlv_u32_tlv append_tlv_clamped split: option.split)
  have "BuildHello c e w h n d s ch = o7"
    unfolding BuildHello_def Let_def o7_def o6_def o5_def o4_def o3_def o2_def o1_def
    by (rule refl)
  also have "\<dots> = tlvs (hello_tlv_list c e w h n d s ch)"
    by (simp add: o7_def o6_def o5_def o4_def o3_def o2 hello_tlv_list_def append_tlv_u32_tlv)
  finally show ?thesis .
qed

lemma hello_tlv_list_ok: "list_all hello_tlv_ok (hello_tlv_list c e w h n d s ch)"
  by (auto simp: hello_tlv_list_def hello_tlv_ok_def hello_known_numeric_def tlv_tag_defs
      split: option.split)

definition hello_expected ::
  "u32 \<Rightarrow> bytes option \<Rightarrow> u32 \<Rightarrow> u32 \<Rightarrow> u32 \<Rightarrow> u32 \<Rightarrow> u32 \<Rightarrow> u32 \<Rightarrow> HelloInfo" where
  "hello_expected codec_id extradata width height fps_num fps_den sample_rate channels =
     \<lparr>hi_codec_id = codec_id,
      hi_extradata = (case extradata of None \<Rightarrow> [] | Some ed \<Rightarrow> take 0xffff ed),
      hi_width = width, hi_height = height,
      hi_fps_num = (if fps_den = 0 then 0 else fps_num),
      hi_fps_den = (if fps_num = 0 then 0 else fps_den),
      hi_sample_rate = sample_rate, hi_channels = channels, hi_profile = 0, hi_level = 0\<rparr>"

lemma hello_fold_expected:
  "fold (\<lambda>(t, v). hello_field t v) (hello_tlv_list c e w h n d s ch) HelloInfo_init =
     hello_expected c e w h n d s ch"
  by (auto simp: hello_tlv_list_def hello_expected_def HelloInfo_init_def hello_field_def
      tlv_tag_defs word_gt_0 split: option.split)

section \<open>STATS\<close>

definition BuildStats :: "u64 \<Rightarrow> u64 \<Rightarrow> bytes" where
  "BuildStats sent dropped = put_u64 sent @ put_u64 dropped"

text \<open>On a short payload the out-parameters are left alone.\<close>

definition ParseStats :: "bytes \<Rightarrow> u64 \<Rightarrow> u64 \<Rightarrow> bool \<times> u64 \<times> u64" where
  "ParseStats data sent dropped =
     (if length data < 16 then (False, sent, dropped)
      else (True, get_u64 data, get_u64 (drop 8 data)))"

section \<open>EVENT\<close>

record MonitorEvent =
  ev_code :: u16
  ev_wall_clock_us :: u64
  ev_has_wall_clock :: bool
  ev_message :: bytes
  ev_state_id :: u32
  ev_has_state_id :: bool
  ev_prev_state_id :: u32
  ev_has_prev_state_id :: bool
  ev_detail :: u32
  ev_has_detail :: bool
  ev_state_name :: bytes
  ev_health_code :: u16
  ev_has_health_code :: bool
  ev_json_detail :: bytes

definition MonitorEvent_init :: MonitorEvent where
  "MonitorEvent_init = \<lparr>ev_code = 0, ev_wall_clock_us = 0, ev_has_wall_clock = False,
     ev_message = [], ev_state_id = 0, ev_has_state_id = False,
     ev_prev_state_id = 0, ev_has_prev_state_id = False, ev_detail = 0, ev_has_detail = False,
     ev_state_name = [], ev_health_code = 0, ev_has_health_code = False, ev_json_detail = []\<rparr>"

definition BuildEvent :: "MonitorEvent \<Rightarrow> bytes" where
  "BuildEvent ev =
     (let out = put_u16 (ev_code ev);
          out = (if ev_has_wall_clock ev
                 then append_tlv_u64 out kTlvWallClockUs (ev_wall_clock_us ev) else out);
          out = (if ev_message ev \<noteq> [] then append_tlv_str out kTlvMessage (ev_message ev) else out);
          out = (if ev_has_state_id ev then append_tlv_u32 out kTlvStateId (ev_state_id ev) else out);
          out = (if ev_has_prev_state_id ev
                 then append_tlv_u32 out kTlvPrevStateId (ev_prev_state_id ev) else out);
          out = (if ev_has_detail ev then append_tlv_u32 out kTlvDetail (ev_detail ev) else out);
          out = (if ev_state_name ev \<noteq> []
                 then append_tlv_str out kTlvStateName (ev_state_name ev) else out);
          out = (if ev_has_health_code ev
                 then append_tlv out kTlvHealthCode (put_u16 (ev_health_code ev)) 2 else out);
          out = (if ev_json_detail ev \<noteq> []
                 then append_tlv_str out kTlvJsonDetail (ev_json_detail ev) else out)
      in out)"

text \<open>One case of the switch; \<open>None\<close> is its \<open>return false\<close>.\<close>

definition event_field :: "u8 \<Rightarrow> bytes \<Rightarrow> MonitorEvent \<Rightarrow> MonitorEvent option" where
  "event_field tag value ev =
     (if tag = kTlvWallClockUs then
        if length value \<noteq> 8 then None
        else Some (ev\<lparr>ev_wall_clock_us := get_u64 value, ev_has_wall_clock := True\<rparr>)
      else if tag = kTlvMessage then Some (ev\<lparr>ev_message := value\<rparr>)
      else if tag = kTlvStateId then
        if length value \<noteq> 4 then None
        else Some (ev\<lparr>ev_state_id := get_u32 value, ev_has_state_id := True\<rparr>)
      else if tag = kTlvPrevStateId then
        if length value \<noteq> 4 then None
        else Some (ev\<lparr>ev_prev_state_id := get_u32 value, ev_has_prev_state_id := True\<rparr>)
      else if tag = kTlvDetail then
        if length value \<noteq> 4 then None
        else Some (ev\<lparr>ev_detail := get_u32 value, ev_has_detail := True\<rparr>)
      else if tag = kTlvStateName then Some (ev\<lparr>ev_state_name := value\<rparr>)
      else if tag = kTlvHealthCode then
        if length value \<noteq> 2 then None
        else Some (ev\<lparr>ev_health_code := get_u16 value, ev_has_health_code := True\<rparr>)
      else if tag = kTlvJsonDetail then Some (ev\<lparr>ev_json_detail := value\<rparr>)
      else Some ev)"

function parse_event_loop :: "bytes \<Rightarrow> MonitorEvent \<Rightarrow> bool \<times> MonitorEvent" where
  "parse_event_loop rest ev =
     (if rest = [] then (True, ev)
      else case tlv_next rest of
             None \<Rightarrow> (False, ev)
           | Some (tag, value, rest') \<Rightarrow>
               (case event_field tag value ev of
                  None \<Rightarrow> (False, ev)
                | Some ev' \<Rightarrow> parse_event_loop rest' ev'))"
  by pat_completeness auto
termination
  by (relation "measure (\<lambda>(rest, _). length rest)") (auto dest: tlv_next_shorter)

declare parse_event_loop.simps [simp del]

definition ParseEvent :: "bytes \<Rightarrow> bool \<times> MonitorEvent" where
  "ParseEvent data =
     (if length data < 2 then (False, MonitorEvent_init)
      else parse_event_loop (drop 2 data) (MonitorEvent_init\<lparr>ev_code := get_u16 data\<rparr>))"

lemma parse_event_loop_nil [simp]: "parse_event_loop [] ev = (True, ev)"
  by (simp add: parse_event_loop.simps)

lemma parse_event_loop_tlv [simp]:
  "length v \<le> 0xffff \<Longrightarrow> parse_event_loop (tlv t v @ rest) ev =
     (case event_field t v ev of None \<Rightarrow> (False, ev) | Some ev' \<Rightarrow> parse_event_loop rest ev')"
  by (subst parse_event_loop.simps) simp

fun event_fields :: "(u8 \<times> bytes) list \<Rightarrow> MonitorEvent \<Rightarrow> MonitorEvent option" where
  "event_fields [] ev = Some ev"
| "event_fields ((t, v) # ts) ev =
     (case event_field t v ev of None \<Rightarrow> None | Some ev' \<Rightarrow> event_fields ts ev')"

lemma event_fields_append:
  "event_fields (ts @ us) ev =
     (case event_fields ts ev of None \<Rightarrow> None | Some ev' \<Rightarrow> event_fields us ev')"
  by (induction ts ev rule: event_fields.induct) (auto split: option.split)

lemma parse_event_loop_tlvs:
  assumes "list_all (\<lambda>tv. length (snd tv) \<le> 0xffff) ts" and "event_fields ts ev = Some ev'"
  shows "parse_event_loop (tlvs ts @ rest) ev = parse_event_loop rest ev'"
  using assms by (induction ts ev rule: event_fields.induct) (auto split: option.splits)

lemma parse_event_loop_TrueD:
  assumes "parse_event_loop d ev = (True, r)"
  shows "\<exists>ts. d = tlvs ts \<and> list_all (\<lambda>tv. length (snd tv) \<le> 0xffff) ts \<and>
           event_fields ts ev = Some r"
  using assms
proof (induction d ev rule: parse_event_loop.induct)
  case (1 d ev)
  show ?case
  proof (cases "d = []")
    case True
    with "1.prems" show ?thesis by (intro exI [of _ "[]"]) simp
  next
    case False
    with "1.prems" obtain t v rest ev' where n: "tlv_next d = Some (t, v, rest)"
      and f: "event_field t v ev = Some ev'" and rec: "parse_event_loop rest ev' = (True, r)"
      by (subst (asm) parse_event_loop.simps) (auto split: option.splits if_splits)
    from "1.IH" [OF False n refl refl f rec] obtain ts where
      "rest = tlvs ts" "list_all (\<lambda>tv. length (snd tv) \<le> 0xffff) ts" "event_fields ts ev' = Some r"
      by auto
    with tlv_next_SomeD [OF n] f show ?thesis
      by (intro exI [of _ "(t, v) # ts"]) (auto simp: list_all_iff)
  qed
qed

definition event_tag_known :: "u8 \<Rightarrow> bool" where
  "event_tag_known t \<longleftrightarrow> t \<in> {kTlvWallClockUs, kTlvMessage, kTlvStateId, kTlvPrevStateId,
     kTlvDetail, kTlvStateName, kTlvHealthCode, kTlvJsonDetail}"

lemma event_field_unknown: "\<not> event_tag_known t \<Longrightarrow> event_field t v ev = Some ev"
  by (simp add: event_tag_known_def event_field_def)

text \<open>\<open>BuildEvent\<close> as a TLV list after the code, and what its parse returns.\<close>

definition event_tlv_list :: "MonitorEvent \<Rightarrow> (u8 \<times> bytes) list" where
  "event_tlv_list ev =
     (if ev_has_wall_clock ev then [(kTlvWallClockUs, put_u64 (ev_wall_clock_us ev))] else []) @
     (if ev_message ev \<noteq> [] then [(kTlvMessage, take 0xffff (ev_message ev))] else []) @
     (if ev_has_state_id ev then [(kTlvStateId, put_u32 (ev_state_id ev))] else []) @
     (if ev_has_prev_state_id ev then [(kTlvPrevStateId, put_u32 (ev_prev_state_id ev))] else []) @
     (if ev_has_detail ev then [(kTlvDetail, put_u32 (ev_detail ev))] else []) @
     (if ev_state_name ev \<noteq> [] then [(kTlvStateName, take 0xffff (ev_state_name ev))] else []) @
     (if ev_has_health_code ev then [(kTlvHealthCode, put_u16 (ev_health_code ev))] else []) @
     (if ev_json_detail ev \<noteq> [] then [(kTlvJsonDetail, take 0xffff (ev_json_detail ev))] else [])"

lemma append_tlv_health [wire_simps]: "append_tlv out t (put_u16 v) 2 = out @ tlv t (put_u16 v)"
  by (simp add: append_tlv_tlv)

lemma BuildEvent_tlvs: "BuildEvent ev = put_u16 (ev_code ev) @ tlvs (event_tlv_list ev)"
proof -
  define o0 where "o0 = put_u16 (ev_code ev)"
  define o1 where "o1 = (if ev_has_wall_clock ev
    then append_tlv_u64 o0 kTlvWallClockUs (ev_wall_clock_us ev) else o0)"
  define o2 where "o2 = (if ev_message ev \<noteq> []
    then append_tlv_str o1 kTlvMessage (ev_message ev) else o1)"
  define o3 where "o3 = (if ev_has_state_id ev
    then append_tlv_u32 o2 kTlvStateId (ev_state_id ev) else o2)"
  define o4 where "o4 = (if ev_has_prev_state_id ev
    then append_tlv_u32 o3 kTlvPrevStateId (ev_prev_state_id ev) else o3)"
  define o5 where "o5 = (if ev_has_detail ev
    then append_tlv_u32 o4 kTlvDetail (ev_detail ev) else o4)"
  define o6 where "o6 = (if ev_state_name ev \<noteq> []
    then append_tlv_str o5 kTlvStateName (ev_state_name ev) else o5)"
  define o7 where "o7 = (if ev_has_health_code ev
    then append_tlv o6 kTlvHealthCode (put_u16 (ev_health_code ev)) 2 else o6)"
  define o8 where "o8 = (if ev_json_detail ev \<noteq> []
    then append_tlv_str o7 kTlvJsonDetail (ev_json_detail ev) else o7)"
  have "BuildEvent ev = o8"
    unfolding BuildEvent_def Let_def o8_def o7_def o6_def o5_def o4_def o3_def o2_def o1_def o0_def
    by (rule refl)
  also have "\<dots> = put_u16 (ev_code ev) @ tlvs (event_tlv_list ev)"
    by (simp add: o8_def o7_def o6_def o5_def o4_def o3_def o2_def o1_def o0_def event_tlv_list_def
        append_tlv_u32_tlv append_tlv_u64_tlv append_tlv_str_tlv append_tlv_health)
  finally show ?thesis .
qed

lemma event_tlv_list_short: "list_all (\<lambda>tv. length (snd tv) \<le> 0xffff) (event_tlv_list ev)"
  by (auto simp: event_tlv_list_def)

definition event_expected :: "MonitorEvent \<Rightarrow> MonitorEvent" where
  "event_expected ev =
     ev\<lparr>ev_wall_clock_us := (if ev_has_wall_clock ev then ev_wall_clock_us ev else 0),
        ev_message := take 0xffff (ev_message ev),
        ev_state_id := (if ev_has_state_id ev then ev_state_id ev else 0),
        ev_prev_state_id := (if ev_has_prev_state_id ev then ev_prev_state_id ev else 0),
        ev_detail := (if ev_has_detail ev then ev_detail ev else 0),
        ev_state_name := take 0xffff (ev_state_name ev),
        ev_health_code := (if ev_has_health_code ev then ev_health_code ev else 0),
        ev_json_detail := take 0xffff (ev_json_detail ev)\<rparr>"

lemma event_fields_single: "event_fields [(t, v)] ev = event_field t v ev"
  by (simp split: option.split)

lemma event_fields_expected:
  "event_fields (event_tlv_list ev) (MonitorEvent_init\<lparr>ev_code := ev_code ev\<rparr>) =
     Some (event_expected ev)"
  by (cases ev)
    (auto simp: event_tlv_list_def event_expected_def MonitorEvent_init_def event_fields_append
      event_field_def tlv_tag_defs)

lemma ParseEvent_BuildEvent: "ParseEvent (BuildEvent ev) = (True, event_expected ev)"
proof -
  have "parse_event_loop (tlvs (event_tlv_list ev) @ [])
      (MonitorEvent_init\<lparr>ev_code := ev_code ev\<rparr>) = (True, event_expected ev)"
    by (subst parse_event_loop_tlvs [OF event_tlv_list_short event_fields_expected]) simp
  then show ?thesis by (simp add: ParseEvent_def BuildEvent_tlvs)
qed

section \<open>Properties\<close>

lemma put_get_u32: "length b = 4 \<Longrightarrow> put_u32 (get_u32 b) = b"
proof -
  assume "length b = 4"
  then have b: "b = [b ! 0, b ! 1, b ! 2, b ! 3]" by (rule list_eq_by_four)
  have "put_u32 (get_u32 [w, x, y, z]) = [w, x, y, z]" for w x y z :: u8
    unfolding put_u32_def get_u32_def
    by (auto intro!: bit_word_eqI simp: bit_simps)
  then show ?thesis by (subst (1 2) b)
qed

lemma put_get_u64: "length b = 8 \<Longrightarrow> put_u64 (get_u64 b) = b"
proof -
  assume len: "length b = 8"
  let ?lo = "get_u32 b" and ?hi = "get_u32 (drop 4 b)"
  have lo: "(ucast (get_u64 b AND 0xffffffff) :: u32) = ?lo"
    by (rule bit_word_eqI) (auto simp: get_u64_def bit_simps)
  have hi: "(ucast (drop_bit 32 (get_u64 b)) :: u32) = ?hi"
    by (rule bit_word_eqI) (auto simp: get_u64_def bit_simps dest: bit_imp_le_length)
  have "?lo = get_u32 (take 4 b)"
    using get_u32_append [of "take 4 b" "drop 4 b"] len by simp
  moreover have "put_u32 (get_u32 (take 4 b)) = take 4 b" "put_u32 ?hi = drop 4 b"
    using len by (simp_all add: put_get_u32)
  ultimately show ?thesis by (simp add: put_u64_def lo hi)
qed

lemma get_u32_take: "4 \<le> length b \<Longrightarrow> get_u32 (take 4 b) = get_u32 b"
  by (simp add: get_u32_def)

lemma get_u64_take: "8 \<le> length b \<Longrightarrow> get_u64 (take 8 b) = get_u64 b"
  by (simp add: get_u64_def get_u32_def)

lemma put_get_u32_at: "4 \<le> length b \<Longrightarrow> put_u32 (get_u32 b) = take 4 b"
  using put_get_u32 [of "take 4 b"] get_u32_take [of b] by simp

lemma put_get_u64_at: "8 \<le> length b \<Longrightarrow> put_u64 (get_u64 b) = take 8 b"
  using put_get_u64 [of "take 8 b"] get_u64_take [of b] by simp

lemma SerializeHeader_ParseHeader:
  assumes "length b = kHeaderSize"
  shows "SerializeHeader (snd (ParseHeader b)) = b"
proof -
  have len: "length b = 24" using assms by (simp add: kHeaderSize_def)
  have f: "[b ! 4, b ! 5, b ! 6, b ! 7] = take 4 (drop 4 b)"
    using len by (intro nth_equalityI) (auto simp: less_Suc_eq numeral_eq_Suc)
  have "SerializeHeader (snd (ParseHeader b)) =
      take 4 b @ take 4 (drop 4 b) @ take 4 (drop 8 b) @ take 4 (drop 12 b) @ take 8 (drop 16 b)"
    using len f by (simp add: SerializeHeader_def ParseHeader_def Let_def put_get_u32_at put_get_u64_at)
  also have "\<dots> = b"
    using len by (intro nth_equalityI) (auto simp: nth_append min_def)
  finally show ?thesis .
qed

text \<open>
  Header wire format: the 24 bytes of \<open>SerializeHeader\<close> parse back to the header they
  were written from, and parsing accepts it exactly when version and length are legal; in
  the other direction every 24-byte header is the serialisation of what the parser stored,
  so no bit of the wire header is ignored or invented.
\<close>
theorem header_codec:
  assumes "length b = kHeaderSize"
  shows "ParseHeader (SerializeHeader h @ rest) = (header_valid h, h) \<and>
    SerializeHeader (snd (ParseHeader b)) = b \<and>
    fst (ParseHeader b) = header_valid (snd (ParseHeader b))"
  using SerializeHeader_ParseHeader [OF assms] ParseHeader_valid [of b]
  by (cases "ParseHeader b") auto

theorem header_codec_witness:
  "SerializeHeader (snd (ParseHeader (replicate 24 7))) = replicate 24 7"
  by (rule header_codec [THEN conjunct2, THEN conjunct1]) (simp add: kHeaderSize_def)

text \<open>
  Frame bounds: whenever \<open>ParseHeader\<close> accepts, the unsigned subtraction in
  \<open>payload_size\<close> does not wrap and the payload that a receiver allocates is at most
  32 MiB minus the 20 header bytes that the length counts.
\<close>
theorem payload_size_bounds:
  assumes "ParseHeader b = (True, h)"
  shows "unat (payload_size h) + 20 = unat (h_length h) \<and>
    unat (payload_size h) \<le> 32 * 1024 * 1024 - 20"
  using payload_size_valid [of h] ParseHeader_valid [OF assms] by simp

theorem payload_size_bounds_witness:
  "\<exists>h. ParseHeader (put_u32 24 @ [1, 2, 0, 1] @ replicate 20 0) = (True, h) \<and>
     unat (payload_size h) = 4"
proof -
  let ?b = "put_u32 24 @ [1, 2, 0, 1] @ replicate 20 0"
  obtain ok h where p: "ParseHeader ?b = (ok, h)" by (cases "ParseHeader ?b")
  then have h: "h_length h = 24" "h_version h = 1"
    by (auto simp: ParseHeader_def Let_def nth_append)
  then have "ok" using ParseHeader_valid [OF p]
    by (simp add: header_valid_def kProtocolVersion_def kHeaderLengthBytes_def kMaxMessageLength_def)
  then have "ParseHeader ?b = (True, h)" using p by simp
  with payload_size_bounds [OF this] h show ?thesis by (intro exI [of _ h]) simp
qed

text \<open>
  HELLO round trip: a receiver that parses what \<open>BuildHello\<close> wrote gets the codec id
  and every optional field, the extradata cut at 65535 bytes, the frame rate only when both
  of its parts are there; the parse succeeds exactly when a codec is named.
\<close>
theorem hello_roundtrip:
  "ParseHello (BuildHello c e w h n d s ch) =
     (c \<noteq> kCodecIdNone, hello_expected c e w h n d s ch)"
proof -
  have "parse_hello_loop (tlvs (hello_tlv_list c e w h n d s ch) @ []) HelloInfo_init =
      (True, hello_expected c e w h n d s ch)"
    by (subst parse_hello_loop_tlvs [OF hello_tlv_list_ok]) (simp add: hello_fold_expected)
  then show ?thesis by (simp add: ParseHello_def BuildHello_tlvs hello_expected_def)
qed

text \<open>
  C34. EVENT round trip: \<open>ParseEvent\<close> accepts every payload that \<open>BuildEvent\<close> writes and
  returns the same event, optional numbers only where their flag is set and the strings cut
  at the 65535 bytes that a TLV holds.
\<close>
theorem event_roundtrip: "ParseEvent (BuildEvent ev) = (True, event_expected ev)"
  by (rule ParseEvent_BuildEvent)

text \<open>
  \<open>ParseEvent\<close> accepts exactly the two-byte code followed by whole TLVs whose known
  numeric tags have their width, and its result folds the TLVs in order: a truncated or
  malformed payload is never accepted, and nothing after the last TLV is ignored.
\<close>
theorem event_parse_complete:
  "ParseEvent d = (True, ev) \<longleftrightarrow>
     (\<exists>c ts. d = put_u16 c @ tlvs ts \<and> list_all (\<lambda>tv. length (snd tv) \<le> 0xffff) ts \<and>
        event_fields ts (MonitorEvent_init\<lparr>ev_code := c\<rparr>) = Some ev)"
proof
  assume ok: "ParseEvent d = (True, ev)"
  then have len: "2 \<le> length d" by (auto simp: ParseEvent_def split: if_splits)
  then obtain a b r where d: "d = a # b # r"
    by (metis Suc_le_length_iff numeral_2_eq_2)
  have c: "put_u16 (get_u16 d) = [a, b]"
    using put_get_u16 [of a b] get_u16_append [of "[a, b]" r] d by simp
  from ok d have "parse_event_loop r (MonitorEvent_init\<lparr>ev_code := get_u16 d\<rparr>) = (True, ev)"
    by (simp add: ParseEvent_def)
  from parse_event_loop_TrueD [OF this] c d
  show "\<exists>c ts. d = put_u16 c @ tlvs ts \<and> list_all (\<lambda>tv. length (snd tv) \<le> 0xffff) ts \<and>
      event_fields ts (MonitorEvent_init\<lparr>ev_code := c\<rparr>) = Some ev"
    by (intro exI [of _ "get_u16 d"]) auto
next
  assume "\<exists>c ts. d = put_u16 c @ tlvs ts \<and> list_all (\<lambda>tv. length (snd tv) \<le> 0xffff) ts \<and>
      event_fields ts (MonitorEvent_init\<lparr>ev_code := c\<rparr>) = Some ev"
  then obtain c ts where d: "d = put_u16 c @ tlvs ts"
    and ts: "list_all (\<lambda>tv. length (snd tv) \<le> 0xffff) ts"
    and f: "event_fields ts (MonitorEvent_init\<lparr>ev_code := c\<rparr>) = Some ev" by blast
  from parse_event_loop_tlvs [OF ts f, of "[]"] d show "ParseEvent d = (True, ev)"
    by (simp add: ParseEvent_def)
qed

text \<open>
  Forward compatibility: a TLV with a tag that the receiver does not know changes
  neither the verdict nor the result of \<open>ParseHello\<close>, wherever it stands among the others.
\<close>
theorem hello_unknown_skipped:
  assumes "list_all hello_tlv_ok ts" and "list_all hello_tlv_ok us"
    and "t = 0 \<or> t > kTlvLevel" and "length v \<le> 0xffff"
  shows "ParseHello (tlvs ts @ tlv t v @ tlvs us) = ParseHello (tlvs ts @ tlvs us)"
  using assms(1, 4) hello_field_unknown [OF assms(3)]
  by (simp add: ParseHello_def parse_hello_loop_tlvs)

theorem hello_unknown_skipped_witness:
  "ParseHello (tlvs [(1, put_u32 27)] @ tlv 0x7f [9, 9] @ tlvs []) =
     ParseHello (tlvs [(1, put_u32 27)] @ tlvs [])"
  by (rule hello_unknown_skipped) (simp_all add: hello_tlv_ok_def kTlvLevel_def)

end
