(* ===== verification/Link_Message.thy ===== *)
theory Link_Message
  imports Stream_Protocol
begin

text \<open>
  The messages of the worker link: \<open>Message\<close> of core/include/zm/WorkerLink.hpp, \<open>makeControl\<close>
  and \<open>makeMedia\<close> of core/src/WorkerLink.cpp, and what a consumer that splits the byte stream
  by the canonical header gets back. \<open>int64_t pts_us\<close> is stored as \<open>uint64_t\<close>; both are \<open>u64\<close>.
\<close>

section \<open>Messages\<close>

record Message =
  msg_prefix :: bytes
  msg_payload :: "bytes option"
  msg_control :: bool

definition payload_bytes :: "Message \<Rightarrow> bytes" where
  "payload_bytes m = (case msg_payload m of None \<Rightarrow> [] | Some p \<Rightarrow> p)"

definition wire_size :: "Message \<Rightarrow> nat" where
  "wire_size m = length (msg_prefix m) +
     (case msg_payload m of None \<Rightarrow> 0 | Some p \<Rightarrow> length p)"

text \<open>The bytes of a message in the order the two iovecs name them.\<close>

definition msg_wire :: "Message \<Rightarrow> bytes" where
  "msg_wire m = msg_prefix m @ payload_bytes m"

lemma length_msg_wire [simp]: "length (msg_wire m) = wire_size m"
  by (simp add: msg_wire_def wire_size_def payload_bytes_def split: option.split)

definition makeControl ::
  "u32 \<Rightarrow> u8 \<Rightarrow> u8 \<Rightarrow> u8 \<Rightarrow> u32 \<Rightarrow> u64 \<Rightarrow> bytes \<Rightarrow> bool \<Rightarrow> Message" where
  "makeControl generation typ stream flags sequence pts_us body control =
     (let h = \<lparr>h_length = kHeaderLengthBytes + of_nat (length body), h_version = kProtocolVersion,
               h_type = typ, h_stream = stream, h_flags = flags, h_sequence = sequence,
               h_generation = generation, h_pts_us = pts_us\<rparr>;
          buf = memcpy_at 0 (SerializeHeader h) (replicate (kHeaderSize + length body) 0);
          buf = (if body \<noteq> [] then memcpy_at kHeaderSize body buf else buf)
      in \<lparr>msg_prefix = buf, msg_payload = None, msg_control = control\<rparr>)"

definition makeMedia ::
  "u32 \<Rightarrow> u8 \<Rightarrow> u8 \<Rightarrow> u8 \<Rightarrow> u32 \<Rightarrow> u64 \<Rightarrow> bytes option \<Rightarrow> Message" where
  "makeMedia generation typ stream flags sequence pts_us payload =
     (let payload_len = (case payload of None \<Rightarrow> 0 | Some p \<Rightarrow> of_nat (length p));
          h = \<lparr>h_length = kHeaderLengthBytes + payload_len, h_version = kProtocolVersion,
               h_type = typ, h_stream = stream, h_flags = flags, h_sequence = sequence,
               h_generation = generation, h_pts_us = pts_us\<rparr>
      in \<lparr>msg_prefix = SerializeHeader h, msg_payload = payload, msg_control = False\<rparr>)"

section \<open>The shape of a frame\<close>

text \<open>A frame as a pair of the header and the body that follows it on the wire.\<close>

definition frame_header :: "Message \<Rightarrow> Header" where
  "frame_header m = snd (ParseHeader (msg_prefix m))"

definition frame_body :: "Message \<Rightarrow> bytes" where
  "frame_body m = drop kHeaderSize (msg_wire m)"

definition link_header :: "u32 \<Rightarrow> u8 \<Rightarrow> u8 \<Rightarrow> u8 \<Rightarrow> u32 \<Rightarrow> u64 \<Rightarrow> nat \<Rightarrow> Header" where
  "link_header generation typ stream flags sequence pts_us n =
     \<lparr>h_length = kHeaderLengthBytes + of_nat n, h_version = kProtocolVersion, h_type = typ,
      h_stream = stream, h_flags = flags, h_sequence = sequence, h_generation = generation,
      h_pts_us = pts_us\<rparr>"

lemma makeControl_eq:
  "makeControl g t s f q p body control =
     \<lparr>msg_prefix = SerializeHeader (link_header g t s f q p (length body)) @ body,
      msg_payload = None, msg_control = control\<rparr>"
proof -
  have l: "length (SerializeHeader h) = 24" for h by (simp add: kHeaderSize_def)
  show ?thesis
    by (simp add: makeControl_def Let_def link_header_def memcpy_at_def kHeaderSize_def l)
qed

lemma makeMedia_eq:
  "makeMedia g t s f q p (Some body) =
     \<lparr>msg_prefix = SerializeHeader (link_header g t s f q p (length body)),
      msg_payload = Some body, msg_control = False\<rparr>"
  by (simp add: makeMedia_def Let_def link_header_def)

lemma makeControl_control [simp]: "msg_control (makeControl g t s f q p b c) = c"
  by (simp add: makeControl_eq)

lemma makeMedia_control [simp]: "msg_control (makeMedia g t s f q p b) = False"
  by (simp add: makeMedia_def Let_def)

lemma msg_wire_makeControl:
  "msg_wire (makeControl g t s f q p body c) =
     SerializeHeader (link_header g t s f q p (length body)) @ body"
  by (simp add: makeControl_eq msg_wire_def payload_bytes_def)

lemma msg_wire_makeMedia:
  "msg_wire (makeMedia g t s f q p (Some body)) =
     SerializeHeader (link_header g t s f q p (length body)) @ body"
  by (simp add: makeMedia_eq msg_wire_def payload_bytes_def)

text \<open>
  A whole frame: 24 header bytes, and as many more as its length field says. The header is
  legal when the body stays below the protocol's cap.
\<close>

definition frame_ok :: "Message \<Rightarrow> bool" where
  "frame_ok m \<longleftrightarrow>
     (\<exists>h body. msg_wire m = SerializeHeader h @ body \<and> header_valid h \<and>
        unat (payload_size h) = length body)"

lemma payload_size_link_header:
  "n < 2 ^ 32 \<Longrightarrow> unat (payload_size (link_header g t s f q p n)) = n"
  by (simp add: payload_size_def link_header_def)

lemma header_valid_link_header:
  assumes "n \<le> 32 * 1024 * 1024 - 20"
  shows "header_valid (link_header g t s f q p n)"
proof -
  have "unat (20 + of_nat n :: u32) = 20 + n"
    using assms by (subst unat_plus_simple [THEN iffD1]) (simp_all add: word_le_nat_alt unat_word_ariths)
  then show ?thesis
    using assms
    by (simp add: header_valid_def link_header_def kHeaderLengthBytes_def kMaxMessageLength_def
        word_le_nat_alt)
qed

lemma frame_ok_makeControl:
  "length body \<le> 32 * 1024 * 1024 - 20 \<Longrightarrow> frame_ok (makeControl g t s f q p body c)"
  unfolding frame_ok_def msg_wire_makeControl
  by (intro exI [of _ "link_header g t s f q p (length body)"] exI [of _ body])
    (simp add: header_valid_link_header payload_size_link_header)

lemma frame_ok_makeMedia:
  "length body \<le> 32 * 1024 * 1024 - 20 \<Longrightarrow> frame_ok (makeMedia g t s f q p (Some body))"
  unfolding frame_ok_def msg_wire_makeMedia
  by (intro exI [of _ "link_header g t s f q p (length body)"] exI [of _ body])
    (simp add: header_valid_link_header payload_size_link_header)

lemma kHeaderSize_le_wire [simp]:
  "kHeaderSize \<le> wire_size (makeControl g t s f q p body c)"
  "kHeaderSize \<le> wire_size (makeMedia g t s f q p b)"
  by (simp_all add: wire_size_def makeControl_eq makeMedia_def Let_def)

lemma frame_header_makeControl [simp]:
  "frame_header (makeControl g t s f q p body c) = link_header g t s f q p (length body)"
  by (simp add: frame_header_def makeControl_eq)

lemma frame_header_makeMedia [simp]:
  "frame_header (makeMedia g t s f q p (Some body)) = link_header g t s f q p (length body)"
  using ParseHeader_SerializeHeader [where rest = "[]"] by (simp add: frame_header_def makeMedia_eq)

lemma frame_body_makeControl [simp]: "frame_body (makeControl g t s f q p body c) = body"
  by (simp add: frame_body_def msg_wire_makeControl)

lemma frame_body_makeMedia [simp]: "frame_body (makeMedia g t s f q p (Some body)) = body"
  by (simp add: frame_body_def msg_wire_makeMedia)

section \<open>A consumer's view of the byte stream\<close>

text \<open>
  Splitting by the header, as the consumers do and as the server does with its clients'
  frames: \<open>Inr\<close> the frames and the incomplete rest, \<open>Inl\<close> a corrupt header.
\<close>

function split_frames :: "bytes \<Rightarrow> (Header \<times> bytes) list \<times> bytes option" where
  "split_frames b =
     (if length b < kHeaderSize then ([], Some b)
      else case ParseHeader b of
        (False, _) \<Rightarrow> ([], None)
      | (True, h) \<Rightarrow>
          let need = kHeaderSize + unat (payload_size h)
          in if length b < need then ([], Some b)
             else (case split_frames (drop need b) of
                     (fs, r) \<Rightarrow> ((h, take (unat (payload_size h)) (drop kHeaderSize b)) # fs, r)))"
  by pat_completeness auto
termination
  by (relation "measure length") (auto simp: kHeaderSize_def)

declare split_frames.simps [simp del]

definition frame_of :: "Message \<Rightarrow> Header \<times> bytes" where
  "frame_of m = (snd (ParseHeader (msg_wire m)), frame_body m)"

lemma frame_ok_cases:
  assumes "frame_ok m"
  obtains h body where "msg_wire m = SerializeHeader h @ body" "header_valid h"
    "unat (payload_size h) = length body" "frame_of m = (h, body)"
proof -
  from assms obtain h body where w: "msg_wire m = SerializeHeader h @ body" and h: "header_valid h"
    and p: "unat (payload_size h) = length body"
    unfolding frame_ok_def by blast
  moreover have "frame_of m = (h, body)"
    by (simp add: frame_of_def frame_body_def w)
  ultimately show ?thesis by (rule that)
qed

lemma split_frames_msg:
  assumes "frame_ok m"
  shows "split_frames (msg_wire m @ rest) =
    (case split_frames rest of (fs, r) \<Rightarrow> (frame_of m # fs, r))"
  using assms
proof (cases rule: frame_ok_cases)
  case (1 h body)
  have p: "ParseHeader (SerializeHeader h @ body @ rest) = (True, h)"
    using 1(2) by simp
  have d: "drop kHeaderSize (SerializeHeader h @ body @ rest) = body @ rest" by simp
  have e: "drop (kHeaderSize + length body) (SerializeHeader h @ body @ rest) = rest"
    using d by (metis append_eq_conv_conj drop_drop add.commute)
  show ?thesis
    by (subst split_frames.simps) (simp add: 1 p d e Let_def)
qed

text \<open>A proper prefix of a frame is kept as the incomplete rest.\<close>

lemma split_frames_partial:
  assumes "frame_ok m" and "n < wire_size m"
  shows "split_frames (take n (msg_wire m)) = ([], Some (take n (msg_wire m)))"
  using assms(1)
proof (cases rule: frame_ok_cases)
  case (1 h body)
  have len: "wire_size m = kHeaderSize + length body"
    using 1(1) by (metis length_append length_SerializeHeader length_msg_wire)
  show ?thesis
  proof (cases "n < kHeaderSize")
    case True
    then show ?thesis using assms(2) by (subst split_frames.simps) simp
  next
    case False
    then have t: "take n (msg_wire m) = SerializeHeader h @ take (n - kHeaderSize) body"
      using 1(1) by simp
    have "ParseHeader (take n (msg_wire m)) = (True, h)" unfolding t using 1(2) by simp
    then show ?thesis
      using False assms(2) len 1(3) by (subst split_frames.simps) (simp add: Let_def)
  qed
qed

lemma split_frames_short: "length b < kHeaderSize \<Longrightarrow> split_frames b = ([], Some b)"
  by (subst split_frames.simps) simp

lemma split_frames_messages:
  "list_all frame_ok ms \<Longrightarrow>
   split_frames (concat (map msg_wire ms) @ rest) =
     (case split_frames rest of (fs, r) \<Rightarrow> (map frame_of ms @ fs, r))"
proof (induction ms)
  case (Cons m ms)
  then show ?case
    by (simp add: split_frames_msg split: prod.split)
qed (simp split: prod.split)

end
