(* ===== verification/Link_Client.thy ===== *)
theory Link_Client
  imports Link_Message "HOL-Library.Sublist"
begin

text \<open>
  One consumer of the worker link: \<open>Client\<close> of core/include/zm/WorkerLink.hpp, and from
  core/src/WorkerLink.cpp \<open>onClientWritable\<close> and the body of \<open>enqueue\<close> for one client.

  The socket is part of the state: \<open>cl_writes\<close> are the results that the following calls of
  \<open>writev\<close> give (a call past its end would block), \<open>cl_wire\<close> the bytes that the kernel has
  taken so far, and \<open>cl_written\<close> the messages among them that are complete. The last two
  are only written, never read, by the operations. \<open>Wrote n\<close> is room for \<open>n\<close> bytes: the call
  takes as many, but no more than the iovecs hold. The fields \<open>uid\<close> and \<open>pid\<close> of the code are
  never used.
\<close>

section \<open>State\<close>

datatype write_result = Wrote nat | WouldBlock | Interrupted | Failed

record Client =
  cl_fd :: nat
  cl_queue :: "Message list"
  cl_queued_bytes :: nat
  cl_front_offset :: nat
  cl_sent :: u64
  cl_dropped :: u64
  cl_want_video :: bool
  cl_want_audio :: bool
  cl_want_events :: bool
  cl_dead :: bool
  cl_inbuf :: bytes
  cl_writes :: "write_result list"
  cl_wire :: bytes
  cl_written :: "Message list"

definition Client_init :: "nat \<Rightarrow> write_result list \<Rightarrow> Client" where
  "Client_init fd writes =
     \<lparr>cl_fd = fd, cl_queue = [], cl_queued_bytes = 0, cl_front_offset = 0, cl_sent = 0,
      cl_dropped = 0, cl_want_video = False, cl_want_audio = False, cl_want_events = True,
      cl_dead = False, cl_inbuf = [], cl_writes = writes, cl_wire = [], cl_written = []\<rparr>"

text \<open>The statement pair \<open>queue.push_back(m); queued_bytes += m->wire_size()\<close>.\<close>

definition push_msg :: "Message \<Rightarrow> Client \<Rightarrow> Client" where
  "push_msg m c = c\<lparr>cl_queue := cl_queue c @ [m], cl_queued_bytes := cl_queued_bytes c + wire_size m\<rparr>"

section \<open>onClientWritable\<close>

text \<open>
  The iovecs for the rest of the front message. Past the prefix the code dereferences the
  payload; a message without one never gets there (\<open>iovecs_rest\<close>).
\<close>

definition iovecs :: "Message \<Rightarrow> nat \<Rightarrow> bytes list" where
  "iovecs msg off =
     (let prefix_sz = length (msg_prefix msg);
          payload_sz = (case msg_payload msg of None \<Rightarrow> 0 | Some p \<Rightarrow> length p)
      in if off < prefix_sz
         then drop off (msg_prefix msg) # (if payload_sz > 0 then [the (msg_payload msg)] else [])
         else [drop (off - prefix_sz) (payload_bytes msg)])"

fun write_loop :: "write_result list \<Rightarrow> Client \<Rightarrow> Client" where
  "write_loop [] c = c\<lparr>cl_writes := []\<rparr>"
| "write_loop (r # ws) c =
     (case cl_queue c of
        [] \<Rightarrow> c\<lparr>cl_writes := r # ws\<rparr>
      | msg # queue \<Rightarrow>
          (case r of
             WouldBlock \<Rightarrow> c\<lparr>cl_writes := ws\<rparr>
           | Interrupted \<Rightarrow> write_loop ws c
           | Failed \<Rightarrow> c\<lparr>cl_dead := True, cl_writes := ws\<rparr>
           | Wrote n \<Rightarrow>
               let iov = concat (iovecs msg (cl_front_offset c));
                   w = min n (length iov);
                   c = c\<lparr>cl_front_offset := cl_front_offset c + w, cl_wire := cl_wire c @ take w iov\<rparr>
               in if cl_front_offset c \<ge> wire_size msg
                  then write_loop ws
                    (c\<lparr>cl_front_offset := 0, cl_queued_bytes := cl_queued_bytes c - wire_size msg,
                       cl_sent := cl_sent c + 1, cl_queue := queue, cl_written := cl_written c @ [msg]\<rparr>)
                  else c\<lparr>cl_writes := ws\<rparr>))"

definition onClientWritable :: "Client \<Rightarrow> Client" where
  "onClientWritable c = write_loop (cl_writes c) c"

section \<open>enqueue, for one client\<close>

record Config =
  cfg_max_clients :: nat
  cfg_queue_max_bytes :: nat
  cfg_queue_max_msgs :: nat
  cfg_stats_interval :: int

definition Config_default :: Config where
  "Config_default = \<lparr>cfg_max_clients = 8, cfg_queue_max_bytes = 8 * 1024 * 1024,
     cfg_queue_max_msgs = 256, cfg_stats_interval = 5000\<rparr>"

definition over_limit :: "Config \<Rightarrow> nat \<Rightarrow> Client \<Rightarrow> bool" where
  "over_limit cfg sz c \<longleftrightarrow> length (cl_queue c) \<ge> cfg_queue_max_msgs cfg \<or>
     cl_queued_bytes c + sz > cfg_queue_max_bytes cfg"

fun drop_loop :: "Config \<Rightarrow> nat \<Rightarrow> Message list \<Rightarrow> Client \<Rightarrow> Client" where
  "drop_loop cfg sz [] c = c"
| "drop_loop cfg sz (front # rest) c =
     (if over_limit cfg sz c then
        if msg_control front \<or> cl_front_offset c > 0 then c
        else drop_loop cfg sz rest
          (c\<lparr>cl_queued_bytes := cl_queued_bytes c - wire_size front, cl_queue := rest,
             cl_dropped := cl_dropped c + 1\<rparr>)
      else c)"

definition drop_oldest :: "Config \<Rightarrow> nat \<Rightarrow> Client \<Rightarrow> Client" where
  "drop_oldest cfg sz c = drop_loop cfg sz (cl_queue c) c"

definition wanted :: "Message \<Rightarrow> bool \<Rightarrow> bool \<Rightarrow> bool \<Rightarrow> Client \<Rightarrow> bool" where
  "wanted msg video audio events c \<longleftrightarrow> (video \<and> cl_want_video c) \<or> (audio \<and> cl_want_audio c) \<or>
     (events \<and> cl_want_events c) \<or> msg_control msg"

text \<open>The body of the loop over \<open>clients_\<close>; its two \<open>continue\<close> leave the client alone.\<close>

definition enqueue_client :: "Config \<Rightarrow> Message \<Rightarrow> bool \<Rightarrow> bool \<Rightarrow> bool \<Rightarrow> Client \<Rightarrow> Client" where
  "enqueue_client cfg msg video audio events c =
     (if cl_dead c then c
      else if \<not> wanted msg video audio events c then c
      else onClientWritable (push_msg msg (drop_oldest cfg (wire_size msg) c)))"

section \<open>The client invariant\<close>

definition pending :: "Client \<Rightarrow> bytes" where
  "pending c = concat (map msg_wire (cl_queue c))"

definition client_ok :: "Client \<Rightarrow> bool" where
  "client_ok c \<longleftrightarrow>
     cl_queued_bytes c = sum_list (map wire_size (cl_queue c)) \<and>
     (\<forall>m \<in> set (cl_queue c). 0 < wire_size m) \<and>
     (case cl_queue c of [] \<Rightarrow> cl_front_offset c = 0 | m # _ \<Rightarrow> cl_front_offset c < wire_size m) \<and>
     cl_wire c = concat (map msg_wire (cl_written c)) @ take (cl_front_offset c) (pending c) \<and>
     cl_sent c = of_nat (length (cl_written c))"

lemma client_okD:
  assumes "client_ok c"
  shows "cl_queued_bytes c = sum_list (map wire_size (cl_queue c))"
    and "m \<in> set (cl_queue c) \<Longrightarrow> 0 < wire_size m"
    and "cl_queue c = [] \<Longrightarrow> cl_front_offset c = 0"
    and "cl_queue c = m # q \<Longrightarrow> cl_front_offset c < wire_size m"
    and "cl_wire c = concat (map msg_wire (cl_written c)) @ take (cl_front_offset c) (pending c)"
    and "cl_sent c = of_nat (length (cl_written c))"
  using assms by (auto simp: client_ok_def)

lemma Client_init_ok [simp]: "client_ok (Client_init fd ws)"
  by (simp add: client_ok_def Client_init_def pending_def)

text \<open>The iovecs name exactly the bytes that are still to be written.\<close>

lemma iovecs_rest:
  "off < wire_size msg \<Longrightarrow> concat (iovecs msg off) = drop off (msg_wire msg)"
  by (cases "msg_payload msg")
    (auto simp: iovecs_def Let_def msg_wire_def payload_bytes_def wire_size_def)

lemma iovecs_payload:
  "off < wire_size msg \<Longrightarrow> length (msg_prefix msg) \<le> off \<Longrightarrow> msg_payload msg \<noteq> None"
  by (cases "msg_payload msg") (auto simp: wire_size_def)

lemma push_msg_ok [inv_intros]: "client_ok c \<Longrightarrow> 0 < wire_size m \<Longrightarrow> client_ok (push_msg m c)"
proof -
  assume c: "client_ok c" and m: "0 < wire_size m"
  have "cl_front_offset c \<le> length (pending c)"
    using client_okD(3, 4) [OF c] by (cases "cl_queue c") (auto simp: pending_def intro: less_imp_le trans_less_add1)
  then show ?thesis
    using c m by (auto simp: client_ok_def push_msg_def pending_def split: list.splits)
qed

lemma push_msg_sel [simp]:
  "cl_queue (push_msg m c) = cl_queue c @ [m]" "cl_written (push_msg m c) = cl_written c"
  "cl_dropped (push_msg m c) = cl_dropped c" "cl_fd (push_msg m c) = cl_fd c"
  "cl_want_video (push_msg m c) = cl_want_video c" "cl_want_audio (push_msg m c) = cl_want_audio c"
  "cl_want_events (push_msg m c) = cl_want_events c" "cl_dead (push_msg m c) = cl_dead c"
  "cl_inbuf (push_msg m c) = cl_inbuf c" "cl_front_offset (push_msg m c) = cl_front_offset c"
  "cl_wire (push_msg m c) = cl_wire c" "cl_writes (push_msg m c) = cl_writes c"
  by (simp_all add: push_msg_def)

text \<open>Writing moves messages from the queue to the wire and changes nothing else.\<close>

definition same_stream :: "Client \<Rightarrow> Client \<Rightarrow> bool" where
  "same_stream c c' \<longleftrightarrow> cl_written c' @ cl_queue c' = cl_written c @ cl_queue c \<and>
     prefix (cl_written c) (cl_written c') \<and>
     cl_fd c' = cl_fd c \<and> cl_dropped c' = cl_dropped c \<and> cl_inbuf c' = cl_inbuf c \<and>
     cl_want_video c' = cl_want_video c \<and> cl_want_audio c' = cl_want_audio c \<and>
     cl_want_events c' = cl_want_events c \<and> (cl_dead c \<longrightarrow> cl_dead c') \<and>
     prefix (cl_wire c) (cl_wire c')"

lemma same_stream_refl [simp]: "same_stream c c"
  by (simp add: same_stream_def)

lemma same_stream_trans: "same_stream a b \<Longrightarrow> same_stream b c \<Longrightarrow> same_stream a c"
  by (auto simp: same_stream_def intro: prefix_order.trans)

lemma same_stream_writes [simp]:
  "same_stream c (c\<lparr>cl_writes := ws\<rparr>)" "same_stream c (c\<lparr>cl_dead := True, cl_writes := ws\<rparr>)"
  by (simp_all add: same_stream_def)

lemma client_ok_writes [simp]:
  "client_ok (c\<lparr>cl_writes := ws\<rparr>) = client_ok c" "client_ok (c\<lparr>cl_dead := b\<rparr>) = client_ok c"
  by (simp_all add: client_ok_def pending_def split: list.split)

text \<open>One \<open>writev\<close> that takes \<open>w\<close> bytes.\<close>

definition wrote :: "nat \<Rightarrow> Client \<Rightarrow> Client" where
  "wrote w c = c\<lparr>cl_front_offset := cl_front_offset c + w,
     cl_wire := cl_wire c @ take w (drop (cl_front_offset c) (msg_wire (hd (cl_queue c))))\<rparr>"

definition popped :: "Client \<Rightarrow> Client" where
  "popped c = c\<lparr>cl_front_offset := 0,
     cl_queued_bytes := cl_queued_bytes c - wire_size (hd (cl_queue c)),
     cl_sent := cl_sent c + 1, cl_queue := tl (cl_queue c),
     cl_written := cl_written c @ [hd (cl_queue c)]\<rparr>"

lemma write_loop_nil:
  "cl_queue c = [] \<Longrightarrow> write_loop ws c = c\<lparr>cl_writes := ws\<rparr>"
  by (cases ws) simp_all

lemma write_loop_wrote:
  assumes "client_ok c" and "cl_queue c = m # q"
  shows "write_loop (Wrote n # ws) c =
    (let w = min n (wire_size m - cl_front_offset c)
     in if cl_front_offset c + w = wire_size m then write_loop ws (popped (wrote w c))
        else (wrote w c)\<lparr>cl_writes := ws\<rparr>)"
proof -
  have lt: "cl_front_offset c < wire_size m" using client_okD(4) [OF assms] .
  have i: "concat (iovecs m (cl_front_offset c)) = drop (cl_front_offset c) (msg_wire m)"
    by (rule iovecs_rest [OF lt])
  define w where "w = min n (wire_size m - cl_front_offset c)"
  have le: "(wire_size m \<le> cl_front_offset c + w) = (cl_front_offset c + w = wire_size m)"
    using lt by (auto simp: w_def)
  show ?thesis
    by (simp add: assms(2) i Let_def wrote_def popped_def w_def [symmetric] le)
qed

lemma take_msg_wire_pending:
  "cl_queue c = m # q \<Longrightarrow> n \<le> wire_size m \<Longrightarrow> take n (pending c) = take n (msg_wire m)"
  by (simp add: pending_def)

lemma wrote_wire:
  assumes c: "client_ok c" and q: "cl_queue c = m # q"
    and w: "cl_front_offset c + w \<le> wire_size m"
  shows "cl_wire (wrote w c) =
    concat (map msg_wire (cl_written c)) @ take (cl_front_offset c + w) (msg_wire m)"
proof -
  have lt: "cl_front_offset c \<le> wire_size m" using w by simp
  have "cl_wire c = concat (map msg_wire (cl_written c)) @ take (cl_front_offset c) (msg_wire m)"
    using client_okD(5) [OF c] take_msg_wire_pending [OF q lt] by simp
  then show ?thesis using q by (simp add: wrote_def take_add)
qed

lemma wrote_ok:
  assumes c: "client_ok c" and q: "cl_queue c = m # q"
    and w: "cl_front_offset c + w < wire_size m"
  shows "client_ok (wrote w c)"
proof -
  have "pending (wrote w c) = pending c" by (simp add: pending_def wrote_def)
  then have "cl_wire (wrote w c) =
      concat (map msg_wire (cl_written (wrote w c))) @
      take (cl_front_offset (wrote w c)) (pending (wrote w c))"
    using wrote_wire [OF c q] w take_msg_wire_pending [OF q, of "cl_front_offset c + w"]
    by (simp add: wrote_def)
  then show ?thesis
    using c q w by (simp add: client_ok_def wrote_def)
qed

lemma popped_ok:
  assumes c: "client_ok c" and q: "cl_queue c = m # q"
    and w: "cl_front_offset c + w = wire_size m"
  shows "client_ok (popped (wrote w c))"
proof -
  have "cl_wire (popped (wrote w c)) = concat (map msg_wire (cl_written c @ [m]))"
    using wrote_wire [OF c q] w by (simp add: popped_def)
  moreover have "m' \<in> set q \<Longrightarrow> 0 < wire_size m'" for m'
    using client_okD(2) [OF c] q by simp
  moreover have "case q of [] \<Rightarrow> True | m' # _ \<Rightarrow> 0 < wire_size m'"
    using calculation(2) by (cases q) auto
  ultimately show ?thesis
    using c q by (auto simp: client_ok_def popped_def wrote_def pending_def split: list.split)
qed

lemma popped_same_stream: "cl_queue c \<noteq> [] \<Longrightarrow> same_stream c (popped (wrote w c))"
  by (simp add: same_stream_def popped_def wrote_def)

lemma wrote_same_stream: "same_stream c ((wrote w c)\<lparr>cl_writes := ws\<rparr>)"
  by (simp add: same_stream_def wrote_def)

lemma write_loop_ok:
  "client_ok c \<Longrightarrow> client_ok (write_loop ws c) \<and> same_stream c (write_loop ws c)"
proof (induction ws arbitrary: c)
  case Nil
  then show ?case by simp
next
  case (Cons r ws)
  show ?case
  proof (cases "cl_queue c")
    case Nil
    with Cons.prems show ?thesis by (simp add: write_loop_nil)
  next
    case q: (Cons m q)
    show ?thesis
    proof (cases r)
      case (Wrote n)
      define w where "w = min n (wire_size m - cl_front_offset c)"
      have lt: "cl_front_offset c < wire_size m" using client_okD(4) [OF Cons.prems q] .
      show ?thesis
      proof (cases "cl_front_offset c + w = wire_size m")
        case True
        note p = popped_ok [OF Cons.prems q True]
        have "write_loop (r # ws) c = write_loop ws (popped (wrote w c))"
          using write_loop_wrote [OF Cons.prems q, of n ws] Wrote True by (simp add: w_def Let_def)
        with Cons.IH [OF p] same_stream_trans [OF popped_same_stream] q show ?thesis by auto
      next
        case False
        then have "cl_front_offset c + w < wire_size m" using lt by (simp add: w_def)
        note k = wrote_ok [OF Cons.prems q this]
        have "write_loop (r # ws) c = (wrote w c)\<lparr>cl_writes := ws\<rparr>"
          using write_loop_wrote [OF Cons.prems q, of n ws] Wrote False by (simp add: w_def Let_def)
        with k wrote_same_stream show ?thesis by simp
      qed
    next
      case WouldBlock
      with q Cons.prems show ?thesis by simp
    next
      case Interrupted
      then have "write_loop (r # ws) c = write_loop ws c"
        using q by simp
      with Cons show ?thesis by simp
    next
      case Failed
      with q Cons.prems show ?thesis
        by (simp add: client_ok_def pending_def)
    qed
  qed
qed

lemma onClientWritable_ok [inv_intros]: "client_ok c \<Longrightarrow> client_ok (onClientWritable c)"
  by (simp add: onClientWritable_def write_loop_ok)

lemma onClientWritable_same: "client_ok c \<Longrightarrow> same_stream c (onClientWritable c)"
  by (simp add: onClientWritable_def write_loop_ok)

text \<open>Dropping takes non-control messages from the front, and only while none is half written.\<close>

lemma drop_oldest_stop:
  "\<not> over_limit cfg sz c \<or> cl_queue c = [] \<or> msg_control (hd (cl_queue c)) \<or> cl_front_offset c > 0 \<Longrightarrow>
   drop_oldest cfg sz c = c"
  by (cases "cl_queue c") (auto simp: drop_oldest_def)

definition drop_front :: "Client \<Rightarrow> Client" where
  "drop_front c = c\<lparr>cl_queued_bytes := cl_queued_bytes c - wire_size (hd (cl_queue c)),
     cl_queue := tl (cl_queue c), cl_dropped := cl_dropped c + 1\<rparr>"

lemma drop_oldest_step:
  "over_limit cfg sz c \<Longrightarrow> cl_queue c = m # q \<Longrightarrow> \<not> msg_control m \<Longrightarrow> cl_front_offset c = 0 \<Longrightarrow>
   drop_oldest cfg sz c = drop_oldest cfg sz (drop_front c)"
  by (simp add: drop_oldest_def drop_front_def)

lemma drop_front_ok:
  assumes c: "client_ok c" and q: "cl_queue c = m # q" and "cl_front_offset c = 0"
  shows "client_ok (drop_front c)"
  using assms client_okD(2) [OF c]
  by (auto simp: client_ok_def drop_front_def pending_def split: list.split)

definition dropped_from :: "Client \<Rightarrow> Client \<Rightarrow> Message list \<Rightarrow> bool" where
  "dropped_from c c' ds \<longleftrightarrow> cl_queue c = ds @ cl_queue c' \<and> filter msg_control ds = [] \<and>
     cl_dropped c' = cl_dropped c + of_nat (length ds) \<and> cl_written c' = cl_written c \<and>
     cl_fd c' = cl_fd c \<and> cl_inbuf c' = cl_inbuf c \<and> cl_want_video c' = cl_want_video c \<and>
     cl_want_audio c' = cl_want_audio c \<and> cl_want_events c' = cl_want_events c \<and>
     cl_dead c' = cl_dead c \<and> cl_wire c' = cl_wire c \<and> cl_writes c' = cl_writes c \<and>
     cl_front_offset c' = cl_front_offset c \<and> (ds \<noteq> [] \<longrightarrow> cl_front_offset c = 0)"

lemma dropped_from_nil [simp]: "dropped_from c c []"
  by (simp add: dropped_from_def)

lemma dropped_from_front:
  "cl_queue c = m # q \<Longrightarrow> \<not> msg_control m \<Longrightarrow> cl_front_offset c = 0 \<Longrightarrow>
   dropped_from (drop_front c) c' ds \<Longrightarrow> dropped_from c c' (m # ds)"
  by (simp add: dropped_from_def drop_front_def)

lemma drop_oldest_ok:
  assumes "client_ok c"
  shows "client_ok (drop_oldest cfg sz c) \<and> (\<exists>ds. dropped_from c (drop_oldest cfg sz c) ds)"
  using assms
proof (induction "length (cl_queue c)" arbitrary: c)
  case 0
  then show ?case by (auto simp: drop_oldest_stop intro: exI [of _ "[]"])
next
  case (Suc n)
  then obtain m q where q: "cl_queue c = m # q" by (metis length_Suc_conv)
  show ?case
  proof (cases "over_limit cfg sz c \<and> \<not> msg_control m \<and> cl_front_offset c = 0")
    case True
    have "n = length (cl_queue (drop_front c))" using Suc.hyps(2) q by (simp add: drop_front_def)
    from Suc.hyps(1) [OF this drop_front_ok [OF Suc.prems q]] True q drop_oldest_step [of cfg sz c m q]
      dropped_from_front [of c m q] show ?thesis by auto
  next
    case False
    then have "drop_oldest cfg sz c = c" using q by (intro drop_oldest_stop) auto
    with Suc.prems show ?thesis by (auto intro: exI [of _ "[]"])
  qed
qed

lemma drop_oldest_limit:
  "(\<forall>m \<in> set (cl_queue c). \<not> msg_control m) \<Longrightarrow> cl_front_offset c = 0 \<Longrightarrow>
   cl_queue (drop_oldest cfg sz c) = [] \<or> \<not> over_limit cfg sz (drop_oldest cfg sz c)"
proof (induction "length (cl_queue c)" arbitrary: c)
  case 0
  then show ?case by (simp add: drop_oldest_stop)
next
  case (Suc n)
  then obtain m q where q: "cl_queue c = m # q" by (metis length_Suc_conv)
  show ?case
  proof (cases "over_limit cfg sz c")
    case True
    have "n = length (cl_queue (drop_front c))" using Suc.hyps(2) q by (simp add: drop_front_def)
    moreover have "drop_oldest cfg sz c = drop_oldest cfg sz (drop_front c)"
      using drop_oldest_step [OF True q] Suc.prems q by simp
    ultimately show ?thesis
      using Suc.hyps(1) [of "drop_front c"] Suc.prems q by (simp add: drop_front_def)
  next
    case False
    then show ?thesis by (simp add: drop_oldest_stop)
  qed
qed

lemma same_streamD:
  assumes "same_stream c c'"
  shows "cl_written c' @ cl_queue c' = cl_written c @ cl_queue c" "cl_dropped c' = cl_dropped c"
    "cl_fd c' = cl_fd c" "cl_dead c \<Longrightarrow> cl_dead c'" "cl_inbuf c' = cl_inbuf c"
    "prefix (cl_wire c) (cl_wire c')"
  using assms by (auto simp: same_stream_def)

text \<open>What one offer does: older non-control messages go, the new one is last.\<close>

lemma enqueue_client_ok [inv_intros]:
  assumes "client_ok c" and "0 < wire_size m"
  shows "client_ok (enqueue_client cfg m v a e c)"
  using assms drop_oldest_ok [OF assms(1)]
  by (simp add: enqueue_client_def inv_intros)

lemma enqueue_client_stream:
  assumes c: "client_ok c" and m: "0 < wire_size m" and "\<not> cl_dead c" and "wanted m v a e c"
  obtains ds where "cl_queue c = ds @ drop (length ds) (cl_queue c)" "filter msg_control ds = []"
    "cl_written (enqueue_client cfg m v a e c) @ cl_queue (enqueue_client cfg m v a e c) =
       cl_written c @ drop (length ds) (cl_queue c) @ [m]"
    "cl_dropped (enqueue_client cfg m v a e c) = cl_dropped c + of_nat (length ds)"
proof -
  let ?d = "drop_oldest cfg (wire_size m) c"
  from drop_oldest_ok [OF c] obtain ds where ok: "client_ok ?d" and d: "dropped_from c ?d ds" by blast
  have "same_stream (push_msg m ?d) (onClientWritable (push_msg m ?d))"
    using ok m by (simp add: onClientWritable_same push_msg_ok)
  note st = same_streamD(1,2) [OF this]
  have e: "enqueue_client cfg m v a e c = onClientWritable (push_msg m ?d)"
    using assms(3,4) by (simp add: enqueue_client_def)
  show ?thesis
    using d st by (intro that [of ds]) (auto simp: dropped_from_def e)
qed

section \<open>Runs of a client\<close>

text \<open>
  \<open>Offer\<close> is a broadcast reaching this client; \<open>Writable ws\<close> a POLLOUT, with the results that
  the socket then has for \<open>writev\<close>. A run also returns the messages that the client wanted.
\<close>

datatype client_event = Offer Message bool bool bool | Writable "write_result list"

fun client_run :: "Config \<Rightarrow> client_event list \<Rightarrow> Client \<Rightarrow> Client \<times> Message list" where
  "client_run cfg [] c = (c, [])"
| "client_run cfg (Offer m v a e # evs) c =
     (case client_run cfg evs (enqueue_client cfg m v a e c) of (c', ms) \<Rightarrow>
        (c', if \<not> cl_dead c \<and> wanted m v a e c then m # ms else ms))"
| "client_run cfg (Writable ws # evs) c =
     client_run cfg evs (if cl_dead c then c else onClientWritable (c\<lparr>cl_writes := ws\<rparr>))"

fun offers :: "client_event list \<Rightarrow> Message list" where
  "offers [] = []"
| "offers (Offer m v a e # evs) = m # offers evs"
| "offers (Writable ws # evs) = offers evs"

definition stream_of :: "Client \<Rightarrow> Message list" where
  "stream_of c = cl_written c @ cl_queue c"

lemma subseq_set: "subseq xs ys \<Longrightarrow> set xs \<subseteq> set ys"
  by (induction xs ys rule: list_emb.induct) auto

lemma subseq_drop: "subseq (xs @ drop n ys @ zs) (xs @ ys @ zs)"
  by (intro list_emb_append_mono subseq_order.refl) (simp add: suffix_imp_subseq suffix_drop)

lemma client_run_account:
  assumes "client_ok c" and "\<forall>m \<in> set (offers evs). 0 < wire_size m"
    and "client_run cfg evs c = (c', ms)"
  shows "client_ok c' \<and> subseq (stream_of c') (stream_of c @ ms) \<and>
    filter msg_control (stream_of c') = filter msg_control (stream_of c @ ms) \<and>
    cl_dropped c' + of_nat (length (stream_of c')) =
      cl_dropped c + of_nat (length (stream_of c @ ms))"
  using assms
proof (induction cfg evs c arbitrary: ms rule: client_run.induct)
  case (1 cfg c)
  then show ?case by simp
next
  case (2 cfg m v a e evs c)
  let ?c = "enqueue_client cfg m v a e c"
  from "2.prems"(3) obtain ms' where r: "client_run cfg evs ?c = (c', ms')"
    and ms: "ms = (if \<not> cl_dead c \<and> wanted m v a e c then m # ms' else ms')"
    by (auto split: prod.splits)
  have m: "0 < wire_size m" using "2.prems"(2) by simp
  have ok: "client_ok ?c" using "2.prems"(1) m by (rule enqueue_client_ok)
  have IH: "client_ok c' \<and> subseq (stream_of c') (stream_of ?c @ ms') \<and>
      filter msg_control (stream_of c') = filter msg_control (stream_of ?c @ ms') \<and>
      cl_dropped c' + of_nat (length (stream_of c')) =
        cl_dropped ?c + of_nat (length (stream_of ?c @ ms'))"
    using "2.IH" [OF ok _ r] "2.prems"(2) by simp
  show ?case
  proof (cases "\<not> cl_dead c \<and> wanted m v a e c")
    case True
    then obtain ds where q: "cl_queue c = ds @ drop (length ds) (cl_queue c)"
      and f: "filter msg_control ds = []"
      and s: "stream_of ?c = cl_written c @ drop (length ds) (cl_queue c) @ [m]"
      and n: "cl_dropped ?c = cl_dropped c + of_nat (length ds)"
      using enqueue_client_stream [OF "2.prems"(1) m, of v a e cfg] unfolding stream_of_def by blast
    obtain q' where q': "cl_queue c = ds @ q'" "drop (length ds) (cl_queue c) = q'" using q by blast
    have "subseq (stream_of ?c @ ms') (stream_of c @ m # ms')"
      using subseq_drop [of "cl_written c" "length ds" "cl_queue c" "m # ms'"] s
      by (simp add: stream_of_def)
    then have sub: "subseq (stream_of c') (stream_of c @ ms)"
      using IH True ms by (auto intro: subseq_order.trans)
    have sc: "stream_of c @ ms = cl_written c @ ds @ q' @ m # ms'"
      and s': "stream_of ?c @ ms' = cl_written c @ q' @ m # ms'"
      using q' s True ms by (simp_all add: stream_of_def)
    have "filter msg_control (stream_of ?c @ ms') = filter msg_control (stream_of c @ ms)"
      unfolding sc s' using f by simp
    moreover have "cl_dropped ?c + of_nat (length (stream_of ?c @ ms')) =
        cl_dropped c + of_nat (length (stream_of c @ ms))"
      unfolding sc s' n by simp
    ultimately show ?thesis using IH sub by simp
  next
    case False
    then have "?c = c" by (auto simp: enqueue_client_def)
    with IH False ms show ?thesis by auto
  qed
next
  case (3 cfg ws evs c)
  let ?c = "if cl_dead c then c else onClientWritable (c\<lparr>cl_writes := ws\<rparr>)"
  have ok: "client_ok ?c" using "3.prems"(1) by (simp add: onClientWritable_ok)
  have "same_stream c ?c"
  proof (cases "cl_dead c")
    case False
    have "same_stream (c\<lparr>cl_writes := ws\<rparr>) (onClientWritable (c\<lparr>cl_writes := ws\<rparr>))"
      using "3.prems"(1) by (simp add: onClientWritable_same)
    from same_stream_trans [OF same_stream_writes(1) this] False show ?thesis by simp
  qed simp
  then have "stream_of ?c = stream_of c" and "cl_dropped ?c = cl_dropped c"
    unfolding stream_of_def by (auto dest: same_streamD)
  then show ?case
    using "3.IH" [OF ok] "3.prems"(2, 3) by simp
qed

text \<open>Flushing leaves a suffix of the queue.\<close>

lemma same_stream_suffix:
  assumes "same_stream c c'"
  shows "suffix (cl_queue c') (cl_queue c)"
proof -
  from assms obtain ws where w: "cl_written c' = cl_written c @ ws"
    and e: "cl_written c' @ cl_queue c' = cl_written c @ cl_queue c"
    by (auto simp: same_stream_def prefix_def)
  then have "cl_queue c = ws @ cl_queue c'" by simp
  then show ?thesis by (auto simp: suffix_def)
qed

lemma suffix_queue_smaller:
  assumes "suffix q' q"
  shows "length q' \<le> length q" and "sum_list (map wire_size q') \<le> sum_list (map wire_size q)"
  using assms by (auto simp: suffix_def)

lemma wire_frames:
  assumes c: "client_ok c" and f: "list_all frame_ok (stream_of c)"
  shows "split_frames (cl_wire c) =
    (map frame_of (cl_written c), Some (take (cl_front_offset c) (pending c)))"
proof -
  have "split_frames (take (cl_front_offset c) (pending c)) =
      ([], Some (take (cl_front_offset c) (pending c)))"
  proof (cases "cl_queue c")
    case Nil
    then show ?thesis by (simp add: pending_def split_frames_short kHeaderSize_def)
  next
    case (Cons m q)
    have lt: "cl_front_offset c < wire_size m" using client_okD(4) [OF c Cons] .
    have "frame_ok m" using f Cons by (simp add: stream_of_def)
    from split_frames_partial [OF this lt] take_msg_wire_pending [OF Cons, of "cl_front_offset c"] lt
    show ?thesis by simp
  qed
  then show ?thesis
    using f client_okD(5) [OF c] by (simp add: stream_of_def split_frames_messages)
qed

section \<open>Properties\<close>

text \<open>
  Delivery to a consumer, over every interleaving of broadcasts with socket results of
  every kind (short writes, interrupts, blocking, errors): the messages written and still
  queued are a subsequence of those the consumer was offered and wanted, in order and
  without repetition; all control messages among them (Hello, Event, Bye, Response) are
  there; and the messages missing are as many as the drop counter that Stats reports.
\<close>
theorem consumer_stream:
  assumes "client_ok c" and "\<forall>m \<in> set (offers evs). 0 < wire_size m"
    and "client_run cfg evs c = (c', ms)"
  shows "subseq (cl_written c' @ cl_queue c') (cl_written c @ cl_queue c @ ms) \<and>
    filter msg_control (cl_written c' @ cl_queue c') =
      filter msg_control (cl_written c @ cl_queue c @ ms) \<and>
    cl_dropped c' + of_nat (length (cl_written c' @ cl_queue c')) =
      cl_dropped c + of_nat (length (cl_written c @ cl_queue c @ ms))"
  using client_run_account [OF assms] by (simp add: stream_of_def)

definition demo_media :: "u8 \<Rightarrow> Message" where
  "demo_media b = makeMedia 0 2 0 0 0 0 (Some [b])"

lemma demo_media_facts [simp]:
  "wire_size (demo_media b) = 25" "\<not> msg_control (demo_media b)"
  "length (msg_prefix (demo_media b)) = 24" "msg_payload (demo_media b) = Some [b]"
  by (simp_all add: demo_media_def makeMedia_eq wire_size_def kHeaderSize_def)

lemmas client_run_eval = enqueue_client_def wanted_def drop_oldest_def over_limit_def
  Client_init_def Config_default_def onClientWritable_def push_msg_def iovecs_def
  payload_bytes_def Let_def

lemma demo_media_frame [simp]: "frame_ok (demo_media b)"
  unfolding demo_media_def by (rule frame_ok_makeMedia) simp

theorem consumer_stream_witness:
  "\<exists>c' ms. client_run (Config_default\<lparr>cfg_queue_max_msgs := 1\<rparr>)
      [Offer (demo_media 1) True False False, Offer (demo_media 2) True False False]
      ((Client_init 5 [])\<lparr>cl_want_video := True\<rparr>) = (c', ms) \<and>
    length (cl_queue c') = 1 \<and> cl_dropped c' + 1 = (2 :: u64)"
proof -
  let ?evs = "[Offer (demo_media 1) True False False, Offer (demo_media 2) True False False]"
  let ?cfg = "Config_default\<lparr>cfg_queue_max_msgs := 1\<rparr>"
  let ?c = "(Client_init 5 [])\<lparr>cl_want_video := True\<rparr>"
  have ok: "client_ok ?c" by (simp add: client_ok_def Client_init_def pending_def)
  have ev: "length (cl_queue (fst (client_run ?cfg ?evs ?c))) = 1"
    "cl_written (fst (client_run ?cfg ?evs ?c)) = []" "length (snd (client_run ?cfg ?evs ?c)) = 2"
    by (simp_all add: client_run_eval split: prod.split)
  obtain c' ms where r: "client_run ?cfg ?evs ?c = (c', ms)" by (cases "client_run ?cfg ?evs ?c")
  show ?thesis
    using consumer_stream [OF ok _ r] r ev by (intro exI [of _ c'] exI [of _ ms]) (simp add: Client_init_def)
qed

text \<open>
  C3. What the consumer reads: at every moment the bytes on the wire, split by the header's
  length field, are exactly the frames of the completed messages, in order, followed by a
  proper part of the front message; no frame is torn, merged or interleaved by short writes.
\<close>
theorem consumer_reads_frames:
  assumes "client_ok c" and "list_all frame_ok (cl_written c @ cl_queue c)"
    and "client_run cfg evs c = (c', ms)" and "list_all frame_ok (offers evs)"
    and "\<forall>m \<in> set (offers evs). 0 < wire_size m"
  shows "split_frames (cl_wire c') =
    (map frame_of (cl_written c'), Some (take (cl_front_offset c') (pending c')))"
proof -
  have acc: "client_ok c' \<and> subseq (stream_of c') (stream_of c @ ms)"
    using client_run_account [OF assms(1, 5, 3)] by blast
  have "set ms \<subseteq> set (offers evs)"
    using assms(3)
  proof (induction cfg evs c arbitrary: ms rule: client_run.induct)
    case (2 cfg m v a e evs c)
    then show ?case by (force split: prod.splits if_splits)
  qed (auto split: if_splits)
  then have "\<forall>m \<in> set (stream_of c @ ms). frame_ok m"
    using assms(2, 4) by (auto simp: stream_of_def list_all_iff)
  moreover have "set (stream_of c') \<subseteq> set (stream_of c @ ms)"
    using acc subseq_set by blast
  ultimately have "list_all frame_ok (stream_of c')" by (auto simp: list_all_iff)
  with acc show ?thesis by (simp add: wire_frames)
qed

theorem consumer_reads_frames_witness:
  "\<exists>c' ms. client_run Config_default [Offer (demo_media 7) True False False, Writable [Wrote 100]]
      ((Client_init 5 [Wrote 10])\<lparr>cl_want_video := True\<rparr>) = (c', ms) \<and>
    split_frames (cl_wire c') = ([frame_of (demo_media 7)], Some [])"
proof -
  let ?c = "(Client_init 5 [Wrote 10])\<lparr>cl_want_video := True\<rparr>"
  let ?evs = "[Offer (demo_media 7) True False False, Writable [Wrote 100]]"
  have ok: "client_ok ?c" by (simp add: client_ok_def Client_init_def pending_def)
  have ev: "cl_queue (fst (client_run Config_default ?evs ?c)) = []"
    "cl_written (fst (client_run Config_default ?evs ?c)) = [demo_media 7]"
    "cl_front_offset (fst (client_run Config_default ?evs ?c)) = 0"
    by (simp_all add: client_run_eval)
  obtain c' ms where r: "client_run Config_default ?evs ?c = (c', ms)"
    by (cases "client_run Config_default ?evs ?c")
  show ?thesis
    using consumer_reads_frames [OF ok _ r] r ev
    by (intro exI [of _ c'] exI [of _ ms]) (simp add: Client_init_def pending_def)
qed

text \<open>
  Overload: for a consumer whose queue holds only media and whose front is untouched, a
  broadcast ends with at most \<open>queue_max_msgs\<close> messages queued (one, if the limit is zero), and
  with at most \<open>queue_max_bytes\<close> bytes, unless the new message alone is larger.
\<close>
theorem media_queue_bounded:
  assumes "client_ok c" and "0 < wire_size m" and "\<forall>q \<in> set (cl_queue c). \<not> msg_control q"
    and "cl_front_offset c = 0" and "\<not> cl_dead c" and "wanted m v a e c"
  shows "length (cl_queue (enqueue_client cfg m v a e c)) \<le> max 1 (cfg_queue_max_msgs cfg) \<and>
    cl_queued_bytes (enqueue_client cfg m v a e c) \<le> max (wire_size m) (cfg_queue_max_bytes cfg)"
proof -
  let ?d = "drop_oldest cfg (wire_size m) c"
  let ?p = "push_msg m ?d"
  have ok: "client_ok ?p" using assms(1, 2) drop_oldest_ok by (simp add: push_msg_ok)
  have e: "enqueue_client cfg m v a e c = onClientWritable ?p"
    using assms(5, 6) by (simp add: enqueue_client_def)
  have lim: "cl_queue ?d = [] \<or> \<not> over_limit cfg (wire_size m) ?d"
    using drop_oldest_limit assms(3, 4) by blast
  have ok': "client_ok ?d" using drop_oldest_ok [OF assms(1)] by blast
  have b: "length (cl_queue ?p) \<le> max 1 (cfg_queue_max_msgs cfg)"
    "sum_list (map wire_size (cl_queue ?p)) \<le> max (wire_size m) (cfg_queue_max_bytes cfg)"
    using lim client_okD(1) [OF ok'] by (auto simp: over_limit_def)
  note suf = suffix_queue_smaller [OF same_stream_suffix [OF onClientWritable_same [OF ok]]]
  show ?thesis
    unfolding e using b suf client_okD(1) [OF onClientWritable_ok [OF ok]] by linarith
qed

theorem media_queue_bounded_witness:
  "length (cl_queue (enqueue_client (Config_default\<lparr>cfg_queue_max_msgs := 2\<rparr>) (demo_media 3) True False False
     ((Client_init 5 [])\<lparr>cl_want_video := True, cl_queue := [demo_media 1, demo_media 2],
        cl_queued_bytes := 50\<rparr>))) \<le> 2"
  using media_queue_bounded [of "(Client_init 5 [])\<lparr>cl_want_video := True,
      cl_queue := [demo_media 1, demo_media 2], cl_queued_bytes := 50\<rparr>" "demo_media 3" True False False
      "Config_default\<lparr>cfg_queue_max_msgs := 2\<rparr>"]
  by (simp add: client_ok_def pending_def Client_init_def wanted_def)

text \<open>
  The limit has an exception that the documented "bounded queue" does not mention: when
  the front message is a control message or partly written and the socket stays blocked,
  nothing is dropped, so the queue grows by every message offered, without bound.
\<close>
theorem stuck_queue_unbounded:
  assumes "cl_queue c = front # q" and "msg_control front \<or> cl_front_offset c > 0"
    and "cl_writes c = []" and "\<not> cl_dead c" and "cl_want_video c"
  shows "\<exists>c' ms. client_run cfg (map (\<lambda>m. Offer m True False False) ps) c = (c', ms) \<and>
    cl_queue c' = cl_queue c @ ps \<and> cl_dropped c' = cl_dropped c"
  using assms
proof (induction ps arbitrary: c q)
  case (Cons p ps)
  have "drop_oldest cfg (wire_size p) c = c"
    using Cons.prems by (intro drop_oldest_stop) auto
  then have e: "enqueue_client cfg p True False False c = (push_msg p c)\<lparr>cl_writes := []\<rparr>"
    using Cons.prems
    by (simp add: enqueue_client_def wanted_def onClientWritable_def write_loop.simps)
  let ?c = "enqueue_client cfg p True False False c"
  from e Cons.prems have "cl_queue ?c = front # q @ [p]" and
    "msg_control front \<or> cl_front_offset ?c > 0" "cl_writes ?c = []" "\<not> cl_dead ?c" "cl_want_video ?c"
    by simp_all
  from Cons.IH [OF this] obtain c' ms where
    "client_run cfg (map (\<lambda>m. Offer m True False False) ps) ?c = (c', ms)"
    "cl_queue c' = cl_queue ?c @ ps" "cl_dropped c' = cl_dropped ?c"
    by blast
  with e show ?case by (auto split: prod.split)
qed simp

theorem stuck_queue_unbounded_witness:
  "\<exists>c' ms. client_run (Config_default\<lparr>cfg_queue_max_msgs := 2\<rparr>)
      (map (\<lambda>m. Offer m True False False) (replicate 1000 (demo_media 1)))
      ((Client_init 5 [])\<lparr>cl_want_video := True,
         cl_queue := [makeControl 0 1 0 0 0 0 [] True]\<rparr>) = (c', ms) \<and>
    length (cl_queue c') = 1001"
proof -
  have "\<exists>c' ms. client_run (Config_default\<lparr>cfg_queue_max_msgs := 2\<rparr>)
      (map (\<lambda>m. Offer m True False False) (replicate 1000 (demo_media 1)))
      ((Client_init 5 [])\<lparr>cl_want_video := True,
         cl_queue := [makeControl 0 1 0 0 0 0 [] True]\<rparr>) = (c', ms) \<and>
    cl_queue c' = [makeControl 0 1 0 0 0 0 [] True] @ replicate 1000 (demo_media 1) \<and>
    cl_dropped c' = 0"
    using stuck_queue_unbounded [of "(Client_init 5 [])\<lparr>cl_want_video := True,
        cl_queue := [makeControl 0 1 0 0 0 0 [] True]\<rparr>" "makeControl 0 1 0 0 0 0 [] True" "[]"
        "Config_default\<lparr>cfg_queue_max_msgs := 2\<rparr>" "replicate 1000 (demo_media 1)"]
    by (simp add: Client_init_def)
  then show ?thesis by auto
qed

end
