(* ===== verification/Base64.thy ===== *)
theory Base64
  imports Prelude "HOL-Library.Char_ord"
begin

text \<open>
  plugins/common/base64.hpp (\<open>encode\<close>, \<open>decode\<close>) and the copy of the decoder in
  core/src/WorkerLink.cpp (\<open>base64_decode\<close>), which is the same code. The decoder's
  accumulator \<open>int buf\<close> is a 32-bit word: it is shifted left at every symbol and its high
  bits are lost, which the round trip shows to be harmless.
\<close>

definition b64_tbl :: string where
  "b64_tbl = ''ABCDEFGHIJKLMNOPQRSTUVWXYZabcdefghijklmnopqrstuvwxyz0123456789+/''"

definition b64_sym :: "u32 \<Rightarrow> nat \<Rightarrow> char" where
  "b64_sym n shift = b64_tbl ! unat (drop_bit shift n AND 63)"

fun b64_encode :: "bytes \<Rightarrow> string" where
  "b64_encode (a # b # c # rest) =
     (let n = push_bit 16 (ucast a) OR push_bit 8 (ucast b) OR (ucast c :: u32)
      in b64_sym n 18 # b64_sym n 12 # b64_sym n 6 # b64_sym n 0 # b64_encode rest)"
| "b64_encode [a, b] =
     (let n = push_bit 16 (ucast a) OR (push_bit 8 (ucast b) :: u32)
      in [b64_sym n 18, b64_sym n 12, b64_sym n 6, CHR ''=''])"
| "b64_encode [a] =
     (let n = push_bit 16 (ucast a) :: u32
      in [b64_sym n 18, b64_sym n 12, CHR ''='', CHR ''=''])"
| "b64_encode [] = []"

definition b64_val :: "char \<Rightarrow> int" where
  "b64_val c =
     (if c \<ge> CHR ''A'' \<and> c \<le> CHR ''Z'' then of_char c - 65
      else if c \<ge> CHR ''a'' \<and> c \<le> CHR ''z'' then of_char c - 97 + 26
      else if c \<ge> CHR ''0'' \<and> c \<le> CHR ''9'' then of_char c - 48 + 52
      else if c = CHR ''+'' then 62
      else if c = CHR ''/'' then 63
      else -1)"

fun b64_decode_loop :: "string \<Rightarrow> u32 \<Rightarrow> nat \<Rightarrow> bytes \<Rightarrow> bytes" where
  "b64_decode_loop [] buf bits out = out"
| "b64_decode_loop (c # cs) buf bits out =
     (if c = CHR ''='' then out
      else let v = b64_val c in
        if v < 0 then b64_decode_loop cs buf bits out
        else let buf = push_bit 6 buf OR of_int v; bits = bits + 6 in
          if bits \<ge> 8
          then let bits = bits - 8 in
            b64_decode_loop cs buf bits (out @ [ucast (signed_drop_bit bits buf AND 0xff)])
          else b64_decode_loop cs buf bits out)"

definition b64_decode :: "string \<Rightarrow> bytes" where
  "b64_decode inp = b64_decode_loop inp 0 0 []"

text \<open>The copy of the decoder in core/src/WorkerLink.cpp.\<close>

definition base64_decode :: "string \<Rightarrow> bytes" where
  "base64_decode inp = b64_decode_loop inp 0 0 []"

lemma base64_decode_eq [simp]: "base64_decode = b64_decode"
  by (rule ext) (simp add: base64_decode_def b64_decode_def)

section \<open>Symbols\<close>

lemma b64_val_tbl_all: "list_all (\<lambda>i. b64_val (b64_tbl ! i) = int i \<and> b64_tbl ! i \<noteq> CHR ''='') [0..<64]"
  by code_simp

lemma b64_sym_val [simp]:
  "b64_val (b64_sym n s) = int (unat (drop_bit s n AND 63))" "b64_sym n s \<noteq> CHR ''=''"
proof -
  have "drop_bit s n AND 63 = take_bit 6 (drop_bit s n)"
    by (simp add: take_bit_eq_mask mask_eq_exp_minus_1)
  then have "unat (drop_bit s n AND 63) < 2 ^ 6"
    by (simp only: unsigned_take_bit_eq take_bit_nat_less_exp)
  then have "unat (drop_bit s n AND 63) \<in> set [0..<64]" by simp
  then show "b64_val (b64_sym n s) = int (unat (drop_bit s n AND 63))" "b64_sym n s \<noteq> CHR ''=''"
    using b64_val_tbl_all unfolding b64_sym_def list_all_iff by blast+
qed

lemma bit_63 [simp]: "bit (63 :: u32) n \<longleftrightarrow> n < 6"
proof -
  have "(63 :: u32) = mask 6" by (simp add: mask_eq_exp_minus_1)
  then show ?thesis by (simp only: bit_mask_iff) auto
qed

text \<open>The three word operations of the decoder, kept folded in the proofs.\<close>

definition b64_six :: "u32 \<Rightarrow> nat \<Rightarrow> u32" where "b64_six n s = drop_bit s n AND 63"
definition b64_push :: "u32 \<Rightarrow> u32 \<Rightarrow> u32" where "b64_push buf v = push_bit 6 buf OR v"
definition b64_out :: "nat \<Rightarrow> u32 \<Rightarrow> u8" where
  "b64_out bits buf = ucast (signed_drop_bit bits buf AND 0xff)"

lemma bit_b64_six: "bit (b64_six n s) i \<longleftrightarrow> i < 6 \<and> bit n (s + i)"
  by (simp only: b64_six_def bit_and_iff bit_drop_bit_eq bit_63 o_def) blast

lemma bit_b64_push: "bit (b64_push buf v) i \<longleftrightarrow> i < 32 \<and> (6 \<le> i \<and> bit buf (i - 6) \<or> bit v i)"
  by (auto simp: b64_push_def bit_or_iff bit_push_bit_iff dest: bit_imp_le_length)

lemma bit_b64_out: "bits \<le> 8 \<Longrightarrow> bit (b64_out bits buf) i \<longleftrightarrow> i < 8 \<and> bit buf (bits + i)"
  by (auto simp: b64_out_def bit_ucast_iff bit_and_iff bit_signed_drop_bit_iff)

lemma b64_decode_sym:
  "b64_decode_loop (b64_sym n s # cs) buf bits out =
     (let buf = b64_push buf (b64_six n s) in
      if bits + 6 \<ge> 8
      then b64_decode_loop cs buf (bits + 6 - 8) (out @ [b64_out (bits + 6 - 8) buf])
      else b64_decode_loop cs buf (bits + 6) out)"
  by (simp add: Let_def b64_push_def b64_six_def b64_out_def)

declare b64_decode_loop.simps(2) [simp del]

lemma b64_decode_loop_eq [simp]: "b64_decode_loop (CHR ''='' # cs) buf bits out = out"
  by (simp add: b64_decode_loop.simps)

section \<open>One group of four symbols\<close>

text \<open>Each output byte only reads bits of the symbols just shifted in, whatever \<open>buf\<close> held.\<close>

lemma b64_byte1:
  assumes "\<And>i. i < 8 \<Longrightarrow> bit n (16 + i) = bit a i"
  shows "b64_out 4 (b64_push (b64_push buf (b64_six n 18)) (b64_six n 12)) = a"
proof (rule bit_word_eqI)
  fix i assume "i < LENGTH(8)"
  then have i: "i < 8" by simp
  have e: "12 + (4 + i) = 16 + i" by simp
  have f: "18 + (4 + i - 6) = 16 + i" if "\<not> 4 + i < 6" using that by simp
  show "bit (b64_out 4 (b64_push (b64_push buf (b64_six n 18)) (b64_six n 12))) i = bit a i"
    using i assms [OF i] f
    by (cases "4 + i < 6") (simp_all only: bit_b64_out bit_b64_push bit_b64_six e, auto)
qed

lemma b64_byte2:
  assumes "\<And>i. i < 8 \<Longrightarrow> bit n (8 + i) = bit a i"
  shows "b64_out 2 (b64_push (b64_push buf (b64_six n 12)) (b64_six n 6)) = a"
proof (rule bit_word_eqI)
  fix i assume "i < LENGTH(8)"
  then have i: "i < 8" by simp
  have e: "6 + (2 + i) = 8 + i" by simp
  have f: "12 + (2 + i - 6) = 8 + i" if "\<not> 2 + i < 6" using that by simp
  show "bit (b64_out 2 (b64_push (b64_push buf (b64_six n 12)) (b64_six n 6))) i = bit a i"
    using i assms [OF i] f
    by (cases "2 + i < 6") (simp_all only: bit_b64_out bit_b64_push bit_b64_six e, auto)
qed

lemma b64_byte3:
  assumes "\<And>i. i < 8 \<Longrightarrow> bit n (0 + i) = bit a i"
  shows "b64_out 0 (b64_push (b64_push buf (b64_six n 6)) (b64_six n 0)) = a"
proof (rule bit_word_eqI)
  fix i assume "i < LENGTH(8)"
  then have i: "i < 8" by simp
  have e: "0 + (0 + i) = 0 + i" by simp
  have f: "6 + (0 + i - 6) = 0 + i" if "\<not> 0 + i < 6" using that by simp
  show "bit (b64_out 0 (b64_push (b64_push buf (b64_six n 6)) (b64_six n 0))) i = bit a i"
    using i assms [OF i] f
    by (cases "0 + i < 6") (simp_all only: bit_b64_out bit_b64_push bit_b64_six e, auto)
qed

lemma b64_group3:
  "\<exists>buf'. b64_decode_loop (b64_encode (a # b # c # rest)) buf 0 out =
     b64_decode_loop (b64_encode rest) buf' 0 (out @ [a, b, c])"
proof -
  define n :: u32 where "n = push_bit 16 (ucast a) OR push_bit 8 (ucast b) OR ucast c"
  have a: "\<And>i. i < 8 \<Longrightarrow> bit n (16 + i) = bit a i"
    and b: "\<And>i. i < 8 \<Longrightarrow> bit n (8 + i) = bit b i"
    and c: "\<And>i. i < 8 \<Longrightarrow> bit n (0 + i) = bit c i"
    by (auto simp: n_def bit_simps)
  show ?thesis
    by (simp add: n_def [symmetric] Let_def b64_decode_sym
        b64_byte1 [OF a] b64_byte2 [OF b] b64_byte3 [OF c]) blast
qed

lemma b64_group2: "b64_decode_loop (b64_encode [a, b]) buf 0 out = out @ [a, b]"
proof -
  define n :: u32 where "n = push_bit 16 (ucast a) OR push_bit 8 (ucast b)"
  have a: "\<And>i. i < 8 \<Longrightarrow> bit n (16 + i) = bit a i"
    and b: "\<And>i. i < 8 \<Longrightarrow> bit n (8 + i) = bit b i"
    by (auto simp: n_def bit_simps)
  show ?thesis
    by (simp add: n_def [symmetric] Let_def b64_decode_sym b64_byte1 [OF a] b64_byte2 [OF b])
qed

lemma b64_group1: "b64_decode_loop (b64_encode [a]) buf 0 out = out @ [a]"
proof -
  define n :: u32 where "n = push_bit 16 (ucast a)"
  have a: "\<And>i. i < 8 \<Longrightarrow> bit n (16 + i) = bit a i"
    by (auto simp: n_def bit_simps)
  show ?thesis
    by (simp add: n_def [symmetric] Let_def b64_decode_sym b64_byte1 [OF a])
qed

lemma b64_decode_loop_encode: "b64_decode_loop (b64_encode d) buf 0 out = out @ d"
proof (induction d arbitrary: buf out rule: b64_encode.induct)
  case (1 a b c rest)
  from b64_group3 [of a b c rest buf out] obtain buf' where
    "b64_decode_loop (b64_encode (a # b # c # rest)) buf 0 out =
       b64_decode_loop (b64_encode rest) buf' 0 (out @ [a, b, c])" by blast
  with "1.IH" show ?case by simp
qed (use b64_group2 b64_group1 in simp_all)

lemma length_b64_encode: "length (b64_encode d) = (length d + 2) div 3 * 4"
proof (induction d rule: b64_encode.induct)
  case (1 a b c rest)
  have "(length rest + 3 + 2) div 3 = Suc ((length rest + 2) div 3)" by linarith
  with 1 show ?case by (simp add: Let_def)
qed (simp_all add: Let_def)

text \<open>Decoding an encoded buffer returns it, for every buffer and every length modulo
  three, although the decoder's 32-bit accumulator overflows on the way; and the encoder's
  output has the length its \<open>reserve\<close> computes.\<close>

theorem base64_roundtrip:
  "b64_decode (b64_encode d) = d \<and> length (b64_encode d) = (length d + 2) div 3 * 4"
  by (simp add: b64_decode_def b64_decode_loop_encode length_b64_encode)

end
