(* ===== verification/Worker_Link.thy ===== *)
theory Worker_Link
  imports Link_Client Json_Api Base64
begin

text \<open>
  The producer side of the worker link: core/include/zm/WorkerLink.hpp and
  core/src/WorkerLink.cpp, on the clients of Link_Client. Every operation here runs under
  \<open>mutex_\<close> in the code and is one step. \<open>lk_clients\<close> lists \<open>clients_\<close> in its iteration order.
  Time stamps and the results of system calls are arguments. \<open>allowed_uids\<close>, \<open>group\<close> and
  \<open>stall_timeout\<close> of the code's \<open>Config\<close> are never read.
\<close>

section \<open>Event codes\<close>

definition wire_stream :: "u32 \<Rightarrow> u8" where
  "wire_stream internal = (if internal = 2 then stream_id_code Audio else stream_id_code Video)"

definition map_event_code :: "string \<Rightarrow> string \<Rightarrow> u16" where
  "map_event_code type event =
     (if type = ''connection_failed'' then kEventConnectionFailed
      else if type = ''connection_restored'' then kEventConnectionRestored
      else if type = ''prime_capture_failed'' then kEventPrimeCaptureFailed
      else if type = ''prime_capture_restored'' then kEventPrimeCaptureRestored
      else if type = ''capture_failed'' then kEventCaptureFailed
      else if type = ''capture_resumed'' then kEventCaptureResumed
      else if type = ''state_changed'' then kEventStateChanged
      else if type = ''motion'' \<or> type = ''zone_motion'' \<or> type = ''detection'' then kEventDetection
      else if type = ''description'' then kEventDescription
      else if type = ''review_assets'' then kEventReviewAssets
      else if event = ''EventClip'' then kEventRecordingSaved
      else if event = ''RecordingOpening'' then kEventRecordingOpening
      else 0)"

definition is_ai_code :: "u16 \<Rightarrow> bool" where
  "is_ai_code code \<longleftrightarrow> code = kEventDetection \<or> code = kEventDescription \<or>
     code = kEventRecordingSaved \<or> code = kEventRecordingOpening \<or> code = kEventReviewAssets"

section \<open>State\<close>

record link =
  lk_cfg :: Config
  lk_running :: bool
  lk_listen :: bool        \<comment> \<open>\<open>listen_fd_ >= 0\<close>\<close>
  lk_path_bound :: bool    \<comment> \<open>a socket of this object stands at \<open>socket_path_\<close>\<close>
  lk_clients :: "Client list"
  lk_event_sequence :: u32
  lk_sequence_video :: u32
  lk_sequence_audio :: u32
  lk_generation :: u32
  lk_snapshot :: "Message option"
  lk_hello_video :: "Message option"
  lk_hello_audio :: "Message option"
  lk_keyframe :: "Message option"
  lk_hello_video_body :: bytes
  lk_hello_audio_body :: bytes
  lk_last_stats :: int

definition link_init :: "Config \<Rightarrow> link" where
  "link_init cfg = \<lparr>lk_cfg = cfg, lk_running = False, lk_listen = False, lk_path_bound = False,
     lk_clients = [], lk_event_sequence = 0, lk_sequence_video = 0, lk_sequence_audio = 0,
     lk_generation = 0, lk_snapshot = None, lk_hello_video = None, lk_hello_audio = None,
     lk_keyframe = None, lk_hello_video_body = [], lk_hello_audio_body = [], lk_last_stats = 0\<rparr>"

section \<open>Broadcast\<close>

definition reapDead :: "link \<Rightarrow> link" where
  "reapDead lk = lk\<lparr>lk_clients := filter (\<lambda>c. \<not> cl_dead c) (lk_clients lk)\<rparr>"

definition enqueue :: "Message \<Rightarrow> bool \<Rightarrow> bool \<Rightarrow> bool \<Rightarrow> link \<Rightarrow> link" where
  "enqueue msg video audio events lk =
     reapDead (lk\<lparr>lk_clients := map (enqueue_client (lk_cfg lk) msg video audio events) (lk_clients lk)\<rparr>)"

text \<open>The lambda \<open>push\<close> of \<open>acceptClient\<close> and of the Subscribe case.\<close>

definition push_opt :: "Message option \<Rightarrow> Client \<Rightarrow> Client" where
  "push_opt m c = (case m of None \<Rightarrow> c | Some m \<Rightarrow> push_msg m c)"

text \<open>\<open>accept\<close> gave the descriptor \<open>fd\<close>; \<open>writes\<close> are what its socket answers to \<open>writev\<close>.\<close>

definition acceptClient :: "nat \<Rightarrow> write_result list \<Rightarrow> link \<Rightarrow> link" where
  "acceptClient fd writes lk =
     (if length (lk_clients lk) \<ge> cfg_max_clients (lk_cfg lk) then lk
      else let c = (Client_init fd writes)
                     \<lparr>cl_want_video := True, cl_want_audio := True, cl_want_events := True\<rparr>;
               c = push_opt (lk_hello_video lk) c;
               c = push_opt (lk_hello_audio lk) c;
               c = push_opt (lk_snapshot lk) c;
               c = push_opt (lk_keyframe lk) c
           in lk\<lparr>lk_clients := lk_clients lk @ [onClientWritable c]\<rparr>)"

section \<open>Media\<close>

definition next_sequence :: "u8 \<Rightarrow> link \<Rightarrow> u32 \<times> link" where
  "next_sequence wstream lk =
     (if wstream = stream_id_code Video
      then (lk_sequence_video lk, lk\<lparr>lk_sequence_video := lk_sequence_video lk + 1\<rparr>)
      else (lk_sequence_audio lk, lk\<lparr>lk_sequence_audio := lk_sequence_audio lk + 1\<rparr>))"

definition sendMedia :: "u32 \<Rightarrow> bool \<Rightarrow> u64 \<Rightarrow> bytes option \<Rightarrow> link \<Rightarrow> link" where
  "sendMedia stream keyframe pts_us payload lk =
     (if \<not> lk_running lk \<or> payload = None \<or> payload = Some [] then lk
      else let wstream = wire_stream stream;
               is_video = (wstream = stream_id_code Video);
               video_keyframe = (keyframe \<and> is_video);
               flags = (if video_keyframe then kFlagKeyframe else 0);
               (seq, lk) = next_sequence wstream lk;
               lk = (if video_keyframe
                     then lk\<lparr>lk_keyframe := Some (makeMedia (lk_generation lk)
                            (message_type_code Keyframe) wstream flags seq pts_us payload)\<rparr>
                     else lk)
           in if lk_clients lk = [] then lk
              else enqueue (makeMedia (lk_generation lk) (message_type_code Media) wstream flags
                              seq pts_us payload) is_video (\<not> is_video) False lk)"

section \<open>Codec parameters\<close>

definition make_hello :: "link \<Rightarrow> u8 \<Rightarrow> bytes \<Rightarrow> Message" where
  "make_hello lk wstream body =
     makeControl (lk_generation lk) (message_type_code Hello) wstream 0 0 0 body True"

definition setStreamParams ::
  "u32 \<Rightarrow> u32 \<Rightarrow> bytes option \<Rightarrow> u32 \<Rightarrow> u32 \<Rightarrow> u32 \<Rightarrow> u32 \<Rightarrow> u32 \<Rightarrow> u32 \<Rightarrow> link \<Rightarrow> link" where
  "setStreamParams stream codec_id extradata width height fps_num fps_den sample_rate channels lk =
     (let body = BuildHello codec_id extradata width height fps_num fps_den sample_rate channels;
          wstream = wire_stream stream;
          isAudio = (wstream = stream_id_code Audio);
          cached = (if isAudio then lk_hello_audio_body lk else lk_hello_video_body lk)
      in if body = cached then lk
         else let reconfigure = (cached \<noteq> []);
                  lk = (if reconfigure
                        then lk\<lparr>lk_generation := lk_generation lk + 1, lk_sequence_video := 0,
                                lk_sequence_audio := 0, lk_keyframe := None\<rparr>
                        else lk);
                  lk = (if isAudio then lk\<lparr>lk_hello_audio_body := body\<rparr>
                        else lk\<lparr>lk_hello_video_body := body\<rparr>);
                  hello = make_hello lk wstream body;
                  lk = (if isAudio then lk\<lparr>lk_hello_audio := Some hello\<rparr>
                        else lk\<lparr>lk_hello_video := Some hello\<rparr>);
                  lk = enqueue hello (\<not> isAudio) isAudio False lk
              in if \<not> reconfigure then lk
                 else if isAudio \<and> lk_hello_video_body lk \<noteq> [] then
                   let h = make_hello lk (stream_id_code Video) (lk_hello_video_body lk)
                   in enqueue h True False False (lk\<lparr>lk_hello_video := Some h\<rparr>)
                 else if \<not> isAudio \<and> lk_hello_audio_body lk \<noteq> [] then
                   let h = make_hello lk (stream_id_code Audio) (lk_hello_audio_body lk)
                   in enqueue h False True False (lk\<lparr>lk_hello_audio := Some h\<rparr>)
                 else lk)"

section \<open>Events\<close>

text \<open>\<open>now\<close> is \<open>now_usec()\<close>. The members that \<open>contains\<close> and \<open>is_string\<close> guard:\<close>

definition json_string_member :: "'j json_api \<Rightarrow> 'j option \<Rightarrow> string \<Rightarrow> string option" where
  "json_string_member J j key =
     (case j of
        None \<Rightarrow> Some []
      | Some j \<Rightarrow>
          (case j_field J j key of
             None \<Rightarrow> Some []
           | Some v \<Rightarrow> if j_is_string J v then j_string J v else Some []))"

definition build_monitor_event :: "u16 \<Rightarrow> u64 \<Rightarrow> string \<Rightarrow> bytes" where
  "build_monitor_event code now raw =
     (let ev = MonitorEvent_init\<lparr>ev_code := code, ev_wall_clock_us := now, ev_has_wall_clock := True\<rparr>;
          ev = (if is_ai_code code then ev\<lparr>ev_json_detail := str_bytes raw\<rparr>
                else ev\<lparr>ev_message := str_bytes raw\<rparr>)
      in BuildEvent ev)"

definition is_health :: "u16 \<Rightarrow> bool" where
  "is_health code \<longleftrightarrow> code \<noteq> 0 \<and> code \<noteq> kEventSnapshot \<and> \<not> is_ai_code code"

definition broadcast_event :: "u16 \<Rightarrow> u64 \<Rightarrow> string \<Rightarrow> link \<Rightarrow> link" where
  "broadcast_event code now raw lk =
     (let msg = makeControl (lk_generation lk) (message_type_code Event) (stream_id_code Monitor) 0
                  (lk_event_sequence lk) 0 (build_monitor_event code now raw) True;
          lk = lk\<lparr>lk_event_sequence := lk_event_sequence lk + 1\<rparr>;
          lk = enqueue msg False False True lk
      in if is_health code then lk\<lparr>lk_snapshot := Some msg\<rparr> else lk)"

text \<open>The StreamMetadata branch: \<open>static_cast<uint32_t>\<close> of an \<open>int\<close> is \<open>of_int\<close>.\<close>

definition publish_metadata :: "'j json_api \<Rightarrow> 'j \<Rightarrow> link \<Rightarrow> link option" where
  "publish_metadata J j lk =
     Option.bind (json_string_member J (Some j) ''extradata'') (\<lambda>extradata.
     Option.bind (j_value_string J j ''media'' ''video'') (\<lambda>media.
     Option.bind (j_value_int J j ''codec_id'' 0) (\<lambda>codec_id.
     Option.bind (j_value_int J j ''width'' 0) (\<lambda>width.
     Option.bind (j_value_int J j ''height'' 0) (\<lambda>height.
     Option.bind (j_value_int J j ''sample_rate'' 0) (\<lambda>sample_rate.
     Option.bind (j_value_int J j ''channels'' 0) (\<lambda>channels.
       Some (setStreamParams (if media = ''audio'' then 2 else 1) (of_int codec_id)
               (Some (base64_decode extradata)) (of_int width) (of_int height) 0 0
               (of_int sample_rate) (of_int channels) lk))))))))"

text \<open>\<open>None\<close>: a type error of the library propagates to the publisher.\<close>

definition publishEventJson :: "'j json_api \<Rightarrow> u64 \<Rightarrow> string \<Rightarrow> link \<Rightarrow> link option" where
  "publishEventJson J now raw lk =
     (if \<not> lk_running lk then Some lk
      else let j = (case j_parse J raw of
                      None \<Rightarrow> None
                    | Some j \<Rightarrow> if j_is_object J j then Some j else None)
      in Option.bind (case j of None \<Rightarrow> Some [] | Some j \<Rightarrow> j_value_string J j ''event'' []) (\<lambda>ev.
           if j \<noteq> None \<and> ev = ''StreamMetadata'' then publish_metadata J (the j) lk
           else
             Option.bind (json_string_member J j ''type'') (\<lambda>type.
             Option.bind (json_string_member J j ''event'') (\<lambda>event.
               Some (broadcast_event (map_event_code type event) now raw lk)))))"

definition setSnapshotJson :: "u64 \<Rightarrow> string \<Rightarrow> link \<Rightarrow> link" where
  "setSnapshotJson now raw lk =
     lk\<lparr>lk_snapshot := Some (makeControl (lk_generation lk) (message_type_code Event)
          (stream_id_code Monitor) 0 (lk_event_sequence lk) 0
          (BuildEvent (MonitorEvent_init\<lparr>ev_code := kEventSnapshot, ev_wall_clock_us := now,
             ev_has_wall_clock := True, ev_message := str_bytes raw\<rparr>)) True)\<rparr>"

section \<open>The invariant of the link\<close>

text \<open>
  Caches that are replayed to a new consumer are never stale: each HELLO is the one of its
  cached body in the current generation, and so is the keyframe.
\<close>

definition hello_cache_ok :: "u32 \<Rightarrow> u8 \<Rightarrow> bytes \<Rightarrow> Message option \<Rightarrow> bool" where
  "hello_cache_ok generation wstream body m \<longleftrightarrow>
     m = (if body = [] then None
          else Some (makeControl generation (message_type_code Hello) wstream 0 0 0 body True))"

definition keyframe_ok :: "u32 \<Rightarrow> Message option \<Rightarrow> bool" where
  "keyframe_ok generation m \<longleftrightarrow>
     (case m of None \<Rightarrow> True
      | Some k \<Rightarrow> \<exists>seq pts p. p \<noteq> [] \<and>
          k = makeMedia generation (message_type_code Keyframe) (stream_id_code Video) kFlagKeyframe
                seq pts (Some p))"

definition snapshot_ok :: "Message option \<Rightarrow> bool" where
  "snapshot_ok m \<longleftrightarrow>
     (case m of None \<Rightarrow> True
      | Some k \<Rightarrow> \<exists>g seq body. k = makeControl g (message_type_code Event) (stream_id_code Monitor)
                               0 seq 0 body True)"

definition caches_ok :: "link \<Rightarrow> bool" where
  "caches_ok lk \<longleftrightarrow>
     hello_cache_ok (lk_generation lk) (stream_id_code Video) (lk_hello_video_body lk) (lk_hello_video lk) \<and>
     hello_cache_ok (lk_generation lk) (stream_id_code Audio) (lk_hello_audio_body lk) (lk_hello_audio lk) \<and>
     keyframe_ok (lk_generation lk) (lk_keyframe lk) \<and> snapshot_ok (lk_snapshot lk)"

definition clients_ok :: "link \<Rightarrow> bool" where
  "clients_ok lk \<longleftrightarrow> (\<forall>c \<in> set (lk_clients lk). client_ok c) \<and> distinct (map cl_fd (lk_clients lk)) \<and>
     length (lk_clients lk) \<le> cfg_max_clients (lk_cfg lk)"

definition link_ok :: "link \<Rightarrow> bool" where
  "link_ok lk \<longleftrightarrow> caches_ok lk \<and> clients_ok lk"

lemma wire_size_control_pos [simp]: "0 < wire_size (makeControl g t s f q p body c)"
  using kHeaderSize_le_wire(1) [of g t s f q p body c] by (simp add: kHeaderSize_def)

lemma wire_size_media_pos [simp]: "0 < wire_size (makeMedia g t s f q p b)"
  using kHeaderSize_le_wire(2) [of g t s f q p b] by (simp add: kHeaderSize_def)

lemma wire_size_hello_pos [simp]: "0 < wire_size (make_hello lk s b)"
  by (simp add: make_hello_def)

text \<open>A broadcast only changes the clients.\<close>

lemma enqueue_frame [simp]:
  "lk_cfg (enqueue m v a e lk) = lk_cfg lk" "lk_running (enqueue m v a e lk) = lk_running lk"
  "lk_event_sequence (enqueue m v a e lk) = lk_event_sequence lk"
  "lk_sequence_video (enqueue m v a e lk) = lk_sequence_video lk"
  "lk_sequence_audio (enqueue m v a e lk) = lk_sequence_audio lk"
  "lk_generation (enqueue m v a e lk) = lk_generation lk"
  "lk_snapshot (enqueue m v a e lk) = lk_snapshot lk"
  "lk_hello_video (enqueue m v a e lk) = lk_hello_video lk"
  "lk_hello_audio (enqueue m v a e lk) = lk_hello_audio lk"
  "lk_keyframe (enqueue m v a e lk) = lk_keyframe lk"
  "lk_hello_video_body (enqueue m v a e lk) = lk_hello_video_body lk"
  "lk_hello_audio_body (enqueue m v a e lk) = lk_hello_audio_body lk"
  "lk_last_stats (enqueue m v a e lk) = lk_last_stats lk"
  by (simp_all add: enqueue_def reapDead_def)

lemma caches_ok_enqueue [simp]: "caches_ok (enqueue m v a e lk) = caches_ok lk"
  by (simp add: caches_ok_def)

lemma enqueue_client_fd [simp]:
  assumes "client_ok c" and "0 < wire_size m"
  shows "cl_fd (enqueue_client cfg m v a e c) = cl_fd c"
proof -
  let ?d = "drop_oldest cfg (wire_size m) c"
  from drop_oldest_ok [OF assms(1)] obtain ds where "client_ok ?d" "dropped_from c ?d ds" by blast
  then have "client_ok (push_msg m ?d)" "cl_fd ?d = cl_fd c"
    using assms(2) by (auto simp: push_msg_ok dropped_from_def)
  then show ?thesis
    using same_streamD(3) [OF onClientWritable_same] by (simp add: enqueue_client_def)
qed

lemma clients_ok_map:
  assumes "clients_ok lk" and "\<And>c. c \<in> set (lk_clients lk) \<Longrightarrow> client_ok (f c) \<and> cl_fd (f c) = cl_fd c"
  shows "clients_ok (lk\<lparr>lk_clients := map f (lk_clients lk)\<rparr>)"
proof -
  have "map (cl_fd \<circ> f) (lk_clients lk) = map cl_fd (lk_clients lk)" using assms(2) by simp
  then have "distinct (map (cl_fd \<circ> f) (lk_clients lk))"
    using assms(1) by (simp only: clients_ok_def)
  then show ?thesis using assms by (simp add: clients_ok_def)
qed

lemma clients_ok_reap [inv_intros]: "clients_ok lk \<Longrightarrow> clients_ok (reapDead lk)"
  by (auto simp: clients_ok_def reapDead_def distinct_map_filter intro: le_trans [OF length_filter_le])

lemma clients_ok_enqueue [inv_intros]:
  assumes "clients_ok lk" and "0 < wire_size m"
  shows "clients_ok (enqueue m v a e lk)"
  unfolding enqueue_def
  using assms by (intro clients_ok_reap clients_ok_map) (auto simp: clients_ok_def enqueue_client_ok)

text \<open>The fields that the client invariant does not see.\<close>

lemma clients_ok_transfer:
  "clients_ok lk \<Longrightarrow> lk_clients lk' = lk_clients lk \<Longrightarrow> lk_cfg lk' = lk_cfg lk \<Longrightarrow> clients_ok lk'"
  by (simp add: clients_ok_def)

lemma push_opt_ok: "client_ok c \<Longrightarrow> (\<And>k. m = Some k \<Longrightarrow> 0 < wire_size k) \<Longrightarrow> client_ok (push_opt m c)"
  by (auto simp: push_opt_def push_msg_ok split: option.split)

lemma push_opt_sel [simp]:
  "cl_queue (push_opt m c) = cl_queue c @ (case m of None \<Rightarrow> [] | Some k \<Rightarrow> [k])"
  "cl_written (push_opt m c) = cl_written c" "cl_fd (push_opt m c) = cl_fd c"
  "cl_dropped (push_opt m c) = cl_dropped c" "cl_dead (push_opt m c) = cl_dead c"
  "cl_want_video (push_opt m c) = cl_want_video c" "cl_want_audio (push_opt m c) = cl_want_audio c"
  "cl_want_events (push_opt m c) = cl_want_events c"
  by (simp_all add: push_opt_def split: option.split)

lemma caches_wire_size:
  assumes "caches_ok lk"
  shows "lk_hello_video lk = Some m \<Longrightarrow> 0 < wire_size m" "lk_hello_audio lk = Some m \<Longrightarrow> 0 < wire_size m"
    "lk_snapshot lk = Some m \<Longrightarrow> 0 < wire_size m" "lk_keyframe lk = Some m \<Longrightarrow> 0 < wire_size m"
  using assms
  by (auto simp: caches_ok_def hello_cache_ok_def keyframe_ok_def snapshot_ok_def
      split: if_splits option.splits)

definition joining :: "nat \<Rightarrow> write_result list \<Rightarrow> link \<Rightarrow> Client" where
  "joining fd writes lk =
     push_opt (lk_keyframe lk) (push_opt (lk_snapshot lk) (push_opt (lk_hello_audio lk)
       (push_opt (lk_hello_video lk) ((Client_init fd writes)
          \<lparr>cl_want_video := True, cl_want_audio := True, cl_want_events := True\<rparr>))))"

lemma acceptClient_joining:
  "acceptClient fd writes lk =
     (if length (lk_clients lk) \<ge> cfg_max_clients (lk_cfg lk) then lk
      else lk\<lparr>lk_clients := lk_clients lk @ [onClientWritable (joining fd writes lk)]\<rparr>)"
  by (simp add: acceptClient_def joining_def Let_def)

lemma joining_ok:
  assumes "caches_ok lk"
  shows "client_ok (joining fd writes lk)"
proof -
  have "client_ok ((Client_init fd writes)
      \<lparr>cl_want_video := True, cl_want_audio := True, cl_want_events := True\<rparr>)"
    by (simp add: client_ok_def Client_init_def pending_def)
  then show ?thesis
    unfolding joining_def using caches_wire_size [OF assms] by (intro push_opt_ok) auto
qed

lemma acceptClient_ok [inv_intros]:
  assumes "link_ok lk" and "fd \<notin> cl_fd ` set (lk_clients lk)"
  shows "link_ok (acceptClient fd writes lk)"
proof (cases "length (lk_clients lk) \<ge> cfg_max_clients (lk_cfg lk)")
  case False
  have j: "client_ok (joining fd writes lk)" using assms by (simp add: link_ok_def joining_ok)
  have "cl_fd (onClientWritable (joining fd writes lk)) = fd"
    using same_streamD(3) [OF onClientWritable_same [OF j]] by (simp add: joining_def Client_init_def)
  then show ?thesis
    using assms False j onClientWritable_ok [OF j]
    by (auto simp: acceptClient_joining link_ok_def clients_ok_def caches_ok_def)
qed (use assms in \<open>simp add: acceptClient_joining\<close>)

lemma next_sequence_ok:
  "next_sequence w lk = (q, lk') \<Longrightarrow> link_ok lk' = link_ok lk \<and> lk_clients lk' = lk_clients lk \<and>
     lk_cfg lk' = lk_cfg lk \<and> lk_generation lk' = lk_generation lk"
  by (auto simp: next_sequence_def link_ok_def clients_ok_def caches_ok_def split: if_splits)

lemma link_ok_keyframe:
  "link_ok lk \<Longrightarrow> p \<noteq> [] \<Longrightarrow>
   link_ok (lk\<lparr>lk_keyframe := Some (makeMedia (lk_generation lk) (message_type_code Keyframe)
     (stream_id_code Video) kFlagKeyframe q pts (Some p))\<rparr>)"
  by (auto simp: link_ok_def caches_ok_def clients_ok_def keyframe_ok_def)

lemma sendMedia_ok [inv_intros]:
  assumes "link_ok lk"
  shows "link_ok (sendMedia stream keyframe pts payload lk)"
proof (cases "\<not> lk_running lk \<or> payload = None \<or> payload = Some []")
  case True
  with assms show ?thesis by (simp add: sendMedia_def)
next
  case False
  then obtain p where p: "payload = Some p" "p \<noteq> []" by auto
  let ?w = "wire_stream stream"
  obtain q lk1 where n: "next_sequence ?w lk = (q, lk1)" by (cases "next_sequence ?w lk")
  have ok1: "link_ok lk1" using next_sequence_ok [OF n] assms by simp
  define vk where "vk \<longleftrightarrow> keyframe \<and> ?w = stream_id_code Video"
  define lk2 where "lk2 = (if vk then lk1\<lparr>lk_keyframe := Some (makeMedia (lk_generation lk1)
    (message_type_code Keyframe) ?w (if vk then kFlagKeyframe else 0) q pts payload)\<rparr> else lk1)"
  have ok2: "link_ok lk2"
    using link_ok_keyframe [OF ok1 p(2), of q pts] ok1 p by (auto simp: lk2_def vk_def)
  have e: "sendMedia stream keyframe pts payload lk =
      (if lk_clients lk2 = [] then lk2
       else enqueue (makeMedia (lk_generation lk2) (message_type_code Media) ?w
         (if vk then kFlagKeyframe else 0) q pts payload) (?w = stream_id_code Video)
         (?w \<noteq> stream_id_code Video) False lk2)"
    using False n p by (simp add: sendMedia_def Let_def lk2_def vk_def)
  show ?thesis
    unfolding e using ok2 by (auto simp: link_ok_def clients_ok_enqueue)
qed

lemma BuildHello_not_nil [simp]: "BuildHello c e w h n d s ch \<noteq> []"
  by (simp add: BuildHello_tlvs hello_tlv_list_def)

text \<open>The stages of \<open>setStreamParams\<close>: the new body with its HELLO, then the other stream's.\<close>

definition params_bump :: "bool \<Rightarrow> link \<Rightarrow> link" where
  "params_bump reconfigure lk =
     (if reconfigure
      then lk\<lparr>lk_generation := lk_generation lk + 1, lk_sequence_video := 0,
              lk_sequence_audio := 0, lk_keyframe := None\<rparr> else lk)"

definition params_store :: "bool \<Rightarrow> bytes \<Rightarrow> link \<Rightarrow> link" where
  "params_store isAudio body lk =
     (if isAudio then lk\<lparr>lk_hello_audio_body := body, lk_hello_audio := Some (make_hello lk (stream_id_code Audio) body)\<rparr>
      else lk\<lparr>lk_hello_video_body := body, lk_hello_video := Some (make_hello lk (stream_id_code Video) body)\<rparr>)"

definition params_reissue :: "bool \<Rightarrow> link \<Rightarrow> link" where
  "params_reissue isAudio lk =
     (if isAudio \<and> lk_hello_video_body lk \<noteq> [] then
        enqueue (make_hello lk (stream_id_code Video) (lk_hello_video_body lk)) True False False
          (lk\<lparr>lk_hello_video := Some (make_hello lk (stream_id_code Video) (lk_hello_video_body lk))\<rparr>)
      else if \<not> isAudio \<and> lk_hello_audio_body lk \<noteq> [] then
        enqueue (make_hello lk (stream_id_code Audio) (lk_hello_audio_body lk)) False True False
          (lk\<lparr>lk_hello_audio := Some (make_hello lk (stream_id_code Audio) (lk_hello_audio_body lk))\<rparr>)
      else lk)"

lemma stream_codes [simp]:
  "stream_id_code Audio \<noteq> stream_id_code Video" "stream_id_code Video \<noteq> stream_id_code Audio"
  by simp_all

lemma wire_stream_cases: "wire_stream n = stream_id_code Video \<or> wire_stream n = stream_id_code Audio"
  by (simp add: wire_stream_def)

lemma make_hello_generation:
  "lk_generation lk' = lk_generation lk \<Longrightarrow> make_hello lk' s b = make_hello lk s b"
  by (simp add: make_hello_def)

lemma setStreamParams_stages:
  defines "isAudio \<equiv> (\<lambda>stream. wire_stream stream = stream_id_code Audio)"
  shows "setStreamParams stream c e w h n d s ch lk =
    (let body = BuildHello c e w h n d s ch;
         cached = (if isAudio stream then lk_hello_audio_body lk else lk_hello_video_body lk)
     in if body = cached then lk
        else let lk1 = params_store (isAudio stream) body (params_bump (cached \<noteq> []) lk);
                 lk2 = enqueue (make_hello lk1 (wire_stream stream) body) (\<not> isAudio stream)
                         (isAudio stream) False lk1
             in if cached \<noteq> [] then params_reissue (isAudio stream) lk2 else lk2)"
  using wire_stream_cases [of stream]
  by (auto simp: setStreamParams_def Let_def params_store_def params_bump_def params_reissue_def
      make_hello_def isAudio_def simp del: stream_id_code.simps)

lemma params_store_sel [simp]:
  "lk_clients (params_store a b lk) = lk_clients lk" "lk_cfg (params_store a b lk) = lk_cfg lk"
  "lk_generation (params_store a b lk) = lk_generation lk"
  "lk_keyframe (params_store a b lk) = lk_keyframe lk" "lk_snapshot (params_store a b lk) = lk_snapshot lk"
  "lk_running (params_store a b lk) = lk_running lk"
  "lk_sequence_video (params_store a b lk) = lk_sequence_video lk"
  "lk_sequence_audio (params_store a b lk) = lk_sequence_audio lk"
  "lk_event_sequence (params_store a b lk) = lk_event_sequence lk"
  by (simp_all add: params_store_def)

lemma params_bump_sel [simp]:
  "lk_clients (params_bump r lk) = lk_clients lk" "lk_cfg (params_bump r lk) = lk_cfg lk"
  "lk_snapshot (params_bump r lk) = lk_snapshot lk" "lk_running (params_bump r lk) = lk_running lk"
  "lk_hello_video (params_bump r lk) = lk_hello_video lk"
  "lk_hello_audio (params_bump r lk) = lk_hello_audio lk"
  "lk_hello_video_body (params_bump r lk) = lk_hello_video_body lk"
  "lk_hello_audio_body (params_bump r lk) = lk_hello_audio_body lk"
  "lk_event_sequence (params_bump r lk) = lk_event_sequence lk"
  by (simp_all add: params_bump_def)

lemma params_reissue_clients:
  "clients_ok lk \<Longrightarrow> clients_ok (params_reissue a lk)"
proof -
  assume c: "clients_ok lk"
  have "clients_ok (lk\<lparr>lk_hello_video := x\<rparr>)" "clients_ok (lk\<lparr>lk_hello_audio := x\<rparr>)" for x
    by (rule clients_ok_transfer [OF c]; simp)+
  with c show ?thesis by (simp add: params_reissue_def clients_ok_enqueue)
qed

definition other_body :: "bool \<Rightarrow> link \<Rightarrow> bytes" where
  "other_body isAudio lk = (if isAudio then lk_hello_video_body lk else lk_hello_audio_body lk)"

lemma params_store_caches:
  assumes "caches_ok lk" and "body \<noteq> []" and "\<not> r \<or> other_body a lk = []"
  shows "caches_ok (params_store a body (params_bump r lk))"
  using assms
  by (cases r; cases a)
    (auto simp: caches_ok_def params_store_def params_bump_def hello_cache_ok_def make_hello_def
      keyframe_ok_def other_body_def)

lemma params_reissue_caches:
  assumes "caches_ok lk" and "body \<noteq> []"
  shows "caches_ok (params_reissue a (enqueue m v x e (params_store a body (params_bump True lk))))"
proof -
  have "caches_ok (params_store a body (params_bump True lk))" if "other_body a lk = []"
    using params_store_caches [OF assms] that by blast
  then show ?thesis
    using assms
    by (cases a; cases "other_body a lk = []")
      (auto simp: params_reissue_def caches_ok_def params_store_def params_bump_def
        hello_cache_ok_def make_hello_def keyframe_ok_def other_body_def)
qed

lemma setStreamParams_ok [inv_intros]:
  assumes "link_ok lk"
  shows "link_ok (setStreamParams stream c e w h n d s ch lk)"
proof -
  define a where "a \<longleftrightarrow> wire_stream stream = stream_id_code Audio"
  define body where "body = BuildHello c e w h n d s ch"
  define cached where "cached = (if a then lk_hello_audio_body lk else lk_hello_video_body lk)"
  define lk1 where "lk1 = params_store a body (params_bump (cached \<noteq> []) lk)"
  define lk2 where "lk2 = enqueue (make_hello lk1 (wire_stream stream) body) (\<not> a) a False lk1"
  have e: "setStreamParams stream c e w h n d s ch lk =
      (if body = cached then lk else if cached \<noteq> [] then params_reissue a lk2 else lk2)"
    unfolding setStreamParams_stages Let_def a_def body_def cached_def lk1_def lk2_def by simp
  have nb: "body \<noteq> []" by (simp add: body_def)
  have cl1: "clients_ok lk1"
    using assms unfolding link_ok_def lk1_def by (auto elim!: clients_ok_transfer)
  have cl2: "clients_ok lk2" unfolding lk2_def by (rule clients_ok_enqueue [OF cl1]) simp
  have cl3: "clients_ok (params_reissue a lk2)" by (rule params_reissue_clients [OF cl2])
  have ca: "caches_ok lk" using assms by (simp add: link_ok_def)
  show ?thesis
  proof (cases "cached = []")
    case True
    then have "caches_ok lk2"
      using params_store_caches [OF ca nb, of False a] by (simp add: lk2_def lk1_def)
    with e True cl2 assms show ?thesis by (simp add: link_ok_def)
  next
    case False
    then have "caches_ok (params_reissue a lk2)"
      using params_reissue_caches [OF ca nb] by (simp add: lk2_def lk1_def)
    with e False cl3 assms show ?thesis by (simp add: link_ok_def)
  qed
qed

lemma broadcast_event_ok [inv_intros]: "link_ok lk \<Longrightarrow> link_ok (broadcast_event code now raw lk)"
proof -
  assume lk: "link_ok lk"
  define msg where "msg = makeControl (lk_generation lk) (message_type_code Event) (stream_id_code Monitor)
    0 (lk_event_sequence lk) 0 (build_monitor_event code now raw) True"
  define lk1 where "lk1 = enqueue msg False False True (lk\<lparr>lk_event_sequence := lk_event_sequence lk + 1\<rparr>)"
  have "clients_ok (lk\<lparr>lk_event_sequence := lk_event_sequence lk + 1\<rparr>)"
    using lk unfolding link_ok_def by (auto elim!: clients_ok_transfer)
  then have "clients_ok lk1" unfolding lk1_def by (rule clients_ok_enqueue) (simp add: msg_def)
  moreover have "caches_ok lk1" using lk by (simp add: lk1_def link_ok_def caches_ok_def)
  ultimately have "link_ok lk1" by (simp add: link_ok_def)
  moreover have "link_ok (lk1\<lparr>lk_snapshot := Some msg\<rparr>)"
    using calculation by (auto simp: link_ok_def caches_ok_def clients_ok_def snapshot_ok_def msg_def)
  ultimately show ?thesis
    by (simp add: broadcast_event_def Let_def msg_def lk1_def)
qed

lemma publishEventJson_ok [inv_intros]:
  assumes "link_ok lk" and "publishEventJson J now raw lk = Some lk'"
  shows "link_ok lk'"
  using assms
  by (auto simp: publishEventJson_def publish_metadata_def Let_def bind_eq_Some_conv inv_intros
      split: if_splits option.splits)

lemma setSnapshotJson_ok [inv_intros]: "link_ok lk \<Longrightarrow> link_ok (setSnapshotJson now raw lk)"
  by (auto simp: setSnapshotJson_def link_ok_def caches_ok_def clients_ok_def snapshot_ok_def)

lemma link_init_ok [simp]: "link_ok (link_init cfg)"
  by (simp add: link_init_def link_ok_def caches_ok_def hello_cache_ok_def keyframe_ok_def
      snapshot_ok_def clients_ok_def)

section \<open>Media messages in a run of sendMedia\<close>

definition media_msg :: "u32 \<Rightarrow> bool \<Rightarrow> u64 \<Rightarrow> bytes \<Rightarrow> link \<Rightarrow> Message" where
  "media_msg stream keyframe pts b lk =
     makeMedia (lk_generation lk) (message_type_code Media) (wire_stream stream)
       (if keyframe \<and> wire_stream stream = stream_id_code Video then kFlagKeyframe else 0)
       (fst (next_sequence (wire_stream stream) lk)) pts (Some b)"

text \<open>The clients after one access unit, whether or not there were any.\<close>

lemma enqueue_no_clients: "lk_clients lk = [] \<Longrightarrow> enqueue m v a e lk = lk"
  by (simp add: enqueue_def reapDead_def)

lemma sendMedia_clients:
  assumes "lk_running lk" and "b \<noteq> []"
  shows "lk_clients (sendMedia stream k pts (Some b) lk) =
    filter (\<lambda>c. \<not> cl_dead c) (map (enqueue_client (lk_cfg lk) (media_msg stream k pts b lk)
      (wire_stream stream = stream_id_code Video) (wire_stream stream \<noteq> stream_id_code Video) False)
      (lk_clients lk))"
  using assms
  by (auto simp: sendMedia_def Let_def media_msg_def next_sequence_def enqueue_def reapDead_def
      split: prod.splits)

lemma sendMedia_counters:
  assumes "lk_running lk" and "b \<noteq> []"
  shows "lk_generation (sendMedia stream k pts (Some b) lk) = lk_generation lk"
    and "lk_running (sendMedia stream k pts (Some b) lk)"
    and "lk_sequence_video (sendMedia stream k pts (Some b) lk) =
      (if wire_stream stream = stream_id_code Video then lk_sequence_video lk + 1 else lk_sequence_video lk)"
    and "lk_sequence_audio (sendMedia stream k pts (Some b) lk) =
      (if wire_stream stream = stream_id_code Video then lk_sequence_audio lk else lk_sequence_audio lk + 1)"
  using assms by (auto simp: sendMedia_def Let_def next_sequence_def)

fun media_log :: "(u32 \<times> bool \<times> u64 \<times> bytes) list \<Rightarrow> link \<Rightarrow> Message list" where
  "media_log [] lk = []"
| "media_log ((s, k, pts, b) # fs) lk =
     (if b = [] then [] else [media_msg s k pts b lk]) @ media_log fs (sendMedia s k pts (Some b) lk)"

definition stream_sequences :: "StreamId \<Rightarrow> Message list \<Rightarrow> u32 list" where
  "stream_sequences w ms = map (\<lambda>m. h_sequence (frame_header m))
     (filter (\<lambda>m. h_stream (frame_header m) = stream_id_code w) ms)"

lemma media_msg_header [simp]:
  "h_sequence (frame_header (media_msg s k pts b lk)) = fst (next_sequence (wire_stream s) lk)"
  "h_stream (frame_header (media_msg s k pts b lk)) = wire_stream s"
  "h_generation (frame_header (media_msg s k pts b lk)) = lk_generation lk"
  by (simp_all add: media_msg_def link_header_def)

lemma sendMedia_empty [simp]: "sendMedia s k pts (Some []) lk = lk"
  by (simp add: sendMedia_def)

lemma upt_shift: "[0..<Suc n] = 0 # map Suc [0..<n]"
  by (metis upt_conv_Cons zero_less_Suc map_Suc_upt)

lemma sequence_run_Suc:
  "map (\<lambda>i. q + of_nat i) [0..<Suc n] = (q :: u32) # map (\<lambda>i. q + 1 + of_nat i) [0..<n]"
  by (simp only: upt_shift list.map map_map o_def) (simp add: add.assoc)

lemma media_log_sequences:
  "lk_running lk \<Longrightarrow>
   stream_sequences Video (media_log fs lk) =
     map (\<lambda>i. lk_sequence_video lk + of_nat i) [0..<length (stream_sequences Video (media_log fs lk))] \<and>
   stream_sequences Audio (media_log fs lk) =
     map (\<lambda>i. lk_sequence_audio lk + of_nat i) [0..<length (stream_sequences Audio (media_log fs lk))] \<and>
   (\<forall>m \<in> set (media_log fs lk). h_generation (frame_header m) = lk_generation lk)"
proof (induction fs arbitrary: lk)
  case Nil
  then show ?case by (simp add: stream_sequences_def)
next
  case (Cons f fs)
  obtain s k pts b where f: "f = (s, k, pts, b)" by (cases f)
  show ?case
  proof (cases "b = []")
    case True
    with Cons f show ?thesis by simp
  next
    case False
    let ?lk = "sendMedia s k pts (Some b) lk"
    note st = sendMedia_counters [OF Cons.prems False, of s k pts]
    note IH = Cons.IH [OF st(2)]
    from wire_stream_cases [of s] show ?thesis
    proof
      assume w: "wire_stream s = stream_id_code Video"
      have v: "stream_sequences Video (media_log (f # fs) lk) =
          lk_sequence_video lk # stream_sequences Video (media_log fs ?lk)"
        and a: "stream_sequences Audio (media_log (f # fs) lk) = stream_sequences Audio (media_log fs ?lk)"
        using f False w by (simp_all add: stream_sequences_def next_sequence_def)
      show ?thesis
        unfolding v a using IH st w f False sequence_run_Suc by simp
    next
      assume w: "wire_stream s = stream_id_code Audio"
      have v: "stream_sequences Video (media_log (f # fs) lk) = stream_sequences Video (media_log fs ?lk)"
        and a: "stream_sequences Audio (media_log (f # fs) lk) =
          lk_sequence_audio lk # stream_sequences Audio (media_log fs ?lk)"
        using f False w by (simp_all add: stream_sequences_def next_sequence_def)
      show ?thesis
        unfolding v a using IH st w f False sequence_run_Suc by simp
    qed
  qed
qed

section \<open>Properties\<close>

text \<open>
  Media sequence numbers: over any run of access units the frames offered to the
  consumers carry, per stream, consecutive sequence numbers from the stream's counter, and
  all the same generation; so a gap that a consumer sees is a frame dropped from its queue.
\<close>
theorem media_sequences_consecutive:
  assumes "lk_running lk"
  shows "stream_sequences Video (media_log fs lk) =
      map (\<lambda>i. lk_sequence_video lk + of_nat i) [0..<length (stream_sequences Video (media_log fs lk))] \<and>
    stream_sequences Audio (media_log fs lk) =
      map (\<lambda>i. lk_sequence_audio lk + of_nat i) [0..<length (stream_sequences Audio (media_log fs lk))] \<and>
    (\<forall>m \<in> set (media_log fs lk). h_generation (frame_header m) = lk_generation lk)"
  using assms by (rule media_log_sequences)

theorem media_sequences_consecutive_witness:
  "stream_sequences Video (media_log [(1, True, 0, [9]), (2, False, 1, [8]), (1, False, 2, [7])]
     ((link_init Config_default)\<lparr>lk_running := True\<rparr>)) = [0, 1]"
proof -
  let ?lk = "(link_init Config_default)\<lparr>lk_running := True\<rparr>"
  let ?fs = "[(1, True, 0, [9]), (2, False, 1, [8]), (1, False, 2, [7])] :: (u32 \<times> bool \<times> u64 \<times> bytes) list"
  have "length (stream_sequences Video (media_log ?fs ?lk)) = 2"
    by (simp add: stream_sequences_def wire_stream_def)
  moreover have "lk_sequence_video ?lk = 0" by (simp add: link_init_def)
  ultimately show ?thesis
    using media_sequences_consecutive [of ?lk ?fs] by (simp add: upt_rec numeral_2_eq_2)
qed

text \<open>
  C14. Fast start: when there is room, a joining consumer is first given the cached HELLOs, the
  status snapshot and the last keyframe, in this order, and the HELLOs and the keyframe it gets
  belong to the current generation, so it can decode what it is given.
\<close>
theorem join_replays_current:
  assumes "link_ok lk" and "length (lk_clients lk) < cfg_max_clients (lk_cfg lk)"
  shows "\<exists>c. lk_clients (acceptClient fd ws lk) = lk_clients lk @ [c] \<and> cl_fd c = fd \<and>
    cl_written c @ cl_queue c =
      concat (map (\<lambda>m. case m of None \<Rightarrow> [] | Some k \<Rightarrow> [k])
        [lk_hello_video lk, lk_hello_audio lk, lk_snapshot lk, lk_keyframe lk]) \<and>
    (\<forall>m. Some m \<in> {lk_hello_video lk, lk_hello_audio lk, lk_keyframe lk} \<longrightarrow>
       h_generation (frame_header m) = lk_generation lk)"
proof -
  let ?j = "joining fd ws lk"
  have ca: "caches_ok lk" using assms(1) by (simp add: link_ok_def)
  note st = same_streamD(1,3) [OF onClientWritable_same [OF joining_ok [OF ca], of fd ws]]
  have "lk_clients (acceptClient fd ws lk) = lk_clients lk @ [onClientWritable ?j]"
    using assms(2) by (simp add: acceptClient_joining)
  moreover have "cl_fd (onClientWritable ?j) = fd"
    using st(2) by (simp add: joining_def Client_init_def)
  moreover have "cl_written (onClientWritable ?j) @ cl_queue (onClientWritable ?j) =
      concat (map (\<lambda>m. case m of None \<Rightarrow> [] | Some k \<Rightarrow> [k])
        [lk_hello_video lk, lk_hello_audio lk, lk_snapshot lk, lk_keyframe lk])"
    using st(1) by (simp add: joining_def Client_init_def)
  moreover have "\<forall>m. Some m \<in> {lk_hello_video lk, lk_hello_audio lk, lk_keyframe lk} \<longrightarrow>
      h_generation (frame_header m) = lk_generation lk"
    using ca by (auto simp: caches_ok_def hello_cache_ok_def keyframe_ok_def link_header_def
        split: if_splits option.splits)
  ultimately show ?thesis by blast
qed

theorem join_replays_current_witness:
  "\<exists>c. lk_clients (acceptClient 7 [] (link_init Config_default)) = [c] \<and> cl_fd c = 7"
proof -
  have "lk_clients (link_init Config_default) = []"
    "length (lk_clients (link_init Config_default)) <
      cfg_max_clients (lk_cfg (link_init Config_default))"
    by (simp_all add: link_init_def Config_default_def)
  with join_replays_current [OF link_init_ok this(2), of 7 "[]"] show ?thesis by auto
qed



text \<open>
  What a consumer decodes from an event: the payload of every published event parses, and
  gives the event's code, its time stamp, and the publisher's JSON text in the detail field
  for analysis events and in the message for all others, cut at 65535 bytes.
\<close>
theorem event_payload_decodes:
  "ParseEvent (build_monitor_event code now raw) =
     (True, MonitorEvent_init\<lparr>ev_code := code, ev_wall_clock_us := now, ev_has_wall_clock := True,
        ev_message := (if is_ai_code code then [] else take 0xffff (str_bytes raw)),
        ev_json_detail := (if is_ai_code code then take 0xffff (str_bytes raw) else [])\<rparr>)"
  by (simp add: build_monitor_event_def Let_def ParseEvent_BuildEvent event_expected_def
      MonitorEvent_init_def)

text \<open>
  Subscriptions do not narrow events: an event reaches every live consumer's stream, also
  one that unsubscribed from events, because control messages are always wanted.
\<close>
theorem events_ignore_subscription:
  assumes "link_ok lk" and "c \<in> set (lk_clients lk)" and "\<not> cl_dead c" and "\<not> cl_want_events c"
    and "msg = makeControl (lk_generation lk) (message_type_code Event) (stream_id_code Monitor) 0
      (lk_event_sequence lk) 0 (build_monitor_event code now raw) True"
  shows "last (cl_written (enqueue_client (lk_cfg lk) msg False False True c) @
    cl_queue (enqueue_client (lk_cfg lk) msg False False True c)) = msg"
proof -
  have c: "client_ok c" using assms(1, 2) by (simp add: link_ok_def clients_ok_def)
  have "msg_control msg" and sz: "0 < wire_size msg" by (simp_all add: assms(5))
  then have w: "wanted msg False False True c" by (simp add: wanted_def)
  obtain ds :: "Message list" where "cl_written (enqueue_client (lk_cfg lk) msg False False True c) @
      cl_queue (enqueue_client (lk_cfg lk) msg False False True c) =
      cl_written c @ drop (length ds) (cl_queue c) @ [msg]"
    by (rule enqueue_client_stream [OF c sz assms(3) w, of "lk_cfg lk"]) (rule that)
  then show ?thesis by simp
qed

definition demo_deaf_client :: Client where
  "demo_deaf_client = (Client_init 5 [])\<lparr>cl_want_events := False\<rparr>"

theorem events_ignore_subscription_witness:
  "\<exists>msg. msg = makeControl 0 (message_type_code Event) (stream_id_code Monitor) 0 0 0
      (build_monitor_event kEventDetection 0 ''{}'') True \<and>
    \<not> cl_want_events demo_deaf_client \<and>
    last (cl_written (enqueue_client Config_default msg False False True demo_deaf_client) @
      cl_queue (enqueue_client Config_default msg False False True demo_deaf_client)) = msg"
proof -
  let ?lk = "(link_init Config_default)\<lparr>lk_clients := [demo_deaf_client]\<rparr>"
  have c: "client_ok demo_deaf_client" "\<not> cl_dead demo_deaf_client" "\<not> cl_want_events demo_deaf_client"
    by (simp_all add: client_ok_def Client_init_def pending_def demo_deaf_client_def)
  have sel: "lk_clients ?lk = [demo_deaf_client]" "lk_generation ?lk = 0" "lk_event_sequence ?lk = 0"
    "lk_cfg ?lk = Config_default"
    by (simp_all add: link_init_def)
  have "link_ok ?lk"
    using link_init_ok [of Config_default] c(1)
    by (simp add: link_ok_def caches_ok_def clients_ok_def Config_default_def link_init_def)
  moreover have "demo_deaf_client \<in> set (lk_clients ?lk)" unfolding sel by simp
  ultimately show ?thesis
    using events_ignore_subscription [OF _ _ c(2, 3) refl, of ?lk kEventDetection 0 "''{}''"] c(3)
    unfolding sel by blast
qed

end
