(* ===== verification/Frame_Header.thy ===== *)
theory Frame_Header
  imports Prelude
begin

text \<open>
  The frame that plugins pass to each other: the C struct \<open>zm_frame_hdr_t\<close> of
  core/include/zm_plugin.h in memory on a little-endian target, 32 bytes without padding, and
  then the payload.
\<close>

section \<open>Frames\<close>

definition ZM_FRAME_COMPRESSED :: u32 where "ZM_FRAME_COMPRESSED = 100"
definition ZM_FRAME_COMPRESSED_AUDIO :: u32 where "ZM_FRAME_COMPRESSED_AUDIO = 104"

definition ZM_FRAME_RGB24 :: u32 where "ZM_FRAME_RGB24 = 101"
definition ZM_FRAME_GRAYSCALE :: u32 where "ZM_FRAME_GRAYSCALE = 102"
definition ZM_FRAME_YUV420P :: u32 where "ZM_FRAME_YUV420P = 103"

record zm_frame_hdr =
  fh_stream_id :: u32
  fh_hw_type :: u32
  fh_handle :: u64
  fh_bytes :: u32
  fh_flags :: u32
  fh_pts_usec :: u64

definition sizeof_frame_hdr :: nat where "sizeof_frame_hdr = 32"

definition frame_hdr :: "bytes \<Rightarrow> zm_frame_hdr" where
  "frame_hdr b = \<lparr>fh_stream_id = get_u32 b, fh_hw_type = get_u32 (drop 4 b),
     fh_handle = get_u64 (drop 8 b), fh_bytes = get_u32 (drop 16 b), fh_flags = get_u32 (drop 20 b),
     fh_pts_usec = get_u64 (drop 24 b)\<rparr>"

text \<open>The other way: the header's bytes, as \<open>memcpy\<close> of the struct gives them.\<close>

definition frame_hdr_bytes :: "zm_frame_hdr \<Rightarrow> bytes" where
  "frame_hdr_bytes h = put_u32 (fh_stream_id h) @ put_u32 (fh_hw_type h) @ put_u64 (fh_handle h) @
     put_u32 (fh_bytes h) @ put_u32 (fh_flags h) @ put_u64 (fh_pts_usec h)"

lemma length_frame_hdr_bytes [simp]: "length (frame_hdr_bytes h) = sizeof_frame_hdr"
  by (simp add: frame_hdr_bytes_def sizeof_frame_hdr_def)

lemma frame_hdr_of_bytes [simp]: "frame_hdr (frame_hdr_bytes h @ payload) = h"
  by (simp add: frame_hdr_def frame_hdr_bytes_def)

end
