(* ===== verification/Capture_Thread.thy ===== *)
theory Capture_Thread
  imports Shm_Ring Plugin_Manager Worker_Link Frame_Header
begin

text \<open>
  The frame pump: core/src/CaptureThread.cpp, with the frame header of core/include/zm_plugin.h.
  The input plugin's frames go into the ring, the capture thread takes them out, taps compressed
  ones into the worker link, and delivers every frame to the input's downstream stages. The
  header is the C struct in memory on a little-endian target: 32 bytes without padding.
\<close>

section \<open>The input plugin's on_frame\<close>

text \<open>\<open>host_api_on_frame_adapter\<close>, its \<open>host_ctx\<close> being the ring; the result of \<open>push\<close> is ignored.\<close>

definition host_api_on_frame_adapter :: "bytes option \<Rightarrow> shm_ring \<Rightarrow> shm_ring" where
  "host_api_on_frame_adapter frame_buf rb =
     (case frame_buf of
        None \<Rightarrow> rb
      | Some b \<Rightarrow>
          if length b < sizeof_frame_hdr then rb
          else let payload_size = length b - sizeof_frame_hdr;
                   buffer = replicate (sizeof_frame_hdr + payload_size) 0;
                   buffer = memcpy_at 0 (take sizeof_frame_hdr b) buffer;
                   buffer = memcpy_at sizeof_frame_hdr (drop sizeof_frame_hdr b) buffer
               in snd (ring_push buffer rb))"

section \<open>The capture thread\<close>

definition MAX_BUFFER :: nat where "MAX_BUFFER = 4 * 1024 * 1024"

record capture =
  cp_ring :: shm_ring
  cp_link :: "link option"
  cp_stages :: "stage option list"
  cp_outputs :: "nat option list"

definition tap_media :: "bytes \<Rightarrow> link \<Rightarrow> link" where
  "tap_media buffer lk =
     (let hdr = frame_hdr buffer;
          isVideo = (fh_hw_type hdr = ZM_FRAME_COMPRESSED);
          isAudio = (fh_hw_type hdr = ZM_FRAME_COMPRESSED_AUDIO)
      in if isVideo \<or> isAudio
         then sendMedia (if isVideo then 1 else 2) (fh_flags hdr AND 1 \<noteq> 0) (fh_pts_usec hdr)
                (Some (drop sizeof_frame_hdr buffer)) lk
         else lk)"

text \<open>The body of the loop for a frame that \<open>pop\<close> returned.\<close>

definition capture_frame :: "bytes \<Rightarrow> capture \<Rightarrow> capture" where
  "capture_frame buffer cp =
     (if length buffer \<le> sizeof_frame_hdr then cp
      else cp\<lparr>cp_link := map_option (tap_media buffer) (cp_link cp),
              cp_stages := forwardToChildren (cp_outputs cp) (Some buffer) (cp_stages cp)\<rparr>)"

text \<open>One turn of the loop: \<open>None\<close> when \<open>pop\<close> has no frame to return.\<close>

definition capture_turn :: "capture \<Rightarrow> (bytes \<times> capture) option" where
  "capture_turn cp =
     (case ring_take (cp_ring cp) of
        None \<Rightarrow> None
      | Some (buffer, r) \<Rightarrow> Some (buffer, capture_frame buffer (cp\<lparr>cp_ring := r\<rparr>)))"

text \<open>
  The constructor's ring, and the call sequence of the two threads: the plugin's frames and the
  loop's turns in any order. A run returns the frames that the ring accepted and those taken.
\<close>

definition capture_ring :: "bytes \<Rightarrow> shm_ring" where
  "capture_ring mem = ShmRing_new 256 (1024 * 1024) mem"

datatype capture_event = PluginFrame "bytes option" | CaptureTurn

fun capture_run :: "capture_event list \<Rightarrow> capture \<Rightarrow> capture \<times> bytes list \<times> bytes list" where
  "capture_run [] cp = (cp, [], [])"
| "capture_run (PluginFrame b # es) cp =
     (let r = host_api_on_frame_adapter b (cp_ring cp) in
      case capture_run es (cp\<lparr>cp_ring := r\<rparr>) of
        (cp', acc, taken) \<Rightarrow>
          (cp', (if ring_contents r = ring_contents (cp_ring cp) then acc else the b # acc), taken))"
| "capture_run (CaptureTurn # es) cp =
     (case capture_turn cp of
        None \<Rightarrow> capture_run es cp
      | Some (b, cp1) \<Rightarrow> (case capture_run es cp1 of (cp', acc, taken) \<Rightarrow> (cp', acc, b # taken)))"

section \<open>Facts\<close>

lemma adapter_copy:
  assumes "sizeof_frame_hdr \<le> length b"
  shows "memcpy_at sizeof_frame_hdr (drop sizeof_frame_hdr b)
    (memcpy_at 0 (take sizeof_frame_hdr b) (replicate (length b) 0)) = b"
  using assms by (simp add: memcpy_at_def min_def)

lemma adapter_push:
  "host_api_on_frame_adapter (Some b) r = (if length b < sizeof_frame_hdr then r else snd (ring_push b r))"
  by (simp add: host_api_on_frame_adapter_def Let_def adapter_copy not_less)

lemma adapter_result:
  assumes "ring_ok r"
  shows "ring_ok (host_api_on_frame_adapter b r) \<and>
    ring_contents (host_api_on_frame_adapter b r) =
      ring_contents r @ (case b of None \<Rightarrow> []
        | Some f \<Rightarrow> if sizeof_frame_hdr \<le> length f \<and> ring_room r f then [f] else [])"
proof (cases b)
  case None
  with assms show ?thesis by (simp add: host_api_on_frame_adapter_def)
next
  case (Some f)
  obtain ok r' where p: "ring_push f r = (ok, r')" by (cases "ring_push f r")
  from rq.enq_cases [OF assms p] show ?thesis
    using Some p assms by (simp add: adapter_push)
qed

lemma ring_take_bound:
  assumes "ring_ok r" and "ring_take r = Some (b, r')"
  shows "length b \<le> rg_slotSize r \<and> ring_ok r' \<and> ring_contents r = b # ring_contents r' \<and>
    rg_slotSize r' = rg_slotSize r"
proof -
  have "length b \<le> rg_slotSize r"
    using assms by (auto simp: ring_take_def read_slot_def ring_ok_def list_all_length min_def split: if_splits)
  moreover have "rg_slotSize r' = rg_slotSize r"
    using assms(2) by (auto simp: ring_take_def split: if_splits)
  ultimately show ?thesis using rq.deq_Some [OF assms] by blast
qed

lemma adapter_slotSize [simp]: "rg_slotSize (host_api_on_frame_adapter b r) = rg_slotSize r"
  by (cases b) (auto simp: adapter_push ring_push_def Let_def host_api_on_frame_adapter_def)

definition deliver_all :: "nat option list \<Rightarrow> bytes list \<Rightarrow> stage option list \<Rightarrow> stage option list" where
  "deliver_all outs bs rs =
     fold (\<lambda>b. if length b \<le> sizeof_frame_hdr then id else forwardToChildren outs (Some b)) bs rs"

definition tap_all :: "bytes list \<Rightarrow> link option \<Rightarrow> link option" where
  "tap_all bs lk = fold (\<lambda>b. if length b \<le> sizeof_frame_hdr then id else map_option (tap_media b)) bs lk"

lemma capture_run_account:
  assumes "ring_ok (cp_ring cp)" and "capture_run es cp = (cp', acc, taken)"
  shows "ring_ok (cp_ring cp') \<and> ring_contents (cp_ring cp) @ acc = taken @ ring_contents (cp_ring cp') \<and>
    cp_outputs cp' = cp_outputs cp \<and> rg_slotSize (cp_ring cp') = rg_slotSize (cp_ring cp) \<and>
    cp_stages cp' = deliver_all (cp_outputs cp) taken (cp_stages cp) \<and>
    cp_link cp' = tap_all taken (cp_link cp) \<and>
    (\<forall>b \<in> set taken. length b \<le> rg_slotSize (cp_ring cp))"
  using assms
proof (induction es arbitrary: cp acc taken)
  case Nil
  then show ?case by (simp add: deliver_all_def tap_all_def)
next
  case (Cons e es)
  show ?case
  proof (cases e)
    case (PluginFrame b)
    let ?r = "host_api_on_frame_adapter b (cp_ring cp)"
    note ar = adapter_result [OF Cons.prems(1), of b]
    obtain acc1 where r: "capture_run es (cp\<lparr>cp_ring := ?r\<rparr>) = (cp', acc1, taken)"
      and acc: "acc = (if ring_contents ?r = ring_contents (cp_ring cp) then acc1 else the b # acc1)"
      using Cons.prems(2) PluginFrame by (auto simp: Let_def split: prod.splits)
    have "ring_contents (cp_ring cp) @ acc = ring_contents ?r @ acc1"
      using ar acc by (auto split: option.splits if_splits)
    with Cons.IH [OF _ r] ar show ?thesis by simp
  next
    case CaptureTurn
    show ?thesis
    proof (cases "capture_turn cp")
      case None
      with Cons CaptureTurn show ?thesis by simp
    next
      case (Some p)
      then obtain b r where t: "ring_take (cp_ring cp) = Some (b, r)"
        and p: "p = (b, capture_frame b (cp\<lparr>cp_ring := r\<rparr>))"
        by (auto simp: capture_turn_def split: option.splits)
      let ?cp = "capture_frame b (cp\<lparr>cp_ring := r\<rparr>)"
      note tb = ring_take_bound [OF Cons.prems(1) t]
      have sel: "cp_ring ?cp = r" "cp_outputs ?cp = cp_outputs cp"
        "cp_stages ?cp = (if length b \<le> sizeof_frame_hdr then cp_stages cp
           else forwardToChildren (cp_outputs cp) (Some b) (cp_stages cp))"
        "cp_link ?cp = (if length b \<le> sizeof_frame_hdr then cp_link cp
           else map_option (tap_media b) (cp_link cp))"
        by (simp_all add: capture_frame_def)
      from Cons.prems(2) CaptureTurn Some p obtain taken1 where
        r: "capture_run es ?cp = (cp', acc, taken1)" and tk: "taken = b # taken1"
        by (auto split: prod.splits)
      from Cons.IH [OF _ r] sel tb tk show ?thesis
        by (simp add: deliver_all_def tap_all_def)
    qed
  qed
qed

section \<open>Properties\<close>

text \<open>
  The pump loses no order: over every interleaving of the plugin's frames with the capture
  thread, what the stages have been delivered and what the worker link has been given are
  exactly the frames taken from the ring, in order; the frames the ring accepted are those
  taken followed by those still in it; and a taken frame fits the thread's 4 MiB buffer.
\<close>
theorem capture_pump:
  assumes "length mem = 256 * (1024 * 1024)" and "cp_ring cp = capture_ring mem"
    and "capture_run es cp = (cp', acc, taken)"
  shows "acc = taken @ ring_contents (cp_ring cp') \<and>
    cp_stages cp' = deliver_all (cp_outputs cp) taken (cp_stages cp) \<and>
    cp_link cp' = tap_all taken (cp_link cp) \<and> (\<forall>b \<in> set taken. length b \<le> MAX_BUFFER)"
proof -
  have "ring_ok (capture_ring mem)"
    unfolding capture_ring_def by (rule ring_ok_new) (simp_all add: assms(1))
  then have ok: "ring_ok (cp_ring cp)" using assms(2) by simp
  have "ring_contents (cp_ring cp) = []" "rg_slotSize (cp_ring cp) = 1024 * 1024"
    using assms(2) by (simp_all add: capture_ring_def) (simp add: ShmRing_new_def)
  with capture_run_account [OF ok assms(3)] show ?thesis by (auto simp: MAX_BUFFER_def)
qed

theorem capture_pump_witness:
  "\<exists>cp' taken. capture_run [CaptureTurn]
      \<lparr>cp_ring = capture_ring (replicate (256 * (1024 * 1024)) 0), cp_link = None,
       cp_stages = [None], cp_outputs = []\<rparr> = (cp', [], taken) \<and> taken = []"
proof -
  let ?m = "replicate (256 * (1024 * 1024)) (0 :: u8)"
  let ?cp = "\<lparr>cp_ring = capture_ring ?m, cp_link = None, cp_stages = [None], cp_outputs = []\<rparr>"
  have "ring_take (capture_ring ?m) = None"
    by (simp add: capture_ring_def ShmRing_new_def ring_take_def)
  then have r: "capture_run [CaptureTurn] ?cp = (?cp, [], [])" by (simp add: capture_turn_def)
  show ?thesis using capture_pump [OF _ _ r, of ?m] r by (intro exI conjI) simp_all
qed

text \<open>
  What the plugin's \<open>on_frame\<close> does: a frame with a whole header that fits a slot is appended
  when the ring has room; a shorter one, one larger than the 1 MiB slot, or one that finds the
  ring full leaves the ring as it was, and the plugin is not told.
\<close>
theorem plugin_frame_result:
  assumes "ring_ok r"
  shows "ring_contents (host_api_on_frame_adapter (Some f) r) =
      ring_contents r @ (if sizeof_frame_hdr \<le> length f \<and> length f \<le> rg_slotSize r \<and>
        length (ring_contents r) + 1 < rg_slotCount r then [f] else []) \<and>
    (length f < sizeof_frame_hdr \<or> rg_slotSize r < length f \<longrightarrow> host_api_on_frame_adapter (Some f) r = r)"
proof -
  have "length (ring_contents r) = ring_used r" by (simp add: ring_contents_def)
  then show ?thesis
    using adapter_result [OF assms, of "Some f"] ring_push_refuses [OF assms, of f]
    by (auto simp: ring_room_def adapter_push)
qed

theorem plugin_frame_result_witness:
  "host_api_on_frame_adapter (Some (replicate 50 1)) (ShmRing_new 2 40 (replicate 80 0)) =
     ShmRing_new 2 40 (replicate 80 0)"
proof -
  have "ring_ok (ShmRing_new 2 40 (replicate 80 0))" by (rule ring_ok_new) simp_all
  moreover have "rg_slotSize (ShmRing_new 2 40 (replicate 80 0)) < length (replicate 50 (1 :: u8))"
    by (simp add: ShmRing_new_def)
  ultimately show ?thesis using plugin_frame_result by blast
qed

end
