(* ===== verification/Link_Loop.thy ===== *)
theory Link_Loop
  imports Worker_Link
begin

text \<open>
  The thread of the worker link (core/src/WorkerLink.cpp): the frames that clients send
  (\<open>onClientReadable\<close>), the poll loop (\<open>runLoop\<close>), and \<open>start\<close> and \<open>stop\<close>. \<open>None\<close> is an exception
  of the JSON library that nothing on the thread catches, which ends the process.

  The handlers that the application installs are arguments: \<open>le_handler\<close> answers a command,
  \<open>le_talkback\<close> tells whether there is a talkback handler. The calls made are returned in order.
\<close>

section \<open>Inbound frames\<close>

record CommandResult =
  cr_ok :: bool
  cr_message :: string
  cr_data_json :: string

record 'j link_env =
  le_json :: "'j json_api"
  le_handler :: "(string \<Rightarrow> string \<Rightarrow> CommandResult) option"
  le_talkback :: bool

datatype link_call = HandlerCall string string | TalkbackCall u32 u64 bytes

definition get_u32_le :: "bytes \<Rightarrow> u32" where
  "get_u32_le p = ucast (p ! 0) OR push_bit 8 (ucast (p ! 1)) OR
     push_bit 16 (ucast (p ! 2)) OR push_bit 24 (ucast (p ! 3))"

definition on_subscribe :: "'j link_env \<Rightarrow> link \<Rightarrow> bytes \<Rightarrow> Client \<Rightarrow> Client option" where
  "on_subscribe E lk body c =
     (case j_parse (le_json E) (bytes_str body) of
        None \<Rightarrow> Some c
      | Some j \<Rightarrow>
          if \<not> j_is_object (le_json E) j then Some c
          else Option.bind (j_value_bool (le_json E) j ''video'' True) (\<lambda>v.
               Option.bind (j_value_bool (le_json E) j ''audio'' True) (\<lambda>a.
               Option.bind (j_value_bool (le_json E) j ''events'' True) (\<lambda>e.
                 let c = c\<lparr>cl_want_video := v, cl_want_audio := a, cl_want_events := e\<rparr>;
                     c = (if v then push_opt (lk_hello_video lk) c else c);
                     c = (if a then push_opt (lk_hello_audio lk) c else c)
                 in Some (onClientWritable c)))))"

text \<open>The result for a request, its id, and the handler calls made.\<close>

definition run_command ::
  "'j link_env \<Rightarrow> bytes \<Rightarrow> (CommandResult \<times> u64 \<times> link_call list) option" where
  "run_command E body =
     (case j_parse (le_json E) (bytes_str body) of
        None \<Rightarrow> Some (\<lparr>cr_ok = False, cr_message = ''bad command'', cr_data_json = []\<rparr>, 0, [])
      | Some j \<Rightarrow>
          if \<not> j_is_object (le_json E) j
          then Some (\<lparr>cr_ok = False, cr_message = ''bad command'', cr_data_json = []\<rparr>, 0, [])
          else Option.bind (j_value_string (le_json E) j ''name'' []) (\<lambda>fallback.
               Option.bind (j_value_string (le_json E) j ''cmd'' fallback) (\<lambda>name.
               Option.bind (j_value_u64 (le_json E) j ''request_id'' 0) (\<lambda>request_id.
                 case le_handler E of
                   None \<Rightarrow> Some (\<lparr>cr_ok = False, cr_message = ''no command handler'',
                                  cr_data_json = []\<rparr>, request_id, [])
                 | Some handler \<Rightarrow>
                     Some (handler name (bytes_str body), request_id,
                           [HandlerCall name (bytes_str body)])))))"

definition on_command :: "'j link_env \<Rightarrow> link \<Rightarrow> bytes \<Rightarrow> Client \<Rightarrow> (Client \<times> link_call list) option" where
  "on_command E lk body c =
     Option.bind (run_command E body) (\<lambda>(r, request_id, calls).
     Option.bind (j_dump_object (le_json E)
         [(''request_id'', ScalarU64 request_id), (''ok'', ScalarBool (cr_ok r)),
          (''message'', ScalarStr (cr_message r)), (''data'', ScalarStr (cr_data_json r))]) (\<lambda>rs.
       let out = makeControl (lk_generation lk) (message_type_code Response) (stream_id_code Monitor)
                   0 0 0 (str_bytes rs) True
       in Some (onClientWritable (push_msg out c), calls)))"

definition on_talkback :: "'j link_env \<Rightarrow> Header \<Rightarrow> bytes \<Rightarrow> link_call list" where
  "on_talkback E h body =
     (if le_talkback E \<and> length body \<ge> 4
      then [TalkbackCall (get_u32_le body) (h_pts_us h) (drop 4 body)] else [])"

text \<open>The switch on the message type.\<close>

definition on_frame ::
  "'j link_env \<Rightarrow> link \<Rightarrow> Header \<times> bytes \<Rightarrow> Client \<Rightarrow> (Client \<times> link_call list) option" where
  "on_frame E lk f c =
     (case f of (h, body) \<Rightarrow>
        if h_type h = message_type_code Subscribe
        then map_option (\<lambda>c. (c, [])) (on_subscribe E lk body c)
        else if h_type h = message_type_code Command then on_command E lk body c
        else if h_type h = message_type_code Talkback then Some (c, on_talkback E h body)
        else Some (c, []))"

text \<open>The while loop over the buffered bytes \<open>b\<close>, which are \<open>inbuf\<close>.\<close>

function inbound :: "'j link_env \<Rightarrow> link \<Rightarrow> bytes \<Rightarrow> Client \<Rightarrow> (Client \<times> link_call list) option" where
  "inbound E lk b c =
     (if length b < kHeaderSize then Some (c\<lparr>cl_inbuf := b\<rparr>, [])
      else case ParseHeader b of
        (False, _) \<Rightarrow> Some (c\<lparr>cl_inbuf := b, cl_dead := True\<rparr>, [])
      | (True, h) \<Rightarrow>
          let payload_len = unat (payload_size h); need = kHeaderSize + payload_len
          in if length b < need then Some (c\<lparr>cl_inbuf := b\<rparr>, [])
             else Option.bind (on_frame E lk (h, take payload_len (drop kHeaderSize b)) c) (\<lambda>(c', calls).
                  map_option (\<lambda>(c'', calls'). (c'', calls @ calls')) (inbound E lk (drop need b) c')))"
  by pat_completeness auto
termination
  by (relation "measure (\<lambda>(_, _, b, _). length b)") (auto simp: kHeaderSize_def)

declare inbound.simps [simp del]

text \<open>\<open>read\<close> gave \<open>data\<close>, at most 4096 bytes, or \<open>None\<close> for \<open>n <= 0\<close>.\<close>

definition onClientReadable ::
  "'j link_env \<Rightarrow> link \<Rightarrow> bytes option \<Rightarrow> Client \<Rightarrow> (Client \<times> link_call list) option" where
  "onClientReadable E lk data c =
     (case data of
        None \<Rightarrow> Some (c\<lparr>cl_dead := True\<rparr>, [])
      | Some buf \<Rightarrow> inbound E lk (cl_inbuf c @ buf) c)"

section \<open>The poll loop\<close>

text \<open>What \<open>poll\<close> reported for one descriptor, and what the calls that follow from it give.\<close>

record poll_fd =
  pf_fd :: nat
  pf_hup :: bool
  pf_in :: "bytes option option"
  pf_out :: "write_result list option"

definition poll_client ::
  "'j link_env \<Rightarrow> link \<Rightarrow> poll_fd \<Rightarrow> Client \<Rightarrow> (Client \<times> link_call list) option" where
  "poll_client E lk p c =
     (if pf_hup p then Some (c\<lparr>cl_dead := True\<rparr>, [])
      else Option.bind (case pf_in p of
                          None \<Rightarrow> Some (c, [])
                        | Some data \<Rightarrow> onClientReadable E lk data c) (\<lambda>(c, calls).
             Some (case pf_out p of
                     None \<Rightarrow> c
                   | Some ws \<Rightarrow> if cl_dead c then c else onClientWritable (c\<lparr>cl_writes := ws\<rparr>), calls)))"

definition set_client :: "Client \<Rightarrow> link \<Rightarrow> link" where
  "set_client c lk = lk\<lparr>lk_clients := map (\<lambda>x. if cl_fd x = cl_fd c then c else x) (lk_clients lk)\<rparr>"

fun poll_clients :: "'j link_env \<Rightarrow> poll_fd list \<Rightarrow> link \<Rightarrow> (link \<times> link_call list) option" where
  "poll_clients E [] lk = Some (lk, [])"
| "poll_clients E (p # ps) lk =
     (case find (\<lambda>c. cl_fd c = pf_fd p) (lk_clients lk) of
        None \<Rightarrow> poll_clients E ps lk
      | Some c \<Rightarrow>
          Option.bind (poll_client E lk p c) (\<lambda>(c', calls).
            map_option (\<lambda>(lk', calls'). (lk', calls @ calls')) (poll_clients E ps (set_client c' lk))))"

definition stats_client :: "link \<Rightarrow> Client \<Rightarrow> Client" where
  "stats_client lk c =
     (if cl_dead c then c
      else onClientWritable (push_msg (makeControl (lk_generation lk) (message_type_code Stats)
             (stream_id_code Video) 0 0 0 (BuildStats (cl_sent c) (cl_dropped c)) False) c))"

definition send_stats :: "int \<Rightarrow> link \<Rightarrow> link" where
  "send_stats now lk =
     (if now - lk_last_stats lk \<ge> cfg_stats_interval (lk_cfg lk)
      then lk\<lparr>lk_last_stats := now, lk_clients := map (stats_client lk) (lk_clients lk)\<rparr>
      else lk)"

text \<open>
  One turn of the loop after \<open>poll\<close>: a pending connection first, then the ready descriptors, then
  the periodic statistics. \<open>accepted\<close> is the new descriptor with its socket.
\<close>

definition run_turn ::
  "'j link_env \<Rightarrow> (nat \<times> write_result list) option \<Rightarrow> poll_fd list \<Rightarrow> int \<Rightarrow> link \<Rightarrow>
   (link \<times> link_call list) option" where
  "run_turn E accepted ps now lk =
     (let lk = (case accepted of None \<Rightarrow> lk | Some (fd, ws) \<Rightarrow> acceptClient fd ws lk)
      in map_option (\<lambda>(lk, calls). (reapDead (send_stats now lk), calls)) (poll_clients E ps lk))"

section \<open>start and stop\<close>

text \<open>The system calls of \<open>start\<close> that can fail; \<open>sun_path\<close> is \<open>sizeof(sockaddr_un{}.sun_path)\<close>.\<close>

definition link_start :: "nat \<Rightarrow> nat \<Rightarrow> bool \<Rightarrow> bool \<Rightarrow> bool \<Rightarrow> int \<Rightarrow> link \<Rightarrow> bool \<times> link" where
  "link_start sun_path path_len socket_ok bind_ok listen_ok now lk =
     (if path_len \<ge> sun_path then (False, lk)
      else if \<not> socket_ok then (False, lk\<lparr>lk_listen := False\<rparr>)
      else let lk = lk\<lparr>lk_listen := True, lk_path_bound := False\<rparr>
           in if \<not> bind_ok then (False, lk\<lparr>lk_listen := False\<rparr>)
              else let lk = lk\<lparr>lk_path_bound := True\<rparr>
                   in if \<not> listen_ok then (False, lk\<lparr>lk_listen := False, lk_path_bound := False\<rparr>)
                      else (True, lk\<lparr>lk_last_stats := now, lk_running := True\<rparr>))"

definition bye_client :: "Message \<Rightarrow> Client \<Rightarrow> Client" where
  "bye_client bye c =
     (case cl_writes c of
        Wrote n # ws \<Rightarrow> c\<lparr>cl_wire := cl_wire c @ take n (msg_prefix bye), cl_writes := ws\<rparr>
      | _ # ws \<Rightarrow> c\<lparr>cl_writes := ws\<rparr>
      | [] \<Rightarrow> c)"

definition bye_message :: "link \<Rightarrow> Message" where
  "bye_message lk = makeControl (lk_generation lk) (message_type_code Bye) (stream_id_code Video) 0 0 0 [] True"

definition stop_bye :: "link \<Rightarrow> link" where
  "stop_bye lk = lk\<lparr>lk_running := False,
     lk_clients := map (bye_client (bye_message lk)) (lk_clients lk)\<rparr>"

text \<open>\<open>stop\<close> when running, with the join of the thread done between its two locked blocks.\<close>

definition link_stop :: "link \<Rightarrow> link" where
  "link_stop lk =
     (if \<not> lk_running lk then
        (if lk_listen lk then lk\<lparr>lk_listen := False, lk_path_bound := False\<rparr> else lk)
      else (stop_bye lk)\<lparr>lk_clients := [], lk_listen := False, lk_path_bound := False\<rparr>)"

section \<open>Inbound frames are the split of the byte stream\<close>

fun on_frames ::
  "'j link_env \<Rightarrow> link \<Rightarrow> (Header \<times> bytes) list \<Rightarrow> Client \<Rightarrow> (Client \<times> link_call list) option" where
  "on_frames E lk [] c = Some (c, [])"
| "on_frames E lk (f # fs) c =
     Option.bind (on_frame E lk f c) (\<lambda>(c', calls).
       map_option (\<lambda>(c'', calls'). (c'', calls @ calls')) (on_frames E lk fs c'))"

definition finish_inbound :: "bytes option \<Rightarrow> Client \<Rightarrow> bool" where
  "finish_inbound r c \<longleftrightarrow> (case r of None \<Rightarrow> cl_dead c | Some b \<Rightarrow> cl_inbuf c = b)"

text \<open>Everything of a client except its input buffer and its mark.\<close>

definition same_client :: "Client \<Rightarrow> Client \<Rightarrow> bool" where
  "same_client c c' \<longleftrightarrow> c\<lparr>cl_inbuf := [], cl_dead := False\<rparr> = c'\<lparr>cl_inbuf := [], cl_dead := False\<rparr>"

lemma same_client_refl [simp]: "same_client c c"
  by (simp add: same_client_def)

lemma same_client_updates [simp]:
  "same_client c (c\<lparr>cl_inbuf := b\<rparr>)" "same_client c (c\<lparr>cl_inbuf := b, cl_dead := d\<rparr>)"
  by (simp_all add: same_client_def)

lemma inbound_split:
  "inbound E lk b c =
     (case split_frames b of (fs, r) \<Rightarrow>
        map_option (\<lambda>(c', calls). (case r of
            None \<Rightarrow> c'\<lparr>cl_inbuf := drop (sum_list (map (\<lambda>f. kHeaderSize + length (snd f)) fs)) b,
                       cl_dead := True\<rparr>
          | Some rest \<Rightarrow> c'\<lparr>cl_inbuf := rest\<rparr>, calls)) (on_frames E lk fs c))"
proof (induction b arbitrary: c rule: split_frames.induct)
  case (1 b)
  show ?case
  proof (cases "length b < kHeaderSize")
    case True
    then show ?thesis by (simp add: inbound.simps split_frames.simps)
  next
    case long: False
    obtain ok h where p: "ParseHeader b = (ok, h)" by (cases "ParseHeader b")
    show ?thesis
    proof (cases ok)
      case False
      with long p show ?thesis by (simp add: inbound.simps split_frames.simps)
    next
      case True
      let ?n = "unat (payload_size h)" and ?need = "kHeaderSize + unat (payload_size h)"
      show ?thesis
      proof (cases "length b < ?need")
        case True
        with long p \<open>ok\<close> show ?thesis by (simp add: inbound.simps split_frames.simps Let_def)
      next
        case False
        obtain fs r where s: "split_frames (drop ?need b) = (fs, r)"
          by (cases "split_frames (drop ?need b)")
        let ?body = "take ?n (drop kHeaderSize b)"
        have len: "min (length b - kHeaderSize) ?n = ?n" using False by simp
        have sb: "split_frames b = ((h, ?body) # fs, r)"
          using long p \<open>ok\<close> False s by (subst split_frames.simps) (simp add: Let_def)
        have ib: "inbound E lk b c =
            Option.bind (on_frame E lk (h, ?body) c) (\<lambda>(c', calls).
              map_option (\<lambda>(c'', calls'). (c'', calls @ calls')) (inbound E lk (drop ?need b) c'))"
          using long p \<open>ok\<close> False by (subst inbound.simps) (simp add: Let_def)
        have IH: "inbound E lk (drop ?need b) c' =
            map_option (\<lambda>(c', calls). (case r of
                None \<Rightarrow> c'\<lparr>cl_inbuf := drop (sum_list (map (\<lambda>f. kHeaderSize + length (snd f)) fs))
                    (drop ?need b), cl_dead := True\<rparr>
              | Some rest \<Rightarrow> c'\<lparr>cl_inbuf := rest\<rparr>, calls)) (on_frames E lk fs c')" for c'
          using "1.IH" [OF long p [symmetric] _ refl False, of c'] s \<open>ok\<close> by simp
        show ?thesis
        proof (cases "on_frame E lk (h, ?body) c")
          case (Some p1)
          obtain c1 calls1 where p1: "p1 = (c1, calls1)" by (cases p1)
          show ?thesis
            unfolding ib sb IH using Some p1
            by (cases "on_frames E lk fs c1"; cases r) (auto simp: len add.commute add.left_commute)
        qed (simp add: ib sb)
      qed
    qed
  qed
qed

section \<open>Reassembly of inbound frames\<close>

lemma split_frames_rest:
  "split_frames b = (fs, Some r) \<Longrightarrow> split_frames r = ([], Some r) \<and> length r < 32 * 1024 * 1024 + 4"
proof (induction b arbitrary: fs rule: split_frames.induct)
  case (1 b)
  show ?case
  proof (cases "length b < kHeaderSize")
    case True
    with "1.prems" show ?thesis by (auto simp: split_frames_short kHeaderSize_def)
  next
    case long: False
    with "1.prems" obtain h where p: "ParseHeader b = (True, h)"
      by (subst (asm) split_frames.simps) (auto split: prod.splits bool.splits)
    let ?need = "kHeaderSize + unat (payload_size h)"
    have cap: "?need < 32 * 1024 * 1024 + 5"
      using payload_size_valid(2) [of h] ParseHeader_valid [OF p] by (simp add: kHeaderSize_def)
    show ?thesis
    proof (cases "length b < ?need")
      case True
      with "1.prems" long p have "r = b" by (subst (asm) split_frames.simps) (simp add: Let_def)
      moreover have "split_frames b = ([], Some b)"
        using True long p by (subst split_frames.simps) (simp add: Let_def)
      ultimately show ?thesis using True cap by simp
    next
      case False
      with "1.prems" long p obtain fs' where "split_frames (drop ?need b) = (fs', Some r)"
        by (subst (asm) split_frames.simps) (auto simp: Let_def split: prod.splits)
      from "1.IH" [OF long p [symmetric] refl refl False this] show ?thesis .
    qed
  qed
qed

lemma ParseHeader_append: "kHeaderSize \<le> length b \<Longrightarrow> ParseHeader (b @ d) = ParseHeader b"
  by (simp add: ParseHeader_def Let_def kHeaderSize_def nth_append get_u32_append get_u64_append)

lemma split_frames_append:
  "split_frames b = (fs, Some r) \<Longrightarrow>
   split_frames (b @ d) = (case split_frames (r @ d) of (fs', r') \<Rightarrow> (fs @ fs', r'))"
proof (induction b arbitrary: fs rule: split_frames.induct)
  case (1 b)
  show ?case
  proof (cases "length b < kHeaderSize")
    case True
    with "1.prems" show ?thesis by (auto simp: split_frames_short split: prod.split)
  next
    case long: False
    with "1.prems" obtain h where p: "ParseHeader b = (True, h)"
      by (subst (asm) split_frames.simps) (auto split: prod.splits bool.splits)
    let ?n = "unat (payload_size h)"
    let ?need = "kHeaderSize + ?n"
    show ?thesis
    proof (cases "length b < ?need")
      case True
      with "1.prems" long p have "r = b" "fs = []"
        by (subst (asm) split_frames.simps; simp add: Let_def)+
      then show ?thesis by (simp split: prod.split)
    next
      case False
      with "1.prems" long p obtain fs' where s: "split_frames (drop ?need b) = (fs', Some r)"
        and fs: "fs = (h, take ?n (drop kHeaderSize b)) # fs'"
        by (subst (asm) split_frames.simps) (auto simp: Let_def split: prod.splits)
      have "split_frames (b @ d) =
          (case split_frames (drop ?need b @ d) of
             (gs, q) \<Rightarrow> ((h, take ?n (drop kHeaderSize b)) # gs, q))"
        using long False p ParseHeader_append [of b d]
        by (subst split_frames.simps) (simp add: Let_def)
      with "1.IH" [OF long p [symmetric] refl refl False s] fs show ?thesis
        by (simp split: prod.split)
    qed
  qed
qed

text \<open>The calls that a frame leads to do not depend on the state of the link.\<close>

definition frame_calls :: "'j link_env \<Rightarrow> Header \<times> bytes \<Rightarrow> link_call list" where
  "frame_calls E f =
     (case f of (h, body) \<Rightarrow>
        if h_type h = message_type_code Subscribe then []
        else if h_type h = message_type_code Command
        then (case run_command E body of None \<Rightarrow> [] | Some (r, i, calls) \<Rightarrow> calls)
        else if h_type h = message_type_code Talkback then on_talkback E h body
        else [])"

lemma write_loop_inbuf [simp]: "cl_inbuf (write_loop ws c) = cl_inbuf c"
  by (induction ws c rule: write_loop.induct) (auto simp: Let_def split: list.split write_result.split)

lemma write_loop_dead: "cl_dead c \<Longrightarrow> cl_dead (write_loop ws c)"
  by (induction ws c rule: write_loop.induct) (auto simp: Let_def split: list.split write_result.split)

lemma onClientWritable_inbuf [simp]: "cl_inbuf (onClientWritable c) = cl_inbuf c"
  by (simp add: onClientWritable_def)

lemma onClientWritable_dead: "cl_dead c \<Longrightarrow> cl_dead (onClientWritable c)"
  by (simp add: onClientWritable_def write_loop_dead)

lemma push_opt_inbuf [simp]: "cl_inbuf (push_opt m c) = cl_inbuf c"
  by (simp add: push_opt_def split: option.split)

lemma on_subscribe_keeps:
  "on_subscribe E lk body c = Some c' \<Longrightarrow> cl_inbuf c' = cl_inbuf c \<and> (cl_dead c \<longrightarrow> cl_dead c')"
  by (auto simp: on_subscribe_def Let_def bind_eq_Some_conv onClientWritable_dead
      split: option.splits if_splits)

lemma on_command_keeps:
  "on_command E lk body c = Some (c', calls) \<Longrightarrow>
   cl_inbuf c' = cl_inbuf c \<and> (cl_dead c \<longrightarrow> cl_dead c') \<and>
   (\<exists>r i. run_command E body = Some (r, i, calls))"
  by (auto simp: on_command_def Let_def bind_eq_Some_conv onClientWritable_dead)

lemma on_frame_calls:
  assumes "on_frame E lk f c = Some (c', calls)"
  shows "calls = frame_calls E f \<and> cl_inbuf c' = cl_inbuf c \<and> (cl_dead c \<longrightarrow> cl_dead c')"
proof -
  obtain h body where f: "f = (h, body)" by (cases f)
  consider "h_type h = message_type_code Subscribe"
    | "h_type h \<noteq> message_type_code Subscribe" "h_type h = message_type_code Command"
    | "h_type h \<noteq> message_type_code Subscribe" "h_type h \<noteq> message_type_code Command" by blast
  then show ?thesis
  proof cases
    case 1
    with assms f obtain "on_subscribe E lk body c = Some c'" "calls = []"
      by (auto simp: on_frame_def)
    from on_subscribe_keeps [OF this(1)] this(2) 1 f show ?thesis by (simp add: frame_calls_def)
  next
    case 2
    with assms f have "on_command E lk body c = Some (c', calls)" by (simp add: on_frame_def)
    from on_command_keeps [OF this] 2 f show ?thesis by (auto simp: frame_calls_def)
  next
    case 3
    with assms f show ?thesis by (auto simp: on_frame_def frame_calls_def split: if_splits)
  qed
qed

lemma on_frames_calls:
  "on_frames E lk fs c = Some (c', calls) \<Longrightarrow>
   calls = concat (map (frame_calls E) fs) \<and> cl_inbuf c' = cl_inbuf c \<and> (cl_dead c \<longrightarrow> cl_dead c')"
proof (induction fs arbitrary: c calls)
  case (Cons f fs)
  then obtain c1 calls1 calls2 where a: "on_frame E lk f c = Some (c1, calls1)"
    and b: "on_frames E lk fs c1 = Some (c', calls2)" and c: "calls = calls1 @ calls2"
    by (auto simp: bind_eq_Some_conv)
  from on_frame_calls [OF a] Cons.IH [OF b] c show ?case by auto
qed simp

lemma onClientReadable_split:
  assumes "onClientReadable E lk (Some d) c = Some (c', calls)" and "\<not> cl_dead c'"
  obtains fs where "split_frames (cl_inbuf c @ d) = (fs, Some (cl_inbuf c'))"
    "calls = concat (map (frame_calls E) fs)" "\<not> cl_dead c"
proof -
  obtain fs r where s: "split_frames (cl_inbuf c @ d) = (fs, r)"
    by (cases "split_frames (cl_inbuf c @ d)")
  from assms(1) s obtain c1 where o: "on_frames E lk fs c = Some (c1, calls)"
    and c': "c' = (case r of None \<Rightarrow> c1\<lparr>cl_inbuf := drop (sum_list (map (\<lambda>f. kHeaderSize + length (snd f)) fs))
          (cl_inbuf c @ d), cl_dead := True\<rparr> | Some rest \<Rightarrow> c1\<lparr>cl_inbuf := rest\<rparr>)"
    by (auto simp: onClientReadable_def inbound_split)
  from assms(2) c' obtain rest where r: "r = Some rest" by (cases r) auto
  with c' assms(2) have "cl_inbuf c' = rest" "\<not> cl_dead c1" by simp_all
  with on_frames_calls [OF o] s r show ?thesis by (intro that [of fs]) auto
qed

text \<open>Reads of one client, each in the link state of its time.\<close>

fun read_all :: "'j link_env \<Rightarrow> (link \<times> bytes) list \<Rightarrow> Client \<Rightarrow> (Client \<times> link_call list) option" where
  "read_all E [] c = Some (c, [])"
| "read_all E ((lk, d) # rs) c =
     Option.bind (onClientReadable E lk (Some d) c) (\<lambda>(c', calls).
       map_option (\<lambda>(c'', calls'). (c'', calls @ calls')) (read_all E rs c'))"

lemma read_all_alive:
  "read_all E rs c = Some (c', calls) \<Longrightarrow> \<not> cl_dead c' \<Longrightarrow> \<not> cl_dead c"
proof (induction rs arbitrary: c calls)
  case (Cons r rs)
  obtain lk d where r: "r = (lk, d)" by (cases r)
  from Cons.prems(1) r obtain c1 k1 k2 where a: "onClientReadable E lk (Some d) c = Some (c1, k1)"
    and b: "read_all E rs c1 = Some (c', k2)"
    by (auto simp: bind_eq_Some_conv)
  from Cons.IH [OF b Cons.prems(2)] have "\<not> cl_dead c1" .
  then show ?case using onClientReadable_split [OF a] by blast
qed simp

lemma read_all_split:
  "read_all E rs c = Some (c', calls) \<Longrightarrow> \<not> cl_dead c' \<Longrightarrow> rs \<noteq> [] \<Longrightarrow>
   \<exists>fs. split_frames (cl_inbuf c @ concat (map snd rs)) = (fs, Some (cl_inbuf c')) \<and>
     calls = concat (map (frame_calls E) fs)"
proof (induction rs arbitrary: c calls)
  case (Cons r rs)
  obtain lk d where r: "r = (lk, d)" by (cases r)
  from Cons.prems(1) r obtain c1 k1 k2 where a: "onClientReadable E lk (Some d) c = Some (c1, k1)"
    and b: "read_all E rs c1 = Some (c', k2)" and k: "calls = k1 @ k2"
    by (auto simp: bind_eq_Some_conv)
  have "\<not> cl_dead c1" by (rule read_all_alive [OF b Cons.prems(2)])
  from onClientReadable_split [OF a this] obtain fs where
    s: "split_frames (cl_inbuf c @ d) = (fs, Some (cl_inbuf c1))" and k1: "k1 = concat (map (frame_calls E) fs)"
    by blast
  show ?case
  proof (cases "rs = []")
    case True
    with b s k k1 r show ?thesis by auto
  next
    case False
    from Cons.IH [OF b Cons.prems(2) False] obtain gs where
      g: "split_frames (cl_inbuf c1 @ concat (map snd rs)) = (gs, Some (cl_inbuf c'))"
      and k2: "k2 = concat (map (frame_calls E) gs)" by blast
    have "split_frames ((cl_inbuf c @ d) @ concat (map snd rs)) = (fs @ gs, Some (cl_inbuf c'))"
      using split_frames_append [OF s, of "concat (map snd rs)"] g by simp
    then show ?thesis using k k1 k2 r by (intro exI [of _ "fs @ gs"]) simp
  qed
qed simp

section \<open>The invariant of the link is kept\<close>

lemma client_ok_frame [simp]:
  "client_ok (c\<lparr>cl_want_video := v, cl_want_audio := a, cl_want_events := e\<rparr>) = client_ok c"
  "client_ok (c\<lparr>cl_inbuf := b\<rparr>) = client_ok c"
  by (simp_all add: client_ok_def pending_def split: list.split)

lemma onClientWritable_fd: "client_ok c \<Longrightarrow> cl_fd (onClientWritable c) = cl_fd c"
  using same_streamD(3) [OF onClientWritable_same] .

lemma on_subscribe_ok:
  assumes "caches_ok lk" and "client_ok c" and "on_subscribe E lk body c = Some c'"
  shows "client_ok c' \<and> cl_fd c' = cl_fd c"
proof -
  have step: "client_ok (onClientWritable d) \<and> cl_fd (onClientWritable d) = cl_fd c"
    if "client_ok d" "cl_fd d = cl_fd c" for d
    using that by (simp add: onClientWritable_ok onClientWritable_fd)
  have pv: "client_ok (push_opt (lk_hello_video lk) d)" "client_ok (push_opt (lk_hello_audio lk) d)"
    if "client_ok d" for d
    using that caches_wire_size(1,2) [OF assms(1)] by (auto intro: push_opt_ok)
  show ?thesis
    using assms(2,3)
    by (auto simp: on_subscribe_def Let_def bind_eq_Some_conv split: option.splits if_splits
        intro!: step pv)
qed

lemma on_command_ok:
  assumes "client_ok c" and "on_command E lk body c = Some (c', calls)"
  shows "client_ok c' \<and> cl_fd c' = cl_fd c"
  using assms by (auto simp: on_command_def Let_def bind_eq_Some_conv onClientWritable_ok
      onClientWritable_fd push_msg_ok)

lemma on_frame_ok:
  assumes "caches_ok lk" and "client_ok c" and "on_frame E lk f c = Some (c', calls)"
  shows "client_ok c' \<and> cl_fd c' = cl_fd c"
proof -
  obtain h body where f: "f = (h, body)" by (cases f)
  consider "h_type h = message_type_code Subscribe"
    | "h_type h \<noteq> message_type_code Subscribe" "h_type h = message_type_code Command"
    | "h_type h \<noteq> message_type_code Subscribe" "h_type h \<noteq> message_type_code Command" by blast
  then show ?thesis
  proof cases
    case 1
    with assms(3) f have "on_subscribe E lk body c = Some c'" by (auto simp: on_frame_def)
    from on_subscribe_ok [OF assms(1,2) this] show ?thesis .
  next
    case 2
    with assms(3) f have "on_command E lk body c = Some (c', calls)" by (simp add: on_frame_def)
    from on_command_ok [OF assms(2) this] show ?thesis .
  next
    case 3
    with assms(2,3) f show ?thesis by (auto simp: on_frame_def split: if_splits)
  qed
qed

lemma on_frames_ok:
  "caches_ok lk \<Longrightarrow> client_ok c \<Longrightarrow> on_frames E lk fs c = Some (c', calls) \<Longrightarrow>
   client_ok c' \<and> cl_fd c' = cl_fd c"
proof (induction fs arbitrary: c calls)
  case (Cons f fs)
  then obtain c1 k1 k2 where a: "on_frame E lk f c = Some (c1, k1)"
    and b: "on_frames E lk fs c1 = Some (c', k2)"
    by (auto simp: bind_eq_Some_conv)
  from on_frame_ok [OF Cons.prems(1,2) a] Cons.IH [OF Cons.prems(1) _ b] show ?case by simp
qed simp

lemma client_ok_mark [simp]:
  "client_ok (c\<lparr>cl_inbuf := b, cl_dead := d\<rparr>) = client_ok c"
  by (simp add: client_ok_def pending_def split: list.split)

lemma onClientReadable_ok:
  assumes "caches_ok lk" and "client_ok c" and "onClientReadable E lk data c = Some (c', calls)"
  shows "client_ok c' \<and> cl_fd c' = cl_fd c"
proof (cases data)
  case None
  with assms show ?thesis by (auto simp: onClientReadable_def)
next
  case (Some d)
  obtain fs r where s: "split_frames (cl_inbuf c @ d) = (fs, r)"
    by (cases "split_frames (cl_inbuf c @ d)")
  with assms(3) Some obtain c1 where "on_frames E lk fs c = Some (c1, calls)"
    and "c' = (case r of None \<Rightarrow> c1\<lparr>cl_inbuf := drop (sum_list (map (\<lambda>f. kHeaderSize + length (snd f)) fs))
          (cl_inbuf c @ d), cl_dead := True\<rparr> | Some rest \<Rightarrow> c1\<lparr>cl_inbuf := rest\<rparr>)"
    by (auto simp: onClientReadable_def inbound_split)
  with on_frames_ok [OF assms(1,2)] show ?thesis by (auto split: option.split)
qed

lemma poll_client_ok:
  assumes "caches_ok lk" and "client_ok c" and "poll_client E lk p c = Some (c', calls)"
  shows "client_ok c' \<and> cl_fd c' = cl_fd c"
proof (cases "pf_hup p")
  case True
  with assms show ?thesis by (auto simp: poll_client_def)
next
  case False
  from assms(3) False obtain c1 where
    r: "(case pf_in p of None \<Rightarrow> Some (c, []) | Some data \<Rightarrow> onClientReadable E lk data c) = Some (c1, calls)"
    and c': "c' = (case pf_out p of None \<Rightarrow> c1
        | Some ws \<Rightarrow> if cl_dead c1 then c1 else onClientWritable (c1\<lparr>cl_writes := ws\<rparr>))"
    by (auto simp: poll_client_def bind_eq_Some_conv)
  have "client_ok c1 \<and> cl_fd c1 = cl_fd c"
    using r assms(2) onClientReadable_ok [OF assms(1,2)] by (auto split: option.splits)
  with c' show ?thesis
    by (auto simp: onClientWritable_ok onClientWritable_fd split: option.split)
qed

lemma set_client_ok:
  assumes "link_ok lk" and "client_ok c"
  shows "link_ok (set_client c lk)"
proof -
  have "clients_ok (lk\<lparr>lk_clients := map (\<lambda>x. if cl_fd x = cl_fd c then c else x) (lk_clients lk)\<rparr>)"
    using assms by (intro clients_ok_map) (auto simp: link_ok_def clients_ok_def)
  with assms show ?thesis by (simp add: link_ok_def set_client_def caches_ok_def)
qed

lemma poll_clients_ok:
  "link_ok lk \<Longrightarrow> poll_clients E ps lk = Some (lk', calls) \<Longrightarrow> link_ok lk'"
proof (induction ps arbitrary: lk calls)
  case (Cons p ps)
  show ?case
  proof (cases "find (\<lambda>c. cl_fd c = pf_fd p) (lk_clients lk)")
    case None
    with Cons show ?thesis by simp
  next
    case (Some c)
    then have "c \<in> set (lk_clients lk)" by (auto simp: find_Some_iff)
    then have c: "client_ok c" using Cons.prems(1) by (simp add: link_ok_def clients_ok_def)
    from Cons.prems(2) Some obtain c1 k1 k2 where a: "poll_client E lk p c = Some (c1, k1)"
      and b: "poll_clients E ps (set_client c1 lk) = Some (lk', k2)"
      by (auto simp: bind_eq_Some_conv)
    have "client_ok c1"
      using poll_client_ok [OF _ c a] Cons.prems(1) by (simp add: link_ok_def)
    from Cons.IH [OF set_client_ok [OF Cons.prems(1) this] b] show ?thesis .
  qed
qed simp

lemma stats_client_ok: "client_ok c \<Longrightarrow> client_ok (stats_client lk c) \<and> cl_fd (stats_client lk c) = cl_fd c"
  by (simp add: stats_client_def onClientWritable_ok onClientWritable_fd push_msg_ok)

lemma send_stats_ok: "link_ok lk \<Longrightarrow> link_ok (send_stats now lk)"
proof -
  assume lk: "link_ok lk"
  have "clients_ok (lk\<lparr>lk_clients := map (stats_client lk) (lk_clients lk)\<rparr>)"
    using lk stats_client_ok by (intro clients_ok_map) (auto simp: link_ok_def clients_ok_def)
  with lk show ?thesis by (simp add: send_stats_def link_ok_def caches_ok_def clients_ok_def)
qed

lemma reapDead_ok: "link_ok lk \<Longrightarrow> link_ok (reapDead lk)"
  by (simp add: link_ok_def clients_ok_reap) (simp add: reapDead_def caches_ok_def)

lemma run_turn_ok [inv_intros]:
  assumes "link_ok lk" and "run_turn E accepted ps now lk = Some (lk', calls)"
    and "\<forall>fd ws. accepted = Some (fd, ws) \<longrightarrow> fd \<notin> cl_fd ` set (lk_clients lk)"
  shows "link_ok lk'"
proof -
  define lk1 where "lk1 = (case accepted of None \<Rightarrow> lk | Some (fd, ws) \<Rightarrow> acceptClient fd ws lk)"
  have "link_ok lk1"
    using assms(1,3) by (auto simp: lk1_def acceptClient_ok split: option.split)
  moreover from assms(2) obtain lk2 where "poll_clients E ps lk1 = Some (lk2, calls)"
    and "lk' = reapDead (send_stats now lk2)"
    by (auto simp: run_turn_def lk1_def Let_def)
  ultimately show ?thesis using poll_clients_ok send_stats_ok reapDead_ok by blast
qed

lemma link_start_ok [inv_intros]:
  "link_ok lk \<Longrightarrow> link_start sp n s b l now lk = (ok, lk') \<Longrightarrow> link_ok lk'"
  by (auto simp: link_start_def Let_def link_ok_def caches_ok_def clients_ok_def split: if_splits)

lemma link_stop_ok [inv_intros]: "link_ok lk \<Longrightarrow> link_ok (link_stop lk)"
  by (auto simp: link_stop_def stop_bye_def link_ok_def caches_ok_def clients_ok_def)

section \<open>Reachable states\<close>

text \<open>
  Every operation, in any order, from any thread; each runs under the mutex. The kernel gives
  \<open>accept\<close> a descriptor that is not open.
\<close>

inductive link_step :: "'j link_env \<Rightarrow> link \<Rightarrow> link \<Rightarrow> bool" for E :: "'j link_env" where
  media: "link_step E lk (sendMedia stream keyframe pts payload lk)"
| params: "link_step E lk (setStreamParams stream c e w h n d s ch lk)"
| event: "publishEventJson (le_json E) now raw lk = Some lk' \<Longrightarrow> link_step E lk lk'"
| snapshot: "link_step E lk (setSnapshotJson now raw lk)"
| turn: "run_turn E accepted ps t lk = Some (lk', calls) \<Longrightarrow>
    (\<forall>fd ws. accepted = Some (fd, ws) \<longrightarrow> fd \<notin> cl_fd ` set (lk_clients lk)) \<Longrightarrow> link_step E lk lk'"
| start: "link_start sp len so b l t lk = (ok, lk') \<Longrightarrow> link_step E lk lk'"
| stop: "link_step E lk (link_stop lk)"

inductive link_reachable :: "'j link_env \<Rightarrow> Config \<Rightarrow> link \<Rightarrow> bool"
  for E :: "'j link_env" and cfg :: Config where
  init: "link_reachable E cfg (link_init cfg)"
| step: "link_reachable E cfg lk \<Longrightarrow> link_step E lk lk' \<Longrightarrow> link_reachable E cfg lk'"

inductive_cases link_stepE [elim]: "link_step E lk lk'"

lemma link_step_ok: "link_step E lk lk' \<Longrightarrow> link_ok lk \<Longrightarrow> link_ok lk'"
  by (erule link_stepE) (auto simp: sendMedia_ok setStreamParams_ok setSnapshotJson_ok link_stop_ok
      intro: publishEventJson_ok link_start_ok run_turn_ok)

section \<open>Properties\<close>

text \<open>
  C2. The link's invariant holds in every state that any sequence of its operations can reach:
  the cached HELLOs and the cached keyframe are those of the current generation, descriptors
  are distinct and at most \<open>max_clients\<close>, and each client's byte count equals the sizes of its
  queued messages, with the write offset inside the front message.
\<close>
theorem link_invariant:
  assumes "link_reachable E cfg lk"
  shows "link_ok lk \<and> (\<forall>c \<in> set (lk_clients lk).
    cl_queued_bytes c = sum_list (map wire_size (cl_queue c)) \<and>
    (cl_queue c \<noteq> [] \<longrightarrow> cl_front_offset c < wire_size (hd (cl_queue c))))"
proof -
  have "link_ok lk"
    using assms by (induction rule: link_reachable.induct) (auto intro: link_step_ok)
  then show ?thesis
    by (auto simp: link_ok_def clients_ok_def client_ok_def neq_Nil_conv)
qed

definition demo_env :: "jdoc link_env" where
  "demo_env = \<lparr>le_json = jdoc_api [''v'' \<mapsto> JObj [(''video'', JInt 1)]], le_handler = None,
     le_talkback = True\<rparr>"

theorem link_invariant_witness:
  "\<exists>lk. link_reachable demo_env Config_default lk \<and> lk_running lk \<and> link_ok lk"
proof -
  define lk where "lk = snd (link_start 108 20 True True True 0 (link_init Config_default))"
  have "link_start 108 20 True True True 0 (link_init Config_default) = (True, lk)"
    by (simp add: lk_def link_start_def Let_def)
  then have "link_reachable demo_env Config_default lk"
    by (intro link_reachable.step [OF link_reachable.init link_step.start])
  moreover have "lk_running lk" by (simp add: lk_def link_start_def Let_def)
  ultimately show ?thesis using link_invariant [of demo_env Config_default lk] by blast
qed


definition demo_talkback :: Message where
  "demo_talkback = makeControl 0 (message_type_code Talkback) 0 0 0 0 [1, 0, 0, 0, 9] True"

lemma demo_talkback_frame [simp]: "frame_ok demo_talkback"
  unfolding demo_talkback_def by (rule frame_ok_makeControl) simp

lemma demo_talkback_of: "frame_of demo_talkback = (link_header 0 0x13 0 0 0 0 5, [1, 0, 0, 0, 9])"
  by (simp add: frame_of_def demo_talkback_def msg_wire_makeControl numeral_eq_Suc)

lemma split_frames_one: "frame_ok m \<Longrightarrow> split_frames (msg_wire m) = ([frame_of m], Some [])"
  using split_frames_msg [of m "[]"] by (simp add: split_frames_short kHeaderSize_def)


text \<open>
  A client can end the process: a Subscribe frame whose JSON object has a member of the
  wrong type makes the library throw, and no handler stands between the throw and the
  thread's end, so the read yields no next state.
\<close>
theorem subscribe_type_error_uncaught:
  assumes "split_frames (cl_inbuf c @ d) = ((h, body) # fs, r)"
    and "h_type h = message_type_code Subscribe"
    and "j_parse (le_json E) (bytes_str body) = Some j" and "j_is_object (le_json E) j"
    and "j_value_bool (le_json E) j ''video'' True = None"
  shows "onClientReadable E lk (Some d) c = None"
  using assms
  by (simp add: onClientReadable_def inbound_split on_frame_def on_subscribe_def)

definition demo_subscribe :: Message where
  "demo_subscribe = makeControl 0 (message_type_code Subscribe) 0 0 0 0 (str_bytes ''v'') True"

theorem subscribe_type_error_uncaught_witness:
  "onClientReadable demo_env (link_init Config_default) (Some (msg_wire demo_subscribe)) (Client_init 5 []) = None"
proof (rule subscribe_type_error_uncaught)
  have f: "frame_ok demo_subscribe"
    unfolding demo_subscribe_def by (rule frame_ok_makeControl) (simp add: str_bytes_def)
  have o: "frame_of demo_subscribe = (link_header 0 0x10 0 0 0 0 1, str_bytes ''v'')"
    by (simp add: frame_of_def demo_subscribe_def msg_wire_makeControl)
  show "split_frames (cl_inbuf (Client_init 5 []) @ msg_wire demo_subscribe) =
      ((link_header 0 0x10 0 0 0 0 1, str_bytes ''v'') # [], Some [])"
    using split_frames_one [OF f] o by (simp add: Client_init_def)
  show "h_type (link_header 0 0x10 0 0 0 0 1) = message_type_code Subscribe"
    by (simp add: link_header_def)
  have "bytes_str (str_bytes ''v'') = ''v''" by code_simp
  then show "j_parse (le_json demo_env) (bytes_str (str_bytes ''v'')) = Some (JObj [(''video'', JInt 1)])"
    by (simp add: demo_env_def jdoc_simps)
  show "j_is_object (le_json demo_env) (JObj [(''video'', JInt 1)])"
    by (simp add: demo_env_def jdoc_simps)
  show "j_value_bool (le_json demo_env) (JObj [(''video'', JInt 1)]) ''video'' True = None"
    by (simp add: demo_env_def jdoc_simps)
qed

text \<open>
  The farewell of \<open>stop\<close>: written directly to the socket, the BYE frame reaches a consumer
  that has no message partly written; but it lands inside the payload of a partly written
  frame that has 24 or more bytes to come, and that consumer sees an unfinished frame
  instead of a BYE.
\<close>
theorem bye_needs_frame_boundary:
  assumes "client_ok c" and "list_all frame_ok (cl_written c @ cl_queue c)"
    and "cl_writes c = Wrote n # ws" and "24 \<le> n"
  shows "(cl_front_offset c = 0 \<longrightarrow>
      split_frames (cl_wire (bye_client (bye_message lk) c)) =
        (map frame_of (cl_written c) @ [frame_of (bye_message lk)], Some [])) \<and>
    (\<forall>m q. cl_queue c = m # q \<longrightarrow> 24 \<le> cl_front_offset c \<longrightarrow>
      cl_front_offset c + 24 < wire_size m \<longrightarrow>
      split_frames (cl_wire (bye_client (bye_message lk) c)) =
        (map frame_of (cl_written c),
         Some (take (cl_front_offset c) (msg_wire m) @ msg_wire (bye_message lk))))"
proof -
  let ?bye = "bye_message lk"
  have b: "frame_ok ?bye" unfolding bye_message_def by (rule frame_ok_makeControl) simp
  have bw: "msg_prefix ?bye = msg_wire ?bye" and bl: "length (msg_wire ?bye) = 24"
    by (simp_all add: bye_message_def makeControl_eq msg_wire_def payload_bytes_def wire_size_def kHeaderSize_def)
  have w: "cl_wire (bye_client ?bye c) = cl_wire c @ msg_wire ?bye"
    using assms(3,4) bl by (simp add: bye_client_def bw)
  have fr: "list_all frame_ok (cl_written c)" using assms(2) by simp
  note wire = client_okD(5) [OF assms(1)]
  have one: "split_frames (cl_wire (bye_client ?bye c)) =
      (map frame_of (cl_written c) @ [frame_of ?bye], Some [])" if "cl_front_offset c = 0"
    using that wire split_frames_messages [OF fr, of "msg_wire ?bye"] split_frames_one [OF b]
    by (simp add: w)
  have two: "split_frames (cl_wire (bye_client ?bye c)) =
      (map frame_of (cl_written c), Some (take (cl_front_offset c) (msg_wire m) @ msg_wire ?bye))"
    if q: "cl_queue c = m # q" and o: "24 \<le> cl_front_offset c" "cl_front_offset c + 24 < wire_size m"
    for m q
  proof -
    let ?p = "take (cl_front_offset c) (msg_wire m)"
    have m: "frame_ok m" using assms(2) q by simp
    have "split_frames (?p @ msg_wire ?bye) = ([], Some (?p @ msg_wire ?bye))"
      using m
    proof (cases rule: frame_ok_cases)
      case (1 h body)
      have len: "wire_size m = kHeaderSize + length body"
        using 1(1) by (metis length_append length_SerializeHeader length_msg_wire)
      have t: "?p = SerializeHeader h @ take (cl_front_offset c - kHeaderSize) body"
        using 1(1) o by (simp add: kHeaderSize_def)
      have lp: "length (?p @ msg_wire ?bye) = cl_front_offset c + 24"
        using bl o by simp
      have "ParseHeader (?p @ msg_wire ?bye) = (True, h)" unfolding t using 1(2) by simp
      then show ?thesis
        using lp len o 1(3) by (subst split_frames.simps) (simp add: Let_def kHeaderSize_def)
    qed
    moreover have "take (cl_front_offset c) (pending c) = ?p"
      using take_msg_wire_pending [OF q] o by simp
    ultimately show ?thesis
      using wire split_frames_messages [OF fr, of "?p @ msg_wire ?bye"] by (simp add: w)
  qed
  show ?thesis using one two by blast
qed

theorem bye_needs_frame_boundary_witness:
  "split_frames (cl_wire (bye_client (bye_message (link_init Config_default)) (Client_init 5 [Wrote 100]))) =
     ([frame_of (bye_message (link_init Config_default))], Some [])"
  using bye_needs_frame_boundary [of "Client_init 5 [Wrote 100]" 100 "[]" "link_init Config_default"]
  by (simp add: Client_init_def client_ok_def pending_def)

end
