(* ===== verification/Event_Bus.thy ===== *)
theory Event_Bus
  imports Prelude
begin

text \<open>
  core/include/zm/EventBus.hpp and EventBus.cpp, and the host wrappers of PluginManager.cpp
  (\<open>host_subscribe_evt\<close>, \<open>host_unsubscribe_evt\<close>, \<open>publish_evt\<close>). A callback is a value of
  the type parameter; \<open>publish\<close> returns the calls it makes, in order, each on the copy of the
  subscriber list it took under the lock.
\<close>

section \<open>The bus\<close>

record 'cb bus =
  subscribers :: "string \<rightharpoonup> (u64 \<times> 'cb) list"
  lastId :: u64

definition bus_init :: "'cb bus" where
  "bus_init = \<lparr>subscribers = Map.empty, lastId = 0\<rparr>"

definition bus_subscribe :: "'cb bus \<Rightarrow> string \<Rightarrow> 'cb \<Rightarrow> u64 \<times> 'cb bus" where
  "bus_subscribe b channel cb =
     (let sid = lastId b + 1;
          vec = (case subscribers b channel of None \<Rightarrow> [] | Some v \<Rightarrow> v)
      in (sid, b\<lparr>lastId := sid, subscribers := (subscribers b)(channel \<mapsto> vec @ [(sid, cb)])\<rparr>))"

definition bus_unsubscribe :: "'cb bus \<Rightarrow> string \<Rightarrow> u64 \<Rightarrow> 'cb bus" where
  "bus_unsubscribe b channel sid =
     (case subscribers b channel of
        None \<Rightarrow> b
      | Some vec \<Rightarrow>
          b\<lparr>subscribers := (subscribers b)(channel \<mapsto> filter (\<lambda>p. fst p \<noteq> sid) vec)\<rparr>)"

definition bus_publish :: "'cb bus \<Rightarrow> string \<Rightarrow> 'm \<Rightarrow> ('cb \<times> 'm) list" where
  "bus_publish b channel message =
     (case subscribers b channel of
        None \<Rightarrow> []
      | Some vec \<Rightarrow> map (\<lambda>p. (snd p, message)) vec)"

text \<open>The host API for plugins, on the channel all plugins share.\<close>

definition plugin_channel :: string where "plugin_channel = ''plugin_event''"

definition host_subscribe_evt :: "'cb bus \<Rightarrow> 'cb \<Rightarrow> u64 \<times> 'cb bus" where
  "host_subscribe_evt b cb = bus_subscribe b plugin_channel cb"

definition host_unsubscribe_evt :: "'cb bus \<Rightarrow> u64 \<Rightarrow> 'cb bus" where
  "host_unsubscribe_evt b handle = bus_unsubscribe b plugin_channel handle"

definition host_publish_evt :: "'cb bus \<Rightarrow> 'm \<Rightarrow> ('cb \<times> 'm) list" where
  "host_publish_evt b json_event = bus_publish b plugin_channel json_event"

section \<open>Contract\<close>

text \<open>
  What the clients of a bus rely on, over the list of live subscriptions of a channel.
\<close>

locale event_bus_contract =
  fixes subs :: "'b \<Rightarrow> string \<Rightarrow> ('id \<times> 'cb) list"
    and sub :: "'b \<Rightarrow> string \<Rightarrow> 'cb \<Rightarrow> 'id \<times> 'b"
    and unsub :: "'b \<Rightarrow> string \<Rightarrow> 'id \<Rightarrow> 'b"
    and fresh :: "'b \<Rightarrow> bool"
  assumes sub_same: "sub b ch cb = (i, b') \<Longrightarrow> subs b' ch = subs b ch @ [(i, cb)]"
    and sub_other: "sub b ch cb = (i, b') \<Longrightarrow> ch' \<noteq> ch \<Longrightarrow> subs b' ch' = subs b ch'"
    and sub_fresh: "fresh b \<Longrightarrow> sub b ch cb = (i, b') \<Longrightarrow> i \<notin> fst ` set (subs b ch')"
    and unsub_same: "subs (unsub b ch i) ch = filter (\<lambda>p. fst p \<noteq> i) (subs b ch)"
    and unsub_other: "ch' \<noteq> ch \<Longrightarrow> subs (unsub b ch i) ch' = subs b ch'"
begin

lemma sub_unsub:
  assumes "fresh b" and "sub b ch cb = (i, b')"
  shows "subs (unsub b' ch i) ch' = subs b ch'"
proof (cases "ch' = ch")
  case True
  have "filter (\<lambda>p. fst p \<noteq> i) (subs b ch) = subs b ch"
    by (rule filter_removeAll_key) (rule sub_fresh [OF assms])
  with True show ?thesis
    using sub_same [OF assms(2)] unsub_same by simp
next
  case False
  then show ?thesis using sub_other [OF assms(2)] unsub_other by simp
qed

lemma unsub_idem: "subs (unsub (unsub b ch i) ch i) ch' = subs (unsub b ch i) ch'"
  by (cases "ch' = ch") (simp_all add: unsub_same unsub_other)

end

definition bus_subs :: "'cb bus \<Rightarrow> string \<Rightarrow> (u64 \<times> 'cb) list" where
  "bus_subs b ch = (case subscribers b ch of None \<Rightarrow> [] | Some v \<Rightarrow> v)"

definition bus_ids_ok :: "'cb bus \<Rightarrow> bool" where
  "bus_ids_ok b \<longleftrightarrow> unat (lastId b) + 1 < 2 ^ 64 \<and>
     (\<forall>ch. \<forall>p \<in> set (bus_subs b ch). fst p \<le> lastId b)"

lemma bus_publish_subs: "bus_publish b ch m = map (\<lambda>p. (snd p, m)) (bus_subs b ch)"
  by (simp add: bus_publish_def bus_subs_def split: option.split)

lemma bus_subs_subscribe:
  "bus_subscribe b ch cb = (i, b') \<Longrightarrow>
   bus_subs b' ch' = (if ch' = ch then bus_subs b ch @ [(i, cb)] else bus_subs b ch')"
  by (auto simp: bus_subscribe_def bus_subs_def Let_def)

lemma bus_subs_unsubscribe:
  "bus_subs (bus_unsubscribe b ch i) ch' =
     (if ch' = ch then filter (\<lambda>p. fst p \<noteq> i) (bus_subs b ch) else bus_subs b ch')"
  by (auto simp: bus_unsubscribe_def bus_subs_def split: option.split)

lemma bus_subscribe_id: "bus_subscribe b ch cb = (i, b') \<Longrightarrow> i = lastId b + 1 \<and> lastId b' = i"
  by (auto simp: bus_subscribe_def Let_def)

lemma unat_lastId_Suc: "bus_ids_ok b \<Longrightarrow> unat (lastId b + 1) = unat (lastId b) + 1"
  by (simp add: bus_ids_ok_def unat_word_ariths)

interpretation bus: event_bus_contract bus_subs bus_subscribe bus_unsubscribe bus_ids_ok
proof
  fix b :: "'cb bus" and ch ch' cb i b'
  assume ok: "bus_ids_ok b" and s: "bus_subscribe b ch cb = (i, b')"
  have "lastId b < i"
    using bus_subscribe_id [OF s] unat_lastId_Suc [OF ok] by (simp add: word_less_nat_alt)
  then show "i \<notin> fst ` set (bus_subs b ch')"
    using ok by (fastforce simp: bus_ids_ok_def dest: leD)
qed (simp_all add: bus_subs_subscribe bus_subs_unsubscribe)

section \<open>Runs\<close>

datatype 'cb bus_op = BusSub string 'cb | BusUnsub string u64

fun bus_apply :: "'cb bus_op \<Rightarrow> 'cb bus \<Rightarrow> 'cb bus" where
  "bus_apply (BusSub ch cb) b = snd (bus_subscribe b ch cb)"
| "bus_apply (BusUnsub ch i) b = bus_unsubscribe b ch i"

definition bus_run :: "'cb bus_op list \<Rightarrow> 'cb bus \<Rightarrow> 'cb bus" where
  "bus_run ops b = fold bus_apply ops b"

text \<open>
  The specification: one list of subscriptions in the order they were made, numbered from 1
  with unbounded numbers.
\<close>

record 'cb bus_spec =
  live :: "(string \<times> nat \<times> 'cb) list"
  made :: nat

fun spec_op :: "'cb bus_op \<Rightarrow> 'cb bus_spec \<Rightarrow> 'cb bus_spec" where
  "spec_op (BusSub ch cb) s = s\<lparr>live := live s @ [(ch, made s + 1, cb)], made := made s + 1\<rparr>"
| "spec_op (BusUnsub ch i) s =
     s\<lparr>live := filter (\<lambda>(c, n, _). \<not> (c = ch \<and> n = unat i)) (live s)\<rparr>"

definition spec_run :: "'cb bus_op list \<Rightarrow> 'cb bus_spec" where
  "spec_run ops = fold spec_op ops \<lparr>live = [], made = 0\<rparr>"

definition spec_delivers :: "'cb bus_spec \<Rightarrow> string \<Rightarrow> 'm \<Rightarrow> ('cb \<times> 'm) list" where
  "spec_delivers s ch m = map (\<lambda>(_, _, cb). (cb, m)) (filter (\<lambda>(c, _, _). c = ch) (live s))"

definition bus_refines :: "'cb bus \<Rightarrow> 'cb bus_spec \<Rightarrow> bool" where
  "bus_refines b s \<longleftrightarrow> unat (lastId b) = made s \<and>
     (\<forall>(c, n, cb) \<in> set (live s). n \<le> made s) \<and>
     (\<forall>ch. bus_subs b ch =
        map (\<lambda>(_, n, cb). (of_nat n, cb)) (filter (\<lambda>(c, _, _). c = ch) (live s)))"

lemma bus_refines_init: "bus_refines bus_init \<lparr>live = [], made = 0\<rparr>"
  by (simp add: bus_refines_def bus_init_def bus_subs_def)

lemma filter_unsub_ids:
  fixes xs :: "(string \<times> nat \<times> 'cb) list"
  assumes "list_all (\<lambda>(c, n, cb). n < 2 ^ 64) xs"
  shows "filter (\<lambda>p. fst p \<noteq> i) (map (\<lambda>(_, n, cb). (of_nat n :: u64, cb))
           (filter (\<lambda>(c, _, _). c = ch) xs)) =
         map (\<lambda>(_, n, cb). (of_nat n, cb)) (filter (\<lambda>(c, _, _). c = ch)
           (filter (\<lambda>(c, n, _). \<not> (c = ch \<and> n = unat i)) xs))"
  using assms
proof (induction xs)
  case (Cons x xs)
  obtain c n cb where x: "x = (c, n, cb)" by (cases x)
  with Cons.prems have "n < 2 ^ 64" by simp
  then have "(of_nat n :: u64) = i \<longleftrightarrow> n = unat i"
    by (simp add: of_nat_eq_iff_unat)
  with x Cons show ?case by simp
qed simp

lemma bus_apply_refines:
  assumes r: "bus_refines b s" and lt: "made s + 1 < 2 ^ 64"
  shows "bus_refines (bus_apply op b) (spec_op op s)"
proof (cases op)
  case (BusSub ch cb)
  have lid: "unat (lastId b + 1) = made s + 1"
    using r lt by (simp add: bus_refines_def unat_word_ariths)
  obtain i b' where s': "bus_subscribe b ch cb = (i, b')" by (cases "bus_subscribe b ch cb")
  have i: "unat i = made s + 1" "lastId b' = i"
    using bus_subscribe_id [OF s'] lid by simp_all
  then have "of_nat (made s + 1) = i"
    using lt by (subst of_nat_eq_iff_unat) simp_all
  with r i BusSub s' show ?thesis
    by (auto simp: bus_refines_def bus_subs_subscribe [OF s'])
next
  case (BusUnsub ch i)
  have "list_all (\<lambda>(c, n, cb). n < 2 ^ 64) (live s)"
    using r lt by (fastforce simp: bus_refines_def list_all_iff)
  note ids = filter_unsub_ids [OF this]
  have other: "filter (\<lambda>(c, _, _). c = ch') (filter (\<lambda>(c, n, _). \<not> (c = ch \<and> n = unat i)) (live s)) =
      filter (\<lambda>(c, _, _). c = ch') (live s)" if "ch' \<noteq> ch" for ch'
    using that by (auto simp: filter_filter intro!: filter_cong)
  have "bus_subs (bus_unsubscribe b ch i) ch' = map (\<lambda>(_, n, cb). (of_nat n, cb))
      (filter (\<lambda>(c, _, _). c = ch') (live (spec_op op s)))" for ch'
    using r BusUnsub ids [where ch = ch and i = i] other [of ch']
    by (cases "ch' = ch") (simp_all add: bus_refines_def bus_subs_unsubscribe del: filter_filter)
  moreover have "lastId (bus_unsubscribe b ch i) = lastId b"
    by (simp add: bus_unsubscribe_def split: option.split)
  ultimately show ?thesis
    using r BusUnsub by (auto simp: bus_refines_def simp del: filter_filter)
qed

lemma spec_apply_made: "made (spec_op op s) \<le> made s + 1"
  by (cases op) auto

lemma spec_apply_made_ge: "made s \<le> made (spec_op op s)"
  by (cases op) auto

lemma bus_fold_refines:
  "bus_refines b s \<Longrightarrow> made s + length ops < 2 ^ 64 \<Longrightarrow>
   bus_refines (fold bus_apply ops b) (fold spec_op ops s)"
proof (induction ops arbitrary: b s)
  case (Cons op ops)
  have "bus_refines (bus_apply op b) (spec_op op s)"
    by (rule bus_apply_refines) (use Cons.prems in simp_all)
  moreover have "made (spec_op op s) + length ops < 2 ^ 64"
    using spec_apply_made [of op s] Cons.prems(2) by simp
  ultimately show ?case using Cons.IH by simp
qed simp

lemma bus_refines_publish:
  assumes "bus_refines b s" shows "bus_publish b ch m = spec_delivers s ch m"
  using assms
  by (auto simp: bus_refines_def bus_publish_subs spec_delivers_def)

lemma bus_run_delivers:
  "length ops < 2 ^ 64 \<Longrightarrow> bus_publish (bus_run ops bus_init) ch m = spec_delivers (spec_run ops) ch m"
  unfolding bus_run_def spec_run_def
  by (rule bus_refines_publish [OF bus_fold_refines [OF bus_refines_init]]) simp

lemma spec_fold_made: "made (fold spec_op ops s) \<le> made s + length ops"
proof (induction ops arbitrary: s)
  case (Cons op ops)
  from Cons.IH [of "spec_op op s"] spec_apply_made [of op s] show ?case by simp
qed simp

lemma bus_run_fresh:
  assumes "length ops + 1 < 2 ^ 64" shows "bus_ids_ok (bus_run ops bus_init)"
proof -
  let ?s = "spec_run ops"
  have r: "bus_refines (bus_run ops bus_init) ?s"
    unfolding bus_run_def spec_run_def
    by (rule bus_fold_refines [OF bus_refines_init]) (use assms in simp)
  from spec_fold_made [of ops "\<lparr>live = [], made = 0\<rparr>"] have "made ?s \<le> length ops"
    by (simp add: spec_run_def)
  with assms have lt: "made ?s + 1 < 2 ^ 64" by simp
  with r show ?thesis
    by (fastforce simp: bus_refines_def bus_ids_ok_def word_le_nat_alt)
qed

section \<open>Properties\<close>

text \<open>C39. The event bus refines its specification: after any run of fewer than \<open>2^64\<close>
  subscribe and unsubscribe calls, publishing on a channel calls exactly the callbacks still
  subscribed to it, in subscription order, each with the message, and no other.\<close>

theorem bus_delivers_live_subscriptions:
  assumes "length ops < 2 ^ 64"
  shows "bus_publish (bus_run ops bus_init) ch m = spec_delivers (spec_run ops) ch m"
  using assms by (rule bus_run_delivers)

theorem bus_delivers_live_subscriptions_witness:
  "length [BusSub ''e'' (7::nat), BusSub ''x'' 8, BusSub ''e'' 9, BusUnsub ''e'' 1] < 2 ^ 64 \<and>
   bus_publish (bus_run [BusSub ''e'' (7::nat), BusSub ''x'' 8, BusSub ''e'' 9, BusUnsub ''e'' 1]
     bus_init) ''e'' ''msg'' = [(9, ''msg'')]"
proof -
  let ?ops = "[BusSub ''e'' (7::nat), BusSub ''x'' 8, BusSub ''e'' 9, BusUnsub ''e'' 1]"
  have h: "length ?ops < 2 ^ 64" by simp
  have "spec_delivers (spec_run ?ops) ''e'' ''msg'' = [(9, ''msg'')]"
    by (simp add: spec_run_def spec_delivers_def)
  with bus_delivers_live_subscriptions [OF h, of "''e''" "''msg''"]
  have "bus_publish (bus_run ?ops bus_init) ''e'' ''msg'' = [(9, ''msg'')]" by (simp only:)
  with h show ?thesis by blast
qed

text \<open>A plugin that unsubscribes with the handle its host subscription returned leaves
  every channel as it was before it subscribed, on any bus reached by fewer than
  \<open>2^64 - 1\<close> calls: no other plugin's subscription shares the handle.\<close>

theorem host_unsubscribe_cancels_subscribe:
  assumes "length ops + 1 < 2 ^ 64"
    and "host_subscribe_evt (bus_run ops bus_init) cb = (handle, b')"
  shows "bus_publish (host_unsubscribe_evt b' handle) ch m = bus_publish (bus_run ops bus_init) ch m"
proof -
  from assms(2) have "bus_subscribe (bus_run ops bus_init) plugin_channel cb = (handle, b')"
    by (simp add: host_subscribe_evt_def)
  from bus.sub_unsub [OF bus_run_fresh [OF assms(1)] this] show ?thesis
    by (simp add: bus_publish_subs host_unsubscribe_evt_def)
qed

theorem host_unsubscribe_cancels_subscribe_witness:
  "host_subscribe_evt (bus_run [BusSub ''plugin_event'' (1::nat)] bus_init) 2 =
     (2, snd (host_subscribe_evt (bus_run [BusSub ''plugin_event'' (1::nat)] bus_init) 2)) \<and>
   bus_publish (host_unsubscribe_evt
     (snd (host_subscribe_evt (bus_run [BusSub ''plugin_event'' (1::nat)] bus_init) 2)) 2)
     ''plugin_event'' () = [(1, ())]"
proof -
  let ?b = "bus_run [BusSub ''plugin_event'' (1::nat)] bus_init"
  have h: "host_subscribe_evt ?b 2 = (2, snd (host_subscribe_evt ?b 2))"
    by (simp add: host_subscribe_evt_def bus_subscribe_def bus_run_def bus_init_def Let_def)
  have l: "length [BusSub ''plugin_event'' (1::nat)] + 1 < 2 ^ 64" by simp
  have "bus_publish ?b ''plugin_event'' () = [(1, ())]"
    by (simp add: bus_publish_def bus_subscribe_def bus_run_def bus_init_def Let_def)
  with host_unsubscribe_cancels_subscribe [OF l h, of "''plugin_event''" "()"]
  have "bus_publish (host_unsubscribe_evt (snd (host_subscribe_evt ?b 2)) 2) ''plugin_event'' () = [(1, ())]"
    by (simp only:)
  with h show ?thesis by blast
qed

end
