(* ===== verification/Std_Strings.thy ===== *)
theory Std_Strings
  imports Prelude
begin

text \<open>
  The functions of the C++ standard library on strings that the program uses: \<open>std::to_string\<close>,
  \<open>std::stoll\<close>, \<open>string::find\<close> as a test, and \<open>snprintf\<close> with the conversions that occur in it.
\<close>

section \<open>Numbers\<close>

text \<open>\<open>std::to_string\<close> on an integer.\<close>

fun nat_digits :: "nat \<Rightarrow> string" where
  "nat_digits n = (if n < 10 then [char_of (48 + n)] else nat_digits (n div 10) @ [char_of (48 + n mod 10)])"

declare nat_digits.simps [simp del]

definition to_string :: "int \<Rightarrow> string" where
  "to_string i = (if i < 0 then CHR ''-'' # nat_digits (nat (- i)) else nat_digits (nat i))"

text \<open>\<open>std::stoll\<close> in base 10; \<open>None\<close> for \<open>invalid_argument\<close> and \<open>out_of_range\<close>.\<close>

definition is_space_char :: "char \<Rightarrow> bool" where
  "is_space_char c \<longleftrightarrow> (of_char c :: nat) \<in> {9, 10, 11, 12, 13, 32}"

definition is_digit_char :: "char \<Rightarrow> bool" where
  "is_digit_char c \<longleftrightarrow> 48 \<le> (of_char c :: nat) \<and> (of_char c :: nat) \<le> 57"

definition digits_value :: "string \<Rightarrow> nat" where
  "digits_value ds = foldl (\<lambda>acc c. acc * 10 + (of_char c - 48)) 0 ds"

definition stoll :: "string \<Rightarrow> int option" where
  "stoll s =
     (let t = dropWhile is_space_char s;
          neg = (t \<noteq> [] \<and> hd t = CHR ''-'');
          u = (if t \<noteq> [] \<and> (hd t = CHR ''-'' \<or> hd t = CHR ''+'') then tl t else t);
          ds = takeWhile is_digit_char u;
          v = (if neg then - int (digits_value ds) else int (digits_value ds))
      in if ds = [] then None
         else if v < - (2 ^ 63) \<or> v \<ge> 2 ^ 63 then None else Some v)"

text \<open>\<open>%0wd\<close>, and the cut that \<open>snprintf\<close> makes in a buffer of \<open>size\<close> bytes.\<close>

definition pad_zero :: "nat \<Rightarrow> string \<Rightarrow> string" where
  "pad_zero w ds = replicate (w - length ds) (CHR ''0'') @ ds"

definition fmt_0d :: "nat \<Rightarrow> int \<Rightarrow> string" where
  "fmt_0d w i = (if i < 0 then CHR ''-'' # pad_zero (w - 1) (nat_digits (nat (- i)))
                 else pad_zero w (nat_digits (nat i)))"

definition snprintf_cut :: "nat \<Rightarrow> string \<Rightarrow> string" where
  "snprintf_cut bufsize s = take (bufsize - 1) s"

section \<open>Searching\<close>

fun has_prefix :: "string \<Rightarrow> string \<Rightarrow> bool" where
  "has_prefix [] s = True"
| "has_prefix (p # ps) [] = False"
| "has_prefix (p # ps) (c # s) = (p = c \<and> has_prefix ps s)"

text \<open>\<open>evt.find(needle) != npos\<close>.\<close>

fun contains_str :: "string \<Rightarrow> string \<Rightarrow> bool" where
  "contains_str needle [] = (needle = [])"
| "contains_str needle (c # s) = (has_prefix needle (c # s) \<or> contains_str needle s)"

text \<open>\<open>strstr\<close> and \<open>strchr\<close>: what stands from the first occurrence on.\<close>

fun strstr :: "string \<Rightarrow> string \<Rightarrow> string option" where
  "strstr [] needle = (if needle = [] then Some [] else None)"
| "strstr (c # s) needle = (if has_prefix needle (c # s) then Some (c # s) else strstr s needle)"

definition strchr :: "string \<Rightarrow> char \<Rightarrow> string option" where
  "strchr s c = (case dropWhile (\<lambda>x. x \<noteq> c) s of [] \<Rightarrow> None | t \<Rightarrow> Some t)"

text \<open>\<open>strtoul\<close> in base 10 with a 64-bit \<open>unsigned long\<close>: a sign is allowed, an overflow gives the maximum.\<close>

definition strtoul :: "string \<Rightarrow> u64" where
  "strtoul s =
     (let t = dropWhile is_space_char s;
          neg = (t \<noteq> [] \<and> hd t = CHR ''-'');
          u = (if t \<noteq> [] \<and> (hd t = CHR ''-'' \<or> hd t = CHR ''+'') then tl t else t);
          v = digits_value (takeWhile is_digit_char u)
      in if v \<ge> 2 ^ 64 then - 1 else if neg then - of_nat v else of_nat v)"

text \<open>\<open>string::find(needle, pos)\<close>, \<open>find_first_of\<close> and \<open>substr(pos, n)\<close>; \<open>None\<close> is \<open>npos\<close>.\<close>

definition string_find :: "string \<Rightarrow> string \<Rightarrow> nat \<Rightarrow> nat option" where
  "string_find s needle pos = find (\<lambda>i. has_prefix needle (drop i s)) [pos..<length s + 1]"

definition string_find_first_of :: "string \<Rightarrow> string \<Rightarrow> nat \<Rightarrow> nat option" where
  "string_find_first_of s cs pos = find (\<lambda>i. s ! i \<in> set cs) [pos..<length s]"

definition string_rfind :: "string \<Rightarrow> string \<Rightarrow> nat option" where
  "string_rfind s needle = find (\<lambda>i. has_prefix needle (drop i s)) (rev [0..<length s + 1])"

text \<open>\<open>npos + 1\<close> is 0, and \<open>npos - pos\<close> as a count reaches to the end of the string.\<close>

definition after_pos :: "nat option \<Rightarrow> nat" where
  "after_pos r = (case r of None \<Rightarrow> 0 | Some i \<Rightarrow> i + 1)"

definition substr_to :: "string \<Rightarrow> nat \<Rightarrow> nat option \<Rightarrow> string" where
  "substr_to s a b = (case b of None \<Rightarrow> drop a s | Some e \<Rightarrow> take (e - a) (drop a s))"

text \<open>\<open>std::stoul\<close>: \<open>None\<close> for its exceptions.\<close>

definition stoul :: "string \<Rightarrow> u64 option" where
  "stoul s =
     (let t = dropWhile is_space_char s;
          neg = (t \<noteq> [] \<and> hd t = CHR ''-'');
          u = (if t \<noteq> [] \<and> (hd t = CHR ''-'' \<or> hd t = CHR ''+'') then tl t else t);
          ds = takeWhile is_digit_char u;
          v = digits_value ds
      in if ds = [] \<or> v \<ge> 2 ^ 64 then None else Some (if neg then - of_nat v else of_nat v))"

section \<open>Facts\<close>

lemma of_char_digit: "n < 10 \<Longrightarrow> (of_char (char_of (48 + n) :: char) :: nat) = 48 + n"
  by simp

lemma digits_value_append: "digits_value (xs @ [c]) = digits_value xs * 10 + (of_char c - 48)"
  by (simp add: digits_value_def)

lemma nat_digits_props:
  "nat_digits n \<noteq> [] \<and> digits_value (nat_digits n) = n \<and> (\<forall>c \<in> set (nat_digits n). is_digit_char c)"
proof (induction n rule: nat_digits.induct)
  case (1 n)
  show ?case
  proof (cases "n < 10")
    case True
    then show ?thesis
      by (simp add: nat_digits.simps [of n] digits_value_def is_digit_char_def)
  next
    case False
    have m: "n mod 10 < 10" by simp
    show ?thesis
      using 1 [OF False] False of_char_digit [OF m] m
      by (simp add: nat_digits.simps [of n] digits_value_append is_digit_char_def)
  qed
qed

lemma takeWhile_digits: "takeWhile is_digit_char (nat_digits n) = nat_digits n"
  using nat_digits_props [of n] by (simp add: takeWhile_eq_all_conv)

lemma digit_not_special:
  "is_digit_char c \<Longrightarrow> \<not> is_space_char c \<and> c \<noteq> CHR ''-'' \<and> c \<noteq> CHR ''+''"
  by (auto simp: is_digit_char_def is_space_char_def)

lemma hd_nat_digits: "is_digit_char (hd (nat_digits n))"
  using nat_digits_props [of n] by simp

lemma stoll_to_string:
  assumes "- (2 ^ 63) \<le> i" and "i < 2 ^ 63"
  shows "stoll (to_string i) = Some i"
proof -
  have ne: "nat_digits n \<noteq> []" for n using nat_digits_props by blast
  have val: "digits_value (nat_digits n) = n" for n using nat_digits_props by blast
  have hd: "\<not> is_space_char (hd (nat_digits n))" "hd (nat_digits n) \<noteq> CHR ''-''"
    "hd (nat_digits n) \<noteq> CHR ''+''" for n
    using digit_not_special [OF hd_nat_digits [of n]] by auto
  have dw: "dropWhile is_space_char (nat_digits n) = nat_digits n" for n
    using ne [of n] hd(1) [of n] by (cases "nat_digits n") auto
  have sp: "\<not> is_space_char CHR ''-''" by (simp add: is_space_char_def)
  show ?thesis
    using assms
    by (simp add: stoll_def to_string_def Let_def dw sp ne hd val takeWhile_digits)
      (auto simp: not_le not_less nat_le_iff nat_less_iff)
qed

lemma stoll_range: "stoll s = Some n \<Longrightarrow> - (2 ^ 63) \<le> n \<and> n < 2 ^ 63"
  by (auto simp: stoll_def Let_def split: if_splits)

lemma has_prefix_length: "has_prefix n s \<Longrightarrow> length n \<le> length s"
  by (induction n s rule: has_prefix.induct) auto

lemma has_prefix_split: "has_prefix n s \<Longrightarrow> s = n @ drop (length n) s"
  by (induction n s rule: has_prefix.induct) auto

lemma string_find_step:
  "pos \<le> length s \<Longrightarrow> string_find s n pos = (if has_prefix n (drop pos s) then Some pos else string_find s n (Suc pos))"
proof -
  assume "pos \<le> length s"
  then have "[pos..<length s + 1] = pos # [Suc pos..<length s + 1]" by (simp add: upt_conv_Cons)
  then show ?thesis by (simp add: string_find_def)
qed

lemma string_find_Some:
  "string_find s n pos = Some i \<Longrightarrow> pos \<le> i \<and> i + length n \<le> length s"
proof -
  assume "string_find s n pos = Some i"
  then have "i \<in> set [pos..<length s + 1]" "has_prefix n (drop i s)"
    using find_Some_mem unfolding string_find_def by fastforce+
  then show ?thesis using has_prefix_length [of n "drop i s"] by auto
qed

section \<open>Paths\<close>

text \<open>\<open>filename\<close>, \<open>parent_path\<close> and the operator \<open>/\<close> of a POSIX path; the right side of \<open>/\<close> is relative here.\<close>

definition path_filename :: "string \<Rightarrow> string" where
  "path_filename p = rev (takeWhile (\<lambda>c. c \<noteq> CHR ''/'') (rev p))"

definition parent_path :: "string \<Rightarrow> string" where
  "parent_path p =
     (let dir = dropWhile (\<lambda>c. c \<noteq> CHR ''/'') (rev p); stripped = rev (dropWhile (\<lambda>c. c = CHR ''/'') dir)
      in if stripped = [] \<and> dir \<noteq> [] then ''/'' else stripped)"

definition path_join :: "string \<Rightarrow> string \<Rightarrow> string" where
  "path_join a b = (if a = [] then b else if last a = CHR ''/'' then a @ b else a @ ''/'' @ b)"

end
