(* ===== verification/Zm_Core.thy ===== *)
theory Zm_Core
  imports Link_Loop Plugin_Manager Event_Bus Std_Strings
begin

text \<open>
  The worker process: \<open>main\<close> of src/zm-core.cpp with its command handler and the bridge from the
  event bus to the link. The pieces it puts together are the other theories; the file system, the
  JSON library, the dynamic linker and the system calls of the link are arguments.
\<close>

section \<open>Arguments\<close>

record core_args =
  pipelineFile :: string
  pipelinesDir :: string
  socketPath :: string
  monitorId :: int

definition core_args_init :: core_args where
  "core_args_init = \<lparr>pipelineFile = [], pipelinesDir = [], socketPath = [], monitorId = 0\<rparr>"

datatype arg_result = Help | BadNumber | Parsed core_args

definition is_help :: "string \<Rightarrow> bool" where
  "is_help arg \<longleftrightarrow> arg = ''-h'' \<or> arg = ''--help''"

text \<open>The loop over \<open>argv\<close> from index 1. An option without its value is passed over.\<close>

fun parse_args :: "string list \<Rightarrow> core_args \<Rightarrow> arg_result" where
  "parse_args [] a = Parsed a"
| "parse_args [arg] a = (if is_help arg then Help else Parsed a)"
| "parse_args (arg # v # rest) a =
     (if arg = ''--pipeline'' then parse_args rest (a\<lparr>pipelineFile := v\<rparr>)
      else if arg = ''--pipelines-dir'' then parse_args rest (a\<lparr>pipelinesDir := v\<rparr>)
      else if arg = ''--socket'' then parse_args rest (a\<lparr>socketPath := v\<rparr>)
      else if arg = ''--monitor-id'' then
        (case stoll v of None \<Rightarrow> BadNumber | Some n \<Rightarrow> parse_args rest (a\<lparr>monitorId := n\<rparr>))
      else if is_help arg then Help
      else parse_args (v # rest) a)"

text \<open>\<open>fs::path::extension\<close>.\<close>

definition path_extension :: "string \<Rightarrow> string" where
  "path_extension p =
     (let f = path_filename p;
          ext = rev (takeWhile (\<lambda>c. c \<noteq> CHR ''.'') (rev f))
      in if f = ''..'' \<or> CHR ''.'' \<notin> set f \<or> length ext + 1 = length f then [] else CHR ''.'' # ext)"

text \<open>The first entry of the directory, in iteration order, with the extension \<open>.json\<close>.\<close>

definition find_pipeline :: "string list \<Rightarrow> string" where
  "find_pipeline entries =
     (case filter (\<lambda>p. path_extension p = ''.json'') entries of [] \<Rightarrow> [] | p # _ \<Rightarrow> p)"

section \<open>The worker's state\<close>

text \<open>
  A subscriber of the bus is the bridge or the callback of a plugin, given by the plugin's index.
\<close>

datatype subscriber = Bridge | PluginCallback nat

record 'h core =
  co_shutdown :: bool            \<comment> \<open>\<open>g_shutdown\<close>\<close>
  co_manager :: "'h manager"
  co_link :: "link option"
  co_bus :: "subscriber bus"
  co_ring_name :: string

definition handle_signal :: "int \<Rightarrow> int \<Rightarrow> 'h core \<Rightarrow> 'h core" where
  "handle_signal SIGHUP sig s = (if sig = SIGHUP then s else s\<lparr>co_shutdown := True\<rparr>)"

subsection \<open>Commands\<close>

text \<open>
  The command handler: the result, the new flag, and the texts it publishes on the bus. The
  handler runs on the link's thread, with the link's mutex held.
\<close>

definition command_handler :: "string \<Rightarrow> string \<Rightarrow> 'h core \<Rightarrow> CommandResult \<times> 'h core \<times> string list" where
  "command_handler name args s =
     (if name = ''stop'' \<or> name = ''shutdown'' then
        (\<lparr>cr_ok = True, cr_message = ''stopping'', cr_data_json = []\<rparr>, s\<lparr>co_shutdown := True\<rparr>, [])
      else if name = ''status'' then
        (\<lparr>cr_ok = True, cr_message = ''status'',
          cr_data_json = ''{\"plugins\":'' @ to_string (int (pluginCount (pm_pipeline (co_manager s)))) @
            '',\"running\":'' @ (if co_shutdown s then ''false'' else ''true'') @ ''}''\<rparr>, s, [])
      else if name = ''reload'' then
        (\<lparr>cr_ok = False, cr_message = ''not_implemented'', cr_data_json = []\<rparr>, s, [])
      else if name = ''assign_recording'' then
        (\<lparr>cr_ok = True, cr_message = ''dispatched'', cr_data_json = []\<rparr>, s, [args])
      else (\<lparr>cr_ok = False, cr_message = ''unknown_command: '' @ name, cr_data_json = []\<rparr>, s, []))"

subsection \<open>The bridge\<close>

definition is_command_text :: "'j json_api \<Rightarrow> string \<Rightarrow> bool" where
  "is_command_text J evt \<longleftrightarrow>
     contains_str ''\"cmd\"'' evt \<and>
     (case j_parse J evt of
        None \<Rightarrow> False
      | Some j \<Rightarrow> j_is_object J j \<and> j_field J j ''cmd'' \<noteq> None)"

text \<open>
  What a call can come to: the mutex of the link is a \<open>std::mutex\<close>, and a thread that locks it again
  while it holds it does not return. \<open>Raised\<close> is an exception of the JSON library.
\<close>

datatype 'a outcome = Deadlock | Raised | Done 'a

definition locked_publish :: "bool \<Rightarrow> 'j json_api \<Rightarrow> u64 \<Rightarrow> string \<Rightarrow> link \<Rightarrow> link outcome" where
  "locked_publish held J now evt lk =
     (if held then Deadlock
      else case publishEventJson J now evt lk of None \<Rightarrow> Raised | Some lk' \<Rightarrow> Done lk')"

definition bridge :: "bool \<Rightarrow> 'j json_api \<Rightarrow> u64 \<Rightarrow> string \<Rightarrow> link \<Rightarrow> link outcome" where
  "bridge held J now evt lk =
     (if is_command_text J evt then Done lk else locked_publish held J now evt lk)"

text \<open>
  \<open>publish\<close> on the bus, carried out: the calls in the order of the bus. The callback of a plugin is
  recorded, with its text.
\<close>

fun run_calls ::
  "bool \<Rightarrow> 'j json_api \<Rightarrow> u64 \<Rightarrow> (subscriber \<times> string) list \<Rightarrow> link \<Rightarrow>
   (link \<times> (nat \<times> string) list) outcome" where
  "run_calls held J now [] lk = Done (lk, [])"
| "run_calls held J now ((PluginCallback i, evt) # calls) lk =
     (case run_calls held J now calls lk of
        Done (lk', log) \<Rightarrow> Done (lk', (i, evt) # log)
      | Raised \<Rightarrow> Raised
      | Deadlock \<Rightarrow> Deadlock)"
| "run_calls held J now ((Bridge, evt) # calls) lk =
     (case bridge held J now evt lk of
        Done lk' \<Rightarrow> run_calls held J now calls lk'
      | Raised \<Rightarrow> Raised
      | Deadlock \<Rightarrow> Deadlock)"

definition plugin_publish ::
  "'j json_api \<Rightarrow> u64 \<Rightarrow> string \<Rightarrow> 'h core \<Rightarrow> link \<Rightarrow> (link \<times> (nat \<times> string) list) outcome" where
  "plugin_publish J now evt s lk = run_calls False J now (host_publish_evt (co_bus s) evt) lk"

text \<open>A command from a consumer: the handler, and the publication of its text with the mutex held.\<close>

definition run_handler ::
  "'j json_api \<Rightarrow> u64 \<Rightarrow> string \<Rightarrow> string \<Rightarrow> 'h core \<Rightarrow> link \<Rightarrow>
   (CommandResult \<times> 'h core \<times> link \<times> (nat \<times> string) list) outcome" where
  "run_handler J now name args s lk =
     (case command_handler name args s of
        (r, s', texts) \<Rightarrow>
          (case run_calls True J now
             (concat (map (\<lambda>t. bus_publish (co_bus s') plugin_channel t) texts)) lk of
             Done (lk', log) \<Rightarrow> Done (r, s', lk', log)
           | Raised \<Rightarrow> Raised
           | Deadlock \<Rightarrow> Deadlock))"

subsection \<open>main\<close>

record ('j, 'h) core_env =
  ce_json :: "'j json_api"
  ce_ext :: string                                \<comment> \<open>\<open>ZM_PLUGIN_EXT\<close>\<close>
  ce_read :: "string \<Rightarrow> string option"            \<comment> \<open>the text of a file\<close>
  ce_dir :: "string \<Rightarrow> string list option"        \<comment> \<open>the entries of a directory; None: throws\<close>
  ce_linker :: "'h linker"
  ce_sun_path :: nat
  ce_socket :: bool
  ce_bind :: bool
  ce_listen :: bool
  ce_now :: int

datatype 'h core_result = Exit int | Uncaught | Running "'h core" "lifecycle list"

text \<open>The pipeline file: given, or the first one of the directory; an empty name is no file.\<close>

definition pick_pipeline :: "('j, 'h) core_env \<Rightarrow> core_args \<Rightarrow> string option" where
  "pick_pipeline E a =
     (if pipelineFile a = [] \<and> pipelinesDir a \<noteq> []
      then map_option find_pipeline (ce_dir E (pipelinesDir a))
      else Some (pipelineFile a))"

definition ring_name :: "core_args \<Rightarrow> string" where
  "ring_name a = ''zm_shmring_'' @ to_string (monitorId a)"

definition start_link :: "('j, 'h) core_env \<Rightarrow> core_args \<Rightarrow> bool \<times> link" where
  "start_link E a =
     link_start (ce_sun_path E) (length (socketPath a)) (ce_socket E) (ce_bind E) (ce_listen E) (ce_now E)
       (link_init Config_default)"

text \<open>From the loaded plugins on: the link with its bridge, then the ring name and the threads.\<close>

definition core_start :: "('j, 'h) core_env \<Rightarrow> core_args \<Rightarrow> 'h PluginInstance list \<Rightarrow> 'h core_result" where
  "core_start E a pl =
     (let m = \<lparr>pm_pipeline = pl, pm_runners = [], pm_capture = None\<rparr> in
      if socketPath a = [] then
        (case startAll m of (m', acts) \<Rightarrow>
           Running \<lparr>co_shutdown = False, co_manager = m', co_link = None, co_bus = bus_init,
                    co_ring_name = ring_name a\<rparr> acts)
      else case start_link E a of
        (False, _) \<Rightarrow> Exit 5
      | (True, lk) \<Rightarrow>
          (case startAll m of (m', acts) \<Rightarrow>
             Running \<lparr>co_shutdown = False, co_manager = m', co_link = Some lk,
                      co_bus = snd (bus_subscribe bus_init plugin_channel Bridge),
                      co_ring_name = ring_name a\<rparr> acts))"

text \<open>\<open>main\<close> up to its main loop; \<open>None\<close> if the loader does not return.\<close>

definition core_main :: "('j, 'h) core_env \<Rightarrow> string list \<Rightarrow> 'h core_result option" where
  "core_main E argv =
     (case parse_args argv core_args_init of
        Help \<Rightarrow> Some (Exit 0)
      | BadNumber \<Rightarrow> Some Uncaught
      | Parsed a \<Rightarrow>
          if pipelineFile a = [] \<and> pipelinesDir a = [] then Some (Exit 1)
          else case pick_pipeline E a of
            None \<Rightarrow> Some Uncaught
          | Some file \<Rightarrow>
              if file = [] then Some (Exit 2)
              else (case load (ce_json E) (ce_ext E) (ce_read E file) of
                      None \<Rightarrow> None
                    | Some (False, _) \<Rightarrow> Some (Exit 3)
                    | Some (True, cfgs) \<Rightarrow>
                        (case loadPipeline (ce_linker E) cfgs of
                           (False, _, _) \<Rightarrow> Some (Exit 4)
                         | (True, pl, _) \<Rightarrow> Some (core_start E a pl))))"

text \<open>After the main loop, which ends when the flag is set: exit code 0.\<close>

definition core_shutdown :: "'h core \<Rightarrow> 'h core \<times> lifecycle list" where
  "core_shutdown s =
     (case stopAll (co_manager s) of
        (m, acts) \<Rightarrow> (s\<lparr>co_manager := m, co_link := map_option link_stop (co_link s)\<rparr>, acts))"

lemma ring_name_inj:
  assumes "ring_name a = ring_name b"
    and "- (2 ^ 63) \<le> monitorId a" "monitorId a < 2 ^ 63"
    and "- (2 ^ 63) \<le> monitorId b" "monitorId b < 2 ^ 63"
  shows "monitorId a = monitorId b"
proof -
  have "to_string (monitorId a) = to_string (monitorId b)"
    using assms(1) unfolding ring_name_def by (rule append_eq_append_conv [THEN iffD1, THEN conjunct2, rotated]) simp
  then have "stoll (to_string (monitorId a)) = stoll (to_string (monitorId b))" by (rule arg_cong)
  then show ?thesis
    unfolding stoll_to_string [OF assms(2,3)] stoll_to_string [OF assms(4,5)] by (rule option.inject [THEN iffD1])
qed

lemma parse_args_monitor:
  "\<lbrakk>parse_args argv a = Parsed b; - (2 ^ 63) \<le> monitorId a \<and> monitorId a < 2 ^ 63\<rbrakk> \<Longrightarrow>
   - (2 ^ 63) \<le> monitorId b \<and> monitorId b < 2 ^ 63"
proof (induction argv a rule: parse_args.induct)
  case (3 arg v rest a)
  note IH = 3(1-5) and prems = 3(6,7)
  show ?case
  proof (cases "arg = ''--monitor-id''")
    case True
    then obtain n where n: "stoll v = Some n"
      and p: "parse_args rest (a\<lparr>monitorId := n\<rparr>) = Parsed b"
      using prems(1) by (auto split: option.splits)
    show ?thesis
      by (rule IH(4) [OF _ _ _ True n p]) (use True stoll_range [OF n] in simp_all)
  next
    case False
    with IH prems show ?thesis by (auto split: if_splits)
  qed
qed (auto split: if_splits)

section \<open>The bus of a worker\<close>

text \<open>The callbacks of plugins among the subscribers, with a text, in order; and the bridges.\<close>

definition plugin_log :: "subscriber list \<Rightarrow> string \<Rightarrow> (nat \<times> string) list" where
  "plugin_log cbs evt = concat (map (\<lambda>cb. case cb of Bridge \<Rightarrow> [] | PluginCallback i \<Rightarrow> [(i, evt)]) cbs)"

definition bridges :: "subscriber list \<Rightarrow> nat" where
  "bridges cbs = length (filter (\<lambda>cb. cb = Bridge) cbs)"

definition channel_callbacks :: "subscriber bus \<Rightarrow> subscriber list" where
  "channel_callbacks b = map snd (bus_subs b plugin_channel)"

lemma publish_callbacks:
  "bus_publish b plugin_channel evt = map (\<lambda>cb. (cb, evt)) (channel_callbacks b)"
  by (simp add: bus_publish_subs channel_callbacks_def)

lemma plugin_log_simps [simp]:
  "plugin_log [] evt = []"
  "plugin_log (PluginCallback i # cbs) evt = (i, evt) # plugin_log cbs evt"
  "plugin_log (Bridge # cbs) evt = plugin_log cbs evt"
  by (simp_all add: plugin_log_def)

lemma bridges_simps [simp]:
  "bridges [] = 0"
  "bridges (PluginCallback i # cbs) = bridges cbs"
  "bridges (Bridge # cbs) = Suc (bridges cbs)"
  by (simp_all add: bridges_def)

lemma run_calls_command:
  "is_command_text J evt \<Longrightarrow>
   run_calls held J now (map (\<lambda>cb. (cb, evt)) cbs) lk = Done (lk, plugin_log cbs evt)"
proof (induction cbs)
  case (Cons cb cbs)
  then show ?case by (cases cb) (simp_all add: bridge_def)
qed simp

lemma run_calls_no_bridge:
  "bridges cbs = 0 \<Longrightarrow>
   run_calls held J now (map (\<lambda>cb. (cb, evt)) cbs) lk = Done (lk, plugin_log cbs evt)"
proof (induction cbs)
  case (Cons cb cbs)
  then show ?case by (cases cb) simp_all
qed simp

lemma run_calls_held_bridge:
  "\<lbrakk>bridges cbs \<noteq> 0; \<not> is_command_text J evt\<rbrakk> \<Longrightarrow>
   run_calls True J now (map (\<lambda>cb. (cb, evt)) cbs) lk = Deadlock"
proof (induction cbs)
  case (Cons cb cbs)
  then show ?case by (cases cb) (simp_all add: bridge_def locked_publish_def)
qed simp

lemma run_calls_one_bridge:
  "\<lbrakk>bridges cbs = 1; \<not> is_command_text J evt\<rbrakk> \<Longrightarrow>
   run_calls False J now (map (\<lambda>cb. (cb, evt)) cbs) lk =
     (case publishEventJson J now evt lk of
        None \<Rightarrow> Raised | Some lk' \<Rightarrow> Done (lk', plugin_log cbs evt))"
proof (induction cbs)
  case (Cons cb cbs)
  then show ?case
    by (cases cb) (simp_all add: bridge_def locked_publish_def run_calls_no_bridge split: option.split)
qed simp

lemma handler_texts:
  "command_handler name args s = (r, s', texts) \<Longrightarrow>
   co_bus s' = co_bus s \<and> texts = (if name = ''assign_recording'' then [args] else [])"
  by (auto simp: command_handler_def split: if_splits)

text \<open>
  What the handler comes to: one case deadlocks, every other one leaves the link alone and hands the
  text of an assignment to each subscribed plugin.
\<close>

lemma run_handler_cases:
  "run_handler J now name args s lk =
     (if name = ''assign_recording'' \<and> \<not> is_command_text J args \<and> bridges (channel_callbacks (co_bus s)) \<noteq> 0
      then Deadlock
      else case command_handler name args s of
        (r, s', texts) \<Rightarrow> Done (r, s', lk,
          if name = ''assign_recording'' then plugin_log (channel_callbacks (co_bus s)) args else []))"
proof -
  obtain r s' texts where h: "command_handler name args s = (r, s', texts)"
    by (cases "command_handler name args s") auto
  show ?thesis
    using handler_texts [OF h]
    by (simp add: run_handler_def h publish_callbacks run_calls_command run_calls_no_bridge
        run_calls_held_bridge)
qed

section \<open>Properties\<close>

definition demo_core :: "nat core" where
  "demo_core = \<lparr>co_shutdown = False,
     co_manager = \<lparr>pm_pipeline = [], pm_runners = [], pm_capture = None\<rparr>,
     co_link = Some (link_init Config_default),
     co_bus = snd (bus_subscribe (snd (bus_subscribe bus_init plugin_channel Bridge)) plugin_channel
                (PluginCallback 1)),
     co_ring_name = ''zm_shmring_7''\<rparr>"

lemma demo_core_callbacks [simp]: "channel_callbacks (co_bus demo_core) = [Bridge, PluginCallback 1]"
  by (simp add: demo_core_def channel_callbacks_def bus_subs_def bus_subscribe_def bus_init_def Let_def)


text \<open>
  The texts that plugins publish: with one bridge on the bus, a text reaches every subscribed plugin,
  in order, and reaches the consumers as one event, unless it is a command, which is not echoed to them.
\<close>
theorem plugin_event_bridged:
  assumes "bridges (channel_callbacks (co_bus s)) = 1"
  shows "plugin_publish J now evt s lk =
    (if is_command_text J evt then Done (lk, plugin_log (channel_callbacks (co_bus s)) evt)
     else case publishEventJson J now evt lk of
       None \<Rightarrow> Raised
     | Some lk' \<Rightarrow> Done (lk', plugin_log (channel_callbacks (co_bus s)) evt))"
  using assms
  by (simp add: plugin_publish_def host_publish_evt_def publish_callbacks run_calls_command run_calls_one_bridge)

definition demo_running :: link where
  "demo_running = (link_init Config_default)\<lparr>lk_running := True\<rparr>"

theorem plugin_event_bridged_witness:
  "\<exists>lk'. plugin_publish (jdoc_api Map.empty) 5 ''x'' demo_core demo_running = Done (lk', [(1, ''x'')]) \<and>
     lk_event_sequence lk' = 1"
proof -
  have nt: "\<not> is_command_text J ''x''" for J :: "jdoc json_api"
    by (simp add: is_command_text_def)
  show ?thesis
    using plugin_event_bridged [of demo_core "jdoc_api Map.empty" 5 "''x''" demo_running]
    by (simp add: nt publishEventJson_def demo_running_def link_init_def jdoc_simps json_string_member_def
        broadcast_event_def enqueue_def reapDead_def Let_def)
qed

text \<open>
  A request that names \<open>assign_recording\<close> by \<open>name\<close> instead of \<open>cmd\<close>, which the link accepts as the
  name of the command, deadlocks the link's thread in the bridge.
\<close>
theorem assign_by_name_deadlocks:
  assumes "j_parse (le_json E) (bytes_str body) = Some j" and "j_is_object (le_json E) j"
    and "j_field (le_json E) j ''cmd'' = None"
    and "j_value_string (le_json E) j ''name'' [] = Some ''assign_recording''"
    and "j_value_string (le_json E) j ''cmd'' ''assign_recording'' = Some ''assign_recording''"
    and "j_value_u64 (le_json E) j ''request_id'' 0 = Some request_id"
    and "le_handler E = Some (\<lambda>name args. fst (command_handler name args s))"
    and "Bridge \<in> set (channel_callbacks (co_bus s))"
  shows "\<exists>r. run_command E body = Some (r, request_id, [HandlerCall ''assign_recording'' (bytes_str body)]) \<and>
    run_handler (le_json E) now ''assign_recording'' (bytes_str body) s lk = Deadlock"
proof -
  have b: "0 < bridges (channel_callbacks (co_bus s))"
    using assms(8) by (auto simp: bridges_def filter_empty_conv)
  show ?thesis
    using assms(1-7) b by (auto simp: run_command_def run_handler_cases is_command_text_def)
qed

definition demo_core_env :: "jdoc link_env" where
  "demo_core_env = \<lparr>le_json = jdoc_api [''x'' \<mapsto> JObj [(''name'', JStr ''assign_recording'')]],
     le_handler = Some (\<lambda>name args. fst (command_handler name args demo_core)), le_talkback = False\<rparr>"

theorem assign_by_name_deadlocks_witness:
  "run_handler (le_json demo_core_env) 0 ''assign_recording'' (bytes_str [120]) demo_core
     (link_init Config_default) = Deadlock"
proof -
  have b: "bytes_str [120] = ''x''" by (simp add: bytes_str_def) code_simp
  show ?thesis
    using assign_by_name_deadlocks [of demo_core_env "[120]" "JObj [(''name'', JStr ''assign_recording'')]"
        0 demo_core 0 "link_init Config_default"]
    unfolding b by (simp add: demo_core_env_def jdoc_simps)
qed

text \<open>
  Workers that run for different monitor ids use different shared-memory segments.
\<close>
theorem ring_names_distinct:
  assumes "core_main E argv = Some (Running s acts)" and "parse_args argv core_args_init = Parsed a"
    and "core_main E' argv' = Some (Running s' acts')" and "parse_args argv' core_args_init = Parsed a'"
    and "monitorId a \<noteq> monitorId a'"
  shows "co_ring_name s \<noteq> co_ring_name s'"
proof -
  have n: "co_ring_name r = ring_name b"
    if "core_main F av = Some (Running r ac)" and "parse_args av core_args_init = Parsed b"
    for F :: "('x, 'y) core_env" and av r ac b
    using that by (auto simp: core_main_def core_start_def Let_def split: if_splits option.splits prod.splits bool.splits)
  have r: "- (2 ^ 63) \<le> monitorId a \<and> monitorId a < 2 ^ 63" "- (2 ^ 63) \<le> monitorId a' \<and> monitorId a' < 2 ^ 63"
    by (rule parse_args_monitor [OF assms(2)], simp add: core_args_init_def)
      (rule parse_args_monitor [OF assms(4)], simp add: core_args_init_def)
  show ?thesis
    using ring_name_inj [of a a'] r assms(5) by (simp add: n [OF assms(1,2)] n [OF assms(3,4)]) blast
qed

definition demo_worker_env :: "(jdoc, nat) core_env" where
  "demo_worker_env = \<lparr>ce_json = jdoc_api [''p'' \<mapsto> JObj [(''plugins'', JArr [JObj [(''path'', JStr ''a'')]])]],
     ce_ext = ''.so'', ce_read = (\<lambda>_. Some ''p''), ce_dir = (\<lambda>_. None),
     ce_linker = \<lparr>l_dlopen = (\<lambda>_. Some 0), l_init = (\<lambda>_. Some (demo_plugin ZM_PLUGIN_PROCESS))\<rparr>,
     ce_sun_path = 108, ce_socket = True, ce_bind = True, ce_listen = True, ce_now = 0\<rparr>"

lemma demo_worker_env_runs:
  assumes "parse_args argv core_args_init = Parsed a" and "pipelineFile a = ''p''" and "socketPath a = []"
  shows "\<exists>s acts. core_main demo_worker_env argv = Some (Running s acts)"
  using assms
  by (simp add: core_main_def demo_worker_env_def pick_pipeline_def load_def plugin_array_def load_finish_def
      jdoc_simps add_plugins.simps plugin_node_def plugin_path_def plugin_config_json_def
      plugin_queue_depth_def plugin_children_def push_child_def loadPipeline_def core_start_def
      startAll_def demo_plugin_def)

theorem ring_names_distinct_witness:
  "\<exists>s s' acts acts'.
     core_main demo_worker_env [''--pipeline'', ''p'', ''--monitor-id'', ''1''] = Some (Running s acts) \<and>
     core_main demo_worker_env [''--pipeline'', ''p'', ''--monitor-id'', ''2''] = Some (Running s' acts') \<and>
     co_ring_name s \<noteq> co_ring_name s'"
proof -
  have p: "parse_args [''--pipeline'', ''p'', ''--monitor-id'', [d]] core_args_init =
      Parsed (core_args_init\<lparr>pipelineFile := ''p'', monitorId := n\<rparr>)" if "stoll [d] = Some n" for d n
    using that by simp
  have s: "stoll ''1'' = Some 1" "stoll ''2'' = Some 2" by code_simp+
  obtain s acts s' acts' where
    r: "core_main demo_worker_env [''--pipeline'', ''p'', ''--monitor-id'', ''1''] = Some (Running s acts)"
       "core_main demo_worker_env [''--pipeline'', ''p'', ''--monitor-id'', ''2''] = Some (Running s' acts')"
    using demo_worker_env_runs [OF p [OF s(1)]] demo_worker_env_runs [OF p [OF s(2)]] by (auto simp: core_args_init_def)
  have "co_ring_name s \<noteq> co_ring_name s'"
    by (rule ring_names_distinct [OF r(1) p [OF s(1)] r(2) p [OF s(2)]]) simp
  with r show ?thesis by blast
qed

end
