(* ===== verification/Store_Buffer.thy ===== *)
theory Store_Buffer
  imports Frame_Header "HOL-Library.Sublist"
begin

text \<open>
  The rolling pre-roll buffer of the recorder (plugins/store/store.cpp, \<open>buffer_append\<close>) and its
  choice of triggers (plugins/store/event_trigger.hpp). Time stamps are \<open>int64_t\<close> microseconds as
  integers: those of a camera stay far from the limits of the type.
\<close>

section \<open>Triggers\<close>

definition default_trigger_types :: "string list" where
  "default_trigger_types = [''motion'', ''detection'', ''audio_event'', ''tracked_detection'']"

definition is_trigger :: "string list \<Rightarrow> string \<Rightarrow> bool" where
  "is_trigger trigger_types type =
     (if type = [] then False
      else if trigger_types = [] then list_ex (\<lambda>d. type = d) default_trigger_types
      else list_ex (\<lambda>t. t = type) trigger_types)"

section \<open>Packets\<close>

record BufferedPacket =
  bp_stream_id :: u32
  bp_hw_type :: u32
  bp_keyframe :: bool
  bp_pts_usec :: int
  bp_data :: bytes

definition is_video_key :: "BufferedPacket \<Rightarrow> bool" where
  "is_video_key pk \<longleftrightarrow> bp_hw_type pk = ZM_FRAME_COMPRESSED \<and> bp_keyframe pk"

definition packet_of :: "zm_frame_hdr \<Rightarrow> bytes \<Rightarrow> BufferedPacket" where
  "packet_of hdr payload =
     \<lparr>bp_stream_id = fh_stream_id hdr, bp_hw_type = fh_hw_type hdr,
      bp_keyframe = (fh_flags hdr AND 1 \<noteq> 0), bp_pts_usec = sint (fh_pts_usec hdr),
      bp_data = take (unat (fh_bytes hdr)) payload\<rparr>"

section \<open>buffer_append\<close>

definition window_usec :: "int \<Rightarrow> int \<Rightarrow> int" where
  "window_usec pre_roll max_buffer =
     (let window_sec = pre_roll + 2;
          window_sec = (if window_sec > max_buffer then max_buffer else window_sec);
          window_sec = (if window_sec < 1 then 1 else window_sec)
      in window_sec * 1000000)"

text \<open>
  The loop that looks for the last video keyframe at or before the cutoff, from index \<open>i\<close> on, with
  \<open>drop_before\<close> and \<open>found\<close> as one option.
\<close>

fun scan_cutoff :: "int \<Rightarrow> nat \<Rightarrow> nat option \<Rightarrow> BufferedPacket list \<Rightarrow> nat option" where
  "scan_cutoff cutoff i acc [] = acc"
| "scan_cutoff cutoff i acc (pk # rest) =
     (if bp_pts_usec pk > cutoff then acc
      else scan_cutoff cutoff (i + 1) (if is_video_key pk then Some i else acc) rest)"

definition trim_window :: "int \<Rightarrow> BufferedPacket list \<Rightarrow> BufferedPacket list" where
  "trim_window cutoff buf =
     (case scan_cutoff cutoff 0 None buf of None \<Rightarrow> buf | Some drop_before \<Rightarrow> drop drop_before buf)"

text \<open>The loop of the hard cap: packets older than the cutoff go while a keyframe is behind them.\<close>

fun trim_hard :: "int \<Rightarrow> BufferedPacket list \<Rightarrow> BufferedPacket list" where
  "trim_hard hard_cutoff [] = []"
| "trim_hard hard_cutoff (pk # rest) =
     (if rest \<noteq> [] \<and> bp_pts_usec pk < hard_cutoff
      then if list_ex is_video_key rest then trim_hard hard_cutoff rest else pk # rest
      else pk # rest)"

definition buffer_append ::
  "int \<Rightarrow> int \<Rightarrow> BufferedPacket \<Rightarrow> BufferedPacket list \<Rightarrow> BufferedPacket list" where
  "buffer_append pre_roll max_buffer bp buf =
     (let buf = buf @ [bp];
          newest = bp_pts_usec bp;
          buf = trim_window (newest - window_usec pre_roll max_buffer) buf
      in trim_hard (newest - max_buffer * 1000000) buf)"

section \<open>Facts\<close>

lemma scan_cutoff_acc:
  "scan_cutoff cutoff i acc buf = Some k \<Longrightarrow>
   acc = Some k \<or> (i \<le> k \<and> k - i < length buf \<and> is_video_key (buf ! (k - i)) \<and>
     bp_pts_usec (buf ! (k - i)) \<le> cutoff)"
proof (induction cutoff i acc buf rule: scan_cutoff.induct)
  case (2 cutoff i acc pk rest)
  show ?case
  proof (cases "bp_pts_usec pk > cutoff")
    case True
    with 2 show ?thesis by simp
  next
    case False
    with 2 have "(if is_video_key pk then Some i else acc) = Some k \<or>
      (i + 1 \<le> k \<and> k - (i + 1) < length rest \<and> is_video_key (rest ! (k - (i + 1))) \<and>
        bp_pts_usec (rest ! (k - (i + 1))) \<le> cutoff)" by simp
    then show ?thesis
      using False by (auto split: if_splits simp: nth_Cons' less_diff_conv2)
  qed
qed simp

lemma scan_cutoff_some_mono: "scan_cutoff cutoff i (Some a) buf \<noteq> None"
  by (induction buf arbitrary: i a) auto

text \<open>A keyframe at or before the cutoff, with nothing newer in front of it, is found.\<close>

lemma scan_cutoff_finds:
  "\<lbrakk>pk \<in> set buf; is_video_key pk; sorted (map bp_pts_usec buf);
    bp_pts_usec pk \<le> cutoff\<rbrakk> \<Longrightarrow> scan_cutoff cutoff i acc buf \<noteq> None"
proof (induction buf arbitrary: i acc)
  case (Cons q buf)
  have q: "bp_pts_usec q \<le> cutoff" using Cons.prems by auto
  show ?case
  proof (cases "pk = q")
    case True
    then show ?thesis using q Cons.prems(2) scan_cutoff_some_mono by simp
  next
    case False
    with Cons q show ?thesis by simp
  qed
qed simp

lemma trim_window_cases:
  "trim_window cutoff buf = buf \<or>
   (\<exists>k < length buf. trim_window cutoff buf = drop k buf \<and> is_video_key (buf ! k) \<and>
      bp_pts_usec (buf ! k) \<le> cutoff)"
  using scan_cutoff_acc [of cutoff 0 None buf]
  by (auto simp: trim_window_def split: option.splits)

lemma trim_window_suffix: "suffix (trim_window cutoff buf) buf"
  using trim_window_cases [of cutoff buf] by (auto simp: suffix_drop)

lemma trim_window_nonempty: "buf \<noteq> [] \<Longrightarrow> trim_window cutoff buf \<noteq> []"
  using trim_window_cases [of cutoff buf] by auto

lemma trim_hard_suffix: "suffix (trim_hard hc buf) buf"
  by (induction hc buf rule: trim_hard.induct) (auto intro: suffix_ConsI)

lemma trim_hard_nonempty: "buf \<noteq> [] \<Longrightarrow> trim_hard hc buf \<noteq> []"
  by (induction hc buf rule: trim_hard.induct) auto

text \<open>The hard cap keeps a video keyframe if there was one.\<close>

lemma trim_hard_key: "list_ex is_video_key buf \<Longrightarrow> list_ex is_video_key (trim_hard hc buf)"
  by (induction hc buf rule: trim_hard.induct) auto

lemma trim_window_key: "list_ex is_video_key buf \<Longrightarrow> list_ex is_video_key (trim_window cutoff buf)"
  using trim_window_cases [of cutoff buf]
  by (auto simp: list_ex_iff Cons_nth_drop_Suc [symmetric])

lemma trim_hard_bound:
  "\<lbrakk>pk \<in> set (trim_hard hc buf); sorted (map bp_pts_usec buf)\<rbrakk> \<Longrightarrow>
   hc \<le> bp_pts_usec pk \<or> \<not> list_ex is_video_key (tl (trim_hard hc buf)) \<or> length (trim_hard hc buf) = 1"
  by (induction hc buf rule: trim_hard.induct) (auto split: if_splits)

lemma trim_hard_id:
  "buf \<noteq> [] \<Longrightarrow> hc \<le> bp_pts_usec (hd buf) \<Longrightarrow> trim_hard hc buf = buf"
  by (cases buf) auto

lemma sorted_map_nth:
  "\<lbrakk>sorted (map f xs); i \<le> j; j < length xs\<rbrakk> \<Longrightarrow> f (xs ! i) \<le> f (xs ! j)"
  using sorted_nth_mono [of "map f xs" i j] by simp

text \<open>The keyframe found is the last one at or before the cutoff.\<close>

lemma scan_cutoff_last:
  "\<lbrakk>scan_cutoff cutoff i acc buf = Some k; sorted (map bp_pts_usec buf)\<rbrakk> \<Longrightarrow>
   \<forall>j < length buf. is_video_key (buf ! j) \<and> bp_pts_usec (buf ! j) \<le> cutoff \<longrightarrow> i + j \<le> k"
proof (induction cutoff i acc buf rule: scan_cutoff.induct)
  case (2 cutoff i acc pk rest)
  show ?case
  proof (cases "bp_pts_usec pk > cutoff")
    case True
    with 2(3) have "\<forall>q \<in> set (pk # rest). cutoff < bp_pts_usec q" by fastforce
    then show ?thesis by (metis leD nth_mem)
  next
    case False
    let ?acc = "if is_video_key pk then Some i else acc"
    from False 2(2) have s: "scan_cutoff cutoff (i + 1) ?acc rest = Some k" by simp
    have IH: "\<forall>j < length rest. is_video_key (rest ! j) \<and> bp_pts_usec (rest ! j) \<le> cutoff \<longrightarrow> i + 1 + j \<le> k"
      using 2(1) [OF False s] 2(3) by simp
    have "is_video_key pk \<Longrightarrow> i \<le> k" using scan_cutoff_acc [OF s] by auto
    with IH show ?thesis by (auto simp: less_Suc_eq_0_disj)
  qed
qed simp

section \<open>Properties\<close>

text \<open>
  The pre-roll buffer is always a suffix of the packets received that ends with the newest one;
  trimming never takes the last video keyframe away.
\<close>
theorem preroll_is_recent_suffix:
  "suffix (buffer_append pre_roll max_buffer bp buf) (buf @ [bp]) \<and>
   buffer_append pre_roll max_buffer bp buf \<noteq> [] \<and>
   last (buffer_append pre_roll max_buffer bp buf) = bp \<and>
   (list_ex is_video_key (buf @ [bp]) \<longleftrightarrow>
      list_ex is_video_key (buffer_append pre_roll max_buffer bp buf))"
proof -
  let ?r = "buffer_append pre_roll max_buffer bp buf"
  have s: "suffix ?r (buf @ [bp])"
    unfolding buffer_append_def Let_def
    by (rule suffix_order.trans [OF trim_hard_suffix trim_window_suffix])
  have n: "?r \<noteq> []"
    by (simp add: buffer_append_def Let_def trim_hard_nonempty trim_window_nonempty)
  have k: "list_ex is_video_key (buf @ [bp]) \<Longrightarrow> list_ex is_video_key ?r"
    by (simp only: buffer_append_def Let_def trim_hard_key trim_window_key)
  have "last ?r = bp" using s n by (auto simp: suffix_def dest!: arg_cong [where f = last])
  moreover have "list_ex is_video_key ?r \<Longrightarrow> list_ex is_video_key (buf @ [bp])"
    using set_mono_suffix [OF s] unfolding list_ex_iff by blast
  ultimately show ?thesis using s n k by blast
qed

text \<open>
  C7. While packets arrive in time order and some video keyframe lies between the cap and the wanted
  window, the buffer starts with the last video keyframe at or before the start of the window, so a
  clip gets its whole pre-roll and can be decoded from its first packet.
\<close>
theorem preroll_covers_window:
  assumes "sorted (map bp_pts_usec (buf @ [bp]))" and "pk \<in> set (buf @ [bp])" and "is_video_key pk"
    and "bp_pts_usec pk \<le> bp_pts_usec bp - window_usec pre_roll max_buffer"
    and "bp_pts_usec bp - max_buffer * 1000000 \<le> bp_pts_usec pk"
  shows "\<exists>key rest. buffer_append pre_roll max_buffer bp buf = key # rest \<and> is_video_key key \<and>
    bp_pts_usec key \<le> bp_pts_usec bp - window_usec pre_roll max_buffer \<and>
    (\<forall>q \<in> set rest. is_video_key q \<longrightarrow> bp_pts_usec bp - window_usec pre_roll max_buffer < bp_pts_usec q)"
proof -
  let ?b = "buf @ [bp]" and ?c = "bp_pts_usec bp - window_usec pre_roll max_buffer"
  obtain k where k: "scan_cutoff ?c 0 None ?b = Some k"
    using scan_cutoff_finds [OF assms(2,3,1,4), of 0 None] by auto
  then have kb: "k < length ?b" "is_video_key (?b ! k)" "bp_pts_usec (?b ! k) \<le> ?c"
    using scan_cutoff_acc [OF k] by simp_all
  have last: "j \<le> k" if "j < length ?b" "is_video_key (?b ! j)" "bp_pts_usec (?b ! j) \<le> ?c" for j
    using scan_cutoff_last [OF k assms(1)] that by simp
  obtain j where j: "j < length ?b" "?b ! j = pk" using assms(2) by (metis in_set_conv_nth)
  have "bp_pts_usec pk \<le> bp_pts_usec (?b ! k)"
    using sorted_map_nth [OF assms(1), of j k] last [of j] j kb(1) assms(3,4) by blast
  then have hc: "bp_pts_usec bp - max_buffer * 1000000 \<le> bp_pts_usec (hd (drop k ?b))"
    using assms(5) kb(1) by (simp only: hd_drop_conv_nth)
  have ne: "drop k ?b \<noteq> []" using kb(1) by (simp only: drop_eq_Nil not_le)
  have "buffer_append pre_roll max_buffer bp buf = drop k ?b"
    using trim_hard_id [OF ne hc] k by (simp only: buffer_append_def trim_window_def Let_def option.case)
  also have "drop k ?b = ?b ! k # drop (Suc k) ?b" using kb(1) by (rule Cons_nth_drop_Suc [symmetric])
  finally have b: "buffer_append pre_roll max_buffer bp buf = ?b ! k # drop (Suc k) ?b" .
  have "?c < bp_pts_usec q" if "q \<in> set (drop (Suc k) ?b)" "is_video_key q" for q
  proof -
    from that(1) obtain i where i: "i < length (drop (Suc k) ?b)" "drop (Suc k) ?b ! i = q"
      by (metis in_set_conv_nth)
    then have "q = ?b ! (Suc k + i)" "Suc k + i < length ?b" by (simp_all only: nth_drop length_drop less_diff_conv2)
    with last [of "Suc k + i"] that(2) show ?thesis by force
  qed
  with b kb show ?thesis by blast
qed

definition demo_packet :: "bool \<Rightarrow> int \<Rightarrow> BufferedPacket" where
  "demo_packet key sec = \<lparr>bp_stream_id = 0, bp_hw_type = ZM_FRAME_COMPRESSED, bp_keyframe = key,
     bp_pts_usec = sec * 1000000, bp_data = []\<rparr>"

theorem preroll_covers_window_witness:
  "\<exists>key rest. buffer_append 5 15 (demo_packet False 10) [demo_packet True 0, demo_packet True 2, demo_packet True 9] =
     key # rest \<and> bp_pts_usec key = 2000000"
proof -
  have "\<exists>key rest. buffer_append 5 15 (demo_packet False 10)
      [demo_packet True 0, demo_packet True 2, demo_packet True 9] = key # rest \<and> is_video_key key \<and>
      bp_pts_usec key \<le> bp_pts_usec (demo_packet False 10) - window_usec 5 15 \<and>
      (\<forall>q \<in> set rest. is_video_key q \<longrightarrow>
        bp_pts_usec (demo_packet False 10) - window_usec 5 15 < bp_pts_usec q)"
    by (rule preroll_covers_window [where pk = "demo_packet True 2"])
      (simp_all add: demo_packet_def is_video_key_def window_usec_def)
  moreover have "buffer_append 5 15 (demo_packet False 10)
      [demo_packet True 0, demo_packet True 2, demo_packet True 9] =
      [demo_packet True 2, demo_packet True 9, demo_packet False 10]"
    by (simp add: buffer_append_def trim_window_def demo_packet_def is_video_key_def window_usec_def)
  ultimately show ?thesis by (simp add: demo_packet_def)
qed

text \<open>
  With groups of pictures longer than the cap the buffer can start in the middle of one: the hard cap
  takes the keyframe and stops at a packet that needs it.
\<close>
lemma preroll_can_start_mid_gop:
  "buffer_append 5 15 (demo_packet True 20) [demo_packet True 0, demo_packet False 10] =
     [demo_packet False 10, demo_packet True 20]"
  by (simp add: buffer_append_def trim_window_def demo_packet_def is_video_key_def window_usec_def)

end
