(* ===== verification/Store.thy ===== *)
theory Store
  imports Store_Buffer Json_Api Std_Strings
begin

text \<open>
  The recorder plugin, plugins/store/store.cpp: the recording state, opening and closing of clips,
  the hand-shake for event ids, and the two entry points \<open>event_cb\<close> and \<open>handle_frame\<close>.

  FFmpeg and the file system are inputs: the record \<open>store_env\<close> says which of their calls succeed,
  which paths exist, and what the clock shows. What the plugin does outside of its state is the list
  of actions that an operation returns: packets handed to the muxer, events published, the sidecar
  file, the rename of the clip, and frames passed downstream. Memory allocations succeed.
\<close>

section \<open>State\<close>

datatype Mode = Continuous | EventMode | Both

record VideoParams =
  vp_codec_id :: int
  vp_width :: int
  vp_height :: int
  vp_format :: int
  vp_profile :: int
  vp_level :: int
  vp_extradata :: bytes

record AudioParams =
  ap_codec_id :: int
  ap_sample_rate :: int
  ap_channels :: int
  ap_extradata :: bytes

record Assignment =
  as_clip_token :: string
  as_event_id :: int
  as_dir :: string
  as_video_name :: string

record store_cfg =
  sc_mode :: Mode
  sc_root :: string
  sc_monitor_id :: int
  sc_max_secs :: int
  sc_pre_roll_sec :: int
  sc_post_roll_sec :: int
  sc_max_buffer_sec :: int
  sc_trigger_types :: "string list"
  sc_stream_filter :: "u32 list"

text \<open>The \<open>valid\<close> flags of the parameters and of the pending assignment are options.\<close>

record store = store_cfg +
  st_running :: bool
  st_video :: "VideoParams option"
  st_audio :: "AudioParams option"
  st_buffer :: "BufferedPacket list"
  st_recording :: bool
  st_last_trigger_usec :: int
  st_warned_no_codec :: bool
  st_fmt_ctx :: bool                       \<comment> \<open>non-null\<close>
  st_header_written :: bool
  st_start_ts :: int
  st_last_pts :: int
  st_cur_path :: string
  st_video_stream :: bool
  st_audio_stream :: bool
  st_descriptions :: "string list"
  st_clip_seq :: u64
  st_current_clip_token :: string
  st_current_event_id :: int
  st_clip_assigned :: bool
  st_frames_written :: int
  st_current_cause :: string
  st_pending_assign :: "Assignment option"

definition store_init :: "store_cfg \<Rightarrow> store" where
  "store_init cfg = store_cfg.extend cfg
     \<lparr>st_running = True, st_video = None, st_audio = None, st_buffer = [], st_recording = False,
      st_last_trigger_usec = 0, st_warned_no_codec = False, st_fmt_ctx = False,
      st_header_written = False, st_start_ts = 0, st_last_pts = 0, st_cur_path = [],
      st_video_stream = False, st_audio_stream = False, st_descriptions = [], st_clip_seq = 0,
      st_current_clip_token = [], st_current_event_id = 0, st_clip_assigned = False,
      st_frames_written = 0, st_current_cause = [], st_pending_assign = None\<rparr>"

record tm =
  tm_year :: int
  tm_mon :: int
  tm_mday :: int
  tm_hour :: int
  tm_min :: int
  tm_sec :: int

record 'j store_env =
  se_json :: "'j json_api"
  se_b64 :: "string \<Rightarrow> bytes"          \<comment> \<open>\<open>av_base64_decode\<close>, empty when it fails\<close>
  se_wall :: int                        \<comment> \<open>\<open>time(nullptr)\<close>\<close>
  se_localtime :: "int \<Rightarrow> tm"
  se_files :: "string list"             \<comment> \<open>the paths that exist\<close>
  se_alloc :: bool                      \<comment> \<open>\<open>avformat_alloc_output_context2\<close>\<close>
  se_avio :: bool                       \<comment> \<open>\<open>avio_open\<close>\<close>
  se_new_video :: bool                  \<comment> \<open>\<open>avformat_new_stream\<close>\<close>
  se_new_audio :: bool
  se_header :: bool                     \<comment> \<open>\<open>avformat_write_header\<close>\<close>
  se_rename :: bool

datatype store_act =
  MuxPacket u32 bool int bytes                     \<comment> \<open>type, keyframe, time in the clip, data\<close>
| Sidecar string string                            \<comment> \<open>its path and its member \<open>text\<close>\<close>
| PublishClip int string string int int            \<comment> \<open>event id, path, cause, duration, frames\<close>
| PublishOpening string string                     \<comment> \<open>token, cause\<close>
| RenameClip string string
| Downstream bytes

section \<open>Names\<close>

definition parse_mode :: "string \<Rightarrow> Mode" where
  "parse_mode s = (if s = ''event'' then EventMode else if s = ''both'' then Both else Continuous)"

fun mode_name :: "Mode \<Rightarrow> string" where
  "mode_name EventMode = ''event''"
| "mode_name Both = ''both''"
| "mode_name Continuous = ''continuous''"

definition make_clip_path :: "string \<Rightarrow> int \<Rightarrow> u32 \<Rightarrow> tm \<Rightarrow> string" where
  "make_clip_path root monitor_id stream_id t =
     (let dir = snprintf_cut 512 (root @ ''/'' @ fmt_0d 4 (tm_year t + 1900) @ ''-'' @
                  fmt_0d 2 (tm_mon t + 1) @ ''-'' @ fmt_0d 2 (tm_mday t));
          name = snprintf_cut 256 (''event-Monitor-'' @ to_string monitor_id @ ''-'' @
                  to_string (uint stream_id) @ ''-'' @ fmt_0d 2 (tm_hour t) @ ''-'' @
                  fmt_0d 2 (tm_min t) @ ''-'' @ fmt_0d 2 (tm_sec t) @ ''.mkv'')
      in dir @ ''/'' @ name)"

text \<open>
  The search for a name that no file has. The loop has no bound; one more try than there are files is
  enough (\<open>free_clip_path_total\<close>).
\<close>

definition clip_candidate :: "string \<Rightarrow> nat \<Rightarrow> string" where
  "clip_candidate stem n = stem @ ''-'' @ to_string (int n) @ ''.mkv''"

fun free_clip_path :: "string list \<Rightarrow> string \<Rightarrow> nat \<Rightarrow> nat \<Rightarrow> string option" where
  "free_clip_path files stem n 0 = None"
| "free_clip_path files stem n (Suc fuel) =
     (if clip_candidate stem n \<notin> set files then Some (clip_candidate stem n)
      else free_clip_path files stem (n + 1) fuel)"

definition clip_target :: "string list \<Rightarrow> string \<Rightarrow> string" where
  "clip_target files path =
     (if path \<in> set files
      then (case free_clip_path files (take (length path - 4) path) 2 (Suc (length files)) of
              None \<Rightarrow> path | Some cand \<Rightarrow> cand)
      else path)"

definition stream_allowed :: "'x store_cfg_scheme \<Rightarrow> u32 \<Rightarrow> bool" where
  "stream_allowed st sid \<longleftrightarrow> sc_stream_filter st = [] \<or> sid \<in> set (sc_stream_filter st)"

section \<open>Opening, writing and closing a clip\<close>

definition open_clip :: "'j store_env \<Rightarrow> u32 \<Rightarrow> store \<Rightarrow> bool \<times> store" where
  "open_clip E stream_id st =
     (case st_video st of
        None \<Rightarrow> (False, st\<lparr>st_warned_no_codec := True\<rparr>)
      | Some _ \<Rightarrow>
          let st = st\<lparr>st_cur_path := clip_target (se_files E)
                 (make_clip_path (sc_root st) (sc_monitor_id st) stream_id (se_localtime E (se_wall E)))\<rparr>
          in if \<not> se_alloc E then (False, st)
             else if \<not> se_avio E \<or> \<not> se_new_video E then (False, st\<lparr>st_fmt_ctx := False\<rparr>)
             else let st = st\<lparr>st_fmt_ctx := True, st_video_stream := True,
                      st_audio_stream := (st_audio st \<noteq> None \<and> se_new_audio E)\<rparr>
                  in if \<not> se_header E
                     then (False, st\<lparr>st_fmt_ctx := False, st_video_stream := False, st_audio_stream := False\<rparr>)
                     else (True, st\<lparr>st_header_written := True, st_start_ts := 0, st_last_pts := 0,
                                    st_frames_written := 0\<rparr>))"

definition write_packet :: "BufferedPacket \<Rightarrow> store \<Rightarrow> store \<times> store_act list" where
  "write_packet pk st =
     (let audio = (bp_hw_type pk = ZM_FRAME_COMPRESSED_AUDIO) in
      if \<not> st_header_written st \<or> \<not> st_fmt_ctx st then (st, [])
      else if \<not> (if audio then st_audio_stream st else st_video_stream st) then (st, [])
      else let st = (if st_start_ts st = 0 then st\<lparr>st_start_ts := bp_pts_usec pk\<rparr> else st);
               rel = max 0 (bp_pts_usec pk - st_start_ts st);
               act = MuxPacket (bp_hw_type pk) (bp_keyframe pk \<or> audio) rel (bp_data pk)
           in (if audio then st
               else st\<lparr>st_last_pts := bp_pts_usec pk, st_frames_written := st_frames_written st + 1\<rparr>,
               [act]))"

text \<open>The member \<open>text\<close> of the sidecar: the texts of the descriptions that parse, joined.\<close>

definition description_text :: "'j json_api \<Rightarrow> string \<Rightarrow> string option" where
  "description_text J d =
     (case j_parse J d of
        None \<Rightarrow> None
      | Some dj \<Rightarrow>
          (case j_field J dj ''text'' of
             None \<Rightarrow> None
           | Some t \<Rightarrow> if j_is_string J t then j_string J t else None))"

definition join_texts :: "string \<Rightarrow> string \<Rightarrow> string" where
  "join_texts joined t = (if joined \<noteq> [] then joined @ '' | '' @ t else t)"

definition sidecar_text :: "'j json_api \<Rightarrow> string list \<Rightarrow> string" where
  "sidecar_text J ds =
     fold (\<lambda>d joined. case description_text J d of None \<Rightarrow> joined | Some t \<Rightarrow> join_texts joined t) ds []"

definition close_clip :: "'j json_api \<Rightarrow> store \<Rightarrow> store \<times> store_act list" where
  "close_clip J st =
     (if \<not> st_fmt_ctx st then (st, [])
      else (st\<lparr>st_fmt_ctx := False, st_header_written := False, st_video_stream := False,
               st_audio_stream := False, st_recording := False, st_start_ts := 0, st_last_pts := 0,
               st_frames_written := 0, st_current_clip_token := [], st_current_event_id := 0,
               st_clip_assigned := False, st_current_cause := [], st_descriptions := []\<rparr>,
            [Sidecar (st_cur_path st @ ''.json'') (sidecar_text J (st_descriptions st)),
             PublishClip (st_current_event_id st) (st_cur_path st) (st_current_cause st)
               (st_last_pts st - st_start_ts st) (st_frames_written st)]))"

fun write_packets :: "BufferedPacket list \<Rightarrow> store \<Rightarrow> store \<times> store_act list" where
  "write_packets [] st = (st, [])"
| "write_packets (pk # pks) st =
     (case write_packet pk st of (st1, a) \<Rightarrow>
        (case write_packets pks st1 of (st2, b) \<Rightarrow> (st2, a @ b)))"

definition write_preroll :: "store \<Rightarrow> store \<times> store_act list" where
  "write_preroll st = write_packets (st_buffer st) st"

section \<open>Recordings\<close>

definition clip_token :: "int \<Rightarrow> int \<Rightarrow> u64 \<Rightarrow> string" where
  "clip_token monitor_id wall seq = to_string monitor_id @ ''-'' @ to_string wall @ ''-'' @ to_string (uint seq)"

definition open_recording ::
  "'j store_env \<Rightarrow> u32 \<Rightarrow> string \<Rightarrow> bool \<Rightarrow> store \<Rightarrow> bool \<times> store \<times> store_act list" where
  "open_recording E stream_id cause with_preroll st =
     (case open_clip E stream_id st of
        (False, st) \<Rightarrow> (False, st, [])
      | (True, st) \<Rightarrow>
          let seq = st_clip_seq st + 1;
              token = clip_token (sc_monitor_id st) (se_wall E) seq;
              st = st\<lparr>st_recording := True, st_descriptions := [], st_current_cause := cause,
                      st_clip_seq := seq, st_current_clip_token := token,
                      st_current_event_id := 0, st_clip_assigned := False\<rparr>
          in case (if with_preroll then write_preroll st else (st, [])) of
               (st, acts) \<Rightarrow> (True, st, acts @ [PublishOpening token cause]))"

definition apply_pending_assignment :: "'j store_env \<Rightarrow> store \<Rightarrow> store \<times> store_act list" where
  "apply_pending_assignment E st =
     (if st_clip_assigned st \<or> \<not> st_recording st then (st, [])
      else case st_pending_assign st of
        None \<Rightarrow> (st, [])
      | Some a \<Rightarrow>
          if as_clip_token a \<noteq> st_current_clip_token st then (st, [])
          else let st = st\<lparr>st_pending_assign := None, st_current_event_id := as_event_id a,
                           st_clip_assigned := True\<rparr>
               in if as_dir a = [] \<or> as_video_name a = [] then (st, [])
                  else let target = as_dir a @ ''/'' @ as_video_name a
                       in if se_rename E
                          then (st\<lparr>st_cur_path := target\<rparr>, [RenameClip (st_cur_path st) target])
                          else (st, []))"

section \<open>Events\<close>

text \<open>
  \<open>j.value("stream_id", 0u)\<close>, which converts the stored integer to 32 bits. \<open>None\<close>, here and
  below: the JSON library throws, and the exception leaves \<open>event_cb\<close>.
\<close>

definition json_stream_id :: "'j json_api \<Rightarrow> 'j \<Rightarrow> u32 option" where
  "json_stream_id J j = map_option ucast (j_value_u64 J j ''stream_id'' 0)"

definition audio_params :: "'j store_env \<Rightarrow> 'j \<Rightarrow> AudioParams option" where
  "audio_params E j =
     (let J = se_json E in
      Option.bind (j_value_int J j ''codec_id'' 0) (\<lambda>codec.
      Option.bind (j_value_int J j ''sample_rate'' 0) (\<lambda>rate.
      Option.bind (j_value_int J j ''channels'' 0) (\<lambda>channels.
      Option.bind (j_value_string J j ''extradata'' []) (\<lambda>ed.
        Some \<lparr>ap_codec_id = codec, ap_sample_rate = rate, ap_channels = channels,
              ap_extradata = se_b64 E ed\<rparr>)))))"

definition video_params :: "'j store_env \<Rightarrow> 'j \<Rightarrow> VideoParams option" where
  "video_params E j =
     (let J = se_json E in
      Option.bind (j_value_int J j ''codec_id'' 0) (\<lambda>codec.
      Option.bind (j_value_int J j ''width'' 0) (\<lambda>width.
      Option.bind (j_value_int J j ''height'' 0) (\<lambda>height.
      Option.bind (j_value_int J j ''pix_fmt'' 0) (\<lambda>fmt.
      Option.bind (j_value_int J j ''profile'' 0) (\<lambda>profile.
      Option.bind (j_value_int J j ''level'' 0) (\<lambda>level.
      Option.bind (j_value_string J j ''extradata'' []) (\<lambda>ed.
        Some \<lparr>vp_codec_id = codec, vp_width = width, vp_height = height, vp_format = fmt,
              vp_profile = profile, vp_level = level, vp_extradata = se_b64 E ed\<rparr>))))))))"

definition apply_stream_metadata :: "'j store_env \<Rightarrow> 'j \<Rightarrow> store \<Rightarrow> store option" where
  "apply_stream_metadata E j st =
     Option.bind (j_value_string (se_json E) j ''media'' []) (\<lambda>media.
     Option.bind (json_stream_id (se_json E) j) (\<lambda>sid.
       if \<not> stream_allowed st sid then Some st
       else if media = ''audio'' then map_option (\<lambda>ap. st\<lparr>st_audio := Some ap\<rparr>) (audio_params E j)
       else map_option (\<lambda>vp. st\<lparr>st_video := Some vp\<rparr>) (video_params E j)))"

text \<open>A command from zm-api, re-published on the bus.\<close>

definition stash_assignment :: "'j json_api \<Rightarrow> 'j \<Rightarrow> store \<Rightarrow> store option" where
  "stash_assignment J j st =
     Option.bind (j_value_string J j ''clip_token'' []) (\<lambda>token.
     Option.bind (j_value_int J j ''event_id'' 0) (\<lambda>event_id.
     Option.bind (j_value_string J j ''dir'' []) (\<lambda>dir.
     Option.bind (j_value_string J j ''video_name'' []) (\<lambda>video_name.
       Some (st\<lparr>st_pending_assign := Some \<lparr>as_clip_token = token, as_event_id = event_id,
                  as_dir = dir, as_video_name = video_name\<rparr>\<rparr>)))))"

definition on_trigger :: "'j store_env \<Rightarrow> u32 \<Rightarrow> string \<Rightarrow> store \<Rightarrow> store \<times> store_act list" where
  "on_trigger E sid type st =
     (let now_usec = (if st_buffer st = [] then st_last_pts st else bp_pts_usec (last (st_buffer st))) in
      if sc_mode st = Both
      then ((if st_recording st then st\<lparr>st_current_cause := type\<rparr> else st)\<lparr>st_last_trigger_usec := now_usec\<rparr>, [])
      else case (if \<not> st_recording st then snd (open_recording E sid type True st) else (st, [])) of
        (st, acts) \<Rightarrow> (st\<lparr>st_last_trigger_usec := now_usec\<rparr>, acts))"

definition event_type :: "'j json_api \<Rightarrow> 'j \<Rightarrow> string option" where
  "event_type J j =
     (case j_field J j ''type'' of
        None \<Rightarrow> Some []
      | Some v \<Rightarrow> if j_is_string J v then j_string J v else Some [])"

definition event_cb :: "'j store_env \<Rightarrow> string \<Rightarrow> store \<Rightarrow> (store \<times> store_act list) option" where
  "event_cb E json_event st =
     (let J = se_json E in
      if \<not> st_running st then Some (st, [])
      else case j_parse J json_event of
        None \<Rightarrow> Some (st, [])
      | Some j \<Rightarrow>
          (case j_field J j ''cmd'' of
             Some v \<Rightarrow>
               if j_is_string J v \<and> j_string J v = Some ''assign_recording''
               then map_option (\<lambda>st. (st, [])) (stash_assignment J j st) else Some (st, [])
           | None \<Rightarrow>
               Option.bind (j_value_string J j ''event'' []) (\<lambda>ev.
                 if ev = ''StreamMetadata'' then map_option (\<lambda>st. (st, [])) (apply_stream_metadata E j st)
                 else Option.bind (event_type J j) (\<lambda>type.
                   if type = ''description'' then
                     (if st_recording st
                      then map_option (\<lambda>sid. (if stream_allowed st sid
                             then st\<lparr>st_descriptions := st_descriptions st @ [json_event]\<rparr> else st, []))
                             (json_stream_id J j)
                      else Some (st, []))
                   else if sc_mode st = Continuous then Some (st, [])
                   else if \<not> is_trigger (sc_trigger_types st) type then Some (st, [])
                   else Option.bind (json_stream_id J j) (\<lambda>sid.
                     if \<not> stream_allowed st sid then Some (st, [])
                     else Some (on_trigger E sid type st))))))"

section \<open>Frames\<close>

text \<open>The division of \<open>int64_t\<close> by 1000000 rounds towards zero.\<close>

definition usec_to_sec :: "int \<Rightarrow> int" where
  "usec_to_sec t = (if 0 \<le> t then t div 1000000 else - (- t div 1000000))"

definition drive_continuous :: "'j store_env \<Rightarrow> BufferedPacket \<Rightarrow> store \<Rightarrow> store \<times> store_act list" where
  "drive_continuous E pk st =
     (if \<not> st_recording st then
        (if is_video_key pk \<and> st_video st \<noteq> None
         then snd (open_recording E (bp_stream_id pk) ''continuous'' False st) else (st, []))
      else if is_video_key pk \<and> st_start_ts st \<noteq> 0 then
        (let elapsed = usec_to_sec (bp_pts_usec pk - st_start_ts st) in
         if elapsed \<ge> sc_max_secs st
         then (case close_clip (se_json E) st of (st, a) \<Rightarrow>
                 (case open_recording E (bp_stream_id pk) ''continuous'' False st of
                    (_, st, b) \<Rightarrow> (st, a @ b)))
         else (st, []))
      else (st, []))"

text \<open>The frame under the lock: event mode, or continuous recording.\<close>

definition record_frame :: "'j store_env \<Rightarrow> BufferedPacket \<Rightarrow> store \<Rightarrow> store \<times> store_act list" where
  "record_frame E pk st =
     (if sc_mode st = EventMode then
        (let st = st\<lparr>st_buffer := buffer_append (sc_pre_roll_sec st) (sc_max_buffer_sec st) pk (st_buffer st)\<rparr> in
         if st_recording st then
           (case apply_pending_assignment E st of (st, a) \<Rightarrow>
              (case write_packet pk st of (st, b) \<Rightarrow>
                 (let since = bp_pts_usec pk - st_last_trigger_usec st in
                  if since > sc_post_roll_sec st * 1000000
                  then (case close_clip (se_json E) st of (st, c) \<Rightarrow> (st, a @ b @ c))
                  else (st, a @ b))))
         else (st, []))
      else
        (case drive_continuous E pk st of (st, a) \<Rightarrow>
           if st_recording st then
             (case apply_pending_assignment E st of (st, b) \<Rightarrow>
                (case write_packet pk st of (st, c) \<Rightarrow> (st, a @ b @ c)))
           else (st, a)))"

definition handle_frame :: "'j store_env \<Rightarrow> bytes \<Rightarrow> store \<Rightarrow> store \<times> store_act list" where
  "handle_frame E buf st =
     (if buf \<noteq> [] \<and> hd buf = 123 then (st, [Downstream buf])
      else if length buf < sizeof_frame_hdr then (st, [Downstream buf])
      else let hdr = frame_hdr buf;
               is_video = (fh_hw_type hdr = ZM_FRAME_COMPRESSED);
               is_audio = (fh_hw_type hdr = ZM_FRAME_COMPRESSED_AUDIO)
           in if (is_video \<or> is_audio) \<and> fh_bytes hdr > 0 \<and>
                 length buf \<ge> sizeof_frame_hdr + unat (fh_bytes hdr) \<and> stream_allowed st (fh_stream_id hdr)
              then (case record_frame E (packet_of hdr (drop sizeof_frame_hdr buf)) st of
                      (st, acts) \<Rightarrow> (st, acts @ [Downstream buf]))
              else (st, [Downstream buf]))"

section \<open>Start and stop\<close>

definition stream_ids :: "'j json_api \<Rightarrow> 'j option \<Rightarrow> u32 list" where
  "stream_ids J field =
     (case field of
        None \<Rightarrow> []
      | Some arr \<Rightarrow>
          if j_is_array J arr
          then List.map_filter (\<lambda>s. map_option ucast (j_unsigned J s)) (j_elements J arr) else [])"

text \<open>\<open>handle_start\<close>: \<open>None\<close> is the result -1. \<open>default_root\<close> is the platform's.\<close>

definition parse_store_cfg :: "'j json_api \<Rightarrow> string \<Rightarrow> string option \<Rightarrow> store_cfg option" where
  "parse_store_cfg J default_root json_cfg =
     Option.bind (j_parse J (case json_cfg of None \<Rightarrow> ''{}'' | Some s \<Rightarrow> s)) (\<lambda>j.
     Option.bind (j_value_string J j ''mode'' ''continuous'') (\<lambda>mode.
     Option.bind (j_value_string J j ''root'' default_root) (\<lambda>root.
     Option.bind (j_value_int J j ''monitor_id'' 0) (\<lambda>monitor_id.
     Option.bind (j_value_int J j ''max_secs'' 300) (\<lambda>max_secs.
     Option.bind (j_value_int J j ''pre_roll_sec'' 5) (\<lambda>pre.
     Option.bind (j_value_int J j ''post_roll_sec'' 10) (\<lambda>post.
     Option.bind (j_value_int J j ''max_buffer_sec'' 15) (\<lambda>max_buffer.
       Some \<lparr>sc_mode = parse_mode mode, sc_root = root, sc_monitor_id = monitor_id,
             sc_max_secs = max_secs, sc_pre_roll_sec = pre, sc_post_roll_sec = post,
             sc_max_buffer_sec = (if max_buffer < pre then pre + 2 else max_buffer),
             sc_trigger_types = string_elements J (j_field J j ''trigger_types''),
             sc_stream_filter = stream_ids J (j_field J j ''stream_filter'')\<rparr>))))))))"

definition handle_start :: "'j json_api \<Rightarrow> string \<Rightarrow> string option \<Rightarrow> store option" where
  "handle_start J default_root json_cfg = map_option store_init (parse_store_cfg J default_root json_cfg)"

definition handle_stop :: "'j json_api \<Rightarrow> store \<Rightarrow> store \<times> store_act list" where
  "handle_stop J st =
     (let st = st\<lparr>st_running := False\<rparr> in
      if st_recording st \<or> st_fmt_ctx st then close_clip J st else (st, []))"

end
