(* ===== verification/Store_Properties.thy ===== *)
theory Store_Properties
  imports Store
begin

text \<open>
  Properties of the recorder: its invariant, the hand-shake with zm-api over whole runs, the event ids
  of clips, and what is written in continuous and event mode.
\<close>

section \<open>The invariant of the recorder\<close>

text \<open>
  A recording is going on exactly while the muxer is open with its header written and a video
  stream; outside of one nothing of the last clip is left, and an id without an assignment is 0.
\<close>

definition store_ok :: "store \<Rightarrow> bool" where
  "store_ok st \<longleftrightarrow>
     st_fmt_ctx st = st_recording st \<and> st_header_written st = st_recording st \<and>
     st_video_stream st = st_recording st \<and> (st_audio_stream st \<longrightarrow> st_recording st) \<and>
     (st_recording st \<longrightarrow> st_video st \<noteq> None) \<and>
     (\<not> st_recording st \<longrightarrow> st_current_clip_token st = [] \<and> st_start_ts st = 0 \<and>
        st_frames_written st = 0 \<and> \<not> st_clip_assigned st) \<and>
     (\<not> st_clip_assigned st \<longrightarrow> st_current_event_id st = 0) \<and> 0 \<le> st_frames_written st"

text \<open>The hand-shake seen from outside: openings and clips alternate; the result is whether one is open.\<close>

fun rec_trace :: "bool \<Rightarrow> store_act list \<Rightarrow> bool option" where
  "rec_trace r [] = Some r"
| "rec_trace r (PublishOpening token cause # as) = (if r then None else rec_trace True as)"
| "rec_trace r (PublishClip i path cause dur frames # as) = (if r then rec_trace False as else None)"
| "rec_trace r (MuxPacket h k t d # as) = rec_trace r as"
| "rec_trace r (Sidecar p t # as) = rec_trace r as"
| "rec_trace r (RenameClip p t # as) = rec_trace r as"
| "rec_trace r (Downstream b # as) = rec_trace r as"

lemma rec_trace_append: "rec_trace r (as @ bs) = Option.bind (rec_trace r as) (\<lambda>r'. rec_trace r' bs)"
  by (induction r as rule: rec_trace.induct) auto

definition is_mux :: "store_act \<Rightarrow> bool" where
  "is_mux a \<longleftrightarrow> (case a of MuxPacket h k t d \<Rightarrow> True | _ \<Rightarrow> False)"

lemma is_mux_simps [simp]:
  "is_mux (MuxPacket h k t d)" "\<not> is_mux (Sidecar p q)" "\<not> is_mux (PublishClip i p c n f)"
  "\<not> is_mux (PublishOpening p c)" "\<not> is_mux (RenameClip p q)" "\<not> is_mux (Downstream b)"
  by (simp_all add: is_mux_def)

lemma rec_trace_mux: "list_all is_mux as \<Longrightarrow> rec_trace r as = Some r"
  by (induction r as rule: rec_trace.induct) auto

text \<open>What writing packets leaves alone.\<close>

definition same_clip :: "store \<Rightarrow> store \<Rightarrow> bool" where
  "same_clip st st' \<longleftrightarrow>
     st' = st\<lparr>st_start_ts := st_start_ts st', st_last_pts := st_last_pts st',
              st_frames_written := st_frames_written st'\<rparr> \<and>
     (\<not> st_header_written st \<longrightarrow> st' = st) \<and> st_frames_written st \<le> st_frames_written st'"

lemma write_packet_same:
  "write_packet pk st = (st', as) \<Longrightarrow> same_clip st st' \<and> list_all is_mux as"
  by (auto simp: write_packet_def same_clip_def Let_def split: if_splits)

lemma same_clip_trans: "same_clip a b \<Longrightarrow> same_clip b c \<Longrightarrow> same_clip a c"
  unfolding same_clip_def by (cases a; cases b; cases c) auto

lemma write_packets_same:
  "write_packets pks st = (st', as) \<Longrightarrow> same_clip st st' \<and> list_all is_mux as"
proof (induction pks arbitrary: st st' as)
  case Nil
  then show ?case by (simp add: same_clip_def)
next
  case (Cons pk pks)
  then obtain st1 a b where w: "write_packet pk st = (st1, a)" "write_packets pks st1 = (st', b)" "as = a @ b"
    by (auto split: prod.splits)
  from write_packet_same [OF w(1)] Cons.IH [OF w(2)] w(3) show ?case
    by (auto intro: same_clip_trans)
qed

lemma same_clipD:
  assumes "same_clip st st'"
  shows "st_recording st' = st_recording st" "st_fmt_ctx st' = st_fmt_ctx st"
    "st_header_written st' = st_header_written st" "st_video_stream st' = st_video_stream st"
    "st_audio_stream st' = st_audio_stream st" "st_video st' = st_video st"
    "st_current_clip_token st' = st_current_clip_token st" "st_clip_assigned st' = st_clip_assigned st"
    "st_current_event_id st' = st_current_event_id st" "st_clip_seq st' = st_clip_seq st"
    "st_pending_assign st' = st_pending_assign st" "sc_monitor_id st' = sc_monitor_id st"
    "sc_mode st' = sc_mode st" "st_cur_path st' = st_cur_path st" "st_buffer st' = st_buffer st"
    "st_frames_written st \<le> st_frames_written st'" "st_current_cause st' = st_current_cause st"
  using assms unfolding same_clip_def by (auto dest!: arg_cong [where f = store.more]; cases st; cases st'; simp)+

lemma same_clip_ok [inv_intros]: "store_ok st \<Longrightarrow> same_clip st st' \<Longrightarrow> store_ok st'"
  unfolding store_ok_def same_clip_def by (cases st; cases st'; cases "st_recording st") auto

lemma open_clip_cases:
  assumes "store_ok st" and "\<not> st_recording st" and "open_clip E sid st = (ok, st')"
  shows "(if ok then st_fmt_ctx st' \<and> st_header_written st' \<and> st_video_stream st' \<and> st_video st \<noteq> None \<and>
            st_start_ts st' = 0 \<and> st_frames_written st' = 0 else store_ok st' \<and> \<not> st_recording st') \<and>
    st_recording st' = st_recording st \<and> st_video st' = st_video st \<and> st_buffer st' = st_buffer st \<and>
    st_clip_seq st' = st_clip_seq st \<and> st_pending_assign st' = st_pending_assign st \<and>
    sc_monitor_id st' = sc_monitor_id st \<and> sc_mode st' = sc_mode st \<and> st_clip_assigned st' = st_clip_assigned st \<and>
    st_current_clip_token st' = st_current_clip_token st \<and> st_current_event_id st' = st_current_event_id st"
  using assms by (auto simp: open_clip_def store_ok_def Let_def split: option.splits if_splits)

text \<open>The state in which the pre-roll is written.\<close>

lemma open_recording_cases:
  assumes ok: "store_ok st" and nr: "\<not> st_recording st"
    and o: "open_recording E sid cause pre st = (res, st', as)"
  shows "store_ok st' \<and> st_recording st' = res \<and> sc_mode st' = sc_mode st \<and>
    sc_monitor_id st' = sc_monitor_id st \<and> st_pending_assign st' = st_pending_assign st \<and>
    st_video st' = st_video st \<and> st_buffer st' = st_buffer st \<and> \<not> st_clip_assigned st' \<and>
    (if res then \<exists>ms. as = ms @ [PublishOpening (st_current_clip_token st') cause] \<and> list_all is_mux ms \<and>
         st_clip_seq st' = st_clip_seq st + 1 \<and>
         st_current_clip_token st' = clip_token (sc_monitor_id st) (se_wall E) (st_clip_seq st + 1)
     else as = [] \<and> st_clip_seq st' = st_clip_seq st)"
proof -
  obtain r st1 where oc: "open_clip E sid st = (r, st1)" by (cases "open_clip E sid st")
  note c = open_clip_cases [OF ok nr oc]
  show ?thesis
  proof (cases r)
    case False
    with o oc c nr show ?thesis
      by (auto simp: open_recording_def store_ok_def)
  next
    case True
    let ?tok = "clip_token (sc_monitor_id st1) (se_wall E) (st_clip_seq st1 + 1)"
    let ?st = "st1\<lparr>st_recording := True, st_descriptions := [], st_current_cause := cause,
       st_clip_seq := st_clip_seq st1 + 1, st_current_clip_token := ?tok,
       st_current_event_id := 0, st_clip_assigned := False\<rparr>"
    obtain st2 ms where w: "(if pre then write_preroll ?st else (?st, [])) = (st2, ms)"
      by (cases "if pre then write_preroll ?st else (?st, [])")
    from o oc True w have e: "res" "st' = st2" "as = ms @ [PublishOpening ?tok cause]"
      by (auto simp: open_recording_def Let_def split: prod.splits)
    have s: "same_clip ?st st2 \<and> list_all is_mux ms"
    proof (cases pre)
      case True
      with w show ?thesis by (simp add: write_preroll_def write_packets_same)
    next
      case False
      with w show ?thesis by (auto simp: same_clip_def)
    qed
    have "store_ok ?st" using c True by (auto simp: store_ok_def)
    then have "store_ok st2" using s same_clip_ok by blast
    with e s c True same_clipD [of ?st st2] show ?thesis by simp
  qed
qed

lemma close_clip_cases:
  assumes "store_ok st" and "close_clip J st = (st', as)"
  shows "store_ok st' \<and> \<not> st_recording st' \<and> sc_mode st' = sc_mode st \<and>
    sc_monitor_id st' = sc_monitor_id st \<and> st_clip_seq st' = st_clip_seq st \<and>
    st_pending_assign st' = st_pending_assign st \<and> st_video st' = st_video st \<and>
    \<not> st_clip_assigned st' \<and>
    (if st_recording st
     then \<exists>p t path cause dur. as = [Sidecar p t,
       PublishClip (st_current_event_id st) path cause dur (st_frames_written st)]
     else as = [])"
  using assms by (auto simp: close_clip_def store_ok_def split: if_splits)

section \<open>Every operation keeps the invariant and the hand-shake\<close>

definition keeps :: "store \<Rightarrow> store \<Rightarrow> store_act list \<Rightarrow> bool" where
  "keeps st st' as \<longleftrightarrow> store_ok st' \<and> rec_trace (st_recording st) as = Some (st_recording st') \<and>
     sc_mode st' = sc_mode st \<and> sc_monitor_id st' = sc_monitor_id st"

lemma keeps_refl [simp]: "store_ok st \<Longrightarrow> keeps st st []"
  by (simp add: keeps_def)

lemma store_ok_updates [simp]:
  "store_ok (st\<lparr>st_buffer := b\<rparr>) = store_ok st"
  "store_ok (st\<lparr>st_last_trigger_usec := i\<rparr>) = store_ok st"
  "store_ok (st\<lparr>st_current_cause := s\<rparr>) = store_ok st"
  "store_ok (st\<lparr>st_descriptions := ds\<rparr>) = store_ok st"
  "store_ok (st\<lparr>st_pending_assign := a\<rparr>) = store_ok st"
  "store_ok (st\<lparr>st_running := r\<rparr>) = store_ok st"
  "store_ok (st\<lparr>st_audio := au\<rparr>) = store_ok st"
  "store_ok st \<Longrightarrow> store_ok (st\<lparr>st_video := Some v\<rparr>)"
  by (simp_all add: store_ok_def)

lemma keeps_ok: "keeps st st' as \<Longrightarrow> store_ok st'"
  by (simp add: keeps_def)

lemma keeps_append: "keeps a b as \<Longrightarrow> keeps b c bs \<Longrightarrow> keeps a c (as @ bs)"
  by (simp add: keeps_def rec_trace_append)

lemma write_packet_keeps: "store_ok st \<Longrightarrow> write_packet pk st = (st', as) \<Longrightarrow> keeps st st' as"
  using write_packet_same [of pk st st' as] same_clip_ok [of st st'] same_clipD [of st st']
  by (simp add: keeps_def rec_trace_mux)

lemma open_recording_keeps:
  assumes "store_ok st" and "\<not> st_recording st" and "open_recording E sid cause pre st = (res, st', as)"
  shows "keeps st st' as"
  using open_recording_cases [OF assms] assms(2)
  by (cases res) (auto simp: keeps_def rec_trace_append rec_trace_mux)

lemma close_clip_keeps:
  assumes "store_ok st" and "close_clip J st = (st', as)"
  shows "keeps st st' as"
  using close_clip_cases [OF assms] by (auto simp: keeps_def split: if_splits)

lemma assignment_keeps:
  assumes "store_ok st" and "apply_pending_assignment E st = (st', as)"
  shows "keeps st st' as"
  using assms
  by (auto simp: apply_pending_assignment_def keeps_def store_ok_def Let_def split: if_splits option.splits)

section \<open>The entry points as sequences of small steps\<close>

text \<open>
  The steps that the entry points are made of, with their actions. A property of the recorder is
  proved once per step and lifted to all entry points and runs.
\<close>

inductive clip_step :: "'j itself \<Rightarrow> Assignment set \<Rightarrow> store \<Rightarrow> store \<Rightarrow> store_act list \<Rightarrow> bool"
  for T :: "'j itself" and S :: "Assignment set" where
  packet: "write_packet pk st = (st', as) \<Longrightarrow> clip_step T S st st' as"
| opens: "\<not> st_recording st \<Longrightarrow> open_recording (E :: 'j store_env) sid cause pre st = (r, st', as) \<Longrightarrow> clip_step T S st st' as"
| closes: "close_clip (J :: 'j json_api) st = (st', as) \<Longrightarrow> clip_step T S st st' as"
| assign: "apply_pending_assignment (E :: 'j store_env) st = (st', as) \<Longrightarrow> clip_step T S st st' as"
| stash: "a \<in> S \<Longrightarrow> clip_step T S st (st\<lparr>st_pending_assign := Some a\<rparr>) []"
| buffer: "clip_step T S st (st\<lparr>st_buffer := b\<rparr>) []"
| trigger: "clip_step T S st (st\<lparr>st_last_trigger_usec := t\<rparr>) []"
| cause: "clip_step T S st (st\<lparr>st_current_cause := c\<rparr>) []"
| describe: "clip_step T S st (st\<lparr>st_descriptions := ds\<rparr>) []"
| audio: "clip_step T S st (st\<lparr>st_audio := au\<rparr>) []"
| video: "clip_step T S st (st\<lparr>st_video := Some v\<rparr>) []"
| halt: "clip_step T S st (st\<lparr>st_running := False\<rparr>) []"
| forward: "clip_step T S st st [Downstream buf]"

inductive clip_steps :: "'j itself \<Rightarrow> Assignment set \<Rightarrow> store \<Rightarrow> store \<Rightarrow> store_act list \<Rightarrow> bool"
  for T :: "'j itself" and S :: "Assignment set" where
  refl: "clip_steps T S st st []"
| step: "clip_steps T S a b as \<Longrightarrow> clip_step T S b c bs \<Longrightarrow> clip_steps T S a c (as @ bs)"

lemma clip_step_mono: "clip_step T S st st' as \<Longrightarrow> S \<subseteq> S' \<Longrightarrow> clip_step T S' st st' as"
  by (erule clip_step.cases) (auto intro: clip_step.intros)

lemma clip_steps_mono: "clip_steps T S st st' as \<Longrightarrow> S \<subseteq> S' \<Longrightarrow> clip_steps T S' st st' as"
  by (induction rule: clip_steps.induct) (auto intro: clip_steps.intros clip_step_mono)

lemma clip_step_keeps:
  assumes "clip_step T S st st' as" and "store_ok st"
  shows "keeps st st' as"
  using assms(1)
proof (cases rule: clip_step.cases)
  case packet
  show ?thesis by (rule write_packet_keeps [OF assms(2) packet])
next
  case opens
  show ?thesis by (rule open_recording_keeps [OF assms(2) opens])
next
  case closes
  show ?thesis by (rule close_clip_keeps [OF assms(2) closes])
next
  case assign
  show ?thesis by (rule assignment_keeps [OF assms(2) assign])
qed (use assms(2) in \<open>simp_all add: keeps_def\<close>)

lemma clip_steps_keeps:
  "clip_steps T S st st' as \<Longrightarrow> store_ok st \<Longrightarrow> keeps st st' as"
proof (induction rule: clip_steps.induct)
  case (step a b as c bs)
  note k = step.IH [OF step.prems]
  show ?case by (rule keeps_append [OF k clip_step_keeps [OF step.hyps(2) keeps_ok [OF k]]])
qed simp

lemma clip_steps_one: "clip_step T S a b as \<Longrightarrow> clip_steps T S a b as"
  by (drule clip_steps.step [OF clip_steps.refl]) simp

lemma clip_steps_trans: "clip_steps T S b c bs \<Longrightarrow> clip_steps T S a b as \<Longrightarrow> clip_steps T S a c (as @ bs)"
proof (induction rule: clip_steps.induct)
  case (step b b1 xs b2 ys)
  from clip_steps.step [OF step.IH [OF step.prems] step.hyps(2)] show ?case by simp
qed simp

lemma drive_continuous_steps:
  assumes ok: "store_ok st" and d: "drive_continuous (E :: 'j store_env) pk st = (st', as)"
  shows "clip_steps (T :: 'j itself) S st st' as"
proof (cases "st_recording st")
  case False
  show ?thesis
  proof (cases "is_video_key pk \<and> st_video st \<noteq> None")
    case True
    then obtain r where "open_recording E (bp_stream_id pk) ''continuous'' False st = (r, st', as)"
      using d False by (auto simp: drive_continuous_def) (metis prod.collapse)
    then show ?thesis by (intro clip_steps_one clip_step.opens [OF False])
  next
    case nk: False
    with d \<open>\<not> st_recording st\<close> have "st' = st" "as = []" by (auto simp: drive_continuous_def split: if_splits)
    then show ?thesis by (simp add: clip_steps.refl)
  qed
next
  case True
  show ?thesis
  proof (cases "is_video_key pk \<and> st_start_ts st \<noteq> 0 \<and>
      usec_to_sec (bp_pts_usec pk - st_start_ts st) \<ge> sc_max_secs st")
    case rot: True
    obtain st1 a where c: "close_clip (se_json E) st = (st1, a)" by (cases "close_clip (se_json E) st")
    obtain r st2 b where o: "open_recording E (bp_stream_id pk) ''continuous'' False st1 = (r, st2, b)"
      by (cases "open_recording E (bp_stream_id pk) ''continuous'' False st1")
    from d True rot c o have e: "st' = st2" "as = a @ b" by (auto simp: drive_continuous_def Let_def)
    have "\<not> st_recording st1" using close_clip_cases [OF ok c] by simp
    then show ?thesis unfolding e
      by (intro clip_steps.step [OF clip_steps_one [OF clip_step.closes [OF c]]] clip_step.opens [OF _ o])
  next
    case False
    with d True have "st' = st" "as = []" by (auto simp: drive_continuous_def Let_def split: if_splits)
    then show ?thesis by (simp add: clip_steps.refl)
  qed
qed

lemma record_frame_steps:
  assumes ok: "store_ok st" and r: "record_frame (E :: 'j store_env) pk st = (st', as)"
  shows "clip_steps (T :: 'j itself) S st st' as"
proof (cases "sc_mode st = EventMode")
  case True
  let ?st = "st\<lparr>st_buffer := buffer_append (sc_pre_roll_sec st) (sc_max_buffer_sec st) pk (st_buffer st)\<rparr>"
  obtain st1 a where a: "apply_pending_assignment E ?st = (st1, a)" by (cases "apply_pending_assignment E ?st")
  obtain st2 b where b: "write_packet pk st1 = (st2, b)" by (cases "write_packet pk st1")
  obtain st3 c where c: "close_clip (se_json E) st2 = (st3, c)" by (cases "close_clip (se_json E) st2")
  have s0: "clip_steps T S st ?st []" by (rule clip_steps_one [OF clip_step.buffer])
  note s2 = clip_steps.step [OF clip_steps.step [OF s0 clip_step.assign [OF a]] clip_step.packet [OF b]]
  note s3 = clip_steps.step [OF s2 clip_step.closes [OF c]]
  from r True a b c s0 s2 s3 show ?thesis
    by (auto simp: record_frame_def Let_def split: if_splits)
next
  case False
  obtain st1 a where a: "drive_continuous E pk st = (st1, a)" by (cases "drive_continuous E pk st")
  obtain st2 b where b: "apply_pending_assignment E st1 = (st2, b)" by (cases "apply_pending_assignment E st1")
  obtain st3 c where c: "write_packet pk st2 = (st3, c)" by (cases "write_packet pk st2")
  note s1 = drive_continuous_steps [OF ok a]
  note s3 = clip_steps.step [OF clip_steps.step [OF s1 clip_step.assign [OF b]] clip_step.packet [OF c]]
  from r False a b c s1 s3 show ?thesis
    by (auto simp: record_frame_def split: if_splits)
qed

lemma handle_frame_steps:
  assumes ok: "store_ok st" and h: "handle_frame (E :: 'j store_env) buf st = (st', as)"
  shows "clip_steps (T :: 'j itself) S st st' as"
proof -
  have f: "clip_steps T S st st [Downstream buf]" by (rule clip_steps_one [OF clip_step.forward])
  let ?pk = "packet_of (frame_hdr buf) (drop sizeof_frame_hdr buf)"
  obtain st1 a where r: "record_frame E ?pk st = (st1, a)" by (cases "record_frame E ?pk st")
  note s = clip_steps.step [OF record_frame_steps [OF ok r] clip_step.forward [where buf = buf]]
  from h f s r show ?thesis by (auto simp: handle_frame_def Let_def split: if_splits)
qed

lemma on_trigger_steps:
  assumes "on_trigger (E :: 'j store_env) sid type st = (st', as)"
  shows "clip_steps (T :: 'j itself) S st st' as"
proof -
  let ?t = "if st_buffer st = [] then st_last_pts st else bp_pts_usec (last (st_buffer st))"
  obtain r st1 a where o: "open_recording E sid type True st = (r, st1, a)"
    by (cases "open_recording E sid type True st")
  have s: "clip_steps T S st b as \<Longrightarrow> clip_steps T S st (b\<lparr>st_last_trigger_usec := ?t\<rparr>) as" for b as
    by (drule clip_steps.step [OF _ clip_step.trigger]) simp
  have c: "clip_steps T S st (st\<lparr>st_current_cause := type\<rparr>) []" by (rule clip_steps_one [OF clip_step.cause])
  have op: "\<not> st_recording st \<Longrightarrow> clip_steps T S st st1 a"
    by (rule clip_steps_one [OF clip_step.opens [OF _ o]])
  have e: "(st', as) = (if sc_mode st = Both
      then ((if st_recording st then st\<lparr>st_current_cause := type\<rparr> else st)\<lparr>st_last_trigger_usec := ?t\<rparr>, [])
      else if \<not> st_recording st then (st1\<lparr>st_last_trigger_usec := ?t\<rparr>, a)
      else (st\<lparr>st_last_trigger_usec := ?t\<rparr>, []))"
    using assms o by (auto simp: on_trigger_def Let_def)
  show ?thesis
    using e s [OF clip_steps.refl] s [OF c] s [OF op] by (auto split: if_splits)
qed

lemma stash_cases:
  assumes "stash_assignment J j st = Some st'"
  obtains a where "st' = st\<lparr>st_pending_assign := Some a\<rparr>"
  using assms by (auto simp: stash_assignment_def bind_eq_Some_conv)

lemma metadata_cases:
  assumes "apply_stream_metadata E j st = Some st'"
  obtains "st' = st" | ap where "st' = st\<lparr>st_audio := Some ap\<rparr>" | vp where "st' = st\<lparr>st_video := Some vp\<rparr>"
proof -
  from assms obtain media sid where
    m: "(if \<not> stream_allowed st sid then Some st
       else if media = ''audio'' then map_option (\<lambda>ap. st\<lparr>st_audio := Some ap\<rparr>) (audio_params E j)
       else map_option (\<lambda>vp. st\<lparr>st_video := Some vp\<rparr>) (video_params E j)) = Some st'"
    unfolding apply_stream_metadata_def bind_eq_Some_conv by blast
  show ?thesis
  proof (cases "stream_allowed st sid")
    case False
    with m that(1) show ?thesis by simp
  next
    case allowed: True
    show ?thesis
    proof (cases "media = ''audio''")
      case True
      with m allowed obtain p where "audio_params E j = Some p" by (cases "audio_params E j") simp_all
      with m allowed True show ?thesis by (intro that(2) [of p]) simp
    next
      case False
      with m allowed obtain p where "video_params E j = Some p" by (cases "video_params E j") simp_all
      with m allowed False show ?thesis by (intro that(3) [of p]) simp
    qed
  qed
qed

lemma event_cb_cases:
  assumes "event_cb E text st = Some (st', as)"
  shows "st' = st \<and> as = [] \<or>
    (\<exists>j. stash_assignment (se_json E) j st = Some st' \<and> as = []) \<or>
    (\<exists>j. apply_stream_metadata E j st = Some st' \<and> as = []) \<or>
    (\<exists>ds. st' = st\<lparr>st_descriptions := ds\<rparr> \<and> as = []) \<or>
    (\<exists>sid type. on_trigger E sid type st = (st', as) \<and> sc_mode st \<noteq> Continuous)"
proof (cases "st_running st")
  case False
  with assms show ?thesis by (simp add: event_cb_def)
next
  case True
  show ?thesis
  proof (cases "j_parse (se_json E) text")
    case None
    with assms True show ?thesis by (simp add: event_cb_def Let_def)
  next
    case (Some j)
    note p = True Some
    show ?thesis
    proof (cases "j_field (se_json E) j ''cmd''")
      case (Some v)
      with assms p show ?thesis by (auto simp: event_cb_def Let_def split: if_splits)
    next
      case None
      with assms p obtain ev where ev: "(if ev = ''StreamMetadata''
          then map_option (\<lambda>st. (st, [])) (apply_stream_metadata E j st)
          else Option.bind (event_type (se_json E) j) (\<lambda>type.
            if type = ''description'' then
              (if st_recording st
               then map_option (\<lambda>sid. (if stream_allowed st sid
                      then st\<lparr>st_descriptions := st_descriptions st @ [text]\<rparr> else st, []))
                      (json_stream_id (se_json E) j)
               else Some (st, []))
            else if sc_mode st = Continuous then Some (st, [])
            else if \<not> is_trigger (sc_trigger_types st) type then Some (st, [])
            else Option.bind (json_stream_id (se_json E) j) (\<lambda>sid.
              if \<not> stream_allowed st sid then Some (st, []) else Some (on_trigger E sid type st)))) = Some (st', as)"
        by (auto simp: event_cb_def Let_def bind_eq_Some_conv)
      then show ?thesis
        by (cases "ev = ''StreamMetadata''") (auto simp: bind_eq_Some_conv split: if_splits)
    qed
  qed
qed

lemma event_cb_steps:
  assumes e: "event_cb (E :: 'j store_env) text st = Some (st', as)"
  shows "clip_steps (T :: 'j itself) (set_option (st_pending_assign st')) st st' as"
  using event_cb_cases [OF e]
proof (elim disjE exE conjE)
  show "st' = st \<Longrightarrow> as = [] \<Longrightarrow> ?thesis" by (simp add: clip_steps.refl)
  show "stash_assignment (se_json E) j st = Some st' \<Longrightarrow> as = [] \<Longrightarrow> ?thesis" for j
    by (auto elim!: stash_cases intro!: clip_steps_one clip_step.stash)
  show "apply_stream_metadata E j st = Some st' \<Longrightarrow> as = [] \<Longrightarrow> ?thesis" for j
    by (erule metadata_cases) (auto intro: clip_steps_one clip_step.intros clip_steps.refl)
  show "st' = st\<lparr>st_descriptions := ds\<rparr> \<Longrightarrow> as = [] \<Longrightarrow> ?thesis" for ds
    by (auto intro: clip_steps_one clip_step.describe)
  show "on_trigger E sid type st = (st', as) \<Longrightarrow> ?thesis" for sid type
    by (rule on_trigger_steps)
qed

lemma handle_stop_steps:
  assumes "handle_stop (J :: 'j json_api) st = (st', as)"
  shows "clip_steps (T :: 'j itself) S st st' as"
proof -
  note h = clip_steps_one [OF clip_step.halt [where st = st]]
  obtain st1 a where c: "close_clip J (st\<lparr>st_running := False\<rparr>) = (st1, a)"
    by (cases "close_clip J (st\<lparr>st_running := False\<rparr>)")
  from assms c h clip_steps.step [OF h clip_step.closes [OF c]] show ?thesis
    by (auto simp: handle_stop_def Let_def split: if_splits)
qed

lemma handle_stop_closed:
  assumes "store_ok st" and "handle_stop J st = (st', as)"
  shows "\<not> st_recording st'"
proof (cases "st_recording st")
  case True
  with assms(2) have "close_clip J (st\<lparr>st_running := False\<rparr>) = (st', as)"
    by (simp add: handle_stop_def Let_def)
  from close_clip_cases [OF _ this] assms(1) show ?thesis by simp
next
  case False
  with assms show ?thesis by (auto simp: handle_stop_def store_ok_def Let_def)
qed

section \<open>Runs\<close>

datatype store_event = FrameIn bytes | EventIn string

fun store_step :: "'j store_env \<Rightarrow> store_event \<Rightarrow> store \<Rightarrow> (store \<times> store_act list) option" where
  "store_step E (FrameIn buf) st = Some (handle_frame E buf st)"
| "store_step E (EventIn text) st = event_cb E text st"

text \<open>A run, with an environment for each step; \<open>None\<close> when an event raises.\<close>

fun store_run :: "('j store_env \<times> store_event) list \<Rightarrow> store \<Rightarrow> (store \<times> store_act list) option" where
  "store_run [] st = Some (st, [])"
| "store_run ((E, e) # es) st =
     Option.bind (store_step E e st) (\<lambda>(st1, a).
       map_option (\<lambda>(st2, b). (st2, a @ b)) (store_run es st1))"

text \<open>The assignments that were pending after some step of a run.\<close>

fun announced :: "('j store_env \<times> store_event) list \<Rightarrow> store \<Rightarrow> Assignment set" where
  "announced [] st = {}"
| "announced ((E, e) # es) st =
     (case store_step E e st of
        None \<Rightarrow> {}
      | Some (st1, _) \<Rightarrow> set_option (st_pending_assign st1) \<union> announced es st1)"

lemma store_step_steps:
  assumes "store_ok st" and "store_step (E :: 'j store_env) e st = Some (st', as)"
  shows "clip_steps (T :: 'j itself) (set_option (st_pending_assign st')) st st' as"
proof (cases e)
  case (FrameIn buf)
  with assms show ?thesis by (auto intro: handle_frame_steps)
next
  case (EventIn js)
  with assms have "event_cb E js st = Some (st', as)" by simp
  then show ?thesis by (rule event_cb_steps)
qed

lemma store_run_steps:
  "store_ok st \<Longrightarrow> store_run (es :: ('j store_env \<times> store_event) list) st = Some (st', as) \<Longrightarrow>
   clip_steps (T :: 'j itself) (announced es st) st st' as"
proof (induction es arbitrary: st as)
  case Nil
  then show ?case by (simp add: clip_steps.refl)
next
  case (Cons p es)
  obtain E e where p: "p = (E, e)" by (cases p)
  with Cons.prems(2) obtain st1 a b where s: "store_step E e st = Some (st1, a)"
    "store_run es st1 = Some (st', b)" "as = a @ b"
    by (auto simp: bind_eq_Some_conv)
  note s1 = store_step_steps [OF Cons.prems(1) s(1), of T]
  then have "store_ok st1" using clip_steps_keeps Cons.prems(1) keeps_ok by blast
  from Cons.IH [OF this s(2)] have "clip_steps T (announced (p # es) st) st1 st' b"
    by (rule clip_steps_mono) (simp add: p s(1))
  moreover have "clip_steps T (announced (p # es) st) st st1 a"
    by (rule clip_steps_mono [OF s1]) (simp add: p s(1))
  ultimately show ?case unfolding s(3) by (rule clip_steps_trans)
qed

lemma store_init_ok [simp]: "store_ok (store_init cfg)"
  by (simp add: store_init_def store_cfg.defs store_ok_def)

lemma store_init_not_recording [simp]: "\<not> st_recording (store_init cfg)"
  by (simp add: store_init_def store_cfg.defs)

section \<open>Event ids and tokens\<close>

text \<open>The clips of a trace, each with the token of its opening and the event id it was closed with.\<close>

fun clip_ids :: "string \<Rightarrow> store_act list \<Rightarrow> (string \<times> int) list" where
  "clip_ids tok [] = []"
| "clip_ids tok (a # as) =
     (case a of
        PublishOpening t c \<Rightarrow> clip_ids t as
      | PublishClip i p c d f \<Rightarrow> (tok, i) # clip_ids tok as
      | _ \<Rightarrow> clip_ids tok as)"

fun last_token :: "string \<Rightarrow> store_act list \<Rightarrow> string" where
  "last_token tok [] = tok"
| "last_token tok (a # as) = last_token (case a of PublishOpening t c \<Rightarrow> t | _ \<Rightarrow> tok) as"

definition opening_tokens :: "store_act list \<Rightarrow> string list" where
  "opening_tokens as = List.map_filter (\<lambda>a. case a of PublishOpening t c \<Rightarrow> Some t | _ \<Rightarrow> None) as"

lemma clip_ids_append: "clip_ids tok (as @ bs) = clip_ids tok as @ clip_ids (last_token tok as) bs"
  by (induction as arbitrary: tok) (auto split: store_act.splits)

lemma last_token_append: "last_token tok (as @ bs) = last_token (last_token tok as) bs"
  by (induction as arbitrary: tok) (auto split: store_act.splits)

lemma opening_tokens_append [simp]: "opening_tokens (as @ bs) = opening_tokens as @ opening_tokens bs"
  by (simp add: opening_tokens_def map_filter_def)

lemma opening_tokens_simps [simp]:
  "opening_tokens [] = []" "opening_tokens (PublishOpening t c # as) = t # opening_tokens as"
  "opening_tokens (MuxPacket h k r d # as) = opening_tokens as"
  "opening_tokens (Sidecar p q # as) = opening_tokens as"
  "opening_tokens (PublishClip i p c n f # as) = opening_tokens as"
  "opening_tokens (RenameClip p q # as) = opening_tokens as"
  "opening_tokens (Downstream b # as) = opening_tokens as"
  by (simp_all add: opening_tokens_def map_filter_simps)

lemma mux_ids: "list_all is_mux as \<Longrightarrow> clip_ids tok as = [] \<and> last_token tok as = tok \<and> opening_tokens as = []"
  by (induction as arbitrary: tok) (auto simp: is_mux_def split: store_act.splits)

definition tracked :: "Assignment set \<Rightarrow> string \<Rightarrow> store \<Rightarrow> bool" where
  "tracked S tok st \<longleftrightarrow>
     (st_recording st \<longrightarrow> tok = st_current_clip_token st) \<and>
     (st_clip_assigned st \<longrightarrow> (\<exists>a \<in> S. as_clip_token a = st_current_clip_token st \<and>
        as_event_id a = st_current_event_id st)) \<and>
     (\<forall>a. st_pending_assign st = Some a \<longrightarrow> a \<in> S)"

definition ids_from :: "Assignment set \<Rightarrow> (string \<times> int) list \<Rightarrow> bool" where
  "ids_from S xs \<longleftrightarrow> (\<forall>(tok, i) \<in> set xs. i = 0 \<or> (\<exists>a \<in> S. as_clip_token a = tok \<and> as_event_id a = i))"

lemma assignment_tracked:
  assumes "tracked S tok st" and "apply_pending_assignment E st = (st', as)"
  shows "tracked S (last_token tok as) st' \<and> clip_ids tok as = []"
  using assms
  by (auto simp: apply_pending_assignment_def tracked_def Let_def split: if_splits option.splits)

lemma clip_step_tracked:
  assumes s: "clip_step T S st st' as" and ok: "store_ok st" and t: "tracked S tok st"
  shows "tracked S (last_token tok as) st' \<and> ids_from S (clip_ids tok as)"
  using s
proof (cases rule: clip_step.cases)
  case packet
  note w = write_packet_same [OF packet]
  note f = same_clipD [OF conjunct1 [OF w]]
  from t mux_ids [OF conjunct2 [OF w]] show ?thesis by (simp add: tracked_def ids_from_def f)
next
  case (opens E sid cause pre r)
  note c = open_recording_cases [OF ok opens]
  show ?thesis
  proof (cases r)
    case True
    with c obtain ms where "as = ms @ [PublishOpening (st_current_clip_token st') cause]" "list_all is_mux ms"
      by auto
    with t c show ?thesis
      by (simp add: tracked_def ids_from_def mux_ids clip_ids_append last_token_append)
  next
    case False
    with t c show ?thesis by (simp add: tracked_def ids_from_def)
  qed
next
  case closes
  note c = close_clip_cases [OF ok closes]
  have z: "\<not> st_clip_assigned st \<Longrightarrow> st_current_event_id st = 0" using ok by (simp add: store_ok_def)
  show ?thesis
  proof (cases "st_recording st")
    case True
    with c obtain p q path cause dur where "as = [Sidecar p q,
       PublishClip (st_current_event_id st) path cause dur (st_frames_written st)]" by auto
    with t c True z show ?thesis by (auto simp: tracked_def ids_from_def)
  next
    case False
    with t c show ?thesis by (simp add: tracked_def ids_from_def)
  qed
next
  case assign
  from assignment_tracked [OF t assign] show ?thesis by (simp add: ids_from_def)
qed (use t in \<open>simp_all add: tracked_def ids_from_def\<close>)

lemma clip_steps_tracked:
  "clip_steps T S st st' as \<Longrightarrow> store_ok st \<Longrightarrow> tracked S tok st \<Longrightarrow>
   tracked S (last_token tok as) st' \<and> ids_from S (clip_ids tok as)"
proof (induction rule: clip_steps.induct)
  case (refl st)
  then show ?case by (simp add: ids_from_def)
next
  case (step a b as c bs)
  note IH = step.IH [OF step.prems]
  from clip_step_tracked [OF step.hyps(2) keeps_ok [OF clip_steps_keeps [OF step.hyps(1) step.prems(1)]]
      conjunct1 [OF IH]] IH
  show ?case by (auto simp: ids_from_def clip_ids_append last_token_append)
qed

text \<open>A token ends in the clip's number, after its last hyphen.\<close>

lemma token_number:
  "takeWhile (\<lambda>c. c \<noteq> CHR ''-'') (rev (clip_token m w s)) = rev (to_string (uint s))"
proof -
  have d: "\<forall>c \<in> set (to_string (uint s)). c \<noteq> CHR ''-''"
    using nat_digits_props [of "nat (uint s)"] digit_not_special by (auto simp: to_string_def)
  have e: "rev (clip_token m w s) =
      rev (to_string (uint s)) @ CHR ''-'' # rev (to_string m @ ''-'' @ to_string w)"
    by (simp add: clip_token_def)
  show ?thesis unfolding e using d by (subst takeWhile_append2) auto
qed

definition seq_text :: "u64 \<Rightarrow> nat \<Rightarrow> string" where
  "seq_text s i = rev (to_string (uint (s + of_nat (Suc i))))"

definition token_tail :: "string \<Rightarrow> string" where
  "token_tail t = takeWhile (\<lambda>c. c \<noteq> CHR ''-'') (rev t)"

lemma seq_text_inj:
  assumes "seq_text s i = seq_text s j" and "i < 2 ^ 64" and "j < 2 ^ 64"
  shows "i = j"
proof -
  have "nat_digits (nat (uint (s + of_nat (Suc i)))) = nat_digits (nat (uint (s + of_nat (Suc j))))"
    using assms(1) by (simp add: seq_text_def to_string_def)
  then have "unat (s + of_nat (Suc i)) = unat (s + of_nat (Suc j))"
    using nat_digits_props unfolding unat_eq_nat_uint by metis
  then have "s + of_nat (Suc i) = s + of_nat (Suc j)" by (simp only: word_unat_eq_iff)
  then have "(of_nat i :: u64) = of_nat j" by simp
  then have "unat (of_nat i :: u64) = unat (of_nat j :: u64)" by (rule arg_cong)
  then show ?thesis using assms(2,3) by simp
qed

definition numbered :: "store \<Rightarrow> store \<Rightarrow> store_act list \<Rightarrow> bool" where
  "numbered st st' as \<longleftrightarrow>
     st_clip_seq st' = st_clip_seq st + of_nat (length (opening_tokens as)) \<and>
     map token_tail (opening_tokens as) = map (seq_text (st_clip_seq st)) [0..<length (opening_tokens as)]"

lemma seq_text_shift: "map (seq_text (s + of_nat n)) [0..<m] = map (seq_text s) [n..<n + m]"
  by (rule nth_equalityI) (simp_all add: seq_text_def add_ac)

lemma numbered_append:
  assumes "numbered a b as" and "numbered b c bs"
  shows "numbered a c (as @ bs)"
proof -
  let ?n = "length (opening_tokens as)" let ?m = "length (opening_tokens bs)"
  have "[0..<?n + ?m] = [0..<?n] @ [?n..<?n + ?m]" by (rule upt_add_eq_append) simp
  then show ?thesis
    using assms by (simp add: numbered_def seq_text_shift add_ac)
qed

lemma clip_step_numbered:
  assumes s: "clip_step T S st st' as" and ok: "store_ok st"
  shows "numbered st st' as"
  using s
proof (cases rule: clip_step.cases)
  case packet
  note w = write_packet_same [OF packet]
  from same_clipD(10) [OF conjunct1 [OF w]] mux_ids [OF conjunct2 [OF w]] show ?thesis
    by (simp add: numbered_def)
next
  case (opens E sid cause pre r)
  note c = open_recording_cases [OF ok opens]
  show ?thesis
  proof (cases r)
    case True
    with c obtain ms where "as = ms @ [PublishOpening (st_current_clip_token st') cause]" "list_all is_mux ms"
      by auto
    with c True show ?thesis
      by (simp add: numbered_def mux_ids token_tail_def token_number seq_text_def)
  next
    case False
    with c show ?thesis by (simp add: numbered_def)
  qed
next
  case closes
  from close_clip_cases [OF ok closes] show ?thesis by (auto simp: numbered_def split: if_splits)
next
  case assign
  then show ?thesis
    by (auto simp: apply_pending_assignment_def numbered_def Let_def split: if_splits option.splits)
qed (simp_all add: numbered_def)

lemma clip_steps_numbered: "clip_steps T S st st' as \<Longrightarrow> store_ok st \<Longrightarrow> numbered st st' as"
proof (induction rule: clip_steps.induct)
  case (refl st)
  then show ?case by (simp add: numbered_def)
next
  case (step a b as c bs)
  show ?case
    by (rule numbered_append [OF step.IH [OF step.prems]
          clip_step_numbered [OF step.hyps(2) keeps_ok [OF clip_steps_keeps [OF step.hyps(1) step.prems]]]])
qed

lemma numbered_distinct:
  assumes "numbered st st' as" and "length (opening_tokens as) < 2 ^ 64"
  shows "distinct (opening_tokens as)"
proof -
  have "inj_on (seq_text (st_clip_seq st)) (set [0..<length (opening_tokens as)])"
    using seq_text_inj assms(2) by (auto simp: inj_on_def)
  then have "distinct (map token_tail (opening_tokens as))"
    using assms(1) by (simp add: numbered_def distinct_map)
  then show ?thesis by (simp add: distinct_map)
qed

section \<open>Continuous recording\<close>

definition opens_ok :: "'j store_env \<Rightarrow> bool" where
  "opens_ok E \<longleftrightarrow> se_alloc E \<and> se_avio E \<and> se_new_video E \<and> se_header E"

definition is_video :: "BufferedPacket \<Rightarrow> bool" where
  "is_video pk \<longleftrightarrow> bp_hw_type pk = ZM_FRAME_COMPRESSED"

text \<open>The video data of a trace, and the check that each segment's first video packet is a keyframe.\<close>

fun video_data :: "store_act list \<Rightarrow> bytes list" where
  "video_data [] = []"
| "video_data (a # as) =
     (case a of MuxPacket h k t d \<Rightarrow> if h = ZM_FRAME_COMPRESSED then d # video_data as else video_data as
      | _ \<Rightarrow> video_data as)"

fun segments_keyed :: "bool \<Rightarrow> store_act list \<Rightarrow> bool" where
  "segments_keyed fresh [] = True"
| "segments_keyed fresh (a # as) =
     (case a of
        MuxPacket h k t d \<Rightarrow>
          if h = ZM_FRAME_COMPRESSED then (fresh \<longrightarrow> k) \<and> segments_keyed False as else segments_keyed fresh as
      | PublishOpening t c \<Rightarrow> segments_keyed True as
      | _ \<Rightarrow> segments_keyed fresh as)"

fun segment_fresh :: "bool \<Rightarrow> store_act list \<Rightarrow> bool" where
  "segment_fresh fresh [] = fresh"
| "segment_fresh fresh (a # as) =
     (case a of
        MuxPacket h k t d \<Rightarrow> segment_fresh (if h = ZM_FRAME_COMPRESSED then False else fresh) as
      | PublishOpening t c \<Rightarrow> segment_fresh True as
      | _ \<Rightarrow> segment_fresh fresh as)"

fun record_frames :: "('j store_env \<times> BufferedPacket) list \<Rightarrow> store \<Rightarrow> store \<times> store_act list" where
  "record_frames [] st = (st, [])"
| "record_frames ((E, pk) # rest) st =
     (case record_frame E pk st of (st1, a) \<Rightarrow>
        (case record_frames rest st1 of (st2, b) \<Rightarrow> (st2, a @ b)))"

lemma video_data_append [simp]: "video_data (as @ bs) = video_data as @ video_data bs"
  by (induction as) (auto split: store_act.splits)

lemma segments_keyed_append:
  "segments_keyed f (as @ bs) \<longleftrightarrow> segments_keyed f as \<and> segments_keyed (segment_fresh f as) bs"
  by (induction as arbitrary: f) (auto split: store_act.splits)

lemma segment_fresh_append: "segment_fresh f (as @ bs) = segment_fresh (segment_fresh f as) bs"
  by (induction as arbitrary: f) (auto split: store_act.splits)

lemma open_without_preroll:
  "open_recording E sid cause False st = (r, st', as) \<Longrightarrow>
   as = (if r then [PublishOpening (st_current_clip_token st') cause] else [])"
  by (auto simp: open_recording_def Let_def split: prod.splits bool.splits)

lemma open_recording_ok:
  assumes "opens_ok E" and "st_video st \<noteq> None" and "open_recording E sid cause pre st = (r, st', as)"
  shows r
proof -
  have "fst (open_clip E sid st)"
    using assms(1,2) by (auto simp: open_clip_def opens_ok_def Let_def)
  with assms(3) show ?thesis
    by (auto simp: open_recording_def Let_def split: prod.splits bool.splits)
qed

text \<open>What \<open>drive_continuous\<close> does: nothing, or, on a video keyframe, a new segment.\<close>

lemma drive_continuous_cases:
  assumes ok: "store_ok st" and v: "st_video st \<noteq> None" and e: "opens_ok E"
    and d: "drive_continuous E pk st = (st', as)"
  shows "store_ok st' \<and> sc_mode st' = sc_mode st \<and> st_video st' \<noteq> None \<and>
    st_recording st' = (st_recording st \<or> is_video_key pk) \<and> video_data as = [] \<and>
    segments_keyed f as \<and> (is_video_key pk \<or> as = [])"
proof -
  have k: "keeps st st' as"
    by (rule clip_steps_keeps [OF drive_continuous_steps [OF ok d] ok])
  have op: "video_data b = [] \<and> segments_keyed g b \<and> st_recording s' \<and> st_video s' = st_video s"
    if "store_ok s" "\<not> st_recording s" "st_video s \<noteq> None"
      "open_recording E sid c False s = (r, s', b)" for s sid c r s' b g
    using open_recording_cases [OF that(1,2,4)] open_recording_ok [OF e that(3,4)]
      open_without_preroll [OF that(4)] by simp
  show ?thesis
  proof (cases "st_recording st")
    case False
    show ?thesis
    proof (cases "is_video_key pk")
      case True
      then obtain r where o: "open_recording E (bp_stream_id pk) ''continuous'' False st = (r, st', as)"
        using d False v by (auto simp: drive_continuous_def) (metis prod.collapse)
      from op [OF ok False v o] k v True show ?thesis by (auto simp: keeps_def)
    next
      case nk: False
      with d False have "st' = st" "as = []" by (auto simp: drive_continuous_def)
      with ok v False nk show ?thesis by simp
    qed
  next
    case True
    show ?thesis
    proof (cases "is_video_key pk \<and> st_start_ts st \<noteq> 0 \<and>
        usec_to_sec (bp_pts_usec pk - st_start_ts st) \<ge> sc_max_secs st")
      case rot: True
      obtain st1 a where c: "close_clip (se_json E) st = (st1, a)" by (cases "close_clip (se_json E) st")
      obtain r st2 b where o: "open_recording E (bp_stream_id pk) ''continuous'' False st1 = (r, st2, b)"
        by (cases "open_recording E (bp_stream_id pk) ''continuous'' False st1")
      from d True rot c o have e: "st' = st2" "as = a @ b" by (auto simp: drive_continuous_def Let_def)
      note cc = close_clip_cases [OF ok c]
      then have c1: "store_ok st1" "\<not> st_recording st1" "st_video st1 \<noteq> None" using v by simp_all
      obtain p q i path cause dur n where "a = [Sidecar p q, PublishClip i path cause dur n]"
        using cc True by auto
      with op [OF c1 o] e k rot cc v show ?thesis by (auto simp: keeps_def)
    next
      case False
      with d True have "st' = st" "as = []" by (auto simp: drive_continuous_def Let_def split: if_splits)
      with ok v True show ?thesis by simp
    qed
  qed
qed

lemma assignment_acts:
  assumes "apply_pending_assignment E st = (st', as)"
  shows "video_data as = [] \<and> segments_keyed f as \<and> segment_fresh f as = f \<and> st_video st' = st_video st \<and>
    st_recording st' = st_recording st"
  using assms
  by (auto simp: apply_pending_assignment_def Let_def split: if_splits option.splits)

text \<open>One frame of continuous recording.\<close>

lemma record_frame_continuous:
  assumes ok: "store_ok st" and v: "st_video st \<noteq> None" and e: "opens_ok E"
    and m: "sc_mode st \<noteq> EventMode" and r: "record_frame E pk st = (st', as)"
  shows "store_ok st' \<and> sc_mode st' = sc_mode st \<and> st_video st' \<noteq> None \<and>
    st_recording st' = (st_recording st \<or> is_video_key pk) \<and>
    video_data as = (if is_video pk \<and> st_recording st' then [bp_data pk] else []) \<and>
    segments_keyed False as \<and> \<not> segment_fresh False as"
proof -
  obtain st1 a where a: "drive_continuous E pk st = (st1, a)" by (cases "drive_continuous E pk st")
  obtain st2 b where b: "apply_pending_assignment E st1 = (st2, b)" by (cases "apply_pending_assignment E st1")
  obtain st3 c where c: "write_packet pk st2 = (st3, c)" by (cases "write_packet pk st2")
  note da = drive_continuous_cases [OF ok v e a]
  note ab = assignment_acts [OF b]
  have k2: "store_ok st2" "sc_mode st2 = sc_mode st1"
    using assignment_keeps [OF _ b] da [of False] by (simp_all add: keeps_def)
  note w = write_packet_same [OF c]
  note sc = same_clipD [OF conjunct1 [OF w]]
  have k3: "store_ok st3" using same_clip_ok [OF k2(1)] w by blast
  show ?thesis
  proof (cases "st_recording st1")
    case False
    with r m a have "st' = st1" "as = a" by (auto simp: record_frame_def)
    with da [of False] False show ?thesis by auto
  next
    case True
    then have rec2: "st_recording st2" "st_video_stream st2" "st_header_written st2" "st_fmt_ctx st2"
      using ab k2(1) by (simp_all add: store_ok_def)
    from r m a b c True have x: "st' = st3" "as = a @ b @ c" by (auto simp: record_frame_def)
    have cv: "is_video pk \<Longrightarrow> \<exists>t. c = [MuxPacket ZM_FRAME_COMPRESSED (bp_keyframe pk) t (bp_data pk)]"
      using c rec2 by (auto simp: write_packet_def is_video_def Let_def ZM_FRAME_COMPRESSED_def
          ZM_FRAME_COMPRESSED_AUDIO_def split: if_splits)
    have ca: "\<not> is_video pk \<Longrightarrow> c = [] \<or> (\<exists>k t d. c = [MuxPacket (bp_hw_type pk) k t d])"
      using c by (auto simp: write_packet_def Let_def split: if_splits)
    show ?thesis
    proof (cases "is_video pk")
      case True
      with cv obtain t where ct: "c = [MuxPacket ZM_FRAME_COMPRESSED (bp_keyframe pk) t (bp_data pk)]" by blast
      have key: "segment_fresh False a \<longrightarrow> bp_keyframe pk"
        using da [of False] by (auto simp: is_video_key_def)
      from x ct da [of False] ab [of "segment_fresh False a"] k2 k3 sc True key \<open>st_recording st1\<close> show ?thesis
        by (simp add: segments_keyed_append segment_fresh_append)
    next
      case False
      then have nk: "\<not> is_video_key pk" by (simp add: is_video_key_def is_video_def)
      then have "a = []" using da [of False] by simp
      have "video_data c = [] \<and> segments_keyed False c \<and> \<not> segment_fresh False c"
        using ca [OF False] False unfolding is_video_def by (elim disjE exE) simp_all
      with x \<open>a = []\<close> da [of False] ab [of False] k2 k3 sc False \<open>st_recording st1\<close> show ?thesis
        by (simp add: segments_keyed_append segment_fresh_append)
    qed
  qed
qed

lemma record_frames_continuous:
  "\<lbrakk>store_ok st; st_video st \<noteq> None; \<forall>(E, pk) \<in> set fs. opens_ok E; sc_mode st \<noteq> EventMode;
    record_frames fs st = (st', as)\<rbrakk> \<Longrightarrow>
   segments_keyed False as \<and>
   (st_recording st \<or> (fs \<noteq> [] \<and> is_video_key (snd (hd fs))) \<longrightarrow>
     video_data as = map bp_data (filter is_video (map snd fs)))"
proof (induction fs arbitrary: st as)
  case (Cons p fs)
  obtain E pk where p: "p = (E, pk)" by (cases p)
  obtain st1 a where r1: "record_frame E pk st = (st1, a)" by (cases "record_frame E pk st")
  obtain b where r2: "record_frames fs st1 = (st', b)" and as: "as = a @ b"
    using Cons.prems(5) p r1 by (auto split: prod.splits)
  have e: "opens_ok E" using Cons.prems(3) p by simp
  note f = record_frame_continuous [OF Cons.prems(1,2) e Cons.prems(4) r1]
  have IH: "segments_keyed False b \<and> (st_recording st1 \<longrightarrow> video_data b = map bp_data (filter is_video (map snd fs)))"
    using Cons.IH [OF _ _ _ _ r2] f Cons.prems(3,4) by simp
  have "is_video_key pk \<Longrightarrow> is_video pk" by (simp add: is_video_key_def is_video_def)
  with f IH as p show ?case by (auto simp: segments_keyed_append)
qed simp

section \<open>Free file names\<close>

lemma clip_candidate_inj: "clip_candidate stem n = clip_candidate stem m \<Longrightarrow> n = m"
proof -
  assume "clip_candidate stem n = clip_candidate stem m"
  then have "nat_digits n = nat_digits m" by (simp add: clip_candidate_def to_string_def)
  then show "n = m" using nat_digits_props by metis
qed

lemma free_clip_path_free: "free_clip_path files stem n fuel = Some c \<Longrightarrow> c \<notin> set files"
  by (induction files stem n fuel rule: free_clip_path.induct) (auto split: if_splits)

lemma free_clip_path_None:
  "free_clip_path files stem n fuel = None \<Longrightarrow> clip_candidate stem ` {n..<n + fuel} \<subseteq> set files"
proof (induction files stem n fuel rule: free_clip_path.induct)
  case (2 files stem n fuel)
  have "{n..<n + Suc fuel} = insert n {n + 1..<n + 1 + fuel}" by auto
  with 2 show ?case by (auto split: if_splits)
qed simp

lemma free_clip_path_total: "\<exists>c. free_clip_path files stem n (Suc (length files)) = Some c"
proof (rule ccontr)
  assume "\<nexists>c. free_clip_path files stem n (Suc (length files)) = Some c"
  then have "free_clip_path files stem n (Suc (length files)) = None" by (meson not_Some_eq)
  from free_clip_path_None [OF this]
  have "card (clip_candidate stem ` {n..<n + Suc (length files)}) \<le> card (set files)"
    by (rule card_mono [OF List.finite_set])
  moreover have "inj_on (clip_candidate stem) {n..<n + Suc (length files)}"
    using clip_candidate_inj by (auto simp: inj_on_def)
  ultimately have "Suc (length files) \<le> card (set files)" by (simp add: card_image)
  then show False using card_length [of files] by simp
qed

section \<open>Event clips\<close>

lemma write_packet_video:
  assumes "st_header_written st" and "st_fmt_ctx st" and "st_video_stream st"
    and "write_packet pk st = (st', as)"
  shows "video_data as = (if is_video pk then [bp_data pk] else []) \<and>
    st_header_written st' \<and> st_fmt_ctx st' \<and> st_video_stream st'"
  using assms
  by (auto simp: write_packet_def is_video_def Let_def ZM_FRAME_COMPRESSED_def
      ZM_FRAME_COMPRESSED_AUDIO_def split: if_splits)

lemma write_packets_video:
  "\<lbrakk>st_header_written st; st_fmt_ctx st; st_video_stream st; write_packets pks st = (st', as)\<rbrakk> \<Longrightarrow>
   video_data as = map bp_data (filter is_video pks)"
proof (induction pks arbitrary: st as)
  case (Cons pk pks)
  obtain st1 a b where w: "write_packet pk st = (st1, a)" "write_packets pks st1 = (st', b)" "as = a @ b"
    using Cons.prems(4) by (auto split: prod.splits)
  from write_packet_video [OF Cons.prems(1-3) w(1)] Cons.IH [OF _ _ _ w(2)] w(3) show ?case by simp
qed simp

lemma open_with_preroll:
  assumes ok: "store_ok st" and nr: "\<not> st_recording st"
    and o: "open_recording E sid cause True st = (True, st', as)"
  shows "\<exists>ms. as = ms @ [PublishOpening (st_current_clip_token st') cause] \<and>
    video_data ms = map bp_data (filter is_video (st_buffer st)) \<and> st_current_cause st' = cause"
proof -
  obtain r st1 where oc: "open_clip E sid st = (r, st1)" by (cases "open_clip E sid st")
  note c = open_clip_cases [OF ok nr oc]
  have r: r using o oc by (cases r) (simp_all add: open_recording_def)
  let ?tok = "clip_token (sc_monitor_id st1) (se_wall E) (st_clip_seq st1 + 1)"
  let ?st = "st1\<lparr>st_recording := True, st_descriptions := [], st_current_cause := cause,
     st_clip_seq := st_clip_seq st1 + 1, st_current_clip_token := ?tok,
     st_current_event_id := 0, st_clip_assigned := False\<rparr>"
  obtain st2 ms where w: "write_packets (st_buffer ?st) ?st = (st2, ms)" by (cases "write_packets (st_buffer ?st) ?st")
  from o oc r w have e: "st' = st2" "as = ms @ [PublishOpening ?tok cause]"
    by (auto simp: open_recording_def Let_def write_preroll_def split: prod.splits)
  have s: "same_clip ?st st2" using write_packets_same [OF w] by blast
  have "st_current_cause st2 = cause" using same_clipD(17) [OF s] by simp
  moreover have "video_data ms = map bp_data (filter is_video (st_buffer ?st))"
    by (rule write_packets_video [OF _ _ _ w]) (use c r in simp_all)
  ultimately show ?thesis using e c same_clipD(7) [OF s] by simp
qed

section \<open>Properties\<close>

text \<open>
  C4. The hand-shake with zm-api: whatever frames and events arrive, the recorder's announcements
  alternate between RecordingOpening and EventClip, a clip is open exactly while the recorder is
  recording with an open muxer, and stopping the plugin closes the last one.
\<close>
theorem recorder_handshake:
  assumes "store_run es (store_init cfg) = Some (st, as)" and "handle_stop J st = (st', bs)"
  shows "rec_trace False as = Some (st_recording st) \<and> st_fmt_ctx st = st_recording st \<and>
    rec_trace False (as @ bs) = Some False \<and> \<not> st_fmt_ctx st'"
proof -
  note k = clip_steps_keeps [OF store_run_steps [OF store_init_ok assms(1)] store_init_ok]
  note k' = clip_steps_keeps [OF handle_stop_steps [OF assms(2)] keeps_ok [OF k]]
  have "rec_trace False (as @ bs) = Some (st_recording st')"
    using keeps_append [OF k k'] by (simp add: keeps_def)
  moreover have "\<not> st_recording st'" by (rule handle_stop_closed [OF keeps_ok [OF k] assms(2)])
  ultimately show ?thesis using k k' by (simp add: keeps_def store_ok_def)
qed

text \<open>
  C5. The event id that a clip is saved under is 0 or the id of an assignment that zm-api made for the
  token of that very clip; and no two clips of a worker have the same token.
\<close>
theorem clip_ids_assigned:
  assumes "store_run es (store_init cfg) = Some (st, as)" and "length (opening_tokens as) < 2 ^ 64"
  shows "(\<forall>(tok, i) \<in> set (clip_ids [] as). i = 0 \<or>
      (\<exists>a \<in> announced es (store_init cfg). as_clip_token a = tok \<and> as_event_id a = i)) \<and>
    distinct (opening_tokens as)"
proof -
  note s = store_run_steps [OF store_init_ok assms(1)]
  have "tracked (announced es (store_init cfg)) [] (store_init cfg)"
    by (simp add: tracked_def) (simp add: store_init_def store_cfg.defs)
  from clip_steps_tracked [OF s store_init_ok this]
    numbered_distinct [OF clip_steps_numbered [OF s store_init_ok] assms(2)]
  show ?thesis by (simp add: ids_from_def)
qed

text \<open>
  C6. Continuous recording loses no video: with codec parameters known and the muxer opening, from the
  first video keyframe on every video frame is written to exactly one segment, in order, over all
  rotations; and every segment's first video frame is a keyframe.
\<close>
theorem continuous_records_everything:
  assumes "store_ok st" and "sc_mode st \<noteq> EventMode" and "st_video st \<noteq> None"
    and "\<forall>(E, pk) \<in> set fs. opens_ok E"
    and "st_recording st \<or> (fs \<noteq> [] \<and> is_video_key (snd (hd fs)))"
    and "record_frames fs st = (st', as)"
  shows "video_data as = map bp_data (filter is_video (map snd fs)) \<and> segments_keyed False as"
  using record_frames_continuous [OF assms(1,3,4,2,6)] assms(5) by blast

text \<open>
  Event recording: a trigger outside of a clip opens one that starts with all the video of the
  pre-roll buffer, in order, and then asks zm-api for an id with the trigger as the cause; the post-roll
  counts from the newest packet.
\<close>
theorem trigger_writes_preroll:
  assumes "store_ok st" and "sc_mode st = EventMode" and "\<not> st_recording st" and "st_video st \<noteq> None"
    and "opens_ok E" and "on_trigger E sid type st = (st', as)"
  shows "st_recording st' \<and>
    (\<exists>ms. as = ms @ [PublishOpening (st_current_clip_token st') type] \<and>
       video_data ms = map bp_data (filter is_video (st_buffer st))) \<and>
    (st_buffer st \<noteq> [] \<longrightarrow> st_last_trigger_usec st' = bp_pts_usec (last (st_buffer st)))"
proof -
  obtain r st1 a where o: "open_recording E sid type True st = (r, st1, a)"
    by (cases "open_recording E sid type True st")
  have r: r by (rule open_recording_ok [OF assms(5,4) o])
  have e: "st' = st1\<lparr>st_last_trigger_usec := (if st_buffer st = [] then st_last_pts st
      else bp_pts_usec (last (st_buffer st)))\<rparr>" "as = a"
    using assms(2,3,6) o by (auto simp: on_trigger_def Let_def)
  from o r have o': "open_recording E sid type True st = (True, st1, a)" by simp
  obtain ms where "as = ms @ [PublishOpening (st_current_clip_token st') type]"
    "video_data ms = map bp_data (filter is_video (st_buffer st))"
    using open_with_preroll [OF assms(1,3) o'] e by auto
  then show ?thesis using open_recording_cases [OF assms(1,3) o'] e by auto
qed

text \<open>
  The search for a free file name ends: one more try than there are files finds a name that no file
  has, and a clip never opens over an existing file.
\<close>
theorem clip_target_free: "clip_target files path \<notin> set files"
proof (cases "path \<in> set files")
  case False
  then show ?thesis by (simp add: clip_target_def)
next
  case True
  let ?stem = "take (length path - 4) path"
  obtain c where c: "free_clip_path files ?stem 2 (Suc (length files)) = Some c"
    using free_clip_path_total by blast
  from free_clip_path_free [OF c] True c show ?thesis by (simp add: clip_target_def)
qed

section \<open>Witnesses\<close>

definition demo_cfg :: "Mode \<Rightarrow> store_cfg" where
  "demo_cfg m = \<lparr>sc_mode = m, sc_root = ''/m'', sc_monitor_id = 3, sc_max_secs = 300, sc_pre_roll_sec = 5,
     sc_post_roll_sec = 10, sc_max_buffer_sec = 15, sc_trigger_types = [], sc_stream_filter = []\<rparr>"

definition demo_store_env :: "jdoc store_env" where
  "demo_store_env = \<lparr>se_json = jdoc_api [''m'' \<mapsto> JObj [(''event'', JStr ''StreamMetadata'')],
       ''a'' \<mapsto> JObj [(''cmd'', JStr ''assign_recording''), (''clip_token'', JStr (clip_token 3 0 1)),
         (''event_id'', JInt 42)]],
     se_b64 = (\<lambda>_. []), se_wall = 0,
     se_localtime = (\<lambda>_. \<lparr>tm_year = 100, tm_mon = 0, tm_mday = 1, tm_hour = 0, tm_min = 0, tm_sec = 0\<rparr>),
     se_files = [], se_alloc = True, se_avio = True, se_new_video = True, se_new_audio = True,
     se_header = True, se_rename = True\<rparr>"

definition demo_key_frame :: bytes where
  "demo_key_frame = [0, 0, 0, 0, 100, 0, 0, 0, 0, 0, 0, 0, 0, 0, 0, 0, 1, 0, 0, 0, 1, 0, 0, 0,
     5, 0, 0, 0, 0, 0, 0, 0, 9]"

lemma demo_key_frame_hdr:
  "frame_hdr demo_key_frame = \<lparr>fh_stream_id = 0, fh_hw_type = ZM_FRAME_COMPRESSED, fh_handle = 0,
     fh_bytes = 1, fh_flags = 1, fh_pts_usec = 5\<rparr>"
  by (simp add: frame_hdr_def demo_key_frame_def get_u32_def get_u64_def ZM_FRAME_COMPRESSED_def)

lemma demo_key_packet:
  "packet_of (frame_hdr demo_key_frame) (drop sizeof_frame_hdr demo_key_frame) =
     \<lparr>bp_stream_id = 0, bp_hw_type = ZM_FRAME_COMPRESSED, bp_keyframe = True, bp_pts_usec = 5, bp_data = [9]\<rparr>"
  by (simp add: demo_key_frame_hdr packet_of_def sizeof_frame_hdr_def) (simp add: demo_key_frame_def)

lemma demo_event: "event_cb demo_store_env ''m'' (store_init (demo_cfg m)) =
    Some ((store_init (demo_cfg m))\<lparr>st_video := Some \<lparr>vp_codec_id = 0, vp_width = 0, vp_height = 0,
       vp_format = 0, vp_profile = 0, vp_level = 0, vp_extradata = []\<rparr>\<rparr>, [])"
  by (simp add: event_cb_def demo_store_env_def jdoc_simps store_init_def store_cfg.defs demo_cfg_def
      apply_stream_metadata_def video_params_def json_stream_id_def stream_allowed_def)

lemma demo_frame:
  assumes "st_video st \<noteq> None" and "\<not> st_recording st" and "sc_mode st = Continuous"
    and "sc_stream_filter st = []" and "st_audio st = None" and "sc_monitor_id st = 3" and "st_clip_seq st = 0"
    and "st_pending_assign st = None"
  shows "\<exists>st'. handle_frame demo_store_env demo_key_frame st =
    (st', [PublishOpening (clip_token 3 0 1) ''continuous'', MuxPacket ZM_FRAME_COMPRESSED True 0 [9],
      Downstream demo_key_frame])"
proof -
  have "length demo_key_frame = 33" "hd demo_key_frame \<noteq> 123" "ZM_FRAME_COMPRESSED \<noteq> ZM_FRAME_COMPRESSED_AUDIO"
    by (simp_all add: demo_key_frame_def ZM_FRAME_COMPRESSED_def ZM_FRAME_COMPRESSED_AUDIO_def)
  then show ?thesis
    using assms
    by (auto simp: handle_frame_def demo_key_packet [unfolded demo_key_frame_hdr sizeof_frame_hdr_def] demo_key_frame_hdr sizeof_frame_hdr_def stream_allowed_def
        record_frame_def drive_continuous_def is_video_key_def open_recording_def open_clip_def
        demo_store_env_def clip_target_def apply_pending_assignment_def write_packet_def Let_def)
qed

lemma demo_run:
  "\<exists>st. store_run [(demo_store_env, EventIn ''m''), (demo_store_env, FrameIn demo_key_frame)]
      (store_init (demo_cfg Continuous)) =
    Some (st, [PublishOpening (clip_token 3 0 1) ''continuous'', MuxPacket ZM_FRAME_COMPRESSED True 0 [9],
      Downstream demo_key_frame])"
proof -
  let ?st = "(store_init (demo_cfg Continuous))\<lparr>st_video := Some \<lparr>vp_codec_id = 0, vp_width = 0, vp_height = 0,
       vp_format = 0, vp_profile = 0, vp_level = 0, vp_extradata = []\<rparr>\<rparr>"
  have "\<exists>st'. handle_frame demo_store_env demo_key_frame ?st =
    (st', [PublishOpening (clip_token 3 0 1) ''continuous'', MuxPacket ZM_FRAME_COMPRESSED True 0 [9],
      Downstream demo_key_frame])"
    by (rule demo_frame) (simp_all add: store_init_def store_cfg.defs demo_cfg_def)
  then show ?thesis by (auto simp: demo_event)
qed

theorem recorder_handshake_witness:
  "\<exists>st as st' bs. store_run [(demo_store_env, EventIn ''m''), (demo_store_env, FrameIn demo_key_frame)]
      (store_init (demo_cfg Continuous)) = Some (st, as) \<and>
    handle_stop (se_json demo_store_env) st = (st', bs) \<and> opening_tokens as = [clip_token 3 0 1] \<and>
    rec_trace False (as @ bs) = Some False"
proof -
  obtain st where r: "store_run [(demo_store_env, EventIn ''m''), (demo_store_env, FrameIn demo_key_frame)]
      (store_init (demo_cfg Continuous)) = Some (st, [PublishOpening (clip_token 3 0 1) ''continuous'',
        MuxPacket ZM_FRAME_COMPRESSED True 0 [9], Downstream demo_key_frame])"
    using demo_run by blast
  obtain st' bs where h: "handle_stop (se_json demo_store_env) st = (st', bs)"
    by (cases "handle_stop (se_json demo_store_env) st")
  from recorder_handshake [OF r h] r h show ?thesis by (intro exI conjI) auto
qed

theorem clip_ids_assigned_witness:
  "\<exists>st as. store_run [(demo_store_env, EventIn ''m''), (demo_store_env, FrameIn demo_key_frame)]
      (store_init (demo_cfg Continuous)) = Some (st, as) \<and> opening_tokens as = [clip_token 3 0 1] \<and>
    distinct (opening_tokens as)"
proof -
  obtain st where r: "store_run [(demo_store_env, EventIn ''m''), (demo_store_env, FrameIn demo_key_frame)]
      (store_init (demo_cfg Continuous)) = Some (st, [PublishOpening (clip_token 3 0 1) ''continuous'',
        MuxPacket ZM_FRAME_COMPRESSED True 0 [9], Downstream demo_key_frame])"
    using demo_run by blast
  have "distinct (opening_tokens [PublishOpening (clip_token 3 0 1) ''continuous'',
        MuxPacket ZM_FRAME_COMPRESSED True 0 [9], Downstream demo_key_frame])"
    by (rule conjunct2 [OF clip_ids_assigned [OF r]]) simp
  with r show ?thesis by (intro exI conjI) auto
qed

definition demo_video_params :: VideoParams where
  "demo_video_params = \<lparr>vp_codec_id = 27, vp_width = 0, vp_height = 0, vp_format = 0, vp_profile = 0,
     vp_level = 0, vp_extradata = []\<rparr>"

theorem continuous_records_everything_witness:
  "\<exists>st' as. record_frames [(demo_store_env, demo_packet True 1), (demo_store_env, demo_packet False 2)]
      ((store_init (demo_cfg Continuous))\<lparr>st_video := Some demo_video_params\<rparr>) = (st', as) \<and> video_data as = [[], []]"
proof -
  let ?st = "(store_init (demo_cfg Continuous))\<lparr>st_video := Some demo_video_params\<rparr>"
  let ?fs = "[(demo_store_env, demo_packet True 1), (demo_store_env, demo_packet False 2)]"
  obtain st' as where r: "record_frames ?fs ?st = (st', as)" by (cases "record_frames ?fs ?st")
  have h: "store_ok ?st" "sc_mode ?st \<noteq> EventMode" "st_video ?st \<noteq> None" "\<forall>(E, pk) \<in> set ?fs. opens_ok E"
    "st_recording ?st \<or> (?fs \<noteq> [] \<and> is_video_key (snd (hd ?fs)))"
    by (simp_all add: demo_store_env_def opens_ok_def demo_packet_def is_video_key_def)
      (simp_all add: store_init_def store_cfg.defs demo_cfg_def)
  from continuous_records_everything [OF h r] r show ?thesis
    by (intro exI conjI) (auto simp: demo_packet_def is_video_def)
qed

theorem trigger_writes_preroll_witness:
  "\<exists>st' as ms. on_trigger demo_store_env 0 ''motion''
      ((store_init (demo_cfg EventMode))\<lparr>st_video := Some demo_video_params,
        st_buffer := [demo_packet True 1, demo_packet False 2]\<rparr>) = (st', as) \<and>
    as = ms @ [PublishOpening (st_current_clip_token st') ''motion''] \<and> video_data ms = [[], []] \<and>
    st_last_trigger_usec st' = 2000000"
proof -
  let ?st = "(store_init (demo_cfg EventMode))\<lparr>st_video := Some demo_video_params,
        st_buffer := [demo_packet True 1, demo_packet False 2]\<rparr>"
  obtain st' as where r: "on_trigger demo_store_env 0 ''motion'' ?st = (st', as)"
    by (cases "on_trigger demo_store_env 0 ''motion'' ?st")
  have h: "store_ok ?st" "sc_mode ?st = EventMode" "\<not> st_recording ?st" "st_video ?st \<noteq> None"
    "opens_ok demo_store_env"
    by (simp_all add: demo_store_env_def opens_ok_def) (simp_all add: store_init_def store_cfg.defs demo_cfg_def)
  from trigger_writes_preroll [OF h r] obtain ms where
    "as = ms @ [PublishOpening (st_current_clip_token st') ''motion'']"
    "video_data ms = [[], []]" "st_last_trigger_usec st' = 2000000"
    by (auto simp: demo_packet_def is_video_def)
  with r show ?thesis by (intro exI conjI)
qed

text \<open>
  A clip with audio only, as when the plugin stops before the first video frame of an event clip, is
  announced with a negative duration: \<open>last_pts\<close> is only set by video.
\<close>
lemma audio_only_duration_negative:
  assumes "st_fmt_ctx st" and "st_last_pts st = 0" and "st_start_ts st = 5000000"
  shows "\<exists>st' p t i path cause n. close_clip J st =
    (st', [Sidecar p t, PublishClip i path cause (- 5000000) n])"
  using assms by (simp add: close_clip_def)

end
