(* ===== verification/Motion_Gate.thy ===== *)
theory Motion_Gate
  imports Frame_Header Json_Api
begin

text \<open>
  The motion gate, plugins/motion_gate: the luma difference of motion_diff.hpp and the plugin's frame
  handler, which drops frames while nothing moves. Pixel counts and dimensions are natural numbers;
  the frame counter and the end of the cooldown keep their 64 bits.
\<close>

section \<open>Luma\<close>

datatype PixFmt = RGB24 | GRAY8 | YUV420P

text \<open>The values that a loop \<open>for (int y = 0; y < h; y += step)\<close> goes through.\<close>

definition strided :: "nat \<Rightarrow> nat \<Rightarrow> nat list" where
  "strided h step = filter (\<lambda>y. step dvd y) [0..<h]"

definition rgb_luma :: "nat \<Rightarrow> nat \<Rightarrow> nat \<Rightarrow> nat" where
  "rgb_luma r g b = (r * 77 + g * 150 + b * 29) div 256 mod 256"

definition luma_at :: "bytes \<Rightarrow> PixFmt \<Rightarrow> nat \<Rightarrow> nat \<Rightarrow> nat \<Rightarrow> nat" where
  "luma_at buf fmt w x y =
     (case fmt of
        RGB24 \<Rightarrow> let p = (y * w + x) * 3
                 in rgb_luma (unat (buf ! p)) (unat (buf ! (p + 1))) (unat (buf ! (p + 2)))
      | _ \<Rightarrow> unat (buf ! (y * w + x)))"

text \<open>The samples with \<open>dw\<close> and \<open>dh\<close>.\<close>

definition downsample_luma :: "bytes \<Rightarrow> PixFmt \<Rightarrow> nat \<Rightarrow> nat \<Rightarrow> nat \<Rightarrow> nat list \<times> nat \<times> nat" where
  "downsample_luma buf fmt w h step =
     (let step = max 1 step; dw = (w + step - 1) div step; dh = (h + step - 1) div step
      in (concat (map (\<lambda>y. map (\<lambda>x. luma_at buf fmt w x y) (strided w step)) (strided h step)), dw, dh))"

definition count_changed :: "nat list \<Rightarrow> nat list \<Rightarrow> int \<Rightarrow> int" where
  "count_changed a b threshold =
     (if length a \<noteq> length b then - 1
      else int (length (filter (\<lambda>(p, q). \<bar>int p - int q\<bar> > threshold) (zip a b))))"

section \<open>The plugin\<close>

record MotionGateCtx =
  mg_frameWidth :: int
  mg_frameHeight :: int
  mg_step :: int
  mg_pixelThreshold :: int
  mg_minChanged :: int
  mg_cooldownFrames :: int
  mg_gate :: bool
  mg_streamFilter :: "int list"
  mg_prev :: "nat list"
  mg_prevW :: nat
  mg_prevH :: nat
  mg_frameCount :: u64
  mg_gateOpenUntil :: u64

definition MotionGateCtx_init :: MotionGateCtx where
  "MotionGateCtx_init = \<lparr>mg_frameWidth = 0, mg_frameHeight = 0, mg_step = 4, mg_pixelThreshold = 20,
     mg_minChanged = 50, mg_cooldownFrames = 15, mg_gate = True, mg_streamFilter = [], mg_prev = [],
     mg_prevW = 0, mg_prevH = 0, mg_frameCount = 0, mg_gateOpenUntil = 0\<rparr>"

definition fmt_from_hw_type :: "u32 \<Rightarrow> PixFmt option" where
  "fmt_from_hw_type hw_type =
     (if hw_type = ZM_FRAME_RGB24 then Some RGB24
      else if hw_type = ZM_FRAME_GRAYSCALE then Some GRAY8
      else if hw_type = ZM_FRAME_YUV420P then Some YUV420P
      else None)"

fun push_streams :: "'j json_api \<Rightarrow> 'j list \<Rightarrow> MotionGateCtx + MotionGateCtx \<Rightarrow> MotionGateCtx + MotionGateCtx" where
  "push_streams J [] c = c"
| "push_streams J (s # ss) c =
     push_streams J ss (cfg_step (j_int J s) (\<lambda>v ctx. ctx\<lparr>mg_streamFilter := mg_streamFilter ctx @ [v]\<rparr>) c)"

definition motion_gate_start :: "'j json_api \<Rightarrow> string option \<Rightarrow> MotionGateCtx" where
  "motion_gate_start J json_cfg =
     (case j_parse J (case json_cfg of None \<Rightarrow> ''{}'' | Some s \<Rightarrow> s) of
        None \<Rightarrow> MotionGateCtx_init
      | Some j \<Rightarrow>
          let c = Inr MotionGateCtx_init;
              c = cfg_step (j_value_int J j ''frame_width'' 0) (\<lambda>v x. x\<lparr>mg_frameWidth := v\<rparr>) c;
              c = cfg_step (j_value_int J j ''frame_height'' 0) (\<lambda>v x. x\<lparr>mg_frameHeight := v\<rparr>) c;
              c = cfg_step (j_value_int J j ''downscale'' 4) (\<lambda>v x. x\<lparr>mg_step := max 1 v\<rparr>) c;
              c = cfg_step (j_value_int J j ''pixel_threshold'' 20) (\<lambda>v x. x\<lparr>mg_pixelThreshold := v\<rparr>) c;
              c = cfg_step (j_value_int J j ''min_changed_pixels'' 50) (\<lambda>v x. x\<lparr>mg_minChanged := v\<rparr>) c;
              c = cfg_step (j_value_int J j ''cooldown_frames'' 15) (\<lambda>v x. x\<lparr>mg_cooldownFrames := v\<rparr>) c;
              c = cfg_step (j_value_bool J j ''gate'' True) (\<lambda>v x. x\<lparr>mg_gate := v\<rparr>) c;
              c = (case j_field J j ''stream_filter'' of
                     None \<Rightarrow> c
                   | Some a \<Rightarrow> if j_is_array J a then push_streams J (j_elements J a) c else c)
          in case c of Inl ctx \<Rightarrow> ctx | Inr ctx \<Rightarrow> ctx)"

datatype gate_act = ForwardFrame bytes | MotionEvent u32 int u64    \<comment> \<open>stream, changed, pts\<close>

text \<open>The comparison with the previous frame: the number of changed samples when motion is declared.\<close>

definition detect_motion :: "MotionGateCtx \<Rightarrow> nat list \<Rightarrow> nat \<Rightarrow> nat \<Rightarrow> int option" where
  "detect_motion ctx cur dw dh =
     (if mg_prevW ctx = dw \<and> mg_prevH ctx = dh \<and> mg_prev ctx \<noteq> [] then
        (let changed = count_changed (mg_prev ctx) cur (mg_pixelThreshold ctx)
         in if changed \<ge> mg_minChanged ctx then Some changed else None)
      else None)"

text \<open>An analysed frame: the new state, whether it passes, and the motion found.\<close>

definition gate_frame :: "nat list \<Rightarrow> nat \<Rightarrow> nat \<Rightarrow> MotionGateCtx \<Rightarrow> MotionGateCtx \<times> bool \<times> int option" where
  "gate_frame cur dw dh ctx =
     (let motion = detect_motion ctx cur dw dh;
          ctx = (if motion \<noteq> None
                 then ctx\<lparr>mg_gateOpenUntil := mg_frameCount ctx + of_int (mg_cooldownFrames ctx)\<rparr> else ctx);
          ctx = ctx\<lparr>mg_prev := cur, mg_prevW := dw, mg_prevH := dh\<rparr>;
          pass = (\<not> mg_gate ctx \<or> mg_frameCount ctx \<le> mg_gateOpenUntil ctx)
      in (ctx\<lparr>mg_frameCount := mg_frameCount ctx + 1\<rparr>, pass, motion))"

definition need_bytes :: "PixFmt \<Rightarrow> nat \<Rightarrow> nat \<Rightarrow> nat" where
  "need_bytes fmt w h = (case fmt of RGB24 \<Rightarrow> w * h * 3 | _ \<Rightarrow> w * h)"

definition motion_gate_on_frame :: "bytes \<Rightarrow> MotionGateCtx \<Rightarrow> MotionGateCtx \<times> gate_act list" where
  "motion_gate_on_frame buf ctx =
     (if length buf < sizeof_frame_hdr then (ctx, [ForwardFrame buf])
      else let hdr = frame_hdr buf in
        case fmt_from_hw_type (fh_hw_type hdr) of
          None \<Rightarrow> (ctx, [ForwardFrame buf])
        | Some fmt \<Rightarrow>
            if mg_streamFilter ctx \<noteq> [] \<and> sint (fh_stream_id hdr) \<notin> set (mg_streamFilter ctx)
            then (ctx, [ForwardFrame buf])
            else let w = mg_frameWidth ctx; h = mg_frameHeight ctx in
              if w \<le> 0 \<or> h \<le> 0 \<or> length buf < sizeof_frame_hdr + need_bytes fmt (nat w) (nat h)
              then (ctx, [ForwardFrame buf])
              else (case downsample_luma (drop sizeof_frame_hdr buf) fmt (nat w) (nat h) (nat (mg_step ctx)) of
                (cur, dw, dh) \<Rightarrow>
                  (case gate_frame cur dw dh ctx of
                    (ctx', pass, motion) \<Rightarrow>
                      (ctx', (case motion of None \<Rightarrow> []
                               | Some changed \<Rightarrow> [MotionEvent (fh_stream_id hdr) changed (fh_pts_usec hdr)]) @
                             (if pass then [ForwardFrame buf] else [])))))"

section \<open>Facts\<close>

lemma strided_Suc: "strided (Suc h) step = strided h step @ (if step dvd h then [h] else [])"
  by (simp add: strided_def)

lemma ceil_div:
  fixes h s :: nat
  assumes s: "0 < s"
  shows "(h + s - 1) div s = h div s + (if s dvd h then 0 else 1)"
proof -
  obtain q r where h: "h = s * q + r" and r: "r < s"
    using s by (metis mod_less_divisor mult_div_mod_eq)
  have "h + s - 1 = s * q + (r + s - 1)" using h s by simp
  then have "(h + s - 1) div s = q + (r + s - 1) div s" using s by (simp only: div_mult_self4 less_imp_neq)
  also have "(r + s - 1) div s = (if r = 0 then 0 else 1)"
  proof (cases "r = 0")
    case True
    then show ?thesis using s by simp
  next
    case False
    then have "r + s - 1 = s + (r - 1)" by simp
    then have "(r + s - 1) div s = (s + (r - 1)) div s" by (rule arg_cong)
    also have "\<dots> = 1 + (r - 1) div s" using s by (subst div_add_self1) simp_all
    finally show ?thesis using False r by simp
  qed
  finally show ?thesis using h r s by (simp add: dvd_eq_mod_eq_0)
qed

lemma length_strided:
  assumes "0 < step"
  shows "length (strided h step) = (h + step - 1) div step"
proof (induction h)
  case 0
  then show ?case using assms by (simp add: strided_def)
next
  case (Suc h)
  have "Suc h + step - 1 = h + step" using assms by simp
  then have "(Suc h + step - 1) div step = h div step + 1" using assms by (simp add: div_add_self2)
  with Suc ceil_div [OF assms, of h] show ?case by (simp add: strided_Suc)
qed

lemma set_strided: "x \<in> set (strided h step) \<Longrightarrow> x < h"
  by (simp add: strided_def)

lemma length_concat_const:
  "(\<forall>x \<in> set xs. length (f x) = n) \<Longrightarrow> length (concat (map f xs)) = length xs * n"
  by (induction xs) auto

lemma rgb_luma_exact: "\<lbrakk>r < 256; g < 256; b < 256\<rbrakk> \<Longrightarrow> rgb_luma r g b = (r * 77 + g * 150 + b * 29) div 256"
proof -
  assume "r < 256" "g < 256" "b < 256"
  then have "r * 77 + g * 150 + b * 29 < 256 * 256" by linarith
  then have "(r * 77 + g * 150 + b * 29) div 256 < 256" by (simp only: less_mult_imp_div_less)
  then show ?thesis unfolding rgb_luma_def by (rule mod_less)
qed

section \<open>The gate over a run\<close>

text \<open>
  Analysed frames one after the other: for each, whether motion was declared in it and whether it
  passed the gate.
\<close>

fun gate_run :: "(nat list \<times> nat \<times> nat) list \<Rightarrow> MotionGateCtx \<Rightarrow> MotionGateCtx \<times> (bool \<times> bool) list" where
  "gate_run [] ctx = (ctx, [])"
| "gate_run ((cur, dw, dh) # fs) ctx =
     (case gate_frame cur dw dh ctx of
        (ctx1, pass, motion) \<Rightarrow>
          (case gate_run fs ctx1 of (ctx2, log) \<Rightarrow> (ctx2, (motion \<noteq> None, pass) # log)))"

lemma gate_frame_fields:
  assumes "gate_frame cur dw dh ctx = (ctx', pass, motion)"
  shows "mg_frameCount ctx' = mg_frameCount ctx + 1" "mg_gate ctx' = mg_gate ctx"
    "mg_cooldownFrames ctx' = mg_cooldownFrames ctx"
    "mg_gateOpenUntil ctx' = (if motion \<noteq> None
       then mg_frameCount ctx + of_int (mg_cooldownFrames ctx) else mg_gateOpenUntil ctx)"
    "pass \<longleftrightarrow> \<not> mg_gate ctx \<or> mg_frameCount ctx \<le> mg_gateOpenUntil ctx'"
  using assms by (auto simp: gate_frame_def Let_def split: if_splits)

lemma gate_run_length: "gate_run fs ctx = (ctx', log) \<Longrightarrow> length log = length fs"
  by (induction fs arbitrary: ctx log) (auto split: prod.splits)

lemma gate_run_passes:
  assumes "gate_run fs ctx = (ctx', log)" and "mg_gate ctx" and "0 \<le> mg_cooldownFrames ctx"
    and "nat (mg_cooldownFrames ctx) = cd"
    and "unat (mg_frameCount ctx) + length fs + cd < 2 ^ 64" and "i < length fs"
  shows "snd (log ! i) \<longleftrightarrow>
    (\<exists>m \<le> i. fst (log ! m) \<and> i \<le> m + cd) \<or>
    ((\<forall>m \<le> i. \<not> fst (log ! m)) \<and> unat (mg_frameCount ctx) + i \<le> unat (mg_gateOpenUntil ctx))"
  using assms
proof (induction fs arbitrary: ctx log i)
  case (Cons f fs)
  obtain cur dw dh where f: "f = (cur, dw, dh)" by (cases f)
  obtain ctx1 pass motion where g: "gate_frame cur dw dh ctx = (ctx1, pass, motion)"
    by (cases "gate_frame cur dw dh ctx")
  obtain ctx2 log' where r: "gate_run fs ctx1 = (ctx2, log')" by (cases "gate_run fs ctx1")
  from Cons.prems(1) f g r have log: "log = (motion \<noteq> None, pass) # log'" and r': "gate_run fs ctx1 = (ctx', log')"
    by auto
  note gf = gate_frame_fields [OF g]
  let ?n = "mg_frameCount ctx" and ?cd = "of_int (mg_cooldownFrames ctx) :: u64"
  have cd: "?cd = of_nat cd" using Cons.prems(3,4) by (simp add: of_nat_nat [symmetric])
  have ucd: "unat (?n + of_nat cd) = unat ?n + cd"
    using Cons.prems(5) by (simp add: unat_word_ariths)
  have n1: "unat (mg_frameCount ctx1) = unat ?n + 1"
    using Cons.prems(5) gf(1) by (simp add: unat_word_ariths)
  show ?case
  proof (cases i)
    case 0
    have "pass \<longleftrightarrow> unat ?n \<le> unat (mg_gateOpenUntil ctx1)"
      using gf(5) Cons.prems(2) by (simp add: word_le_nat_alt)
    then show ?thesis using 0 log gf(4) cd ucd by auto
  next
    case (Suc k)
    have IH: "snd (log' ! k) \<longleftrightarrow> (\<exists>m \<le> k. fst (log' ! m) \<and> k \<le> m + cd) \<or>
        ((\<forall>m \<le> k. \<not> fst (log' ! m)) \<and> unat (mg_frameCount ctx1) + k \<le> unat (mg_gateOpenUntil ctx1))"
      by (rule Cons.IH [OF r']) (use Cons.prems Suc gf n1 in simp_all)
    have ex: "(\<exists>m \<le> Suc k. P m) \<longleftrightarrow> P 0 \<or> (\<exists>m \<le> k. P (Suc m))" for P
      by (metis Suc_le_mono le0 not0_implies_Suc)
    have all: "(\<forall>m \<le> Suc k. P m) \<longleftrightarrow> P 0 \<and> (\<forall>m \<le> k. P (Suc m))" for P
      by (metis Suc_le_mono le0 not0_implies_Suc)
    show ?thesis
    proof (cases "motion = None")
      case True
      then have u: "mg_gateOpenUntil ctx1 = mg_gateOpenUntil ctx" using gf(4) by simp
      show ?thesis unfolding Suc log ex all using IH True n1 by (simp add: u)
    next
      case False
      then have u: "unat (mg_gateOpenUntil ctx1) = unat ?n + cd" using gf(4) cd ucd by simp
      have "(\<exists>m \<le> k. fst (log' ! m) \<and> k \<le> m + cd) \<or> Suc k \<le> cd \<longleftrightarrow>
          (\<exists>m \<le> k. fst (log' ! m) \<and> k \<le> m + cd) \<or>
          ((\<forall>m \<le> k. \<not> fst (log' ! m)) \<and> Suc k \<le> cd)"
        using le_trans by fastforce
      then show ?thesis unfolding Suc log ex all using IH False n1 u by auto
    qed
  qed
qed simp

section \<open>Properties\<close>

text \<open>
  The gate lets an analysed frame pass exactly when motion was declared in it or in one of the
  \<open>cooldown\<close> analysed frames before it; from a fresh start the first frame passes too.
\<close>
theorem gate_follows_motion:
  assumes "gate_run fs ctx = (ctx', log)" and "mg_frameCount ctx = 0" and "mg_gateOpenUntil ctx = 0"
    and "mg_gate ctx" and "0 \<le> mg_cooldownFrames ctx"
    and "length fs + nat (mg_cooldownFrames ctx) < 2 ^ 64" and "i < length fs"
  shows "snd (log ! i) \<longleftrightarrow>
    (\<exists>m \<le> i. fst (log ! m) \<and> i \<le> m + nat (mg_cooldownFrames ctx)) \<or> i = 0"
proof -
  have "snd (log ! i) \<longleftrightarrow>
    (\<exists>m \<le> i. fst (log ! m) \<and> i \<le> m + nat (mg_cooldownFrames ctx)) \<or>
    ((\<forall>m \<le> i. \<not> fst (log ! m)) \<and> unat (mg_frameCount ctx) + i \<le> unat (mg_gateOpenUntil ctx))"
    by (rule gate_run_passes [OF assms(1,4,5) refl]) (use assms in simp_all)
  then show ?thesis using assms(2,3) by auto
qed

definition demo_gate :: MotionGateCtx where
  "demo_gate = MotionGateCtx_init\<lparr>mg_minChanged := 1, mg_cooldownFrames := 1\<rparr>"

lemma demo_gate_run:
  "\<exists>ctx'. gate_run [([9], 1, 1), ([200], 1, 1), ([200], 1, 1)] demo_gate =
     (ctx', [(False, True), (True, True), (False, True)])"
  by (simp add: gate_frame_def detect_motion_def count_changed_def demo_gate_def MotionGateCtx_init_def)

theorem gate_follows_motion_witness:
  "\<exists>ctx' log. gate_run [([9], 1, 1), ([200], 1, 1), ([200], 1, 1)] demo_gate = (ctx', log) \<and>
     log = [(False, True), (True, True), (False, True)] \<and> snd (log ! 2)"
proof -
  let ?log = "[(False, True), (True, True), (False, True)]"
  obtain ctx' where r: "gate_run [([9], 1, 1), ([200], 1, 1), ([200], 1, 1)] demo_gate = (ctx', ?log)"
    using demo_gate_run by blast
  have c: "mg_cooldownFrames demo_gate = 1" by (simp add: demo_gate_def)
  have "snd (?log ! 2) \<longleftrightarrow> (\<exists>m \<le> 2. fst (?log ! m) \<and> 2 \<le> m + nat (mg_cooldownFrames demo_gate)) \<or> (2 :: nat) = 0"
    by (rule gate_follows_motion [OF r]) (simp_all add: demo_gate_def MotionGateCtx_init_def)
  moreover have "\<exists>m \<le> 2. fst (?log ! m) \<and> 2 \<le> m + nat (mg_cooldownFrames demo_gate)"
    by (rule exI [of _ 1]) (simp add: c)
  ultimately have "snd (?log ! 2)" by blast
  with r show ?thesis by blast
qed

text \<open>
  Every access of the luma sampler is inside the payload that the size check guarantees, and it
  produces exactly as many samples as the output has room for, \<open>dw * dh\<close>.
\<close>
theorem luma_samples_in_bounds:
  assumes "downsample_luma buf fmt w h step = (cur, dw, dh)"
  shows "length cur = dw * dh \<and>
    (\<forall>y \<in> set (strided h (max 1 step)). \<forall>x \<in> set (strided w (max 1 step)).
       (case fmt of RGB24 \<Rightarrow> (y * w + x) * 3 + 2 | _ \<Rightarrow> y * w + x) < need_bytes fmt w h)"
proof -
  have s: "0 < max 1 step" by simp
  have "length cur = length (strided h (max 1 step)) * length (strided w (max 1 step))"
    using assms by (auto simp: downsample_luma_def Let_def length_concat_const)
  moreover have "dw = length (strided w (max 1 step))" "dh = length (strided h (max 1 step))"
    using assms length_strided [OF s, of w] length_strided [OF s, of h]
    by (auto simp: downsample_luma_def Let_def)
  moreover have "y * w + x < w * h" if "x < w" "y < h" for x y
  proof -
    have "y * w + x < Suc y * w" using that(1) by simp
    also have "\<dots> \<le> h * w" using that(2) by (intro mult_right_mono) simp_all
    finally show ?thesis by (simp add: mult.commute)
  qed
  then have "(case fmt of RGB24 \<Rightarrow> (y * w + x) * 3 + 2 | _ \<Rightarrow> y * w + x) < need_bytes fmt w h"
    if "y \<in> set (strided h (max 1 step))" "x \<in> set (strided w (max 1 step))" for x y
    using set_strided [OF that(1)] set_strided [OF that(2)]
    by (fastforce simp: need_bytes_def split: PixFmt.split)
  ultimately show ?thesis by simp
qed

theorem luma_samples_in_bounds_witness:
  "length (fst (downsample_luma [1, 2, 3, 4, 5, 6] GRAY8 3 2 2)) = 2"
proof -
  have "downsample_luma [1, 2, 3, 4, 5, 6] GRAY8 3 2 2 =
      (fst (downsample_luma [1, 2, 3, 4, 5, 6] GRAY8 3 2 2), 2, 1)"
    by code_simp
  from luma_samples_in_bounds [OF this] show ?thesis by simp
qed

text \<open>
  A negative \<open>cooldown_frames\<close> is converted to a huge unsigned number, which wraps around: with -1 the
  frame with the motion does not pass once the count is at least 1.
\<close>
lemma negative_cooldown_shuts_gate:
  assumes "mg_gate ctx" and "mg_cooldownFrames ctx = - 1" and "mg_frameCount ctx \<noteq> 0"
    and "gate_frame cur dw dh ctx = (ctx', pass, Some n)"
  shows "\<not> pass"
proof -
  have "mg_gateOpenUntil ctx' = mg_frameCount ctx - 1"
    using gate_frame_fields(4) [OF assms(4)] assms(2) by simp
  moreover have "\<not> mg_frameCount ctx \<le> mg_frameCount ctx - 1"
    using assms(3) unat_gt_0 [of "mg_frameCount ctx"] by (simp add: word_le_nat_alt unat_minus_one not_le)
  ultimately show ?thesis using gate_frame_fields(5) [OF assms(4)] assms(1) by simp
qed

end
