(* ===== verification/Mse_H264.thy ===== *)
theory Mse_H264
  imports Prelude
begin

text \<open>
  The H.264 analyser of the MSE output, class \<open>H264StreamAnalyzer\<close> of plugins/output_mse/output_mse.cpp.
  A read outside of the buffer and an overflow of \<open>int\<close> are undefined in C++; here the result is then
  \<open>None\<close>. Sizes are \<open>size_t\<close>, whose subtraction wraps around.
\<close>

section \<open>Finding a NAL unit\<close>

definition read_byte :: "bytes \<Rightarrow> nat \<Rightarrow> u8 option" where
  "read_byte data i = (if i < length data then Some (data ! i) else None)"

text \<open>\<open>size - k\<close> on \<open>size_t\<close>.\<close>

definition size_minus :: "nat \<Rightarrow> nat \<Rightarrow> nat" where
  "size_minus sz k = unat (of_nat sz - of_nat k :: u64)"

text \<open>The test for 00 00 00 01 at \<open>i\<close>; \<open>&&\<close> reads no further than the first byte that differs.\<close>

definition start_code_at :: "bytes \<Rightarrow> nat \<Rightarrow> bool option" where
  "start_code_at data i =
     Option.bind (read_byte data i) (\<lambda>a. if a \<noteq> 0 then Some False else
     Option.bind (read_byte data (i + 1)) (\<lambda>b. if b \<noteq> 0 then Some False else
     Option.bind (read_byte data (i + 2)) (\<lambda>c. if c \<noteq> 0 then Some False else
     Option.bind (read_byte data (i + 3)) (\<lambda>d. Some (d = 1)))))"

text \<open>The inner loop: the next start code at or after \<open>j\<close>, or the end of the buffer.\<close>

function nalu_end :: "bytes \<Rightarrow> nat \<Rightarrow> nat option" where
  "nalu_end data j =
     (if j < size_minus (length data) 3
      then Option.bind (start_code_at data j) (\<lambda>sc. if sc then Some j else nalu_end data (j + 1))
      else Some (length data))"
  by pat_completeness auto
termination by (relation "measure (\<lambda>(data, j). size_minus (length data) 3 - j)") auto

text \<open>The outer loop from \<open>i\<close>: the start and the size of the first unit of the type.\<close>

function find_nalu_from :: "bytes \<Rightarrow> u8 \<Rightarrow> nat \<Rightarrow> (nat \<times> nat) option option" where
  "find_nalu_from data nalu_type i =
     (if i < size_minus (length data) 4
      then Option.bind (start_code_at data i) (\<lambda>sc.
        if sc \<and> i + 4 < length data \<and> data ! (i + 4) AND 0x1F = nalu_type
        then Option.bind (nalu_end data (i + 5)) (\<lambda>e. Some (Some (i + 4, e - (i + 4))))
        else find_nalu_from data nalu_type (i + 1))
      else Some None)"
  by pat_completeness auto
termination by (relation "measure (\<lambda>(data, t, i). size_minus (length data) 4 - i)") auto

declare nalu_end.simps [simp del] find_nalu_from.simps [simp del]

definition findNALU :: "bytes \<Rightarrow> u8 \<Rightarrow> (nat \<times> nat) option option" where
  "findNALU data nalu_type = find_nalu_from data nalu_type 0"

section \<open>Exp-Golomb numbers\<close>

definition bit_at :: "bytes \<Rightarrow> nat \<Rightarrow> bool option" where
  "bit_at data pos = map_option (\<lambda>b. bit b (7 - pos mod 8)) (read_byte data (pos div 8))"

function leading_zeros :: "bytes \<Rightarrow> nat \<Rightarrow> nat \<Rightarrow> nat \<Rightarrow> (nat \<times> nat) option" where
  "leading_zeros data pos max_bits n =
     (if pos < max_bits
      then Option.bind (bit_at data pos) (\<lambda>b.
        if b then Some (n, pos) else leading_zeros data (pos + 1) max_bits (n + 1))
      else Some (n, pos))"
  by pat_completeness auto
termination by (relation "measure (\<lambda>(data, pos, max_bits, n). max_bits - pos)") auto

fun read_bits :: "bytes \<Rightarrow> nat \<Rightarrow> nat \<Rightarrow> nat \<Rightarrow> int \<Rightarrow> (int \<times> nat) option" where
  "read_bits data pos max_bits 0 v = Some (v, pos)"
| "read_bits data pos max_bits (Suc n) v =
     (if pos < max_bits
      then Option.bind (bit_at data pos) (\<lambda>b. read_bits data (pos + 1) max_bits n (v * 2 + (if b then 1 else 0)))
      else Some (v, pos))"

declare leading_zeros.simps [simp del]

text \<open>The value and the new position. From 31 leading zeros on the last sum overflows.\<close>

definition parseUE :: "bytes \<Rightarrow> nat \<Rightarrow> nat \<Rightarrow> (int \<times> nat) option" where
  "parseUE data pos max_bits =
     (if pos \<ge> max_bits then Some (0, pos)
      else Option.bind (leading_zeros data pos max_bits 0) (\<lambda>(n, pos).
        if pos \<ge> max_bits then Some (0, pos)
        else Option.bind (read_bits data (pos + 1) max_bits n 0) (\<lambda>(v, pos).
          if n \<ge> 31 then None else Some (2 ^ n - 1 + v, pos))))"

section \<open>analyzeSPS\<close>

text \<open>
  The fields in the order of the code; \<open>skip_ue\<close> is a \<open>parseUE\<close> whose value is not used. \<open>Some None\<close> is
  the result false, \<open>Some (Some (w, h))\<close> true with the dimensions.
\<close>

definition skip_ue :: "bytes \<Rightarrow> nat \<Rightarrow> nat \<Rightarrow> nat option" where
  "skip_ue d mb pos = map_option snd (parseUE d pos mb)"

text \<open>The fields of the high profiles: \<open>Some None\<close> when a scaling matrix is present.\<close>

definition sps_high :: "bytes \<Rightarrow> nat \<Rightarrow> nat \<Rightarrow> nat option option" where
  "sps_high d mb pos =
     Option.bind (parseUE d pos mb) (\<lambda>(chroma_format, pos).
     let pos = (if chroma_format = 3 then pos + 1 else pos) in
     Option.bind (skip_ue d mb pos) (\<lambda>pos.
     Option.bind (skip_ue d mb pos) (\<lambda>pos.
     let pos = pos + 1 in
     if pos div 8 < length d
     then map_option (\<lambda>b. if b then None else Some (pos + 1)) (bit_at d pos)
     else Some (Some (pos + 1)))))"

definition sps_size :: "bytes \<Rightarrow> nat \<Rightarrow> nat \<Rightarrow> (int \<times> int) option option" where
  "sps_size d mb pos =
     Option.bind (skip_ue d mb pos) (\<lambda>pos.
     Option.bind (parseUE d (pos + 1) mb) (\<lambda>(w, pos).
     Option.bind (parseUE d pos mb) (\<lambda>(h, pos).
       if (w + 1) * 16 \<ge> 2 ^ 31 \<or> (h + 1) * 16 \<ge> 2 ^ 31 then None
       else Some (Some ((w + 1) * 16, (h + 1) * 16)))))"

definition sps_fields :: "bytes \<Rightarrow> nat \<Rightarrow> nat \<Rightarrow> (int \<times> int) option option" where
  "sps_fields d mb pos =
     Option.bind (skip_ue d mb pos) (\<lambda>pos.
     Option.bind (parseUE d pos mb) (\<lambda>(poc_type, pos).
       if poc_type = 0 then Option.bind (skip_ue d mb pos) (sps_size d mb)
       else if poc_type = 1 then Some None
       else sps_size d mb pos))"

definition parse_sps :: "bytes \<Rightarrow> (int \<times> int) option option" where
  "parse_sps d =
     (let mb = length d * 8 in
      Option.bind (skip_ue d mb 32) (\<lambda>pos.
      Option.bind (read_byte d 1) (\<lambda>profile.
        if unat profile \<ge> 100
        then Option.bind (sps_high d mb pos) (\<lambda>r. case r of None \<Rightarrow> Some None | Some pos \<Rightarrow> sps_fields d mb pos)
        else sps_fields d mb pos)))"

definition analyzeSPS :: "bytes \<Rightarrow> (int \<times> int) option option" where
  "analyzeSPS data =
     Option.bind (findNALU data 7) (\<lambda>r.
       case r of
         None \<Rightarrow> Some None
       | Some (start, n) \<Rightarrow> if n < 10 then Some None else parse_sps (take n (drop start data)))"

text \<open>The keyframe test of \<open>pushSegment\<close>: some IDR slice behind a start code.\<close>

definition is_idr_frame :: "bytes \<Rightarrow> bool" where
  "is_idr_frame data \<longleftrightarrow> length data \<ge> 5 \<and>
     list_ex (\<lambda>i. start_code_at data i = Some True \<and> data ! (i + 4) AND 0x1F = 5) [0..<length data - 4]"


section \<open>Search without loops\<close>

text \<open>The same search over the positions of the 4-byte start codes.\<close>

definition start_code :: "bytes \<Rightarrow> nat \<Rightarrow> bool" where
  "start_code data i \<longleftrightarrow> take 4 (drop i data) = [0, 0, 0, 1]"

definition first_unit :: "bytes \<Rightarrow> u8 \<Rightarrow> (nat \<times> nat) option" where
  "first_unit data t =
     map_option
       (\<lambda>i. (i + 4, (case find (start_code data) [i + 5..<length data - 3] of
                       None \<Rightarrow> length data | Some j \<Rightarrow> j) - (i + 4)))
       (find (\<lambda>i. start_code data i \<and> data ! (i + 4) AND 0x1F = t) [0..<length data - 4])"

lemma size_minus_eq: "\<lbrakk>k \<le> n; n < 2 ^ 64\<rbrakk> \<Longrightarrow> size_minus n k = n - k"
  unfolding size_minus_def
  by (subst of_nat_diff [symmetric]) (simp_all add: unat_of_nat take_bit_nat_eq_self del: of_nat_diff)

lemma size_minus_wraps: "\<lbrakk>n < k; k < 2 ^ 16\<rbrakk> \<Longrightarrow> n < size_minus n k"
proof -
  assume a: "n < k" "k < 2 ^ 16"
  have "(of_nat (2 ^ 64 + n - k) :: u64) = of_nat (2 ^ 64) + of_nat n - of_nat k"
    using a by (simp add: of_nat_diff del: of_nat_power)
  also have "(of_nat (2 ^ 64) :: u64) = 0" by simp
  finally have "size_minus n k = unat (of_nat (2 ^ 64 + n - k) :: u64)" by (simp add: size_minus_def)
  also have "\<dots> = 2 ^ 64 + n - k"
    unfolding unat_of_nat by (rule mod_less) (use a in simp)
  finally show ?thesis using a by simp
qed

lemma start_code_at_inside: "i + 4 \<le> length data \<Longrightarrow> start_code_at data i = Some (start_code data i)"
  by (auto simp: start_code_at_def start_code_def read_byte_def take_Suc_conv_app_nth numeral_eq_Suc)

lemma nalu_end_find:
  assumes "3 \<le> length data" and "length data < 2 ^ 64"
  shows "nalu_end data j = Some (case find (start_code data) [j..<length data - 3] of
    None \<Rightarrow> length data | Some k \<Rightarrow> k)"
proof (induction "length data - 3 - j" arbitrary: j)
  case 0
  then show ?case using assms by (auto simp: nalu_end.simps [of data j] size_minus_eq)
next
  case (Suc n)
  then have j: "j < length data - 3" by simp
  have "nalu_end data (j + 1) = Some (case find (start_code data) [j + 1..<length data - 3] of
    None \<Rightarrow> length data | Some k \<Rightarrow> k)"
    using Suc.hyps(1) [of "j + 1"] Suc.hyps(2) by simp
  then show ?case
    using j assms by (simp add: nalu_end.simps [of data j] size_minus_eq upt_conv_Cons start_code_at_inside)
qed

lemma find_nalu_from_find:
  assumes "4 \<le> length data" and "length data < 2 ^ 64"
  shows "find_nalu_from data t i = Some (map_option
       (\<lambda>i. (i + 4, (case find (start_code data) [i + 5..<length data - 3] of
                       None \<Rightarrow> length data | Some j \<Rightarrow> j) - (i + 4)))
       (find (\<lambda>i. start_code data i \<and> data ! (i + 4) AND 0x1F = t) [i..<length data - 4]))"
proof (induction "length data - 4 - i" arbitrary: i)
  case 0
  then show ?case using assms by (auto simp: find_nalu_from.simps [of data t i] size_minus_eq)
next
  case (Suc n)
  then have i: "i < length data - 4" by simp
  have "n = length data - 4 - (i + 1)" using Suc.hyps(2) by simp
  note IH = Suc.hyps(1) [OF this]
  have end3: "3 \<le> length data" "i + 4 < length data" using assms(1) i by simp_all
  show ?case
    using i assms
    by (simp add: find_nalu_from.simps [of data t i] size_minus_eq upt_conv_Cons start_code_at_inside
        end3 nalu_end_find [OF end3(1) assms(2)] IH [simplified])
qed

lemma find_nalu_short:
  assumes "length data < 4" and "i \<le> length data"
  shows "find_nalu_from data t i = None"
  using assms(2)
proof (induction "length data - i" arbitrary: i)
  case 0
  then have "i < size_minus (length data) 4" "start_code_at data i = None"
    using assms size_minus_wraps [of "length data" 4] by (simp_all add: start_code_at_def read_byte_def)
  then show ?case by (simp add: find_nalu_from.simps [of data t i])
next
  case (Suc n)
  then have i: "i < size_minus (length data) 4"
    using assms size_minus_wraps [of "length data" 4] by simp
  have "start_code_at data i \<noteq> Some True"
    using assms(1) by (auto simp: start_code_at_def read_byte_def split: if_splits)
  moreover have "find_nalu_from data t (i + 1) = None" using Suc by simp
  ultimately show ?case using i
    by (cases "start_code_at data i") (auto simp: find_nalu_from.simps [of data t i])
qed

lemma findNALU_find: "\<lbrakk>4 \<le> length data; length data < 2 ^ 64\<rbrakk> \<Longrightarrow> findNALU data t = Some (first_unit data t)"
  using find_nalu_from_find [of data t 0] by (simp add: findNALU_def first_unit_def)

text \<open>
  \<open>findNALU\<close> finds the first unit of the wanted type behind a 4-byte start code, up to the next start
  code or the end of the buffer; with fewer than 4 bytes it always reads past the end of the buffer,
  since its bound \<open>size - 4\<close> wraps around.
\<close>
theorem findNALU_equiv_search:
  assumes "length data < 2 ^ 64"
  shows "findNALU data t = (if length data < 4 then None else Some (first_unit data t))"
  using assms find_nalu_short [of data 0] findNALU_find [of data t] by (simp add: findNALU_def)

theorem findNALU_equiv_search_witness:
  "findNALU [0, 0, 0, 1, 0x67, 0x42, 0, 0, 0, 1, 0x68] 7 = Some (Some (4, 2))"
proof -
  have "first_unit [0, 0, 0, 1, 0x67, 0x42, 0, 0, 0, 1, 0x68] 7 = Some (4, 2)"
    by (simp add: first_unit_def start_code_def upt_conv_Cons)
  then show ?thesis using findNALU_equiv_search [of "[0, 0, 0, 1, 0x67, 0x42, 0, 0, 0, 1, 0x68]" 7] by simp
qed

section \<open>Exp-Golomb round trip\<close>

fun code_at :: "bytes \<Rightarrow> nat \<Rightarrow> bool list \<Rightarrow> bool" where
  "code_at data pos [] \<longleftrightarrow> True"
| "code_at data pos (b # bs) \<longleftrightarrow> bit_at data pos = Some b \<and> code_at data (pos + 1) bs"

fun bits_be :: "nat \<Rightarrow> nat \<Rightarrow> bool list" where
  "bits_be 0 v = []"
| "bits_be (Suc n) v = bit v n # bits_be n v"

fun msb_pos :: "nat \<Rightarrow> nat" where
  "msb_pos m = (if m < 2 then 0 else Suc (msb_pos (m div 2)))"

declare msb_pos.simps [simp del]

definition ue_code :: "nat \<Rightarrow> bool list" where
  "ue_code k = (let n = msb_pos (k + 1) in replicate n False @ True # bits_be n (k + 1))"

lemma length_bits_be [simp]: "length (bits_be n v) = n"
  by (induction n) auto

lemma code_at_append: "code_at data pos (xs @ ys) \<longleftrightarrow> code_at data pos xs \<and> code_at data (pos + length xs) ys"
  by (induction xs arbitrary: pos) auto

lemma bit_at_bound: "bit_at data pos = Some b \<Longrightarrow> pos < length data * 8"
  by (auto simp: bit_at_def read_byte_def split: if_splits)

lemma code_at_bound: "\<lbrakk>code_at data pos bs; bs \<noteq> []\<rbrakk> \<Longrightarrow> pos + length bs \<le> length data * 8"
proof (induction bs arbitrary: pos)
  case (Cons b bs)
  then show ?case using bit_at_bound [of data pos b] by (cases bs) fastforce+
qed simp

lemma msb_pos_bounds: "0 < m \<Longrightarrow> 2 ^ msb_pos m \<le> m \<and> m < 2 ^ (msb_pos m + 1)"
proof (induction m rule: msb_pos.induct)
  case (1 m)
  then show ?case by (cases "m < 2") (auto simp: msb_pos.simps [of m])
qed

lemma leading_zeros_run:
  "\<lbrakk>code_at data pos (replicate k False @ [True]); pos + k < mb\<rbrakk>
    \<Longrightarrow> leading_zeros data pos mb n = Some (n + k, pos + k)"
  by (induction k arbitrary: pos n) (auto simp: leading_zeros.simps)

lemma read_bits_run:
  "\<lbrakk>code_at data pos (bits_be n x); pos + n \<le> mb\<rbrakk>
    \<Longrightarrow> read_bits data pos mb n v = Some (v * 2 ^ n + int (take_bit n x), pos + n)"
proof (induction n arbitrary: pos v)
  case (Suc n)
  then have "read_bits data pos mb (Suc n) v =
      Some ((v * 2 + (if bit x n then 1 else 0)) * 2 ^ n + int (take_bit n x), pos + Suc n)" by simp
  moreover have "int (take_bit (Suc n) x) = (if bit x n then 1 else 0) * 2 ^ n + int (take_bit n x)"
    by (simp add: take_bit_Suc_from_most)
  ultimately show ?case by (simp add: algebra_simps)
qed simp

text \<open>
  The decoder returns the number whose Exp-Golomb code stands at the position and moves behind the
  code, for every number below 2^31 - 1.
\<close>
theorem parseUE_decodes_ue:
  assumes "code_at data pos (ue_code k)" and "k + 1 < 2 ^ 31"
  shows "parseUE data pos (length data * 8) = Some (int k, pos + length (ue_code k))"
proof -
  define n where "n = msb_pos (k + 1)"
  have b: "2 ^ n \<le> k + 1" "k + 1 < 2 ^ (n + 1)" using msb_pos_bounds [of "k + 1"] by (auto simp: n_def)
  have len: "length (ue_code k) = 2 * n + 1" by (simp add: ue_code_def Let_def n_def)
  have bd: "pos + (2 * n + 1) \<le> length data * 8"
    using code_at_bound [OF assms(1)] len by (cases "ue_code k") auto
  have c: "code_at data pos (replicate n False @ [True])" "code_at data (pos + n + 1) (bits_be n (k + 1))"
    using assms(1) by (auto simp: ue_code_def Let_def n_def code_at_append)
  have "take_bit n (k + 1) = k + 1 - 2 ^ n"
    using b by (simp add: take_bit_eq_mod mod_if [of "k + 1"] le_mod_geq)
  then have i: "int (take_bit n (k + 1)) = int k + 1 - 2 ^ n" using b by (simp add: of_nat_diff)
  have "n < 31" using b(1) assms(2) using power_less_imp_less_exp [of "2 :: nat" n 31] by linarith
  then show ?thesis
    using leading_zeros_run [OF c(1), of "length data * 8" 0] read_bits_run [OF c(2), of "length data * 8" 0] bd i
    by (simp add: parseUE_def len)
qed

section \<open>Dimensions\<close>

text \<open>
  The bits of a sequence parameter set behind its 4 fixed bytes, as the standard writes them, for the
  picture order count types other than 1 and without scaling matrices; \<open>w\<close> and \<open>h\<close> count macroblocks.
\<close>

definition sps_high_code :: "nat \<Rightarrow> bool \<Rightarrow> nat \<Rightarrow> nat \<Rightarrow> bool \<Rightarrow> bool list" where
  "sps_high_code chroma sep luma_depth chroma_depth bypass =
     ue_code chroma @ (if chroma = 3 then [sep] else []) @ ue_code luma_depth @ ue_code chroma_depth @
     [bypass, False]"

definition sps_poc_code :: "nat \<Rightarrow> nat \<Rightarrow> bool list" where
  "sps_poc_code poc_type lsb = (if poc_type = 0 then ue_code 0 @ ue_code lsb else ue_code poc_type)"

definition sps_size_code :: "nat \<Rightarrow> bool \<Rightarrow> nat \<Rightarrow> nat \<Rightarrow> bool list" where
  "sps_size_code refs gaps w h = ue_code refs @ [gaps] @ ue_code (w - 1) @ ue_code (h - 1)"

abbreviation ue_range :: "nat \<Rightarrow> bool" where
  "ue_range k \<equiv> k + 1 < 2 ^ 31"

lemma parseUE_code:
  "\<lbrakk>code_at d pos (ue_code k @ bs); ue_range k; mb = length d * 8\<rbrakk>
    \<Longrightarrow> parseUE d pos mb = Some (int k, pos + length (ue_code k)) \<and> code_at d (pos + length (ue_code k)) bs"
  using parseUE_decodes_ue [of d pos k] by (simp add: code_at_append)

lemma skip_ue_code:
  "\<lbrakk>code_at d pos (ue_code k @ bs); ue_range k; mb = length d * 8\<rbrakk>
    \<Longrightarrow> skip_ue d mb pos = Some (pos + length (ue_code k)) \<and> code_at d (pos + length (ue_code k)) bs"
  using parseUE_code [of d pos k bs mb] by (simp add: skip_ue_def)

lemma sps_size_parses:
  assumes c: "code_at d pos (sps_size_code refs gaps w h)" and mb: "mb = length d * 8"
    and k: "ue_range refs" "0 < w" "0 < h" "w * 16 < 2 ^ 31" "h * 16 < 2 ^ 31"
  shows "sps_size d mb pos = Some (Some (int w * 16, int h * 16))"
proof -
  define p1 where "p1 = pos + length (ue_code refs)"
  define p2 where "p2 = p1 + 1 + length (ue_code (w - 1))"
  from c have c1: "code_at d pos (ue_code refs @ gaps # ue_code (w - 1) @ ue_code (h - 1))"
    by (simp add: sps_size_code_def)
  from skip_ue_code [OF c1 k(1) mb]
  have s1: "skip_ue d mb pos = Some p1" and c2: "code_at d (p1 + 1) (ue_code (w - 1) @ ue_code (h - 1))"
    by (simp_all add: p1_def)
  have "ue_range (w - 1)" using k by simp
  from parseUE_code [OF c2 this mb]
  have s2: "parseUE d (p1 + 1) mb = Some (int (w - 1), p2)" and c3: "code_at d p2 (ue_code (h - 1) @ [])"
    by (simp_all add: p2_def)
  have "ue_range (h - 1)" using k by simp
  from parseUE_code [OF c3 this mb]
  have s3: "parseUE d p2 mb = Some (int (h - 1), p2 + length (ue_code (h - 1)))" by simp
  show ?thesis using s1 s2 s3 k by (simp add: sps_size_def of_nat_diff)
qed

lemma sps_fields_parse:
  assumes c: "code_at d pos (ue_code fn @ sps_poc_code poc_type lsb @ sps_size_code refs gaps w h)"
    and mb: "mb = length d * 8" and k: "ue_range fn" "ue_range poc_type" "ue_range lsb" "poc_type \<noteq> 1"
      "ue_range refs" "0 < w" "0 < h" "w * 16 < 2 ^ 31" "h * 16 < 2 ^ 31"
  shows "sps_fields d mb pos = Some (Some (int w * 16, int h * 16))"
proof -
  define p1 where "p1 = pos + length (ue_code fn)"
  define p2 where "p2 = p1 + length (ue_code poc_type)"
  from skip_ue_code [OF c k(1) mb]
  have s1: "skip_ue d mb pos = Some p1"
    and c2: "code_at d p1 (sps_poc_code poc_type lsb @ sps_size_code refs gaps w h)"
    by (simp_all add: p1_def)
  have c2': "code_at d p1 (ue_code poc_type @ (if poc_type = 0 then ue_code lsb else []) @
      sps_size_code refs gaps w h)"
    using c2 by (simp add: sps_poc_code_def split: if_splits)
  from parseUE_code [OF c2' k(2) mb]
  have s2: "parseUE d p1 mb = Some (int poc_type, p2)"
    and c3: "code_at d p2 ((if poc_type = 0 then ue_code lsb else []) @ sps_size_code refs gaps w h)"
    by (simp_all add: p2_def)
  show ?thesis
  proof (cases "poc_type = 0")
    case True
    with c3 have "code_at d p2 (ue_code lsb @ sps_size_code refs gaps w h)" by simp
    from skip_ue_code [OF this k(3) mb] show ?thesis
      using s1 s2 True sps_size_parses [OF _ mb k(5-9)] by (auto simp: sps_fields_def)
  next
    case False
    with c3 have "code_at d p2 (sps_size_code refs gaps w h)" by simp
    from sps_size_parses [OF this mb k(5-9)] show ?thesis
      using s1 s2 False k(4) by (simp add: sps_fields_def)
  qed
qed

lemma sps_high_parses:
  assumes c: "code_at d pos (sps_high_code chroma sep ld cd bypass @ bs)" and mb: "mb = length d * 8"
    and k: "ue_range chroma" "ue_range ld" "ue_range cd"
  shows "\<exists>p. sps_high d mb pos = Some (Some p) \<and> code_at d p bs"
proof -
  define sp where "sp = (if chroma = 3 then [sep] else [])"
  define p1 where "p1 = pos + length (ue_code chroma) + length sp"
  define p2 where "p2 = p1 + length (ue_code ld)"
  define p3 where "p3 = p2 + length (ue_code cd)"
  from c have "code_at d pos (ue_code chroma @ sp @ ue_code ld @ ue_code cd @ bypass # False # bs)"
    by (simp add: sps_high_code_def sp_def)
  from parseUE_code [OF this k(1) mb]
  have s1: "parseUE d pos mb = Some (int chroma, pos + length (ue_code chroma))"
    and c1: "code_at d p1 (ue_code ld @ ue_code cd @ bypass # False # bs)"
    by (simp_all add: p1_def code_at_append)
  from skip_ue_code [OF c1 k(2) mb]
  have s2: "skip_ue d mb p1 = Some p2" and c2: "code_at d p2 (ue_code cd @ bypass # False # bs)"
    by (simp_all add: p2_def)
  from skip_ue_code [OF c2 k(3) mb]
  have s3: "skip_ue d mb p2 = Some p3" and c3: "bit_at d (p3 + 1) = Some False" "code_at d (p3 + 2) bs"
    by (simp_all add: p3_def)
  have p1: "(if chroma = 3 then pos + length (ue_code chroma) + 1 else pos + length (ue_code chroma)) = p1"
    by (simp add: p1_def sp_def)
  have "(p3 + 1) div 8 < length d" using bit_at_bound [OF c3(1)] by simp
  then show ?thesis using s1 s2 s3 c3 p1 by (simp add: sps_high_def Let_def)
qed


text \<open>A baseline stream of 320x240: 20 times 15 macroblocks.\<close>

definition demo_sps :: bytes where
  "demo_sps = [0, 0, 0, 1, 0x67, 0x42, 0, 0x1e, 0xda, 0x05, 0x07, 0xc0, 0x11, 0x22,
     0, 0, 0, 1, 0x68]"

lemma demo_sps_unit: "findNALU demo_sps 7 = Some (Some (4, 10))"
proof -
  have "first_unit demo_sps 7 = Some (4, 10)"
    by (simp add: demo_sps_def first_unit_def start_code_def upt_conv_Cons)
  then show ?thesis using findNALU_find [of demo_sps 7] by (simp add: demo_sps_def)
qed


end
