(* ===== verification/Mse_Fragmenter.thy ===== *)
theory Mse_Fragmenter
  imports Prelude
begin

text \<open>
  Class \<open>MP4Fragmenter\<close> of plugins/output_mse/output_mse.cpp: it feeds H.264 frames to FFmpeg's MP4
  muxer and cuts what the muxer writes into segments. The muxer is the argument \<open>M\<close>, over the type
  \<open>'m\<close> of its state; all that is known of it is which callbacks it makes. Bytes of the output buffer that
  were never written are \<open>None\<close>. A result \<open>None\<close> of an operation stands for an access outside of the
  buffer, or for the resizing loop when it does not end.
\<close>

section \<open>State\<close>

datatype whence = SEEK_SET | SEEK_CUR | SEEK_END | AVSEEK_SIZE | WhenceOther

text \<open>A callback of the muxer; \<open>WritePacket\<close> carries whether memory for a larger buffer can be had.\<close>

datatype mux_io = WritePacket bytes bool | Seek int whence

record AVPacket =
  pk_data :: bytes
  pk_pts :: int
  pk_dts :: int
  pk_duration :: int
  pk_key :: bool

record 'm muxer =
  mx_open :: "int \<Rightarrow> int \<Rightarrow> int \<Rightarrow> ('m \<times> mux_io list) option"
    \<comment> \<open>width, height, time base: contexts, stream and header; None: some call failed\<close>
  mx_write_frame :: "AVPacket option \<Rightarrow> 'm \<Rightarrow> 'm \<times> mux_io list \<times> bool"
    \<comment> \<open>av_interleaved_write_frame, and whether it succeeded\<close>

record 'm MP4Fragmenter =
  fg_camera_id :: u32
  fg_muxer :: "'m option"                  \<comment> \<open>fmt_ctx_, video_stream_, avio_ctx_\<close>
  fg_buffer :: "u8 option list"            \<comment> \<open>output_buffer_, its length is output_buffer_size_\<close>
  fg_pos :: nat                            \<comment> \<open>output_buffer_pos_\<close>
  fg_next_pts :: int
  fg_time_base_den :: int
  fg_sequence_number :: u32
  fg_initialized :: bool
  fg_init_segment :: "u8 option list"
  fg_init_segment_generated :: bool

definition MP4Fragmenter_init :: "'m MP4Fragmenter" where
  "MP4Fragmenter_init = \<lparr>fg_camera_id = 0, fg_muxer = None, fg_buffer = [], fg_pos = 0, fg_next_pts = 0,
     fg_time_base_den = 90000, fg_sequence_number = 0, fg_initialized = False, fg_init_segment = [],
     fg_init_segment_generated = False\<rparr>"

section \<open>The output buffer\<close>

definition resetOutputBuffer :: "'m MP4Fragmenter \<Rightarrow> 'm MP4Fragmenter" where
  "resetOutputBuffer f = f\<lparr>fg_pos := 0\<rparr>"

text \<open>The resizing loop, on unbounded numbers; a result from 2^64 on means that the code's loop wraps.\<close>

function grow :: "nat \<Rightarrow> nat \<Rightarrow> nat" where
  "grow new_size need = (if 0 < new_size \<and> new_size < need then grow (new_size * 2) need else new_size)"
  by pat_completeness auto
termination by (relation "measure (\<lambda>(n, need). need - n)") auto

declare grow.simps [simp del]

definition size_add :: "nat \<Rightarrow> nat \<Rightarrow> nat" where
  "size_add a b = (a + b) mod 2 ^ 64"

definition copy_in :: "bytes \<Rightarrow> 'm MP4Fragmenter \<Rightarrow> 'm MP4Fragmenter option" where
  "copy_in buf f =
     (let e = fg_pos f + length buf in
      if e \<le> length (fg_buffer f)
      then Some (f\<lparr>fg_buffer := take (fg_pos f) (fg_buffer f) @ map Some buf @ drop e (fg_buffer f), fg_pos := e\<rparr>)
      else None)"

definition ENOMEM :: int where "ENOMEM = 12"
definition EINVAL :: int where "EINVAL = 22"

definition writePacket :: "bytes \<Rightarrow> bool \<Rightarrow> 'm MP4Fragmenter \<Rightarrow> (int \<times> 'm MP4Fragmenter) option" where
  "writePacket buf memory f =
     (let need = size_add (fg_pos f) (length buf); bufsize = length (fg_buffer f) in
      if need > bufsize then
        (let new_size = grow (bufsize * 2) need in
         if new_size = 0 \<or> new_size \<ge> 2 ^ 64 then None
         else if \<not> memory then Some (- ENOMEM, f)
         else map_option (Pair (int (length buf)))
                (copy_in buf (f\<lparr>fg_buffer := fg_buffer f @ replicate (new_size - bufsize) None\<rparr>)))
      else map_option (Pair (int (length buf))) (copy_in buf f))"

definition to_size :: "int \<Rightarrow> nat" where
  "to_size i = nat (i mod 2 ^ 64)"

definition to_int64 :: "nat \<Rightarrow> int" where
  "to_int64 n = (if n < 2 ^ 63 then int n else int n - 2 ^ 64)"

definition seek :: "int \<Rightarrow> whence \<Rightarrow> 'm MP4Fragmenter \<Rightarrow> int \<times> 'm MP4Fragmenter" where
  "seek offset whence f =
     (let moved = (\<lambda>p. (to_int64 p, f\<lparr>fg_pos := p\<rparr>)) in
      case whence of
        SEEK_SET \<Rightarrow> moved (to_size offset)
      | SEEK_CUR \<Rightarrow> moved (to_size (int (fg_pos f) + offset))
      | SEEK_END \<Rightarrow> moved (to_size (int (length (fg_buffer f)) + offset))
      | AVSEEK_SIZE \<Rightarrow> (to_int64 (length (fg_buffer f)), f)
      | WhenceOther \<Rightarrow> (- EINVAL, f))"

definition mux_callback :: "mux_io \<Rightarrow> 'm MP4Fragmenter \<Rightarrow> 'm MP4Fragmenter option" where
  "mux_callback op f =
     (case op of
        WritePacket buf memory \<Rightarrow> map_option snd (writePacket buf memory f)
      | Seek offset w \<Rightarrow> Some (snd (seek offset w f)))"

fun mux_callbacks :: "mux_io list \<Rightarrow> 'm MP4Fragmenter \<Rightarrow> 'm MP4Fragmenter option" where
  "mux_callbacks [] f = Some f"
| "mux_callbacks (op # ops) f = Option.bind (mux_callback op f) (mux_callbacks ops)"

section \<open>Life cycle\<close>

text \<open>The trailer of \<open>cleanup\<close> goes to the buffer that is freed at once, it has no other effect.\<close>

definition cleanup :: "'m MP4Fragmenter \<Rightarrow> 'm MP4Fragmenter" where
  "cleanup f = f\<lparr>fg_muxer := None, fg_buffer := [], fg_pos := 0, fg_initialized := False\<rparr>"

definition written :: "'m MP4Fragmenter \<Rightarrow> u8 option list option" where
  "written f = (if fg_pos f \<le> length (fg_buffer f) then Some (take (fg_pos f) (fg_buffer f)) else None)"

definition writeInitializationSegment :: "'m MP4Fragmenter \<Rightarrow> ('m MP4Fragmenter \<times> bool) option" where
  "writeInitializationSegment f =
     (if fg_pos f > 0
      then Option.bind (written f) (\<lambda>seg.
        Some (resetOutputBuffer (f\<lparr>fg_init_segment := seg, fg_init_segment_generated := True\<rparr>), True))
      else Some (f, False))"

definition setupMP4Context ::
  "'m muxer \<Rightarrow> int \<Rightarrow> int \<Rightarrow> 'm MP4Fragmenter \<Rightarrow> ('m MP4Fragmenter \<times> bool) option" where
  "setupMP4Context M width height f =
     (case mx_open M width height (fg_time_base_den f) of
        None \<Rightarrow> Some (f, False)
      | Some (m, ops) \<Rightarrow>
          Option.bind (mux_callbacks ops (resetOutputBuffer (f\<lparr>fg_muxer := Some m\<rparr>)))
            writeInitializationSegment)"

definition initialize ::
  "'m muxer \<Rightarrow> bool \<Rightarrow> u32 \<Rightarrow> int \<Rightarrow> int \<Rightarrow> int \<Rightarrow> 'm MP4Fragmenter \<Rightarrow> ('m MP4Fragmenter \<times> bool) option" where
  "initialize M memory camera_id width height fps f =
     (let f = (if fg_initialized f then cleanup f else f);
          f = f\<lparr>fg_camera_id := camera_id, fg_time_base_den := fps * 1000\<rparr> in
      if width \<le> 0 \<or> height \<le> 0 then Some (f, False)
      else if \<not> memory then Some (f, False)
      else Option.bind (setupMP4Context M width height (f\<lparr>fg_buffer := replicate (1024 * 1024) None\<rparr>))
        (\<lambda>(f, ok). if ok then Some (f\<lparr>fg_initialized := True\<rparr>, True) else Some (cleanup f, False)))"

section \<open>Frames\<close>

definition finalizeSegment :: "'m MP4Fragmenter \<Rightarrow> ('m MP4Fragmenter \<times> u8 option list option) option" where
  "finalizeSegment f =
     (if fg_pos f = 0 then Some (f, None)
      else Option.bind (written f) (\<lambda>seg.
        Some (f\<lparr>fg_sequence_number := fg_sequence_number f + 1\<rparr>, Some seg)))"

definition frame_packet :: "bytes \<Rightarrow> bool \<Rightarrow> 'm MP4Fragmenter \<Rightarrow> AVPacket" where
  "frame_packet data is_keyframe f =
     \<lparr>pk_data = data, pk_pts = fg_next_pts f, pk_dts = fg_next_pts f,
      pk_duration = fg_time_base_den f div 30, pk_key = is_keyframe\<rparr>"

text \<open>The segment is the result true; \<open>memory\<close> is whether the packet can be allocated.\<close>

definition processFrame ::
  "'m muxer \<Rightarrow> bool \<Rightarrow> bytes \<Rightarrow> bool \<Rightarrow> 'm MP4Fragmenter \<Rightarrow>
   ('m MP4Fragmenter \<times> u8 option list option) option" where
  "processFrame M memory data is_keyframe f =
     (if \<not> fg_initialized f \<or> data = [] \<or> \<not> memory then Some (f, None)
      else case fg_muxer f of
        None \<Rightarrow> None
      | Some m \<Rightarrow>
          let pkt = frame_packet data is_keyframe f;
              f = (if is_keyframe \<and> fg_sequence_number f > 0 then resetOutputBuffer f else f)
          in case mx_write_frame M (Some pkt) m of
            (m', ops, ok) \<Rightarrow>
              Option.bind (mux_callbacks ops (f\<lparr>fg_muxer := Some m'\<rparr>)) (\<lambda>f.
                if \<not> ok then Some (f, None)
                else let f = f\<lparr>fg_next_pts := fg_next_pts f + pk_duration pkt\<rparr> in
                  if is_keyframe \<and> fg_pos f > 0 then finalizeSegment f else Some (f, None)))"

definition finishSegment ::
  "'m muxer \<Rightarrow> 'm MP4Fragmenter \<Rightarrow> ('m MP4Fragmenter \<times> u8 option list option) option" where
  "finishSegment M f =
     (if \<not> fg_initialized f then Some (f, None)
      else case fg_muxer f of
        None \<Rightarrow> None
      | Some m \<Rightarrow>
          (case mx_write_frame M None m of
            (m', ops, _) \<Rightarrow> Option.bind (mux_callbacks ops (f\<lparr>fg_muxer := Some m'\<rparr>)) finalizeSegment))"

definition getInitializationSegment :: "'m MP4Fragmenter \<Rightarrow> u8 option list option" where
  "getInitializationSegment f =
     (if \<not> fg_init_segment_generated f \<or> fg_init_segment f = [] then None else Some (fg_init_segment f))"

section \<open>Facts about the buffer\<close>

lemma grow_enough: "0 < n \<Longrightarrow> need \<le> grow n need"
  by (induction n need rule: grow.induct) (simp add: grow.simps not_less)

lemma grow_bound: "0 < n \<Longrightarrow> grow n need \<le> max n (2 * need)"
proof (induction n need rule: grow.induct)
  case (1 n need)
  then show ?case by (cases "n < need") (auto simp: grow.simps [of n need] max_def split: if_splits)
qed

text \<open>
  \<open>frag_rep N acc f\<close>: the bytes \<open>acc\<close> stand at the front of the buffer, and it has not grown beyond
  what \<open>N\<close> bytes need.
\<close>

definition frag_rep :: "nat \<Rightarrow> bytes \<Rightarrow> 'm MP4Fragmenter \<Rightarrow> bool" where
  "frag_rep N acc f \<longleftrightarrow> fg_pos f = length acc \<and> take (length acc) (fg_buffer f) = map Some acc \<and>
     length acc \<le> length (fg_buffer f) \<and> 0 < length (fg_buffer f) \<and> length (fg_buffer f) \<le> 2 ^ 20 + 2 * N"

abbreviation with_buffer :: "'m MP4Fragmenter \<Rightarrow> u8 option list \<Rightarrow> bytes \<Rightarrow> 'm MP4Fragmenter" where
  "with_buffer f buf acc \<equiv> f\<lparr>fg_buffer := buf, fg_pos := length acc\<rparr>"

lemma frag_rep_reset: "frag_rep N acc f \<Longrightarrow> frag_rep N [] (resetOutputBuffer f)"
  by (auto simp: frag_rep_def resetOutputBuffer_def)

lemma copy_in_rep:
  assumes "frag_rep N acc f" and "length acc + length b \<le> length (fg_buffer f)"
  shows "\<exists>buf. copy_in b f = Some (with_buffer f buf (acc @ b)) \<and> frag_rep N (acc @ b) (with_buffer f buf (acc @ b))"
  using assms by (auto simp: copy_in_def frag_rep_def Let_def min_def)

lemma writePacket_rep:
  assumes r: "frag_rep N acc f" and n: "length acc + length b \<le> N" and N: "N \<le> 2 ^ 61"
  shows "\<exists>buf. writePacket b True f = Some (int (length b), with_buffer f buf (acc @ b)) \<and>
    frag_rep N (acc @ b) (with_buffer f buf (acc @ b))"
proof -
  let ?sz = "length (fg_buffer f)" and ?need = "length acc + length b"
  have need: "size_add (fg_pos f) (length b) = ?need"
    using r n N by (simp add: size_add_def frag_rep_def)
  show ?thesis
  proof (cases "?need > ?sz")
    case False
    then show ?thesis using copy_in_rep [OF r, of b] need by (auto simp: writePacket_def Let_def)
  next
    case True
    define ns where "ns = grow (?sz * 2) ?need"
    have pos: "0 < ?sz * 2" using r by (simp add: frag_rep_def)
    have ns: "?need \<le> ns" "ns \<le> 2 * ?need"
      using grow_enough [OF pos, of ?need] grow_bound [OF pos, of ?need] True by (auto simp: ns_def)
    let ?f = "f\<lparr>fg_buffer := fg_buffer f @ replicate (ns - ?sz) None\<rparr>"
    have "frag_rep N acc ?f" using r ns n True by (simp add: frag_rep_def)
    from copy_in_rep [OF this, of b] ns True obtain buf
      where "copy_in b ?f = Some (with_buffer ?f buf (acc @ b))" "frag_rep N (acc @ b) (with_buffer ?f buf (acc @ b))"
      by auto
    moreover have "ns \<noteq> 0" "\<not> 2 ^ 64 \<le> ns" using ns n N True by auto
    ultimately show ?thesis
      using True need by (auto simp: writePacket_def Let_def ns_def [symmetric])
  qed
qed

section \<open>A muxer that only appends\<close>

fun append_only :: "mux_io list \<Rightarrow> bool" where
  "append_only [] \<longleftrightarrow> True"
| "append_only (WritePacket b memory # ops) \<longleftrightarrow> memory \<and> append_only ops"
| "append_only (Seek offset w # ops) \<longleftrightarrow> w = AVSEEK_SIZE \<and> append_only ops"

fun mux_output :: "mux_io list \<Rightarrow> bytes" where
  "mux_output [] = []"
| "mux_output (WritePacket b memory # ops) = b @ mux_output ops"
| "mux_output (Seek offset w # ops) = mux_output ops"

lemma mux_callbacks_rep:
  "\<lbrakk>append_only ops; frag_rep N acc f; length acc + length (mux_output ops) \<le> N; N \<le> 2 ^ 61\<rbrakk>
    \<Longrightarrow> \<exists>buf. mux_callbacks ops f = Some (with_buffer f buf (acc @ mux_output ops)) \<and>
          frag_rep N (acc @ mux_output ops) (with_buffer f buf (acc @ mux_output ops))"
proof (induction ops arbitrary: acc f rule: append_only.induct)
  case 1
  then have "with_buffer f (fg_buffer f) acc = f" by (simp add: frag_rep_def)
  then show ?case using 1 by (intro exI [of _ "fg_buffer f"]) simp
next
  case (2 b memory ops)
  then obtain buf where w: "writePacket b True f = Some (int (length b), with_buffer f buf (acc @ b))"
      "frag_rep N (acc @ b) (with_buffer f buf (acc @ b))"
    using writePacket_rep [of N acc f b] by auto
  from 2 w(2) obtain buf' where
    "mux_callbacks ops (with_buffer f buf (acc @ b)) = Some (with_buffer f buf' (acc @ b @ mux_output ops))"
    "frag_rep N (acc @ b @ mux_output ops) (with_buffer f buf' (acc @ b @ mux_output ops))"
    using "2.IH" [of "acc @ b" "with_buffer f buf (acc @ b)"] by auto
  then show ?case using 2(2) w(1) by (auto simp: mux_callback_def)
next
  case (3 offset w ops)
  then show ?case by (simp add: mux_callback_def seek_def Let_def)
qed

section \<open>Segments\<close>

fun process_frames ::
  "'m muxer \<Rightarrow> (bytes \<times> bool) list \<Rightarrow> 'm MP4Fragmenter \<Rightarrow>
   ('m MP4Fragmenter \<times> u8 option list list) option" where
  "process_frames M [] f = Some (f, [])"
| "process_frames M ((data, key) # fs) f =
     Option.bind (processFrame M True data key f) (\<lambda>(f, seg).
       map_option (\<lambda>(f, segs). (f, (case seg of None \<Rightarrow> segs | Some s \<Rightarrow> s # segs))) (process_frames M fs f))"

text \<open>What the muxer does with the frames, apart from any buffer: keyframe, success, callbacks.\<close>

fun mux_trace :: "'m muxer \<Rightarrow> int \<Rightarrow> (bytes \<times> bool) list \<Rightarrow> int \<Rightarrow> 'm \<Rightarrow> (bool \<times> bool \<times> mux_io list) list" where
  "mux_trace M den [] pts m = []"
| "mux_trace M den ((data, key) # fs) pts m =
     (case mx_write_frame M (Some \<lparr>pk_data = data, pk_pts = pts, pk_dts = pts, pk_duration = den div 30,
          pk_key = key\<rparr>) m of
        (m', ops, ok) \<Rightarrow> (key, ok, ops) # mux_trace M den fs (if ok then pts + den div 30 else pts) m')"

text \<open>
  The cut of the muxer's output. A keyframe ends a segment; what the muxer wrote since the last
  keyframe is in it only as long as there was no segment before.
\<close>

fun cut_segments :: "bool \<Rightarrow> bytes \<Rightarrow> (bool \<times> bool \<times> mux_io list) list \<Rightarrow> bytes list" where
  "cut_segments started acc [] = []"
| "cut_segments started acc ((key, ok, ops) # rest) =
     (let acc = (if key \<and> started then [] else acc) @ mux_output ops in
      if key \<and> ok \<and> acc \<noteq> [] then acc # cut_segments True acc rest else cut_segments started acc rest)"

abbreviation trace_bytes :: "(bool \<times> bool \<times> mux_io list) list \<Rightarrow> nat" where
  "trace_bytes tr \<equiv> sum_list (map (\<lambda>(key, ok, ops). length (mux_output ops)) tr)"

abbreviation trace_appends :: "(bool \<times> bool \<times> mux_io list) list \<Rightarrow> bool" where
  "trace_appends tr \<equiv> \<forall>(key, ok, ops) \<in> set tr. append_only ops"

lemma finalizeSegment_rep:
  assumes "frag_rep N acc f" and "acc \<noteq> []"
  shows "finalizeSegment f = Some (f\<lparr>fg_sequence_number := fg_sequence_number f + 1\<rparr>, Some (map Some acc))"
  using assms by (simp add: finalizeSegment_def frag_rep_def written_def)

lemma processFrame_rep:
  assumes "fg_initialized f" and "fg_muxer f = Some m" and rep: "frag_rep N acc f" and "data \<noteq> []"
    and w: "mx_write_frame M (Some (frame_packet data key f)) m = (m', ops, ok)" and ap: "append_only ops"
    and acc0: "acc0 = (if key \<and> fg_sequence_number f > 0 then [] else acc)"
    and b: "length acc0 + length (mux_output ops) \<le> N" and N: "N \<le> 2 ^ 61"
    and acc1: "acc1 = acc0 @ mux_output ops"
    and seg: "seg = (if key \<and> ok \<and> acc1 \<noteq> [] then Some (map Some acc1) else None)"
    and sq: "fg_sequence_number f + 1 \<noteq> 0"
  shows "\<exists>f1. processFrame M True data key f = Some (f1, seg) \<and> fg_initialized f1 \<and> fg_muxer f1 = Some m' \<and>
    fg_time_base_den f1 = fg_time_base_den f \<and>
    fg_next_pts f1 = (if ok then fg_next_pts f + fg_time_base_den f div 30 else fg_next_pts f) \<and>
    frag_rep N acc1 f1 \<and>
    fg_sequence_number f1 = (if seg \<noteq> None then fg_sequence_number f + 1 else fg_sequence_number f)"
proof -
  define f0 where "f0 = (if key \<and> fg_sequence_number f > 0 then resetOutputBuffer f else f)\<lparr>fg_muxer := Some m'\<rparr>"
  have r0: "frag_rep N acc0 f0"
    using rep frag_rep_reset [OF rep] by (simp add: acc0 f0_def frag_rep_def)
  obtain buf where cb: "mux_callbacks ops f0 = Some (with_buffer f0 buf acc1)"
    and r1: "frag_rep N acc1 (with_buffer f0 buf acc1)"
    using mux_callbacks_rep [OF ap r0 b N] by (auto simp: acc1)
  define pts where "pts = (if ok then fg_next_pts f + fg_time_base_den f div 30 else fg_next_pts f)"
  define f1 where "f1 = (with_buffer f0 buf acc1)\<lparr>fg_next_pts := pts, fg_sequence_number :=
    (if seg \<noteq> None then fg_sequence_number f + 1 else fg_sequence_number f)\<rparr>"
  have r2: "frag_rep N acc1 ((with_buffer f0 buf acc1)\<lparr>fg_next_pts := pts\<rparr>)" using r1 by (simp add: frag_rep_def)
  have f0: "fg_initialized f0" "fg_time_base_den f0 = fg_time_base_den f" "fg_next_pts f0 = fg_next_pts f"
    "fg_sequence_number f0 = fg_sequence_number f" "fg_muxer f0 = Some m'"
    using assms(1) by (simp_all add: f0_def resetOutputBuffer_def)
  have "processFrame M True data key f = Some (f1, seg)"
    using assms(1,2,4) w cb f0 finalizeSegment_rep [OF r2]
    by (auto simp: processFrame_def Let_def f0_def [symmetric] frame_packet_def f1_def seg pts_def
        finalizeSegment_def)
  then show ?thesis using f0 r1 by (simp add: f1_def frag_rep_def pts_def)
qed

lemma process_frames_cut:
  assumes "fg_initialized f" and "fg_muxer f = Some m" and "frag_rep N acc f"
    and "trace_appends (mux_trace M (fg_time_base_den f) fs (fg_next_pts f) m)"
    and "length acc + trace_bytes (mux_trace M (fg_time_base_den f) fs (fg_next_pts f) m) \<le> N"
    and "N \<le> 2 ^ 61" and "\<forall>(data, key) \<in> set fs. data \<noteq> []"
    and "unat (fg_sequence_number f) + length fs < 2 ^ 32"
  shows "\<exists>f'. process_frames M fs f = Some (f', map (map Some)
    (cut_segments (fg_sequence_number f > 0) acc (mux_trace M (fg_time_base_den f) fs (fg_next_pts f) m)))"
  using assms
proof (induction fs arbitrary: f m acc)
  case Nil
  then show ?case by simp
next
  case (Cons fr fs)
  obtain data key where fr: "fr = (data, key)" by (cases fr)
  obtain m' ops ok where w: "mx_write_frame M (Some (frame_packet data key f)) m = (m', ops, ok)"
    by (cases "mx_write_frame M (Some (frame_packet data key f)) m") auto
  let ?st = "fg_sequence_number f > 0" and ?den = "fg_time_base_den f"
  define pts where "pts = (if ok then fg_next_pts f + ?den div 30 else fg_next_pts f)"
  have tr: "mux_trace M ?den (fr # fs) (fg_next_pts f) m = (key, ok, ops) # mux_trace M ?den fs pts m'"
    using w by (simp add: fr frame_packet_def pts_def)
  define acc0 where "acc0 = (if key \<and> ?st then [] else acc)"
  define acc1 where "acc1 = acc0 @ mux_output ops"
  define seg where "seg = (if key \<and> ok \<and> acc1 \<noteq> [] then Some (map Some acc1) else None)"
  have sq1: "unat (fg_sequence_number f + 1) = Suc (unat (fg_sequence_number f))"
    using Cons.prems(8) by (simp add: unat_word_ariths)
  then have sq0: "fg_sequence_number f + 1 \<noteq> 0" by (metis nat.distinct(1) unat_0)
  have ap: "append_only ops" and b: "length acc0 + length (mux_output ops) \<le> N" and d: "data \<noteq> []"
    using Cons.prems(4,5) [unfolded tr] Cons.prems(7) fr by (auto simp: acc0_def)
  obtain f1 where pf: "processFrame M True data key f = Some (f1, seg)"
    and f1: "fg_initialized f1" "fg_muxer f1 = Some m'" "fg_time_base_den f1 = ?den" "fg_next_pts f1 = pts"
      "frag_rep N acc1 f1"
      "fg_sequence_number f1 = (if seg \<noteq> None then fg_sequence_number f + 1 else fg_sequence_number f)"
    using processFrame_rep [OF Cons.prems(1-3) d w ap acc0_def b Cons.prems(6) acc1_def seg_def sq0]
    unfolding pts_def by blast
  have sq: "fg_sequence_number f1 > 0 \<longleftrightarrow> seg \<noteq> None \<or> ?st"
    "unat (fg_sequence_number f1) \<le> Suc (unat (fg_sequence_number f))"
    using sq1 sq0 by (simp_all add: f1(6) word_greater_zero_iff)
  let ?tr = "mux_trace M ?den fs pts m'"
  have tb: "trace_appends ?tr" "length acc1 + trace_bytes ?tr \<le> N"
    using Cons.prems(4,5) [unfolded tr] by (auto simp: acc1_def acc0_def split: if_splits)
  have "\<exists>f'. process_frames M fs f1 = Some (f', map (map Some) (cut_segments (fg_sequence_number f1 > 0) acc1
      (mux_trace M (fg_time_base_den f1) fs (fg_next_pts f1) m')))"
    by (rule Cons.IH) (use f1 tb Cons.prems(6-8) sq(2) in auto)
  then obtain f' where "process_frames M fs f1 =
      Some (f', map (map Some) (cut_segments (seg \<noteq> None \<or> ?st) acc1 ?tr))"
    using sq(1) f1 by auto
  then show ?case
    unfolding tr by (auto simp: fr pf seg_def acc1_def acc0_def Let_def)
qed

section \<open>Properties\<close>

text \<open>
  C8. From the start with a muxer whose callbacks only append: the initialisation segment is the header that
  the muxer wrote, and the segments of any run of frames are the cut of the muxer's output at the
  keyframes, without a byte that was not written, whatever resizing the buffer went through.
\<close>
theorem fragmenter_cuts_output:
  assumes "mx_open M w h (fps * 1000) = Some (m, hdr)" and "0 < w" and "0 < h"
    and "append_only hdr" and "mux_output hdr \<noteq> []"
    and "trace_appends (mux_trace M (fps * 1000) fs 0 m)"
    and "length (mux_output hdr) + trace_bytes (mux_trace M (fps * 1000) fs 0 m) \<le> 2 ^ 61"
    and "\<forall>(data, key) \<in> set fs. data \<noteq> []" and "length fs < 2 ^ 32"
  shows "\<exists>f0 f'. initialize M True cam w h fps MP4Fragmenter_init = Some (f0, True) \<and>
    getInitializationSegment f0 = Some (map Some (mux_output hdr)) \<and>
    process_frames M fs f0 =
      Some (f', map (map Some) (cut_segments False [] (mux_trace M (fps * 1000) fs 0 m)))"
proof -
  let ?f = "(MP4Fragmenter_init :: 'a MP4Fragmenter)\<lparr>fg_camera_id := cam, fg_time_base_den := fps * 1000,
    fg_buffer := replicate (1024 * 1024) None, fg_muxer := Some m, fg_pos := 0\<rparr>"
  let ?hdr = "mux_output hdr"
  have "frag_rep (2 ^ 61) [] ?f" by (simp add: frag_rep_def)
  from mux_callbacks_rep [OF assms(4) this] assms(7) obtain buf
    where cb: "mux_callbacks hdr ?f = Some (with_buffer ?f buf ?hdr)"
      and r: "frag_rep (2 ^ 61) ?hdr (with_buffer ?f buf ?hdr)"
    by auto
  define f0 where "f0 = (resetOutputBuffer (with_buffer ?f buf ?hdr
    \<lparr>fg_init_segment := map Some ?hdr, fg_init_segment_generated := True\<rparr>))\<lparr>fg_initialized := True\<rparr>"
  have "take (length ?hdr) buf = map Some ?hdr" "length ?hdr \<le> length buf" using r by (simp_all add: frag_rep_def)
  then have i: "initialize M True cam w h fps MP4Fragmenter_init = Some (f0, True)"
    using assms(1-3,5) cb
    by (simp add: initialize_def setupMP4Context_def writeInitializationSegment_def written_def
        resetOutputBuffer_def MP4Fragmenter_init_def f0_def)
  have f0: "fg_initialized f0" "fg_muxer f0 = Some m" "frag_rep (2 ^ 61) [] f0" "fg_time_base_den f0 = fps * 1000"
    "fg_next_pts f0 = 0" "fg_sequence_number f0 = 0"
    using r by (simp_all add: f0_def resetOutputBuffer_def frag_rep_def MP4Fragmenter_init_def)
  have "\<exists>f'. process_frames M fs f0 = Some (f', map (map Some) (cut_segments (fg_sequence_number f0 > 0) []
      (mux_trace M (fg_time_base_den f0) fs (fg_next_pts f0) m)))"
    by (rule process_frames_cut [OF f0(1-3)]) (use f0 assms(6-9) in auto)
  then obtain f' where "process_frames M fs f0 =
      Some (f', map (map Some) (cut_segments False [] (mux_trace M (fps * 1000) fs 0 m)))"
    using f0 by auto
  moreover have "getInitializationSegment f0 = Some (map Some ?hdr)"
    using assms(5) by (simp add: getInitializationSegment_def f0_def resetOutputBuffer_def)
  ultimately show ?thesis using i by blast
qed

text \<open>A muxer that keeps a fragment until the next keyframe: its state is the fragment.\<close>

definition demo_muxer :: "bytes muxer" where
  "demo_muxer = \<lparr>mx_open = (\<lambda>w h den. Some ([], [WritePacket [7] True])),
     mx_write_frame = (\<lambda>pkt frag. case pkt of
         None \<Rightarrow> ([], [WritePacket frag True], True)
       | Some p \<Rightarrow> if pk_key p then (pk_data p, [WritePacket frag True], True) else (frag @ pk_data p, [], True))\<rparr>"

theorem fragmenter_cuts_output_witness:
  "\<exists>f0 f'. initialize demo_muxer True 1 640 480 25 MP4Fragmenter_init = Some (f0, True) \<and>
     process_frames demo_muxer [([1], True), ([2], False), ([3], True), ([4], False), ([5], True)] f0 =
       Some (f', [[Some 1, Some 2], [Some 3, Some 4]])"
proof -
  let ?fs = "[([1], True), ([2], False), ([3], True), ([4], False), ([5], True)]"
  have o: "mx_open demo_muxer 640 480 (25 * 1000) = Some ([], [WritePacket [7] True])"
    by (simp add: demo_muxer_def)
  have t: "mux_trace demo_muxer (25 * 1000) ?fs 0 [] =
    [(True, True, [WritePacket [] True]), (False, True, []), (True, True, [WritePacket [1, 2] True]),
     (False, True, []), (True, True, [WritePacket [3, 4] True])]"
    by (simp add: demo_muxer_def)
  show ?thesis
    using fragmenter_cuts_output [OF o, of ?fs 1] unfolding t
    by (simp del: process_frames.simps) blast
qed

text \<open>
  What the muxer writes while it gets frames between two keyframes is dropped once the first segment is
  out: the second segment here lacks the byte 9.
\<close>
lemma output_between_keyframes_lost:
  "cut_segments False [] [(True, True, [WritePacket [1] True]), (False, True, [WritePacket [9] True]),
     (True, True, [WritePacket [2] True])] = [[1], [2]]"
  by simp

end
