(* ===== verification/Mse_Service.thy ===== *)
theory Mse_Service
  imports Mse_H264 Mse_Fragmenter Frame_Queue Frame_Header Json_Api Std_Strings "HOL-Library.Sublist"
    "HOL-Library.AList"
begin

text \<open>
  The rest of plugins/output_mse/output_mse.cpp: the segment buffers, the service with its streams, the
  commands of the control server, and the plugin's own start, stop and frame handler. The streams are
  an association list from keys; the code's hash table has some order of its own, which matters only
  when one camera has several streams. \<open>mem\<close> tells whether the two allocations of a call succeed: the
  fragmenter's buffer and the packet.
\<close>

section \<open>Segment buffer\<close>

type_synonym segment = "u8 option list"

record MSESegmentBuffer =
  sb_queue :: "segment list"
  sb_dropped :: u64
  sb_total :: u64

definition max_segments :: nat where "max_segments = 100"

definition MSESegmentBuffer_init :: MSESegmentBuffer where
  "MSESegmentBuffer_init = \<lparr>sb_queue = [], sb_dropped = 0, sb_total = 0\<rparr>"

definition sb_push :: "segment \<Rightarrow> MSESegmentBuffer \<Rightarrow> MSESegmentBuffer" where
  "sb_push seg b =
     (let b = (if length (sb_queue b) > max_segments
               then b\<lparr>sb_queue := tl (sb_queue b), sb_dropped := sb_dropped b + 1\<rparr> else b)
      in b\<lparr>sb_queue := sb_queue b @ [seg], sb_total := sb_total b + 1\<rparr>)"

text \<open>\<open>None\<close>: \<open>try_pop\<close> returns false, \<open>pop\<close> waits.\<close>

definition sb_try_pop :: "MSESegmentBuffer \<Rightarrow> (segment \<times> MSESegmentBuffer) option" where
  "sb_try_pop b = (case sb_queue b of [] \<Rightarrow> None | seg # q \<Rightarrow> Some (seg, b\<lparr>sb_queue := q\<rparr>))"

definition sb_size :: "MSESegmentBuffer \<Rightarrow> nat" where
  "sb_size b = length (sb_queue b)"

definition sb_get_latest :: "MSESegmentBuffer \<Rightarrow> segment option" where
  "sb_get_latest b = (if sb_queue b = [] then None else Some (last (sb_queue b)))"

section \<open>Streams\<close>

record 'm StreamInfo =
  si_camera_id :: u32
  si_stream_id :: u32
  si_codec :: string
  si_width :: int
  si_height :: int
  si_fps :: int
  si_dimensions_detected :: bool
  si_buffer :: MSESegmentBuffer
  si_fragmenter :: "'m MP4Fragmenter"
  si_frame_count :: u64
  si_bytes_received :: u64
  si_frames_without_sps :: u32

definition StreamInfo_new :: "u32 \<Rightarrow> u32 \<Rightarrow> string \<Rightarrow> 'm StreamInfo" where
  "StreamInfo_new cam str c = \<lparr>si_camera_id = cam, si_stream_id = str, si_codec = c, si_width = 0,
     si_height = 0, si_fps = 25, si_dimensions_detected = False, si_buffer = MSESegmentBuffer_init,
     si_fragmenter = MP4Fragmenter_init, si_frame_count = 0, si_bytes_received = 0,
     si_frames_without_sps = 0\<rparr>"

text \<open>
  The service. \<open>sv_control\<close> is the control server when it exists, with its \<open>running_\<close>; \<open>sv_once\<close> is the
  flag of \<open>call_once\<close>, which stands for a static variable of \<open>mse_start\<close>.
\<close>

record 'm MSEService =
  sv_running :: bool
  sv_io_context :: bool
  sv_control :: "bool option"
  sv_once :: bool
  sv_streams :: "(string \<times> 'm StreamInfo) list"

definition MSEService_init :: "'m MSEService" where
  "MSEService_init = \<lparr>sv_running = False, sv_io_context = False, sv_control = None, sv_once = False,
     sv_streams = []\<rparr>"

definition svc_initialize :: "'m MSEService \<Rightarrow> 'm MSEService" where
  "svc_initialize sv = (if sv_running sv then sv else sv\<lparr>sv_io_context := True, sv_running := True\<rparr>)"

definition shutdown :: "'m MSEService \<Rightarrow> 'm MSEService" where
  "shutdown sv = sv\<lparr>sv_running := False, sv_control := map_option (\<lambda>_. False) (sv_control sv), sv_streams := []\<rparr>"

text \<open>\<open>listening\<close>: the server could bind its port.\<close>

definition startControlServer :: "bool \<Rightarrow> 'm MSEService \<Rightarrow> 'm MSEService" where
  "startControlServer listening sv =
     (if sv_control sv = None \<and> sv_io_context sv then sv\<lparr>sv_control := Some listening\<rparr> else sv)"

definition stopControlServer :: "'m MSEService \<Rightarrow> 'm MSEService" where
  "stopControlServer sv = (if sv_control sv \<noteq> None then sv\<lparr>sv_control := None\<rparr> else sv)"

definition getStreamKey :: "u32 \<Rightarrow> u32 \<Rightarrow> string" where
  "getStreamKey camera_id stream_id = to_string (uint camera_id) @ '':'' @ to_string (uint stream_id)"

definition is_h264 :: "string \<Rightarrow> bool" where
  "is_h264 codec \<longleftrightarrow> codec = ''h264'' \<or> codec = ''H264''"

definition registerStream ::
  "'m muxer \<Rightarrow> bool \<Rightarrow> u32 \<Rightarrow> u32 \<Rightarrow> string \<Rightarrow> int \<Rightarrow> int \<Rightarrow> 'm MSEService \<Rightarrow> 'm MSEService option" where
  "registerStream M memory camera_id stream_id codec width height sv =
     (let info = (StreamInfo_new camera_id stream_id codec)\<lparr>si_width := width, si_height := height\<rparr>;
          key = getStreamKey camera_id stream_id
      in if is_h264 codec
         then Option.bind (initialize M memory camera_id width height 30 (si_fragmenter info)) (\<lambda>(f, ok).
           Some (if ok then sv\<lparr>sv_streams := AList.update key (info\<lparr>si_fragmenter := f\<rparr>) (sv_streams sv)\<rparr> else sv))
         else Some (sv\<lparr>sv_streams := AList.update key info (sv_streams sv)\<rparr>))"

definition unregisterStream :: "u32 \<Rightarrow> u32 \<Rightarrow> 'm MSEService \<Rightarrow> 'm MSEService" where
  "unregisterStream camera_id stream_id sv =
     sv\<lparr>sv_streams := AList.delete (getStreamKey camera_id stream_id) (sv_streams sv)\<rparr>"

definition findStreamByCamera :: "u32 \<Rightarrow> 'm MSEService \<Rightarrow> (string \<times> 'm StreamInfo) option" where
  "findStreamByCamera camera_id sv = find (\<lambda>(key, info). si_camera_id info = camera_id) (sv_streams sv)"

definition set_stream :: "string \<Rightarrow> 'm StreamInfo \<Rightarrow> 'm MSEService \<Rightarrow> 'm MSEService" where
  "set_stream key info sv = sv\<lparr>sv_streams := AList.update key info (sv_streams sv)\<rparr>"

definition ensureStreamRegistered :: "u32 \<Rightarrow> 'm MSEService \<Rightarrow> 'm MSEService" where
  "ensureStreamRegistered camera_id sv =
     (if findStreamByCamera camera_id sv = None
      then set_stream (getStreamKey camera_id 0)
             ((StreamInfo_new camera_id 0 ''h264'')\<lparr>si_width := 1280, si_height := 720\<rparr>) sv
      else sv)"

section \<open>Pushing a frame\<close>

text \<open>The initialisation once the dimensions are known, and whether the call goes on.\<close>

definition init_fragmenter :: "'m muxer \<Rightarrow> bool \<Rightarrow> 'm StreamInfo \<Rightarrow> ('m StreamInfo \<times> bool) option" where
  "init_fragmenter M memory s =
     Option.bind (initialize M memory (si_camera_id s) (si_width s) (si_height s) (si_fps s) (si_fragmenter s))
       (\<lambda>(f, ok). Some (s\<lparr>si_fragmenter := f\<rparr>, ok))"

definition detect_dimensions :: "'m muxer \<Rightarrow> bool \<Rightarrow> bytes \<Rightarrow> 'm StreamInfo \<Rightarrow> ('m StreamInfo \<times> bool) option" where
  "detect_dimensions M memory data s =
     Option.bind (analyzeSPS data) (\<lambda>r. case r of
         Some (w, h) \<Rightarrow>
           init_fragmenter M memory
             (s\<lparr>si_width := w, si_height := h, si_fps := 25, si_dimensions_detected := True\<rparr>)
       | None \<Rightarrow>
           let s = s\<lparr>si_frames_without_sps := si_frames_without_sps s + 1\<rparr> in
           if si_frames_without_sps s \<ge> 10 \<and> si_width s > 0 \<and> si_height s > 0
           then init_fragmenter M memory (s\<lparr>si_dimensions_detected := True\<rparr>)
           else Some (s, False))"

definition push_segment_to :: "segment \<Rightarrow> 'm StreamInfo \<Rightarrow> 'm StreamInfo" where
  "push_segment_to seg s = s\<lparr>si_buffer := sb_push seg (si_buffer s)\<rparr>"

definition fragment_frame :: "'m muxer \<Rightarrow> bool \<Rightarrow> bytes \<Rightarrow> 'm StreamInfo \<Rightarrow> 'm StreamInfo option" where
  "fragment_frame M memory data s =
     (if is_h264 (si_codec s) \<and> si_dimensions_detected s then
        Option.bind (processFrame M memory data (is_idr_frame data) (si_fragmenter s)) (\<lambda>(f, seg).
          let s = s\<lparr>si_fragmenter := f\<rparr> in
          Some (case seg of None \<Rightarrow> s | Some seg \<Rightarrow> push_segment_to seg s))
      else if \<not> is_h264 (si_codec s) then Some (push_segment_to (map Some data) s)
      else Some s)"

definition push_frame :: "'m muxer \<Rightarrow> bool \<times> bool \<Rightarrow> bytes \<Rightarrow> 'm StreamInfo \<Rightarrow> 'm StreamInfo option" where
  "push_frame M mem data s =
     (let s = s\<lparr>si_frame_count := si_frame_count s + 1,
                si_bytes_received := si_bytes_received s + of_nat (length data)\<rparr> in
      if is_h264 (si_codec s) \<and> \<not> si_dimensions_detected s
      then Option.bind (detect_dimensions M (fst mem) data s) (\<lambda>(s, go).
             if go then fragment_frame M (snd mem) data s else Some s)
      else fragment_frame M (snd mem) data s)"

definition pushSegment ::
  "'m muxer \<Rightarrow> bool \<times> bool \<Rightarrow> u32 \<Rightarrow> bytes \<Rightarrow> 'm MSEService \<Rightarrow> 'm MSEService option" where
  "pushSegment M mem camera_id data sv =
     (if \<not> sv_running sv \<or> data = [] then Some sv
      else case findStreamByCamera camera_id sv of
        None \<Rightarrow> Some sv
      | Some (key, s) \<Rightarrow> map_option (\<lambda>s. set_stream key s sv) (push_frame M mem data s))"

section \<open>Readers\<close>

text \<open>The bytes copied to a caller's buffer of \<open>max_size\<close> bytes; what does not fit is lost.\<close>

definition copy_out :: "nat \<Rightarrow> segment \<Rightarrow> segment" where
  "copy_out max_size seg = take (min max_size (length seg)) seg"

text \<open>\<open>None\<close>: the call waits for a segment.\<close>

definition popSegment :: "u32 \<Rightarrow> nat \<Rightarrow> 'm MSEService \<Rightarrow> (segment \<times> 'm MSEService) option" where
  "popSegment camera_id max_size sv =
     (case findStreamByCamera camera_id sv of
        None \<Rightarrow> Some ([], sv)
      | Some (key, s) \<Rightarrow>
          (case sb_try_pop (si_buffer s) of
             None \<Rightarrow> None
           | Some (seg, b) \<Rightarrow> Some (copy_out max_size seg, set_stream key (s\<lparr>si_buffer := b\<rparr>) sv)))"

definition tryPopSegment :: "u32 \<Rightarrow> nat \<Rightarrow> 'm MSEService \<Rightarrow> segment \<times> 'm MSEService" where
  "tryPopSegment camera_id max_size sv =
     (case findStreamByCamera camera_id sv of
        None \<Rightarrow> ([], sv)
      | Some (key, s) \<Rightarrow>
          (case sb_try_pop (si_buffer s) of
             None \<Rightarrow> ([], sv)
           | Some (seg, b) \<Rightarrow> (copy_out max_size seg, set_stream key (s\<lparr>si_buffer := b\<rparr>) sv)))"

definition getBufferSize :: "u32 \<Rightarrow> 'm MSEService \<Rightarrow> nat" where
  "getBufferSize camera_id sv =
     (case findStreamByCamera camera_id sv of None \<Rightarrow> 0 | Some (key, s) \<Rightarrow> sb_size (si_buffer s))"

text \<open>The size, and the two counters when their pointers are not null.\<close>

definition getBufferStats :: "u32 \<Rightarrow> 'm MSEService \<Rightarrow> nat \<times> u64 \<times> u64" where
  "getBufferStats camera_id sv =
     (case findStreamByCamera camera_id sv of
        None \<Rightarrow> (0, 0, 0)
      | Some (key, s) \<Rightarrow> (sb_size (si_buffer s), sb_total (si_buffer s), sb_dropped (si_buffer s)))"

definition getBytesReceived :: "u32 \<Rightarrow> 'm MSEService \<Rightarrow> u64" where
  "getBytesReceived camera_id sv =
     (case findStreamByCamera camera_id sv of None \<Rightarrow> 0 | Some (key, s) \<Rightarrow> si_bytes_received s)"

definition getFrameCount :: "u32 \<Rightarrow> 'm MSEService \<Rightarrow> u64" where
  "getFrameCount camera_id sv =
     (case findStreamByCamera camera_id sv of None \<Rightarrow> 0 | Some (key, s) \<Rightarrow> si_frame_count s)"

definition svc_getInitializationSegment :: "u32 \<Rightarrow> nat \<Rightarrow> 'm MSEService \<Rightarrow> segment" where
  "svc_getInitializationSegment camera_id max_size sv =
     (case findStreamByCamera camera_id sv of
        None \<Rightarrow> []
      | Some (key, s) \<Rightarrow>
          (case getInitializationSegment (si_fragmenter s) of None \<Rightarrow> [] | Some seg \<Rightarrow> copy_out max_size seg))"

definition getLatestSegment :: "u32 \<Rightarrow> nat \<Rightarrow> 'm MSEService \<Rightarrow> segment" where
  "getLatestSegment camera_id max_size sv =
     (case findStreamByCamera camera_id sv of
        None \<Rightarrow> []
      | Some (key, s) \<Rightarrow>
          (case sb_get_latest (si_buffer s) of None \<Rightarrow> [] | Some seg \<Rightarrow> copy_out max_size seg))"

definition getActiveCameras :: "nat \<Rightarrow> 'm MSEService \<Rightarrow> u32 list" where
  "getActiveCameras max_cameras sv = take max_cameras (map (\<lambda>(key, s). si_camera_id s) (sv_streams sv))"

definition stream_stat :: "'m StreamInfo \<Rightarrow> (string \<times> json_scalar) list" where
  "stream_stat s =
     [(''camera_id'', ScalarInt (uint (si_camera_id s))), (''stream_id'', ScalarInt (uint (si_stream_id s))),
      (''codec'', ScalarStr (si_codec s)), (''width'', ScalarInt (si_width s)),
      (''height'', ScalarInt (si_height s)), (''frame_count'', ScalarU64 (si_frame_count s)),
      (''bytes_received'', ScalarU64 (si_bytes_received s)),
      (''dimensions_detected'', ScalarBool (si_dimensions_detected s)),
      (''buffer_size'', ScalarInt (int (sb_size (si_buffer s)))),
      (''total_segments'', ScalarU64 (sb_total (si_buffer s))),
      (''dropped_segments'', ScalarU64 (sb_dropped (si_buffer s)))]"

definition getStatistics :: "'m MSEService \<Rightarrow> nat \<times> (string \<times> json_scalar) list list" where
  "getStatistics sv = (length (sv_streams sv), map (\<lambda>(key, s). stream_stat s) (sv_streams sv))"

section \<open>Control server\<close>

text \<open>
  What the server sends back: a line of JSON with these members, followed by binary data or with a list
  member, or the text of an exception.
\<close>

datatype mse_reply =
    ReplyJson "(string \<times> json_scalar) list"
  | ReplyBinary "(string \<times> json_scalar) list" segment
  | ReplyCameras "(string \<times> json_scalar) list" "u32 list"
  | ReplyStats nat "(string \<times> json_scalar) list list"
  | ReplyException
  | ReplyInvalidJson

definition binary_reply :: "(string \<times> json_scalar) list \<Rightarrow> segment \<Rightarrow> string \<Rightarrow> mse_reply" where
  "binary_reply response seg none =
     (if seg \<noteq> []
      then ReplyBinary (response @ [(''success'', ScalarBool True), (''size'', ScalarInt (int (length seg))),
             (''type'', ScalarStr ''binary_follows'')]) seg
      else ReplyJson (response @ [(''success'', ScalarBool False), (''error'', ScalarStr none)]))"

definition process_command :: "'j json_api \<Rightarrow> 'j \<Rightarrow> 'm MSEService \<Rightarrow> mse_reply" where
  "process_command J cmd sv =
     (case Option.bind (j_field J cmd ''command'') (j_string J) of
        None \<Rightarrow> ReplyException
      | Some command \<Rightarrow>
          (case j_value_int J cmd ''camera_id'' 0 of
             None \<Rightarrow> ReplyException
           | Some c \<Rightarrow>
               let camera_id = of_int c :: u32;
                   response = [(''command'', ScalarStr command), (''camera_id'', ScalarInt (uint camera_id))]
               in if command = ''get_init_segment'' then
                    binary_reply response (svc_getInitializationSegment camera_id (64 * 1024) sv)
                      ''No initialization segment available''
                  else if command = ''get_latest_segment'' then
                    binary_reply response (getLatestSegment camera_id (256 * 1024) sv) ''No segment available''
                  else if command = ''get_buffer_stats'' then
                    (case getBufferStats camera_id sv of (buffer_size, received, dropped) \<Rightarrow>
                       ReplyJson (response @ [(''success'', ScalarBool True),
                         (''buffer_size'', ScalarInt (int buffer_size)), (''total_segments'', ScalarU64 received),
                         (''dropped_segments'', ScalarU64 dropped),
                         (''bytes_received'', ScalarU64 (getBytesReceived camera_id sv)),
                         (''frame_count'', ScalarU64 (getFrameCount camera_id sv))]))
                  else if command = ''get_active_cameras'' then
                    (let cameras = getActiveCameras 32 sv in
                     ReplyCameras (response @ [(''success'', ScalarBool True),
                       (''count'', ScalarInt (int (length cameras)))]) cameras)
                  else if command = ''get_stats'' then
                    (case getStatistics sv of (n, stats) \<Rightarrow> ReplyStats n stats)
                  else ReplyJson (response @ [(''error'', ScalarStr ''Unknown command''),
                         (''success'', ScalarBool False)])))"

text \<open>One line from a client, without its line feed.\<close>

definition handle_line :: "'j json_api \<Rightarrow> string \<Rightarrow> 'm MSEService \<Rightarrow> mse_reply" where
  "handle_line J line sv =
     (let line = (if line \<noteq> [] \<and> last line = char_of (13 :: nat) then butlast line else line) in
      case j_parse J line of None \<Rightarrow> ReplyInvalidJson | Some cmd \<Rightarrow> process_command J cmd sv)"

section \<open>The plugin\<close>

record OutputMSEPlugin =
  mp_camera_id :: u32
  mp_stream_id :: u32
  mp_codec :: string

definition mse_parse_config :: "string option \<Rightarrow> OutputMSEPlugin option" where
  "mse_parse_config json_cfg =
     map_option (\<lambda>cfg.
       let quote = [CHR 0x22];
           camera_id = (case Option.bind (strstr cfg (quote @ ''camera_id'' @ quote)) (\<lambda>s. strchr s (CHR '':'')) of
                          None \<Rightarrow> 0 | Some colon \<Rightarrow> ucast (strtoul (tl colon)))
       in \<lparr>mp_camera_id = (if camera_id = 0 then 1 else camera_id), mp_stream_id = 0, mp_codec = ''h264''\<rparr>)
     json_cfg"

text \<open>The service and the new instance; without one the result of the start is -1.\<close>

definition mse_start :: "bool \<Rightarrow> string option \<Rightarrow> 'm MSEService \<Rightarrow> 'm MSEService \<times> OutputMSEPlugin option" where
  "mse_start listening json_cfg sv =
     (let sv = svc_initialize sv;
          sv = (if sv_once sv then sv else startControlServer listening (sv\<lparr>sv_once := True\<rparr>))
      in (sv, mse_parse_config json_cfg))"

definition mse_stop :: "OutputMSEPlugin option \<Rightarrow> 'm MSEService \<Rightarrow> 'm MSEService" where
  "mse_stop instance sv = (if instance = None then sv else shutdown sv)"

definition mse_on_frame ::
  "'m muxer \<Rightarrow> bool \<times> bool \<Rightarrow> OutputMSEPlugin option \<Rightarrow> bytes \<Rightarrow> 'm MSEService \<Rightarrow> 'm MSEService option" where
  "mse_on_frame M mem instance buf sv =
     (case instance of
        None \<Rightarrow> Some sv
      | Some p \<Rightarrow>
          if length buf < sizeof_frame_hdr then Some sv
          else if fh_hw_type (frame_hdr buf) = ZM_FRAME_COMPRESSED_AUDIO then Some sv
          else let payload = drop sizeof_frame_hdr buf in
            if payload \<noteq> []
            then pushSegment M mem (mp_camera_id p) payload (ensureStreamRegistered (mp_camera_id p) sv)
            else Some sv)"

section \<open>The queue discipline\<close>

definition sb_ok :: "MSESegmentBuffer \<Rightarrow> bool" where
  "sb_ok b \<longleftrightarrow> length (sb_queue b) \<le> max_segments + 1"

lemma sb_push_queue: "sb_ok b \<Longrightarrow> sb_queue (sb_push seg b) = newest (max_segments + 1) (sb_queue b @ [seg])"
  using newest_snoc [of "max_segments + 1" "sb_queue b" seg]
  by (auto simp: sb_push_def sb_ok_def Let_def)

lemma sb_push_ok [inv_intros]: "sb_ok b \<Longrightarrow> sb_ok (sb_push seg b)"
  by (simp add: sb_ok_def sb_push_queue)

interpretation segment_q: dropping_fifo sb_ok sb_queue sb_try_pop sb_push "\<lambda>_. max_segments + 1" "\<lambda>_. True"
  by unfold_locales (auto simp: sb_try_pop_def sb_ok_def sb_push_queue sb_push_ok)

end
