(* ===== verification/Mse_Properties.thy ===== *)
theory Mse_Properties
  imports Mse_Service
begin

text \<open>
  Properties of the MSE output: what its segment buffers keep and count, and that the dimensions of a
  stream are known after ten frames at the latest.
\<close>

section \<open>Segment buffers\<close>

datatype buffer_op = BPush segment | BTryPop

fun buffer_run :: "buffer_op list \<Rightarrow> MSESegmentBuffer \<Rightarrow> segment list \<times> MSESegmentBuffer" where
  "buffer_run [] b = ([], b)"
| "buffer_run (BPush seg # ops) b = buffer_run ops (sb_push seg b)"
| "buffer_run (BTryPop # ops) b =
     (case sb_try_pop b of
        None \<Rightarrow> buffer_run ops b
      | Some (seg, b1) \<Rightarrow> (case buffer_run ops b1 of (outs, b2) \<Rightarrow> (seg # outs, b2)))"

fun pushed :: "buffer_op list \<Rightarrow> segment list" where
  "pushed [] = []"
| "pushed (BPush seg # ops) = seg # pushed ops"
| "pushed (BTryPop # ops) = pushed ops"

lemma pushed_append: "pushed (xs @ ys) = pushed xs @ pushed ys"
  by (induction xs rule: pushed.induct) auto

lemma length_pushed: "length (pushed ops) \<le> length ops"
  by (induction ops rule: pushed.induct) auto

lemma buffer_run_append:
  "buffer_run (xs @ ys) b =
     (case buffer_run xs b of (o1, b1) \<Rightarrow> (case buffer_run ys b1 of (o2, b2) \<Rightarrow> (o1 @ o2, b2)))"
  by (induction xs b rule: buffer_run.induct) (auto split: prod.splits option.splits)

lemma subseq_drop_middle: "subseq (xs @ y # ys) zs \<Longrightarrow> subseq (xs @ ys) zs"
  by (erule subseq_order.trans [rotated]) (simp add: list_emb_append_mono list_emb_Cons)

lemma buffer_run_inv:
  assumes "buffer_run ops MSESegmentBuffer_init = (outs, b)" and "length ops < 2 ^ 64"
  shows "subseq (outs @ sb_queue b) (pushed ops) \<and> sb_ok b \<and>
    unat (sb_total b) = length (pushed ops) \<and>
    unat (sb_dropped b) + length outs + length (sb_queue b) = length (pushed ops) \<and>
    (sb_queue b \<noteq> [] \<longrightarrow> last (sb_queue b) = last (pushed ops))"
  using assms
proof (induction ops arbitrary: outs b rule: rev_induct)
  case Nil
  then show ?case by (auto simp: MSESegmentBuffer_init_def sb_ok_def)
next
  case (snoc op ops)
  obtain o1 b1 where r: "buffer_run ops MSESegmentBuffer_init = (o1, b1)"
    by (cases "buffer_run ops MSESegmentBuffer_init")
  have IH: "subseq (o1 @ sb_queue b1) (pushed ops)" "sb_ok b1" "unat (sb_total b1) = length (pushed ops)"
    "unat (sb_dropped b1) + length o1 + length (sb_queue b1) = length (pushed ops)"
    "sb_queue b1 \<noteq> [] \<Longrightarrow> last (sb_queue b1) = last (pushed ops)"
    using snoc.IH [OF r] snoc.prems(2) by auto
  have lt: "length (pushed ops) + 1 < 2 ^ 64"
    using length_pushed [of ops] snoc.prems(2) by simp
  show ?case
  proof (cases op)
    case (BPush seg)
    then have o: "outs = o1" "b = sb_push seg b1"
      using snoc.prems(1) r by (simp_all add: buffer_run_append)
    have p: "pushed (ops @ [op]) = pushed ops @ [seg]" using BPush by (simp add: pushed_append)
    have t: "unat (sb_total b) = length (pushed ops) + 1"
      using IH(3) lt by (simp add: o sb_push_def Let_def unat_word_ariths)
    have ok: "sb_ok b" "last (sb_queue b) = seg"
      using segment_q.enq_invar [OF IH(2), of seg] segment_q.newest_kept [OF IH(2), of seg] by (simp_all add: o)
    show ?thesis
    proof (cases "length (sb_queue b1) > max_segments")
      case True
      then obtain y ys where q: "sb_queue b1 = y # ys" by (cases "sb_queue b1") auto
      have "subseq (o1 @ ys) (pushed ops)" using IH(1) q subseq_drop_middle by simp
      then have "subseq (o1 @ ys @ [seg]) (pushed ops @ [seg])"
        using list_emb_append_mono [of "(=)" "o1 @ ys" "pushed ops" "[seg]" "[seg]"] by simp
      moreover have "unat (sb_dropped b1 + 1) = unat (sb_dropped b1) + 1"
        using IH(4) lt by (simp add: unat_word_ariths)
      ultimately show ?thesis
        using True IH(4) q t ok by (simp add: p o sb_push_def Let_def)
    next
      case False
      have "subseq ((o1 @ sb_queue b1) @ [seg]) (pushed ops @ [seg])"
        using IH(1) list_emb_append_mono [of "(=)" "o1 @ sb_queue b1" "pushed ops" "[seg]" "[seg]"] by simp
      then show ?thesis
        using False IH(4) t ok by (simp add: p o sb_push_def Let_def)
    qed
  next
    case BTryPop
    then have p: "pushed (ops @ [op]) = pushed ops" by (simp add: pushed_append)
    show ?thesis
    proof (cases "sb_queue b1")
      case Nil
      then have "outs = o1" "b = b1"
        using snoc.prems(1) r BTryPop by (simp_all add: buffer_run_append sb_try_pop_def)
      then show ?thesis using IH p by simp
    next
      case (Cons y ys)
      then have "outs = o1 @ [y]" "b = b1\<lparr>sb_queue := ys\<rparr>"
        using snoc.prems(1) r BTryPop by (simp_all add: buffer_run_append sb_try_pop_def)
      then show ?thesis using IH p Cons by (auto simp: sb_ok_def split: if_splits)
    qed
  qed
qed

text \<open>
  Whatever pushes and pops a buffer sees: the segments handed out and then those still inside are
  in the order of the pushes, none twice; at most 101 are inside, and the newest is the last one pushed;
  the two counters account for every segment, which was handed out, dropped, or is still inside.
\<close>
theorem segment_buffer_accounts:
  assumes "buffer_run ops MSESegmentBuffer_init = (outs, b)" and "length ops < 2 ^ 64"
  shows "subseq (outs @ sb_queue b) (pushed ops) \<and> sb_size b \<le> 101 \<and>
    unat (sb_total b) = length (pushed ops) \<and>
    unat (sb_dropped b) + length outs + sb_size b = length (pushed ops) \<and>
    (sb_get_latest b \<noteq> None \<longrightarrow> sb_get_latest b = Some (last (pushed ops)))"
  using buffer_run_inv [OF assms] by (simp add: sb_size_def sb_get_latest_def sb_ok_def max_segments_def)

theorem segment_buffer_accounts_witness:
  "\<exists>b. buffer_run [BPush [Some 1], BPush [Some 2], BTryPop] MSESegmentBuffer_init = ([[Some 1]], b) \<and>
     sb_get_latest b = Some [Some 2]"
proof -
  have "buffer_run [BPush [Some 1], BPush [Some 2], BTryPop] MSESegmentBuffer_init =
      ([[Some 1]], \<lparr>sb_queue = [[Some 2]], sb_dropped = 0, sb_total = 2\<rparr>)"
    by (simp add: sb_push_def sb_try_pop_def MSESegmentBuffer_init_def max_segments_def Let_def)
  from this segment_buffer_accounts [OF this] show ?thesis
    by (auto simp: sb_get_latest_def)
qed

section \<open>Frames with a well-behaved muxer\<close>

text \<open>The muxer only appends, at most 2^30 bytes for one frame.\<close>

definition mux_bounded :: "'m muxer \<Rightarrow> bool" where
  "mux_bounded M \<longleftrightarrow>
     (\<forall>w h den m ops. mx_open M w h den = Some (m, ops) \<longrightarrow> append_only ops \<and> length (mux_output ops) \<le> 2 ^ 30) \<and>
     (\<forall>pkt m m' ops ok. mx_write_frame M pkt m = (m', ops, ok) \<longrightarrow>
        append_only ops \<and> length (mux_output ops) \<le> 2 ^ 30)"

definition frag_ok :: "nat \<Rightarrow> 'm MP4Fragmenter \<Rightarrow> bool" where
  "frag_ok n f \<longleftrightarrow> unat (fg_sequence_number f) \<le> n \<and>
     (fg_initialized f \<longrightarrow>
       (\<exists>m acc. fg_muxer f = Some m \<and> frag_rep (2 ^ 61) acc f \<and> length acc \<le> n * 2 ^ 30))"

lemma initialize_total:
  assumes "mux_bounded M" and "unat (fg_sequence_number f) \<le> n"
  shows "\<exists>f' ok. initialize M memory cam w h fps f = Some (f', ok) \<and> frag_ok n f'"
proof -
  define f1 where "f1 = (if fg_initialized f then cleanup f else f)
    \<lparr>fg_camera_id := cam, fg_time_base_den := fps * 1000\<rparr>"
  have f1: "\<not> fg_initialized f1" "fg_sequence_number f1 = fg_sequence_number f"
    by (simp_all add: f1_def cleanup_def)
  let ?f = "f1\<lparr>fg_buffer := replicate (1024 * 1024) None\<rparr>"
  have i: "initialize M memory cam w h fps f =
    (if w \<le> 0 \<or> h \<le> 0 then Some (f1, False)
      else if \<not> memory then Some (f1, False)
      else Option.bind (setupMP4Context M w h ?f)
        (\<lambda>(f, ok). if ok then Some (f\<lparr>fg_initialized := True\<rparr>, True) else Some (cleanup f, False)))"
    by (simp add: initialize_def f1_def Let_def)
  have "\<exists>f2 ok. setupMP4Context M w h ?f = Some (f2, ok) \<and> fg_sequence_number f2 = fg_sequence_number f \<and>
      (ok \<longrightarrow> (\<exists>m. fg_muxer f2 = Some m) \<and> frag_rep (2 ^ 61) [] f2)"
  proof (cases "mx_open M w h (fg_time_base_den ?f)")
    case None
    then have "setupMP4Context M w h ?f = Some (?f, False)" by (simp add: setupMP4Context_def)
    then show ?thesis using f1 by auto
  next
    case (Some p)
    obtain m ops where p: "p = (m, ops)" by (cases p)
    have a: "append_only ops" "length (mux_output ops) \<le> 2 ^ 30"
      using assms(1) Some p by (auto simp: mux_bounded_def)
    let ?g = "resetOutputBuffer (?f\<lparr>fg_muxer := Some m\<rparr>)"
    have "frag_rep (2 ^ 61) [] ?g" by (simp add: frag_rep_def resetOutputBuffer_def)
    from mux_callbacks_rep [OF a(1) this] a(2) obtain buf
      where c: "mux_callbacks ops ?g = Some (with_buffer ?g buf (mux_output ops))"
        and r: "frag_rep (2 ^ 61) (mux_output ops) (with_buffer ?g buf (mux_output ops))" by auto
    show ?thesis
      using Some p c r f1
      by (auto simp: setupMP4Context_def writeInitializationSegment_def written_def frag_rep_def
          resetOutputBuffer_def)
  qed
  then show ?thesis
    using i f1 assms(2) by (auto simp: frag_ok_def cleanup_def frag_rep_def split: if_splits)
qed

lemma processFrame_total:
  assumes M: "mux_bounded M" and f: "frag_ok n f" and n: "n < 2 ^ 30" and data: "data \<noteq> []"
  shows "\<exists>f' seg. processFrame M memory data key f = Some (f', seg) \<and> frag_ok (n + 1) f'"
proof (cases "fg_initialized f \<and> memory")
  case False
  then have "processFrame M memory data key f = Some (f, None)" by (auto simp: processFrame_def)
  moreover have "frag_ok (n + 1) f" using f by (fastforce simp: frag_ok_def)
  ultimately show ?thesis by blast
next
  case True
  then obtain m acc where m: "fg_muxer f = Some m" and r: "frag_rep (2 ^ 61) acc f" and l: "length acc \<le> n * 2 ^ 30"
    using f by (auto simp: frag_ok_def)
  obtain m' ops ok where w: "mx_write_frame M (Some (frame_packet data key f)) m = (m', ops, ok)"
    by (cases "mx_write_frame M (Some (frame_packet data key f)) m") auto
  have a: "append_only ops" "length (mux_output ops) \<le> 2 ^ 30"
    using M w unfolding mux_bounded_def by blast+
  define acc0 where "acc0 = (if key \<and> fg_sequence_number f > 0 then [] else acc)"
  have l0: "length acc0 \<le> n * 2 ^ 30" using l by (simp add: acc0_def)
  have b: "length acc0 + length (mux_output ops) \<le> 2 ^ 61" using l0 a(2) n by simp
  have sq: "unat (fg_sequence_number f) \<le> n" using f by (simp add: frag_ok_def)
  then have sq1: "unat (fg_sequence_number f + 1) = Suc (unat (fg_sequence_number f))"
    using n by (simp add: unat_word_ariths)
  then have sq0: "fg_sequence_number f + 1 \<noteq> 0" by (metis nat.distinct(1) unat_0)
  obtain f1 seg where "processFrame M True data key f = Some (f1, seg)" "fg_initialized f1"
    "fg_muxer f1 = Some m'" "frag_rep (2 ^ 61) (acc0 @ mux_output ops) f1"
    "fg_sequence_number f1 = (if seg \<noteq> None then fg_sequence_number f + 1 else fg_sequence_number f)"
    using processFrame_rep [OF conjunct1 [OF True] m r data w a(1) acc0_def b le_refl refl refl sq0] by blast
  moreover have "frag_ok (n + 1) f1"
    using calculation sq sq1 l0 a(2) by (auto simp: frag_ok_def)
  ultimately show ?thesis using True by auto
qed

section \<open>The first frames of a camera\<close>

fun mse_frames ::
  "'m muxer \<Rightarrow> OutputMSEPlugin \<Rightarrow> ((bool \<times> bool) \<times> bytes) list \<Rightarrow> 'm MSEService \<Rightarrow> 'm MSEService option" where
  "mse_frames M p [] sv = Some sv"
| "mse_frames M p ((mem, buf) # bufs) sv = Option.bind (mse_on_frame M mem (Some p) buf sv) (mse_frames M p bufs)"

definition stream_inv :: "nat \<Rightarrow> nat \<Rightarrow> u32 \<Rightarrow> 'm StreamInfo \<Rightarrow> bool" where
  "stream_inv n nbytes cam s \<longleftrightarrow> si_camera_id s = cam \<and> si_codec s = ''h264'' \<and>
     si_frame_count s = of_nat n \<and> si_bytes_received s = of_nat nbytes \<and> frag_ok n (si_fragmenter s) \<and>
     (si_dimensions_detected s \<or>
       n < 10 \<and> si_frames_without_sps s = of_nat n \<and> 0 < si_width s \<and> 0 < si_height s)"

lemma frag_ok_mono: "\<lbrakk>frag_ok n f; n \<le> k\<rbrakk> \<Longrightarrow> frag_ok k f"
  by (fastforce simp: frag_ok_def)

lemma init_fragmenter_total:
  assumes "mux_bounded M" and "frag_ok n (si_fragmenter s)"
  shows "\<exists>f ok. init_fragmenter M memory s = Some (s\<lparr>si_fragmenter := f\<rparr>, ok) \<and> frag_ok n f"
proof -
  have "unat (fg_sequence_number (si_fragmenter s)) \<le> n" using assms(2) by (simp add: frag_ok_def)
  from initialize_total [OF assms(1) this] obtain f ok where
    "initialize M memory (si_camera_id s) (si_width s) (si_height s) (si_fps s) (si_fragmenter s) = Some (f, ok)"
    "frag_ok n f" by blast
  then show ?thesis by (auto simp: init_fragmenter_def)
qed

lemma fragment_frame_total:
  assumes "mux_bounded M" and "frag_ok n (si_fragmenter s)" and "n < 2 ^ 30" and "data \<noteq> []"
    and "si_codec s = ''h264''" and "si_dimensions_detected s"
  shows "\<exists>f b. fragment_frame M memory data s = Some (s\<lparr>si_fragmenter := f, si_buffer := b\<rparr>) \<and> frag_ok (n + 1) f"
proof -
  obtain f seg where "processFrame M memory data (is_idr_frame data) (si_fragmenter s) = Some (f, seg)"
    and f: "frag_ok (n + 1) f"
    using processFrame_total [OF assms(1-4)] by blast
  then have "fragment_frame M memory data s = Some (s\<lparr>si_fragmenter := f,
      si_buffer := (case seg of None \<Rightarrow> si_buffer s | Some seg \<Rightarrow> sb_push seg (si_buffer s))\<rparr>)"
    using assms(5,6) by (simp add: fragment_frame_def is_h264_def push_segment_to_def split: option.split)
  with f show ?thesis by blast
qed

lemma detect_dimensions_total:
  assumes M: "mux_bounded M" and f: "frag_ok n (si_fragmenter s)" and a: "analyzeSPS data \<noteq> None"
    and n: "n < 10" "si_frames_without_sps s = of_nat n" "0 < si_width s" "0 < si_height s"
  shows "\<exists>s' go. detect_dimensions M memory data s = Some (s', go) \<and>
    si_camera_id s' = si_camera_id s \<and> si_codec s' = si_codec s \<and> si_frame_count s' = si_frame_count s \<and>
    si_bytes_received s' = si_bytes_received s \<and> frag_ok n (si_fragmenter s') \<and> (go \<longrightarrow> si_dimensions_detected s') \<and>
    (si_dimensions_detected s' \<or>
      n + 1 < 10 \<and> si_frames_without_sps s' = of_nat (n + 1) \<and> 0 < si_width s' \<and> 0 < si_height s')"
proof (cases "analyzeSPS data")
  case (Some r)
  have c: "10 \<le> (of_nat n + 1 :: u32) \<longleftrightarrow> 10 \<le> n + 1"
    using n(1) by (simp add: word_le_nat_alt unat_word_ariths unat_of_nat)
  show ?thesis
  proof (cases r)
    case None
    let ?s = "s\<lparr>si_frames_without_sps := of_nat n + 1, si_dimensions_detected := True\<rparr>"
    have "frag_ok n (si_fragmenter ?s)" using f by simp
    from init_fragmenter_total [OF M this, of memory] obtain g ok
      where "init_fragmenter M memory ?s = Some (?s\<lparr>si_fragmenter := g\<rparr>, ok)" "frag_ok n g" by blast
    then show ?thesis using Some None n f c by (auto simp: detect_dimensions_def Let_def)
  next
    case (Some d)
    obtain w h where d: "d = (w, h)" by (cases d)
    let ?s = "s\<lparr>si_width := w, si_height := h, si_fps := 25, si_dimensions_detected := True\<rparr>"
    have "frag_ok n (si_fragmenter ?s)" using f by simp
    from init_fragmenter_total [OF M this, of memory] obtain g ok
      where "init_fragmenter M memory ?s = Some (?s\<lparr>si_fragmenter := g\<rparr>, ok)" "frag_ok n g" by blast
    then show ?thesis using \<open>analyzeSPS data = Some r\<close> Some d by (auto simp: detect_dimensions_def)
  qed
qed (use a in simp)

lemma push_frame_total:
  assumes M: "mux_bounded M" and s: "stream_inv n nbytes cam s" and n: "n < 2 ^ 30" and d: "data \<noteq> []"
    and a: "analyzeSPS data \<noteq> None"
  shows "\<exists>s'. push_frame M mem data s = Some s' \<and> stream_inv (n + 1) (nbytes + length data) cam s'"
proof -
  let ?s = "s\<lparr>si_frame_count := si_frame_count s + 1, si_bytes_received := si_bytes_received s + of_nat (length data)\<rparr>"
  have f: "frag_ok n (si_fragmenter ?s)" and c: "si_codec ?s = ''h264''" using s by (simp_all add: stream_inv_def)
  show ?thesis
  proof (cases "si_dimensions_detected s")
    case True
    then have "si_dimensions_detected ?s" by simp
    from fragment_frame_total [OF M f n d c this, of "snd mem"] s True show ?thesis
      by (auto simp: push_frame_def stream_inv_def add.commute)
  next
    case False
    then have u: "n < 10" "si_frames_without_sps ?s = of_nat n" "0 < si_width ?s" "0 < si_height ?s"
      using s by (simp_all add: stream_inv_def)
    obtain s1 go where dd: "detect_dimensions M (fst mem) data ?s = Some (s1, go)"
      and s1: "si_camera_id s1 = si_camera_id s" "si_codec s1 = si_codec s" "si_frame_count s1 = si_frame_count s + 1"
        "si_bytes_received s1 = si_bytes_received s + of_nat (length data)" "frag_ok n (si_fragmenter s1)"
        "go \<longrightarrow> si_dimensions_detected s1"
        "si_dimensions_detected s1 \<or>
          n + 1 < 10 \<and> si_frames_without_sps s1 = of_nat (n + 1) \<and> 0 < si_width s1 \<and> 0 < si_height s1"
      using detect_dimensions_total [OF M f a u, of "fst mem"] by auto
    have pf: "push_frame M mem data s = (if go then fragment_frame M (snd mem) data s1 else Some s1)"
      using False c dd by (simp add: push_frame_def is_h264_def)
    show ?thesis
    proof (cases go)
      case True
      then have "si_dimensions_detected s1" "si_codec s1 = ''h264''" using s1 c by simp_all
      from fragment_frame_total [OF M s1(5) n d this(2,1), of "snd mem"] obtain g b
        where "fragment_frame M (snd mem) data s1 = Some (s1\<lparr>si_fragmenter := g, si_buffer := b\<rparr>)" "frag_ok (n + 1) g"
        by blast
      then show ?thesis using pf True s s1 by (auto simp: stream_inv_def add.commute)
    next
      case False
      then show ?thesis using pf s s1 frag_ok_mono [OF s1(5), of "n + 1"]
        by (auto simp: stream_inv_def add.commute)
    qed
  qed
qed

definition svc_inv :: "nat \<Rightarrow> nat \<Rightarrow> u32 \<Rightarrow> 'm MSEService \<Rightarrow> bool" where
  "svc_inv n nbytes cam sv \<longleftrightarrow> sv_running sv \<and>
     (\<exists>s. sv_streams (ensureStreamRegistered cam sv) = [(getStreamKey cam 0, s)] \<and> stream_inv n nbytes cam s)"

lemma svc_inv_init: "\<lbrakk>sv_running sv; sv_streams sv = []\<rbrakk> \<Longrightarrow> svc_inv 0 0 cam sv"
  by (simp add: svc_inv_def ensureStreamRegistered_def findStreamByCamera_def set_stream_def stream_inv_def
      StreamInfo_new_def frag_ok_def MP4Fragmenter_init_def)

lemma ensureStreamRegistered_running [simp]: "sv_running (ensureStreamRegistered cam sv) = sv_running sv"
  by (simp add: ensureStreamRegistered_def set_stream_def)

definition video_frame :: "bytes \<Rightarrow> bool" where
  "video_frame buf \<longleftrightarrow> sizeof_frame_hdr < length buf \<and> fh_hw_type (frame_hdr buf) \<noteq> ZM_FRAME_COMPRESSED_AUDIO"

lemma mse_on_frame_total:
  assumes M: "mux_bounded M" and i: "svc_inv n nbytes (mp_camera_id p) sv" and n: "n < 2 ^ 30"
    and v: "video_frame buf" and a: "analyzeSPS (drop sizeof_frame_hdr buf) \<noteq> None"
  shows "\<exists>sv' s. mse_on_frame M mem (Some p) buf sv = Some sv' \<and>
    sv_running sv' \<and> sv_streams sv' = [(getStreamKey (mp_camera_id p) 0, s)] \<and>
    stream_inv (n + 1) (nbytes + (length buf - sizeof_frame_hdr)) (mp_camera_id p) s"
proof -
  let ?cam = "mp_camera_id p" and ?data = "drop sizeof_frame_hdr buf"
  obtain s where s: "sv_streams (ensureStreamRegistered ?cam sv) = [(getStreamKey ?cam 0, s)]"
    "stream_inv n nbytes ?cam s" and r: "sv_running sv"
    using i by (auto simp: svc_inv_def)
  have d: "?data \<noteq> []" using v by (simp add: video_frame_def)
  from push_frame_total [OF M s(2) n d a, of mem] obtain s'
    where "push_frame M mem ?data s = Some s'" "stream_inv (n + 1) (nbytes + length ?data) ?cam s'" by blast
  moreover have "si_camera_id s = ?cam" using s(2) by (simp add: stream_inv_def)
  ultimately show ?thesis
    using v r s d by (auto simp: mse_on_frame_def video_frame_def pushSegment_def findStreamByCamera_def set_stream_def)
qed

lemma svc_inv_one:
  assumes "sv_running sv" and "sv_streams sv = [(getStreamKey cam 0, s)]" and "stream_inv n nbytes cam s"
  shows "svc_inv n nbytes cam sv"
  using assms by (simp add: svc_inv_def ensureStreamRegistered_def findStreamByCamera_def stream_inv_def)

abbreviation payload_total :: "((bool \<times> bool) \<times> bytes) list \<Rightarrow> nat" where
  "payload_total bufs \<equiv> sum_list (map (\<lambda>(mem, buf). length buf - sizeof_frame_hdr) bufs)"

lemma mse_frames_total:
  assumes "mux_bounded M" and "svc_inv n nbytes (mp_camera_id p) sv" and "n + length bufs < 2 ^ 30"
    and "bufs \<noteq> []"
    and "\<forall>(mem, buf) \<in> set bufs. video_frame buf \<and> analyzeSPS (drop sizeof_frame_hdr buf) \<noteq> None"
  shows "\<exists>sv' s. mse_frames M p bufs sv = Some sv' \<and> sv_running sv' \<and>
    sv_streams sv' = [(getStreamKey (mp_camera_id p) 0, s)] \<and>
    stream_inv (n + length bufs) (nbytes + payload_total bufs) (mp_camera_id p) s"
  using assms(2-5)
proof (induction bufs arbitrary: n nbytes sv)
  case (Cons mb bufs)
  obtain mem buf where mb: "mb = (mem, buf)" by (cases mb)
  have v: "video_frame buf" "analyzeSPS (drop sizeof_frame_hdr buf) \<noteq> None" "n < 2 ^ 30"
    using Cons.prems(2,4) mb by auto
  obtain sv1 s1 where f: "mse_on_frame M mem (Some p) buf sv = Some sv1" and s1: "sv_running sv1"
    "sv_streams sv1 = [(getStreamKey (mp_camera_id p) 0, s1)]"
    "stream_inv (n + 1) (nbytes + (length buf - sizeof_frame_hdr)) (mp_camera_id p) s1"
    using mse_on_frame_total [OF assms(1) Cons.prems(1) v(3,1,2)] by blast
  show ?case
  proof (cases "bufs = []")
    case True
    then show ?thesis using mb f s1 by simp
  next
    case False
    from Cons.IH [OF svc_inv_one [OF s1] _ False] Cons.prems(2,4) show ?thesis
      using mb f by (auto simp: add.assoc)
  qed
qed simp


lemma demo_muxer_append: "mux_bounded (demo_muxer\<lparr>mx_write_frame := (\<lambda>pkt frag. ([], [WritePacket [1] True], True))\<rparr>)"
  by (simp add: mux_bounded_def demo_muxer_def)

definition demo_video :: bytes where
  "demo_video = replicate 32 0 @ [0, 0, 0, 1, 9]"


section \<open>Where the service falls short\<close>

text \<open>The first frame of a camera with fewer than 4 bytes makes the analyser read past its end.\<close>

lemma short_first_frame_reads_past_end:
  assumes "data \<noteq> []" and "length data < 4" and "si_codec s = ''h264''" and "\<not> si_dimensions_detected s"
  shows "push_frame M mem data s = None"
  using assms find_nalu_short [of data 0 7]
  by (simp add: push_frame_def is_h264_def detect_dimensions_def analyzeSPS_def findNALU_def)

text \<open>Once the fragmenter could not be initialised, the stream gives no segments any more.\<close>

lemma failed_initialisation_is_final:
  assumes "si_codec s = ''h264''" and "si_dimensions_detected s" and "\<not> fg_initialized (si_fragmenter s)"
    and "push_frame M mem data s = Some s'"
  shows "si_buffer s' = si_buffer s \<and> si_dimensions_detected s' \<and> \<not> fg_initialized (si_fragmenter s')"
  using assms by (auto simp: push_frame_def is_h264_def fragment_frame_def processFrame_def)

text \<open>After a stop and a new start the control server is there, but it does not listen.\<close>

lemma control_server_not_restarted:
  "sv_control (fst (mse_start True cfg (mse_stop (Some p) (fst (mse_start True cfg MSEService_init))))) = Some False"
  by (simp add: mse_start_def mse_stop_def svc_initialize_def MSEService_init_def startControlServer_def
      shutdown_def)

end
