(* ===== verification/Rtsp_Config.thy ===== *)
theory Rtsp_Config
  imports Prelude Std_Strings
begin

text \<open>
  The configuration of the RTSP input, \<open>StreamManager::parse_configuration\<close> of
  plugins/capture_rtsp_multi/stream_manager.cpp, which searches the text without a JSON parser. A
  \<open>std::map\<close> is an association list in the order of its keys. \<open>None\<close> is the exception of \<open>std::stoul\<close>.
\<close>

section \<open>Ordered maps\<close>

fun omap_set :: "'k::linorder \<Rightarrow> 'v \<Rightarrow> ('k \<times> 'v) list \<Rightarrow> ('k \<times> 'v) list" where
  "omap_set k v [] = [(k, v)]"
| "omap_set k v ((k', v') # rest) =
     (if k < k' then (k, v) # (k', v') # rest
      else if k = k' then (k, v) # rest
      else (k', v') # omap_set k v rest)"

abbreviation omap_ok :: "('k::linorder \<times> 'v) list \<Rightarrow> bool" where
  "omap_ok m \<equiv> sorted_wrt (<) (map fst m)"

lemma omap_set_keys: "set (map fst (omap_set k v m)) = insert k (set (map fst m))"
  by (induction k v m rule: omap_set.induct) (simp_all add: insert_commute)

lemma omap_set_ok [simp]: "omap_ok m \<Longrightarrow> omap_ok (omap_set k v m)"
proof (induction k v m rule: omap_set.induct)
  case (2 k v k' v' rest)
  have "\<forall>x \<in> set (map fst (omap_set k v rest)). x = k \<or> x \<in> set (map fst rest)"
    by (simp only: omap_set_keys) simp
  then show ?case using 2 by (fastforce dest: order.strict_trans)
qed simp

lemma map_of_omap_set [simp]: "omap_ok m \<Longrightarrow> map_of (omap_set k v m) = (map_of m)(k \<mapsto> v)"
  by (induction k v m rule: omap_set.induct) (auto simp: fun_eq_iff)

section \<open>Streams\<close>

record StreamConfig =
  rc_url :: string
  rc_transport :: string
  rc_stream_id :: u32
  rc_hw_decode :: bool
  rc_max_retry_attempts :: int
  rc_retry_delay_ms :: int
  rc_forward_audio :: bool

definition StreamConfig_init :: StreamConfig where
  "StreamConfig_init = \<lparr>rc_url = [], rc_transport = [], rc_stream_id = 0, rc_hw_decode = False,
     rc_max_retry_attempts = 5, rc_retry_delay_ms = 2000, rc_forward_audio = True\<rparr>"

definition quoted :: "string \<Rightarrow> string" where
  "quoted s = CHR 0x22 # s @ [CHR 0x22]"

text \<open>The text between the two quotation marks behind the colon that follows \<open>pos\<close>.\<close>

definition quoted_value :: "string \<Rightarrow> nat \<Rightarrow> string" where
  "quoted_value cfg pos =
     (let a = after_pos (string_find cfg '':'' pos);
          b = after_pos (string_find cfg [CHR 0x22] a)
      in substr_to cfg b (string_find cfg [CHR 0x22] b))"

definition default_transport :: string where "default_transport = ''tcp''"

text \<open>The members that the single stream and a stream of the list have in common.\<close>

definition parse_stream :: "string \<Rightarrow> StreamConfig \<Rightarrow> StreamConfig" where
  "parse_stream cfg c =
     (let c = (case string_find cfg (quoted ''url'') 0 of
                 None \<Rightarrow> c | Some p \<Rightarrow> c\<lparr>rc_url := quoted_value cfg p\<rparr>);
          c = c\<lparr>rc_transport := (case string_find cfg (quoted ''transport'') 0 of
                 None \<Rightarrow> default_transport | Some p \<Rightarrow> quoted_value cfg p)\<rparr>
      in c\<lparr>rc_hw_decode := (case string_find cfg (quoted ''hw_decode'') 0 of
              None \<Rightarrow> False
            | Some p \<Rightarrow> string_find cfg ''true'' (after_pos (string_find cfg '':'' p)) \<noteq> None)\<rparr>)"

definition parse_stream_id :: "string \<Rightarrow> u32 \<Rightarrow> u32 option" where
  "parse_stream_id cfg counter =
     (case string_find cfg (quoted ''stream_id'') 0 of
        None \<Rightarrow> Some counter
      | Some p \<Rightarrow>
          let a = after_pos (string_find cfg '':'' p);
              id_str = substr_to cfg a (string_find_first_of cfg '',}'' a)
          in map_option ucast (stoul (filter (\<lambda>c. \<not> is_space_char c) id_str)))"

lemma string_find_bounds:
  assumes "string_find s needle pos = Some i"
  shows "pos \<le> i \<and> i \<le> length s"
proof -
  have "i \<in> set [pos..<length s + 1]"
    using assms unfolding string_find_def by (metis find_Some_iff nth_mem)
  then show ?thesis by auto
qed

text \<open>The loop over the entries from position \<open>start\<close>, with the counter of the entries with a URL.\<close>

function parse_entries ::
  "string \<Rightarrow> nat \<Rightarrow> u32 \<Rightarrow> (u32 \<times> StreamConfig) list \<Rightarrow> (u32 \<times> StreamConfig) list option" where
  "parse_entries cfg start counter configs =
     (case string_find cfg ''{'' start of
        None \<Rightarrow> Some configs
      | Some a \<Rightarrow>
          (case string_find cfg ''}'' a of
             None \<Rightarrow> Some configs
           | Some e \<Rightarrow>
               let entry = take (e - a + 1) (drop a cfg) in
               if string_find entry (quoted ''url'') 0 \<noteq> None then
                 (case parse_stream_id entry counter of
                    None \<Rightarrow> None
                  | Some sid \<Rightarrow>
                      let c = parse_stream entry (StreamConfig_init\<lparr>rc_stream_id := sid\<rparr>) in
                      parse_entries cfg (e + 1) (counter + 1)
                        (if rc_url c \<noteq> [] then omap_set sid c configs else configs))
               else parse_entries cfg (e + 1) counter configs))"
  by pat_completeness auto
termination
  by (relation "measure (\<lambda>(cfg, start, counter, configs). length cfg + 1 - start)")
    (auto dest!: string_find_bounds)

declare parse_entries.simps [simp del]

definition parse_configuration ::
  "string option \<Rightarrow> (u32 \<times> StreamConfig) list \<Rightarrow> (bool \<times> (u32 \<times> StreamConfig) list) option" where
  "parse_configuration json_config configs =
     (case json_config of
        None \<Rightarrow> Some (False, configs)
      | Some cfg \<Rightarrow>
          map_option (\<lambda>configs. (configs \<noteq> [], configs))
            (if string_find cfg (quoted ''streams'') 0 = None
             then let c = parse_stream cfg StreamConfig_init
                  in Some (if rc_url c \<noteq> [] then omap_set (rc_stream_id c) c configs else configs)
             else parse_entries cfg 0 0 configs))"

section \<open>Facts\<close>

definition config_ok :: "(u32 \<times> StreamConfig) list \<Rightarrow> bool" where
  "config_ok cs \<longleftrightarrow> omap_ok cs \<and> (\<forall>(k, c) \<in> set cs. rc_stream_id c = k \<and> rc_url c \<noteq> [] \<and>
     rc_max_retry_attempts c = 5 \<and> rc_forward_audio c)"

lemma omap_set_members: "p \<in> set (omap_set k v m) \<Longrightarrow> p = (k, v) \<or> p \<in> set m"
  by (induction k v m rule: omap_set.induct) (auto split: if_splits)

lemma parse_stream_fields [simp]:
  "rc_stream_id (parse_stream cfg c) = rc_stream_id c"
  "rc_max_retry_attempts (parse_stream cfg c) = rc_max_retry_attempts c"
  "rc_forward_audio (parse_stream cfg c) = rc_forward_audio c"
  by (simp_all add: parse_stream_def Let_def split: option.split)

lemma config_ok_set:
  assumes "config_ok cs" and "rc_url c \<noteq> []" and "rc_stream_id c = k" and "rc_max_retry_attempts c = 5"
    and "rc_forward_audio c"
  shows "config_ok (omap_set k c cs)"
  using assms by (auto simp: config_ok_def dest!: omap_set_members)

lemma parse_entries_ok:
  "\<lbrakk>parse_entries cfg start counter configs = Some cs; config_ok configs\<rbrakk> \<Longrightarrow> config_ok cs"
proof (induction cfg start counter configs rule: parse_entries.induct)
  case (1 cfg start counter configs)
  let ?new = "\<lambda>e sid. if rc_url (parse_stream e (StreamConfig_init\<lparr>rc_stream_id := sid\<rparr>)) \<noteq> []
    then omap_set sid (parse_stream e (StreamConfig_init\<lparr>rc_stream_id := sid\<rparr>)) configs else configs"
  have new: "config_ok (?new e sid)" for e sid
    using "1.prems"(2) by (auto intro!: config_ok_set simp: StreamConfig_init_def)
  show ?case
  proof (cases "string_find cfg ''{'' start")
    case None
    with 1 show ?thesis by (simp add: parse_entries.simps [of cfg start])
  next
    case a: (Some a)
    show ?thesis
    proof (cases "string_find cfg ''}'' a")
      case None
      with a 1 show ?thesis by (simp add: parse_entries.simps [of cfg start])
    next
      case e: (Some e)
      define entry where "entry = take (e - a + 1) (drop a cfg)"
      show ?thesis
      proof (cases "string_find entry (quoted ''url'') 0 = None")
        case True
        with a e "1.prems" "1.IH"(2) [OF a e entry_def] show ?thesis
          by (simp add: parse_entries.simps [of cfg start] entry_def)
      next
        case False
        show ?thesis
        proof (cases "parse_stream_id entry counter")
          case None
          with a e False "1.prems" show ?thesis
            by (simp add: parse_entries.simps [of cfg start] entry_def)
        next
          case (Some sid)
          have r: "parse_entries cfg (e + 1) (counter + 1) (?new entry sid) = Some cs"
            using a e False Some "1.prems"(1)
            by (simp add: parse_entries.simps [of cfg start] entry_def Let_def split: if_splits)
          show ?thesis
            by (rule "1.IH"(1) [OF a e entry_def False Some refl r new])
        qed
      qed
    qed
  qed
qed

text \<open>
  What the parser accepts is an ordered map from stream numbers to streams with that number and a URL.
  The retry limit and the forwarding of audio have their default values in every stream, since nothing
  reads them from the text.
\<close>
lemma parse_configuration_ok:
  assumes "parse_configuration json_config [] = Some (ok, cs)"
  shows "config_ok cs \<and> (ok \<longleftrightarrow> cs \<noteq> [])"
proof -
  have e: "config_ok []" by (simp add: config_ok_def)
  show ?thesis
    using assms parse_entries_ok [OF _ e] config_ok_set [OF e]
    by (auto simp: parse_configuration_def Let_def StreamConfig_init_def e split: option.splits if_splits)
qed

text \<open>\<open>hw_decode\<close> is true as soon as any later member is true.\<close>

lemma hw_decode_reads_later_member:
  "rc_hw_decode (parse_stream (quoted ''hw_decode'' @ '': false, '' @ quoted ''forward_audio'' @ '': true'')
     StreamConfig_init)"
  by code_simp

end
