(* ===== verification/Rtsp_Capture.thy ===== *)
theory Rtsp_Capture
  imports Rtsp_Config Frame_Header
begin

text \<open>
  The RTSP input, plugins/capture_rtsp_multi: the streams of \<open>StreamManager\<close>, their capture loop with
  reconnection, and the frames and events it publishes. What FFmpeg returns is an argument: the outcome
  of the calls of one connection attempt, and the packet or error of one read. The host's callbacks are
  the actions of the result; the manager always has a host with all callbacks.
\<close>

section \<open>What FFmpeg delivers\<close>

datatype media_type = MediaVideo | MediaAudio | MediaOther

text \<open>The members of \<open>AVCodecParameters\<close> that are used, and a stream with its time base.\<close>

record AVCodecParameters =
  co_codec_id :: int
  co_extradata :: bytes
  co_width :: int
  co_height :: int
  co_format :: int
  co_profile :: int
  co_level :: int
  co_sample_rate :: int
  co_channels :: int

record AVStream =
  as_media :: media_type
  as_time_base :: "int \<times> int"
  as_codecpar :: AVCodecParameters

text \<open>A packet; \<open>pts\<close> and \<open>dts\<close> are \<open>None\<close> for \<open>AV_NOPTS_VALUE\<close>.\<close>

record RtspPacket =
  vp_stream_index :: int
  vp_data :: "bytes option"
  vp_address :: u64
  vp_key :: bool
  vp_pts :: "int option"
  vp_dts :: "int option"

definition vp_size :: "RtspPacket \<Rightarrow> nat" where
  "vp_size p = (case vp_data p of None \<Rightarrow> 0 | Some d \<Rightarrow> length d)"

text \<open>Outcome of the calls of \<open>connect_stream\<close> in turn.\<close>

record connect_env =
  ce_alloc_context :: bool
  ce_open_input :: bool
  ce_stream_info :: "AVStream list option"
  ce_find_decoder :: bool
  ce_alloc_codec :: bool
  ce_codec_params :: bool
  ce_hw_device :: bool
  ce_open_codec :: bool
  ce_alloc_packet :: bool

datatype read_result = ReadPacket RtspPacket | ReadEof | ReadAgain | ReadError

text \<open>\<open>av_rescale_q\<close> to microseconds and \<open>av_base64_encode\<close>.\<close>

record av_lib =
  av_rescale :: "int \<Rightarrow> int \<times> int \<Rightarrow> int"
  av_b64 :: "bytes \<Rightarrow> string"

section \<open>State\<close>

record StreamState =
  rs_stream_id :: u32
  rs_fmt_ctx :: "AVStream list option"     \<comment> \<open>its streams\<close>
  rs_codec_ctx :: bool
  rs_packet :: bool
  rs_hw_device_ctx :: bool
  rs_video_stream_index :: int
  rs_audio_stream_index :: int
  rs_running :: bool
  rs_connected :: bool
  rs_capture_thread :: bool                \<comment> \<open>joinable\<close>
  rs_retry_count :: int
  rs_current_retry_delay_ms :: int
  rs_frames_captured :: u64
  rs_packets_dropped :: u64

definition StreamState_init :: StreamState where
  "StreamState_init = \<lparr>rs_stream_id = 0, rs_fmt_ctx = None, rs_codec_ctx = False, rs_packet = False,
     rs_hw_device_ctx = False, rs_video_stream_index = - 1, rs_audio_stream_index = - 1, rs_running = False,
     rs_connected = False, rs_capture_thread = False, rs_retry_count = 0, rs_current_retry_delay_ms = 1000,
     rs_frames_captured = 0, rs_packets_dropped = 0\<rparr>"

datatype rtsp_act =
    EvStreamConnected u32 string int int
  | EvStreamMetadata u32 AVCodecParameters string
  | EvStreamReconnecting u32
  | EvStreamDisconnected u32
  | FrameOut bytes
  | SleepMs int
  | SleepUs nat

text \<open>The texts of the published events.\<close>

definition json_member :: "string \<Rightarrow> string \<Rightarrow> string" where
  "json_member key value = quoted key @ '':'' @ value"

definition metadata_text :: "av_lib \<Rightarrow> u32 \<Rightarrow> AVCodecParameters \<Rightarrow> string \<Rightarrow> string" where
  "metadata_text A sid c media =
     ''{'' @ json_member ''event'' (quoted ''StreamMetadata'') @ '','' @ json_member ''media'' (quoted media) @
     '','' @ json_member ''stream_id'' (to_string (uint sid)) @
     '','' @ json_member ''codec_id'' (to_string (co_codec_id c)) @
     '','' @ json_member ''width'' (to_string (co_width c)) @
     '','' @ json_member ''height'' (to_string (co_height c)) @
     '','' @ json_member ''pix_fmt'' (to_string (co_format c)) @
     '','' @ json_member ''profile'' (to_string (co_profile c)) @
     '','' @ json_member ''level'' (to_string (co_level c)) @
     '','' @ json_member ''sample_rate'' (to_string (co_sample_rate c)) @
     '','' @ json_member ''channels'' (to_string (co_channels c)) @
     '','' @ json_member ''extradata'' (quoted (if co_extradata c = [] then [] else av_b64 A (co_extradata c))) @ ''}''"

definition rtsp_event_text :: "av_lib \<Rightarrow> rtsp_act \<Rightarrow> string option" where
  "rtsp_event_text A act =
     (case act of
        EvStreamConnected sid url video audio \<Rightarrow> Some (snprintf_cut 512
          (''{'' @ json_member ''event'' (quoted ''StreamConnected'') @ '','' @
           json_member ''stream_id'' (to_string (uint sid)) @ '','' @ json_member ''url'' (quoted url) @ '','' @
           json_member ''video_streams'' (to_string video) @ '','' @
           json_member ''audio_streams'' (to_string audio) @ ''}''))
      | EvStreamMetadata sid c media \<Rightarrow> Some (metadata_text A sid c media)
      | EvStreamReconnecting sid \<Rightarrow> Some (snprintf_cut 256
          (''{'' @ json_member ''event'' (quoted ''StreamReconnecting'') @ '','' @
           json_member ''stream_id'' (to_string (uint sid)) @ ''}''))
      | EvStreamDisconnected sid \<Rightarrow> Some (snprintf_cut 512
          (''{'' @ json_member ''event'' (quoted ''StreamDisconnected'') @ '','' @
           json_member ''stream_id'' (to_string (uint sid)) @ ''}''))
      | _ \<Rightarrow> None)"

section \<open>Connecting\<close>

text \<open>The first stream of a type, counted from \<open>i\<close>; -1 when there is none.\<close>

fun first_stream :: "media_type \<Rightarrow> int \<Rightarrow> AVStream list \<Rightarrow> int" where
  "first_stream t i [] = - 1"
| "first_stream t i (s # ss) = (if as_media s = t then i else first_stream t (i + 1) ss)"

definition count_streams :: "media_type \<Rightarrow> AVStream list \<Rightarrow> int" where
  "count_streams t ss = int (length (filter (\<lambda>s. as_media s = t) ss))"

text \<open>
  \<open>avformat_open_input\<close> frees the context when it fails. With \<open>hw_decode\<close> on Linux the preferred device
  type is VAAPI, never none; the result of \<open>init_hardware_acceleration\<close> is ignored.
\<close>

definition connect_stream ::
  "StreamConfig \<Rightarrow> connect_env \<Rightarrow> StreamState \<Rightarrow> StreamState \<times> bool \<times> rtsp_act list" where
  "connect_stream cfg E st =
     (let st = st\<lparr>rs_fmt_ctx := None, rs_codec_ctx := False\<rparr> in
      if \<not> ce_alloc_context E \<or> \<not> ce_open_input E then (st, False, [])
      else case ce_stream_info E of
        None \<Rightarrow> (st\<lparr>rs_fmt_ctx := Some []\<rparr>, False, [])
      | Some streams \<Rightarrow>
          let video = first_stream MediaVideo 0 streams;
              audio = first_stream MediaAudio 0 streams;
              st = st\<lparr>rs_fmt_ctx := Some streams, rs_video_stream_index := video,
                      rs_audio_stream_index := audio\<rparr> in
          if video = - 1 then (st, False, [])
          else if \<not> ce_find_decoder E then (st, False, [])
          else if \<not> ce_alloc_codec E then (st, False, [])
          else let st = st\<lparr>rs_codec_ctx := True\<rparr> in
          if \<not> ce_codec_params E then (st, False, [])
          else let st = (if rc_hw_decode cfg \<and> ce_hw_device E then st\<lparr>rs_hw_device_ctx := True\<rparr> else st) in
          if \<not> ce_open_codec E then (st, False, [])
          else if \<not> ce_alloc_packet E then (st\<lparr>rs_packet := False\<rparr>, False, [])
          else (st\<lparr>rs_packet := True\<rparr>, True,
                [EvStreamConnected (rc_stream_id cfg) (rc_url cfg) (count_streams MediaVideo streams)
                   (count_streams MediaAudio streams),
                 EvStreamMetadata (rc_stream_id cfg) (as_codecpar (streams ! nat video)) ''video''] @
                (if rc_forward_audio cfg \<and> audio \<ge> 0
                 then [EvStreamMetadata (rc_stream_id cfg) (as_codecpar (streams ! nat audio)) ''audio'']
                 else [])))"

definition handle_stream_disconnect :: "StreamState \<Rightarrow> StreamState \<times> rtsp_act list" where
  "handle_stream_disconnect st =
     (st\<lparr>rs_connected := False, rs_codec_ctx := False, rs_fmt_ctx := None, rs_packet := False\<rparr>,
      [EvStreamDisconnected (rs_stream_id st)])"

section \<open>Frames\<close>

definition stream_time_base :: "StreamState \<Rightarrow> int \<Rightarrow> int \<times> int" where
  "stream_time_base st i = (case rs_fmt_ctx st of None \<Rightarrow> (0, 0) | Some ss \<Rightarrow> as_time_base (ss ! nat i))"

definition frame_of_packet :: "u32 \<Rightarrow> u32 \<Rightarrow> u32 \<Rightarrow> int \<Rightarrow> RtspPacket \<Rightarrow> bytes" where
  "frame_of_packet sid hw_type flags pts p =
     frame_hdr_bytes \<lparr>fh_stream_id = sid, fh_hw_type = hw_type, fh_handle = vp_address p,
       fh_bytes = of_nat (vp_size p), fh_flags = flags, fh_pts_usec = of_int pts\<rparr> @
     (case vp_data p of None \<Rightarrow> [] | Some d \<Rightarrow> d)"

definition video_pts :: "av_lib \<Rightarrow> int \<times> int \<Rightarrow> int \<Rightarrow> RtspPacket \<Rightarrow> int" where
  "video_pts A time_base now p =
     (if vp_pts p \<noteq> None \<and> snd time_base > 0 then av_rescale A (the (vp_pts p)) time_base
      else if vp_dts p \<noteq> None \<and> snd time_base > 0 then av_rescale A (the (vp_dts p)) time_base
      else now)"

definition audio_pts :: "av_lib \<Rightarrow> int \<times> int \<Rightarrow> int \<Rightarrow> RtspPacket \<Rightarrow> int" where
  "audio_pts A time_base now p =
     (case (if vp_pts p \<noteq> None then vp_pts p else vp_dts p) of
        None \<Rightarrow> now | Some pts \<Rightarrow> av_rescale A pts time_base)"

text \<open>The tests on the first bytes all end with a valid frame; only the size counts.\<close>

definition process_and_publish_frame ::
  "av_lib \<Rightarrow> int \<Rightarrow> StreamConfig \<Rightarrow> RtspPacket \<Rightarrow> StreamState \<Rightarrow> rtsp_act list" where
  "process_and_publish_frame A now cfg p st =
     (if \<not> rs_packet st then []
      else if vp_data p = None \<or> vp_size p = 0 then []
      else if vp_size p > 10 * 1024 * 1024 then []
      else if vp_size p \<ge> 4
      then [FrameOut (frame_of_packet (rc_stream_id cfg) ZM_FRAME_COMPRESSED (if vp_key p then 1 else 0)
              (video_pts A (stream_time_base st (rs_video_stream_index st)) now p) p)]
      else [])"

definition publish_audio_packet ::
  "av_lib \<Rightarrow> int \<Rightarrow> StreamConfig \<Rightarrow> RtspPacket \<Rightarrow> StreamState \<Rightarrow> rtsp_act list" where
  "publish_audio_packet A now cfg p st =
     (if \<not> rs_packet st then []
      else [FrameOut (frame_of_packet (rc_stream_id cfg) ZM_FRAME_COMPRESSED_AUDIO 0
              (audio_pts A (stream_time_base st (rs_audio_stream_index st)) now p) p)])"

section \<open>The capture loop\<close>

definition MIN_RECONNECT_DELAY_MS :: int where "MIN_RECONNECT_DELAY_MS = 1000"
definition MAX_RECONNECT_DELAY_MS :: int where "MAX_RECONNECT_DELAY_MS = 30000"

text \<open>What one turn of the loop meets: a connection attempt, the jitter, a read, the clock.\<close>

record turn_env =
  te_connect :: connect_env
  te_jitter :: int
  te_read :: read_result
  te_now :: int

definition retry_delay :: "int \<Rightarrow> int \<Rightarrow> int" where
  "retry_delay current jitter = max (min current MAX_RECONNECT_DELAY_MS + jitter) MIN_RECONNECT_DELAY_MS"

definition read_and_publish ::
  "av_lib \<Rightarrow> StreamConfig \<Rightarrow> turn_env \<Rightarrow> StreamState \<Rightarrow> StreamState \<times> rtsp_act list" where
  "read_and_publish A cfg E st =
     (if rs_connected st \<and> rs_fmt_ctx st \<noteq> None then
        (case te_read E of
           ReadPacket p \<Rightarrow>
             (if vp_stream_index p = rs_video_stream_index st
              then (st\<lparr>rs_frames_captured := rs_frames_captured st + 1\<rparr>,
                    process_and_publish_frame A (te_now E) cfg p st @ [SleepUs 100])
              else if rc_forward_audio cfg \<and> vp_stream_index p = rs_audio_stream_index st
              then (st, publish_audio_packet A (te_now E) cfg p st @ [SleepUs 100])
              else (st, [SleepUs 100]))
         | ReadEof \<Rightarrow> handle_stream_disconnect st
         | ReadAgain \<Rightarrow> (st, [SleepMs 1])
         | ReadError \<Rightarrow>
             (case handle_stream_disconnect st of (st, a) \<Rightarrow> (st, EvStreamReconnecting (rs_stream_id st) # a)))
      else (st, [SleepMs 100]))"

text \<open>One turn of \<open>while (state->running)\<close>; the last component is whether the loop goes on.\<close>

definition capture_loop_turn ::
  "av_lib \<Rightarrow> StreamConfig \<Rightarrow> turn_env \<Rightarrow> StreamState \<Rightarrow> StreamState \<times> rtsp_act list \<times> bool" where
  "capture_loop_turn A cfg E st =
     (if \<not> rs_running st then (st, [], False)
      else if \<not> rs_connected st then
        (case connect_stream cfg (te_connect E) st of
           (st, ok, a) \<Rightarrow>
             if ok then
               (case read_and_publish A cfg E (st\<lparr>rs_connected := True, rs_retry_count := 0,
                       rs_current_retry_delay_ms := MIN_RECONNECT_DELAY_MS\<rparr>) of
                  (st, b) \<Rightarrow> (st, a @ b @ [SleepMs 1], True))
             else
               let st = st\<lparr>rs_retry_count := rs_retry_count st + 1\<rparr> in
               if rc_max_retry_attempts cfg > 0 \<and> rs_retry_count st \<ge> rc_max_retry_attempts cfg
               then (st, a, False)
               else (st\<lparr>rs_current_retry_delay_ms := min (rs_current_retry_delay_ms st * 2) MAX_RECONNECT_DELAY_MS\<rparr>,
                     a @ [SleepMs (retry_delay (rs_current_retry_delay_ms st) (te_jitter E))], True))
      else (case read_and_publish A cfg E st of (st, b) \<Rightarrow> (st, b @ [SleepMs 1], True)))"

fun capture_loop ::
  "av_lib \<Rightarrow> StreamConfig \<Rightarrow> turn_env list \<Rightarrow> StreamState \<Rightarrow> StreamState \<times> rtsp_act list \<times> bool" where
  "capture_loop A cfg [] st = (st, [], True)"
| "capture_loop A cfg (E # Es) st =
     (case capture_loop_turn A cfg E st of
        (st1, a, go) \<Rightarrow>
          if go then (case capture_loop A cfg Es st1 of (st2, b, go') \<Rightarrow> (st2, a @ b, go'))
          else (st1, a, False))"

section \<open>The manager\<close>

record StreamManager =
  sm_configs :: "(u32 \<times> StreamConfig) list"
  sm_states :: "(u32 \<times> StreamState) list"

definition setup_stream :: "u32 \<Rightarrow> StreamManager \<Rightarrow> StreamManager \<times> bool" where
  "setup_stream sid sm =
     (case map_of (sm_configs sm) sid of
        None \<Rightarrow> (sm, False)
      | Some _ \<Rightarrow> (sm\<lparr>sm_states := omap_set sid (StreamState_init\<lparr>rs_stream_id := sid\<rparr>) (sm_states sm)\<rparr>, True))"

fun start_streams :: "u32 list \<Rightarrow> StreamManager \<Rightarrow> StreamManager \<times> bool" where
  "start_streams [] sm = (sm, True)"
| "start_streams (sid # sids) sm =
     (case setup_stream sid sm of
        (sm1, ok) \<Rightarrow>
          if ok then
            (case map_of (sm_states sm1) sid of
               None \<Rightarrow> (sm1, False)
             | Some st \<Rightarrow> start_streams sids
                 (sm1\<lparr>sm_states := omap_set sid (st\<lparr>rs_running := True, rs_capture_thread := True\<rparr>) (sm_states sm1)\<rparr>))
          else (fst (start_streams sids sm1), False))"

definition start_all_streams :: "StreamManager \<Rightarrow> StreamManager \<times> bool" where
  "start_all_streams sm = start_streams (map fst (sm_configs sm)) sm"

text \<open>
  \<open>None\<close>: \<open>hw_device_ctx\<close> points to the device's data and not to an \<open>AVBufferRef\<close>, and is released as one.
\<close>

definition cleanup_stream :: "StreamState \<Rightarrow> StreamState option" where
  "cleanup_stream st =
     (let st = st\<lparr>rs_packet := False, rs_codec_ctx := False, rs_fmt_ctx := None\<rparr> in
      if rs_hw_device_ctx st then None else Some st)"

text \<open>The thread of a stream ends before the join returns, since \<open>running\<close> is false.\<close>

fun stop_streams :: "(u32 \<times> StreamState) list \<Rightarrow> unit option" where
  "stop_streams [] = Some ()"
| "stop_streams ((sid, st) # rest) =
     (case cleanup_stream (st\<lparr>rs_running := False, rs_capture_thread := False\<rparr>) of
        None \<Rightarrow> None | Some _ \<Rightarrow> stop_streams rest)"

definition stop_all_streams :: "StreamManager \<Rightarrow> StreamManager option" where
  "stop_all_streams sm = map_option (\<lambda>_. sm\<lparr>sm_states := []\<rparr>) (stop_streams (sm_states sm))"

definition add_stream :: "StreamConfig \<Rightarrow> StreamManager \<Rightarrow> StreamManager \<times> bool" where
  "add_stream cfg sm =
     (if map_of (sm_configs sm) (rc_stream_id cfg) \<noteq> None then (sm, False)
      else (sm\<lparr>sm_configs := omap_set (rc_stream_id cfg) cfg (sm_configs sm)\<rparr>, True))"

abbreviation omap_erase :: "'k \<Rightarrow> ('k \<times> 'v) list \<Rightarrow> ('k \<times> 'v) list" where
  "omap_erase k m \<equiv> filter (\<lambda>p. fst p \<noteq> k) m"

definition remove_stream :: "u32 \<Rightarrow> StreamManager \<Rightarrow> (StreamManager \<times> bool) option" where
  "remove_stream sid sm =
     map_option (\<lambda>sm.
       (sm\<lparr>sm_configs := omap_erase sid (sm_configs sm)\<rparr>, map_of (sm_configs sm) sid \<noteq> None))
     (case map_of (sm_states sm) sid of
        None \<Rightarrow> Some sm
      | Some st \<Rightarrow>
          map_option (\<lambda>_. sm\<lparr>sm_states := omap_erase sid (sm_states sm)\<rparr>)
            (cleanup_stream (st\<lparr>rs_running := False, rs_capture_thread := False\<rparr>)))"

definition get_stream_count :: "StreamManager \<Rightarrow> nat" where
  "get_stream_count sm = length (sm_configs sm)"

definition is_stream_connected :: "u32 \<Rightarrow> StreamManager \<Rightarrow> bool" where
  "is_stream_connected sid sm =
     (case map_of (sm_states sm) sid of None \<Rightarrow> False | Some st \<Rightarrow> rs_connected st)"

definition get_active_stream_ids :: "StreamManager \<Rightarrow> u32 list" where
  "get_active_stream_ids sm = map fst (sm_configs sm)"

record StreamStats =
  ss_stream_id :: u32
  ss_connected :: bool
  ss_frames_captured :: u64
  ss_packets_dropped :: u64
  ss_retry_count :: int

definition get_stream_statistics :: "StreamManager \<Rightarrow> StreamStats list" where
  "get_stream_statistics sm =
     map (\<lambda>(sid, _). case map_of (sm_states sm) sid of
        None \<Rightarrow> \<lparr>ss_stream_id = sid, ss_connected = False, ss_frames_captured = 0, ss_packets_dropped = 0,
                 ss_retry_count = 0\<rparr>
      | Some st \<Rightarrow> \<lparr>ss_stream_id = sid, ss_connected = rs_connected st,
          ss_frames_captured = rs_frames_captured st, ss_packets_dropped = rs_packets_dropped st,
          ss_retry_count = rs_retry_count st\<rparr>) (sm_configs sm)"

section \<open>The plugin\<close>

text \<open>
  \<open>None\<close> is the exception of the parser. The result is the new instance, \<open>None\<close> when the start fails; the
  manager of a failed start is destroyed.
\<close>

definition rtsp_multi_start :: "string option \<Rightarrow> StreamManager option option" where
  "rtsp_multi_start json_cfg =
     (if json_cfg = None then Some None
      else map_option (\<lambda>(ok, configs).
        if \<not> ok then None
        else (case start_all_streams \<lparr>sm_configs = configs, sm_states = []\<rparr> of
                (sm, started) \<Rightarrow> if started then Some sm else None))
      (parse_configuration json_cfg []))"

definition rtsp_multi_stop :: "StreamManager option \<Rightarrow> unit option" where
  "rtsp_multi_stop instance =
     (case instance of None \<Rightarrow> Some () | Some sm \<Rightarrow> map_option (\<lambda>_. ()) (stop_all_streams sm))"

end
