(* ===== verification/Rtsp_Properties.thy ===== *)
theory Rtsp_Properties
  imports Rtsp_Capture
begin

text \<open>
  Properties of the RTSP input: the order of its events and frames around connections, the state that
  the reads rely on, and the delays between connection attempts.
\<close>

section \<open>Connecting\<close>

lemma first_stream_found:
  assumes "i \<ge> 0" and "first_stream t i ss \<noteq> - 1"
  shows "i \<le> first_stream t i ss \<and> nat (first_stream t i ss - i) < length ss \<and>
    as_media (ss ! nat (first_stream t i ss - i)) = t"
  using assms
proof (induction t i ss rule: first_stream.induct)
  case (2 t i s ss)
  show ?case
  proof (cases "as_media s = t")
    case False
    then have "i + 1 \<le> first_stream t (i + 1) ss" "nat (first_stream t (i + 1) ss - (i + 1)) < length ss"
      "as_media (ss ! nat (first_stream t (i + 1) ss - (i + 1))) = t"
      using 2 by auto
    moreover have "nat (first_stream t (i + 1) ss - i) = Suc (nat (first_stream t (i + 1) ss - (i + 1)))"
      using calculation(1) by linarith
    ultimately show ?thesis using False by simp
  qed (use 2 in simp)
qed simp

definition connects :: "connect_env \<Rightarrow> bool" where
  "connects E \<longleftrightarrow> ce_alloc_context E \<and> ce_open_input E \<and>
     (case ce_stream_info E of None \<Rightarrow> False | Some ss \<Rightarrow> first_stream MediaVideo 0 ss \<noteq> - 1) \<and>
     ce_find_decoder E \<and> ce_alloc_codec E \<and> ce_codec_params E \<and> ce_open_codec E \<and> ce_alloc_packet E"

text \<open>A stream whose reads and frames use no null pointer and no index out of range.\<close>

definition stream_ready :: "StreamState \<Rightarrow> bool" where
  "stream_ready st \<longleftrightarrow> rs_codec_ctx st \<and> rs_packet st \<and>
     (\<exists>ss. rs_fmt_ctx st = Some ss \<and> 0 \<le> rs_video_stream_index st \<and>
       nat (rs_video_stream_index st) < length ss \<and>
       as_media (ss ! nat (rs_video_stream_index st)) = MediaVideo \<and>
       (rs_audio_stream_index st = - 1 \<or> 0 \<le> rs_audio_stream_index st \<and>
         nat (rs_audio_stream_index st) < length ss \<and> as_media (ss ! nat (rs_audio_stream_index st)) = MediaAudio))"

lemma connect_stream_fails:
  assumes "\<not> connects E"
  shows "\<exists>st'. connect_stream cfg E st = (st', False, []) \<and> rs_running st' = rs_running st \<and>
    rs_connected st' = rs_connected st \<and> rs_retry_count st' = rs_retry_count st \<and>
    rs_current_retry_delay_ms st' = rs_current_retry_delay_ms st \<and> rs_stream_id st' = rs_stream_id st"
  using assms by (auto simp: connect_stream_def connects_def Let_def split: option.split)

lemma connect_stream_succeeds:
  assumes "connects E"
  shows "\<exists>st' sid url v a ms. connect_stream cfg E st = (st', True, EvStreamConnected sid url v a # ms) \<and>
    (\<forall>x \<in> set ms. \<exists>sid c media. x = EvStreamMetadata sid c media) \<and> stream_ready st' \<and>
    rs_running st' = rs_running st \<and> rs_stream_id st' = rs_stream_id st"
proof -
  obtain ss where ss: "ce_stream_info E = Some ss" "first_stream MediaVideo 0 ss \<noteq> - 1"
    using assms by (auto simp: connects_def split: option.splits)
  have v: "0 \<le> first_stream MediaVideo 0 ss" "nat (first_stream MediaVideo 0 ss) < length ss"
    "as_media (ss ! nat (first_stream MediaVideo 0 ss)) = MediaVideo"
    using first_stream_found [of 0 MediaVideo ss] ss(2) by simp_all
  have a: "first_stream MediaAudio 0 ss = - 1 \<or> 0 \<le> first_stream MediaAudio 0 ss \<and>
      nat (first_stream MediaAudio 0 ss) < length ss \<and> as_media (ss ! nat (first_stream MediaAudio 0 ss)) = MediaAudio"
    using first_stream_found [of 0 MediaAudio ss] by auto
  show ?thesis
    using assms ss v a by (auto simp: connect_stream_def connects_def Let_def stream_ready_def)
qed

section \<open>Events and frames\<close>

text \<open>
  The run of events from a state that is connected or not: \<open>None\<close> when a frame, a metadata event or a
  disconnection comes without a connection, or a second connection without a disconnection.
\<close>

fun conn_trace :: "bool \<Rightarrow> rtsp_act list \<Rightarrow> bool option" where
  "conn_trace c [] = Some c"
| "conn_trace c (x # xs) =
     (case x of
        EvStreamConnected _ _ _ _ \<Rightarrow> if c then None else conn_trace True xs
      | EvStreamDisconnected _ \<Rightarrow> if c then conn_trace False xs else None
      | SleepMs _ \<Rightarrow> conn_trace c xs
      | SleepUs _ \<Rightarrow> conn_trace c xs
      | _ \<Rightarrow> if c then conn_trace c xs else None)"

lemma conn_trace_append: "conn_trace c (xs @ ys) = Option.bind (conn_trace c xs) (\<lambda>c. conn_trace c ys)"
  by (induction c xs rule: conn_trace.induct) (auto split: rtsp_act.split)

lemma conn_trace_metadata:
  "\<forall>x \<in> set ms. \<exists>sid c media. x = EvStreamMetadata sid c media \<Longrightarrow> conn_trace True ms = Some True"
  by (induction ms) auto

definition stream_ok :: "StreamState \<Rightarrow> bool" where
  "stream_ok st \<longleftrightarrow> (rs_connected st \<longrightarrow> stream_ready st)"

lemma read_and_publish_trace:
  assumes "stream_ready st" and "rs_connected st" and "read_and_publish A cfg E st = (st', acts)"
  shows "conn_trace True acts = Some (rs_connected st') \<and> stream_ok st' \<and> rs_running st' = rs_running st"
proof -
  have "rs_fmt_ctx st \<noteq> None" "rs_packet st" using assms(1) by (auto simp: stream_ready_def)
  then show ?thesis
    using assms
    by (cases "te_read E")
      (auto simp: read_and_publish_def process_and_publish_frame_def publish_audio_packet_def
        handle_stream_disconnect_def stream_ok_def stream_ready_def split: if_splits)
qed

lemma capture_loop_turn_trace:
  assumes "stream_ok st" and "capture_loop_turn A cfg E st = (st', acts, go)"
  shows "conn_trace (rs_connected st) acts = Some (rs_connected st') \<and> stream_ok st'"
proof (cases "rs_running st")
  case False
  then show ?thesis using assms by (simp add: capture_loop_turn_def)
next
  case run: True
  show ?thesis
  proof (cases "rs_connected st")
    case True
    obtain st1 b where r: "read_and_publish A cfg E st = (st1, b)" by (cases "read_and_publish A cfg E st")
    have "stream_ready st" using assms(1) True by (simp add: stream_ok_def)
    from read_and_publish_trace [OF this True r] show ?thesis
      using assms(2) run True r by (auto simp: capture_loop_turn_def conn_trace_append)
  next
    case dis: False
    show ?thesis
    proof (cases "connects (te_connect E)")
      case False
      from connect_stream_fails [OF this, of cfg st] obtain st1
        where "connect_stream cfg (te_connect E) st = (st1, False, [])" "rs_connected st1 = rs_connected st" by blast
      then show ?thesis
        using assms(2) run dis by (auto simp: capture_loop_turn_def Let_def stream_ok_def split: if_splits)
    next
      case True
      from connect_stream_succeeds [OF this, of cfg st] obtain st1 sid url v a ms
        where c: "connect_stream cfg (te_connect E) st = (st1, True, EvStreamConnected sid url v a # ms)"
          and ms: "\<forall>x \<in> set ms. \<exists>sid c media. x = EvStreamMetadata sid c media" and rdy: "stream_ready st1"
        by blast
      let ?st = "st1\<lparr>rs_connected := True, rs_retry_count := 0,
        rs_current_retry_delay_ms := MIN_RECONNECT_DELAY_MS\<rparr>"
      obtain st2 b where r: "read_and_publish A cfg E ?st = (st2, b)" by (cases "read_and_publish A cfg E ?st")
      have "stream_ready ?st" using rdy by (simp add: stream_ready_def)
      from read_and_publish_trace [OF this _ r] show ?thesis
        using assms(2) run dis c r conn_trace_metadata [OF ms]
        by (auto simp: capture_loop_turn_def conn_trace_append)
    qed
  qed
qed

lemma capture_loop_trace:
  "\<lbrakk>stream_ok st; capture_loop A cfg Es st = (st', acts, go)\<rbrakk>
    \<Longrightarrow> conn_trace (rs_connected st) acts = Some (rs_connected st') \<and> stream_ok st'"
proof (induction Es arbitrary: st acts st' go)
  case (Cons E Es)
  obtain st1 a go1 where t: "capture_loop_turn A cfg E st = (st1, a, go1)" by (cases "capture_loop_turn A cfg E st") auto
  note tt = capture_loop_turn_trace [OF Cons.prems(1) t]
  show ?case
  proof (cases go1)
    case True
    obtain st2 b go2 where r: "capture_loop A cfg Es st1 = (st2, b, go2)" by (cases "capture_loop A cfg Es st1") auto
    from Cons.IH [OF conjunct2 [OF tt] r] show ?thesis
      using tt t r True Cons.prems(2) by (auto simp: conn_trace_append)
  next
    case False
    then show ?thesis using tt t Cons.prems(2) by auto
  qed
qed simp

text \<open>
  C11. Whatever FFmpeg does over any number of turns: the events of a stream are connections and
  disconnections in turn, and frames, metadata and reconnection events come only between a connection
  and its disconnection; whenever the stream is connected its contexts and its packet are there, and the
  indices of its video and audio streams are valid and of the right type.
\<close>
theorem rtsp_connection_protocol:
  assumes "rs_connected st = False" and "capture_loop A cfg Es st = (st', acts, go)"
  shows "conn_trace False acts = Some (rs_connected st') \<and> (rs_connected st' \<longrightarrow> stream_ready st')"
  using capture_loop_trace [OF _ assms(2)] assms(1) by (simp add: stream_ok_def)

definition demo_par :: AVCodecParameters where
  "demo_par = \<lparr>co_codec_id = 27, co_extradata = [], co_width = 640, co_height = 480, co_format = 0,
     co_profile = 66, co_level = 30, co_sample_rate = 0, co_channels = 0\<rparr>"

definition demo_connect :: connect_env where
  "demo_connect = \<lparr>ce_alloc_context = True, ce_open_input = True,
     ce_stream_info = Some [\<lparr>as_media = MediaVideo, as_time_base = (1, 90000), as_codecpar = demo_par\<rparr>],
     ce_find_decoder = True, ce_alloc_codec = True, ce_codec_params = True, ce_hw_device = False,
     ce_open_codec = True, ce_alloc_packet = True\<rparr>"

definition demo_lib :: av_lib where
  "demo_lib = \<lparr>av_rescale = (\<lambda>t tb. t * 1000000 * fst tb div snd tb), av_b64 = (\<lambda>b. [])\<rparr>"

definition demo_stream :: StreamState where
  "demo_stream = StreamState_init\<lparr>rs_running := True\<rparr>"

definition demo_cfg :: StreamConfig where
  "demo_cfg = StreamConfig_init\<lparr>rc_url := ''rtsp://cam''\<rparr>"

theorem rtsp_connection_protocol_witness:
  "\<exists>st' acts. capture_loop demo_lib demo_cfg
       [\<lparr>te_connect = demo_connect, te_jitter = 0, te_read = ReadAgain, te_now = 5\<rparr>,
        \<lparr>te_connect = demo_connect, te_jitter = 0, te_read = ReadEof, te_now = 6\<rparr>] demo_stream = (st', acts, True) \<and>
     conn_trace False acts = Some False \<and> length acts = 6"
proof -
  let ?Es = "[\<lparr>te_connect = demo_connect, te_jitter = 0, te_read = ReadAgain, te_now = 5\<rparr>,
    \<lparr>te_connect = demo_connect, te_jitter = 0, te_read = ReadEof, te_now = 6\<rparr>]"
  obtain st' acts go where r: "capture_loop demo_lib demo_cfg ?Es demo_stream = (st', acts, go)"
    by (cases "capture_loop demo_lib demo_cfg ?Es demo_stream") auto
  have "rs_connected st' = False \<and> length acts = 6 \<and> go"
    using r by (auto simp: demo_stream_def StreamState_init_def capture_loop_turn_def connect_stream_def
        demo_connect_def demo_cfg_def StreamConfig_init_def read_and_publish_def handle_stream_disconnect_def)
  moreover have "rs_connected demo_stream = False" by (simp add: demo_stream_def StreamState_init_def)
  ultimately show ?thesis using rtsp_connection_protocol [OF _ r] r by auto
qed

section \<open>Delays between attempts\<close>

definition backoff_delay :: "nat \<Rightarrow> int \<Rightarrow> int" where
  "backoff_delay i jitter = max (min (1000 * 2 ^ i) 30000 + jitter) 1000"

lemma failing_turn:
  assumes "rs_running st" and "\<not> rs_connected st" and "\<not> connects (te_connect E)"
    and "rs_retry_count st = int r" and "rs_current_retry_delay_ms st = min (1000 * 2 ^ r) 30000"
  shows "\<exists>st'. capture_loop_turn A cfg E st =
      (if rc_max_retry_attempts cfg > 0 \<and> int r + 1 \<ge> rc_max_retry_attempts cfg then (st', [], False)
       else (st', [SleepMs (backoff_delay r (te_jitter E))], True)) \<and>
    rs_running st' \<and> \<not> rs_connected st' \<and> rs_retry_count st' = int (Suc r) \<and>
    (rc_max_retry_attempts cfg > 0 \<and> int r + 1 \<ge> rc_max_retry_attempts cfg \<or>
      rs_current_retry_delay_ms st' = min (1000 * 2 ^ Suc r) 30000)"
proof -
  from connect_stream_fails [OF assms(3), of cfg st] obtain st1
    where c: "connect_stream cfg (te_connect E) st = (st1, False, [])" "rs_running st1 = rs_running st"
      "rs_connected st1 = rs_connected st" "rs_retry_count st1 = rs_retry_count st"
      "rs_current_retry_delay_ms st1 = rs_current_retry_delay_ms st" by blast
  have d: "min (min (1000 * 2 ^ r) 30000 * 2) 30000 = min (1000 * 2 ^ Suc r) (30000 :: int)" by (simp add: min_def)
  show ?thesis
    using assms c d
    by (auto simp: capture_loop_turn_def Let_def retry_delay_def backoff_delay_def MAX_RECONNECT_DELAY_MS_def
        MIN_RECONNECT_DELAY_MS_def add.commute)
qed

lemma failing_loop:
  assumes "rs_running st" and "\<not> rs_connected st" and "\<forall>E \<in> set Es. \<not> connects (te_connect E)"
    and "rs_retry_count st = int r" and "rs_current_retry_delay_ms st = min (1000 * 2 ^ r) 30000"
    and "rc_max_retry_attempts cfg > 0 \<Longrightarrow> r < nat (rc_max_retry_attempts cfg)"
  shows "\<exists>st'. capture_loop A cfg Es st =
    (st', map (\<lambda>i. SleepMs (backoff_delay (r + i) (te_jitter (Es ! i))))
       [0..<if rc_max_retry_attempts cfg > 0 then min (length Es) (nat (rc_max_retry_attempts cfg) - 1 - r) else length Es],
     rc_max_retry_attempts cfg \<le> 0 \<or> r + length Es < nat (rc_max_retry_attempts cfg))"
  using assms
proof (induction Es arbitrary: st r)
  case Nil
  then show ?case by (cases "0 < rc_max_retry_attempts cfg") simp_all
next
  case (Cons E Es)
  let ?m = "rc_max_retry_attempts cfg"
  have "\<not> connects (te_connect E)" using Cons.prems(3) by simp
  from failing_turn [OF Cons.prems(1,2) this Cons.prems(4,5), of A cfg] obtain st1
    where t: "capture_loop_turn A cfg E st =
        (if ?m > 0 \<and> int r + 1 \<ge> ?m then (st1, [], False)
         else (st1, [SleepMs (backoff_delay r (te_jitter E))], True))"
      and s: "rs_running st1" "\<not> rs_connected st1" "rs_retry_count st1 = int (Suc r)"
        "?m > 0 \<and> int r + 1 \<ge> ?m \<or> rs_current_retry_delay_ms st1 = min (1000 * 2 ^ Suc r) 30000"
    by blast
  show ?case
  proof (cases "?m > 0 \<and> int r + 1 \<ge> ?m")
    case True
    then have "nat ?m - 1 - r = 0" "\<not> r + length (E # Es) < nat ?m" by auto
    then show ?thesis using t True by simp
  next
    case False
    have "?m > 0 \<Longrightarrow> Suc r < nat ?m" using False by linarith
    with Cons.IH [OF s(1,2) _ s(3)] s(4) False Cons.prems(3) obtain st2
      where l: "capture_loop A cfg Es st1 =
        (st2, map (\<lambda>i. SleepMs (backoff_delay (Suc r + i) (te_jitter (Es ! i))))
           [0..<if ?m > 0 then min (length Es) (nat ?m - 1 - Suc r) else length Es],
         ?m \<le> 0 \<or> Suc r + length Es < nat ?m)" by auto
    have n: "(if ?m > 0 then min (length (E # Es)) (nat ?m - 1 - r) else length (E # Es)) =
      Suc (if ?m > 0 then min (length Es) (nat ?m - 1 - Suc r) else length Es)"
      using False by auto
    show ?thesis
      unfolding n using t l False
      by (auto simp: upt_conv_Cons map_Suc_upt [symmetric] simp del: upt_Suc)
  qed
qed

text \<open>
  C12. A stream that cannot connect: the delay before attempt \<open>i + 2\<close> is twice the one before, from one second
  up to thirty, give or take the jitter, and always between 1 and 30.2 seconds; with a limit of \<open>m\<close>
  attempts the loop sleeps \<open>m - 1\<close> times and ends with the \<open>m\<close>-th failure, without a limit it goes on.
\<close>
theorem rtsp_backoff:
  assumes "rs_running st" and "\<not> rs_connected st" and "rs_retry_count st = 0"
    and "rs_current_retry_delay_ms st = 1000" and "\<forall>E \<in> set Es. \<not> connects (te_connect E)"
    and "\<forall>E \<in> set Es. \<bar>te_jitter E\<bar> \<le> 200"
    and "k = (if rc_max_retry_attempts cfg > 0 then min (length Es) (nat (rc_max_retry_attempts cfg) - 1)
      else length Es)"
  shows "(\<exists>st'. capture_loop A cfg Es st =
      (st', map (\<lambda>i. SleepMs (backoff_delay i (te_jitter (Es ! i)))) [0..<k],
       rc_max_retry_attempts cfg \<le> 0 \<or> length Es < nat (rc_max_retry_attempts cfg))) \<and>
    (\<forall>i < k. 1000 \<le> backoff_delay i (te_jitter (Es ! i)) \<and> backoff_delay i (te_jitter (Es ! i)) \<le> 30200)"
proof -
  have "k \<le> length Es" using assms(7) by simp
  then have "\<bar>te_jitter (Es ! i)\<bar> \<le> 200" if "i < k" for i using assms(6) that by simp
  then have "1000 \<le> backoff_delay i (te_jitter (Es ! i)) \<and> backoff_delay i (te_jitter (Es ! i)) \<le> 30200"
    if "i < k" for i
    using that by (fastforce simp: backoff_delay_def)
  then show ?thesis
    using failing_loop [OF assms(1,2,5), of 0 cfg A] assms(3,4,7) by auto
qed

theorem rtsp_backoff_witness:
  "\<exists>st'. capture_loop demo_lib (demo_cfg\<lparr>rc_max_retry_attempts := 3\<rparr>)
     (replicate 4 \<lparr>te_connect = demo_connect\<lparr>ce_open_input := False\<rparr>, te_jitter = 100, te_read = ReadEof, te_now = 0\<rparr>)
     demo_stream = (st', [SleepMs 1100, SleepMs 2100], False)"
proof -
  let ?Es = "replicate 4 \<lparr>te_connect = demo_connect\<lparr>ce_open_input := False\<rparr>, te_jitter = 100, te_read = ReadEof, te_now = 0\<rparr>"
  have "\<exists>st'. capture_loop demo_lib (demo_cfg\<lparr>rc_max_retry_attempts := 3\<rparr>) ?Es demo_stream =
      (st', map (\<lambda>i. SleepMs (backoff_delay i (te_jitter (?Es ! i)))) [0..<2], False)"
    using rtsp_backoff [of demo_stream ?Es 2 "demo_cfg\<lparr>rc_max_retry_attempts := 3\<rparr>" demo_lib]
    by (simp add: demo_stream_def StreamState_init_def connects_def)
  then show ?thesis by (simp add: upt_conv_Cons backoff_delay_def numeral_eq_Suc)
qed

section \<open>Where the input falls short\<close>

text \<open>With a hardware device, stopping the streams releases a pointer that is not a buffer reference.\<close>

lemma hw_device_released_wrongly: "rs_hw_device_ctx st \<Longrightarrow> cleanup_stream st = None"
  by (simp add: cleanup_stream_def)

text \<open>A frame that is not published is counted as captured, and nothing counts dropped packets.\<close>

lemma dropped_packet_counted_as_captured:
  assumes "rs_running st" and "rs_connected st" and "stream_ready st" and "te_read E = ReadPacket p"
    and "vp_stream_index p = rs_video_stream_index st" and "vp_size p > 10 * 1024 * 1024"
  shows "\<exists>st'. capture_loop_turn A cfg E st = (st', [SleepUs 100, SleepMs 1], True) \<and>
    rs_frames_captured st' = rs_frames_captured st + 1 \<and> rs_packets_dropped st' = rs_packets_dropped st"
proof -
  have "rs_fmt_ctx st \<noteq> None" using assms(3) by (auto simp: stream_ready_def)
  then show ?thesis
    using assms by (auto simp: capture_loop_turn_def read_and_publish_def process_and_publish_frame_def)
qed

end
