(* ===== verification/Floats.thy ===== *)
theory Floats
  imports Json_Api
begin

text \<open>
  Floating-point arithmetic as a parameter. The plugins that follow objects compute with \<open>float\<close> and
  \<open>double\<close>; none of the properties proved of them needs a law of this arithmetic, so it is a record \<open>F\<close> of
  the operations that the code uses, over a type \<open>'f\<close>. They hold for IEEE numbers with their rounding,
  infinities and NaN as for any other interpretation.
\<close>

record 'f floats =
  fl_num :: "int \<Rightarrow> int \<Rightarrow> 'f"           \<comment> \<open>a literal or converted integer, as a fraction\<close>
  fl_add :: "'f \<Rightarrow> 'f \<Rightarrow> 'f"
  fl_sub :: "'f \<Rightarrow> 'f \<Rightarrow> 'f"
  fl_mul :: "'f \<Rightarrow> 'f \<Rightarrow> 'f"
  fl_div :: "'f \<Rightarrow> 'f \<Rightarrow> 'f"
  fl_sqrt :: "'f \<Rightarrow> 'f"
  fl_hypot :: "'f \<Rightarrow> 'f \<Rightarrow> 'f"
  fl_less :: "'f \<Rightarrow> 'f \<Rightarrow> bool"
  fl_leq :: "'f \<Rightarrow> 'f \<Rightarrow> bool"
  fl_eq :: "'f \<Rightarrow> 'f \<Rightarrow> bool"
  fl_to_u64 :: "'f \<Rightarrow> u64"               \<comment> \<open>static_cast to uint64_t\<close>
  fl_to_int :: "'f \<Rightarrow> int"               \<comment> \<open>static_cast to int\<close>

definition fl_zero :: "'f floats \<Rightarrow> 'f" where
  "fl_zero F = fl_num F 0 1"

text \<open>\<open>std::max\<close> and \<open>std::min\<close> as the library defines them.\<close>

definition fl_max :: "'f floats \<Rightarrow> 'f \<Rightarrow> 'f \<Rightarrow> 'f" where
  "fl_max F a b = (if fl_less F a b then b else a)"

definition fl_min :: "'f floats \<Rightarrow> 'f \<Rightarrow> 'f \<Rightarrow> 'f" where
  "fl_min F a b = (if fl_less F b a then b else a)"

definition fl_abs :: "'f floats \<Rightarrow> 'f \<Rightarrow> 'f" where
  "fl_abs F a = (if fl_less F a (fl_zero F) then fl_sub F (fl_zero F) a else a)"

text \<open>Conversions between \<open>float\<close> and \<open>double\<close>.\<close>

record ('f, 'd) casts =
  c_float :: "'d \<Rightarrow> 'f"
  c_double :: "'f \<Rightarrow> 'd"

text \<open>A \<open>duration<double>\<close> of a time in nanoseconds, in seconds.\<close>

definition secs_of_ns :: "'d floats \<Rightarrow> int \<Rightarrow> 'd" where
  "secs_of_ns D ns = fl_div D (fl_num D ns 1) (fl_num D 1000000000 1)"

text \<open>The JSON library's access to numbers; \<open>None\<close> is its type error.\<close>

record ('j, 'f) json_float =
  jf_get :: "'j \<Rightarrow> 'f option"
  jf_is_number :: "'j \<Rightarrow> bool"
  jf_value :: "'j \<Rightarrow> string \<Rightarrow> 'f \<Rightarrow> 'f option"
  jf_assignable :: "'j \<Rightarrow> bool"           \<comment> \<open>operator[] with a key does not throw: an object or null\<close>

text \<open>An instance to evaluate with: integers, all fractions rounded down.\<close>

definition int_floats :: "int floats" where
  "int_floats = \<lparr>fl_num = (\<lambda>n d. n div d), fl_add = (+), fl_sub = (-), fl_mul = (*), fl_div = (div),
     fl_sqrt = (\<lambda>x. x), fl_hypot = (\<lambda>x y. max \<bar>x\<bar> \<bar>y\<bar>), fl_less = (<), fl_leq = (\<le>), fl_eq = (=), fl_to_u64 = of_int,
     fl_to_int = (\<lambda>x. x)\<rparr>"

definition jdoc_floats :: "(jdoc, int) json_float" where
  "jdoc_floats = \<lparr>jf_get = jdoc_int, jf_is_number = jdoc_is_integer,
     jf_value = (\<lambda>j key d. case jdoc_field j key of None \<Rightarrow> Some d | Some v \<Rightarrow> jdoc_int v),
     jf_assignable = jdoc_is_object\<rparr>"

end
