(* ===== verification/Tracker.thy ===== *)
theory Tracker
  imports Floats
begin

text \<open>
  The multi-object tracker, plugins/tracker: the association of tracker_core.hpp and the event handler of
  tracker.cpp. \<open>F\<close> is the floating-point arithmetic and \<open>srt\<close> is \<open>std::sort\<close> with the code's comparison;
  sorting is not stable, so that the order of pairs with the same score is the library's choice. Track
  numbers and counters are unbounded integers.
\<close>

section \<open>Detections and tracks\<close>

record 'f Det =
  d_x :: 'f
  d_y :: 'f
  d_w :: 'f
  d_h :: 'f
  d_class_id :: int
  d_confidence :: 'f
  d_embedding :: "'f list"

record 'f Kf1D =
  kf_x :: 'f
  kf_v :: 'f
  kf_p00 :: 'f
  kf_p01 :: 'f
  kf_p11 :: 'f

definition kf_init :: "'f floats \<Rightarrow> 'f \<Rightarrow> 'f Kf1D" where
  "kf_init F pos = \<lparr>kf_x = pos, kf_v = fl_zero F, kf_p00 = fl_num F 10 1, kf_p01 = fl_zero F,
     kf_p11 = fl_num F 1000 1\<rparr>"

definition kf_predict :: "'f floats \<Rightarrow> 'f \<Rightarrow> 'f \<Rightarrow> 'f Kf1D \<Rightarrow> 'f Kf1D" where
  "kf_predict F q_pos q_vel k =
     \<lparr>kf_x = fl_add F (kf_x k) (kf_v k), kf_v = kf_v k,
      kf_p00 = fl_add F (fl_add F (fl_add F (kf_p00 k) (fl_mul F (fl_num F 2 1) (kf_p01 k))) (kf_p11 k)) q_pos,
      kf_p01 = fl_add F (kf_p01 k) (kf_p11 k),
      kf_p11 = fl_add F (kf_p11 k) q_vel\<rparr>"

definition kf_update :: "'f floats \<Rightarrow> 'f \<Rightarrow> 'f \<Rightarrow> 'f Kf1D \<Rightarrow> 'f Kf1D" where
  "kf_update F z r k =
     (let s = fl_add F (kf_p00 k) r in
      if fl_leq F s (fl_zero F) then k
      else let k0 = fl_div F (kf_p00 k) s; k1 = fl_div F (kf_p01 k) s; y = fl_sub F z (kf_x k);
               one = fl_num F 1 1 in
        \<lparr>kf_x = fl_add F (kf_x k) (fl_mul F k0 y), kf_v = fl_add F (kf_v k) (fl_mul F k1 y),
         kf_p00 = fl_mul F (fl_sub F one k0) (kf_p00 k),
         kf_p01 = fl_mul F (fl_sub F one k0) (kf_p01 k),
         kf_p11 = fl_sub F (kf_p11 k) (fl_mul F k1 (kf_p01 k))\<rparr>)"

record 'f Track =
  tr_id :: int
  tr_x :: 'f
  tr_y :: 'f
  tr_w :: 'f
  tr_h :: 'f
  tr_hits :: int
  tr_time_since_update :: int
  tr_class_id :: int
  tr_embedding :: "'f list"
  tr_kx :: "'f Kf1D"
  tr_ky :: "'f Kf1D"
  tr_lcx :: 'f
  tr_lcy :: 'f
  tr_lw :: 'f
  tr_lh :: 'f
  tr_has_obs :: bool

definition dot_sum :: "'f floats \<Rightarrow> 'f list \<Rightarrow> 'f list \<Rightarrow> 'f" where
  "dot_sum F a b = foldl (\<lambda>acc (x, y). fl_add F acc (fl_mul F x y)) (fl_zero F) (zip a b)"

definition cosine_sim :: "'f floats \<Rightarrow> 'f list \<Rightarrow> 'f list \<Rightarrow> 'f" where
  "cosine_sim F a b =
     (if a = [] \<or> length a \<noteq> length b then fl_zero F
      else let na = dot_sum F a a; nb = dot_sum F b b in
        if fl_leq F na (fl_zero F) \<or> fl_leq F nb (fl_zero F) then fl_zero F
        else fl_div F (dot_sum F a b) (fl_mul F (fl_sqrt F na) (fl_sqrt F nb)))"

definition l2_normalize :: "'f floats \<Rightarrow> 'f list \<Rightarrow> 'f list" where
  "l2_normalize F v =
     (let n = dot_sum F v v in
      if fl_leq F n (fl_zero F) then v else map (\<lambda>x. fl_div F x (fl_sqrt F n)) v)"

definition iou :: "'f floats \<Rightarrow> 'f \<Rightarrow> 'f \<Rightarrow> 'f \<Rightarrow> 'f \<Rightarrow> 'f \<Rightarrow> 'f \<Rightarrow> 'f \<Rightarrow> 'f \<Rightarrow> 'f" where
  "iou F ax ay aw ah bx by bw bh =
     (let z = fl_zero F in
      if fl_leq F aw z \<or> fl_leq F ah z \<or> fl_leq F bw z \<or> fl_leq F bh z then z
      else let iw = fl_sub F (fl_min F (fl_add F ax aw) (fl_add F bx bw)) (fl_max F ax bx);
               ih = fl_sub F (fl_min F (fl_add F ay ah) (fl_add F by bh)) (fl_max F ay by) in
        if fl_leq F iw z \<or> fl_leq F ih z then z
        else let inter = fl_mul F iw ih;
                 uni = fl_sub F (fl_add F (fl_mul F aw ah) (fl_mul F bw bh)) inter in
          if fl_leq F uni z then z else fl_div F inter uni)"

section \<open>The tracker\<close>

record 'f Tracker =
  tk_tracks :: "'f Track list"
  tk_next_id :: int
  tk_iou_threshold :: 'f
  tk_max_age :: int
  tk_min_hits :: int
  tk_class_gated :: bool
  tk_appearance_threshold :: 'f
  tk_appearance_weight :: 'f
  tk_embed_alpha :: 'f
  tk_det_high_thresh :: 'f
  tk_low_iou_threshold :: 'f
  tk_ocm_weight :: 'f

definition q_pos :: "'f floats \<Rightarrow> 'f" where "q_pos F = fl_num F 1 1"
definition q_vel :: "'f floats \<Rightarrow> 'f" where "q_vel F = fl_num F 1 100"
definition r_meas :: "'f floats \<Rightarrow> 'f" where "r_meas F = fl_num F 1 1"

definition half :: "'f floats \<Rightarrow> 'f \<Rightarrow> 'f" where
  "half F a = fl_mul F a (fl_num F 1 2)"

definition gate_ok :: "'f floats \<Rightarrow> 'f Tracker \<Rightarrow> 'f Det \<Rightarrow> 'f Track \<Rightarrow> bool" where
  "gate_ok F T d t =
     (if tk_class_gated T \<and> d_class_id d \<noteq> tr_class_id t \<and> d_class_id d \<noteq> - 1 \<and> tr_class_id t \<noteq> - 1 then False
      else if fl_less F (fl_zero F) (tk_appearance_threshold T) \<and> d_embedding d \<noteq> [] \<and>
          length (d_embedding d) = length (tr_embedding t) \<and>
          fl_less F (cosine_sim F (d_embedding d) (tr_embedding t)) (tk_appearance_threshold T) then False
      else True)"

text \<open>The score of a pair, \<open>None\<close> when a gate or the overlap excludes it.\<close>

definition pair_score :: "'f floats \<Rightarrow> 'f Tracker \<Rightarrow> bool \<Rightarrow> 'f \<Rightarrow> bool \<Rightarrow> 'f Det \<Rightarrow> 'f Track \<Rightarrow> 'f option" where
  "pair_score F T use_last_obs iou_thr use_ocm d t =
     (if \<not> gate_ok F T d t then None
      else let spatial =
                 (if use_last_obs
                  then iou F (d_x d) (d_y d) (d_w d) (d_h d) (fl_sub F (tr_lcx t) (half F (tr_lw t)))
                         (fl_sub F (tr_lcy t) (half F (tr_lh t))) (tr_lw t) (tr_lh t)
                  else iou F (d_x d) (d_y d) (d_w d) (d_h d) (tr_x t) (tr_y t) (tr_w t) (tr_h t)) in
        if fl_less F spatial iou_thr then None
        else let score =
                   (if fl_less F (fl_zero F) (tk_appearance_threshold T) \<and> d_embedding d \<noteq> [] \<and>
                       length (d_embedding d) = length (tr_embedding t)
                    then fl_add F (fl_mul F (fl_sub F (fl_num F 1 1) (tk_appearance_weight T)) spatial)
                           (fl_mul F (tk_appearance_weight T) (cosine_sim F (d_embedding d) (tr_embedding t)))
                    else spatial) in
          if use_ocm \<and> fl_less F (fl_zero F) (tk_ocm_weight T) \<and> tr_has_obs t then
            (let vx = kf_v (tr_kx t); vy = kf_v (tr_ky t);
                 speed = fl_sqrt F (fl_add F (fl_mul F vx vx) (fl_mul F vy vy));
                 dcx = fl_sub F (fl_add F (d_x d) (half F (d_w d))) (tr_lcx t);
                 dcy = fl_sub F (fl_add F (d_y d) (half F (d_h d))) (tr_lcy t);
                 dist = fl_sqrt F (fl_add F (fl_mul F dcx dcx) (fl_mul F dcy dcy));
                 tiny = fl_num F 1 1000 in
             if fl_less F tiny speed \<and> fl_less F tiny dist
             then Some (fl_add F score (fl_mul F (tk_ocm_weight T)
                    (fl_div F (fl_add F (fl_mul F vx dcx) (fl_mul F vy dcy)) (fl_mul F speed dist))))
             else Some score)
          else Some score)"

text \<open>A track that is matched with a detection.\<close>

definition matched_track :: "'f floats \<Rightarrow> 'f Tracker \<Rightarrow> bool \<Rightarrow> 'f Det \<Rightarrow> 'f Track \<Rightarrow> 'f Track" where
  "matched_track F T use_last_obs d t =
     (let cx = fl_add F (d_x d) (half F (d_w d)); cy = fl_add F (d_y d) (half F (d_h d));
          t = (if use_last_obs \<and> tr_time_since_update t > 1 \<and> tr_has_obs t
               then let g = fl_num F (tr_time_since_update t) 1 in
                 t\<lparr>tr_kx := (tr_kx t)\<lparr>kf_v := fl_div F (fl_sub F cx (tr_lcx t)) g\<rparr>,
                   tr_ky := (tr_ky t)\<lparr>kf_v := fl_div F (fl_sub F cy (tr_lcy t)) g\<rparr>\<rparr>
               else t);
          t = t\<lparr>tr_kx := kf_update F cx (r_meas F) (tr_kx t), tr_ky := kf_update F cy (r_meas F) (tr_ky t),
                tr_class_id := d_class_id d, tr_hits := tr_hits t + 1, tr_time_since_update := 0,
                tr_lcx := cx, tr_lcy := cy, tr_lw := d_w d, tr_lh := d_h d, tr_has_obs := True\<rparr>;
          t = t\<lparr>tr_x := fl_sub F (kf_x (tr_kx t)) (half F (d_w d)), tr_y := fl_sub F (kf_x (tr_ky t)) (half F (d_h d)),
                tr_w := d_w d, tr_h := d_h d\<rparr>
      in if d_embedding d = [] then t
         else let emb = (if length (tr_embedding t) \<noteq> length (d_embedding d) then d_embedding d
                         else map2 (\<lambda>a b. fl_add F (fl_mul F (fl_sub F (fl_num F 1 1) (tk_embed_alpha T)) a)
                                (fl_mul F (tk_embed_alpha T) b)) (tr_embedding t) (d_embedding d))
              in t\<lparr>tr_embedding := l2_normalize F emb\<rparr>)"

text \<open>The state of the association: the tracks, the two flag vectors, and the track of each detection.\<close>

record 'f assoc =
  aw_tracks :: "'f Track list"
  aw_det_matched :: "bool list"
  aw_track_matched :: "bool list"
  aw_det_to_track :: "int list"

definition candidate_pairs ::
  "'f floats \<Rightarrow> 'f Tracker \<Rightarrow> 'f Det list \<Rightarrow> nat list \<Rightarrow> bool \<Rightarrow> 'f \<Rightarrow> bool \<Rightarrow> 'f assoc \<Rightarrow> ('f \<times> nat \<times> nat) list" where
  "candidate_pairs F T dets cand use_last_obs iou_thr use_ocm st =
     concat (map (\<lambda>ti. if aw_track_matched st ! ti then []
       else concat (map (\<lambda>di. if aw_det_matched st ! di then []
              else case pair_score F T use_last_obs iou_thr use_ocm (dets ! di) (aw_tracks st ! ti) of
                     None \<Rightarrow> [] | Some score \<Rightarrow> [(score, ti, di)]) cand))
     [0..<length (aw_tracks st)])"

definition match_pair ::
  "'f floats \<Rightarrow> 'f Tracker \<Rightarrow> bool \<Rightarrow> 'f Det list \<Rightarrow> 'f \<times> nat \<times> nat \<Rightarrow> 'f assoc \<Rightarrow> 'f assoc" where
  "match_pair F T use_last_obs dets p st =
     (case p of (score, ti, di) \<Rightarrow>
        if aw_track_matched st ! ti \<or> aw_det_matched st ! di then st
        else \<lparr>aw_tracks = (aw_tracks st)[ti := matched_track F T use_last_obs (dets ! di) (aw_tracks st ! ti)],
              aw_det_matched = (aw_det_matched st)[di := True],
              aw_track_matched = (aw_track_matched st)[ti := True],
              aw_det_to_track = (aw_det_to_track st)[di := int ti]\<rparr>)"

type_synonym 'f pair_sort = "('f \<times> nat \<times> nat) list \<Rightarrow> ('f \<times> nat \<times> nat) list"

definition associate ::
  "'f floats \<Rightarrow> 'f pair_sort \<Rightarrow> 'f Tracker \<Rightarrow> 'f Det list \<Rightarrow> nat list \<Rightarrow> bool \<Rightarrow> 'f \<Rightarrow> bool \<Rightarrow> 'f assoc \<Rightarrow> 'f assoc" where
  "associate F srt T dets cand use_last_obs iou_thr use_ocm st =
     (if cand = [] \<or> aw_tracks st = [] then st
      else fold (match_pair F T use_last_obs dets)
             (srt (candidate_pairs F T dets cand use_last_obs iou_thr use_ocm st)) st)"

definition predict_track :: "'f floats \<Rightarrow> 'f Track \<Rightarrow> 'f Track" where
  "predict_track F t =
     (let kx = kf_predict F (q_pos F) (q_vel F) (tr_kx t); ky = kf_predict F (q_pos F) (q_vel F) (tr_ky t)
      in t\<lparr>tr_time_since_update := tr_time_since_update t + 1, tr_kx := kx, tr_ky := ky,
           tr_x := fl_sub F (kf_x kx) (half F (tr_lw t)), tr_y := fl_sub F (kf_x ky) (half F (tr_lh t)),
           tr_w := tr_lw t, tr_h := tr_lh t\<rparr>)"

definition is_low :: "'f floats \<Rightarrow> 'f Tracker \<Rightarrow> 'f Det \<Rightarrow> bool" where
  "is_low F T d \<longleftrightarrow> fl_less F (fl_zero F) (tk_det_high_thresh T) \<and> fl_less F (fl_zero F) (d_confidence d) \<and>
     fl_less F (d_confidence d) (tk_det_high_thresh T)"

definition new_track :: "'f floats \<Rightarrow> int \<Rightarrow> 'f Det \<Rightarrow> 'f Track" where
  "new_track F ident d =
     (let cx = fl_add F (d_x d) (half F (d_w d)); cy = fl_add F (d_y d) (half F (d_h d))
      in \<lparr>tr_id = ident, tr_x = d_x d, tr_y = d_y d, tr_w = d_w d, tr_h = d_h d, tr_hits = 1,
          tr_time_since_update = 0, tr_class_id = d_class_id d, tr_embedding = d_embedding d,
          tr_kx = kf_init F cx, tr_ky = kf_init F cy, tr_lcx = cx, tr_lcy = cy, tr_lw = d_w d, tr_lh = d_h d,
          tr_has_obs = True\<rparr>)"

text \<open>The loop that spawns tracks: tracks, next number, and the track of each detection.\<close>

definition spawn_track ::
  "'f floats \<Rightarrow> 'f Det list \<Rightarrow> bool list \<Rightarrow> nat \<Rightarrow> 'f Track list \<times> int \<times> int list \<Rightarrow> 'f Track list \<times> int \<times> int list" where
  "spawn_track F dets det_matched di s =
     (case s of (tracks, next_id, det_to_track) \<Rightarrow>
        if det_matched ! di then s
        else (tracks @ [new_track F next_id (dets ! di)], next_id + 1,
              det_to_track[di := int (length tracks)]))"

definition assigned_id :: "int \<Rightarrow> 'f Track list \<Rightarrow> int \<Rightarrow> int" where
  "assigned_id min_hits tracks idx =
     (if 0 \<le> idx \<and> tr_hits (tracks ! nat idx) \<ge> min_hits then tr_id (tracks ! nat idx) else 0)"

definition associate_all :: "'f floats \<Rightarrow> 'f pair_sort \<Rightarrow> 'f Tracker \<Rightarrow> 'f Det list \<Rightarrow> 'f assoc" where
  "associate_all F srt T dets =
     (let nD = length dets;
          tracks = map (predict_track F) (tk_tracks T);
          high = filter (\<lambda>di. \<not> is_low F T (dets ! di)) [0..<nD];
          low = filter (\<lambda>di. is_low F T (dets ! di)) [0..<nD];
          st = \<lparr>aw_tracks = tracks, aw_det_matched = replicate nD False,
                aw_track_matched = replicate (length tracks) False, aw_det_to_track = replicate nD (- 1)\<rparr>;
          st = associate F srt T dets high False (tk_iou_threshold T) True st;
          st = (if low \<noteq> [] then associate F srt T dets low False (tk_low_iou_threshold T) False st else st);
          high_left = filter (\<lambda>di. \<not> aw_det_matched st ! di) high
      in if high_left \<noteq> [] then associate F srt T dets high_left True (tk_iou_threshold T) False st else st)"

definition update :: "'f floats \<Rightarrow> 'f pair_sort \<Rightarrow> 'f Det list \<Rightarrow> 'f Tracker \<Rightarrow> 'f Tracker \<times> int list" where
  "update F srt dets T =
     (let st = associate_all F srt T dets;
          high = filter (\<lambda>di. \<not> is_low F T (dets ! di)) [0..<length dets];
          (tracks, next_id, det_to_track) =
            fold (spawn_track F dets (aw_det_matched st)) high (aw_tracks st, tk_next_id T, aw_det_to_track st);
          assigned = map (assigned_id (tk_min_hits T) tracks) det_to_track
      in (T\<lparr>tk_tracks := filter (\<lambda>t. \<not> tr_time_since_update t > tk_max_age T) tracks, tk_next_id := next_id\<rparr>,
          assigned))"

section \<open>The plugin\<close>

record 'f TrackerState =
  tp_running :: bool
  tp_params :: "'f Tracker"                  \<comment> \<open>the configured tracker, without tracks\<close>
  tp_trackers :: "(int \<times> 'f Tracker) list"

text \<open>The constructor call with the plugin's configuration; the rest is in class \<open>Tracker\<close>.\<close>

definition trackerFor :: "int \<Rightarrow> 'f TrackerState \<Rightarrow> 'f Tracker" where
  "trackerFor sid s = (case map_of (tp_trackers s) sid of Some T \<Rightarrow> T | None \<Rightarrow> tp_params s)"

text \<open>An optional member: \<open>Some None\<close> is a short or missing box, \<open>None\<close> an exception.\<close>

definition parseBbox :: "'j json_api \<Rightarrow> ('j, 'f) json_float \<Rightarrow> 'f floats \<Rightarrow> 'j \<Rightarrow> 'f Det option option" where
  "parseBbox J K F det =
     (case j_field J det ''bbox'' of
        None \<Rightarrow> Some None
      | Some b \<Rightarrow>
          if \<not> j_is_array J b \<or> length (j_elements J b) < 4 then Some None
          else Option.bind (jf_get K (j_elements J b ! 0)) (\<lambda>x.
               Option.bind (jf_get K (j_elements J b ! 1)) (\<lambda>y.
               Option.bind (jf_get K (j_elements J b ! 2)) (\<lambda>w.
               Option.bind (jf_get K (j_elements J b ! 3)) (\<lambda>h.
               Option.bind (j_value_int J det ''class_id'' (- 1)) (\<lambda>c.
               Option.bind (jf_value K det ''confidence'' (fl_zero F)) (\<lambda>conf.
                 let emb = (case j_field J det ''embedding'' of
                              None \<Rightarrow> []
                            | Some e \<Rightarrow> if j_is_array J e
                                then map (\<lambda>v. the (jf_get K v))
                                       (filter (\<lambda>v. jf_is_number K v \<and> jf_get K v \<noteq> None) (j_elements J e))
                                else [])
                 in Some (Some \<lparr>d_x = x, d_y = y, d_w = w, d_h = h, d_class_id = c, d_confidence = conf,
                      d_embedding = emb\<rparr>))))))))"

text \<open>
  The parsed detections with their places in the array; an exception ends it. The published event has
  each element of the array with its track number as \<open>track_id\<close> and without \<open>embedding\<close>.
\<close>

fun parse_dets ::
  "'j json_api \<Rightarrow> ('j, 'f) json_float \<Rightarrow> 'f floats \<Rightarrow> nat \<Rightarrow> 'j list \<Rightarrow> ('f Det \<times> nat) list option" where
  "parse_dets J K F i [] = Some []"
| "parse_dets J K F i (e # es) =
     Option.bind (parseBbox J K F e) (\<lambda>r.
     Option.bind (parse_dets J K F (i + 1) es) (\<lambda>rest.
       Some (case r of None \<Rightarrow> rest | Some d \<Rightarrow> (d, i) # rest)))"

datatype 'j tracked_event = TrackedDetection int "'j option" "('j \<times> int) list"

definition ids_for_json :: "nat \<Rightarrow> nat list \<Rightarrow> int list \<Rightarrow> int list" where
  "ids_for_json n json_index ids = fold (\<lambda>(i, k) acc. acc[i := k]) (zip json_index ids) (replicate n 0)"

text \<open>The new state, the event, and whether an exception left the callback.\<close>

definition tracker_handleEvent ::
  "'j json_api \<Rightarrow> ('j, 'f) json_float \<Rightarrow> 'f floats \<Rightarrow> 'f pair_sort \<Rightarrow> string \<Rightarrow> 'f TrackerState \<Rightarrow>
   'f TrackerState \<times> 'j tracked_event option \<times> bool" where
  "tracker_handleEvent J K F srt msg s =
     (if \<not> tp_running s then (s, None, False)
      else case j_parse J msg of
        None \<Rightarrow> (s, None, False)
      | Some j \<Rightarrow>
          if \<not> j_is_object J j then (s, None, False)
          else case j_value_string J j ''type'' [] of
            None \<Rightarrow> (s, None, True)
          | Some ty \<Rightarrow>
              if ty \<noteq> ''detection'' then (s, None, False)
              else case j_value_int J j ''stream_id'' 0 of
                None \<Rightarrow> (s, None, True)
              | Some sid \<Rightarrow>
                  (case j_field J j ''detections'' of
                     None \<Rightarrow> (s, None, False)
                   | Some a \<Rightarrow>
                       if \<not> j_is_array J a then (s, None, False)
                       else case parse_dets J K F 0 (j_elements J a) of
                         None \<Rightarrow> (s, None, True)
                       | Some ds \<Rightarrow>
                           (case update F srt (map fst ds) (trackerFor sid s) of
                              (T, ids) \<Rightarrow>
                                let s = s\<lparr>tp_trackers := (sid, T) # filter (\<lambda>p. fst p \<noteq> sid) (tp_trackers s)\<rparr>;
                                    ev = TrackedDetection sid (j_field J j ''pts_usec'')
                                      (zip (j_elements J a) (ids_for_json (length (j_elements J a)) (map snd ds) ids))
                                in if list_all (jf_assignable K) (j_elements J a) then (s, Some ev, False)
                                   else (s, None, True))))"

definition TrackerState_init :: "'f floats \<Rightarrow> 'f TrackerState" where
  "TrackerState_init F = \<lparr>tp_running = False, tp_params = \<lparr>tk_tracks = [], tk_next_id = 1,
     tk_iou_threshold = fl_num F 3 10, tk_max_age = 30, tk_min_hits = 3, tk_class_gated = True,
     tk_appearance_threshold = fl_zero F, tk_appearance_weight = fl_zero F, tk_embed_alpha = fl_num F 1 10,
     tk_det_high_thresh = fl_num F 1 2, tk_low_iou_threshold = fl_num F 2 10, tk_ocm_weight = fl_num F 2 10\<rparr>,
     tp_trackers = []\<rparr>"

definition set_param :: "('f Tracker \<Rightarrow> 'f Tracker) \<Rightarrow> 'f TrackerState \<Rightarrow> 'f TrackerState" where
  "set_param f s = s\<lparr>tp_params := f (tp_params s)\<rparr>"

definition tracker_start ::
  "'j json_api \<Rightarrow> ('j, 'f) json_float \<Rightarrow> 'f floats \<Rightarrow> string option \<Rightarrow> 'f TrackerState" where
  "tracker_start J K F json_cfg =
     (case j_parse J (case json_cfg of None \<Rightarrow> ''{}'' | Some t \<Rightarrow> t) of
        None \<Rightarrow> TrackerState_init F
      | Some cfg \<Rightarrow> cfg_result (
          let c = Inr (TrackerState_init F);
              c = cfg_step (jf_value K cfg ''iou_threshold'' (fl_num F 3 10)) (\<lambda>v. set_param (\<lambda>t. t\<lparr>tk_iou_threshold := v\<rparr>)) c;
              c = cfg_step (j_value_int J cfg ''max_age'' 30) (\<lambda>v. set_param (\<lambda>t. t\<lparr>tk_max_age := v\<rparr>)) c;
              c = cfg_step (j_value_int J cfg ''min_hits'' 3) (\<lambda>v. set_param (\<lambda>t. t\<lparr>tk_min_hits := v\<rparr>)) c;
              c = cfg_step (j_value_bool J cfg ''class_gated'' True) (\<lambda>v. set_param (\<lambda>t. t\<lparr>tk_class_gated := v\<rparr>)) c;
              c = cfg_step (jf_value K cfg ''appearance_threshold'' (fl_zero F)) (\<lambda>v. set_param (\<lambda>t. t\<lparr>tk_appearance_threshold := v\<rparr>)) c;
              c = cfg_step (jf_value K cfg ''appearance_weight'' (fl_num F 3 10)) (\<lambda>v. set_param (\<lambda>t. t\<lparr>tk_appearance_weight := v\<rparr>)) c;
              c = cfg_step (jf_value K cfg ''embed_alpha'' (fl_num F 1 10)) (\<lambda>v. set_param (\<lambda>t. t\<lparr>tk_embed_alpha := v\<rparr>)) c;
              c = cfg_step (jf_value K cfg ''det_high_thresh'' (fl_num F 1 2)) (\<lambda>v. set_param (\<lambda>t. t\<lparr>tk_det_high_thresh := v\<rparr>)) c;
              c = cfg_step (jf_value K cfg ''low_iou_threshold'' (fl_num F 2 10)) (\<lambda>v. set_param (\<lambda>t. t\<lparr>tk_low_iou_threshold := v\<rparr>)) c
          in cfg_step (jf_value K cfg ''ocm_weight'' (fl_num F 2 10)) (\<lambda>v. set_param (\<lambda>t. t\<lparr>tk_ocm_weight := v\<rparr>)) c))
     \<lparr>tp_running := True\<rparr>"

definition tracker_stop :: "'f TrackerState \<Rightarrow> 'f TrackerState" where
  "tracker_stop s = s\<lparr>tp_running := False\<rparr>"

end
