(* ===== verification/Tracker_Properties.thy ===== *)
theory Tracker_Properties
  imports Tracker
begin

text \<open>
  What the tracker promises about its numbers: a track gets at most one detection of a batch, numbers are
  never used twice, and a number is given out only to tracks with enough matches. Nothing here depends on
  the arithmetic, and of the sorting only that it invents no pairs.
\<close>

section \<open>The association\<close>

text \<open>The invariant of the association for \<open>nT\<close> tracks with the numbers \<open>ids\<close> and \<open>nD\<close> detections.\<close>

definition assoc_ok :: "int list \<Rightarrow> nat \<Rightarrow> 'f assoc \<Rightarrow> bool" where
  "assoc_ok ids nD st \<longleftrightarrow>
     map tr_id (aw_tracks st) = ids \<and> length (aw_track_matched st) = length ids \<and>
     length (aw_det_matched st) = nD \<and> length (aw_det_to_track st) = nD \<and>
     (\<forall>t \<in> set (aw_tracks st). 1 \<le> tr_hits t) \<and>
     (\<forall>di < nD. aw_det_matched st ! di \<longleftrightarrow> aw_det_to_track st ! di \<noteq> - 1) \<and>
     (\<forall>di < nD. aw_det_matched st ! di \<longrightarrow>
        0 \<le> aw_det_to_track st ! di \<and> nat (aw_det_to_track st ! di) < length ids \<and>
        aw_track_matched st ! nat (aw_det_to_track st ! di) \<and>
        tr_time_since_update (aw_tracks st ! nat (aw_det_to_track st ! di)) = 0) \<and>
     (\<forall>di < nD. \<forall>dj < nD. aw_det_matched st ! di \<longrightarrow> aw_det_to_track st ! di = aw_det_to_track st ! dj \<longrightarrow> di = dj)"

lemma matched_track_fields [simp]:
  "tr_id (matched_track F T lo d t) = tr_id t"
  "tr_hits (matched_track F T lo d t) = tr_hits t + 1"
  "tr_time_since_update (matched_track F T lo d t) = 0"
  by (simp_all add: matched_track_def Let_def)

lemma match_pair_ok:
  assumes ok: "assoc_ok ids nD st" and "ti < length ids" and "di < nD"
  shows "assoc_ok ids nD (match_pair F T lo dets (score, ti, di) st)"
proof (cases "aw_track_matched st ! ti \<or> aw_det_matched st ! di")
  case True
  then show ?thesis using ok by (simp add: match_pair_def)
next
  case False
  let ?st = "match_pair F T lo dets (score, ti, di) st"
  have len: "length (aw_tracks st) = length ids" using ok by (auto simp: assoc_ok_def)
  have st: "aw_tracks ?st = (aw_tracks st)[ti := matched_track F T lo (dets ! di) (aw_tracks st ! ti)]"
    "aw_det_matched ?st = (aw_det_matched st)[di := True]" "aw_track_matched ?st = (aw_track_matched st)[ti := True]"
    "aw_det_to_track ?st = (aw_det_to_track st)[di := int ti]"
    using False by (simp_all add: match_pair_def)
  have free: "aw_det_to_track st ! dj \<noteq> int ti" if "dj < nD" for dj
  proof
    assume a: "aw_det_to_track st ! dj = int ti"
    then have "aw_det_matched st ! dj" using ok that by (auto simp: assoc_ok_def)
    then have "aw_track_matched st ! ti" using ok that a by (auto simp: assoc_ok_def)
    then show False using False by simp
  qed
  have "map tr_id (aw_tracks ?st) = ids"
  proof -
    have "map tr_id (aw_tracks ?st) = (map tr_id (aw_tracks st))[ti := tr_id (aw_tracks st ! ti)]"
      by (simp add: st map_update)
    also have "\<dots> = map tr_id (aw_tracks st)"
      using assms(2) len by (metis length_map list_update_id nth_map)
    finally show ?thesis using ok by (simp add: assoc_ok_def)
  qed
  moreover have "1 \<le> tr_hits t" if "t \<in> set (aw_tracks ?st)" for t
  proof -
    have "\<forall>t \<in> set (aw_tracks st). 1 \<le> tr_hits t" using ok by (simp add: assoc_ok_def)
    moreover have "aw_tracks st ! ti \<in> set (aw_tracks st)" using assms(2) len by simp
    ultimately show ?thesis
      using that unfolding st by (auto dest!: set_update_subset_insert [THEN subsetD])
  qed
  moreover have "length (aw_track_matched ?st) = length ids" "length (aw_det_matched ?st) = nD"
    "length (aw_det_to_track ?st) = nD"
    using ok by (simp_all add: st assoc_ok_def)
  moreover have "aw_det_matched ?st ! dj \<longleftrightarrow> aw_det_to_track ?st ! dj \<noteq> - 1" if "dj < nD" for dj
    using ok that by (cases "dj = di") (auto simp: st assoc_ok_def)
  moreover have "0 \<le> aw_det_to_track ?st ! dj \<and> nat (aw_det_to_track ?st ! dj) < length ids \<and>
      aw_track_matched ?st ! nat (aw_det_to_track ?st ! dj) \<and>
      tr_time_since_update (aw_tracks ?st ! nat (aw_det_to_track ?st ! dj)) = 0"
    if "dj < nD" "aw_det_matched ?st ! dj" for dj
  proof (cases "dj = di")
    case True
    then show ?thesis using assms(2,3) ok len by (auto simp: st assoc_ok_def)
  next
    case False
    then have m: "aw_det_matched st ! dj" using that by (simp add: st)
    then have b: "0 \<le> aw_det_to_track st ! dj" "nat (aw_det_to_track st ! dj) < length ids"
      "aw_track_matched st ! nat (aw_det_to_track st ! dj)"
      "tr_time_since_update (aw_tracks st ! nat (aw_det_to_track st ! dj)) = 0"
      using ok that(1) by (auto simp: assoc_ok_def)
    have "nat (aw_det_to_track st ! dj) \<noteq> ti" using free [OF that(1)] b(1) by auto
    then show ?thesis using False b by (simp add: st)
  qed
  moreover have "dj = dk" if "dj < nD" "dk < nD" "aw_det_matched ?st ! dj"
    "aw_det_to_track ?st ! dj = aw_det_to_track ?st ! dk" for dj dk
  proof (cases "dj = di \<or> dk = di")
    case True
    then show ?thesis
      using that free [OF that(1)] free [OF that(2)] assms(3) ok by (auto simp: st assoc_ok_def nth_list_update split: if_splits)
  next
    case False
    then show ?thesis using that ok by (auto simp: st assoc_ok_def)
  qed
  ultimately show ?thesis unfolding assoc_ok_def by blast
qed

lemma candidate_pairs_range:
  assumes "(score, ti, di) \<in> set (candidate_pairs F T dets cand lo thr m st)"
  shows "ti < length (aw_tracks st) \<and> di \<in> set cand"
  using assms by (auto simp: candidate_pairs_def split: if_splits option.splits)

lemma assoc_ok_length: "assoc_ok ids nD st \<Longrightarrow> length (aw_tracks st) = length ids"
  by (auto simp: assoc_ok_def)

lemma associate_ok:
  assumes "assoc_ok ids nD st" and "\<And>xs. set (srt xs) \<subseteq> set xs" and "\<forall>di \<in> set cand. di < nD"
  shows "assoc_ok ids nD (associate F srt T dets cand lo thr m st)"
proof -
  have "assoc_ok ids nD (fold (match_pair F T lo dets) ps st)"
    if "\<forall>(score, ti, di) \<in> set ps. ti < length ids \<and> di < nD" for ps
    using assms(1) that
  proof (induction ps arbitrary: st)
    case (Cons p ps)
    obtain score ti di where p: "p = (score, ti, di)" by (cases p)
    have "assoc_ok ids nD (match_pair F T lo dets (score, ti, di) st)"
      by (rule match_pair_ok) (use Cons.prems p in auto)
    then show ?case using Cons.IH Cons.prems(2) p by simp
  qed simp
  moreover have "\<forall>(score, ti, di) \<in> set (srt (candidate_pairs F T dets cand lo thr m st)). ti < length ids \<and> di < nD"
    using assms(2) [of "candidate_pairs F T dets cand lo thr m st"] assms(3) assoc_ok_length [OF assms(1)]
    by (fastforce dest!: candidate_pairs_range)
  ultimately show ?thesis using assms(1) by (simp add: associate_def)
qed

definition tracker_ok :: "'f Tracker \<Rightarrow> bool" where
  "tracker_ok T \<longleftrightarrow> distinct (map tr_id (tk_tracks T)) \<and> 1 \<le> tk_next_id T \<and>
     (\<forall>t \<in> set (tk_tracks T). 1 \<le> tr_id t \<and> tr_id t < tk_next_id T \<and> 1 \<le> tr_hits t)"

abbreviation track_ids :: "'f Tracker \<Rightarrow> int list" where
  "track_ids T \<equiv> map tr_id (tk_tracks T)"

lemma predict_track_fields [simp]:
  "tr_id (predict_track F t) = tr_id t" "tr_hits (predict_track F t) = tr_hits t"
  by (simp_all add: predict_track_def Let_def)

lemma associate_all_ok:
  assumes "tracker_ok T" and srt: "\<And>xs. set (srt xs) \<subseteq> set xs"
  shows "assoc_ok (track_ids T) (length dets) (associate_all F srt T dets)"
proof -
  let ?nD = "length dets"
  have i: "assoc_ok (track_ids T) ?nD
    \<lparr>aw_tracks = map (predict_track F) (tk_tracks T), aw_det_matched = replicate ?nD False,
     aw_track_matched = replicate (length (map (predict_track F) (tk_tracks T))) False,
     aw_det_to_track = replicate ?nD (- 1)\<rparr>"
    using assms(1) by (auto simp: assoc_ok_def tracker_ok_def)
  have a: "assoc_ok (track_ids T) ?nD (associate F srt T dets (filter P [0..<?nD]) lo thr m st)"
    if "assoc_ok (track_ids T) ?nD st" for P lo thr m st
    by (rule associate_ok) (use that srt in auto)
  have b: "assoc_ok (track_ids T) ?nD (if c then associate F srt T dets (filter P [0..<?nD]) lo thr m st else st)"
    if "assoc_ok (track_ids T) ?nD st" for c P lo thr m st
    using that a by simp
  show ?thesis
    unfolding associate_all_def Let_def filter_filter by (intro b a i)
qed

section \<open>New tracks\<close>

text \<open>The state of the spawning loop, \<open>todo\<close> being the detections still to come.\<close>

definition spawn_ok :: "int list \<Rightarrow> nat \<Rightarrow> bool list \<Rightarrow> nat list \<Rightarrow> int \<Rightarrow> 'f Track list \<times> int \<times> int list \<Rightarrow> bool" where
  "spawn_ok ids nD dm todo first s =
     (case s of (tracks, next_id, dtt) \<Rightarrow>
        map tr_id tracks = ids @ [first..next_id - 1] \<and> first \<le> next_id \<and> length dtt = nD \<and>
        (\<forall>t \<in> set tracks. 1 \<le> tr_hits t) \<and>
        (\<forall>di < nD. dtt ! di \<noteq> - 1 \<longrightarrow> 0 \<le> dtt ! di \<and> nat (dtt ! di) < length tracks \<and>
           tr_time_since_update (tracks ! nat (dtt ! di)) = 0) \<and>
        (\<forall>di < nD. \<forall>dj < nD. dtt ! di \<noteq> - 1 \<longrightarrow> dtt ! di = dtt ! dj \<longrightarrow> di = dj) \<and>
        (\<forall>di \<in> set todo. \<not> dm ! di \<longrightarrow> dtt ! di = - 1))"

lemma spawn_track_ok:
  assumes "spawn_ok ids nD dm (di # todo) first s" and "di < nD" and "di \<notin> set todo"
  shows "spawn_ok ids nD dm todo first (spawn_track F dets dm di s)"
proof -
  obtain tracks next_id dtt where s: "s = (tracks, next_id, dtt)" by (cases s)
  note ok = assms(1) [unfolded s spawn_ok_def prod.case]
  show ?thesis
  proof (cases "dm ! di")
    case True
    then show ?thesis using ok by (auto simp: s spawn_track_def spawn_ok_def)
  next
    case False
    let ?t = "new_track F next_id (dets ! di)" and ?dtt = "dtt[di := int (length tracks)]"
    have t: "tr_id ?t = next_id" "tr_hits ?t = 1" "tr_time_since_update ?t = 0"
      by (simp_all add: new_track_def Let_def)
    have "map tr_id (tracks @ [?t]) = ids @ [first..next_id + 1 - 1]"
      using ok t(1) by (simp add: upto_rec2 [of first next_id])
    moreover have "0 \<le> ?dtt ! dj \<and> nat (?dtt ! dj) < length (tracks @ [?t]) \<and>
        tr_time_since_update ((tracks @ [?t]) ! nat (?dtt ! dj)) = 0" if "dj < nD" "?dtt ! dj \<noteq> - 1" for dj
      using that ok t(3) by (cases "dj = di") (auto simp: nth_append)
    moreover have "dj = dk" if "dj < nD" "dk < nD" "?dtt ! dj \<noteq> - 1" "?dtt ! dj = ?dtt ! dk" for dj dk
    proof -
      have lt: "dtt ! d < int (length tracks)" if "d < nD" for d
        using ok that by (cases "dtt ! d = - 1") auto
      have len: "length dtt = nD" using ok by simp
      consider "dj = di" "dk = di" | "dj = di" "dk \<noteq> di" | "dj \<noteq> di" "dk = di" | "dj \<noteq> di" "dk \<noteq> di" by blast
      then show ?thesis
      proof cases
        case 2
        then show ?thesis using that(4) lt [OF that(2)] that(1) len by simp
      next
        case 3
        then show ?thesis using that(4) lt [OF that(1)] that(2) len by simp
      next
        case 4
        then show ?thesis using that ok by simp
      qed simp
    qed
    moreover have "?dtt ! dj = - 1" if "dj \<in> set todo" "\<not> dm ! dj" for dj
    proof -
      have "dj \<noteq> di" using that(1) assms(3) by auto
      then show ?thesis using that ok by simp
    qed
    ultimately show ?thesis
      using ok t(2) False by (simp add: s spawn_track_def spawn_ok_def)
  qed
qed

lemma spawn_fold_ok:
  "\<lbrakk>spawn_ok ids nD dm todo first s; \<forall>di \<in> set todo. di < nD; distinct todo\<rbrakk>
    \<Longrightarrow> spawn_ok ids nD dm [] first (fold (spawn_track F dets dm) todo s)"
proof (induction todo arbitrary: s)
  case (Cons di todo)
  have "spawn_ok ids nD dm todo first (spawn_track F dets dm di s)"
    by (rule spawn_track_ok) (use Cons.prems in auto)
  then show ?case using Cons.IH Cons.prems by simp
qed simp

section \<open>A batch\<close>

lemma distinct_filter_nth:
  "(\<forall>i < length xs. \<forall>j < length xs. P (xs ! i) \<longrightarrow> xs ! i = xs ! j \<longrightarrow> i = j) \<Longrightarrow> distinct (filter P xs)"
proof (induction xs)
  case (Cons x xs)
  have "distinct (filter P xs)"
  proof (rule Cons.IH, intro allI impI)
    fix i j assume a: "i < length xs" "j < length xs" "P (xs ! i)" "xs ! i = xs ! j"
    then have "Suc i = Suc j" using Cons.prems by (metis Suc_less_eq length_Cons nth_Cons_Suc)
    then show "i = j" by simp
  qed
  moreover have "x \<notin> set xs" if "P x"
  proof
    assume "x \<in> set xs"
    then obtain j where "j < length xs" "xs ! j = x" by (auto simp: in_set_conv_nth)
    then have "0 = Suc j" using Cons.prems that by (metis Suc_less_eq length_Cons nth_Cons_0 nth_Cons_Suc zero_less_Suc)
    then show False by simp
  qed
  ultimately show ?case by simp
qed simp

lemma update_ok:
  assumes T: "tracker_ok T" and srt: "\<And>xs. set (srt xs) \<subseteq> set xs" and u: "update F srt dets T = (T', ids)"
  shows "tracker_ok T'" and "length ids = length dets" and "distinct (filter (\<lambda>k. k \<noteq> 0) ids)"
    and "tk_next_id T \<le> tk_next_id T'"
    and "x \<in> set (track_ids T') \<Longrightarrow> x \<in> set (track_ids T) \<or> tk_next_id T \<le> x"
    and "x \<in> set ids \<Longrightarrow> x \<noteq> 0 \<Longrightarrow> x \<in> set (track_ids T) \<or> tk_next_id T \<le> x"
    and "x \<in> set ids \<Longrightarrow> x \<noteq> 0 \<Longrightarrow> 0 \<le> tk_max_age T \<Longrightarrow>
      \<exists>t \<in> set (tk_tracks T'). tr_id t = x \<and> tk_min_hits T \<le> tr_hits t"
proof -
  let ?nD = "length dets" and ?n = "tk_next_id T"
  define st where "st = associate_all F srt T dets"
  define high where "high = filter (\<lambda>di. \<not> is_low F T (dets ! di)) [0..<?nD]"
  obtain tracks next_id dtt where f: "fold (spawn_track F dets (aw_det_matched st)) high
      (aw_tracks st, ?n, aw_det_to_track st) = (tracks, next_id, dtt)" by (metis prod_cases3)
  have T': "T' = T\<lparr>tk_tracks := filter (\<lambda>t. \<not> tr_time_since_update t > tk_max_age T) tracks, tk_next_id := next_id\<rparr>"
    and ids: "ids = map (assigned_id (tk_min_hits T) tracks) dtt"
    using u f by (simp_all add: update_def st_def high_def Let_def)
  have a: "assoc_ok (track_ids T) ?nD st" unfolding st_def by (rule associate_all_ok [OF T srt])
  have high: "\<forall>di \<in> set high. di < ?nD" "distinct high" by (auto simp: high_def)
  have "spawn_ok (track_ids T) ?nD (aw_det_matched st) high ?n (aw_tracks st, ?n, aw_det_to_track st)"
    using a high(1) assoc_ok_length [OF a] by (auto simp: spawn_ok_def assoc_ok_def)
  from spawn_fold_ok [OF this high, of F dets] f
  have ok: "map tr_id tracks = track_ids T @ [?n..next_id - 1]" "?n \<le> next_id" "length dtt = ?nD"
    "\<forall>t \<in> set tracks. 1 \<le> tr_hits t"
    "\<forall>di < ?nD. dtt ! di \<noteq> - 1 \<longrightarrow> 0 \<le> dtt ! di \<and> nat (dtt ! di) < length tracks \<and>
       tr_time_since_update (tracks ! nat (dtt ! di)) = 0"
    "\<forall>di < ?nD. \<forall>dj < ?nD. dtt ! di \<noteq> - 1 \<longrightarrow> dtt ! di = dtt ! dj \<longrightarrow> di = dj"
    by (simp_all add: spawn_ok_def)
  have rng: "\<forall>k \<in> set (track_ids T). 1 \<le> k \<and> k < ?n" "distinct (track_ids T)" "1 \<le> ?n"
    using T by (auto simp: tracker_ok_def)
  then have dist: "distinct (map tr_id tracks)" unfolding ok(1) by auto
  have idr: "1 \<le> k \<and> k < next_id" if "k \<in> set (map tr_id tracks)" for k
    using that rng ok(2) unfolding ok(1) by auto
  have id: "ids ! i = tr_id (tracks ! nat (dtt ! i)) \<and> dtt ! i \<noteq> - 1 \<and> nat (dtt ! i) < length tracks \<and>
      tk_min_hits T \<le> tr_hits (tracks ! nat (dtt ! i)) \<and> tr_time_since_update (tracks ! nat (dtt ! i)) = 0"
    if "i < ?nD" "ids ! i \<noteq> 0" for i
    using that ok(3,5) by (auto simp: ids assigned_id_def split: if_splits)
  show "tracker_ok T'"
    using dist idr ok(4) rng(3) ok(2) by (auto simp: T' tracker_ok_def distinct_map intro: inj_on_subset)
  show "length ids = length dets" using ok(3) by (simp add: ids)
  show "distinct (filter (\<lambda>k. k \<noteq> 0) ids)"
  proof (rule distinct_filter_nth, intro allI impI)
    fix i j assume ij: "i < length ids" "j < length ids" "ids ! i \<noteq> 0" "ids ! i = ids ! j"
    then have ij': "i < ?nD" "j < ?nD" "ids ! j \<noteq> 0" using ok(3) by (simp_all add: ids)
    note di = id [OF ij'(1) ij(3)] and dj = id [OF ij'(2,3)]
    have "map tr_id tracks ! nat (dtt ! i) = map tr_id tracks ! nat (dtt ! j)" using di dj ij(4) by simp
    then have "nat (dtt ! i) = nat (dtt ! j)"
      using dist di dj by (metis length_map nth_eq_iff_index_eq)
    moreover have "0 \<le> dtt ! i" "0 \<le> dtt ! j" using ok(5) di dj ij' by auto
    ultimately have "dtt ! i = dtt ! j" by linarith
    then show "i = j" using ok(6) ij' di by blast
  qed
  show "tk_next_id T \<le> tk_next_id T'" using ok(2) by (simp add: T')
  have all: "k \<in> set (track_ids T) \<or> ?n \<le> k" if "k \<in> set (map tr_id tracks)" for k
    using that unfolding ok(1) by auto
  show "x \<in> set (track_ids T') \<Longrightarrow> x \<in> set (track_ids T) \<or> ?n \<le> x"
    by (rule all) (auto simp: T')
  show "x \<in> set (track_ids T) \<or> ?n \<le> x" if "x \<in> set ids" "x \<noteq> 0"
  proof -
    obtain i where "i < ?nD" "ids ! i = x" using \<open>x \<in> set ids\<close> ok(3) by (auto simp: in_set_conv_nth ids)
    then have "x \<in> set (map tr_id tracks)" using id [of i] that by force
    then show ?thesis by (rule all)
  qed
  show "\<exists>t \<in> set (tk_tracks T'). tr_id t = x \<and> tk_min_hits T \<le> tr_hits t"
    if "x \<in> set ids" "x \<noteq> 0" "0 \<le> tk_max_age T"
  proof -
    obtain i where i: "i < ?nD" "ids ! i = x" using \<open>x \<in> set ids\<close> ok(3) by (auto simp: in_set_conv_nth ids)
    with id [of i] that have "tracks ! nat (dtt ! i) \<in> set (tk_tracks T')" by (auto simp: T')
    moreover have "tr_id (tracks ! nat (dtt ! i)) = x" "tk_min_hits T \<le> tr_hits (tracks ! nat (dtt ! i))"
      using id [of i] i that(2) by simp_all
    ultimately show ?thesis by blast
  qed
qed


definition demo_tracker :: "int Tracker" where
  "demo_tracker = (tp_params (TrackerState_init int_floats))\<lparr>tk_iou_threshold := 1, tk_min_hits := 1\<rparr>"

lemma demo_tracker_ok: "tracker_ok demo_tracker"
  by (simp add: demo_tracker_def TrackerState_init_def tracker_ok_def)

definition demo_det :: "int \<Rightarrow> int Det" where
  "demo_det x = \<lparr>d_x = x, d_y = 0, d_w = 10, d_h = 10, d_class_id = 1, d_confidence = 1, d_embedding = []\<rparr>"

lemma demo_update: "snd (update int_floats (\<lambda>ps. ps) [demo_det 0, demo_det 50] demo_tracker) = [1, 2]"
  by code_simp


section \<open>Runs\<close>

fun update_run ::
  "'f floats \<Rightarrow> 'f pair_sort \<Rightarrow> 'f Det list list \<Rightarrow> 'f Tracker \<Rightarrow> 'f Tracker \<times> int list list" where
  "update_run F srt [] T = (T, [])"
| "update_run F srt (dets # batches) T =
     (case update F srt dets T of (T1, ids) \<Rightarrow>
        (case update_run F srt batches T1 of (T2, outs) \<Rightarrow> (T2, ids # outs)))"

lemma update_run_gone:
  assumes srt: "\<And>xs. set (srt xs) \<subseteq> set xs"
  shows "\<lbrakk>tracker_ok T; update_run F srt batches T = (T', outs); 0 < x; x < tk_next_id T; x \<notin> set (track_ids T)\<rbrakk>
    \<Longrightarrow> tracker_ok T' \<and> x \<notin> set (concat outs) \<and> x \<notin> set (track_ids T')"
proof (induction batches arbitrary: T outs)
  case (Cons dets batches)
  obtain T1 ids where u: "update F srt dets T = (T1, ids)" by (cases "update F srt dets T")
  obtain T2 outs' where r: "update_run F srt batches T1 = (T2, outs')" by (cases "update_run F srt batches T1")
  note ok = update_ok [OF Cons.prems(1) srt u]
  have "x \<notin> set (track_ids T1)" "x \<notin> set ids"
    using ok(5,6) [of x] Cons.prems(3-5) by auto
  moreover have "x < tk_next_id T1" using ok(4) Cons.prems(4) by simp
  ultimately show ?case
    using Cons.IH [OF ok(1), of outs'] r u Cons.prems(2,3) by auto
qed simp

text \<open>
  A number that was given to a track and whose track is gone is never used again: no later batch, of any
  number of them, assigns it to a detection.
\<close>
theorem tracker_ids_never_return:
  assumes "tracker_ok T" and "\<And>xs. set (srt xs) \<subseteq> set xs" and "update_run F srt batches T = (T', outs)"
    and "0 < x" and "x < tk_next_id T" and "x \<notin> set (track_ids T)"
  shows "x \<notin> set (concat outs)"
  using update_run_gone [OF assms(2,1,3-6)] by blast

theorem tracker_ids_never_return_witness:
  "\<exists>T' outs. update_run int_floats (\<lambda>ps. ps) [[demo_det 0], [demo_det 0]] (demo_tracker\<lparr>tk_next_id := 5\<rparr>) = (T', outs) \<and>
     4 \<notin> set (concat outs)"
proof -
  let ?T = "demo_tracker\<lparr>tk_next_id := 5\<rparr>"
  obtain T' outs where r: "update_run int_floats (\<lambda>ps. ps) [[demo_det 0], [demo_det 0]] ?T = (T', outs)"
    by (cases "update_run int_floats (\<lambda>ps. ps) [[demo_det 0], [demo_det 0]] ?T")
  have ok: "tracker_ok ?T" and no: "4 \<notin> set (track_ids ?T)"
    by (simp_all add: demo_tracker_def TrackerState_init_def tracker_ok_def)
  have "4 \<notin> set (concat outs)"
    by (rule tracker_ids_never_return [OF ok subset_refl r _ _ no]) simp_all
  with r show ?thesis by blast
qed

end
