(* ===== verification/Vlm_Client.thy ===== *)
theory Vlm_Client
  imports Floats Std_Strings Base64
begin

text \<open>
  The client of the vision-language server: plugins/describe_vlm/vlm_client.hpp,
  plugins/llm_event_review/provider.hpp, and the prompts of plugins/llm_event_review/llm_event_review.cpp.
  The HTTP library and the printing of floating-point numbers are parameters.
\<close>

section \<open>Requests\<close>

text \<open>The encoder of vlm_client.hpp is the same code as the one of common/base64.hpp.\<close>

definition vlm_base64_encode :: "bytes \<Rightarrow> string" where
  "vlm_base64_encode data = (if data = [] then [] else b64_encode data)"

record ReqFrame =
  rf_jpeg_base64 :: string
  rf_caption :: string

datatype content_part = TextPart string | ImagePart string

datatype message_content = PlainText string | Parts "content_part list"

datatype 'j response_format = SchemaFormat 'j | ObjectFormat

record 'j chat_request =
  cq_model :: string
  cq_content :: message_content           \<comment> \<open>of the one message, with the role user\<close>
  cq_max_tokens :: int
  cq_response_format :: "'j response_format option"
  cq_enable_thinking :: "bool option"

definition frame_parts :: "ReqFrame \<Rightarrow> content_part list" where
  "frame_parts f = (if rf_caption f \<noteq> [] then [TextPart (rf_caption f)] else []) @
     [ImagePart (''data:image/jpeg;base64,'' @ rf_jpeg_base64 f)]"

definition build_chat_request_json_multi ::
  "'j json_api \<Rightarrow> string \<Rightarrow> string \<Rightarrow> ReqFrame list \<Rightarrow> int \<Rightarrow> string \<Rightarrow> 'j chat_request" where
  "build_chat_request_json_multi J model prompt frames max_tokens response_schema =
     \<lparr>cq_model = model, cq_content = Parts (TextPart prompt # concat (map frame_parts frames)), cq_max_tokens = max_tokens,
      cq_response_format =
        (if response_schema = [] then None
         else case j_parse J response_schema of
           Some schema \<Rightarrow> if j_is_object J schema then Some (SchemaFormat schema) else Some ObjectFormat
         | None \<Rightarrow> Some ObjectFormat),
      cq_enable_thinking = None\<rparr>"

definition build_chat_request_json :: "'j json_api \<Rightarrow> string \<Rightarrow> string \<Rightarrow> string \<Rightarrow> 'j chat_request" where
  "build_chat_request_json J model prompt jpeg_base64 =
     build_chat_request_json_multi J model prompt [\<lparr>rf_jpeg_base64 = jpeg_base64, rf_caption = []\<rparr>] 128 []"

section \<open>Answers\<close>

definition parse_chat_response_text :: "'j json_api \<Rightarrow> string \<Rightarrow> string" where
  "parse_chat_response_text J response_json =
     (case j_parse J response_json of
        None \<Rightarrow> []
      | Some j \<Rightarrow>
          (case j_field J j ''choices'' of
             None \<Rightarrow> []
           | Some cs \<Rightarrow>
               if \<not> j_is_array J cs \<or> j_elements J cs = [] then []
               else (case j_field J (hd (j_elements J cs)) ''message'' of
                  None \<Rightarrow> []
                | Some message \<Rightarrow>
                    (case j_field J message ''content'' of
                       None \<Rightarrow> []
                     | Some c \<Rightarrow> if \<not> j_is_string J c then []
                         else (case j_string J c of None \<Rightarrow> [] | Some t \<Rightarrow> t)))))"

text \<open>\<open>None\<close> is the null value.\<close>

definition fence :: string where "fence = [char_of (96::nat), char_of (96::nat), char_of (96::nat)]"

definition strip_fence :: "string \<Rightarrow> string" where
  "strip_fence content =
     (case string_find content fence 0 of
        None \<Rightarrow> content
      | Some f \<Rightarrow>
          (case (string_find content [char_of (10::nat)] f, string_rfind content fence) of
             (Some start, Some e) \<Rightarrow> if e > start then substr_to content (start + 1) (Some e) else content
           | _ \<Rightarrow> content))"

definition object_of :: "'j json_api \<Rightarrow> string \<Rightarrow> 'j option" where
  "object_of J content = Option.bind (j_parse J content) (\<lambda>j. if j_is_object J j then Some j else None)"

definition parse_structured_response :: "'j json_api \<Rightarrow> string \<Rightarrow> 'j option" where
  "parse_structured_response J response_json =
     (let content = parse_chat_response_text J response_json in
      if content = [] then None
      else let content = strip_fence content in
        case object_of J content of
          Some j \<Rightarrow> Some j
        | None \<Rightarrow>
            (case (string_find content ''{'' 0, string_rfind content ''}'') of
               (Some b, Some e) \<Rightarrow> if e > b then object_of J (substr_to content b (Some (e + 1))) else None
             | _ \<Rightarrow> None))"

section \<open>The provider\<close>

text \<open>
  \<open>curl url request api_key timeout\<close>: \<open>None\<close> when no handle was available, otherwise whether the transfer
  succeeded, the HTTP status, and the body.
\<close>

type_synonym 'j curl = "string \<Rightarrow> 'j chat_request \<Rightarrow> string \<Rightarrow> int \<Rightarrow> (bool \<times> int \<times> string) option"

record LocalOpenAICompat =
  p_serverUrl :: string
  p_model :: string
  p_apiKey :: string
  p_timeoutSec :: int
  p_enableThinking :: bool

definition make_provider :: "string \<Rightarrow> string \<Rightarrow> string \<Rightarrow> string \<Rightarrow> int \<Rightarrow> bool \<Rightarrow> LocalOpenAICompat" where
  "make_provider provider server_url model api_key timeout_sec enable_thinking =
     \<lparr>p_serverUrl = server_url, p_model = model, p_apiKey = api_key,
      p_timeoutSec = (if timeout_sec > 0 then timeout_sec else 60), p_enableThinking = enable_thinking\<rparr>"

definition httpPostJson :: "'j curl \<Rightarrow> string \<Rightarrow> 'j chat_request \<Rightarrow> string \<Rightarrow> int \<Rightarrow> string option" where
  "httpPostJson curl url body apiKey timeoutSec =
     (case curl url body apiKey timeoutSec of
        None \<Rightarrow> None
      | Some (ok, httpCode, response) \<Rightarrow>
          if \<not> ok then None else if httpCode < 200 \<or> httpCode \<ge> 300 then None else Some response)"

definition provider_describe :: "'j json_api \<Rightarrow> 'j curl \<Rightarrow> LocalOpenAICompat \<Rightarrow> bytes \<Rightarrow> string \<Rightarrow> string" where
  "provider_describe J curl p jpeg prompt =
     (if jpeg = [] then []
      else let body = (build_chat_request_json J (p_model p) prompt (vlm_base64_encode jpeg))
                 \<lparr>cq_enable_thinking := Some (p_enableThinking p)\<rparr>
           in case httpPostJson curl (p_serverUrl p) body (p_apiKey p) (p_timeoutSec p) of
                None \<Rightarrow> [] | Some response \<Rightarrow> parse_chat_response_text J response)"

definition provider_narrate :: "'j json_api \<Rightarrow> 'j curl \<Rightarrow> LocalOpenAICompat \<Rightarrow> string \<Rightarrow> string" where
  "provider_narrate J curl p prompt =
     (let body = \<lparr>cq_model = p_model p, cq_content = PlainText prompt, cq_max_tokens = 512, cq_response_format = None,
                  cq_enable_thinking = Some (p_enableThinking p)\<rparr>
      in case httpPostJson curl (p_serverUrl p) body (p_apiKey p) (p_timeoutSec p) of
           None \<Rightarrow> [] | Some response \<Rightarrow> parse_chat_response_text J response)"

section \<open>Prompts\<close>

text \<open>
  The loop that replaces a token: the position moves behind each replacement. An empty token, which does not
  occur, would not end.
\<close>

function sub_from :: "string \<Rightarrow> string \<Rightarrow> string \<Rightarrow> nat \<Rightarrow> string" where
  "sub_from tok val p pos =
     (if tok = [] then p
      else case string_find p tok pos of
        None \<Rightarrow> p
      | Some i \<Rightarrow> sub_from tok val (take i p @ val @ drop (i + length tok) p) (i + length val))"
  by auto
termination
proof (relation "measure (\<lambda>(tok, val, p, pos). length p - pos)")
  fix tok val p :: string and pos i
  assume "tok \<noteq> []" "string_find p tok pos = Some i"
  then show "((tok, val, take i p @ val @ drop (i + length tok) p, i + length val), tok, val, p, pos)
      \<in> measure (\<lambda>(tok, val, p, pos). length p - pos)"
    using string_find_Some [of p tok pos i] by (cases tok) auto
qed simp

declare sub_from.simps [simp del]

definition sub :: "string \<Rightarrow> string \<Rightarrow> string \<Rightarrow> string" where
  "sub tok val p = sub_from tok val p 0"

text \<open>\<open>snprintf\<close> of a number with \<open>%.1f\<close>, \<open>%.2f\<close> and \<open>%+.1f\<close>.\<close>

record 'd number_format =
  nf_1f :: "'d \<Rightarrow> string"
  nf_2f :: "'d \<Rightarrow> string"
  nf_plus_1f :: "'d \<Rightarrow> string"

definition renderPrompt :: "string \<Rightarrow> string \<Rightarrow> string \<Rightarrow> string" where
  "renderPrompt prompt label reason =
     sub ''[trigger_reason]'' reason (sub ''[reason]'' reason (sub ''[label]'' label prompt))"

definition renderMontagePrompt :: "'d number_format \<Rightarrow> string \<Rightarrow> string \<Rightarrow> string \<Rightarrow> int \<Rightarrow> 'd \<Rightarrow> string" where
  "renderMontagePrompt NF montagePrompt label reason n spanSec =
     (let span = snprintf_cut 32 (nf_1f NF spanSec);
          p = sub ''[label]'' label montagePrompt;
          p = sub ''[reason]'' reason p;
          p = sub ''[trigger_reason]'' reason p;
          p = sub ''[n]'' (to_string n) p
      in sub ''[span_sec]'' span p)"

record 'd Caption =
  cap_tSec :: 'd
  cap_text :: string

record ('f, 'd) Point =
  pnt_tSec :: 'd
  pnt_cx :: 'f
  pnt_cy :: 'f

definition newline :: string where "newline = [char_of (10::nat)]"

definition caption_line :: "'d number_format \<Rightarrow> 'd Caption \<Rightarrow> string" where
  "caption_line NF c = ''- '' @ snprintf_cut 24 (''t+'' @ nf_1f NF (cap_tSec c) @ ''s: '') @ cap_text c @ newline"

definition point_text :: "'d number_format \<Rightarrow> ('f, 'd) casts \<Rightarrow> bool \<Rightarrow> ('f, 'd) Point \<Rightarrow> string" where
  "point_text NF X first p =
     snprintf_cut 40 ((if first then [] else '' -> '') @ ''('' @ nf_2f NF (c_double X (pnt_cx p)) @ '','' @
       nf_2f NF (c_double X (pnt_cy p)) @ '')'')"

definition path_text :: "'d number_format \<Rightarrow> ('f, 'd) casts \<Rightarrow> ('f, 'd) Point list \<Rightarrow> string" where
  "path_text NF X traj =
     (case traj of [] \<Rightarrow> []
      | p # ps \<Rightarrow> ''Movement path (normalized 0-1, x=right, y=down): '' @ point_text NF X True p @
          concat (map (point_text NF X False) ps) @ newline)"

definition buildNarratorPrompt ::
  "'d number_format \<Rightarrow> ('f, 'd) casts \<Rightarrow> string \<Rightarrow> string \<Rightarrow> 'd Caption list \<Rightarrow> ('f, 'd) Point list \<Rightarrow> string" where
  "buildNarratorPrompt NF X narratorPrompt label timeline traj =
     sub ''[label]'' label narratorPrompt @ newline @ newline @ ''Observations (in order):'' @ newline @
     concat (map (caption_line NF) timeline) @ path_text NF X traj"

section \<open>What the replacement computes\<close>

function replace_all :: "string \<Rightarrow> string \<Rightarrow> string \<Rightarrow> string" where
  "replace_all tok val [] = []"
| "replace_all tok val (c # s) =
     (if tok \<noteq> [] \<and> has_prefix tok (c # s) then val @ replace_all tok val (drop (length tok) (c # s))
      else c # replace_all tok val s)"
  by pat_completeness auto
termination by (relation "measure (\<lambda>(tok, val, s). length s)") auto

lemma sub_from_replaces:
  "tok \<noteq> [] \<Longrightarrow> sub_from tok val (pre @ s) (length pre) = pre @ replace_all tok val s"
proof (induction tok val s arbitrary: pre rule: replace_all.induct)
  case (1 tok val)
  have "string_find pre tok (length pre) = None"
    using 1 by (cases tok) (auto simp: string_find_def)
  then show ?case by (simp add: sub_from.simps 1)
next
  case (2 tok val c s)
  show ?case
  proof (cases "has_prefix tok (c # s)")
    case True
    then have "string_find (pre @ c # s) tok (length pre) = Some (length pre)"
      by (simp add: string_find_step)
    then have "sub_from tok val (pre @ c # s) (length pre) =
        sub_from tok val ((pre @ val) @ drop (length tok) (c # s)) (length (pre @ val))"
      using 2(3) by (subst sub_from.simps) simp
    also have "\<dots> = (pre @ val) @ replace_all tok val (drop (length tok) (c # s))"
      using 2(1) [of "pre @ val"] 2(3) True by blast
    finally show ?thesis using True 2(3) by simp
  next
    case False
    then have "string_find (pre @ c # s) tok (length pre) = string_find (pre @ c # s) tok (Suc (length pre))"
      by (simp add: string_find_step)
    then have "sub_from tok val (pre @ c # s) (length pre) = sub_from tok val ((pre @ [c]) @ s) (length (pre @ [c]))"
      by (subst (1 2) sub_from.simps) (simp split: option.split)
    also have "\<dots> = (pre @ [c]) @ replace_all tok val s"
      using 2(2) [of "pre @ [c]"] 2(3) False by blast
    finally show ?thesis using False by simp
  qed
qed

lemma sub_replaces: "tok \<noteq> [] \<Longrightarrow> sub tok val p = replace_all tok val p"
  using sub_from_replaces [of tok val "[]" p] by (simp add: sub_def)

text \<open>
  The loop that fills a token into a prompt ends and replaces every occurrence from the left, once: text
  that a replacement brings in is not searched again.
\<close>
theorem sub_replaces_once:
  assumes "tok \<noteq> []"
  shows "sub tok val p = replace_all tok val p"
  using assms by (rule sub_replaces)

theorem sub_replaces_once_witness:
  "sub ''[n]'' ''[n][n]'' ''a[n]b[n]'' = ''a[n][n]b[n][n]''"
proof -
  have "''[n]'' \<noteq> []" by simp
  from sub_replaces_once [OF this] show ?thesis by code_simp
qed

text \<open>
  The label is filled in before the reason, so a label that contains \<open>[reason]\<close> is expanded again.
\<close>
lemma label_is_expanded_again:
  "renderPrompt ''[label]'' ''[reason]'' ''x'' = ''x''"
  by (simp add: renderPrompt_def sub_replaces)

end
