(* ===== verification/Describe_Vlm.thy ===== *)
theory Describe_Vlm
  imports Vlm_Client Frame_Header "HOL-Library.Sublist"
begin

text \<open>
  The scene describer, plugins/describe_vlm/describe_vlm.cpp: the event that arms it, the worker with its
  throttle, the request, and the frames. The JPEG encoder and libcurl are parameters; a turn of the worker
  is one step, with the clock in nanoseconds as an argument.
\<close>

section \<open>State\<close>

record TriggerState =
  tg_running :: bool
  tg_fired :: bool
  tg_types :: "string list"
  tg_streamFilter :: "u32 list"
  tg_lastTrigger :: string

record RingFrame =
  rfr_pts :: u64
  rfr_w :: int
  rfr_h :: int
  rfr_rgb :: bytes

record 'd DescribeVlmCtx =
  dv_frameWidth :: int
  dv_frameHeight :: int
  dv_serverUrl :: string
  dv_model :: string
  dv_prompt :: string
  dv_intervalSec :: 'd
  dv_streamFilter :: "u32 list"
  dv_triggerTypes :: "string list"
  dv_frames :: int
  dv_frameIntervalMs :: int
  dv_jsonOutput :: bool
  dv_maxTokens :: int
  dv_latestFrame :: bytes
  dv_latestWidth :: int
  dv_latestHeight :: int
  dv_latestStreamId :: u32
  dv_latestPtsUsec :: u64
  dv_haveFrame :: bool
  dv_ring :: "RingFrame list"
  dv_curTrigger :: string
  dv_running :: bool
  dv_trig :: TriggerState
  dv_lastDescribe :: int          \<comment> \<open>a variable of the worker\<close>

section \<open>The trigger\<close>

text \<open>An exception ends the callback before it changed anything.\<close>

definition describe_trigger_cb :: "'j json_api \<Rightarrow> string \<Rightarrow> TriggerState \<Rightarrow> TriggerState" where
  "describe_trigger_cb J json_event ts =
     (if \<not> tg_running ts then ts
      else case j_parse J json_event of
        None \<Rightarrow> ts
      | Some j \<Rightarrow>
          (case j_value_string J j ''type'' [] of
             None \<Rightarrow> ts
           | Some ty \<Rightarrow>
               if ty \<notin> set (tg_types ts) then ts
               else if tg_streamFilter ts \<noteq> [] \<and>
                 (case j_value_u64 J j ''stream_id'' 0 of
                    None \<Rightarrow> True | Some sid \<Rightarrow> ucast sid \<notin> set (tg_streamFilter ts)) then ts
               else ts\<lparr>tg_fired := True, tg_lastTrigger := json_event\<rparr>))"

section \<open>The request\<close>

definition kSceneSchema :: string where
  "kSceneSchema = ''{\"type\":\"object\",\"properties\":{\"description\":{\"type\":\"string\"},'' @
     ''\"threat_level\":{\"type\":\"string\",\"enum\":[\"LOW\",\"MEDIUM\",\"HIGH\"]},'' @
     ''\"confidence\":{\"type\":\"number\"}},\"required\":[\"description\",\"threat_level\"]}''"

text \<open>The frames that are sent, and the stream and time of the latest one; \<open>None\<close> without a frame.\<close>

definition picked_frames :: "'d DescribeVlmCtx \<Rightarrow> RingFrame list option" where
  "picked_frames c =
     (if \<not> dv_haveFrame c \<or> dv_latestFrame c = [] then None
      else if dv_frames c > 1 \<and> dv_ring c \<noteq> [] then Some (dv_ring c)
      else Some [\<lparr>rfr_pts = dv_latestPtsUsec c, rfr_w = dv_latestWidth c, rfr_h = dv_latestHeight c, rfr_rgb = dv_latestFrame c\<rparr>])"

definition frame_fits :: "RingFrame \<Rightarrow> bool" where
  "frame_fits f \<longleftrightarrow> rfr_w f > 0 \<and> rfr_h f > 0 \<and> int (length (rfr_rgb f)) \<ge> rfr_w f * rfr_h f * 3"

definition request_frames ::
  "'d floats \<Rightarrow> 'd number_format \<Rightarrow> (bytes \<Rightarrow> int \<Rightarrow> int \<Rightarrow> bytes option) \<Rightarrow> RingFrame list \<Rightarrow> ReqFrame list" where
  "request_frames D NF jpeg picked =
     concat (map (\<lambda>f.
       if \<not> frame_fits f then []
       else case jpeg (rfr_rgb f) (rfr_w f) (rfr_h f) of
         None \<Rightarrow> []
       | Some b \<Rightarrow> [\<lparr>rf_jpeg_base64 = vlm_base64_encode b,
           rf_caption = (if length picked > 1
             then snprintf_cut 48 (''Frame at t='' @ nf_plus_1f NF
               (fl_div D (fl_sub D (fl_num D (uint (rfr_pts f)) 1) (fl_num D (uint (rfr_pts (last picked))) 1)) (fl_num D 1000000 1)) @ ''s:'')
             else [])\<rparr>]) picked)"

definition http_post_json :: "'j curl \<Rightarrow> string \<Rightarrow> 'j chat_request \<Rightarrow> string option" where
  "http_post_json curl url body =
     (case curl url body [] 60 of
        None \<Rightarrow> None
      | Some (ok, httpCode, response) \<Rightarrow>
          if \<not> ok then None else if httpCode < 200 \<or> httpCode \<ge> 300 then None else Some response)"

text \<open>
  Text, threat level and confidence of an answer; \<open>None\<close> is the exception of a member of the wrong type, which
  nothing on the worker's thread catches.
\<close>

definition read_answer ::
  "'j json_api \<Rightarrow> ('j, 'd) json_float \<Rightarrow> 'd floats \<Rightarrow> bool \<Rightarrow> string \<Rightarrow> (string \<times> string \<times> 'd) option" where
  "read_answer J K D jsonOutput response =
     (let none = fl_num D (- 1) 1 in
      if \<not> jsonOutput then Some (parse_chat_response_text J response, [], none)
      else case parse_structured_response J response of
        None \<Rightarrow> Some (parse_chat_response_text J response, [], none)
      | Some j \<Rightarrow>
          Option.bind (j_value_string J j ''description'' []) (\<lambda>txt.
          Option.bind (j_value_string J j ''threat_level'' []) (\<lambda>threat.
          Option.bind (case j_field J j ''confidence'' of
              None \<Rightarrow> Some none
            | Some v \<Rightarrow> if jf_is_number K v then jf_get K v else Some none) (\<lambda>conf.
            Some (if txt = [] then parse_chat_response_text J response else txt, threat, conf)))))"

record ('j, 'd) Description =
  ds_text :: string
  ds_stream_id :: u32
  ds_pts_usec :: u64
  ds_frames :: int
  ds_threat_level :: "string option"
  ds_scene_confidence :: "'d option"
  ds_trigger_type :: "string option"
  ds_detections :: "'j option"
  ds_label :: "string option"
  ds_confidence :: "'d option"

text \<open>The members taken from the trigger; an exception keeps those before it.\<close>

definition embed_trigger ::
  "'j json_api \<Rightarrow> ('j, 'd) json_float \<Rightarrow> 'd floats \<Rightarrow> string \<Rightarrow> ('j, 'd) Description \<Rightarrow> ('j, 'd) Description" where
  "embed_trigger J K D curTrigger e =
     (if curTrigger = [] then e
      else case j_parse J curTrigger of
        None \<Rightarrow> e
      | Some tj \<Rightarrow> cfg_result (
          let c = cfg_step (j_value_string J tj ''type'' ''detection'') (\<lambda>v e. e\<lparr>ds_trigger_type := Some v\<rparr>) (Inr e) in
          case j_field J tj ''detections'' of
            None \<Rightarrow> c
          | Some a \<Rightarrow>
              if \<not> j_is_array J a then c
              else let c = cfg_step (Some a) (\<lambda>v e. e\<lparr>ds_detections := Some v\<rparr>) c in
                (case j_elements J a of
                   [] \<Rightarrow> c
                 | d # _ \<Rightarrow>
                     if \<not> j_is_object J d then c
                     else cfg_step (jf_value K d ''confidence'' (fl_zero D)) (\<lambda>v e. e\<lparr>ds_confidence := Some v\<rparr>)
                       (cfg_step (j_value_string J d ''label'' []) (\<lambda>v e. e\<lparr>ds_label := Some v\<rparr>) c))))"

text \<open>One inference: \<open>None\<close> for an exception, otherwise the published event if there is one.\<close>

definition run_inference_cycle ::
  "'j json_api \<Rightarrow> ('j, 'd) json_float \<Rightarrow> 'd floats \<Rightarrow> 'd number_format \<Rightarrow> (bytes \<Rightarrow> int \<Rightarrow> int \<Rightarrow> bytes option) \<Rightarrow>
   'j curl \<Rightarrow> 'd DescribeVlmCtx \<Rightarrow> ('j, 'd) Description option option" where
  "run_inference_cycle J K D NF jpeg curl c =
     (case picked_frames c of
        None \<Rightarrow> Some None
      | Some picked \<Rightarrow>
          (let reqs = request_frames D NF jpeg picked in
           if reqs = [] then Some None
           else let body = build_chat_request_json_multi J (dv_model c) (dv_prompt c) reqs (dv_maxTokens c)
                      (if dv_jsonOutput c then kSceneSchema else [])
             in case http_post_json curl (dv_serverUrl c) body of
               None \<Rightarrow> Some None
             | Some response \<Rightarrow>
                 Option.bind (read_answer J K D (dv_jsonOutput c) response) (\<lambda>(txt, threat, conf).
                   if txt = [] then Some None
                   else Some (Some (embed_trigger J K D (dv_curTrigger c)
                     \<lparr>ds_text = txt, ds_stream_id = dv_latestStreamId c, ds_pts_usec = dv_latestPtsUsec c,
                      ds_frames = int (length reqs), ds_threat_level = (if threat \<noteq> [] then Some threat else None),
                      ds_scene_confidence = (if fl_leq D (fl_zero D) conf then Some conf else None),
                      ds_trigger_type = None, ds_detections = None, ds_label = None, ds_confidence = None\<rparr>)))))"

section \<open>The worker\<close>

definition cooldown :: "'d floats \<Rightarrow> 'd DescribeVlmCtx \<Rightarrow> int" where
  "cooldown D c =
     (let intervalSec = (if fl_less D (fl_zero D) (dv_intervalSec c) then dv_intervalSec c else fl_num D 10 1)
      in uint (fl_to_u64 D (fl_mul D intervalSec (fl_num D 1000000000 1))))"

text \<open>
  The part of a turn behind the wait, when the flag is still set: the new state, and whether an inference
  cycle follows.
\<close>

definition worker_check :: "'d floats \<Rightarrow> int \<Rightarrow> 'd DescribeVlmCtx \<Rightarrow> 'd DescribeVlmCtx \<times> bool" where
  "worker_check D now c =
     (let ts = dv_trig c; gated = tg_types ts \<noteq> []; fired = tg_fired ts;
          c = c\<lparr>dv_trig := ts\<lparr>tg_fired := False\<rparr>\<rparr>
      in if gated \<and> \<not> fired then (c, False)
         else if now - dv_lastDescribe c < cooldown D c then (c, False)
         else (c\<lparr>dv_lastDescribe := now, dv_curTrigger := (if fired then tg_lastTrigger ts else [])\<rparr>, True))"

section \<open>Frames\<close>

definition ring_sample :: "int \<Rightarrow> int \<Rightarrow> RingFrame \<Rightarrow> RingFrame list \<Rightarrow> RingFrame list" where
  "ring_sample frames frameIntervalMs f ring =
     (if ring = [] \<or> rfr_pts f - rfr_pts (last ring) \<ge> of_int frameIntervalMs * 1000
      then (let r = ring @ [f] in drop (length r - nat frames) r) else ring)"

definition describe_vlm_on_frame :: "bytes \<Rightarrow> 'd DescribeVlmCtx \<Rightarrow> 'd DescribeVlmCtx" where
  "describe_vlm_on_frame buf c =
     (if length buf < sizeof_frame_hdr then c
      else let hdr = frame_hdr buf; payload = drop sizeof_frame_hdr buf; w = dv_frameWidth c; h = dv_frameHeight c in
        if fh_hw_type hdr = ZM_FRAME_RGB24 \<and> (dv_streamFilter c = [] \<or> fh_stream_id hdr \<in> set (dv_streamFilter c))
        then (let c = c\<lparr>dv_latestFrame := payload, dv_latestWidth := w, dv_latestHeight := h,
                        dv_latestStreamId := fh_stream_id hdr, dv_latestPtsUsec := fh_pts_usec hdr, dv_haveFrame := True\<rparr>
              in if dv_frames c > 1 \<and> w > 0 \<and> h > 0
                 then c\<lparr>dv_ring := ring_sample (dv_frames c) (dv_frameIntervalMs c)
                          \<lparr>rfr_pts = fh_pts_usec hdr, rfr_w = w, rfr_h = h, rfr_rgb = payload\<rparr> (dv_ring c)\<rparr>
                 else c)
        else c)"

section \<open>Start and stop\<close>

definition TriggerState_init :: TriggerState where
  "TriggerState_init = \<lparr>tg_running = True, tg_fired = False, tg_types = [], tg_streamFilter = [], tg_lastTrigger = []\<rparr>"

definition DescribeVlmCtx_init :: "'d floats \<Rightarrow> 'd DescribeVlmCtx" where
  "DescribeVlmCtx_init D = \<lparr>dv_frameWidth = 0, dv_frameHeight = 0, dv_serverUrl = ''http://localhost:8080/v1/chat/completions'',
     dv_model = ''moondream'', dv_prompt = ''Describe what is happening in this security camera image in one sentence.'',
     dv_intervalSec = fl_num D 10 1, dv_streamFilter = [], dv_triggerTypes = [], dv_frames = 1, dv_frameIntervalMs = 700,
     dv_jsonOutput = False, dv_maxTokens = 128, dv_latestFrame = [], dv_latestWidth = 0, dv_latestHeight = 0,
     dv_latestStreamId = 0, dv_latestPtsUsec = 0, dv_haveFrame = False, dv_ring = [], dv_curTrigger = [], dv_running = False,
     dv_trig = TriggerState_init, dv_lastDescribe = 0\<rparr>"

fun dv_streams :: "'j json_api \<Rightarrow> 'j list \<Rightarrow> 'd DescribeVlmCtx + 'd DescribeVlmCtx \<Rightarrow> 'd DescribeVlmCtx + 'd DescribeVlmCtx" where
  "dv_streams J [] c = c"
| "dv_streams J (v # vs) c =
     dv_streams J vs
       (if j_is_integer J v then cfg_step (j_int J v) (\<lambda>n x. x\<lparr>dv_streamFilter := dv_streamFilter x @ [of_int n]\<rparr>) c else c)"

fun dv_types :: "'j json_api \<Rightarrow> 'j list \<Rightarrow> 'd DescribeVlmCtx + 'd DescribeVlmCtx \<Rightarrow> 'd DescribeVlmCtx + 'd DescribeVlmCtx" where
  "dv_types J [] c = c"
| "dv_types J (v # vs) c =
     dv_types J vs
       (if j_is_string J v then cfg_step (j_string J v) (\<lambda>t x. x\<lparr>dv_triggerTypes := dv_triggerTypes x @ [t]\<rparr>) c else c)"

definition dv_config :: "'j json_api \<Rightarrow> ('j, 'd) json_float \<Rightarrow> 'd floats \<Rightarrow> string option \<Rightarrow> 'd DescribeVlmCtx" where
  "dv_config J K D json_cfg =
     (case Option.bind json_cfg (j_parse J) of
        None \<Rightarrow> DescribeVlmCtx_init D
      | Some j \<Rightarrow> cfg_result (
          let dfl = DescribeVlmCtx_init D; c = Inr dfl;
              c = cfg_step (j_value_int J j ''frames'' 1) (\<lambda>v x. x\<lparr>dv_frames := min 8 (max 1 v)\<rparr>) c;
              c = cfg_step (j_value_int J j ''frame_interval_ms'' 700) (\<lambda>v x. x\<lparr>dv_frameIntervalMs := v\<rparr>) c;
              c = cfg_step (j_value_bool J j ''json_output'' False) (\<lambda>v x. x\<lparr>dv_jsonOutput := v\<rparr>) c;
              c = cfg_step (j_value_int J j ''max_tokens'' 128) (\<lambda>v x. x\<lparr>dv_maxTokens := v\<rparr>) c;
              c = cfg_step (j_value_int J j ''frame_width'' 0) (\<lambda>v x. x\<lparr>dv_frameWidth := v\<rparr>) c;
              c = cfg_step (j_value_int J j ''frame_height'' 0) (\<lambda>v x. x\<lparr>dv_frameHeight := v\<rparr>) c;
              c = cfg_step (j_value_string J j ''server_url'' (dv_serverUrl dfl)) (\<lambda>v x. x\<lparr>dv_serverUrl := v\<rparr>) c;
              c = cfg_step (j_value_string J j ''model'' (dv_model dfl)) (\<lambda>v x. x\<lparr>dv_model := v\<rparr>) c;
              c = cfg_step (j_value_string J j ''prompt'' (dv_prompt dfl)) (\<lambda>v x. x\<lparr>dv_prompt := v\<rparr>) c;
              c = cfg_step (jf_value K j ''interval_sec'' (dv_intervalSec dfl)) (\<lambda>v x. x\<lparr>dv_intervalSec := v\<rparr>) c;
              c = (case j_field J j ''stream_filter'' of
                     None \<Rightarrow> c | Some a \<Rightarrow> if j_is_array J a then dv_streams J (j_elements J a) c else c)
          in case j_field J j ''trigger_types'' of
               None \<Rightarrow> c | Some a \<Rightarrow> if j_is_array J a then dv_types J (j_elements J a) c else c))"

text \<open>\<open>now\<close> is the clock when the worker starts: the first description may come at once.\<close>

definition describe_vlm_start ::
  "'j json_api \<Rightarrow> ('j, 'd) json_float \<Rightarrow> 'd floats \<Rightarrow> int \<Rightarrow> string option \<Rightarrow> 'd DescribeVlmCtx" where
  "describe_vlm_start J K D now json_cfg =
     (let c = dv_config J K D json_cfg;
          c = c\<lparr>dv_trig := TriggerState_init\<lparr>tg_types := dv_triggerTypes c, tg_streamFilter := dv_streamFilter c\<rparr>, dv_running := True\<rparr>
      in c\<lparr>dv_lastDescribe := now - cooldown D c\<rparr>)"

definition describe_vlm_stop :: "'d DescribeVlmCtx \<Rightarrow> 'd DescribeVlmCtx" where
  "describe_vlm_stop c = c\<lparr>dv_trig := (dv_trig c)\<lparr>tg_running := False\<rparr>, dv_running := False\<rparr>"

section \<open>Runs\<close>

datatype dv_step = Trigger string | Turn int | Frame bytes

text \<open>A run; the result lists the times and triggers of the inference cycles.\<close>

fun dv_run :: "'j json_api \<Rightarrow> 'd floats \<Rightarrow> dv_step list \<Rightarrow> 'd DescribeVlmCtx \<Rightarrow> 'd DescribeVlmCtx \<times> (int \<times> string) list" where
  "dv_run J D [] c = (c, [])"
| "dv_run J D (Trigger msg # xs) c = dv_run J D xs (c\<lparr>dv_trig := describe_trigger_cb J msg (dv_trig c)\<rparr>)"
| "dv_run J D (Frame buf # xs) c = dv_run J D xs (describe_vlm_on_frame buf c)"
| "dv_run J D (Turn now # xs) c =
     (case worker_check D now c of
        (c1, go) \<Rightarrow> (case dv_run J D xs c1 of (c2, cycles) \<Rightarrow> (c2, (if go then [(now, dv_curTrigger c1)] else []) @ cycles)))"

lemma on_frame_keeps [simp]:
  "dv_trig (describe_vlm_on_frame buf c) = dv_trig c" "dv_lastDescribe (describe_vlm_on_frame buf c) = dv_lastDescribe c"
  "dv_intervalSec (describe_vlm_on_frame buf c) = dv_intervalSec c"
  by (simp_all add: describe_vlm_on_frame_def Let_def)

lemma cooldown_keeps [simp]:
  "cooldown D (describe_vlm_on_frame buf c) = cooldown D c"
  "cooldown D (c\<lparr>dv_trig := t\<rparr>) = cooldown D c" "cooldown D (c\<lparr>dv_lastDescribe := n\<rparr>) = cooldown D c"
  "cooldown D (c\<lparr>dv_curTrigger := q\<rparr>) = cooldown D c"
  by (simp_all add: cooldown_def)

lemma trigger_keeps [simp]: "tg_types (describe_trigger_cb J msg ts) = tg_types ts"
  by (simp add: describe_trigger_cb_def split: option.split)

lemma trigger_fired:
  "tg_fired (describe_trigger_cb J msg ts) \<Longrightarrow>
    describe_trigger_cb J msg ts = ts \<or> tg_lastTrigger (describe_trigger_cb J msg ts) = msg"
  by (simp add: describe_trigger_cb_def split: option.split if_splits)

lemma worker_check_cases:
  assumes "worker_check D now c = (c1, go)"
  shows "cooldown D c1 = cooldown D c \<and> tg_types (dv_trig c1) = tg_types (dv_trig c) \<and> \<not> tg_fired (dv_trig c1) \<and>
    dv_lastDescribe c1 = (if go then now else dv_lastDescribe c) \<and>
    (go \<longrightarrow> cooldown D c \<le> now - dv_lastDescribe c \<and>
      dv_curTrigger c1 = (if tg_fired (dv_trig c) then tg_lastTrigger (dv_trig c) else []) \<and>
      (tg_types (dv_trig c) \<noteq> [] \<longrightarrow> tg_fired (dv_trig c)))"
  using assms by (auto simp: worker_check_def Let_def split: if_splits)

lemma cooldown_nonneg [simp]: "0 \<le> cooldown D c"
  by (simp add: cooldown_def Let_def)

lemma dv_run_cycles:
  "dv_run J D xs c = (c', cycles) \<Longrightarrow>
    (\<forall>q \<in> set cycles. cooldown D c \<le> fst q - dv_lastDescribe c) \<and>
    sorted_wrt (\<lambda>p q. cooldown D c \<le> fst q - fst p) cycles"
proof (induction J D xs c arbitrary: c' cycles rule: dv_run.induct)
  case (4 J D now xs c)
  obtain c1 go where w: "worker_check D now c = (c1, go)" by (metis surj_pair)
  obtain c2 rest where r: "dv_run J D xs c1 = (c2, rest)" by (metis surj_pair)
  note k = worker_check_cases [OF w]
  have eq: "cycles = (if go then [(now, dv_curTrigger c1)] else []) @ rest" using 4(2) w r by auto
  have IH: "(\<forall>q \<in> set rest. cooldown D c \<le> fst q - dv_lastDescribe c1) \<and>
      sorted_wrt (\<lambda>p q. cooldown D c \<le> fst q - fst p) rest"
    using 4(1) [OF w [symmetric] r] k by simp
  show ?case
  proof (cases go)
    case True
    have "cooldown D c \<le> fst q - dv_lastDescribe c" if "q \<in> set rest" for q
    proof -
      have "cooldown D c \<le> fst q - now" "cooldown D c \<le> now - dv_lastDescribe c" using IH k True that by auto
      then show ?thesis using cooldown_nonneg [of D c] by linarith
    qed
    then show ?thesis using True IH k eq by auto
  next
    case False
    then show ?thesis using IH k eq by simp
  qed
qed auto

definition trigger_matches :: "'j json_api \<Rightarrow> TriggerState \<Rightarrow> string \<Rightarrow> bool" where
  "trigger_matches J ts msg \<longleftrightarrow> tg_fired (describe_trigger_cb J msg (ts\<lparr>tg_fired := False\<rparr>))"

fun triggers_of :: "dv_step list \<Rightarrow> string list" where
  "triggers_of [] = []"
| "triggers_of (Trigger msg # xs) = msg # triggers_of xs"
| "triggers_of (_ # xs) = triggers_of xs"

lemma trigger_step:
  "describe_trigger_cb J msg ts = (if trigger_matches J ts msg then ts\<lparr>tg_fired := True, tg_lastTrigger := msg\<rparr> else ts)"
  by (simp add: trigger_matches_def describe_trigger_cb_def split: option.split)

lemma trigger_matches_keeps [simp]:
  "trigger_matches J (ts\<lparr>tg_fired := b\<rparr>) = trigger_matches J ts"
  "trigger_matches J (ts\<lparr>tg_lastTrigger := m\<rparr>) = trigger_matches J ts"
  by (simp_all add: fun_eq_iff trigger_matches_def describe_trigger_cb_def split: option.split)

lemma worker_check_trig:
  "worker_check D now c = (c1, go) \<Longrightarrow> dv_trig c1 = (dv_trig c)\<lparr>tg_fired := False\<rparr>"
  by (auto simp: worker_check_def Let_def split: if_splits)

lemma dv_run_triggers:
  "dv_run J D xs c = (c', cycles) \<Longrightarrow> tg_types (dv_trig c) \<noteq> [] \<Longrightarrow>
    subseq (map snd cycles) ((if tg_fired (dv_trig c) then [tg_lastTrigger (dv_trig c)] else []) @
      filter (trigger_matches J (dv_trig c)) (triggers_of xs))"
proof (induction J D xs c arbitrary: c' cycles rule: dv_run.induct)
  case (2 J D msg xs c)
  show ?case
    using 2(1) [OF 2(2) [simplified]] 2(3)
    by (cases "trigger_matches J (dv_trig c) msg") (auto simp: trigger_step split: if_splits)
next
  case (4 J D now xs c)
  obtain c1 go where w: "worker_check D now c = (c1, go)" by (metis surj_pair)
  obtain c2 rest where r: "dv_run J D xs c1 = (c2, rest)" by (metis surj_pair)
  note k = worker_check_cases [OF w]
  have eq: "cycles = (if go then [(now, dv_curTrigger c1)] else []) @ rest" using 4(2) w r by auto
  have IH: "subseq (map snd rest) (filter (trigger_matches J (dv_trig c)) (triggers_of xs))"
    using 4(1) [OF w [symmetric] r] 4(3) by (simp add: worker_check_trig [OF w])
  show ?case using IH k eq 4(3) by (auto split: if_splits)
qed auto

section \<open>Its promise\<close>

lemma start_trig:
  "tg_fired (dv_trig (describe_vlm_start J K D now cfg)) = False"
  by (simp add: describe_vlm_start_def Let_def TriggerState_init_def)


definition dv_texts :: "string \<rightharpoonup> jdoc" where
  "dv_texts = map_of [
     (''cfg'', JObj [(''interval_sec'', JInt 5), (''trigger_types'', JArr [JStr ''detection''])]),
     (''a'', JObj [(''type'', JStr ''detection'')]), (''b'', JObj [(''type'', JStr ''motion'')]),
     (''c'', JObj [(''type'', JStr ''detection''), (''label'', JStr ''person'')])]"

definition dv_demo_steps :: "dv_step list" where
  "dv_demo_steps = [Trigger ''a'', Turn 1000000000, Trigger ''c'', Turn 2000000000, Turn 9000000000, Trigger ''b'',
     Turn 9500000000, Trigger ''c'', Turn 10000000000]"

lemma dv_demo_run:
  "snd (dv_run (jdoc_api dv_texts) int_floats dv_demo_steps
     (describe_vlm_start (jdoc_api dv_texts) jdoc_floats int_floats 500000000 (Some ''cfg''))) =
   [(1000000000, ''a''), (10000000000, ''c'')]"
  by code_simp


text \<open>A trigger that the worker finds within the gap is consumed and lost.\<close>

lemma trigger_in_the_gap_is_lost:
  assumes "tg_fired (dv_trig c)" "now - dv_lastDescribe c < cooldown D c"
  shows "worker_check D now c = (c\<lparr>dv_trig := (dv_trig c)\<lparr>tg_fired := False\<rparr>\<rparr>, False)"
  using assms by (simp add: worker_check_def Let_def)

text \<open>Without configured dimensions no frame is ever sent.\<close>

definition snap_unsized :: "'d DescribeVlmCtx \<Rightarrow> bool" where
  "snap_unsized c \<longleftrightarrow> dv_frameWidth c \<le> 0 \<and> dv_latestWidth c \<le> 0 \<and> dv_ring c = []"

lemma on_frame_unsized: "snap_unsized c \<Longrightarrow> snap_unsized (describe_vlm_on_frame buf c)"
  by (simp add: describe_vlm_on_frame_def snap_unsized_def Let_def)

lemma dimensions_are_not_derived:
  "snap_unsized c \<Longrightarrow> run_inference_cycle J K D NF jpeg curl c = Some None"
  by (simp add: run_inference_cycle_def picked_frames_def request_frames_def frame_fits_def snap_unsized_def Let_def)

end
