(* ===== verification/Alert_Policy.thy ===== *)
theory Alert_Policy
  imports Floats "HOL-Library.AList"
begin

text \<open>
  The alert policy, plugins/alert_policy: one alert for each tracked object, and again when an object that
  stood still moves. The map of tracks is an association list, whose order does not matter. The event
  handler returns whether an exception left it; the state keeps what was done before.
\<close>

section \<open>State\<close>

record 'f AlertTrack =
  at_cx :: 'f
  at_cy :: 'f
  at_last_pts :: u64
  at_last_alert_pts :: u64
  at_still_since :: u64
  at_stationary :: bool
  at_seen :: bool

definition AlertTrack_init :: "'f floats \<Rightarrow> 'f AlertTrack" where
  "AlertTrack_init F = \<lparr>at_cx = fl_zero F, at_cy = fl_zero F, at_last_pts = 0, at_last_alert_pts = 0,
     at_still_since = 0, at_stationary = False, at_seen = False\<rparr>"

record 'f AlertState =
  ap_classes :: "string list"
  ap_streamFilter :: "int list"
  ap_moveFrac :: 'f
  ap_stationaryUsec :: u64
  ap_cooldownUsec :: u64
  ap_realertOnMove :: bool
  ap_tracks :: "(u64 \<times> 'f AlertTrack) list"
  ap_active :: bool

definition AlertState_init :: "'f floats \<Rightarrow> 'f AlertState" where
  "AlertState_init F = \<lparr>ap_classes = [], ap_streamFilter = [], ap_moveFrac = fl_num F 30 100,
     ap_stationaryUsec = 5000000, ap_cooldownUsec = 0, ap_realertOnMove = True, ap_tracks = [], ap_active = True\<rparr>"

definition allowedClass :: "'f AlertState \<Rightarrow> string \<Rightarrow> bool" where
  "allowedClass s l \<longleftrightarrow> ap_classes s = [] \<or> l \<in> set (ap_classes s)"

definition allowedStream :: "'f AlertState \<Rightarrow> int \<Rightarrow> bool" where
  "allowedStream s sid \<longleftrightarrow> ap_streamFilter s = [] \<or> sid \<in> set (ap_streamFilter s)"

section \<open>One detection\<close>

datatype alert_reason = NewObject | MovingAgain

text \<open>An alert event: stream, time, track, label, box, confidence, reason.\<close>

datatype ('j, 'f) alert = Alert int u64 int string 'j 'f alert_reason

definition track_key :: "int \<Rightarrow> int \<Rightarrow> u64" where
  "track_key sid tid = push_bit 32 (ucast (of_int sid :: u32)) OR ucast (of_int tid :: u32)"

text \<open>The new state of a track, and the reason for an alert.\<close>

definition observe_track ::
  "'f floats \<Rightarrow> 'f AlertState \<Rightarrow> u64 \<Rightarrow> 'f \<Rightarrow> 'f \<Rightarrow> 'f \<Rightarrow> 'f AlertTrack \<Rightarrow> 'f AlertTrack \<times> alert_reason option" where
  "observe_track F s pts cx cy diag t =
     (if \<not> at_seen t then (t\<lparr>at_seen := True, at_still_since := pts\<rparr>, Some NewObject)
      else let moved = fl_hypot F (fl_sub F cx (at_cx t)) (fl_sub F cy (at_cy t)) in
        if fl_less F (fl_mul F (ap_moveFrac s) diag) moved
        then (t\<lparr>at_still_since := pts, at_stationary := False\<rparr>,
              if at_stationary t \<and> ap_realertOnMove s then Some MovingAgain else None)
        else let t = (if at_still_since t = 0 then t\<lparr>at_still_since := pts\<rparr> else t) in
          (if pts - at_still_since t \<ge> ap_stationaryUsec s then t\<lparr>at_stationary := True\<rparr> else t, None))"

definition cooled :: "'f AlertState \<Rightarrow> u64 \<Rightarrow> 'f AlertTrack \<Rightarrow> bool" where
  "cooled s pts t \<longleftrightarrow> at_last_alert_pts t = 0 \<or> ap_cooldownUsec s = 0 \<or>
     pts - at_last_alert_pts t \<ge> ap_cooldownUsec s"

text \<open>The part behind the parsing: the new state and the reason of the alert that is emitted.\<close>

definition observe_detection ::
  "'f floats \<Rightarrow> u64 \<Rightarrow> u64 \<Rightarrow> 'f \<Rightarrow> 'f \<Rightarrow> 'f \<Rightarrow> 'f AlertState \<Rightarrow> 'f AlertState \<times> alert_reason option" where
  "observe_detection F key pts cx cy diag s =
     (let t = (case map_of (ap_tracks s) key of None \<Rightarrow> AlertTrack_init F | Some t \<Rightarrow> t);
          (t, reason) = observe_track F s pts cx cy diag t;
          emit = (case reason of None \<Rightarrow> False | Some r \<Rightarrow> r = NewObject \<or> cooled s pts t);
          t = (if emit then t\<lparr>at_last_alert_pts := pts\<rparr> else t);
          t = t\<lparr>at_cx := cx, at_cy := cy, at_last_pts := pts\<rparr>
      in (s\<lparr>ap_tracks := AList.update key t (ap_tracks s)\<rparr>, if emit then reason else None))"

text \<open>
  A parsed detection: \<open>Some None\<close> when the loop goes on to the next one, \<open>None\<close> for an exception,
  otherwise track, label, box, its numbers and the confidence.
\<close>

definition parse_tracked ::
  "'j json_api \<Rightarrow> ('j, 'f) json_float \<Rightarrow> 'f floats \<Rightarrow> 'f AlertState \<Rightarrow> 'j \<Rightarrow>
   (int \<times> string \<times> 'j \<times> ('f \<times> 'f \<times> 'f \<times> 'f) \<times> 'f) option option" where
  "parse_tracked J K F s d =
     Option.bind (j_value_int J d ''track_id'' 0) (\<lambda>tid.
       if tid \<le> 0 then Some None
       else Option.bind (j_value_string J d ''label'' []) (\<lambda>label.
         if \<not> allowedClass s label then Some None
         else case j_field J d ''bbox'' of
           None \<Rightarrow> Some None
         | Some b \<Rightarrow>
             if \<not> j_is_array J b \<or> length (j_elements J b) < 4 then Some None
             else Option.bind (jf_get K (j_elements J b ! 0)) (\<lambda>x.
                  Option.bind (jf_get K (j_elements J b ! 1)) (\<lambda>y.
                  Option.bind (jf_get K (j_elements J b ! 2)) (\<lambda>w.
                  Option.bind (jf_get K (j_elements J b ! 3)) (\<lambda>h.
                  Option.bind (jf_value K d ''confidence'' (fl_zero F)) (\<lambda>conf.
                    Some (Some (tid, label, b, (x, y, w, h), conf)))))))))"

section \<open>The event handler\<close>

text \<open>The loop over the detections; the last component is whether an exception ended it.\<close>

fun handle_detections ::
  "'j json_api \<Rightarrow> ('j, 'f) json_float \<Rightarrow> 'f floats \<Rightarrow> int \<Rightarrow> u64 \<Rightarrow> 'j list \<Rightarrow> 'f AlertState \<Rightarrow>
   'f AlertState \<times> ('j, 'f) alert list \<times> bool" where
  "handle_detections J K F sid pts [] s = (s, [], False)"
| "handle_detections J K F sid pts (d # ds) s =
     (case parse_tracked J K F s d of
        None \<Rightarrow> (s, [], True)
      | Some None \<Rightarrow> handle_detections J K F sid pts ds s
      | Some (Some (tid, label, b, (x, y, w, h), conf)) \<Rightarrow>
          (case observe_detection F (track_key sid tid) pts
                  (fl_add F x (fl_div F w (fl_num F 2 1))) (fl_add F y (fl_div F h (fl_num F 2 1)))
                  (fl_max F (fl_num F 1 1) (fl_hypot F w h)) s of
             (s1, reason) \<Rightarrow>
               (case handle_detections J K F sid pts ds s1 of
                  (s2, alerts, raised) \<Rightarrow>
                    (s2, (case reason of None \<Rightarrow> [] | Some r \<Rightarrow> [Alert sid pts tid label b conf r]) @ alerts, raised))))"

definition prune_tracks :: "u64 \<Rightarrow> (u64 \<times> 'f AlertTrack) list \<Rightarrow> (u64 \<times> 'f AlertTrack) list" where
  "prune_tracks pts tracks =
     filter (\<lambda>(key, t). \<not> (pts > at_last_pts t \<and> pts - at_last_pts t > 30000000)) tracks"

definition alert_handleEvent ::
  "'j json_api \<Rightarrow> ('j, 'f) json_float \<Rightarrow> 'f floats \<Rightarrow> string \<Rightarrow> 'f AlertState \<Rightarrow>
   'f AlertState \<times> ('j, 'f) alert list \<times> bool" where
  "alert_handleEvent J K F msg s =
     (if \<not> ap_active s then (s, [], False)
      else case j_parse J msg of
        None \<Rightarrow> (s, [], False)
      | Some j \<Rightarrow>
          (case j_value_string J j ''type'' [] of
             None \<Rightarrow> (s, [], True)
           | Some ty \<Rightarrow>
               if ty \<noteq> ''tracked_detection'' then (s, [], False)
               else (case j_value_int J j ''stream_id'' 0 of
                 None \<Rightarrow> (s, [], True)
               | Some sid \<Rightarrow>
                   if \<not> allowedStream s sid then (s, [], False)
                   else (case j_value_u64 J j ''pts_usec'' 0 of
                     None \<Rightarrow> (s, [], True)
                   | Some pts \<Rightarrow>
                       (case j_field J j ''detections'' of
                          None \<Rightarrow> (s, [], False)
                        | Some a \<Rightarrow>
                            if \<not> j_is_array J a then (s, [], False)
                            else (case handle_detections J K F sid pts (j_elements J a) s of
                                (s, alerts, raised) \<Rightarrow>
                                  if raised then (s, alerts, True)
                                  else (s\<lparr>ap_tracks := prune_tracks pts (ap_tracks s)\<rparr>, alerts, False)))))))"

section \<open>Start and stop\<close>

text \<open>\<open>get\<close> of a vector: \<open>None\<close> when an element has another type.\<close>

fun get_all :: "('j \<Rightarrow> 'a option) \<Rightarrow> 'j list \<Rightarrow> 'a list option" where
  "get_all g [] = Some []"
| "get_all g (x # xs) = Option.bind (g x) (\<lambda>a. map_option ((#) a) (get_all g xs))"

definition usec_of :: "'f floats \<Rightarrow> 'f \<Rightarrow> u64" where
  "usec_of F secs = fl_to_u64 F (fl_mul F secs (fl_num F 1000000 1))"

definition alert_start :: "'j json_api \<Rightarrow> ('j, 'f) json_float \<Rightarrow> 'f floats \<Rightarrow> string option \<Rightarrow> 'f AlertState" where
  "alert_start J K F json_cfg =
     (case j_parse J (case json_cfg of None \<Rightarrow> ''{}'' | Some t \<Rightarrow> t) of
        None \<Rightarrow> AlertState_init F
      | Some cfg \<Rightarrow> cfg_result (
          let c = Inr (AlertState_init F);
              c = (case j_field J cfg ''classes'' of
                     None \<Rightarrow> c
                   | Some a \<Rightarrow> if j_is_array J a
                       then cfg_step (get_all (j_string J) (j_elements J a)) (\<lambda>v s. s\<lparr>ap_classes := v\<rparr>) c else c);
              c = (case j_field J cfg ''stream_filter'' of
                     None \<Rightarrow> c
                   | Some a \<Rightarrow> if j_is_array J a
                       then cfg_step (get_all (j_int J) (j_elements J a)) (\<lambda>v s. s\<lparr>ap_streamFilter := v\<rparr>) c else c);
              c = cfg_step (jf_value K cfg ''move_frac'' (fl_num F 30 100)) (\<lambda>v s. s\<lparr>ap_moveFrac := v\<rparr>) c;
              c = cfg_step (jf_value K cfg ''stationary_sec'' (fl_num F 5 1)) (\<lambda>v s. s\<lparr>ap_stationaryUsec := usec_of F v\<rparr>) c;
              c = cfg_step (jf_value K cfg ''cooldown_sec'' (fl_zero F)) (\<lambda>v s. s\<lparr>ap_cooldownUsec := usec_of F v\<rparr>) c
          in cfg_step (j_value_bool J cfg ''realert_on_move'' True) (\<lambda>v s. s\<lparr>ap_realertOnMove := v\<rparr>) c))"

definition alert_stop :: "'f AlertState \<Rightarrow> 'f AlertState" where
  "alert_stop s = s\<lparr>ap_active := False\<rparr>"

section \<open>Runs\<close>

fun alert_run ::
  "'j json_api \<Rightarrow> ('j, 'f) json_float \<Rightarrow> 'f floats \<Rightarrow> string list \<Rightarrow> 'f AlertState \<Rightarrow>
   'f AlertState \<times> ('j, 'f) alert list" where
  "alert_run J K F [] s = (s, [])"
| "alert_run J K F (msg # msgs) s =
     (case alert_handleEvent J K F msg s of
        (s1, a, raised) \<Rightarrow> (case alert_run J K F msgs s1 of (s2, b) \<Rightarrow> (s2, a @ b)))"

fun is_new_alert :: "u64 \<Rightarrow> ('j, 'f) alert \<Rightarrow> bool" where
  "is_new_alert key (Alert sid pts tid label b conf r) \<longleftrightarrow> track_key sid tid = key \<and> r = NewObject"

definition new_alerts :: "u64 \<Rightarrow> ('j, 'f) alert list \<Rightarrow> nat" where
  "new_alerts key alerts = length (filter (is_new_alert key) alerts)"

lemma new_alerts_append [simp]: "new_alerts key (xs @ ys) = new_alerts key xs + new_alerts key ys"
  by (simp add: new_alerts_def)

lemma new_alerts_nil [simp]: "new_alerts key [] = 0"
  by (simp add: new_alerts_def)

text \<open>The object was seen since \<open>p0\<close>; the object has no track.\<close>

definition followed :: "u64 \<Rightarrow> u64 \<Rightarrow> 'f AlertState \<Rightarrow> bool" where
  "followed p0 key s \<longleftrightarrow> (\<exists>t. map_of (ap_tracks s) key = Some t \<and> at_seen t \<and> p0 \<le> at_last_pts t)"

abbreviation untracked :: "u64 \<Rightarrow> 'f AlertState \<Rightarrow> bool" where
  "untracked key s \<equiv> map_of (ap_tracks s) key = None"

lemma observe_track_seen:
  "observe_track F s pts cx cy diag t = (t', reason) \<Longrightarrow> at_seen t' \<and> (reason = Some NewObject \<longleftrightarrow> \<not> at_seen t)"
  by (auto simp: observe_track_def Let_def split: if_splits)

lemma observe_detection_cases:
  assumes "observe_detection F key pts cx cy diag s = (s', reason)"
  shows "\<exists>t. map_of (ap_tracks s') = (map_of (ap_tracks s))(key \<mapsto> t) \<and> at_seen t \<and> at_last_pts t = pts \<and>
    (reason = Some NewObject \<longleftrightarrow>
      (case map_of (ap_tracks s) key of None \<Rightarrow> True | Some t0 \<Rightarrow> \<not> at_seen t0))"
proof -
  define t0 where "t0 = (case map_of (ap_tracks s) key of None \<Rightarrow> AlertTrack_init F | Some t \<Rightarrow> t)"
  obtain t1 r where o1: "observe_track F s pts cx cy diag t0 = (t1, r)"
    by (cases "observe_track F s pts cx cy diag t0")
  note seen = observe_track_seen [OF o1]
  have t0: "at_seen t0 \<longleftrightarrow> (case map_of (ap_tracks s) key of None \<Rightarrow> False | Some t \<Rightarrow> at_seen t)"
    by (simp add: t0_def AlertTrack_init_def split: option.split)
  define emit where "emit \<longleftrightarrow> (case r of None \<Rightarrow> False | Some r \<Rightarrow> r = NewObject \<or> cooled s pts t1)"
  define t2 where "t2 = (if emit then t1\<lparr>at_last_alert_pts := pts\<rparr> else t1)\<lparr>at_cx := cx, at_cy := cy, at_last_pts := pts\<rparr>"
  have s': "s' = s\<lparr>ap_tracks := AList.update key t2 (ap_tracks s)\<rparr>" "reason = (if emit then r else None)"
    using assms by (simp_all add: observe_detection_def t0_def [symmetric] o1 emit_def [symmetric] t2_def Let_def)
  have "reason = Some NewObject \<longleftrightarrow> \<not> at_seen t0"
    using seen s'(2) by (auto simp: emit_def)
  moreover have "at_seen t2" "at_last_pts t2 = pts" using seen by (simp_all add: t2_def)
  moreover have "map_of (ap_tracks s') = (map_of (ap_tracks s))(key \<mapsto> t2)"
    by (simp add: s'(1) update_conv')
  ultimately show ?thesis using t0 by (intro exI [of _ t2]) (simp split: option.split)
qed

lemma handle_detections_count:
  "handle_detections J K F sid pts ds s = (s', alerts, raised) \<Longrightarrow> p0 \<le> pts \<Longrightarrow>
    (followed p0 key s \<longrightarrow> new_alerts key alerts = 0 \<and> followed p0 key s') \<and>
    (untracked key s \<longrightarrow> new_alerts key alerts = 0 \<and> untracked key s' \<or> new_alerts key alerts = 1 \<and> followed p0 key s') \<and>
    (new_alerts key alerts = 0 \<or> new_alerts key alerts = 1 \<and> followed p0 key s')"
proof (induction ds arbitrary: s alerts s' raised)
  case Nil
  then show ?case by auto
next
  case (Cons d ds)
  show ?case
  proof (cases "parse_tracked J K F s d")
    case None
    then show ?thesis using Cons.prems by auto
  next
    case (Some r)
    show ?thesis
    proof (cases r)
      case None
      then show ?thesis using Some Cons.prems Cons.IH by simp
    next
      case (Some q)
      obtain tid label b x y w h conf where q: "q = (tid, label, b, (x, y, w, h), conf)" by (cases q) auto
      let ?k = "track_key sid tid"
      obtain s1 reason where o: "observe_detection F ?k pts (fl_add F x (fl_div F w (fl_num F 2 1)))
          (fl_add F y (fl_div F h (fl_num F 2 1))) (fl_max F (fl_num F 1 1) (fl_hypot F w h)) s = (s1, reason)"
        by (metis surj_pair)
      obtain s2 rest raised2 where r2: "handle_detections J K F sid pts ds s1 = (s2, rest, raised2)"
        by (metis prod_cases3)
      let ?a = "case reason of None \<Rightarrow> [] | Some r \<Rightarrow> [Alert sid pts tid label b conf r]"
      have eq: "s' = s2" "alerts = ?a @ rest"
        using Cons.prems(1) \<open>parse_tracked J K F s d = Some r\<close> Some q o r2 by auto
      obtain t where t: "map_of (ap_tracks s1) = (map_of (ap_tracks s))(?k \<mapsto> t)" "at_seen t" "at_last_pts t = pts"
        "reason = Some NewObject \<longleftrightarrow> (case map_of (ap_tracks s) ?k of None \<Rightarrow> True | Some t0 \<Rightarrow> \<not> at_seen t0)"
        using observe_detection_cases [OF o] by blast
      have n: "new_alerts key ?a = (if ?k = key \<and> reason = Some NewObject then 1 else 0)"
        by (cases reason) (auto simp: new_alerts_def)
      note IH = Cons.IH [OF r2 Cons.prems(2)]
      show ?thesis
      proof (cases "?k = key")
        case True
        then have "followed p0 key s1" using t Cons.prems(2) by (simp add: followed_def)
        then have IH0: "new_alerts key rest = 0 \<and> followed p0 key s2" using IH by blast
        have "reason = Some NewObject \<longleftrightarrow> \<not> (\<exists>t0. map_of (ap_tracks s) key = Some t0 \<and> at_seen t0)"
          using t(4) True by (auto split: option.splits)
        then show ?thesis using IH0 n True eq by (auto simp: followed_def)
      next
        case False
        then have "followed p0 key s1 = followed p0 key s" "untracked key s1 = untracked key s"
          using t(1) by (auto simp: followed_def)
        then show ?thesis using IH n False eq by simp
      qed
    qed
  qed
qed

lemma map_of_filter_kept: "\<lbrakk>map_of xs k = Some v; P (k, v)\<rbrakk> \<Longrightarrow> map_of (filter P xs) k = Some v"
  by (induction xs) (auto split: if_splits)

lemma map_of_filter_none: "map_of xs k = None \<Longrightarrow> map_of (filter P xs) k = None"
  by (induction xs) (auto split: if_splits)

lemma prune_keeps_followed:
  assumes "followed p0 key s" and "p0 \<le> pts" and "unat pts \<le> unat p0 + 30000000"
  shows "followed p0 key (s\<lparr>ap_tracks := prune_tracks pts (ap_tracks s)\<rparr>)"
proof -
  obtain t where t: "map_of (ap_tracks s) key = Some t" "at_seen t" "p0 \<le> at_last_pts t"
    using assms(1) by (auto simp: followed_def)
  have "\<not> (pts > at_last_pts t \<and> pts - at_last_pts t > 30000000)"
  proof
    assume a: "pts > at_last_pts t \<and> pts - at_last_pts t > 30000000"
    then have "unat (pts - at_last_pts t) = unat pts - unat (at_last_pts t)"
      using unat_sub [of "at_last_pts t" pts] by (simp add: less_imp_le)
    then show False using a assms(3) t(3) by (simp add: word_less_nat_alt word_le_nat_alt) linarith
  qed
  then show ?thesis using t map_of_filter_kept [OF t(1)] by (simp add: followed_def prune_tracks_def)
qed

end
