(* ===== verification/Alert_Properties.thy ===== *)
theory Alert_Properties
  imports Alert_Policy
begin

text \<open>
  The promise of the alert policy: one alert for a new object, whatever the order of the events and
  whatever the arithmetic does, as long as the object is not out of sight for thirty seconds.
\<close>

section \<open>One event\<close>

text \<open>The time stamp that an event brings to the handler, when it is one that the handler reads.\<close>

definition event_pts :: "'j json_api \<Rightarrow> string \<Rightarrow> u64 option" where
  "event_pts J msg =
     Option.bind (j_parse J msg) (\<lambda>j. Option.bind (j_value_string J j ''type'' []) (\<lambda>ty.
       if ty = ''tracked_detection'' then j_value_u64 J j ''pts_usec'' 0 else None))"

definition in_window :: "u64 \<Rightarrow> u64 \<Rightarrow> bool" where
  "in_window p0 pts \<longleftrightarrow> p0 \<le> pts \<and> unat pts \<le> unat p0 + 30000000"

text \<open>What happened to an object between two states, with \<open>n\<close> alerts for a new object.\<close>

definition once :: "u64 \<Rightarrow> u64 \<Rightarrow> 'f AlertState \<Rightarrow> nat \<Rightarrow> 'f AlertState \<Rightarrow> bool" where
  "once p0 key s n s' \<longleftrightarrow>
     (followed p0 key s \<longrightarrow> n = 0 \<and> followed p0 key s') \<and>
     (untracked key s \<longrightarrow> n = 0 \<and> untracked key s' \<or> n = 1 \<and> followed p0 key s') \<and>
     (n = 0 \<or> n = 1 \<and> followed p0 key s')"

lemma once_refl [simp]: "once p0 key s 0 s"
  by (simp add: once_def)

lemma once_trans: "\<lbrakk>once p0 key s n s'; once p0 key s' m s''\<rbrakk> \<Longrightarrow> once p0 key s (n + m) s''"
  by (auto simp: once_def)

lemma once_prune:
  "\<lbrakk>once p0 key s n s'; in_window p0 pts\<rbrakk> \<Longrightarrow> once p0 key s n (s'\<lparr>ap_tracks := prune_tracks pts (ap_tracks s')\<rparr>)"
  using prune_keeps_followed [of p0 key s' pts] map_of_filter_none [of "ap_tracks s'" key]
  by (auto simp: once_def in_window_def prune_tracks_def)

lemma handle_detections_once:
  "\<lbrakk>handle_detections J K F sid pts ds s = (s', alerts, raised); p0 \<le> pts\<rbrakk> \<Longrightarrow>
    once p0 key s (new_alerts key alerts) s'"
  using handle_detections_count [of J K F sid pts ds s s' alerts raised p0 key] by (simp add: once_def)

lemma event_once:
  assumes h: "alert_handleEvent J K F msg s = (s', alerts, raised)"
    and w: "\<And>pts. event_pts J msg = Some pts \<Longrightarrow> in_window p0 pts"
  shows "once p0 key s (new_alerts key alerts) s'"
proof (cases "s' = s \<and> alerts = []")
  case False
  obtain j where j: "ap_active s" "j_parse J msg = Some j"
    using False h by (cases "ap_active s"; cases "j_parse J msg") (auto simp: alert_handleEvent_def)
  have ty: "j_value_string J j ''type'' [] = Some ''tracked_detection''"
    using False h j by (auto simp: alert_handleEvent_def split: option.splits if_splits)
  obtain sid where sid: "j_value_int J j ''stream_id'' 0 = Some sid" "allowedStream s sid"
    using False h j ty by (auto simp: alert_handleEvent_def split: option.splits if_splits)
  obtain pts where pts: "j_value_u64 J j ''pts_usec'' 0 = Some pts"
    using False h j ty sid by (auto simp: alert_handleEvent_def split: option.splits)
  obtain a where a: "j_field J j ''detections'' = Some a" "j_is_array J a"
    using False h j ty sid pts by (auto simp: alert_handleEvent_def split: option.splits if_splits)
  obtain s1 al r where r: "handle_detections J K F sid pts (j_elements J a) s = (s1, al, r)"
    by (metis prod_cases3)
  have win: "in_window p0 pts" using w j ty pts by (simp add: event_pts_def)
  have o: "once p0 key s (new_alerts key al) s1"
    using handle_detections_once [OF r] win by (simp add: in_window_def)
  have "alerts = al" "s' = (if r then s1 else s1\<lparr>ap_tracks := prune_tracks pts (ap_tracks s1)\<rparr>)"
    using h j ty sid pts a r by (auto simp: alert_handleEvent_def split: if_splits)
  with o once_prune [OF o win] show ?thesis by simp
qed auto

section \<open>Runs of events\<close>

lemma run_once:
  "\<lbrakk>alert_run J K F msgs s = (s', alerts);
    \<forall>msg \<in> set msgs. \<forall>pts. event_pts J msg = Some pts \<longrightarrow> in_window p0 pts\<rbrakk> \<Longrightarrow>
    once p0 key s (new_alerts key alerts) s'"
proof (induction msgs arbitrary: s s' alerts)
  case (Cons msg msgs)
  obtain s1 a r where e: "alert_handleEvent J K F msg s = (s1, a, r)" by (metis prod_cases3)
  obtain s2 b where t: "alert_run J K F msgs s1 = (s2, b)" by (cases "alert_run J K F msgs s1")
  have eq: "s' = s2" "alerts = a @ b" using Cons.prems(1) e t by auto
  have "once p0 key s (new_alerts key a) s1" using event_once [OF e] Cons.prems(2) by simp
  moreover have "once p0 key s1 (new_alerts key b) s2" using Cons.IH [OF t] Cons.prems(2) by simp
  ultimately show ?case using once_trans eq by fastforce
qed simp


text \<open>Two events with the same object, the second after twenty seconds.\<close>

definition alert_texts :: "string \<rightharpoonup> jdoc" where
  "alert_texts msg =
     (if msg = ''one'' \<or> msg = ''two'' then
        Some (JObj [(''type'', JStr ''tracked_detection''), (''stream_id'', JInt 1),
          (''pts_usec'', JInt (if msg = ''one'' then 1000000 else 21000000)),
          (''detections'', JArr [JObj [(''track_id'', JInt 4), (''label'', JStr ''car''),
             (''bbox'', JArr [JInt 0, JInt 0, JInt 10, JInt 10])]])])
      else None)"

lemma alert_demo_run:
  "case alert_run (jdoc_api alert_texts) jdoc_floats int_floats [''one'', ''two''] (AlertState_init int_floats) of
     (s', alerts) \<Rightarrow> length alerts = 1 \<and> \<not> untracked (track_key 1 4) s'"
  by code_simp

lemma alert_demo_window:
  "\<forall>msg \<in> set [''one'', ''two'']. \<forall>pts. event_pts (jdoc_api alert_texts) msg = Some pts \<longrightarrow> in_window 1000000 pts"
  by (auto simp: event_pts_def alert_texts_def jdoc_simps in_window_def)


section \<open>Time that goes back\<close>

text \<open>
  An object that did not move becomes stationary at once when an event is older than the one that set its
  clock, whatever the configured time: the difference of the unsigned time stamps wraps around.
\<close>
lemma backwards_time_makes_stationary:
  assumes "at_seen t" and "\<not> fl_less F (fl_mul F (ap_moveFrac s) diag) (fl_hypot F (fl_sub F cx (at_cx t)) (fl_sub F cy (at_cy t)))"
    and "pts < at_still_since t" and "unat (at_still_since t) < 2 ^ 63" and "unat (ap_stationaryUsec s) < 2 ^ 63"
  shows "at_stationary (fst (observe_track F s pts cx cy diag t))"
proof -
  have "unat (pts - at_still_since t) = 2 ^ 64 + unat pts - unat (at_still_since t)"
    using assms(3) by (simp add: unat_sub_if_size word_size not_le [symmetric] word_le_nat_alt word_less_nat_alt)
  then have "ap_stationaryUsec s \<le> pts - at_still_since t"
    using assms(3-5) by (simp add: word_le_nat_alt)
  moreover have "at_still_since t \<noteq> 0" using assms(3) by auto
  ultimately show ?thesis using assms(1,2) by (simp add: observe_track_def Let_def)
qed

end
