(* ===== verification/Analytics.thy ===== *)
theory Analytics
  imports Floats "HOL-Library.AList"
begin

text \<open>
  The spatial rules, plugins/analytics_rules: the geometry and the latches of geometry.hpp, then the
  configuration, the event handler, start and stop of analytics_rules.cpp. Positions are computed with
  \<open>float\<close> (\<open>F\<close>) and dwell times with \<open>double\<close> (\<open>D\<close>). Both maps are association lists.
\<close>

section \<open>Geometry\<close>

record 'f Pt =
  pt_x :: 'f
  pt_y :: 'f

definition Pt_init :: "'f floats \<Rightarrow> 'f Pt" where
  "Pt_init F = \<lparr>pt_x = fl_zero F, pt_y = fl_zero F\<rparr>"

definition cross :: "'f floats \<Rightarrow> 'f Pt \<Rightarrow> 'f Pt \<Rightarrow> 'f Pt \<Rightarrow> 'f" where
  "cross F oo a b =
     fl_sub F (fl_mul F (fl_sub F (pt_x a) (pt_x oo)) (fl_sub F (pt_y b) (pt_y oo)))
              (fl_mul F (fl_sub F (pt_y a) (pt_y oo)) (fl_sub F (pt_x b) (pt_x oo)))"

text \<open>The two choices that the code writes as \<open>a < b ? a : b\<close> and \<open>a > b ? a : b\<close>.\<close>

definition lower :: "'f floats \<Rightarrow> 'f \<Rightarrow> 'f \<Rightarrow> 'f" where
  "lower F a b = (if fl_less F a b then a else b)"

definition upper :: "'f floats \<Rightarrow> 'f \<Rightarrow> 'f \<Rightarrow> 'f" where
  "upper F a b = (if fl_less F b a then a else b)"

definition on_edge :: "'f floats \<Rightarrow> 'f Pt \<Rightarrow> 'f Pt \<Rightarrow> 'f Pt \<Rightarrow> bool" where
  "on_edge F a b p \<longleftrightarrow> fl_eq F (cross F a b p) (fl_zero F) \<and>
     (fl_leq F (lower F (pt_x a) (pt_x b)) (pt_x p) \<and> fl_leq F (pt_x p) (upper F (pt_x a) (pt_x b))) \<and>
     (fl_leq F (lower F (pt_y a) (pt_y b)) (pt_y p) \<and> fl_leq F (pt_y p) (upper F (pt_y a) (pt_y b)))"

definition ray_crosses :: "'f floats \<Rightarrow> 'f Pt \<Rightarrow> 'f Pt \<Rightarrow> 'f Pt \<Rightarrow> bool" where
  "ray_crosses F a b p \<longleftrightarrow>
     fl_less F (pt_y p) (pt_y a) \<noteq> fl_less F (pt_y p) (pt_y b) \<and>
     fl_less F (pt_x p)
       (fl_add F (fl_div F (fl_mul F (fl_sub F (pt_x b) (pt_x a)) (fl_sub F (pt_y p) (pt_y a))) (fl_sub F (pt_y b) (pt_y a))) (pt_x a))"

text \<open>The loop over the edges; \<open>b\<close> is the vertex before the current one.\<close>

fun polygon_loop :: "'f floats \<Rightarrow> 'f Pt \<Rightarrow> 'f Pt \<Rightarrow> 'f Pt list \<Rightarrow> bool \<Rightarrow> bool" where
  "polygon_loop F p b [] inside = inside"
| "polygon_loop F p b (a # vs) inside =
     (if on_edge F a b p then True
      else polygon_loop F p a vs (if ray_crosses F a b p then \<not> inside else inside))"

definition point_in_polygon :: "'f floats \<Rightarrow> 'f Pt list \<Rightarrow> 'f Pt \<Rightarrow> bool" where
  "point_in_polygon F poly p = (if length poly < 3 then False else polygon_loop F p (last poly) poly False)"

definition orientation :: "'f floats \<Rightarrow> 'f Pt \<Rightarrow> 'f Pt \<Rightarrow> 'f Pt \<Rightarrow> int" where
  "orientation F p q r =
     (let v = fl_sub F (fl_mul F (fl_sub F (pt_y q) (pt_y p)) (fl_sub F (pt_x r) (pt_x q)))
                       (fl_mul F (fl_sub F (pt_x q) (pt_x p)) (fl_sub F (pt_y r) (pt_y q)))
      in if fl_eq F v (fl_zero F) then 0 else if fl_less F (fl_zero F) v then 1 else 2)"

definition on_segment :: "'f floats \<Rightarrow> 'f Pt \<Rightarrow> 'f Pt \<Rightarrow> 'f Pt \<Rightarrow> bool" where
  "on_segment F p q r \<longleftrightarrow>
     fl_leq F (pt_x q) (upper F (pt_x p) (pt_x r)) \<and> fl_leq F (lower F (pt_x p) (pt_x r)) (pt_x q) \<and>
     fl_leq F (pt_y q) (upper F (pt_y p) (pt_y r)) \<and> fl_leq F (lower F (pt_y p) (pt_y r)) (pt_y q)"

definition segments_intersect :: "'f floats \<Rightarrow> 'f Pt \<Rightarrow> 'f Pt \<Rightarrow> 'f Pt \<Rightarrow> 'f Pt \<Rightarrow> bool" where
  "segments_intersect F a b c d =
     (let o1 = orientation F a b c; o2 = orientation F a b d;
          o3 = orientation F c d a; o4 = orientation F c d b
      in if o1 \<noteq> o2 \<and> o3 \<noteq> o4 then True
         else if o1 = 0 \<and> on_segment F a c b then True
         else if o2 = 0 \<and> on_segment F a d b then True
         else if o3 = 0 \<and> on_segment F c a d then True
         else if o4 = 0 \<and> on_segment F c b d then True
         else False)"

definition bbox_ground :: "'f floats \<Rightarrow> 'f \<Rightarrow> 'f \<Rightarrow> 'f \<Rightarrow> 'f \<Rightarrow> 'f Pt" where
  "bbox_ground F x y w h = \<lparr>pt_x = fl_add F x (fl_mul F w (fl_num F 1 2)), pt_y = fl_add F y h\<rparr>"

section \<open>Latches\<close>

record ZoneState =
  z_inside :: bool
  z_fired :: bool
  z_enter_pts_usec :: u64

definition ZoneState_init :: ZoneState where
  "ZoneState_init = \<lparr>z_inside = False, z_fired = False, z_enter_pts_usec = 0\<rparr>"

definition intrusion_step :: "ZoneState \<Rightarrow> bool \<Rightarrow> ZoneState \<times> bool" where
  "intrusion_step s now_inside =
     (let fire = now_inside \<and> \<not> z_inside s;
          s = s\<lparr>z_inside := now_inside\<rparr>
      in (if \<not> now_inside then s\<lparr>z_fired := False\<rparr> else s, fire))"

text \<open>The result of a loiter rule that fires is its dwell time.\<close>

definition loiter_step :: "'d floats \<Rightarrow> ZoneState \<Rightarrow> bool \<Rightarrow> u64 \<Rightarrow> 'd \<Rightarrow> ZoneState \<times> 'd option" where
  "loiter_step D s now_inside pts_usec seconds =
     (if now_inside then
        if \<not> z_inside s then (s\<lparr>z_inside := True, z_fired := False, z_enter_pts_usec := pts_usec\<rparr>, None)
        else if \<not> z_fired s then
          (let dwell = (if pts_usec \<ge> z_enter_pts_usec s
                        then fl_div D (fl_num D (uint (pts_usec - z_enter_pts_usec s)) 1) (fl_num D 1000000 1)
                        else fl_zero D)
           in if fl_leq D seconds dwell then (s\<lparr>z_fired := True\<rparr>, Some dwell) else (s, None))
        else (s, None)
      else (s\<lparr>z_inside := False, z_fired := False\<rparr>, None))"

section \<open>Rules\<close>

datatype RuleType = Intrusion | LineCross | Loiter

record ('f, 'd) Rule =
  r_name :: string
  r_type :: RuleType
  r_polygon :: "'f Pt list"
  r_line_a :: "'f Pt"
  r_line_b :: "'f Pt"
  r_direction :: string
  r_seconds :: 'd
  r_has_stream :: bool
  r_stream_id :: int
  r_classes :: "string list"

definition Rule_init :: "'f floats \<Rightarrow> 'd floats \<Rightarrow> ('f, 'd) Rule" where
  "Rule_init F D = \<lparr>r_name = [], r_type = Intrusion, r_polygon = [], r_line_a = Pt_init F, r_line_b = Pt_init F,
     r_direction = ''any'', r_seconds = fl_zero D, r_has_stream = False, r_stream_id = 0, r_classes = []\<rparr>"

text \<open>
  The parsers return \<open>None\<close> for an exception, \<open>Some None\<close> for \<open>false\<close> (the rule is skipped) and otherwise
  what they read.
\<close>

definition parsePt :: "'j json_api \<Rightarrow> ('j, 'f) json_float \<Rightarrow> 'j \<Rightarrow> 'f Pt option option" where
  "parsePt J K a =
     (if \<not> j_is_array J a \<or> length (j_elements J a) < 2 then Some None
      else Option.bind (jf_get K (j_elements J a ! 0)) (\<lambda>x.
           Option.bind (jf_get K (j_elements J a ! 1)) (\<lambda>y. Some (Some \<lparr>pt_x = x, pt_y = y\<rparr>))))"

fun parse_points :: "'j json_api \<Rightarrow> ('j, 'f) json_float \<Rightarrow> 'j list \<Rightarrow> 'f Pt list \<Rightarrow> 'f Pt list option option" where
  "parse_points J K [] out = Some (if length out \<ge> 3 then Some out else None)"
| "parse_points J K (v # vs) out =
     (case parsePt J K v of
        None \<Rightarrow> None
      | Some None \<Rightarrow> Some None
      | Some (Some p) \<Rightarrow> parse_points J K vs (out @ [p]))"

definition parsePolygon :: "'j json_api \<Rightarrow> ('j, 'f) json_float \<Rightarrow> 'j \<Rightarrow> 'f Pt list option option" where
  "parsePolygon J K arr = (if \<not> j_is_array J arr then Some None else parse_points J K (j_elements J arr) [])"

text \<open>The part of a rule that depends on its type.\<close>

definition parse_shape ::
  "'j json_api \<Rightarrow> ('j, 'f) json_float \<Rightarrow> ('j, 'd) json_float \<Rightarrow> 'd floats \<Rightarrow> 'j \<Rightarrow> string \<Rightarrow> ('f, 'd) Rule \<Rightarrow>
   ('f, 'd) Rule option option" where
  "parse_shape J K L D rj t r =
     (if t = ''intrusion'' then
        (case j_field J rj ''polygon'' of
           None \<Rightarrow> Some None
         | Some a \<Rightarrow> map_option (map_option (\<lambda>poly. r\<lparr>r_type := Intrusion, r_polygon := poly\<rparr>)) (parsePolygon J K a))
      else if t = ''linecross'' then
        (case j_field J rj ''line'' of
           None \<Rightarrow> Some None
         | Some l \<Rightarrow>
             if \<not> j_is_array J l \<or> length (j_elements J l) < 2 then Some None
             else (case parsePt J K (j_elements J l ! 0) of
                None \<Rightarrow> None
              | Some None \<Rightarrow> Some None
              | Some (Some a) \<Rightarrow>
                  (case parsePt J K (j_elements J l ! 1) of
                     None \<Rightarrow> None
                   | Some None \<Rightarrow> Some None
                   | Some (Some b) \<Rightarrow>
                       map_option (\<lambda>dir. Some (r\<lparr>r_type := LineCross, r_line_a := a, r_line_b := b, r_direction := dir\<rparr>))
                         (j_value_string J rj ''direction'' ''any''))))
      else if t = ''loiter'' then
        (case j_field J rj ''polygon'' of
           None \<Rightarrow> Some None
         | Some a \<Rightarrow>
             (case parsePolygon J K a of
                None \<Rightarrow> None
              | Some None \<Rightarrow> Some None
              | Some (Some poly) \<Rightarrow>
                  map_option (\<lambda>secs. Some (r\<lparr>r_type := Loiter, r_polygon := poly, r_seconds := secs\<rparr>))
                    (jf_value L rj ''seconds'' (fl_zero D))))
      else Some None)"

text \<open>The strings of an array as a set without order; other elements are ignored.\<close>

definition string_set :: "'j json_api \<Rightarrow> 'j list \<Rightarrow> string list" where
  "string_set J vs = fold (\<lambda>c cs. if j_is_string J c then (case j_string J c of None \<Rightarrow> cs | Some s \<Rightarrow> List.insert s cs) else cs) vs []"

definition parse_rule ::
  "'j json_api \<Rightarrow> ('j, 'f) json_float \<Rightarrow> ('j, 'd) json_float \<Rightarrow> 'f floats \<Rightarrow> 'd floats \<Rightarrow> 'j \<Rightarrow>
   ('f, 'd) Rule option option" where
  "parse_rule J K L F D rj =
     Option.bind (j_value_string J rj ''name'' ''rule'') (\<lambda>name.
     Option.bind (j_value_string J rj ''type'' []) (\<lambda>t.
       case parse_shape J K L D rj t ((Rule_init F D)\<lparr>r_name := name\<rparr>) of
         None \<Rightarrow> None
       | Some None \<Rightarrow> Some None
       | Some (Some r) \<Rightarrow>
           Option.bind
             (case j_field J rj ''stream_id'' of
                None \<Rightarrow> Some r
              | Some v \<Rightarrow> if jf_is_number K v
                  then map_option (\<lambda>n. r\<lparr>r_has_stream := True, r_stream_id := n\<rparr>) (j_int J v) else Some r)
             (\<lambda>r. Some (Some
               (case j_field J rj ''classes'' of
                  None \<Rightarrow> r
                | Some a \<Rightarrow> if j_is_array J a then r\<lparr>r_classes := string_set J (j_elements J a)\<rparr> else r)))))"

text \<open>The loop; an exception ends it and keeps the rules that were read.\<close>

fun parse_rules ::
  "'j json_api \<Rightarrow> ('j, 'f) json_float \<Rightarrow> ('j, 'd) json_float \<Rightarrow> 'f floats \<Rightarrow> 'd floats \<Rightarrow> 'j list \<Rightarrow>
   ('f, 'd) Rule list \<Rightarrow> ('f, 'd) Rule list" where
  "parse_rules J K L F D [] out = out"
| "parse_rules J K L F D (rj # rjs) out =
     (if \<not> j_is_object J rj then parse_rules J K L F D rjs out
      else case parse_rule J K L F D rj of
        None \<Rightarrow> out
      | Some None \<Rightarrow> parse_rules J K L F D rjs out
      | Some (Some r) \<Rightarrow> parse_rules J K L F D rjs (out @ [r]))"

definition parseRules ::
  "'j json_api \<Rightarrow> ('j, 'f) json_float \<Rightarrow> ('j, 'd) json_float \<Rightarrow> 'f floats \<Rightarrow> 'd floats \<Rightarrow> 'j \<Rightarrow> ('f, 'd) Rule list" where
  "parseRules J K L F D cfg =
     (case j_field J cfg ''rules'' of
        None \<Rightarrow> []
      | Some a \<Rightarrow> if j_is_array J a then parse_rules J K L F D (j_elements J a) [] else [])"

definition ruleAppliesToClass :: "('f, 'd) Rule \<Rightarrow> string \<Rightarrow> bool" where
  "ruleAppliesToClass r label \<longleftrightarrow> r_classes r = [] \<or> label \<in> set (r_classes r)"

definition crossingDirection :: "'f floats \<Rightarrow> ('f, 'd) Rule \<Rightarrow> 'f Pt \<Rightarrow> 'f Pt \<Rightarrow> string" where
  "crossingDirection F r prev cur =
     (let sp = cross F (r_line_a r) (r_line_b r) prev; sc = cross F (r_line_a r) (r_line_b r) cur
      in if fl_less F (fl_zero F) sp \<and> fl_less F sc (fl_zero F) then ''lr''
         else if fl_less F sp (fl_zero F) \<and> fl_less F (fl_zero F) sc then ''rl''
         else ''any'')"

section \<open>State\<close>

record 'f TrackState =
  ts_has_prev :: bool
  ts_prev :: "'f Pt"
  ts_last_seen :: u64
  ts_rules :: "(nat \<times> ZoneState) list"

definition TrackState_init :: "'f floats \<Rightarrow> 'f TrackState" where
  "TrackState_init F = \<lparr>ts_has_prev = False, ts_prev = Pt_init F, ts_last_seen = 0, ts_rules = []\<rparr>"

record ('f, 'd) AnalyticsState =
  an_running :: bool
  an_rules :: "('f, 'd) Rule list"
  an_tracks :: "((int \<times> int) \<times> 'f TrackState) list"

text \<open>The published events: rule, stream, track, label, time, and what the type adds.\<close>

datatype 'd analytics_event =
    IntrusionEvent string int int string u64
  | LoiterEvent string int int string u64 'd
  | LineCrossEvent string int int string u64 string

section \<open>The event handler\<close>

definition kStaleTrackUsec :: u64 where
  "kStaleTrackUsec = 30 * 1000000"

definition stale :: "u64 \<Rightarrow> u64 \<Rightarrow> bool" where
  "stale now last_seen \<longleftrightarrow> now \<ge> last_seen \<and> now - last_seen > kStaleTrackUsec"

definition pruneStale :: "u64 \<Rightarrow> ((int \<times> int) \<times> 'f TrackState) list \<Rightarrow> ((int \<times> int) \<times> 'f TrackState) list" where
  "pruneStale now tracks = filter (\<lambda>(key, ts). \<not> stale now (ts_last_seen ts)) tracks"

definition rule_selects :: "('f, 'd) Rule \<Rightarrow> int \<Rightarrow> string \<Rightarrow> bool" where
  "rule_selects r streamId label \<longleftrightarrow>
     \<not> (r_has_stream r \<and> r_stream_id r \<noteq> streamId) \<and> ruleAppliesToClass r label"

text \<open>One turn of the inner loop: rule \<open>ri\<close> on a detection at \<open>cur\<close>.\<close>

definition apply_rule ::
  "'f floats \<Rightarrow> 'd floats \<Rightarrow> int \<times> int \<Rightarrow> string \<Rightarrow> u64 \<Rightarrow> bool \<Rightarrow> 'f Pt \<Rightarrow> 'f Pt \<Rightarrow> nat \<Rightarrow> ('f, 'd) Rule \<Rightarrow>
   'f TrackState \<Rightarrow> 'f TrackState \<times> 'd analytics_event list" where
  "apply_rule F D key label pts hadPrev prev cur ri r ts =
     (if \<not> rule_selects r (fst key) label then (ts, [])
      else let z = (case map_of (ts_rules ts) ri of None \<Rightarrow> ZoneState_init | Some z \<Rightarrow> z) in
        case r_type r of
          Intrusion \<Rightarrow>
            (case intrusion_step z (point_in_polygon F (r_polygon r) cur) of
               (z, fire) \<Rightarrow> (ts\<lparr>ts_rules := AList.update ri z (ts_rules ts)\<rparr>,
                 if fire then [IntrusionEvent (r_name r) (fst key) (snd key) label pts] else []))
        | Loiter \<Rightarrow>
            (case loiter_step D z (point_in_polygon F (r_polygon r) cur) pts (r_seconds r) of
               (z, fire) \<Rightarrow> (ts\<lparr>ts_rules := AList.update ri z (ts_rules ts)\<rparr>,
                 case fire of None \<Rightarrow> [] | Some dwell \<Rightarrow> [LoiterEvent (r_name r) (fst key) (snd key) label pts dwell]))
        | LineCross \<Rightarrow>
            (ts\<lparr>ts_rules := AList.update ri z (ts_rules ts)\<rparr>,
             if \<not> hadPrev then []
             else if \<not> segments_intersect F prev cur (r_line_a r) (r_line_b r) then []
             else let dir = crossingDirection F r prev cur in
               if r_direction r \<noteq> ''any'' \<and> dir \<noteq> r_direction r then []
               else [LineCrossEvent (r_name r) (fst key) (snd key) label pts dir]))"

fun apply_rules ::
  "'f floats \<Rightarrow> 'd floats \<Rightarrow> int \<times> int \<Rightarrow> string \<Rightarrow> u64 \<Rightarrow> bool \<Rightarrow> 'f Pt \<Rightarrow> 'f Pt \<Rightarrow> nat \<Rightarrow> ('f, 'd) Rule list \<Rightarrow>
   'f TrackState \<Rightarrow> 'f TrackState \<times> 'd analytics_event list" where
  "apply_rules F D key label pts hadPrev prev cur ri [] ts = (ts, [])"
| "apply_rules F D key label pts hadPrev prev cur ri (r # rs) ts =
     (case apply_rule F D key label pts hadPrev prev cur ri r ts of
        (ts1, evs) \<Rightarrow>
          (case apply_rules F D key label pts hadPrev prev cur (Suc ri) rs ts1 of
             (ts2, evs2) \<Rightarrow> (ts2, evs @ evs2)))"

definition sample_track ::
  "'f floats \<Rightarrow> 'd floats \<Rightarrow> ('f, 'd) Rule list \<Rightarrow> int \<times> int \<Rightarrow> string \<Rightarrow> u64 \<Rightarrow> 'f Pt \<Rightarrow> 'f TrackState option \<Rightarrow>
   'f TrackState \<times> 'd analytics_event list" where
  "sample_track F D rules key label pts cur mts =
     (let ts = (case mts of None \<Rightarrow> TrackState_init F | Some ts \<Rightarrow> ts) in
      case apply_rules F D key label pts (ts_has_prev ts) (ts_prev ts) cur 0 rules ts of
        (ts, evs) \<Rightarrow> (ts\<lparr>ts_prev := cur, ts_has_prev := True, ts_last_seen := pts\<rparr>, evs))"

text \<open>A detection: track, position and label; \<open>Some None\<close> when the loop goes on, \<open>None\<close> for an exception.\<close>

definition parse_sample ::
  "'j json_api \<Rightarrow> ('j, 'f) json_float \<Rightarrow> 'f floats \<Rightarrow> 'j \<Rightarrow> (int \<times> 'f Pt \<times> string) option option" where
  "parse_sample J K F det =
     (if \<not> j_is_object J det then Some None
      else Option.bind (j_value_int J det ''track_id'' 0) (\<lambda>trackId.
        if trackId = 0 then Some None
        else case j_field J det ''bbox'' of
          None \<Rightarrow> Some None
        | Some b \<Rightarrow>
            if \<not> j_is_array J b \<or> length (j_elements J b) < 4 then Some None
            else Option.bind (jf_get K (j_elements J b ! 0)) (\<lambda>x.
                 Option.bind (jf_get K (j_elements J b ! 1)) (\<lambda>y.
                 Option.bind (jf_get K (j_elements J b ! 2)) (\<lambda>w.
                 Option.bind (jf_get K (j_elements J b ! 3)) (\<lambda>h.
                 Option.bind (j_value_string J det ''label'' []) (\<lambda>label.
                   Some (Some (trackId, bbox_ground F x y w h, label)))))))))"

fun sample_detections ::
  "'j json_api \<Rightarrow> ('j, 'f) json_float \<Rightarrow> 'f floats \<Rightarrow> 'd floats \<Rightarrow> int \<Rightarrow> u64 \<Rightarrow> 'j list \<Rightarrow> ('f, 'd) AnalyticsState \<Rightarrow>
   ('f, 'd) AnalyticsState \<times> 'd analytics_event list \<times> bool" where
  "sample_detections J K F D streamId pts [] s = (s, [], False)"
| "sample_detections J K F D streamId pts (det # dets) s =
     (case parse_sample J K F det of
        None \<Rightarrow> (s, [], True)
      | Some None \<Rightarrow> sample_detections J K F D streamId pts dets s
      | Some (Some (trackId, cur, label)) \<Rightarrow>
          (case sample_track F D (an_rules s) (streamId, trackId) label pts cur (map_of (an_tracks s) (streamId, trackId)) of
             (ts, evs) \<Rightarrow>
               (case sample_detections J K F D streamId pts dets
                       (s\<lparr>an_tracks := AList.update (streamId, trackId) ts (an_tracks s)\<rparr>) of
                  (s2, evs2, raised) \<Rightarrow> (s2, evs @ evs2, raised))))"

text \<open>What the handler reads before it takes the lock: \<open>Some None\<close> for an early return.\<close>

definition parse_tracked_event ::
  "'j json_api \<Rightarrow> string \<Rightarrow> (int \<times> u64 \<times> 'j list) option option" where
  "parse_tracked_event J msg =
     (case j_parse J msg of
        None \<Rightarrow> Some None
      | Some j \<Rightarrow>
          if \<not> j_is_object J j then Some None
          else Option.bind (j_value_string J j ''type'' []) (\<lambda>ty.
            if ty \<noteq> ''tracked_detection'' then Some None
            else Option.bind (j_value_int J j ''stream_id'' 0) (\<lambda>streamId.
                 Option.bind (j_value_u64 J j ''pts_usec'' 0) (\<lambda>pts.
                   case j_field J j ''detections'' of
                     None \<Rightarrow> Some None
                   | Some a \<Rightarrow> if \<not> j_is_array J a then Some None else Some (Some (streamId, pts, j_elements J a))))))"

definition analytics_handleEvent ::
  "'j json_api \<Rightarrow> ('j, 'f) json_float \<Rightarrow> 'f floats \<Rightarrow> 'd floats \<Rightarrow> string \<Rightarrow> ('f, 'd) AnalyticsState \<Rightarrow>
   ('f, 'd) AnalyticsState \<times> 'd analytics_event list \<times> bool" where
  "analytics_handleEvent J K F D msg s =
     (if \<not> an_running s then (s, [], False)
      else case parse_tracked_event J msg of
        None \<Rightarrow> (s, [], True)
      | Some None \<Rightarrow> (s, [], False)
      | Some (Some (streamId, pts, dets)) \<Rightarrow>
          sample_detections J K F D streamId pts dets (s\<lparr>an_tracks := pruneStale pts (an_tracks s)\<rparr>))"

section \<open>Start and stop\<close>

definition analytics_start ::
  "'j json_api \<Rightarrow> ('j, 'f) json_float \<Rightarrow> ('j, 'd) json_float \<Rightarrow> 'f floats \<Rightarrow> 'd floats \<Rightarrow> string option \<Rightarrow>
   ('f, 'd) AnalyticsState" where
  "analytics_start J K L F D json_cfg =
     \<lparr>an_running = True,
      an_rules = (case j_parse J (case json_cfg of None \<Rightarrow> ''{}'' | Some t \<Rightarrow> t) of
                    None \<Rightarrow> [] | Some cfg \<Rightarrow> parseRules J K L F D cfg),
      an_tracks = []\<rparr>"

definition analytics_stop :: "('f, 'd) AnalyticsState \<Rightarrow> ('f, 'd) AnalyticsState" where
  "analytics_stop s = s\<lparr>an_running := False\<rparr>"

fun analytics_run ::
  "'j json_api \<Rightarrow> ('j, 'f) json_float \<Rightarrow> 'f floats \<Rightarrow> 'd floats \<Rightarrow> string list \<Rightarrow> ('f, 'd) AnalyticsState \<Rightarrow>
   ('f, 'd) AnalyticsState \<times> 'd analytics_event list" where
  "analytics_run J K F D [] s = (s, [])"
| "analytics_run J K F D (msg # msgs) s =
     (case analytics_handleEvent J K F D msg s of
        (s1, evs, raised) \<Rightarrow> (case analytics_run J K F D msgs s1 of (s2, evs2) \<Rightarrow> (s2, evs @ evs2)))"

end
