(* ===== verification/Analytics_Properties.thy ===== *)
theory Analytics_Properties
  imports Analytics
begin

text \<open>
  The spatial rules as independent machines, one for each tracked object, and what a zone's rule reports
  while an object stays in the zone. At the end the geometry, for exact arithmetic.
\<close>

section \<open>One object\<close>

text \<open>What an object's state is given: the time of an event, and a sample of the object.\<close>

datatype 'f track_input = Clock u64 | Sample u64 "'f Pt" string

fun track_step ::
  "'f floats \<Rightarrow> 'd floats \<Rightarrow> ('f, 'd) Rule list \<Rightarrow> int \<times> int \<Rightarrow> 'f track_input \<Rightarrow> 'f TrackState option \<Rightarrow>
   'f TrackState option \<times> 'd analytics_event list" where
  "track_step F D rules key (Clock now) mts =
     (case mts of None \<Rightarrow> None | Some ts \<Rightarrow> if stale now (ts_last_seen ts) then None else Some ts, [])"
| "track_step F D rules key (Sample pts cur label) mts =
     (case sample_track F D rules key label pts cur mts of (ts, evs) \<Rightarrow> (Some ts, evs))"

fun track_run ::
  "'f floats \<Rightarrow> 'd floats \<Rightarrow> ('f, 'd) Rule list \<Rightarrow> int \<times> int \<Rightarrow> 'f track_input list \<Rightarrow> 'f TrackState option \<Rightarrow>
   'f TrackState option \<times> 'd analytics_event list" where
  "track_run F D rules key [] mts = (mts, [])"
| "track_run F D rules key (i # is) mts =
     (case track_step F D rules key i mts of
        (mts1, evs) \<Rightarrow> (case track_run F D rules key is mts1 of (mts2, evs2) \<Rightarrow> (mts2, evs @ evs2)))"

lemma track_run_append:
  "track_run F D rules key (is @ js) mts =
     (case track_run F D rules key is mts of
        (mts1, evs) \<Rightarrow> (case track_run F D rules key js mts1 of (mts2, evs2) \<Rightarrow> (mts2, evs @ evs2)))"
  by (induction "is" arbitrary: mts) (auto split: prod.split)

text \<open>The inputs that a message has for an object; an exception ends them.\<close>

fun detection_samples ::
  "'j json_api \<Rightarrow> ('j, 'f) json_float \<Rightarrow> 'f floats \<Rightarrow> int \<times> int \<Rightarrow> int \<Rightarrow> u64 \<Rightarrow> 'j list \<Rightarrow> 'f track_input list" where
  "detection_samples J K F key streamId pts [] = []"
| "detection_samples J K F key streamId pts (det # dets) =
     (case parse_sample J K F det of
        None \<Rightarrow> []
      | Some None \<Rightarrow> detection_samples J K F key streamId pts dets
      | Some (Some (trackId, cur, label)) \<Rightarrow>
          (if (streamId, trackId) = key then [Sample pts cur label] else []) @
          detection_samples J K F key streamId pts dets)"

definition track_inputs ::
  "'j json_api \<Rightarrow> ('j, 'f) json_float \<Rightarrow> 'f floats \<Rightarrow> int \<times> int \<Rightarrow> string \<Rightarrow> 'f track_input list" where
  "track_inputs J K F key msg =
     (case parse_tracked_event J msg of
        Some (Some (streamId, pts, dets)) \<Rightarrow> Clock pts # detection_samples J K F key streamId pts dets
      | _ \<Rightarrow> [])"

fun event_key :: "'d analytics_event \<Rightarrow> int \<times> int" where
  "event_key (IntrusionEvent name sid tid label pts) = (sid, tid)"
| "event_key (LoiterEvent name sid tid label pts dwell) = (sid, tid)"
| "event_key (LineCrossEvent name sid tid label pts dir) = (sid, tid)"

fun event_rule :: "'d analytics_event \<Rightarrow> string" where
  "event_rule (IntrusionEvent name sid tid label pts) = name"
| "event_rule (LoiterEvent name sid tid label pts dwell) = name"
| "event_rule (LineCrossEvent name sid tid label pts dir) = name"

lemma apply_rule_events:
  "apply_rule F D key label pts hp prev cur i r ts = (ts', evs) \<Longrightarrow> \<forall>e \<in> set evs. event_key e = key \<and> event_rule e = r_name r"
  by (auto simp: apply_rule_def Let_def split: if_splits RuleType.splits prod.splits option.splits)

lemma apply_rules_events:
  "apply_rules F D key label pts hp prev cur i rs ts = (ts', evs) \<Longrightarrow> \<forall>e \<in> set evs. event_key e = key"
proof (induction rs arbitrary: i ts evs)
  case (Cons r rs)
  obtain ts1 e1 where a: "apply_rule F D key label pts hp prev cur i r ts = (ts1, e1)" by (metis surj_pair)
  obtain ts2 e2 where b: "apply_rules F D key label pts hp prev cur (Suc i) rs ts1 = (ts2, e2)" by (metis surj_pair)
  show ?case using apply_rule_events [OF a] Cons.IH Cons.prems a b by auto
qed simp

lemma sample_track_events:
  "sample_track F D rules key label pts cur mts = (ts', evs) \<Longrightarrow> \<forall>e \<in> set evs. event_key e = key"
  by (auto simp: sample_track_def Let_def split: prod.splits dest!: apply_rules_events)

definition tracks_ok :: "('f, 'd) AnalyticsState \<Rightarrow> bool" where
  "tracks_ok s \<longleftrightarrow> distinct (map fst (an_tracks s))"

text \<open>The state of one object and the events about it, out of the plugin's state and its events.\<close>

abbreviation view ::
  "int \<times> int \<Rightarrow> ('f, 'd) AnalyticsState \<times> 'd analytics_event list \<Rightarrow> 'f TrackState option \<times> 'd analytics_event list" where
  "view key q \<equiv> (map_of (an_tracks (fst q)) key, filter (\<lambda>e. event_key e = key) (snd q))"

lemma sample_detections_view:
  "\<lbrakk>sample_detections J K F D sid pts dets s = (s', evs, raised); tracks_ok s\<rbrakk> \<Longrightarrow>
    an_rules s' = an_rules s \<and> an_running s' = an_running s \<and> tracks_ok s' \<and>
    track_run F D (an_rules s) key (detection_samples J K F key sid pts dets) (map_of (an_tracks s) key) = view key (s', evs)"
proof (induction dets arbitrary: s s' evs raised)
  case (Cons det dets)
  show ?case
  proof (cases "parse_sample J K F det")
    case None
    then show ?thesis using Cons.prems by auto
  next
    case (Some r)
    show ?thesis
    proof (cases r)
      case None
      then show ?thesis using Some Cons.prems Cons.IH by simp
    next
      case (Some q)
      obtain tid cur label where q: "q = (tid, cur, label)" by (cases q)
      let ?k = "(sid, tid)"
      obtain ts e1 where t: "sample_track F D (an_rules s) ?k label pts cur (map_of (an_tracks s) ?k) = (ts, e1)"
        by (metis surj_pair)
      let ?s1 = "s\<lparr>an_tracks := AList.update ?k ts (an_tracks s)\<rparr>"
      obtain s2 e2 r2 where d: "sample_detections J K F D sid pts dets ?s1 = (s2, e2, r2)" by (metis prod_cases3)
      have eq: "s' = s2" "evs = e1 @ e2"
        using Cons.prems(1) \<open>parse_sample J K F det = Some r\<close> Some q t d by auto
      have ok1: "tracks_ok ?s1" using Cons.prems(2) by (simp add: tracks_ok_def distinct_update)
      note IH = Cons.IH [OF d ok1]
      have keys: "filter (\<lambda>e. event_key e = key) e1 = (if ?k = key then e1 else [])"
        using sample_track_events [OF t] by (auto simp: filter_empty_conv intro!: filter_True)
      show ?thesis
        using IH eq keys t \<open>parse_sample J K F det = Some r\<close> Some q by (auto simp: update_conv')
    qed
  qed
qed simp

lemma handleEvent_view:
  assumes "analytics_handleEvent J K F D msg s = (s', evs, raised)" and "an_running s" and "tracks_ok s"
  shows "an_rules s' = an_rules s \<and> an_running s' = an_running s \<and> tracks_ok s' \<and>
    track_run F D (an_rules s) key (track_inputs J K F key msg) (map_of (an_tracks s) key) = view key (s', evs)"
proof (cases "\<exists>sid pts dets. parse_tracked_event J msg = Some (Some (sid, pts, dets))")
  case True
  then obtain sid pts dets where p: "parse_tracked_event J msg = Some (Some (sid, pts, dets))" by blast
  let ?s1 = "s\<lparr>an_tracks := pruneStale pts (an_tracks s)\<rparr>"
  have d: "sample_detections J K F D sid pts dets ?s1 = (s', evs, raised)"
    using assms(1,2) p by (simp add: analytics_handleEvent_def)
  have "tracks_ok ?s1" using assms(3) by (simp add: tracks_ok_def pruneStale_def distinct_filter_keys)
  moreover have "map_of (an_tracks ?s1) key =
      fst (track_step F D (an_rules s) key (Clock pts) (map_of (an_tracks s) key))"
    using assms(3) by (simp add: pruneStale_def map_of_filter_distinct tracks_ok_def split: Option.bind_split option.split)
  ultimately show ?thesis
    using sample_detections_view [OF d, of key] p by (simp add: track_inputs_def)
next
  case False
  then have "s' = s" "evs = []" "track_inputs J K F key msg = []"
    using assms(1) by (auto simp: analytics_handleEvent_def track_inputs_def split: option.splits if_splits)
  then show ?thesis using assms(3) by simp
qed

lemma analytics_run_view:
  "\<lbrakk>analytics_run J K F D msgs s = (s', evs); an_running s; tracks_ok s\<rbrakk> \<Longrightarrow>
    track_run F D (an_rules s) key (concat (map (track_inputs J K F key) msgs)) (map_of (an_tracks s) key) = view key (s', evs)"
proof (induction msgs arbitrary: s s' evs)
  case (Cons msg msgs)
  obtain s1 e1 r where h: "analytics_handleEvent J K F D msg s = (s1, e1, r)" by (metis prod_cases3)
  obtain s2 e2 where t: "analytics_run J K F D msgs s1 = (s2, e2)" by (metis surj_pair)
  note v = handleEvent_view [OF h Cons.prems(2,3), of key]
  show ?case using Cons.IH [OF t] Cons.prems v h t by (auto simp: track_run_append)
qed simp

text \<open>
  C38. The handler with its map of objects refines independent machines: whatever the messages, the state of an
  object and the events about it are those of its own machine on its own samples and the times of the events.
\<close>
theorem analytics_refines_tracks:
  assumes "analytics_run J K F D msgs s = (s', evs)" and "an_running s" and "tracks_ok s"
  shows "track_run F D (an_rules s) key (concat (map (track_inputs J K F key) msgs)) (map_of (an_tracks s) key) =
    (map_of (an_tracks s') key, filter (\<lambda>e. event_key e = key) evs)"
  using analytics_run_view [OF assms] by simp

section \<open>One rule of one object\<close>

definition latch :: "nat \<Rightarrow> 'f TrackState option \<Rightarrow> ZoneState" where
  "latch ri mts = (case mts of None \<Rightarrow> ZoneState_init
     | Some ts \<Rightarrow> (case map_of (ts_rules ts) ri of None \<Rightarrow> ZoneState_init | Some z \<Rightarrow> z))"

text \<open>The latch after a sample that the rule selects, and whether it fires.\<close>

definition zone_step :: "'d floats \<Rightarrow> ('f, 'd) Rule \<Rightarrow> bool \<Rightarrow> u64 \<Rightarrow> ZoneState \<Rightarrow> ZoneState \<times> bool" where
  "zone_step D r inside pts z =
     (case r_type r of
        Intrusion \<Rightarrow> intrusion_step z inside
      | Loiter \<Rightarrow> (case loiter_step D z inside pts (r_seconds r) of (z, dwell) \<Rightarrow> (z, dwell \<noteq> None))
      | LineCross \<Rightarrow> (z, False))"

definition reported_latch :: "('f, 'd) Rule \<Rightarrow> ZoneState \<Rightarrow> bool" where
  "reported_latch r z \<longleftrightarrow> z_inside z \<and> (r_type r = Loiter \<longrightarrow> z_fired z)"

lemma zone_step_inside:
  assumes "zone_step D r True pts z = (z', fire)" and "r_type r \<noteq> LineCross"
  shows "(fire \<longrightarrow> \<not> reported_latch r z) \<and> (reported_latch r z' \<longleftrightarrow> reported_latch r z \<or> fire) \<and>
    (r_type r = Intrusion \<longrightarrow> reported_latch r z')"
  using assms
  by (auto simp: zone_step_def reported_latch_def intrusion_step_def loiter_step_def Let_def
      split: RuleType.splits if_splits)

lemma apply_rule_latch:
  assumes "apply_rule F D key label pts hp prev cur i r ts = (ts', evs)" and "r_type r \<noteq> LineCross"
    and "zone_step D r (point_in_polygon F (r_polygon r) cur) pts (latch i (Some ts)) = (z, fire)"
  shows "latch j (Some ts') = (if j = i \<and> rule_selects r (fst key) label then z else latch j (Some ts)) \<and>
    length evs = (if rule_selects r (fst key) label \<and> fire then 1 else 0)"
  using assms
  by (auto simp: apply_rule_def zone_step_def latch_def Let_def update_conv'
      split: if_splits RuleType.splits prod.splits option.splits)

lemma apply_rule_other:
  "\<lbrakk>apply_rule F D key label pts hp prev cur i r ts = (ts', evs); j \<noteq> i\<rbrakk> \<Longrightarrow> latch j (Some ts') = latch j (Some ts)"
  by (auto simp: apply_rule_def latch_def Let_def update_conv' split: if_splits RuleType.splits prod.splits)

abbreviation events_of :: "string \<Rightarrow> 'd analytics_event list \<Rightarrow> 'd analytics_event list" where
  "events_of name evs \<equiv> filter (\<lambda>e. event_rule e = name) evs"

lemma apply_rules_before:
  "\<lbrakk>apply_rules F D key label pts hp prev cur i rs ts = (ts', evs); j < i; \<forall>r \<in> set rs. r_name r \<noteq> name\<rbrakk> \<Longrightarrow>
    latch j (Some ts') = latch j (Some ts) \<and> events_of name evs = []"
proof (induction rs arbitrary: i ts ts' evs)
  case (Cons r rs)
  obtain ts1 e1 where a: "apply_rule F D key label pts hp prev cur i r ts = (ts1, e1)" by (metis surj_pair)
  obtain ts2 e2 where b: "apply_rules F D key label pts hp prev cur (Suc i) rs ts1 = (ts2, e2)" by (metis surj_pair)
  have "events_of name e1 = []" using apply_rule_events [OF a] Cons.prems(3) by (auto simp: filter_empty_conv)
  then show ?case using Cons.IH [OF b] Cons.prems a b apply_rule_other [OF a, of j] by auto
qed simp

lemma apply_rules_latch:
  assumes "apply_rules F D key label pts hp prev cur i rs ts = (ts', evs)"
    and "k < length rs" and "rs ! k = r" and "r_type r \<noteq> LineCross"
    and "\<forall>l < length rs. r_name (rs ! l) = r_name r \<longrightarrow> l = k"
    and "zone_step D r (point_in_polygon F (r_polygon r) cur) pts (latch (i + k) (Some ts)) = (z, fire)"
  shows "latch (i + k) (Some ts') = (if rule_selects r (fst key) label then z else latch (i + k) (Some ts)) \<and>
    length (events_of (r_name r) evs) = (if rule_selects r (fst key) label \<and> fire then 1 else 0)"
  using assms
proof (induction rs arbitrary: i k ts ts' evs)
  case (Cons q rs)
  obtain ts1 e1 where a: "apply_rule F D key label pts hp prev cur i q ts = (ts1, e1)" by (metis surj_pair)
  obtain ts2 e2 where b: "apply_rules F D key label pts hp prev cur (Suc i) rs ts1 = (ts2, e2)" by (metis surj_pair)
  have eq: "ts' = ts2" "evs = e1 @ e2" using Cons.prems(1) a b by auto
  show ?case
  proof (cases k)
    case 0
    then have q: "q = r" using Cons.prems(3) by simp
    have "\<forall>p \<in> set rs. r_name p \<noteq> r_name r"
      using Cons.prems(5) 0 by (metis in_set_conv_nth length_Cons nat.distinct(1) not_less_eq nth_Cons_Suc)
    note rest = apply_rules_before [OF b _ this, of i]
    have "events_of (r_name r) e1 = e1" using apply_rule_events [OF a] q by (auto intro: filter_True)
    then show ?thesis
      using apply_rule_latch [OF a [unfolded q] Cons.prems(4), of z fire i] Cons.prems(6) rest eq 0 by simp
  next
    case (Suc k')
    have n: "\<forall>l < length rs. r_name (rs ! l) = r_name r \<longrightarrow> l = k'"
      using Cons.prems(5) Suc by (metis Suc_less_eq length_Cons nat.inject nth_Cons_Suc)
    have "r_name q \<noteq> r_name r" using Cons.prems(5) Suc by (metis length_greater_0_conv list.distinct(1) nat.distinct(1) nth_Cons_0)
    then have "events_of (r_name r) e1 = []" using apply_rule_events [OF a] by (auto simp: filter_empty_conv)
    moreover have l: "latch (i + k) (Some ts1) = latch (i + k) (Some ts)"
      using apply_rule_other [OF a, of "i + k"] Suc by simp
    moreover have "latch (Suc i + k') (Some ts2) = (if rule_selects r (fst key) label then z else latch (Suc i + k') (Some ts1)) \<and>
        length (events_of (r_name r) e2) = (if rule_selects r (fst key) label \<and> fire then 1 else 0)"
    proof (rule Cons.IH [OF b _ _ Cons.prems(4) n])
      show "k' < length rs" "rs ! k' = r" using Cons.prems(2,3) Suc by simp_all
      show "zone_step D r (point_in_polygon F (r_polygon r) cur) pts (latch (Suc i + k') (Some ts1)) = (z, fire)"
        using Cons.prems(6) l Suc by simp
    qed
    ultimately show ?thesis by (simp add: eq Suc)
  qed
qed simp

section \<open>An object that stays in a zone\<close>

text \<open>All samples that the rule selects are in its zone, and the object is never forgotten in between.\<close>

fun stays :: "'f floats \<Rightarrow> ('f, 'd) Rule \<Rightarrow> int \<Rightarrow> u64 option \<Rightarrow> 'f track_input list \<Rightarrow> bool" where
  "stays F r sid last_seen [] \<longleftrightarrow> True"
| "stays F r sid last_seen (Clock now # is) \<longleftrightarrow>
     (case last_seen of None \<Rightarrow> True | Some l \<Rightarrow> \<not> stale now l) \<and> stays F r sid last_seen is"
| "stays F r sid last_seen (Sample pts cur label # is) \<longleftrightarrow>
     (rule_selects r sid label \<longrightarrow> point_in_polygon F (r_polygon r) cur) \<and> stays F r sid (Some pts) is"

fun selected :: "('f, 'd) Rule \<Rightarrow> int \<Rightarrow> 'f track_input \<Rightarrow> bool" where
  "selected r sid (Clock now) = False"
| "selected r sid (Sample pts cur label) = rule_selects r sid label"

definition reported :: "('f, 'd) Rule \<Rightarrow> nat \<Rightarrow> 'f TrackState option \<Rightarrow> bool" where
  "reported r ri mts = reported_latch r (latch ri mts)"

definition only_rule :: "('f, 'd) Rule list \<Rightarrow> nat \<Rightarrow> bool" where
  "only_rule rules ri \<longleftrightarrow> ri < length rules \<and> r_type (rules ! ri) \<noteq> LineCross \<and>
     list_all (\<lambda>l. r_name (rules ! l) = r_name (rules ! ri) \<longrightarrow> l = ri) [0 ..< length rules]"

lemma sample_track_latch:
  assumes "sample_track F D rules key label pts cur mts = (ts', evs)" and "only_rule rules ri" and "rules ! ri = r"
    and "zone_step D r (point_in_polygon F (r_polygon r) cur) pts (latch ri mts) = (z, fire)"
  shows "latch ri (Some ts') = (if rule_selects r (fst key) label then z else latch ri mts) \<and>
    length (events_of (r_name r) evs) = (if rule_selects r (fst key) label \<and> fire then 1 else 0) \<and>
    ts_last_seen ts' = pts"
proof -
  define ts where "ts = (case mts of None \<Rightarrow> TrackState_init F | Some ts \<Rightarrow> ts)"
  obtain ts1 e1 where a: "apply_rules F D key label pts (ts_has_prev ts) (ts_prev ts) cur 0 rules ts = (ts1, e1)"
    by (metis surj_pair)
  have l: "latch ri mts = latch ri (Some ts)"
    by (simp add: latch_def ts_def TrackState_init_def split: option.split)
  have eq: "ts' = ts1\<lparr>ts_prev := cur, ts_has_prev := True, ts_last_seen := pts\<rparr>" "evs = e1"
    using assms(1) a by (auto simp: sample_track_def ts_def [symmetric])
  have u: "ri < length rules" "r_type r \<noteq> LineCross" "\<forall>l < length rules. r_name (rules ! l) = r_name r \<longrightarrow> l = ri"
    using assms(2,3) by (auto simp: only_rule_def list_all_iff)
  have "zone_step D r (point_in_polygon F (r_polygon r) cur) pts (latch (0 + ri) (Some ts)) = (z, fire)"
    using assms(4) l by simp
  note r = apply_rules_latch [OF a u(1) assms(3) u(2,3) this]
  have "latch ri (Some ts') = latch ri (Some ts1)" by (simp add: eq(1) latch_def)
  then show ?thesis
    using r eq l by simp
qed

lemma track_run_stays:
  assumes "only_rule rules ri" and "rules ! ri = r"
  shows "\<lbrakk>track_run F D rules key is mts = (mts', evs); stays F r (fst key) (map_option ts_last_seen mts) is\<rbrakk> \<Longrightarrow>
    (reported r ri mts \<longrightarrow> reported r ri mts') \<and>
    length (events_of (r_name r) evs) = (if \<not> reported r ri mts \<and> reported r ri mts' then 1 else 0) \<and>
    (r_type r = Intrusion \<and> (\<exists>i \<in> set is. selected r (fst key) i) \<longrightarrow> reported r ri mts')"
proof (induction "is" arbitrary: mts evs)
  case Nil
  then show ?case by simp
next
  case (Cons i "is")
  have ty: "r_type r \<noteq> LineCross" using assms by (auto simp: only_rule_def)
  show ?case
  proof (cases i)
    case (Clock now)
    then have "track_step F D rules key i mts = (mts, [])" using Cons.prems(2) by (auto split: option.splits)
    then show ?thesis
      using Cons.IH [of mts evs] Cons.prems Clock by (auto split: prod.splits)
  next
    case (Sample pts cur label)
    obtain ts1 e1 where t: "sample_track F D rules key label pts cur mts = (ts1, e1)" by (metis surj_pair)
    obtain mts2 e2 where q: "track_run F D rules key is (Some ts1) = (mts2, e2)" by (metis surj_pair)
    have eq: "mts' = mts2" "evs = e1 @ e2" using Cons.prems(1) Sample t q by auto
    obtain z fire where z: "zone_step D r (point_in_polygon F (r_polygon r) cur) pts (latch ri mts) = (z, fire)"
      by (metis surj_pair)
    note one = sample_track_latch [OF t assms z]
    have "stays F r (fst key) (map_option ts_last_seen (Some ts1)) is" using Cons.prems(2) Sample one by simp
    note rest = Cons.IH [OF q [folded eq(1)] this]
    show ?thesis
    proof (cases "rule_selects r (fst key) label")
      case True
      then have "zone_step D r True pts (latch ri mts) = (z, fire)" using Cons.prems(2) Sample z by simp
      from zone_step_inside [OF this ty] show ?thesis
        using one rest True eq Sample by (auto simp: reported_def)
    next
      case False
      then show ?thesis using one rest eq Sample by (auto simp: reported_def)
    qed
  qed
qed

text \<open>
  While an object stays in the zone of an intrusion or loiter rule, whatever else the messages hold, the
  rule reports it at most once: not at all when it had reported it before, and exactly once when its latch
  says so at the end; an intrusion rule always reports it when it saw the object at all.
\<close>
theorem zone_reports_stay_once:
  assumes "analytics_run J K F D msgs s = (s', evs)" and "an_running s" and "tracks_ok s"
    and "only_rule (an_rules s) ri" and "r = an_rules s ! ri"
    and "inputs = concat (map (track_inputs J K F key) msgs)"
    and "stays F r (fst key) (map_option ts_last_seen (map_of (an_tracks s) key)) inputs"
  shows "length (filter (\<lambda>e. event_key e = key \<and> event_rule e = r_name r) evs) =
      (if \<not> reported r ri (map_of (an_tracks s) key) \<and> reported r ri (map_of (an_tracks s') key) then 1 else 0) \<and>
    (r_type r = Intrusion \<and> (\<exists>i \<in> set inputs. selected r (fst key) i) \<longrightarrow> reported r ri (map_of (an_tracks s') key))"
proof -
  have "track_run F D (an_rules s) key inputs (map_of (an_tracks s) key) = view key (s', evs)"
    using analytics_run_view [OF assms(1-3)] assms(6) by simp
  from track_run_stays [OF assms(4) assms(5) [symmetric] this assms(7)]
  show ?thesis by (simp add: conj_commute)
qed

section \<open>An example\<close>

text \<open>A square zone, and an object that is seen in it twice.\<close>

definition demo_rule :: "(int, int) Rule" where
  "demo_rule = (Rule_init int_floats int_floats)\<lparr>r_name := ''yard'',
     r_polygon := [\<lparr>pt_x = 0, pt_y = 0\<rparr>, \<lparr>pt_x = 100, pt_y = 0\<rparr>, \<lparr>pt_x = 100, pt_y = 100\<rparr>, \<lparr>pt_x = 0, pt_y = 100\<rparr>]\<rparr>"

definition demo_state :: "(int, int) AnalyticsState" where
  "demo_state = \<lparr>an_running = True, an_rules = [demo_rule], an_tracks = []\<rparr>"

definition demo_texts :: "string \<rightharpoonup> jdoc" where
  "demo_texts msg =
     (if msg = ''one'' \<or> msg = ''two'' then
        Some (JObj [(''type'', JStr ''tracked_detection''), (''stream_id'', JInt 1),
          (''pts_usec'', JInt (if msg = ''one'' then 1000000 else 21000000)),
          (''detections'', JArr [JObj [(''track_id'', JInt 4), (''label'', JStr ''car''),
             (''bbox'', JArr [JInt 40, JInt 30, JInt 10, JInt 10])]])])
      else None)"

abbreviation zone_run :: "(int, int) AnalyticsState \<times> int analytics_event list" where
  "zone_run \<equiv> analytics_run (jdoc_api demo_texts) jdoc_floats int_floats int_floats [''one'', ''two''] demo_state"

abbreviation zone_inputs :: "int track_input list" where
  "zone_inputs \<equiv> concat (map (track_inputs (jdoc_api demo_texts) jdoc_floats int_floats (1, 4)) [''one'', ''two''])"

lemma zone_inputs_eq: "zone_inputs = [Clock 1000000, Sample 1000000 \<lparr>pt_x = 40, pt_y = 40\<rparr> ''car'',
    Clock 21000000, Sample 21000000 \<lparr>pt_x = 40, pt_y = 40\<rparr> ''car'']"
  by code_simp

lemma demo_stays: "stays int_floats demo_rule 1 None zone_inputs"
  by code_simp

lemma demo_selected: "list_ex (selected demo_rule 1) zone_inputs"
  by code_simp

lemma demo_state_simps [simp]: "an_running demo_state" "tracks_ok demo_state" "an_rules demo_state = [demo_rule]"
  "an_tracks demo_state = []" "only_rule [demo_rule] 0" "r_name demo_rule = ''yard''" "r_type demo_rule = Intrusion"
  by (simp_all add: demo_state_def tracks_ok_def only_rule_def demo_rule_def Rule_init_def)

theorem analytics_refines_tracks_witness:
  "\<exists>s' evs. zone_run = (s', evs) \<and>
     track_run int_floats int_floats [demo_rule] (1, 4) zone_inputs None =
       (map_of (an_tracks s') (1, 4), filter (\<lambda>e. event_key e = (1, 4)) evs)"
proof -
  obtain s' evs where r: "zone_run = (s', evs)" by (cases zone_run)
  from analytics_refines_tracks [OF r, of "(1, 4)"] r show ?thesis by simp
qed

theorem zone_reports_stay_once_witness:
  "\<exists>s' evs. zone_run = (s', evs) \<and> length (filter (\<lambda>e. event_key e = (1, 4) \<and> event_rule e = ''yard'') evs) = 1"
proof -
  obtain s' evs where r: "zone_run = (s', evs)" by (cases zone_run)
  have st: "stays int_floats demo_rule (fst (1, 4 :: int)) (map_option ts_last_seen (map_of (an_tracks demo_state) (1, 4))) zone_inputs"
    using demo_stays by simp
  have "\<not> reported demo_rule 0 (map_of (an_tracks demo_state) (1, 4))"
    by (simp add: reported_def reported_latch_def latch_def ZoneState_init_def)
  moreover have "\<exists>i \<in> set zone_inputs. selected demo_rule (fst (1, 4 :: int)) i"
    using demo_selected by (simp add: list_ex_iff)
  ultimately show ?thesis
    using zone_reports_stay_once [OF r _ _ _ _ refl st, where ri = 0] r by auto
qed

end
