(* ===== verification/Geometry_Exact.thy ===== *)
theory Geometry_Exact
  imports Analytics Complex_Main
begin

text \<open>
  The geometry of the spatial rules for exact arithmetic: the crossing test decides whether two segments
  have a point in common, degenerate segments included, and a point on the border of a polygon is inside.
\<close>

definition real_floats :: "real floats" where
  "real_floats = \<lparr>fl_num = (\<lambda>n d. of_int n / of_int d), fl_add = (+), fl_sub = (-), fl_mul = (*), fl_div = (/),
     fl_sqrt = sqrt, fl_hypot = (\<lambda>x y. sqrt (x * x + y * y)), fl_less = (<), fl_leq = (\<le>), fl_eq = (=),
     fl_to_u64 = (\<lambda>x. of_int \<lfloor>x\<rfloor>),
     fl_to_int = (\<lambda>x. if 0 \<le> x then \<lfloor>x\<rfloor> else \<lceil>x\<rceil>)\<rparr>"

lemma real_floats_simps [simp]:
  "fl_zero real_floats = 0" "fl_add real_floats = (+)" "fl_sub real_floats = (-)" "fl_mul real_floats = (*)"
  "fl_div real_floats = (/)" "fl_less real_floats = (<)" "fl_leq real_floats = (\<le>)" "fl_eq real_floats = (=)"
  by (simp_all add: real_floats_def fl_zero_def)

lemma lower_upper_real [simp]: "lower real_floats x y = min x y" "upper real_floats x y = max x y"
  by (simp_all add: lower_def upper_def min_def max_def)

text \<open>Points of the segment from \<open>a\<close> to \<open>b\<close>.\<close>

definition between :: "real Pt \<Rightarrow> real Pt \<Rightarrow> real \<Rightarrow> real Pt" where
  "between a b s = \<lparr>pt_x = pt_x a + s * (pt_x b - pt_x a), pt_y = pt_y a + s * (pt_y b - pt_y a)\<rparr>"

definition in_segment :: "real Pt \<Rightarrow> real Pt \<Rightarrow> real Pt \<Rightarrow> bool" where
  "in_segment a b p \<longleftrightarrow> (\<exists>s. 0 \<le> s \<and> s \<le> 1 \<and> p = between a b s)"

lemma in_segment_coords:
  "in_segment a b p \<longleftrightarrow> (\<exists>s. 0 \<le> s \<and> s \<le> 1 \<and> pt_x p = pt_x a + s * (pt_x b - pt_x a) \<and> pt_y p = pt_y a + s * (pt_y b - pt_y a))"
  by (auto simp: in_segment_def between_def)

lemma in_segment_ends [simp]: "in_segment a b a" "in_segment a b b"
proof -
  show "in_segment a b a" unfolding in_segment_coords by (intro exI [of _ 0]) simp
  show "in_segment a b b" unfolding in_segment_coords by (intro exI [of _ 1]) simp
qed

text \<open>The value whose sign \<open>orientation\<close> returns.\<close>

definition turn :: "real Pt \<Rightarrow> real Pt \<Rightarrow> real Pt \<Rightarrow> real" where
  "turn p q r = (pt_y q - pt_y p) * (pt_x r - pt_x q) - (pt_x q - pt_x p) * (pt_y r - pt_y q)"

lemma orientation_real: "orientation real_floats p q r = (if turn p q r = 0 then 0 else if 0 < turn p q r then 1 else 2)"
  by (simp add: orientation_def turn_def Let_def)

lemma orientation_eq_real:
  "orientation real_floats p q r = orientation real_floats p' q' r' \<longleftrightarrow> sgn (turn p q r) = sgn (turn p' q' r')"
  by (auto simp: orientation_real sgn_if)

lemma range_of_segment:
  assumes "0 \<le> s" and "s \<le> (1::real)" and "x = u + s * (v - u)"
  shows "min u v \<le> x \<and> x \<le> max u v"
proof (cases "u \<le> v")
  case True
  then have "0 \<le> s * (v - u)" "s * (v - u) \<le> v - u" using assms mult_left_le_one_le [of "v - u" s] by auto
  then show ?thesis using True assms(3) by simp
next
  case False
  then have "0 \<le> s * (u - v)" "s * (u - v) \<le> u - v" using assms mult_left_le_one_le [of "u - v" s] by auto
  moreover have "x = u - s * (u - v)" using assms(3) by (simp add: algebra_simps)
  ultimately show ?thesis using False by linarith
qed

lemma fraction_of_segment:
  assumes "min u v \<le> x" and "x \<le> max u v" and "u \<noteq> (v::real)"
  shows "0 \<le> (x - u) / (v - u) \<and> (x - u) / (v - u) \<le> 1"
  using assms by (cases "u < v") (auto simp: divide_simps)

lemma on_segment_iff:
  assumes "turn a b p = 0"
  shows "on_segment real_floats a p b \<longleftrightarrow> in_segment a b p"
proof
  assume "in_segment a b p"
  then show "on_segment real_floats a p b"
    using range_of_segment by (fastforce simp: in_segment_coords on_segment_def)
next
  assume box: "on_segment real_floats a p b"
  then have x: "min (pt_x a) (pt_x b) \<le> pt_x p" "pt_x p \<le> max (pt_x a) (pt_x b)"
    and y: "min (pt_y a) (pt_y b) \<le> pt_y p" "pt_y p \<le> max (pt_y a) (pt_y b)" by (simp_all add: on_segment_def)
  have t: "(pt_y b - pt_y a) * (pt_x p - pt_x a) = (pt_x b - pt_x a) * (pt_y p - pt_y a)"
    using assms by (simp add: turn_def algebra_simps)
  show "in_segment a b p"
  proof (cases "pt_x a = pt_x b")
    case False
    then show ?thesis
      using fraction_of_segment [OF x] t unfolding in_segment_coords
      by (intro exI [of _ "(pt_x p - pt_x a) / (pt_x b - pt_x a)"]) (simp add: field_simps)
  next
    case True
    then have px: "pt_x p = pt_x a" using x by simp
    show ?thesis
    proof (cases "pt_y a = pt_y b")
      case False
      then show ?thesis
        using fraction_of_segment [OF y] px True unfolding in_segment_coords
        by (intro exI [of _ "(pt_y p - pt_y a) / (pt_y b - pt_y a)"]) simp
    next
      case yeq: True
      then have "p = a" using px y by simp
      then show ?thesis by simp
    qed
  qed
qed

lemma in_segment_turn: "in_segment a b p \<Longrightarrow> turn a b p = 0"
proof -
  assume "in_segment a b p"
  then obtain s where p: "pt_x p = pt_x a + s * (pt_x b - pt_x a)" "pt_y p = pt_y a + s * (pt_y b - pt_y a)"
    by (auto simp: in_segment_coords)
  show ?thesis unfolding turn_def p by (simp add: algebra_simps)
qed

section \<open>The crossing test\<close>

definition meet :: "real Pt \<Rightarrow> real Pt \<Rightarrow> real Pt \<Rightarrow> real Pt \<Rightarrow> bool" where
  "meet a b c d \<longleftrightarrow> (\<exists>p. in_segment a b p \<and> in_segment c d p)"

lemma meet_sym: "meet a b c d \<longleftrightarrow> meet c d a b"
  by (auto simp: meet_def)

lemma segments_intersect_cases:
  "segments_intersect real_floats a b c d \<longleftrightarrow>
     (sgn (turn a b c) \<noteq> sgn (turn a b d) \<and> sgn (turn c d a) \<noteq> sgn (turn c d b)) \<or>
     in_segment a b c \<or> in_segment a b d \<or> in_segment c d a \<or> in_segment c d b"
proof -
  have z: "orientation real_floats p q r = 0 \<longleftrightarrow> turn p q r = 0" for p q r by (simp add: orientation_real)
  have *: "turn p q r = 0 \<and> on_segment real_floats p r q \<longleftrightarrow> in_segment p q r" for p q r
    using on_segment_iff in_segment_turn by blast
  show ?thesis
    unfolding segments_intersect_def Let_def orientation_eq_real z using * [of a b c] * [of a b d] * [of c d a] * [of c d b] by argo
qed

lemma split_point:
  assumes "sgn u \<noteq> sgn (v::real)"
  shows "u \<noteq> v \<and> 0 \<le> u / (u - v) \<and> u / (u - v) \<le> 1"
  using assms by (auto simp: sgn_if divide_simps split: if_splits)

lemma proper_crossing:
  assumes "sgn (turn a b c) \<noteq> sgn (turn a b d)" and "sgn (turn c d a) \<noteq> sgn (turn c d b)"
  shows "meet a b c d"
proof -
  define t where "t = turn a b c / (turn a b c - turn a b d)"
  define s where "s = turn c d a / (turn c d a - turn c d b)"
  define D where "D = (pt_x b - pt_x a) * (pt_y d - pt_y c) - (pt_y b - pt_y a) * (pt_x d - pt_x c)"
  have D: "turn a b c - turn a b d = D" "turn c d a - turn c d b = - D"
    by (simp_all add: D_def turn_def algebra_simps)
  have nz: "D \<noteq> 0" using split_point [OF assms(1)] D(1) by auto
  have st: "s * D = - turn c d a" "t * D = turn a b c"
    using nz by (simp_all add: s_def t_def D)
  have "D * (pt_x a + s * (pt_x b - pt_x a)) = D * (pt_x c + t * (pt_x d - pt_x c))"
    "D * (pt_y a + s * (pt_y b - pt_y a)) = D * (pt_y c + t * (pt_y d - pt_y c))"
  proof -
    have "D * (pt_x a + s * (pt_x b - pt_x a)) = D * pt_x a + (s * D) * (pt_x b - pt_x a)" by (simp add: algebra_simps)
    also have "\<dots> = D * pt_x c + (t * D) * (pt_x d - pt_x c)" unfolding st by (simp add: D_def turn_def algebra_simps)
    also have "\<dots> = D * (pt_x c + t * (pt_x d - pt_x c))" by (simp add: algebra_simps)
    finally show "D * (pt_x a + s * (pt_x b - pt_x a)) = D * (pt_x c + t * (pt_x d - pt_x c))" .
    have "D * (pt_y a + s * (pt_y b - pt_y a)) = D * pt_y a + (s * D) * (pt_y b - pt_y a)" by (simp add: algebra_simps)
    also have "\<dots> = D * pt_y c + (t * D) * (pt_y d - pt_y c)" unfolding st by (simp add: D_def turn_def algebra_simps)
    also have "\<dots> = D * (pt_y c + t * (pt_y d - pt_y c))" by (simp add: algebra_simps)
    finally show "D * (pt_y a + s * (pt_y b - pt_y a)) = D * (pt_y c + t * (pt_y d - pt_y c))" .
  qed
  then have "between a b s = between c d t" using nz by (simp add: between_def)
  moreover have "0 \<le> t" "t \<le> 1" using split_point [OF assms(1)] by (simp_all add: t_def)
  moreover have "0 \<le> s" "s \<le> 1" using split_point [OF assms(2)] by (simp_all add: s_def)
  ultimately show ?thesis unfolding meet_def in_segment_def by metis
qed

text \<open>A point of the second segment on the line of the first one: the ends lie on both sides or on it.\<close>

lemma turn_between: "turn a b (between c d t) = turn a b c + t * (turn a b d - turn a b c)"
  by (simp add: turn_def between_def algebra_simps)

lemma sides_of_common_point:
  assumes "meet a b c d" and "sgn (turn a b c) = sgn (turn a b d)"
  shows "turn a b c = 0 \<and> turn a b d = 0"
proof -
  obtain p t where p: "in_segment a b p" "p = between c d t" "0 \<le> t" "t \<le> 1"
    using assms(1) unfolding meet_def in_segment_def by metis
  have e: "turn a b c + t * (turn a b d - turn a b c) = 0"
    using in_segment_turn [OF p(1)] p(2) turn_between by metis
  have conv: "(1 - t) * turn a b c + t * turn a b d = 0" using e by (simp add: algebra_simps)
  show ?thesis
  proof (cases "turn a b c" "0 :: real" rule: linorder_cases)
    case equal
    then show ?thesis using assms(2) by (auto simp: sgn_if split: if_splits)
  next
    case less
    then have d: "turn a b d < 0" using assms(2) by (auto simp: sgn_if split: if_splits)
    have "(1 - t) * turn a b c \<le> 0" "t * turn a b d \<le> 0" using p(3,4) less d by (auto intro: mult_nonneg_nonpos)
    then have "(1 - t) * turn a b c = 0" "t * turn a b d = 0" using conv by linarith+
    then show ?thesis using less d by auto
  next
    case greater
    then have d: "0 < turn a b d" using assms(2) by (auto simp: sgn_if split: if_splits)
    have "0 \<le> (1 - t) * turn a b c" "0 \<le> t * turn a b d" using p(3,4) greater d by auto
    then have "(1 - t) * turn a b c = 0" "t * turn a b d = 0" using conv by linarith+
    then show ?thesis using greater d by auto
  qed
qed

text \<open>Points of a line have a coordinate.\<close>

lemma line_coordinate:
  assumes "turn a b p = 0" and "a \<noteq> b"
  shows "\<exists>g. p = between a b g"
proof -
  have t: "(pt_y b - pt_y a) * (pt_x p - pt_x a) = (pt_x b - pt_x a) * (pt_y p - pt_y a)"
    using assms(1) by (simp add: turn_def algebra_simps)
  show ?thesis
  proof (cases "pt_x a = pt_x b")
    case False
    then show ?thesis
      using t by (intro exI [of _ "(pt_x p - pt_x a) / (pt_x b - pt_x a)"]) (cases p; simp add: between_def field_simps)
  next
    case True
    then have "pt_y a \<noteq> pt_y b" using assms(2) by auto
    moreover from this have "pt_x p = pt_x a" using t True by simp
    ultimately show ?thesis
      using True by (intro exI [of _ "(pt_y p - pt_y a) / (pt_y b - pt_y a)"]) (cases p; simp add: between_def field_simps)
  qed
qed

lemma between_inject: "a \<noteq> b \<Longrightarrow> between a b s = between a b t \<longleftrightarrow> s = t"
  by (cases a; cases b) (auto simp: between_def)

lemma collinear_meet:
  assumes "meet a b c d" and "turn a b c = 0" and "turn a b d = 0"
  shows "in_segment a b c \<or> in_segment a b d \<or> in_segment c d a \<or> in_segment c d b"
proof (cases "a = b")
  case True
  then have "in_segment c d a" using assms(1) by (auto simp: meet_def in_segment_def between_def)
  then show ?thesis by simp
next
  case False
  obtain g where g: "c = between a b g" using line_coordinate [OF assms(2) False] by blast
  obtain h where h: "d = between a b h" using line_coordinate [OF assms(3) False] by blast
  obtain s t where st: "0 \<le> s" "s \<le> 1" "0 \<le> t" "t \<le> 1" "between a b s = between c d t"
    using assms(1) unfolding meet_def in_segment_def by metis
  have "between c d t = between a b (g + t * (h - g))" by (simp add: g h between_def algebra_simps)
  then have s: "s = g + t * (h - g)" using st(5) between_inject [OF False] by simp
  have rng: "min g h \<le> s" "s \<le> max g h" using range_of_segment [OF st(3,4) s] by auto
  show ?thesis
  proof (cases "0 \<le> g \<and> g \<le> 1 \<or> 0 \<le> h \<and> h \<le> 1")
    case True
    then show ?thesis using g h unfolding in_segment_def by blast
  next
    case outside: False
    then have ne: "g \<noteq> h" and z: "min g h \<le> 0" "0 \<le> max g h" using rng st(1,2) by (auto simp: min_def max_def split: if_splits)
    have "a = between c d ((0 - g) / (h - g))"
      using ne by (cases a) (simp add: g h between_def field_simps)
    then have "in_segment c d a" using fraction_of_segment [OF z ne] unfolding in_segment_def by blast
    then show ?thesis by simp
  qed
qed

lemma crossing_exact:
  "segments_intersect real_floats a b c d \<longleftrightarrow>
     (\<exists>s t. 0 \<le> s \<and> s \<le> 1 \<and> 0 \<le> t \<and> t \<le> 1 \<and> between a b s = between c d t)"
proof -
  have "segments_intersect real_floats a b c d \<longleftrightarrow> meet a b c d"
  proof
    assume "segments_intersect real_floats a b c d"
    then show "meet a b c d"
      unfolding segments_intersect_cases using proper_crossing in_segment_ends by (metis meet_def)
  next
    assume m: "meet a b c d"
    show "segments_intersect real_floats a b c d"
    proof (rule ccontr)
      assume no: "\<not> segments_intersect real_floats a b c d"
      then have "sgn (turn a b c) = sgn (turn a b d) \<or> sgn (turn c d a) = sgn (turn c d b)"
        by (simp add: segments_intersect_cases)
      then show False
      proof
        assume "sgn (turn a b c) = sgn (turn a b d)"
        from collinear_meet [OF m] sides_of_common_point [OF m this] no
        show False by (simp add: segments_intersect_cases)
      next
        assume e: "sgn (turn c d a) = sgn (turn c d b)"
        have m': "meet c d a b" using m meet_sym by simp
        from collinear_meet [OF m'] sides_of_common_point [OF m' e] no
        show False by (simp add: segments_intersect_cases)
      qed
    qed
  qed
  then show ?thesis unfolding meet_def in_segment_def by auto
qed

text \<open>
  C39. With exact arithmetic the crossing test is true exactly when the two segments have a point in common:
  proper crossings, touching ends, overlapping collinear segments and segments of length zero.
\<close>
theorem segments_intersect_exact:
  "segments_intersect real_floats a b c d \<longleftrightarrow>
     (\<exists>s t. 0 \<le> s \<and> s \<le> 1 \<and> 0 \<le> t \<and> t \<le> 1 \<and> between a b s = between c d t)"
  by (rule crossing_exact)

section \<open>Polygons\<close>

lemma on_edge_exact: "on_edge real_floats a b p \<longleftrightarrow> in_segment a b p"
proof -
  have "cross real_floats a b p = - turn a b p" by (simp add: cross_def turn_def algebra_simps)
  then have "on_edge real_floats a b p \<longleftrightarrow> turn a b p = 0 \<and> on_segment real_floats a p b"
    by (auto simp: on_edge_def on_segment_def)
  then show ?thesis using on_segment_iff in_segment_turn by blast
qed

lemma polygon_loop_border: "\<exists>i < length vs. in_segment (vs ! i) ((b # vs) ! i) p \<Longrightarrow> polygon_loop real_floats p b vs inside"
proof (induction vs arbitrary: b inside)
  case (Cons a vs)
  then obtain i where i: "i < length (a # vs)" "in_segment ((a # vs) ! i) ((b # a # vs) ! i) p" by blast
  show ?case
  proof (cases i)
    case 0
    then show ?thesis using i(2) by (simp add: on_edge_exact)
  next
    case (Suc k)
    then have "\<exists>i < length vs. in_segment (vs ! i) ((a # vs) ! i) p" using i by (intro exI [of _ k]) simp
    then show ?thesis using Cons.IH by simp
  qed
qed simp

lemma border_is_inside:
  assumes "3 \<le> length poly" and "i < length poly" and "in_segment (poly ! i) ((last poly # poly) ! i) p"
  shows "point_in_polygon real_floats poly p"
  using assms polygon_loop_border [of poly "last poly" p] by (auto simp: point_in_polygon_def)

section \<open>Tripwires with a direction\<close>

lemma crossingDirection_real:
  "crossingDirection real_floats r prev cur =
     (if turn (r_line_a r) (r_line_b r) prev < 0 \<and> 0 < turn (r_line_a r) (r_line_b r) cur then ''lr''
      else if 0 < turn (r_line_a r) (r_line_b r) prev \<and> turn (r_line_a r) (r_line_b r) cur < 0 then ''rl'' else ''any'')"
proof -
  have "cross real_floats a b p = - turn a b p" for a b p by (simp add: cross_def turn_def algebra_simps)
  then show ?thesis by (simp add: crossingDirection_def Let_def)
qed

text \<open>
  An object that has a sample exactly on the line crosses it without an event of a rule that asks for a
  direction: neither the way to the line nor the way from it has one.
\<close>
lemma landing_on_the_line_is_missed:
  assumes "r_type r = LineCross" and "r_direction r \<noteq> ''any''" and "turn (r_line_a r) (r_line_b r) cur = 0"
  shows "snd (apply_rule real_floats D key label pts True prev cur i r ts) = [] \<and>
    snd (apply_rule real_floats D key label pts True cur next_pos i r ts) = []"
  using assms by (simp add: apply_rule_def crossingDirection_real Let_def)

text \<open>
  A tripwire with direction left to right reports a step of an object exactly when the step has a point in
  common with the line and goes from strictly left of it to strictly right of it.
\<close>
lemma tripwire_left_to_right:
  assumes "r_type r = LineCross" and "r_direction r = ''lr''" and "rule_selects r (fst key) label"
  shows "snd (apply_rule real_floats D key label pts True prev cur i r ts) \<noteq> [] \<longleftrightarrow>
    (\<exists>s t. 0 \<le> s \<and> s \<le> 1 \<and> 0 \<le> t \<and> t \<le> 1 \<and> between prev cur s = between (r_line_a r) (r_line_b r) t) \<and>
    0 < cross real_floats (r_line_a r) (r_line_b r) prev \<and> cross real_floats (r_line_a r) (r_line_b r) cur < 0"
proof -
  have c: "cross real_floats a b p = - turn a b p" for a b p by (simp add: cross_def turn_def algebra_simps)
  have "snd (apply_rule real_floats D key label pts True prev cur i r ts) \<noteq> [] \<longleftrightarrow>
    segments_intersect real_floats prev cur (r_line_a r) (r_line_b r) \<and> crossingDirection real_floats r prev cur = ''lr''"
    using assms by (simp add: apply_rule_def Let_def)
  also have "crossingDirection real_floats r prev cur = ''lr'' \<longleftrightarrow>
    turn (r_line_a r) (r_line_b r) prev < 0 \<and> 0 < turn (r_line_a r) (r_line_b r) cur"
    by (simp add: crossingDirection_real)
  finally show ?thesis by (simp add: crossing_exact c)
qed

end
