(* ===== verification/Llm_Montage.thy ===== *)
theory Llm_Montage
  imports Floats
begin

text \<open>
  The pictures of the event reviewer, plugins/llm_event_review: sizes under a cap on the area, choice of the
  frames of a montage, cropping, and tiling. The scaler and the JPEG encoder (libswscale, libavcodec) are
  parameters. \<open>None\<close> as the outer result is undefined behaviour, a read or write outside of a buffer; \<open>Some
  None\<close> is the result \<open>false\<close>. Sizes are unbounded integers.
\<close>

section \<open>The libraries\<close>

record media_lib =
  ml_scale :: "bytes \<Rightarrow> int \<Rightarrow> int \<Rightarrow> int \<Rightarrow> int \<Rightarrow> int \<Rightarrow> bytes option"
    \<comment> \<open>sws_scale from a slice: stride, width, height, new width, new height\<close>
  ml_jpeg :: "bytes \<Rightarrow> int \<Rightarrow> int \<Rightarrow> int \<Rightarrow> int \<Rightarrow> bytes option"
    \<comment> \<open>the MJPEG encoder: width, height, new width, new height\<close>

text \<open>The scaler fills the buffer that it is given.\<close>

definition scale_fills :: "media_lib \<Rightarrow> bool" where
  "scale_fills lib \<longleftrightarrow> (\<forall>src stride w h dw dh out. ml_scale lib src stride w h dw dh = Some out \<longrightarrow> length out = nat (dw * dh * 3))"

text \<open>The rows that it reads are in the buffer from \<open>off\<close> on.\<close>

definition slice_in :: "bytes \<Rightarrow> int \<Rightarrow> int \<Rightarrow> int \<Rightarrow> int \<Rightarrow> bool" where
  "slice_in src off stride w h \<longleftrightarrow> 0 \<le> off \<and> off + (h - 1) * stride + 3 * w \<le> int (length src)"

section \<open>Sizes\<close>

text \<open>\<open>x &= ~1\<close>.\<close>

definition even_floor :: "int \<Rightarrow> int" where
  "even_floor x = x AND NOT 1"

definition even_size :: "int \<Rightarrow> int" where
  "even_size x = (let x = even_floor x in if x < 2 then 2 else x)"

text \<open>The size that \<open>encodeRgb24ToJpeg\<close> gives to the picture.\<close>

definition jpeg_dims :: "'d floats \<Rightarrow> int \<Rightarrow> int \<Rightarrow> int \<Rightarrow> int \<times> int" where
  "jpeg_dims D width height maxPixels =
     (if maxPixels > 0 \<and> width * height > maxPixels then
        (let sc = fl_sqrt D (fl_div D (fl_num D maxPixels 1) (fl_mul D (fl_num D width 1) (fl_num D height 1)));
             dstW = max 1 (fl_to_int D (fl_mul D (fl_num D width 1) sc));
             dstH = max 1 (fl_to_int D (fl_mul D (fl_num D height 1) sc))
         in (even_size dstW, even_size dstH))
      else (width, height))"

definition encodeRgb24ToJpeg ::
  "media_lib \<Rightarrow> 'd floats \<Rightarrow> bytes \<Rightarrow> int \<Rightarrow> int \<Rightarrow> int \<Rightarrow> bytes option option" where
  "encodeRgb24ToJpeg lib D rgb width height maxPixels =
     (if width \<le> 0 \<or> height \<le> 0 then Some None
      else if \<not> slice_in rgb 0 (3 * width) width height then None
      else case jpeg_dims D width height maxPixels of (dstW, dstH) \<Rightarrow> Some (ml_jpeg lib rgb width height dstW dstH))"

definition scaleRgb24 :: "media_lib \<Rightarrow> bytes \<Rightarrow> int \<Rightarrow> int \<Rightarrow> int \<Rightarrow> int \<Rightarrow> bytes option option" where
  "scaleRgb24 lib src sw sh dw dh =
     (if sw \<le> 0 \<or> sh \<le> 0 \<or> dw \<le> 0 \<or> dh \<le> 0 then Some None
      else if \<not> slice_in src 0 (3 * sw) sw sh then None
      else Some (ml_scale lib src (3 * sw) sw sh dw dh))"

text \<open>One axis of the crop rectangle, clamped to the picture.\<close>

definition clamp_axis :: "int \<Rightarrow> int \<Rightarrow> int \<Rightarrow> int \<times> int" where
  "clamp_axis full c w =
     (let (c, w) = (if c < 0 then (0, w + c) else (c, w)) in (c, if c + w > full then full - c else w))"

definition scaleRgb24Crop ::
  "media_lib \<Rightarrow> bytes \<Rightarrow> int \<Rightarrow> int \<Rightarrow> int \<Rightarrow> int \<Rightarrow> int \<Rightarrow> int \<Rightarrow> int \<Rightarrow> int \<Rightarrow> bytes option option" where
  "scaleRgb24Crop lib src fullW fullH cx cy cw ch dw dh =
     (if fullW \<le> 0 \<or> fullH \<le> 0 \<or> dw \<le> 0 \<or> dh \<le> 0 then Some None
      else case clamp_axis fullW cx cw of (cx, cw) \<Rightarrow>
        case clamp_axis fullH cy ch of (cy, ch) \<Rightarrow>
          if cw < 2 \<or> ch < 2 then Some None
          else let off = (cy * fullW + cx) * 3 in
            if \<not> slice_in src off (3 * fullW) cw ch then None
            else Some (ml_scale lib (drop (nat off) src) (3 * fullW) cw ch dw dh))"

definition fitDims :: "'d floats \<Rightarrow> int \<Rightarrow> int \<Rightarrow> int \<Rightarrow> int \<times> int" where
  "fitDims D sw sh maxPixels =
     (let (dw, dh) =
        (if maxPixels > 0 \<and> sw * sh > maxPixels then
           (let s = fl_sqrt D (fl_div D (fl_num D maxPixels 1) (fl_mul D (fl_num D sw 1) (fl_num D sh 1)))
            in (max 2 (fl_to_int D (fl_mul D (fl_num D sw 1) s)), max 2 (fl_to_int D (fl_mul D (fl_num D sh 1) s))))
         else (sw, sh))
      in (even_size dw, even_size dh))"

section \<open>The montage\<close>

record TimedThumb =
  tt_rgb :: bytes
  tt_width :: int
  tt_height :: int
  tt_t :: int             \<comment> \<open>steady clock, nanoseconds\<close>

text \<open>The size of a tile, of the whole picture, and where a tile starts; the gutter is 4 pixels.\<close>

definition tile_size :: "'d floats \<Rightarrow> int \<Rightarrow> int \<Rightarrow> int \<Rightarrow> int \<Rightarrow> int \<Rightarrow> int \<times> int" where
  "tile_size D montageMaxPixels cols rows sw sh =
     (let aspect = fl_div D (fl_num D sw 1) (fl_num D sh 1);
          perTile = fl_div D (fl_num D montageMaxPixels 1) (fl_num D (cols * rows) 1);
          tileW = max 2 (fl_to_int D (fl_sqrt D (fl_mul D perTile aspect)));
          tileH = max 2 (fl_to_int D (fl_div D (fl_num D tileW 1) aspect))
      in (even_size tileW, even_size tileH))"

definition canvas_length :: "int \<Rightarrow> int \<Rightarrow> int" where
  "canvas_length count tile = count * tile + (count + 1) * 4"

definition cell_start :: "int \<Rightarrow> int \<Rightarrow> int" where
  "cell_start k tile = 4 + k * (tile + 4)"

text \<open>The loop over the rows of a tile; \<open>None\<close> when \<open>memcpy\<close> leaves a buffer.\<close>

fun blit_rows :: "bytes \<Rightarrow> int \<Rightarrow> int \<Rightarrow> int \<Rightarrow> int \<Rightarrow> int list \<Rightarrow> bytes \<Rightarrow> bytes option" where
  "blit_rows tile tileW outW x0 y0 [] out = Some out"
| "blit_rows tile tileW outW x0 y0 (y # ys) out =
     (let dst = ((y0 + y) * outW + x0) * 3; src = y * tileW * 3; n = tileW * 3 in
      if 0 \<le> dst \<and> dst + n \<le> int (length out) \<and> 0 \<le> src \<and> src + n \<le> int (length tile)
      then blit_rows tile tileW outW x0 y0 ys (memcpy_at (nat dst) (take (nat n) (drop (nat src) tile)) out)
      else None)"

text \<open>The tile of a frame: cropped around a centre, or the whole frame.\<close>

definition make_tile ::
  "media_lib \<Rightarrow> 'f floats \<Rightarrow> ('f \<times> 'f) option \<Rightarrow> 'f \<Rightarrow> int \<Rightarrow> int \<Rightarrow> TimedThumb \<Rightarrow> bytes option option" where
  "make_tile lib F center cropFrac tileW tileH f =
     (let fw = tt_width f; fh = tt_height f in
      case center of
        None \<Rightarrow> scaleRgb24 lib (tt_rgb f) fw fh tileW tileH
      | Some (px, py) \<Rightarrow>
          (let half = fl_mul F cropFrac (fl_num F 1 2);
               ncx = fl_min F (fl_max F px half) (fl_sub F (fl_num F 1 1) half);
               ncy = fl_min F (fl_max F py half) (fl_sub F (fl_num F 1 1) half);
               cw = max 2 (fl_to_int F (fl_mul F cropFrac (fl_num F fw 1)));
               ch = max 2 (fl_to_int F (fl_mul F cropFrac (fl_num F fh 1)));
               cx = fl_to_int F (fl_mul F (fl_sub F ncx half) (fl_num F fw 1));
               cy = fl_to_int F (fl_mul F (fl_sub F ncy half) (fl_num F fh 1))
           in scaleRgb24Crop lib (tt_rgb f) fw fh cx cy cw ch tileW tileH))"

text \<open>The loop over the frames, from number \<open>i\<close> on; \<open>centers\<close> is empty without cropping.\<close>

fun blit_tiles ::
  "media_lib \<Rightarrow> 'f floats \<Rightarrow> ('f \<times> 'f) option list \<Rightarrow> 'f \<Rightarrow> int \<Rightarrow> int \<Rightarrow> int \<Rightarrow> int \<Rightarrow> int \<Rightarrow> TimedThumb list \<Rightarrow>
   bytes \<Rightarrow> bytes option" where
  "blit_tiles lib F centers cropFrac cols tileW tileH outW i [] out = Some out"
| "blit_tiles lib F centers cropFrac cols tileW tileH outW i (f # fs) out =
     (case make_tile lib F (centers ! nat i) cropFrac tileW tileH f of
        None \<Rightarrow> None
      | Some None \<Rightarrow> blit_tiles lib F centers cropFrac cols tileW tileH outW (i + 1) fs out
      | Some (Some tile) \<Rightarrow>
          (case blit_rows tile tileW outW (cell_start (i mod cols) tileW) (cell_start (i div cols) tileH) [0..tileH - 1] out of
             None \<Rightarrow> None
           | Some out \<Rightarrow> blit_tiles lib F centers cropFrac cols tileW tileH outW (i + 1) fs out))"

definition buildMontage ::
  "media_lib \<Rightarrow> 'f floats \<Rightarrow> 'd floats \<Rightarrow> TimedThumb list \<Rightarrow> int \<Rightarrow> int \<Rightarrow> ('f \<times> 'f) list \<Rightarrow> 'f \<Rightarrow> int \<Rightarrow> int \<Rightarrow>
   (bytes \<times> int \<times> int) option option" where
  "buildMontage lib F D frames cols montageMaxPixels centers cropFrac aspectW aspectH =
     (let n = int (length frames) in
      if n = 0 \<or> cols \<le> 0 then Some None
      else let rows = (n + cols - 1) div cols;
               doCrop = fl_less F (fl_zero F) cropFrac \<and> int (length centers) = n;
               sw = (if aspectW > 0 then aspectW else tt_width (frames ! 0));
               sh = (if aspectH > 0 then aspectH else tt_height (frames ! 0))
           in if sw \<le> 0 \<or> sh \<le> 0 then Some None
              else case tile_size D montageMaxPixels cols rows sw sh of (tileW, tileH) \<Rightarrow>
                let outW = canvas_length cols tileW;
                    outH = canvas_length rows tileH;
                    out = replicate (nat (outW * outH * 3)) 40;
                    cs = (if doCrop then map Some centers else replicate (length frames) None)
                in map_option (\<lambda>out. Some (out, outW, outH))
                     (blit_tiles lib F cs cropFrac cols tileW tileH outW 0 frames out))"

section \<open>The frames of the montage\<close>

text \<open>
  \<open>llround(i * (m - 1) / (want - 1))\<close>. The quotient of two integers below 2^31 as a \<open>double\<close> is rounded
  correctly, and lies on the same side of the next half as the exact one, so the rounded number is the exact
  quotient's, halves upwards. With \<open>want = 1\<close> it is 0 / 0; the result of \<open>llround\<close> for NaN is unspecified,
  \<open>nan_index\<close>.
\<close>

definition select_index :: "int \<Rightarrow> int \<Rightarrow> int \<Rightarrow> int \<Rightarrow> int" where
  "select_index nan_index m want i =
     (if want - 1 = 0 then nan_index else (2 * (i * (m - 1)) + (want - 1)) div (2 * (want - 1)))"

fun pick_frames :: "'a list \<Rightarrow> int list \<Rightarrow> 'a list option" where
  "pick_frames ring [] = Some []"
| "pick_frames ring (i # is) =
     (if 0 \<le> i \<and> i < int (length ring) then map_option ((#) (ring ! nat i)) (pick_frames ring is) else None)"

definition selectMontageFrames :: "int \<Rightarrow> 'a list \<Rightarrow> int \<Rightarrow> 'a list option" where
  "selectMontageFrames nan_index ring want =
     (let m = int (length ring) in
      if m = 0 \<or> want \<le> 0 then Some []
      else if m \<le> want then Some ring
      else pick_frames ring (map (select_index nan_index m want) [0..want - 1]))"

section \<open>Facts about sizes\<close>

lemma even_size_pos [simp]: "2 \<le> even_size x" "0 < even_size x" "0 \<le> even_size x"
  by (simp_all add: even_size_def Let_def)

lemma fitDims_pos: "fitDims D sw sh maxPixels = (dw, dh) \<Longrightarrow> 2 \<le> dw \<and> 2 \<le> dh"
  by (auto simp: fitDims_def Let_def split: prod.splits)

lemma tile_size_pos: "tile_size D p c r sw sh = (w, h) \<Longrightarrow> 2 \<le> w \<and> 2 \<le> h"
  by (auto simp: tile_size_def Let_def)

lemma clamp_axis_inside:
  "\<lbrakk>clamp_axis full c w = (c', w'); 2 \<le> w'\<rbrakk> \<Longrightarrow> 0 \<le> c' \<and> c' + w' \<le> full"
  by (auto simp: clamp_axis_def Let_def split: if_splits)

end
