(* ===== verification/Llm_Review.thy ===== *)
theory Llm_Review
  imports Llm_Montage Vlm_Client Frame_Header "HOL-Library.AList"
begin

text \<open>
  The event reviewer, plugins/llm_event_review/llm_event_review.cpp: the ring of thumbnails of each stream,
  the history of each tracked object, the handler of alerts, the worker that asks the vision-language
  server, and the narrator. Times are readings of the steady clock in nanoseconds, given as arguments. Each
  region under a mutex is one step; the maps are association lists, in the order in which the code iterates.
\<close>

section \<open>Configuration\<close>

record 'd llm_cfg =
  lc_provider :: string
  lc_serverUrl :: string
  lc_model :: string
  lc_apiKey :: string
  lc_frameWidth :: int
  lc_frameHeight :: int
  lc_prompt :: string
  lc_maxPixels :: int
  lc_montage :: bool
  lc_montageFrames :: int
  lc_montageCols :: int
  lc_montageWindowSec :: 'd
  lc_montageSampleFps :: 'd
  lc_montageMaxPixels :: int
  lc_storeMaxPixels :: int
  lc_montageCrop :: bool
  lc_montageCropMargin :: 'd
  lc_montageCropMinFrac :: 'd
  lc_montagePrompt :: string
  lc_narrate :: bool
  lc_narratorIdleSec :: 'd
  lc_narratorMinCaptions :: int
  lc_narratorPrompt :: string
  lc_timeoutSec :: int
  lc_enableThinking :: bool
  lc_classes :: "string list"
  lc_streamFilter :: "u32 list"
  lc_triggerEvents :: "string list"
  lc_debounceUsec :: u64

text \<open>The dash of the default texts, in UTF-8.\<close>

definition dash :: string where
  "dash = [char_of (226::nat), char_of (128::nat), char_of (148::nat)]"

definition default_montage_prompt :: string where
  "default_montage_prompt =
     ''You are a security camera analyst reviewing a sequence of [n] frames '' @
     ''from one event, shown in chronological order (left to right, top to '' @
     ''bottom) spanning about [span_sec] seconds. The framing follows one '' @
     ''[label]. In one or two sentences, describe only what is visually '' @
     ''observable about how the [label] moves across the sequence '' @ dash @ '' direction '' @
     ''of travel, entering or leaving, stopping, or carrying a clearly visible '' @
     ''object. Report only what the frames actually show: do NOT guess the '' @
     ''subject's motive, intent, or destination, and do NOT invent details '' @
     ''that are not plainly visible. If nothing notable happens, say so '' @
     ''plainly.''"

definition default_narrator_prompt :: string where
  "default_narrator_prompt =
     ''You are a security analyst. Below are sequential observations of a '' @
     ''single tracked [label] over time, plus its movement path '' @ dash @ '' the path is '' @
     ''the factual record of where it went. Write a 2-3 sentence factual '' @
     ''summary of what this [label] did, grounded in the movement path and the '' @
     ''observations. Describe only observable movement: direction, entering or '' @
     ''leaving, stopping, and how long it lingered. Do NOT infer motive, '' @
     ''intent, or destination, and do NOT add details not present in the '' @
     ''observations. Do not mention frame numbers or raw coordinates.''"

definition llm_cfg_init :: "'d floats \<Rightarrow> 'd llm_cfg" where
  "llm_cfg_init D = \<lparr>lc_provider = ''local'', lc_serverUrl = ''http://localhost:8080/v1/chat/completions'',
     lc_model = ''Qwen/Qwen3-VL-8B-Instruct-FP8'', lc_apiKey = [], lc_frameWidth = 0, lc_frameHeight = 0,
     lc_prompt = ''You are a security camera analyst. Describe the security event in this '' @
       ''image in one sentence, noting anything unusual.'',
     lc_maxPixels = 1003520, lc_montage = True, lc_montageFrames = 6, lc_montageCols = 3,
     lc_montageWindowSec = fl_num D 6 1, lc_montageSampleFps = fl_num D 2 1, lc_montageMaxPixels = 400000,
     lc_storeMaxPixels = 230400, lc_montageCrop = True, lc_montageCropMargin = fl_num D 2 1,
     lc_montageCropMinFrac = fl_num D 25 100, lc_montagePrompt = default_montage_prompt,
     lc_narrate = True, lc_narratorIdleSec = fl_num D 8 1, lc_narratorMinCaptions = 2,
     lc_narratorPrompt = default_narrator_prompt, lc_timeoutSec = 30, lc_enableThinking = False,
     lc_classes = [], lc_streamFilter = [], lc_triggerEvents = [''alert''], lc_debounceUsec = 10000000\<rparr>"

definition llm_allowedClass :: "'d llm_cfg \<Rightarrow> string \<Rightarrow> bool" where
  "llm_allowedClass c l \<longleftrightarrow> lc_classes c = [] \<or> l \<in> set (lc_classes c)"

definition llm_allowedStream :: "'d llm_cfg \<Rightarrow> u32 \<Rightarrow> bool" where
  "llm_allowedStream c sid \<longleftrightarrow> lc_streamFilter c = [] \<or> sid \<in> set (lc_streamFilter c)"

definition wantsTrigger :: "'d llm_cfg \<Rightarrow> string \<Rightarrow> bool" where
  "wantsTrigger c ty \<longleftrightarrow> ty \<in> set (lc_triggerEvents c)"

fun filter_streams :: "'j json_api \<Rightarrow> 'j list \<Rightarrow> 'd llm_cfg + 'd llm_cfg \<Rightarrow> 'd llm_cfg + 'd llm_cfg" where
  "filter_streams J [] c = c"
| "filter_streams J (v # vs) c =
     filter_streams J vs
       (if j_is_integer J v then cfg_step (j_int J v) (\<lambda>n x. x\<lparr>lc_streamFilter := lc_streamFilter x @ [of_int n]\<rparr>) c else c)"

fun get_strings :: "'j json_api \<Rightarrow> 'j list \<Rightarrow> string list option" where
  "get_strings J [] = Some []"
| "get_strings J (v # vs) = Option.bind (j_string J v) (\<lambda>s. map_option ((#) s) (get_strings J vs))"

definition llm_config :: "'j json_api \<Rightarrow> ('j, 'd) json_float \<Rightarrow> 'd floats \<Rightarrow> string option \<Rightarrow> 'd llm_cfg" where
  "llm_config J K D json_cfg =
     (case Option.bind json_cfg (j_parse J) of
        None \<Rightarrow> llm_cfg_init D
      | Some j \<Rightarrow> cfg_result (
          let str = (\<lambda>key dflt. j_value_string J j key dflt); dfl = llm_cfg_init D; c = Inr dfl;
              c = cfg_step (str ''provider'' (lc_provider dfl)) (\<lambda>v x. x\<lparr>lc_provider := v\<rparr>) c;
              c = cfg_step (j_value_int J j ''frame_width'' 0) (\<lambda>v x. x\<lparr>lc_frameWidth := v\<rparr>) c;
              c = cfg_step (j_value_int J j ''frame_height'' 0) (\<lambda>v x. x\<lparr>lc_frameHeight := v\<rparr>) c;
              c = cfg_step (str ''server_url'' (lc_serverUrl dfl)) (\<lambda>v x. x\<lparr>lc_serverUrl := v\<rparr>) c;
              c = cfg_step (str ''model'' (lc_model dfl)) (\<lambda>v x. x\<lparr>lc_model := v\<rparr>) c;
              c = cfg_step (str ''api_key'' (lc_apiKey dfl)) (\<lambda>v x. x\<lparr>lc_apiKey := v\<rparr>) c;
              c = cfg_step (str ''prompt'' (lc_prompt dfl)) (\<lambda>v x. x\<lparr>lc_prompt := v\<rparr>) c;
              c = cfg_step (value_long J j ''max_pixels'' 1003520) (\<lambda>v x. x\<lparr>lc_maxPixels := v\<rparr>) c;
              c = cfg_step (value_long J j ''timeout_sec'' 30) (\<lambda>v x. x\<lparr>lc_timeoutSec := v\<rparr>) c;
              c = cfg_step (j_value_bool J j ''enable_thinking'' False) (\<lambda>v x. x\<lparr>lc_enableThinking := v\<rparr>) c;
              c = cfg_step (j_value_bool J j ''montage'' True) (\<lambda>v x. x\<lparr>lc_montage := v\<rparr>) c;
              c = cfg_step (j_value_int J j ''montage_frames'' 6) (\<lambda>v x. x\<lparr>lc_montageFrames := v\<rparr>) c;
              c = cfg_step (j_value_int J j ''montage_cols'' 3) (\<lambda>v x. x\<lparr>lc_montageCols := v\<rparr>) c;
              c = cfg_step (jf_value K j ''montage_window_sec'' (lc_montageWindowSec dfl)) (\<lambda>v x. x\<lparr>lc_montageWindowSec := v\<rparr>) c;
              c = cfg_step (jf_value K j ''montage_sample_fps'' (lc_montageSampleFps dfl)) (\<lambda>v x. x\<lparr>lc_montageSampleFps := v\<rparr>) c;
              c = cfg_step (value_long J j ''montage_max_pixels'' 400000) (\<lambda>v x. x\<lparr>lc_montageMaxPixels := v\<rparr>) c;
              c = cfg_step (value_long J j ''store_max_pixels'' 230400) (\<lambda>v x. x\<lparr>lc_storeMaxPixels := v\<rparr>) c;
              c = cfg_step (j_value_bool J j ''montage_crop'' True) (\<lambda>v x. x\<lparr>lc_montageCrop := v\<rparr>) c;
              c = cfg_step (jf_value K j ''montage_crop_margin'' (lc_montageCropMargin dfl)) (\<lambda>v x. x\<lparr>lc_montageCropMargin := v\<rparr>) c;
              c = cfg_step (jf_value K j ''montage_crop_min_frac'' (lc_montageCropMinFrac dfl)) (\<lambda>v x. x\<lparr>lc_montageCropMinFrac := v\<rparr>) c;
              c = cfg_step (str ''montage_prompt'' (lc_montagePrompt dfl))
                    (\<lambda>v x. x\<lparr>lc_montagePrompt := v, lc_montageFrames := max 1 (lc_montageFrames x),
                             lc_montageCols := max 1 (lc_montageCols x)\<rparr>) c;
              c = cfg_step (j_value_bool J j ''narrate'' True) (\<lambda>v x. x\<lparr>lc_narrate := v\<rparr>) c;
              c = cfg_step (jf_value K j ''narrator_idle_sec'' (lc_narratorIdleSec dfl)) (\<lambda>v x. x\<lparr>lc_narratorIdleSec := v\<rparr>) c;
              c = cfg_step (j_value_int J j ''narrator_min_captions'' 2) (\<lambda>v x. x\<lparr>lc_narratorMinCaptions := v\<rparr>) c;
              c = cfg_step (str ''narrator_prompt'' (lc_narratorPrompt dfl)) (\<lambda>v x. x\<lparr>lc_narratorPrompt := v\<rparr>) c;
              c = cfg_step (jf_value K j ''debounce_sec'' (fl_num D 10 1))
                    (\<lambda>v x. x\<lparr>lc_debounceUsec := fl_to_u64 D (fl_mul D v (fl_num D 1000000 1))\<rparr>) c;
              c = (case j_field J j ''classes'' of
                     None \<Rightarrow> c
                   | Some a \<Rightarrow> if j_is_array J a
                       then cfg_step (get_strings J (j_elements J a)) (\<lambda>v x. x\<lparr>lc_classes := v\<rparr>) c else c);
              c = (case j_field J j ''stream_filter'' of
                     None \<Rightarrow> c
                   | Some a \<Rightarrow> if j_is_array J a then filter_streams J (j_elements J a) c else c)
          in case j_field J j ''trigger_events'' of
               None \<Rightarrow> c
             | Some a \<Rightarrow> if j_is_array J a \<and> j_elements J a \<noteq> []
                 then cfg_step (get_strings J (j_elements J a)) (\<lambda>v x. x\<lparr>lc_triggerEvents := v\<rparr>) c else c))"

section \<open>State\<close>

record StreamRing =
  sr_frames :: "TimedThumb list"
  sr_lastSample :: int

record ('f, 'd) TrackHist =
  th_label :: string
  th_t0 :: int
  th_lastSeen :: int
  th_haveT0 :: bool
  th_captions :: "'d Caption list"
  th_traj :: "('f, 'd) Point list"
  th_narrated :: bool

definition TrackHist_init :: "('f, 'd) TrackHist" where
  "TrackHist_init = \<lparr>th_label = [], th_t0 = 0, th_lastSeen = 0, th_haveT0 = False, th_captions = [], th_traj = [],
     th_narrated = False\<rparr>"

datatype JobKind = Review | Narrate

record ('f, 'd) ReviewJob =
  rj_kind :: JobKind
  rj_streamId :: u32
  rj_ptsUsec :: u64
  rj_trackId :: int
  rj_label :: string
  rj_triggerEvent :: string
  rj_triggerReason :: string
  rj_frames :: "TimedThumb list"
  rj_spanSec :: 'd
  rj_cropCenters :: "('f \<times> 'f) list"
  rj_cropFrac :: 'f
  rj_timeline :: "'d Caption list"
  rj_traj :: "('f, 'd) Point list"

record ('f, 'd) llm_state =
  ls_cfg :: "'d llm_cfg"
  ls_visionProvider :: LocalOpenAICompat
  ls_rings :: "(u32 \<times> StreamRing) list"
  ls_lastReview :: "(u64 \<times> int) list"
  ls_trackHist :: "(u64 \<times> ('f, 'd) TrackHist) list"
  ls_jobs :: "('f, 'd) ReviewJob list"
  ls_running :: bool
  ls_active :: bool

definition trackKey :: "u32 \<Rightarrow> int \<Rightarrow> u64" where
  "trackKey sid tid = push_bit 32 (ucast sid) OR ucast (of_int tid :: u32)"

text \<open>The arithmetic and the libraries, in one record.\<close>

record ('j, 'f, 'd) llm_env =
  le_J :: "'j json_api"
  le_K :: "('j, 'd) json_float"
  le_F :: "'f floats"
  le_D :: "'d floats"
  le_X :: "('f, 'd) casts"
  le_NF :: "'d number_format"
  le_lib :: media_lib
  le_curl :: "'j curl"
  le_nan_index :: int

section \<open>Frames\<close>

text \<open>A sample is put into the ring: frames that left the window go, and at most 64 stay.\<close>

definition ring_add :: "'d floats \<Rightarrow> 'd \<Rightarrow> int \<Rightarrow> TimedThumb \<Rightarrow> StreamRing \<Rightarrow> StreamRing" where
  "ring_add D windowSec now tt ring =
     (let fs = dropWhile (\<lambda>f. fl_less D windowSec (secs_of_ns D (now - tt_t f))) (sr_frames ring @ [tt])
      in \<lparr>sr_frames = drop (length fs - 64) fs, sr_lastSample = now\<rparr>)"

text \<open>The thumbnail of a payload; \<open>Some None\<close> when the scaler failed.\<close>

definition make_thumb :: "media_lib \<Rightarrow> 'd floats \<Rightarrow> 'd llm_cfg \<Rightarrow> int \<Rightarrow> bytes \<Rightarrow> TimedThumb option option" where
  "make_thumb lib D c now payload =
     (case fitDims D (lc_frameWidth c) (lc_frameHeight c) (lc_storeMaxPixels c) of
        (dw, dh) \<Rightarrow>
          if dw = lc_frameWidth c \<and> dh = lc_frameHeight c
          then Some (if payload = [] then None
                     else Some \<lparr>tt_rgb = payload, tt_width = lc_frameWidth c, tt_height = lc_frameHeight c, tt_t = now\<rparr>)
          else map_option (\<lambda>r. case r of
                  None \<Rightarrow> None
                | Some rgb \<Rightarrow> if rgb = [] then None else Some \<lparr>tt_rgb = rgb, tt_width = dw, tt_height = dh, tt_t = now\<rparr>)
               (scaleRgb24 lib payload (lc_frameWidth c) (lc_frameHeight c) dw dh))"

definition ring_of :: "u32 \<Rightarrow> ('f, 'd) llm_state \<Rightarrow> StreamRing" where
  "ring_of sid s = (case map_of (ls_rings s) sid of None \<Rightarrow> \<lparr>sr_frames = [], sr_lastSample = 0\<rparr> | Some r \<Rightarrow> r)"

text \<open>\<open>on_frame\<close> up to the call that passes the frame on unchanged; \<open>None\<close> is undefined behaviour.\<close>

definition llm_on_frame ::
  "media_lib \<Rightarrow> 'd floats \<Rightarrow> int \<Rightarrow> bytes \<Rightarrow> ('f, 'd) llm_state \<Rightarrow> ('f, 'd) llm_state option" where
  "llm_on_frame lib D now buf s =
     (if length buf < sizeof_frame_hdr then Some s
      else let hdr = frame_hdr buf; payload = drop sizeof_frame_hdr buf; c = ls_cfg s in
        if fh_hw_type hdr = ZM_FRAME_RGB24 \<and> llm_allowedStream c (fh_stream_id hdr) \<and> lc_frameWidth c > 0 \<and>
           lc_frameHeight c > 0 \<and> int (length payload) \<ge> lc_frameWidth c * lc_frameHeight c * 3
        then
          (let minInterval = (if fl_less D (fl_zero D) (lc_montageSampleFps c)
                              then fl_div D (fl_num D 1 1) (lc_montageSampleFps c) else fl_zero D);
               ring = ring_of (fh_stream_id hdr) s;
               due = sr_frames ring = [] \<or> fl_leq D minInterval (secs_of_ns D (now - sr_lastSample ring))
           in if \<not> due then Some (s\<lparr>ls_rings := AList.update (fh_stream_id hdr) ring (ls_rings s)\<rparr>)
              else map_option (\<lambda>tt. s\<lparr>ls_rings := AList.update (fh_stream_id hdr)
                       (case tt of None \<Rightarrow> ring | Some tt \<Rightarrow> ring_add D (lc_montageWindowSec c) now tt ring) (ls_rings s)\<rparr>)
                   (make_thumb lib D c now payload))
        else Some s)"

end
