(* ===== verification/Llm_Events.thy ===== *)
theory Llm_Events
  imports Llm_Review
begin

text \<open>
  The event reviewer, continued: the handler of events, the worker with its two kinds of jobs, start and
  stop. \<open>None\<close> is undefined behaviour; an exception that leaves the handler is a flag of its result.
\<close>

section \<open>Hits\<close>

record 'f Hit =
  hit_trackId :: int
  hit_label :: string
  hit_reason :: string
  hit_hasBbox :: bool
  hit_cx :: 'f
  hit_cy :: 'f
  hit_bw :: 'f
  hit_bh :: 'f

definition plain_hit :: "'f floats \<Rightarrow> int \<Rightarrow> string \<Rightarrow> string \<Rightarrow> 'f Hit" where
  "plain_hit F tid label reason = \<lparr>hit_trackId = tid, hit_label = label, hit_reason = reason, hit_hasBbox = False,
     hit_cx = fl_zero F, hit_cy = fl_zero F, hit_bw = fl_zero F, hit_bh = fl_zero F\<rparr>"

text \<open>The lambda \<open>centroid\<close>; \<open>None\<close> for the exception of a conversion.\<close>

definition centroid :: "('j, 'f, 'd) llm_env \<Rightarrow> 'd llm_cfg \<Rightarrow> 'j \<Rightarrow> 'f Hit \<Rightarrow> 'f Hit option" where
  "centroid E c obj h =
     (let J = le_J E; D = le_D E; X = le_X E; W = fl_num D (lc_frameWidth c) 1; H = fl_num D (lc_frameHeight c) 1 in
      if lc_frameWidth c \<le> 0 \<or> lc_frameHeight c \<le> 0 then Some h
      else case j_field J obj ''bbox'' of
        None \<Rightarrow> Some h
      | Some b \<Rightarrow>
          if \<not> j_is_array J b \<or> length (j_elements J b) < 4 then Some h
          else Option.bind (jf_get (le_K E) (j_elements J b ! 0)) (\<lambda>x.
               Option.bind (jf_get (le_K E) (j_elements J b ! 1)) (\<lambda>y.
               Option.bind (jf_get (le_K E) (j_elements J b ! 2)) (\<lambda>w.
               Option.bind (jf_get (le_K E) (j_elements J b ! 3)) (\<lambda>hgt.
                 Some (h\<lparr>hit_cx := c_float X (fl_div D (fl_add D x (fl_div D w (fl_num D 2 1))) W),
                         hit_cy := c_float X (fl_div D (fl_add D y (fl_div D hgt (fl_num D 2 1))) H),
                         hit_bw := c_float X (fl_div D w W), hit_bh := c_float X (fl_div D hgt H),
                         hit_hasBbox := True\<rparr>))))))"

definition alert_hits :: "('j, 'f, 'd) llm_env \<Rightarrow> 'd llm_cfg \<Rightarrow> 'j \<Rightarrow> 'f Hit list option" where
  "alert_hits E c j =
     Option.bind (j_value_int (le_J E) j ''track_id'' 0) (\<lambda>tid.
     Option.bind (j_value_string (le_J E) j ''label'' []) (\<lambda>label.
       if tid > 0 \<and> llm_allowedClass c label
       then Option.bind (j_value_string (le_J E) j ''reason'' []) (\<lambda>reason.
              map_option (\<lambda>h. [h]) (centroid E c j (plain_hit (le_F E) tid label reason)))
       else Some []))"

fun detection_hits :: "('j, 'f, 'd) llm_env \<Rightarrow> 'd llm_cfg \<Rightarrow> 'j list \<Rightarrow> 'f Hit list option" where
  "detection_hits E c [] = Some []"
| "detection_hits E c (d # ds) =
     Option.bind (j_value_int (le_J E) d ''track_id'' 0) (\<lambda>tid.
       if tid \<le> 0 then detection_hits E c ds
       else Option.bind (j_value_string (le_J E) d ''label'' []) (\<lambda>label.
         if \<not> llm_allowedClass c label then detection_hits E c ds
         else Option.bind (centroid E c d (plain_hit (le_F E) tid label [])) (\<lambda>h.
           map_option ((#) h) (detection_hits E c ds))))"

text \<open>
  What the handler reads from an event: type, stream, time, hits. \<open>Some None\<close> is an early return, \<open>None\<close> an
  exception.
\<close>

definition read_event ::
  "('j, 'f, 'd) llm_env \<Rightarrow> 'd llm_cfg \<Rightarrow> string \<Rightarrow> (string \<times> u32 \<times> u64 \<times> 'f Hit list) option option" where
  "read_event E c msg =
     (let J = le_J E in
      case j_parse J msg of
        None \<Rightarrow> Some None
      | Some j \<Rightarrow>
          Option.bind (j_value_string J j ''type'' []) (\<lambda>ty.
            if \<not> wantsTrigger c ty then Some None
            else Option.bind (j_value_u64 J j ''stream_id'' 0) (\<lambda>sid64.
              if \<not> llm_allowedStream c (ucast sid64) then Some None
              else Option.bind (j_value_u64 J j ''pts_usec'' 0) (\<lambda>pts.
                Option.bind
                  (if ty = ''alert'' then alert_hits E c j
                   else if ty = ''tracked_detection'' then
                     (case j_field J j ''detections'' of
                        None \<Rightarrow> Some []
                      | Some a \<Rightarrow> if j_is_array J a then detection_hits E c (j_elements J a) else Some [])
                   else Some [])
                  (\<lambda>hits. Some (if hits = [] then None else Some (ty, ucast sid64, pts, hits)))))))"

section \<open>Trajectories\<close>

definition hist_of :: "u64 \<Rightarrow> ('f, 'd) llm_state \<Rightarrow> ('f, 'd) TrackHist" where
  "hist_of key s = (case map_of (ls_trackHist s) key of None \<Rightarrow> TrackHist_init | Some th \<Rightarrow> th)"

text \<open>The first time, the label, and the time of the last observation.\<close>

definition touch_hist :: "string \<Rightarrow> int \<Rightarrow> ('f, 'd) TrackHist \<Rightarrow> ('f, 'd) TrackHist" where
  "touch_hist label now th =
     (if th_haveT0 th then th else th\<lparr>th_t0 := now, th_haveT0 := True\<rparr>)\<lparr>th_label := label, th_lastSeen := now\<rparr>"

definition add_point :: "'d floats \<Rightarrow> int \<Rightarrow> 'f Hit \<Rightarrow> ('f, 'd) TrackHist \<Rightarrow> ('f, 'd) TrackHist" where
  "add_point D now h th =
     (let th = touch_hist (hit_label h) now th;
          traj = th_traj th @ [\<lparr>pnt_tSec = secs_of_ns D (now - th_t0 th), pnt_cx = hit_cx h, pnt_cy = hit_cy h\<rparr>]
      in th\<lparr>th_traj := drop (length traj - 256) traj\<rparr>)"

definition record_hit :: "'d floats \<Rightarrow> u32 \<Rightarrow> int \<Rightarrow> 'f Hit \<Rightarrow> ('f, 'd) llm_state \<Rightarrow> ('f, 'd) llm_state" where
  "record_hit D sid now h s =
     (if \<not> hit_hasBbox h then s
      else let key = trackKey sid (hit_trackId h) in
        s\<lparr>ls_trackHist := AList.update key (add_point D now h (hist_of key s)) (ls_trackHist s)\<rparr>)"

definition record_hits :: "'d floats \<Rightarrow> u32 \<Rightarrow> int \<Rightarrow> 'f Hit list \<Rightarrow> ('f, 'd) llm_state \<Rightarrow> ('f, 'd) llm_state" where
  "record_hits D sid now hits s = (if lc_narrate (ls_cfg s) then fold (record_hit D sid now) hits s else s)"

section \<open>De-duplication\<close>

text \<open>
  \<open>None\<close> when the object was reviewed within the window, otherwise the new map, from which entries older than
  30 seconds are gone. The window is converted to nanoseconds without overflow below 292 years.
\<close>

definition review_due :: "u64 \<Rightarrow> int \<Rightarrow> u64 \<Rightarrow> (u64 \<times> int) list \<Rightarrow> (u64 \<times> int) list option" where
  "review_due debounceUsec now key lastReview =
     (if (case map_of lastReview key of
            None \<Rightarrow> False
          | Some t \<Rightarrow> debounceUsec > 0 \<and> now - t < sint debounceUsec * 1000)
      then None
      else Some (filter (\<lambda>p. \<not> now - snd p > 30 * 1000000000) (AList.update key now lastReview)))"

section \<open>Jobs\<close>

text \<open>The point of the trajectory that is nearest in time to a frame.\<close>

definition nearest_point :: "'d floats \<Rightarrow> 'd \<Rightarrow> ('f, 'd) Point list \<Rightarrow> 'f \<times> 'f \<Rightarrow> 'f \<times> 'f" where
  "nearest_point D ft traj fallback =
     snd (fold (\<lambda>p (best, c). let d = fl_abs D (fl_sub D (pnt_tSec p) ft) in
            if fl_less D d best then (d, (pnt_cx p, pnt_cy p)) else (best, c))
          traj (fl_num D (10 ^ 18) 1, fallback))"

definition crop_frac :: "('j, 'f, 'd) llm_env \<Rightarrow> 'd llm_cfg \<Rightarrow> 'f Hit \<Rightarrow> 'f" where
  "crop_frac E c h =
     (let D = le_D E in
      c_float (le_X E) (fl_min D (fl_num D 1 1) (fl_max D (lc_montageCropMinFrac c)
        (fl_mul D (c_double (le_X E) (fl_max (le_F E) (hit_bw h) (hit_bh h))) (lc_montageCropMargin c)))))"

definition crop_centers :: "'d floats \<Rightarrow> ('f, 'd) TrackHist option \<Rightarrow> 'f Hit \<Rightarrow> TimedThumb list \<Rightarrow> ('f \<times> 'f) list" where
  "crop_centers D th h frames =
     map (\<lambda>f. case th of
            None \<Rightarrow> (hit_cx h, hit_cy h)
          | Some th \<Rightarrow> if \<not> th_haveT0 th then (hit_cx h, hit_cy h)
              else nearest_point D (secs_of_ns D (tt_t f - th_t0 th)) (th_traj th) (hit_cx h, hit_cy h))
       frames"

definition review_job ::
  "('j, 'f, 'd) llm_env \<Rightarrow> string \<Rightarrow> u32 \<Rightarrow> u64 \<Rightarrow> TimedThumb list \<Rightarrow> 'd \<Rightarrow> 'f Hit \<Rightarrow> ('f, 'd) llm_state \<Rightarrow> ('f, 'd) ReviewJob" where
  "review_job E ty sid pts frames spanSec h s =
     (let c = ls_cfg s;
          crop = lc_montage c \<and> lc_montageCrop c \<and> hit_hasBbox h \<and> length frames \<ge> 2
      in \<lparr>rj_kind = Review, rj_streamId = sid, rj_ptsUsec = pts, rj_trackId = hit_trackId h, rj_label = hit_label h,
          rj_triggerEvent = ty, rj_triggerReason = hit_reason h, rj_frames = frames, rj_spanSec = spanSec,
          rj_cropCenters = (if crop then crop_centers (le_D E) (map_of (ls_trackHist s) (trackKey sid (hit_trackId h))) h frames else []),
          rj_cropFrac = (if crop then crop_frac E c h else fl_zero (le_F E)),
          rj_timeline = [], rj_traj = []\<rparr>)"

text \<open>The loop over the hits; \<open>clk\<close> is the clock at each of them.\<close>

fun enqueue_hits ::
  "('j, 'f, 'd) llm_env \<Rightarrow> string \<Rightarrow> u32 \<Rightarrow> u64 \<Rightarrow> TimedThumb list \<Rightarrow> 'd \<Rightarrow> (nat \<Rightarrow> int) \<Rightarrow> nat \<Rightarrow> 'f Hit list \<Rightarrow>
   ('f, 'd) llm_state \<Rightarrow> ('f, 'd) llm_state" where
  "enqueue_hits E ty sid pts frames spanSec clk i [] s = s"
| "enqueue_hits E ty sid pts frames spanSec clk i (h # hs) s =
     (case review_due (lc_debounceUsec (ls_cfg s)) (clk i) (trackKey sid (hit_trackId h)) (ls_lastReview s) of
        None \<Rightarrow> enqueue_hits E ty sid pts frames spanSec clk (Suc i) hs s
      | Some lr \<Rightarrow>
          (let s = s\<lparr>ls_lastReview := lr\<rparr>;
               s = s\<lparr>ls_jobs := ls_jobs s @ [review_job E ty sid pts frames spanSec h s]\<rparr>
           in enqueue_hits E ty sid pts frames spanSec clk (Suc i) hs s))"

text \<open>The handler: \<open>now\<close> is the clock when trajectories are recorded.\<close>

definition llm_handleEvent ::
  "('j, 'f, 'd) llm_env \<Rightarrow> int \<Rightarrow> (nat \<Rightarrow> int) \<Rightarrow> string \<Rightarrow> ('f, 'd) llm_state \<Rightarrow> (('f, 'd) llm_state \<times> bool) option" where
  "llm_handleEvent E now clk msg s =
     (if \<not> ls_active s then Some (s, False)
      else case read_event E (ls_cfg s) msg of
        None \<Rightarrow> Some (s, True)
      | Some None \<Rightarrow> Some (s, False)
      | Some (Some (ty, sid, pts, hits)) \<Rightarrow>
          (let s = record_hits (le_D E) sid now hits s;
               ring = sr_frames (ring_of sid s)
           in if ring = [] then Some (s, False)
              else case selectMontageFrames (le_nan_index E) ring
                          (if lc_montage (ls_cfg s) then lc_montageFrames (ls_cfg s) else 1) of
                None \<Rightarrow> None
              | Some frames \<Rightarrow>
                  if frames = [] then Some (s, False)
                  else let spanSec = (if length frames \<ge> 2
                             then secs_of_ns (le_D E) (tt_t (last frames) - tt_t (hd frames)) else fl_zero (le_D E))
                    in Some (enqueue_hits E ty sid pts frames spanSec clk 0 hits s, False)))"

section \<open>The worker\<close>

text \<open>The published events; the last member is the duration of the request in milliseconds.\<close>

datatype 'd reasoning =
    Narrative u32 int string string string string int int
      \<comment> \<open>stream, track, label, text, model, provider, captions\<close>
  | Reviewed bool u32 u64 int string string string string string string "(int \<times> 'd \<times> bool) option" int
      \<comment> \<open>montage, stream, time, track, label, text, model, provider, trigger, reason; frames, span, cropped\<close>

definition elapsed_ms :: "int \<times> int \<Rightarrow> int" where
  "elapsed_ms t = (snd t - fst t) div 1000000"

definition processNarrate ::
  "('j, 'f, 'd) llm_env \<Rightarrow> int \<times> int \<Rightarrow> ('f, 'd) ReviewJob \<Rightarrow> ('f, 'd) llm_state \<Rightarrow> 'd reasoning list" where
  "processNarrate E t job s =
     (if rj_timeline job = [] then []
      else let prompt = buildNarratorPrompt (le_NF E) (le_X E) (lc_narratorPrompt (ls_cfg s)) (rj_label job) (rj_timeline job) (rj_traj job);
               txt = provider_narrate (le_J E) (le_curl E) (ls_visionProvider s) prompt
           in if txt = [] then []
              else [Narrative (rj_streamId job) (rj_trackId job) (rj_label job) txt (p_model (ls_visionProvider s)) ''local''
                      (int (length (rj_timeline job))) (elapsed_ms t)])"

text \<open>The picture that is sent, and whether it is a montage; \<open>Some None\<close> when none could be encoded.\<close>

definition review_picture ::
  "('j, 'f, 'd) llm_env \<Rightarrow> 'd llm_cfg \<Rightarrow> ('f, 'd) ReviewJob \<Rightarrow> (bytes \<times> bool) option option" where
  "review_picture E c job =
     (let frames = rj_frames job;
          single = (\<lambda>_. let f = last frames in
            if int (length (tt_rgb f)) < tt_width f * tt_height f * 3 then Some None
            else map_option (map_option (\<lambda>jpeg. (jpeg, False)))
                   (encodeRgb24ToJpeg (le_lib E) (le_D E) (tt_rgb f) (tt_width f) (tt_height f) (lc_maxPixels c)))
      in if lc_montage c \<and> length frames \<ge> 2 then
           (case buildMontage (le_lib E) (le_F E) (le_D E) frames (lc_montageCols c) (lc_montageMaxPixels c)
                   (rj_cropCenters job) (rj_cropFrac job) 0 0 of
              None \<Rightarrow> None
            | Some None \<Rightarrow> single ()
            | Some (Some (canvas, cw, ch)) \<Rightarrow>
                (case encodeRgb24ToJpeg (le_lib E) (le_D E) canvas cw ch (lc_montageMaxPixels c) of
                   None \<Rightarrow> None
                 | Some None \<Rightarrow> single ()
                 | Some (Some jpeg) \<Rightarrow> Some (Some (jpeg, True))))
         else single ())"

text \<open>A caption is put into the object's history, which arms the narrator again.\<close>

definition add_caption ::
  "'d floats \<Rightarrow> int \<Rightarrow> ('f, 'd) ReviewJob \<Rightarrow> string \<Rightarrow> ('f, 'd) llm_state \<Rightarrow> ('f, 'd) llm_state" where
  "add_caption D now job txt s =
     (if lc_narrate (ls_cfg s) \<and> rj_trackId job > 0 then
        (let key = trackKey (rj_streamId job) (rj_trackId job);
             th = (touch_hist (rj_label job) now (hist_of key s))\<lparr>th_narrated := False\<rparr>;
             th = th\<lparr>th_captions := th_captions th @ [\<lparr>cap_tSec = secs_of_ns D (now - th_t0 th), cap_text = txt\<rparr>]\<rparr>
         in s\<lparr>ls_trackHist := AList.update key th (ls_trackHist s)\<rparr>)
      else s)"

definition processReview ::
  "('j, 'f, 'd) llm_env \<Rightarrow> int \<times> int \<Rightarrow> int \<Rightarrow> ('f, 'd) ReviewJob \<Rightarrow> ('f, 'd) llm_state \<Rightarrow>
   (('f, 'd) llm_state \<times> 'd reasoning list) option" where
  "processReview E t now job s =
     (if rj_frames job = [] then Some (s, [])
      else case review_picture E (ls_cfg s) job of
        None \<Rightarrow> None
      | Some None \<Rightarrow> Some (s, [])
      | Some (Some (jpeg, isMontage)) \<Rightarrow>
          (let c = ls_cfg s; n = int (length (rj_frames job));
               prompt = (if isMontage
                 then renderMontagePrompt (le_NF E) (lc_montagePrompt c) (rj_label job) (rj_triggerReason job) n (rj_spanSec job)
                 else renderPrompt (lc_prompt c) (rj_label job) (rj_triggerReason job));
               txt = provider_describe (le_J E) (le_curl E) (ls_visionProvider s) jpeg prompt
           in if txt = [] then Some (s, [])
              else Some (add_caption (le_D E) now job txt s,
                [Reviewed isMontage (rj_streamId job) (rj_ptsUsec job) (rj_trackId job) (rj_label job) txt
                   (p_model (ls_visionProvider s)) ''local'' (rj_triggerEvent job) (rj_triggerReason job)
                   (if isMontage then Some (n, rj_spanSec job,
                      rj_cropCenters job \<noteq> [] \<and> fl_less (le_F E) (fl_zero (le_F E)) (rj_cropFrac job)) else None)
                   (elapsed_ms t)])))"

definition processJob ::
  "('j, 'f, 'd) llm_env \<Rightarrow> int \<times> int \<Rightarrow> int \<Rightarrow> ('f, 'd) ReviewJob \<Rightarrow> ('f, 'd) llm_state \<Rightarrow>
   (('f, 'd) llm_state \<times> 'd reasoning list) option" where
  "processJob E t now job s =
     (if rj_kind job = Narrate then Some (s, processNarrate E t job s) else processReview E t now job s)"

definition narrate_job :: "'f floats \<Rightarrow> 'd floats \<Rightarrow> u64 \<Rightarrow> ('f, 'd) TrackHist \<Rightarrow> ('f, 'd) ReviewJob" where
  "narrate_job F D key th =
     \<lparr>rj_kind = Narrate, rj_streamId = ucast (drop_bit 32 key), rj_ptsUsec = 0,
      rj_trackId = sint (ucast (key AND 0xffffffff) :: u32), rj_label = th_label th, rj_triggerEvent = [],
      rj_triggerReason = [], rj_frames = [], rj_spanSec = fl_zero D, rj_cropCenters = [], rj_cropFrac = fl_zero F,
      rj_timeline = th_captions th, rj_traj = th_traj th\<rparr>"

definition story_due :: "'d floats \<Rightarrow> 'd llm_cfg \<Rightarrow> int \<Rightarrow> ('f, 'd) TrackHist \<Rightarrow> bool" where
  "story_due D c now th \<longleftrightarrow> \<not> th_narrated th \<and> int (length (th_captions th)) \<ge> lc_narratorMinCaptions c \<and>
     fl_leq D (lc_narratorIdleSec c) (secs_of_ns D (now - th_lastSeen th))"

fun collect_loop ::
  "'f floats \<Rightarrow> 'd floats \<Rightarrow> 'd llm_cfg \<Rightarrow> int \<Rightarrow> (u64 \<times> ('f, 'd) TrackHist) list \<Rightarrow>
   (u64 \<times> ('f, 'd) TrackHist) list \<times> ('f, 'd) ReviewJob list" where
  "collect_loop F D c now [] = ([], [])"
| "collect_loop F D c now ((key, th) # rest) =
     (let due = story_due D c now th;
          th1 = (if due then th\<lparr>th_narrated := True\<rparr> else th);
          (hist, jobs) = collect_loop F D c now rest
      in ((if fl_less D (fl_num D 300 1) (secs_of_ns D (now - th_lastSeen th)) then hist else (key, th1) # hist),
          (if due then narrate_job F D key th # jobs else jobs)))"

definition collectNarrateJobs ::
  "('j, 'f, 'd) llm_env \<Rightarrow> int \<Rightarrow> ('f, 'd) llm_state \<Rightarrow> ('f, 'd) llm_state \<times> ('f, 'd) ReviewJob list" where
  "collectNarrateJobs E now s =
     (if \<not> lc_narrate (ls_cfg s) then (s, [])
      else case collect_loop (le_F E) (le_D E) (ls_cfg s) now (ls_trackHist s) of
        (hist, jobs) \<Rightarrow> (s\<lparr>ls_trackHist := hist\<rparr>, jobs))"

text \<open>The loop over the narrator's jobs; \<open>running\<close> is what the flag holds before each of them.\<close>

fun process_stories ::
  "('j, 'f, 'd) llm_env \<Rightarrow> (nat \<Rightarrow> bool) \<Rightarrow> (nat \<Rightarrow> int \<times> int) \<Rightarrow> nat \<Rightarrow> ('f, 'd) ReviewJob list \<Rightarrow> ('f, 'd) llm_state \<Rightarrow>
   'd reasoning list" where
  "process_stories E running ts i [] s = []"
| "process_stories E running ts i (j # js) s =
     (if \<not> running i then [] else processNarrate E (ts i) j s @ process_stories E running ts (Suc i) js s)"

text \<open>
  One turn of the worker, when the flag was set at its start: \<open>t\<close> are the clock readings around a request,
  \<open>now\<close> the one after it or at the scan. The last component is whether the loop is left by the \<open>break\<close>.
\<close>

definition worker_turn ::
  "('j, 'f, 'd) llm_env \<Rightarrow> int \<times> int \<Rightarrow> int \<Rightarrow> (nat \<Rightarrow> bool) \<Rightarrow> (nat \<Rightarrow> int \<times> int) \<Rightarrow> ('f, 'd) llm_state \<Rightarrow>
   (('f, 'd) llm_state \<times> 'd reasoning list \<times> bool) option" where
  "worker_turn E t now running ts s =
     (case ls_jobs s of
        job # jobs \<Rightarrow> map_option (\<lambda>(s, evs). (s, evs, False)) (processJob E t now job (s\<lparr>ls_jobs := jobs\<rparr>))
      | [] \<Rightarrow>
          if \<not> ls_running s then Some (s, [], True)
          else case collectNarrateJobs E now s of
            (s, jobs) \<Rightarrow> Some (s, process_stories E running ts 0 jobs s, False))"

section \<open>Start and stop\<close>

definition llm_start :: "('j, 'f, 'd) llm_env \<Rightarrow> string option \<Rightarrow> ('f, 'd) llm_state" where
  "llm_start E json_cfg =
     (let c = llm_config (le_J E) (le_K E) (le_D E) json_cfg in
      \<lparr>ls_cfg = c,
       ls_visionProvider = make_provider (lc_provider c) (lc_serverUrl c) (lc_model c) (lc_apiKey c) (lc_timeoutSec c) (lc_enableThinking c),
       ls_rings = [], ls_lastReview = [], ls_trackHist = [], ls_jobs = [], ls_running = True, ls_active = True\<rparr>)"

definition llm_stop :: "('f, 'd) llm_state \<Rightarrow> ('f, 'd) llm_state" where
  "llm_stop s = s\<lparr>ls_active := False, ls_running := False\<rparr>"

end
