(* ===== verification/Llm_Montage_Properties.thy ===== *)
theory Llm_Montage_Properties
  imports Llm_Montage
begin

text \<open>
  The montage stays in its buffers whatever the floating-point arithmetic computes, and each frame's tile
  stands in its own cell of the picture. The choice of frames keeps their order, the first and the last one.
\<close>

section \<open>Regions of a picture\<close>

text \<open>The \<open>w\<close> pixels of row \<open>v\<close> from column \<open>x\<close> on, in a picture with \<open>outW\<close> columns.\<close>

definition region :: "bytes \<Rightarrow> int \<Rightarrow> int \<Rightarrow> int \<Rightarrow> int \<Rightarrow> bytes" where
  "region out outW v x w = take (nat (w * 3)) (drop (nat ((v * outW + x) * 3)) out)"

definition region_in :: "int \<Rightarrow> int \<Rightarrow> int \<Rightarrow> int \<Rightarrow> int \<Rightarrow> bool" where
  "region_in outW outH v x w \<longleftrightarrow> 0 \<le> v \<and> v < outH \<and> 0 \<le> x \<and> 0 \<le> w \<and> x + w \<le> outW"

lemma region_bounds:
  assumes "region_in outW outH v x w"
  shows "0 \<le> (v * outW + x) * 3" and "(v * outW + x) * 3 + w * 3 \<le> (v + 1) * outW * 3"
    and "(v + 1) * outW * 3 \<le> outW * outH * 3"
proof -
  have w: "0 \<le> outW" "0 \<le> v" "0 \<le> x" "x + w \<le> outW" "v + 1 \<le> outH" using assms by (auto simp: region_in_def)
  then show "0 \<le> (v * outW + x) * 3" by simp
  show "(v * outW + x) * 3 + w * 3 \<le> (v + 1) * outW * 3" using w by (simp add: algebra_simps)
  show "(v + 1) * outW * 3 \<le> outW * outH * 3" using mult_right_mono [OF w(5,1)] by (simp add: mult.commute)
qed

lemma region_before:
  assumes "region_in outW outH v x w" and "region_in outW outH v' x' w'" and "v < v' \<or> (v = v' \<and> x + w \<le> x')"
  shows "(v * outW + x) * 3 + w * 3 \<le> (v' * outW + x') * 3"
proof (cases "v < v'")
  case True
  have "0 \<le> outW" using assms(1) by (auto simp: region_in_def)
  then have "(v + 1) * outW \<le> v' * outW" using True by (intro mult_right_mono) auto
  moreover have "0 \<le> x'" using assms(2) by (simp add: region_in_def)
  ultimately show ?thesis using region_bounds(2) [OF assms(1)] by (simp add: algebra_simps)
next
  case False
  then show ?thesis using assms(3) by (simp add: algebra_simps)
qed

text \<open>One copy: it stays in the picture, its own region reads back, regions beside it are unchanged.\<close>

lemma copy_region:
  assumes r: "region_in outW outH v x w" and l: "int (length out) = outW * outH * 3" and s: "int (length src) = w * 3"
  defines "out' \<equiv> memcpy_at (nat ((v * outW + x) * 3)) src out"
  shows "length out' = length out" and "region out' outW v x w = src"
    and "\<lbrakk>region_in outW outH v' x' w'; v' \<noteq> v \<or> x' + w' \<le> x \<or> x + w \<le> x'\<rbrakk> \<Longrightarrow>
      region out' outW v' x' w' = region out outW v' x' w'"
proof -
  note b = region_bounds [OF r]
  have len: "length src = nat (w * 3)" using s by simp
  have fit: "nat ((v * outW + x) * 3) + length src \<le> length out" using b l s by linarith
  show "length out' = length out" unfolding out'_def using fit by simp
  show "region out' outW v x w = src"
    unfolding out'_def region_def using memcpy_at_read_same [OF fit] len by simp
  assume r': "region_in outW outH v' x' w'" and d: "v' \<noteq> v \<or> x' + w' \<le> x \<or> x + w \<le> x'"
  note b' = region_bounds [OF r']
  have w': "0 \<le> w'" "0 \<le> w" using r r' by (simp_all add: region_in_def)
  have "(v' * outW + x') * 3 + w' * 3 \<le> (v * outW + x) * 3 \<or> (v * outW + x) * 3 + w * 3 \<le> (v' * outW + x') * 3"
    using region_before [OF r' r] region_before [OF r r'] d by linarith
  then have "nat ((v' * outW + x') * 3) + nat (w' * 3) \<le> nat ((v * outW + x) * 3) \<or>
      nat ((v * outW + x) * 3) + length src \<le> nat ((v' * outW + x') * 3)"
    using b(1) b'(1) w' s by (auto simp: nat_le_iff nat_add_distrib [symmetric])
  moreover have "nat ((v' * outW + x') * 3) + nat (w' * 3) \<le> length out"
    using b' l w' by (simp add: nat_add_distrib [symmetric] nat_le_iff)
  ultimately show "region out' outW v' x' w' = region out outW v' x' w'"
    unfolding out'_def region_def by (rule memcpy_at_read_other [OF fit])
qed

section \<open>One tile\<close>

lemma blit_rows_result:
  assumes len: "int (length tile) = tileW * tileH * 3" and pos: "0 \<le> tileW" "0 \<le> x0" "x0 + tileW \<le> outW" "0 \<le> y0"
    "y0 + tileH \<le> outH"
  shows "\<lbrakk>int (length out) = outW * outH * 3; \<forall>y \<in> set ys. 0 \<le> y \<and> y < tileH; distinct ys\<rbrakk> \<Longrightarrow>
    \<exists>out'. blit_rows tile tileW outW x0 y0 ys out = Some out' \<and> length out' = length out \<and>
      (\<forall>y \<in> set ys. region out' outW (y0 + y) x0 tileW = region tile tileW y 0 tileW) \<and>
      (\<forall>v x w. region_in outW outH v x w \<longrightarrow> v - y0 \<notin> set ys \<or> x + w \<le> x0 \<or> x0 + tileW \<le> x \<longrightarrow>
        region out' outW v x w = region out outW v x w)"
proof (induction ys arbitrary: out)
  case Nil
  then show ?case by simp
next
  case (Cons y ys)
  have y: "0 \<le> y" "y < tileH" using Cons.prems(2) by simp_all
  have r: "region_in outW outH (y0 + y) x0 tileW" using y pos by (simp add: region_in_def)
  have rt: "region_in tileW tileH y 0 tileW" using y pos by (simp add: region_in_def)
  define src where "src = take (nat (tileW * 3)) (drop (nat (y * tileW * 3)) tile)"
  have src: "src = region tile tileW y 0 tileW" by (simp add: src_def region_def)
  have t: "y * tileW * 3 + tileW * 3 \<le> int (length tile)" "0 \<le> y * tileW * 3"
    using region_bounds [OF rt] len by simp_all
  have "nat (y * tileW * 3) + nat (tileW * 3) \<le> length tile"
    using t pos(1) by (simp add: nat_add_distrib [symmetric] nat_le_iff)
  then have "length src = nat (tileW * 3)" unfolding src_def length_take length_drop by linarith
  then have sl: "int (length src) = tileW * 3" using pos(1) by simp
  define out1 where "out1 = memcpy_at (nat (((y0 + y) * outW + x0) * 3)) src out"
  note copy = copy_region [OF r Cons.prems(1) sl, folded out1_def]
  have "blit_rows tile tileW outW x0 y0 (y # ys) out = blit_rows tile tileW outW x0 y0 ys out1"
    using region_bounds [OF r] t Cons.prems(1) by (simp add: Let_def out1_def src_def)
  moreover obtain out' where o: "blit_rows tile tileW outW x0 y0 ys out1 = Some out'" "length out' = length out1"
    "\<forall>y \<in> set ys. region out' outW (y0 + y) x0 tileW = region tile tileW y 0 tileW"
    "\<forall>v x w. region_in outW outH v x w \<longrightarrow> v - y0 \<notin> set ys \<or> x + w \<le> x0 \<or> x0 + tileW \<le> x \<longrightarrow>
       region out' outW v x w = region out1 outW v x w"
    using Cons.IH [of out1] Cons.prems copy(1) by auto
  moreover have "region out' outW (y0 + y) x0 tileW = region tile tileW y 0 tileW"
    using o(4) r Cons.prems(3) copy(2) src by simp
  moreover have "region out' outW v x w = region out outW v x w"
    if "region_in outW outH v x w" "v - y0 \<notin> set (y # ys) \<or> x + w \<le> x0 \<or> x0 + tileW \<le> x" for v x w
  proof -
    have "v \<noteq> y0 + y \<or> x + w \<le> x0 \<or> x0 + tileW \<le> x" using that(2) by auto
    then have "region out1 outW v x w = region out outW v x w" using copy(3) that(1) by blast
    then show ?thesis using o(4) that by auto
  qed
  ultimately show ?case
    using copy(1) by (intro exI [of _ out'] conjI) (simp_all only: list.set ball_simps, simp_all)
qed

section \<open>Frames and their tiles\<close>

definition thumb_ok :: "TimedThumb \<Rightarrow> bool" where
  "thumb_ok f \<longleftrightarrow> 0 < tt_width f \<and> 0 < tt_height f \<and> tt_width f * tt_height f * 3 \<le> int (length (tt_rgb f))"

lemma scaleRgb24_safe:
  assumes "scale_fills lib" and "0 < sw \<and> 0 < sh \<and> sw * sh * 3 \<le> int (length src)" and "0 < dw" "0 < dh"
  shows "\<exists>r. scaleRgb24 lib src sw sh dw dh = Some r \<and> (\<forall>out. r = Some out \<longrightarrow> int (length out) = dw * dh * 3)"
proof -
  have "slice_in src 0 (3 * sw) sw sh" using assms(2) by (simp add: slice_in_def algebra_simps)
  then show ?thesis using assms by (auto simp: scaleRgb24_def scale_fills_def)
qed

lemma crop_slice_in:
  assumes "0 < fullW" "fullW * fullH * 3 \<le> int (length src)"
    and "0 \<le> cx" "cx + cw \<le> fullW" "0 \<le> cy" "cy + ch \<le> fullH"
  shows "slice_in src ((cy * fullW + cx) * 3) (3 * fullW) cw ch"
proof -
  have "(cy + ch) * fullW \<le> fullH * fullW" using assms(1,6) by (intro mult_right_mono) auto
  then have "(cy * fullW + cx) * 3 + (ch - 1) * (3 * fullW) + 3 * cw \<le> fullW * fullH * 3"
    using assms(4) by (simp add: algebra_simps)
  then show ?thesis using assms by (simp add: slice_in_def)
qed

lemma scaleRgb24Crop_safe:
  assumes "scale_fills lib" and "0 < fullW \<and> 0 < fullH \<and> fullW * fullH * 3 \<le> int (length src)" and "0 < dw" "0 < dh"
  shows "\<exists>r. scaleRgb24Crop lib src fullW fullH cx cy cw ch dw dh = Some r \<and>
    (\<forall>out. r = Some out \<longrightarrow> int (length out) = dw * dh * 3)"
proof -
  obtain cx' cw' where x: "clamp_axis fullW cx cw = (cx', cw')" by (metis surj_pair)
  obtain cy' ch' where y: "clamp_axis fullH cy ch = (cy', ch')" by (metis surj_pair)
  show ?thesis
  proof (cases "cw' < 2 \<or> ch' < 2")
    case True
    then show ?thesis using assms x y by (auto simp: scaleRgb24Crop_def)
  next
    case False
    then have "slice_in src ((cy' * fullW + cx') * 3) (3 * fullW) cw' ch'"
      using clamp_axis_inside [OF x] clamp_axis_inside [OF y] assms(2) by (intro crop_slice_in) auto
    then show ?thesis using assms x y False by (auto simp: scaleRgb24Crop_def scale_fills_def Let_def)
  qed
qed

lemma make_tile_safe:
  assumes "scale_fills lib" and "thumb_ok f" and "0 < tileW" "0 < tileH"
  shows "\<exists>r. make_tile lib F center cropFrac tileW tileH f = Some r \<and>
    (\<forall>tile. r = Some tile \<longrightarrow> int (length tile) = tileW * tileH * 3)"
  using assms scaleRgb24_safe [OF assms(1) _ assms(3,4)] scaleRgb24Crop_safe [OF assms(1) _ assms(3,4)]
  by (cases center) (auto simp: make_tile_def thumb_ok_def Let_def)

section \<open>Cells\<close>

lemma cell_inside:
  assumes "0 \<le> k" "k < count" "0 \<le> tile"
  shows "0 \<le> cell_start k tile \<and> cell_start k tile + tile \<le> canvas_length count tile"
proof -
  have "(k + 1) * (tile + 4) \<le> count * (tile + 4)" using assms by (intro mult_right_mono) auto
  then show ?thesis using assms by (simp add: cell_start_def canvas_length_def algebra_simps)
qed

lemma cell_before: "\<lbrakk>k < l; 0 \<le> tile\<rbrakk> \<Longrightarrow> cell_start k tile + tile + 4 \<le> cell_start l tile"
proof -
  assume a: "k < l" "0 \<le> tile"
  then have "(k + 1) * (tile + 4) \<le> l * (tile + 4)" by (intro mult_right_mono) auto
  then show ?thesis by (simp add: cell_start_def algebra_simps)
qed

text \<open>Different cells have no row of pixels in common.\<close>

lemma cells_apart:
  assumes "(c, r) \<noteq> (c', r')" and "0 \<le> tileW" "0 \<le> tileH" "0 \<le> y" "y < tileH" "0 \<le> y'" "y' < tileH"
  shows "cell_start r tileH + y \<noteq> cell_start r' tileH + y' \<or>
    cell_start c tileW + tileW \<le> cell_start c' tileW \<or> cell_start c' tileW + tileW \<le> cell_start c tileW"
proof (cases "r = r'")
  case True
  then have "c < c' \<or> c' < c" using assms(1) by auto
  then show ?thesis using cell_before [OF _ assms(2), of c c'] cell_before [OF _ assms(2), of c' c] by linarith
next
  case False
  then have "r < r' \<or> r' < r" by auto
  then show ?thesis using cell_before [OF _ assms(3), of r r'] cell_before [OF _ assms(3), of r' r] assms(4-) by linarith
qed

text \<open>What the canvas shows in the cell of frame \<open>i\<close>.\<close>

definition shows_tile :: "bytes \<Rightarrow> int \<Rightarrow> int \<Rightarrow> int \<Rightarrow> int \<Rightarrow> int \<Rightarrow> bytes \<Rightarrow> bool" where
  "shows_tile out outW cols tileW tileH i tile \<longleftrightarrow>
     (\<forall>y. 0 \<le> y \<and> y < tileH \<longrightarrow>
       region out outW (cell_start (i div cols) tileH + y) (cell_start (i mod cols) tileW) tileW = region tile tileW y 0 tileW)"

lemma cell_coords:
  assumes "0 \<le> i" and "i < rows * cols" and "0 < (cols :: int)"
  shows "0 \<le> i div cols \<and> i div cols < rows \<and> 0 \<le> i mod cols \<and> i mod cols < cols"
proof -
  have "i div cols < rows"
  proof (rule ccontr)
    assume "\<not> i div cols < rows"
    then have "rows * cols \<le> (i div cols) * cols" using assms(3) by (intro mult_right_mono) auto
    also have "\<dots> \<le> i" using assms(3) by (metis add.commute div_mult_mod_eq le_add_same_cancel2 pos_mod_sign)
    finally show False using assms(2) by simp
  qed
  then show ?thesis using assms by (simp add: pos_imp_zdiv_nonneg_iff)
qed

lemma shows_tile_kept:
  assumes "shows_tile out outW cols tileW tileH j tile"
    and other: "\<And>v x w. \<lbrakk>region_in outW outH v x w; v - cell_start (i div cols) tileH \<notin> set [0..tileH - 1] \<or>
        x + w \<le> cell_start (i mod cols) tileW \<or> cell_start (i mod cols) tileW + tileW \<le> x\<rbrakk> \<Longrightarrow>
      region out' outW v x w = region out outW v x w"
    and "i \<noteq> j" "0 < cols" "0 < tileW" "0 < tileH" "0 \<le> j" "j < rows * cols"
    and "outW = canvas_length cols tileW" "outH = canvas_length rows tileH"
  shows "shows_tile out' outW cols tileW tileH j tile"
  unfolding shows_tile_def
proof (intro allI impI)
  fix y assume y: "0 \<le> y \<and> y < tileH"
  have rc: "0 \<le> j div cols" "j div cols < rows" "0 \<le> j mod cols" "j mod cols < cols"
    using cell_coords [OF assms(7,8,4)] by auto
  let ?v = "cell_start (j div cols) tileH + y" and ?x = "cell_start (j mod cols) tileW"
  have rin: "region_in outW outH ?v ?x tileW"
    using cell_inside [OF rc(1,2), of tileH] cell_inside [OF rc(3,4), of tileW] y assms by (auto simp: region_in_def)
  have ne: "(i mod cols, i div cols) \<noteq> (j mod cols, j div cols)"
    using assms(3) by (metis div_mult_mod_eq prod.inject)
  have "?v - cell_start (i div cols) tileH \<notin> set [0..tileH - 1] \<or>
      ?x + tileW \<le> cell_start (i mod cols) tileW \<or> cell_start (i mod cols) tileW + tileW \<le> ?x"
  proof (rule ccontr)
    assume no: "\<not> ?thesis"
    define y' where "y' = ?v - cell_start (i div cols) tileH"
    have y': "0 \<le> y'" "y' < tileH" using no by (auto simp: y'_def)
    from cells_apart [OF ne _ _ y' , of tileW y] y assms(5,6) no show False by (auto simp: y'_def)
  qed
  then have "region out' outW ?v ?x tileW = region out outW ?v ?x tileW" by (rule other [OF rin])
  then show "region out' outW ?v ?x tileW = region tile tileW y 0 tileW"
    using assms(1) y by (simp add: shows_tile_def)
qed

lemma blit_tiles_result:
  assumes lib: "scale_fills lib" and pos: "0 < cols" "0 < tileW" "0 < tileH"
    and size: "outW = canvas_length cols tileW" "outH = canvas_length rows tileH"
  shows "\<lbrakk>int (length out) = outW * outH * 3; \<forall>f \<in> set fs. thumb_ok f; 0 \<le> i; i + int (length fs) \<le> rows * cols\<rbrakk> \<Longrightarrow>
    \<exists>out'. blit_tiles lib F centers cropFrac cols tileW tileH outW i fs out = Some out' \<and> length out' = length out \<and>
      (\<forall>k tile. k < length fs \<and> make_tile lib F (centers ! nat (i + int k)) cropFrac tileW tileH (fs ! k) = Some (Some tile) \<longrightarrow>
        shows_tile out' outW cols tileW tileH (i + int k) tile) \<and>
      (\<forall>j tile. 0 \<le> j \<and> j < i \<and> shows_tile out outW cols tileW tileH j tile \<longrightarrow> shows_tile out' outW cols tileW tileH j tile)"
proof (induction fs arbitrary: i out)
  case Nil
  then show ?case by simp
next
  case (Cons f fs)
  have f: "thumb_ok f" and fs: "\<forall>f \<in> set fs. thumb_ok f" using Cons.prems(2) by simp_all
  have i: "0 \<le> i + 1" "i + 1 + int (length fs) \<le> rows * cols" and ilt: "i < rows * cols"
    using Cons.prems(3,4) by simp_all
  obtain r where r: "make_tile lib F (centers ! nat i) cropFrac tileW tileH f = Some r"
    "\<forall>tile. r = Some tile \<longrightarrow> int (length tile) = tileW * tileH * 3"
    using make_tile_safe [OF lib f pos(2,3), of F "centers ! nat i" cropFrac] by (elim exE conjE)
  have later: "(i + 1) + int k = i + int (Suc k)" for k by simp
  show ?case
  proof (cases r)
    case None
    from Cons.IH [OF Cons.prems(1) fs i] obtain out' where o:
      "blit_tiles lib F centers cropFrac cols tileW tileH outW (i + 1) fs out = Some out'" "length out' = length out"
      "\<And>k tile. \<lbrakk>k < length fs; make_tile lib F (centers ! nat (i + 1 + int k)) cropFrac tileW tileH (fs ! k) = Some (Some tile)\<rbrakk> \<Longrightarrow>
        shows_tile out' outW cols tileW tileH (i + 1 + int k) tile"
      "\<And>j tile. \<lbrakk>0 \<le> j; j < i + 1; shows_tile out outW cols tileW tileH j tile\<rbrakk> \<Longrightarrow> shows_tile out' outW cols tileW tileH j tile"
      by blast
    have "shows_tile out' outW cols tileW tileH (i + int k) tile"
      if "k < length (f # fs)" "make_tile lib F (centers ! nat (i + int k)) cropFrac tileW tileH ((f # fs) ! k) = Some (Some tile)" for k tile
    proof (cases k)
      case 0
      then show ?thesis using that r(1) None by simp
    next
      case (Suc l)
      then show ?thesis using that o(3) [of l tile] by (simp add: later)
    qed
    moreover have "blit_tiles lib F centers cropFrac cols tileW tileH outW i (f # fs) out = Some out'"
      using o(1) r(1) None by simp
    ultimately show ?thesis using o(2,4) by (intro exI [of _ out'] conjI) auto
  next
    case (Some tile)
    let ?x0 = "cell_start (i mod cols) tileW" and ?y0 = "cell_start (i div cols) tileH"
    have rc: "0 \<le> i div cols" "i div cols < rows" "0 \<le> i mod cols" "i mod cols < cols"
      using cell_coords [OF Cons.prems(3) ilt pos(1)] by auto
    have x0: "0 \<le> ?x0" "?x0 + tileW \<le> outW" using cell_inside [OF rc(3,4), of tileW] pos size by auto
    have y0: "0 \<le> ?y0" "?y0 + tileH \<le> outH" using cell_inside [OF rc(1,2), of tileH] pos size by auto
    have ys: "\<forall>y \<in> set [0..tileH - 1]. 0 \<le> y \<and> y < tileH" "distinct [0..tileH - 1]" by auto
    have tl: "int (length tile) = tileW * tileH * 3" using r(2) Some by simp
    obtain out1 where b: "blit_rows tile tileW outW ?x0 ?y0 [0..tileH - 1] out = Some out1" "length out1 = length out"
      "\<forall>y \<in> set [0..tileH - 1]. region out1 outW (?y0 + y) ?x0 tileW = region tile tileW y 0 tileW"
      "\<And>v x w. \<lbrakk>region_in outW outH v x w; v - ?y0 \<notin> set [0..tileH - 1] \<or> x + w \<le> ?x0 \<or> ?x0 + tileW \<le> x\<rbrakk> \<Longrightarrow>
        region out1 outW v x w = region out outW v x w"
      using blit_rows_result [OF tl _ x0 y0 Cons.prems(1) ys] pos(2) by auto
    have mine: "shows_tile out1 outW cols tileW tileH i tile" using b(3) by (auto simp: shows_tile_def)
    have "int (length out1) = outW * outH * 3" using b(2) Cons.prems(1) by simp
    from Cons.IH [OF this fs i] obtain out' where o:
      "blit_tiles lib F centers cropFrac cols tileW tileH outW (i + 1) fs out1 = Some out'" "length out' = length out1"
      "\<And>k tile. \<lbrakk>k < length fs; make_tile lib F (centers ! nat (i + 1 + int k)) cropFrac tileW tileH (fs ! k) = Some (Some tile)\<rbrakk> \<Longrightarrow>
        shows_tile out' outW cols tileW tileH (i + 1 + int k) tile"
      "\<And>j tile. \<lbrakk>0 \<le> j; j < i + 1; shows_tile out1 outW cols tileW tileH j tile\<rbrakk> \<Longrightarrow> shows_tile out' outW cols tileW tileH j tile"
      by blast
    have old: "shows_tile out' outW cols tileW tileH j t" if "0 \<le> j" "j < i" "shows_tile out outW cols tileW tileH j t" for j t
    proof -
      have "shows_tile out1 outW cols tileW tileH j t"
        by (rule shows_tile_kept [OF that(3) b(4) _ pos that(1) _ size]) (use that ilt in auto)
      then show ?thesis using o(4) that by simp
    qed
    have new: "shows_tile out' outW cols tileW tileH (i + int k) t"
      if "k < length (f # fs)" "make_tile lib F (centers ! nat (i + int k)) cropFrac tileW tileH ((f # fs) ! k) = Some (Some t)" for k t
    proof (cases k)
      case 0
      then have "t = tile" using that r(1) Some by simp
      then show ?thesis using mine o(4) [of i tile] Cons.prems(3) 0 by simp
    next
      case (Suc l)
      then show ?thesis using that o(3) [of l t] by (simp add: later)
    qed
    have run: "blit_tiles lib F centers cropFrac cols tileW tileH outW i (f # fs) out = Some out'"
      using r(1) Some b(1) o(1) by simp
    show ?thesis using run o(2) b(2) old new by (intro exI [of _ out'] conjI) auto
  qed
qed

text \<open>The crop centre of a frame: none without cropping.\<close>

definition montage_center :: "'f floats \<Rightarrow> 'a list \<Rightarrow> ('f \<times> 'f) list \<Rightarrow> 'f \<Rightarrow> nat \<Rightarrow> ('f \<times> 'f) option" where
  "montage_center F frames centers cropFrac k =
     (if fl_less F (fl_zero F) cropFrac \<and> length centers = length frames then Some (centers ! k) else None)"

lemma rows_enough: "\<lbrakk>0 < cols; 0 \<le> n\<rbrakk> \<Longrightarrow> n \<le> (n + cols - 1) div cols * (cols :: int)"
proof -
  assume a: "0 < cols" "0 \<le> n"
  have "(n + cols - 1) div cols * cols + (n + cols - 1) mod cols = n + cols - 1" by simp
  moreover have "(n + cols - 1) mod cols < cols" using a by simp
  ultimately show ?thesis by linarith
qed

lemma montage_drawn:
  assumes "scale_fills lib" and "\<forall>f \<in> set frames. thumb_ok f" and "frames \<noteq> []" and "0 < cols"
  shows "\<exists>out outW outH tileW tileH. buildMontage lib F D frames cols maxPixels centers cropFrac 0 0 = Some (Some (out, outW, outH)) \<and>
    0 < outW \<and> 0 < outH \<and> int (length out) = outW * outH * 3 \<and>
    (\<forall>k tile. k < length frames \<and>
        make_tile lib F (montage_center F frames centers cropFrac k) cropFrac tileW tileH (frames ! k) = Some (Some tile) \<longrightarrow>
      shows_tile out outW cols tileW tileH (int k) tile)"
proof -
  define rows where "rows = (int (length frames) + cols - 1) div cols"
  have f0: "thumb_ok (frames ! 0)" using assms(2,3) by simp
  obtain tileW tileH where t: "tile_size D maxPixels cols rows (tt_width (frames ! 0)) (tt_height (frames ! 0)) = (tileW, tileH)"
    by (metis surj_pair)
  have pos: "0 < tileW" "0 < tileH" using tile_size_pos [OF t] by simp_all
  let ?W = "canvas_length cols tileW" and ?H = "canvas_length rows tileH"
  define cs where "cs = (if fl_less F (fl_zero F) cropFrac \<and> int (length centers) = int (length frames)
    then map Some centers else replicate (length frames) None)"
  have cs: "cs ! k = montage_center F frames centers cropFrac k" if "k < length frames" for k
    using that by (simp add: cs_def montage_center_def)
  have "0 \<le> rows" using assms(4) by (simp add: rows_def pos_imp_zdiv_nonneg_iff)
  then have "0 \<le> ?W * ?H * 3" using pos assms(4) by (simp add: canvas_length_def)
  then have len: "int (length (replicate (nat (?W * ?H * 3)) (40 :: u8))) = ?W * ?H * 3" by simp
  have fit: "0 + int (length frames) \<le> rows * cols" using rows_enough [OF assms(4)] by (simp add: rows_def)
  obtain out where o: "blit_tiles lib F cs cropFrac cols tileW tileH ?W 0 frames (replicate (nat (?W * ?H * 3)) 40) = Some out"
    "length out = length (replicate (nat (?W * ?H * 3)) (40 :: u8))"
    "\<And>k tile. \<lbrakk>k < length frames; make_tile lib F (cs ! nat (0 + int k)) cropFrac tileW tileH (frames ! k) = Some (Some tile)\<rbrakk> \<Longrightarrow>
      shows_tile out ?W cols tileW tileH (0 + int k) tile"
    using blit_tiles_result [OF assms(1,4) pos refl refl len assms(2) order_refl fit, of F cs cropFrac] by blast
  have "buildMontage lib F D frames cols maxPixels centers cropFrac 0 0 = Some (Some (out, ?W, ?H))"
    using assms(3,4) f0 t o(1) by (simp add: buildMontage_def Let_def thumb_ok_def rows_def cs_def)
  moreover have "0 < ?W" "0 < ?H" using pos assms(4) \<open>0 \<le> rows\<close> by (simp_all add: canvas_length_def add_nonneg_pos)
  ultimately show ?thesis using o(2,3) len cs by auto
qed


section \<open>The choice of frames\<close>

lemma pick_frames_map:
  "\<forall>i \<in> set is. 0 \<le> i \<and> i < int (length ring) \<Longrightarrow> pick_frames ring is = Some (map (\<lambda>i. ring ! nat i) is)"
  by (induction "is") auto

lemma select_index_step:
  assumes "2 \<le> want" and "want < m"
  shows "select_index q m want i < select_index q m want (i + 1)"
proof -
  let ?d = "want - 1"
  have "(2 * (i * (m - 1)) + ?d) div (2 * ?d) + 1 = (2 * (i * (m - 1)) + ?d + 2 * ?d) div (2 * ?d)"
    using assms by (simp add: div_add_self2 [symmetric] del: div_add_self2)
  also have "\<dots> \<le> (2 * ((i + 1) * (m - 1)) + ?d) div (2 * ?d)"
    using assms by (intro zdiv_mono1) (simp_all add: algebra_simps)
  finally show ?thesis using assms by (simp add: select_index_def)
qed

lemma select_index_ends:
  assumes "2 \<le> want" and "want < m"
  shows "select_index q m want 0 = 0" and "select_index q m want (want - 1) = m - 1"
proof -
  have "2 * ((want - 1) * (m - 1)) + (want - 1) = (want - 1) + (m - 1) * (2 * (want - 1))" by (simp add: algebra_simps)
  then have "(2 * ((want - 1) * (m - 1)) + (want - 1)) div (2 * (want - 1)) = m - 1"
    using assms by (simp only: div_mult_self1) (simp add: div_pos_pos_trivial)
  then show "select_index q m want (want - 1) = m - 1" using assms by (simp add: select_index_def)
  show "select_index q m want 0 = 0" using assms by (simp add: select_index_def div_pos_pos_trivial)
qed

lemma increasing_on_upto:
  "(\<And>i. f i < f (i + 1)) \<Longrightarrow> sorted_wrt (<) (map f [a..b])" for f :: "int \<Rightarrow> int"
proof -
  assume step: "\<And>i. f i < f (i + 1)"
  have lt: "f i < f (i + 1 + int n)" for i n
  proof (induction n)
    case 0
    then show ?case using step by simp
  next
    case (Suc n)
    moreover have "f (i + 1 + int n) < f (i + 1 + int (Suc n))" using step [of "i + 1 + int n"] by (simp add: add.assoc add.commute)
    ultimately show ?case by (rule less_trans)
  qed
  have "f i < f j" if "i < j" for i j
    using lt [of i "nat (j - i - 1)"] that by simp
  then have "sorted_wrt (\<lambda>i j. f i < f j) [a..b]"
    by (induction a b rule: upto.induct) (subst upto.simps, auto)
  then show ?thesis by (simp add: sorted_wrt_map)
qed

lemma selection_indices:
  assumes "2 \<le> want" and "2 \<le> length ring"
  shows "\<exists>idx. selectMontageFrames q ring want = Some (map (\<lambda>i. ring ! nat i) idx) \<and> sorted_wrt (<) idx \<and>
    (\<forall>i \<in> set idx. 0 \<le> i \<and> i < int (length ring)) \<and> length idx = min (length ring) (nat want) \<and>
    hd idx = 0 \<and> last idx = int (length ring) - 1"
proof -
  define m where "m = int (length ring)"
  show ?thesis
  proof (cases "m \<le> want")
    case True
    let ?idx = "map int [0..<length ring]"
    have "map (\<lambda>i. ring ! nat i) ?idx = ring" by (simp add: map_nth o_def)
    moreover have "sorted_wrt (<) ?idx" by (simp add: sorted_wrt_map)
    ultimately show ?thesis
      using True assms m_def by (intro exI [of _ ?idx]) (auto simp: selectMontageFrames_def Let_def hd_map last_map)
  next
    case False
    let ?f = "select_index q m want"
    let ?idx = "map ?f [0..want - 1]"
    have lt: "want < m" using False by simp
    have inc: "sorted_wrt (<) ?idx" using increasing_on_upto select_index_step [OF assms(1) lt] by blast
    have ne: "[0..want - 1] \<noteq> []" using assms(1) by simp
    have ends: "hd ?idx = 0" "last ?idx = m - 1"
    proof -
      have "[0..want - 1] = 0 # [1..want - 1]" using assms(1) by (simp add: upto_rec1)
      then show "hd ?idx = 0" using select_index_ends(1) [OF assms(1) lt] by simp
      have "[0..want - 1] = [0..want - 2] @ [want - 1]" using assms(1) upto_rec2 [of 0 "want - 1"] by simp
      then show "last ?idx = m - 1" using select_index_ends(2) [OF assms(1) lt] by simp
    qed
    have mono: "sorted ?idx" using inc by (simp add: strict_sorted_iff)
    have rng: "\<forall>i \<in> set ?idx. 0 \<le> i \<and> i < m"
    proof
      fix i assume i: "i \<in> set ?idx"
      then obtain k where k: "k < length ?idx" "i = ?idx ! k" by (metis in_set_conv_nth)
      have ne': "?idx \<noteq> []" using ne by simp
      have "hd ?idx \<le> i" using k mono ne' by (metis hd_conv_nth sorted_nth_mono le0)
      moreover have "i \<le> last ?idx" using k mono ne' by (metis One_nat_def Suc_pred diff_less last_conv_nth length_greater_0_conv less_Suc_eq_le sorted_nth_mono zero_less_one)
      ultimately show "0 \<le> i \<and> i < m" using ends by simp
    qed
    have "selectMontageFrames q ring want = Some (map (\<lambda>i. ring ! nat i) ?idx)"
      using pick_frames_map [of ?idx ring] rng False assms(1,2) m_def by (auto simp: selectMontageFrames_def Let_def)
    then show ?thesis using inc rng ends assms lt m_def by (intro exI [of _ ?idx]) simp
  qed
qed

text \<open>
  A montage of two or more frames shows frames in the order in which they came, none twice, as many as
  asked for or all of them, with the first and the last one among them.
\<close>
theorem montage_selection:
  assumes "2 \<le> want" and "2 \<le> length ring"
  shows "\<exists>idx. selectMontageFrames q ring want = Some (map (\<lambda>i. ring ! nat i) idx) \<and> sorted_wrt (<) idx \<and>
    (\<forall>i \<in> set idx. 0 \<le> i \<and> i < int (length ring)) \<and> length idx = min (length ring) (nat want) \<and>
    hd idx = 0 \<and> last idx = int (length ring) - 1"
  using selection_indices [OF assms] .

text \<open>
  With one frame wanted, which is what the configuration \<open>montage: false\<close> asks for, the index is the
  unspecified rounding of NaN: the code takes that frame, or reads outside of the ring.
\<close>
lemma single_frame_is_unspecified:
  assumes "2 \<le> length ring"
  shows "selectMontageFrames q ring 1 = (if 0 \<le> q \<and> q < int (length ring) then Some [ring ! nat q] else None)"
  using assms by (auto simp: selectMontageFrames_def select_index_def Let_def)

section \<open>Examples\<close>

text \<open>A scaler that paints one colour.\<close>

definition paint_lib :: media_lib where
  "paint_lib = \<lparr>ml_scale = (\<lambda>src stride w h dw dh. Some (replicate (nat (dw * dh * 3)) 7)), ml_jpeg = (\<lambda>src w h dw dh. Some src)\<rparr>"

definition small_thumb :: TimedThumb where
  "small_thumb = \<lparr>tt_rgb = replicate 12 1, tt_width = 2, tt_height = 2, tt_t = 0\<rparr>"


theorem montage_selection_witness:
  "selectMontageFrames 0 [10, 20, 30, 40 :: nat] 2 = Some [10, 40] \<and>
   (\<exists>idx. selectMontageFrames 0 [10, 20, 30, 40 :: nat] 2 = Some (map (\<lambda>i. [10, 20, 30, 40] ! nat i) idx) \<and> sorted_wrt (<) idx)"
proof
  show "selectMontageFrames 0 [10, 20, 30, 40 :: nat] 2 = Some [10, 40]" by code_simp
  have "2 \<le> length [10, 20, 30, 40 :: nat]" by simp
  from montage_selection [OF order_refl this, of 0]
  show "\<exists>idx. selectMontageFrames 0 [10, 20, 30, 40 :: nat] 2 = Some (map (\<lambda>i. [10, 20, 30, 40] ! nat i) idx) \<and> sorted_wrt (<) idx"
    by blast
qed

end
