(* ===== verification/Llm_Properties.thy ===== *)
theory Llm_Properties
  imports Llm_Events Llm_Montage_Properties
begin

text \<open>
  The event reviewer over whole runs: no step reads or writes outside of a buffer, the rings stay bounded,
  reviews of an object keep their distance in time, and a story is told once.
\<close>

section \<open>Frames of rings and jobs\<close>

definition stream_ring_ok :: "StreamRing \<Rightarrow> bool" where
  "stream_ring_ok r \<longleftrightarrow> list_all thumb_ok (sr_frames r) \<and> length (sr_frames r) \<le> 64"

definition job_ok :: "('f, 'd) ReviewJob \<Rightarrow> bool" where
  "job_ok j \<longleftrightarrow> list_all thumb_ok (rj_frames j)"

definition llm_ok :: "('f, 'd) llm_state \<Rightarrow> bool" where
  "llm_ok s \<longleftrightarrow> (\<forall>sid r. map_of (ls_rings s) sid = Some r \<longrightarrow> stream_ring_ok r) \<and> list_all job_ok (ls_jobs s)"

lemma ring_of_ok: "llm_ok s \<Longrightarrow> stream_ring_ok (ring_of sid s)"
  by (auto simp: llm_ok_def ring_of_def stream_ring_ok_def split: option.split)

lemma ring_update_ok: "\<lbrakk>llm_ok s; stream_ring_ok r\<rbrakk> \<Longrightarrow> llm_ok (s\<lparr>ls_rings := AList.update sid r (ls_rings s)\<rparr>)"
  by (auto simp: llm_ok_def update_conv' split: if_splits)

lemma list_all_dropWhile: "list_all P xs \<Longrightarrow> list_all P (dropWhile Q xs)"
  by (induction xs) auto

lemma list_all_drop: "list_all P xs \<Longrightarrow> list_all P (drop n xs)"
  by (auto simp: list_all_iff dest: in_set_dropD)

lemma stream_ring_add_ok: "\<lbrakk>stream_ring_ok r; thumb_ok tt\<rbrakk> \<Longrightarrow> stream_ring_ok (ring_add D w now tt r)"
  by (simp add: stream_ring_ok_def ring_add_def Let_def list_all_drop list_all_dropWhile)

lemma make_thumb_safe:
  assumes "scale_fills lib" and "0 < lc_frameWidth c" "0 < lc_frameHeight c"
    and "lc_frameWidth c * lc_frameHeight c * 3 \<le> int (length payload)"
  shows "\<exists>r. make_thumb lib D c now payload = Some r \<and> (\<forall>tt. r = Some tt \<longrightarrow> thumb_ok tt)"
proof -
  obtain dw dh where d: "fitDims D (lc_frameWidth c) (lc_frameHeight c) (lc_storeMaxPixels c) = (dw, dh)" by (metis surj_pair)
  have pos: "0 < dw" "0 < dh" using fitDims_pos [OF d] by auto
  obtain r where r: "scaleRgb24 lib payload (lc_frameWidth c) (lc_frameHeight c) dw dh = Some r"
    "\<forall>out. r = Some out \<longrightarrow> int (length out) = dw * dh * 3"
    using scaleRgb24_safe [OF assms(1) _ pos, of "lc_frameWidth c" "lc_frameHeight c" payload] assms by blast
  show ?thesis
    using d r pos assms(2-4) by (cases r) (auto simp: make_thumb_def thumb_ok_def)
qed

lemma llm_on_frame_ok:
  assumes "scale_fills lib" and "llm_ok s"
  shows "\<exists>s'. llm_on_frame lib D now buf s = Some s' \<and> llm_ok s' \<and> ls_cfg s' = ls_cfg s \<and> ls_jobs s' = ls_jobs s"
proof (cases "length buf < sizeof_frame_hdr")
  case True
  then show ?thesis using assms(2) by (simp add: llm_on_frame_def)
next
  case False
  let ?hdr = "frame_hdr buf" and ?payload = "drop sizeof_frame_hdr buf"
  let ?c = "ls_cfg s" and ?ring = "ring_of (fh_stream_id ?hdr) s"
  have ring: "stream_ring_ok ?ring" using assms(2) by (rule ring_of_ok)
  show ?thesis
  proof (cases "fh_hw_type ?hdr = ZM_FRAME_RGB24 \<and> llm_allowedStream ?c (fh_stream_id ?hdr) \<and> lc_frameWidth ?c > 0 \<and>
           lc_frameHeight ?c > 0 \<and> int (length ?payload) \<ge> lc_frameWidth ?c * lc_frameHeight ?c * 3")
    case True
    obtain r where r: "make_thumb lib D ?c now ?payload = Some r" "\<forall>tt. r = Some tt \<longrightarrow> thumb_ok tt"
      using make_thumb_safe [OF assms(1)] True by blast
    have up: "stream_ring_ok (case r of None \<Rightarrow> ?ring | Some tt \<Rightarrow> ring_add D (lc_montageWindowSec ?c) now tt ?ring)"
      using r(2) ring stream_ring_add_ok by (auto split: option.split)
    show ?thesis
      using False True r(1) ring_update_ok [OF assms(2) ring] ring_update_ok [OF assms(2) up]
      by (auto simp: llm_on_frame_def Let_def)
  next
    case False
    then have "llm_on_frame lib D now buf s = Some s"
      by (simp only: llm_on_frame_def Let_def if_False) simp
    then show ?thesis using assms(2) by simp
  qed
qed

section \<open>Events\<close>

lemma record_hits_same [simp]:
  "ls_rings (record_hits D sid now hits s) = ls_rings s" "ls_jobs (record_hits D sid now hits s) = ls_jobs s"
  "ls_cfg (record_hits D sid now hits s) = ls_cfg s" "ls_lastReview (record_hits D sid now hits s) = ls_lastReview s"
  "ls_active (record_hits D sid now hits s) = ls_active s"
proof -
  have "ls_rings (fold (record_hit D sid now) hits s) = ls_rings s \<and> ls_jobs (fold (record_hit D sid now) hits s) = ls_jobs s \<and>
    ls_cfg (fold (record_hit D sid now) hits s) = ls_cfg s \<and> ls_lastReview (fold (record_hit D sid now) hits s) = ls_lastReview s \<and>
    ls_active (fold (record_hit D sid now) hits s) = ls_active s"
    by (induction hits arbitrary: s) (simp_all add: record_hit_def Let_def)
  then show "ls_rings (record_hits D sid now hits s) = ls_rings s" "ls_jobs (record_hits D sid now hits s) = ls_jobs s"
    "ls_cfg (record_hits D sid now hits s) = ls_cfg s" "ls_lastReview (record_hits D sid now hits s) = ls_lastReview s"
    "ls_active (record_hits D sid now hits s) = ls_active s"
    by (simp_all add: record_hits_def)
qed

lemma enqueue_hits_same [simp]:
  "ls_rings (enqueue_hits E ty sid pts frames sp clk i hits s) = ls_rings s"
  "ls_cfg (enqueue_hits E ty sid pts frames sp clk i hits s) = ls_cfg s"
  by (induction hits arbitrary: i s) (simp_all add: Let_def split: option.split)

lemma enqueue_hits_jobs:
  "list_all thumb_ok frames \<Longrightarrow> list_all job_ok (ls_jobs s) \<Longrightarrow>
   list_all job_ok (ls_jobs (enqueue_hits E ty sid pts frames sp clk i hits s))"
proof (induction hits arbitrary: i s)
  case (Cons h hits)
  then show ?case by (simp add: Let_def job_ok_def review_job_def split: option.split)
qed simp

text \<open>The choice of frames is defined unless exactly one of several frames is asked for.\<close>

definition montage_frames :: "'d llm_cfg \<Rightarrow> int" where
  "montage_frames c = (if lc_montage c then lc_montageFrames c else 1)"

lemma selectMontageFrames_safe:
  assumes "want \<noteq> 1"
  shows "\<exists>fs. selectMontageFrames q ring want = Some fs \<and> set fs \<subseteq> set ring"
proof (cases "2 \<le> want \<and> 2 \<le> length ring")
  case True
  then obtain idx where "selectMontageFrames q ring want = Some (map (\<lambda>i. ring ! nat i) idx)"
    "\<forall>i \<in> set idx. 0 \<le> i \<and> i < int (length ring)"
    using selection_indices by blast
  then show ?thesis by auto
next
  case False
  then show ?thesis using assms by (auto simp: selectMontageFrames_def Let_def)
qed

definition span_of :: "'d floats \<Rightarrow> TimedThumb list \<Rightarrow> 'd" where
  "span_of D frames = (if length frames \<ge> 2 then secs_of_ns D (tt_t (last frames) - tt_t (hd frames)) else fl_zero D)"

lemma handleEvent_eq:
  "\<lbrakk>ls_active s; read_event E (ls_cfg s) msg = Some (Some (ty, sid, pts, hits))\<rbrakk> \<Longrightarrow>
   llm_handleEvent E now clk msg s =
     (let s1 = record_hits (le_D E) sid now hits s in
      if sr_frames (ring_of sid s) = [] then Some (s1, False)
      else case selectMontageFrames (le_nan_index E) (sr_frames (ring_of sid s)) (montage_frames (ls_cfg s)) of
        None \<Rightarrow> None
      | Some frames \<Rightarrow> if frames = [] then Some (s1, False)
          else Some (enqueue_hits E ty sid pts frames (span_of (le_D E) frames) clk 0 hits s1, False))"
  by (simp add: llm_handleEvent_def ring_of_def montage_frames_def span_of_def Let_def cong: if_cong option.case_cong)

lemma handleEvent_ok:
  assumes "llm_ok s" and "montage_frames (ls_cfg s) \<noteq> 1"
  shows "\<exists>s' raised. llm_handleEvent E now clk msg s = Some (s', raised) \<and> llm_ok s' \<and> ls_cfg s' = ls_cfg s"
proof (cases "ls_active s \<and> (\<exists>ty sid pts hits. read_event E (ls_cfg s) msg = Some (Some (ty, sid, pts, hits)))")
  case False
  then show ?thesis using assms(1) by (cases "ls_active s") (auto simp: llm_handleEvent_def split: option.split)
next
  case True
  then obtain ty sid pts hits where r: "read_event E (ls_cfg s) msg = Some (Some (ty, sid, pts, hits))" by blast
  let ?s = "record_hits (le_D E) sid now hits s"
  have ok: "llm_ok ?s" using assms(1) by (simp add: llm_ok_def)
  obtain frames where f: "selectMontageFrames (le_nan_index E) (sr_frames (ring_of sid s)) (montage_frames (ls_cfg s)) = Some frames"
    "set frames \<subseteq> set (sr_frames (ring_of sid s))"
    using selectMontageFrames_safe [OF assms(2), of "le_nan_index E" "sr_frames (ring_of sid s)"] by (elim exE conjE)
  have "list_all thumb_ok frames"
    using f(2) ring_of_ok [OF assms(1), of sid] by (auto simp: stream_ring_ok_def list_all_iff)
  then have "llm_ok (enqueue_hits E ty sid pts frames sp clk 0 hits ?s)" for sp
    using ok enqueue_hits_jobs [of frames ?s] by (simp add: llm_ok_def)
  then show ?thesis using True f(1) ok handleEvent_eq [OF conjunct1 [OF True] r, of now clk] by (auto simp: Let_def)
qed

section \<open>The worker\<close>

lemma encode_safe:
  "\<lbrakk>0 < w; 0 < h; w * h * 3 \<le> int (length rgb)\<rbrakk> \<Longrightarrow> \<exists>r. encodeRgb24ToJpeg lib D rgb w h m = Some r"
  by (auto simp: encodeRgb24ToJpeg_def slice_in_def algebra_simps split: prod.split)

lemma buildMontage_safe:
  assumes "scale_fills lib" and "list_all thumb_ok frames" and "frames \<noteq> []"
  shows "\<exists>r. buildMontage lib F D frames cols m centers frac 0 0 = Some r \<and>
    (\<forall>out w h. r = Some (out, w, h) \<longrightarrow> 0 < w \<and> 0 < h \<and> w * h * 3 \<le> int (length out))"
proof (cases "0 < cols")
  case True
  have "\<forall>f \<in> set frames. thumb_ok f" using assms(2) by (simp add: list_all_iff)
  obtain out w h where "buildMontage lib F D frames cols m centers frac 0 0 = Some (Some (out, w, h))"
    "0 < w" "0 < h" "int (length out) = w * h * 3"
    using montage_drawn [OF assms(1) \<open>\<forall>f \<in> set frames. thumb_ok f\<close> assms(3) True, of F D m centers frac] by metis
  then show ?thesis by simp
next
  case False
  then show ?thesis by (simp add: buildMontage_def)
qed

lemma review_picture_safe:
  assumes "scale_fills (le_lib E)" and "job_ok job" and "rj_frames job \<noteq> []"
  shows "\<exists>r. review_picture E c job = Some r"
proof -
  have ok: "list_all thumb_ok (rj_frames job)" using assms(2) by (simp add: job_ok_def)
  define f where "f = last (rj_frames job)"
  have "thumb_ok f" using ok assms(3) by (simp add: f_def list_all_iff)
  then obtain r where single: "encodeRgb24ToJpeg (le_lib E) (le_D E) (tt_rgb f) (tt_width f) (tt_height f) (lc_maxPixels c) = Some r"
    using encode_safe [of "tt_width f" "tt_height f" "tt_rgb f" "le_lib E" "le_D E" "lc_maxPixels c"]
    unfolding thumb_ok_def by blast
  obtain m where m: "buildMontage (le_lib E) (le_F E) (le_D E) (rj_frames job) (lc_montageCols c) (lc_montageMaxPixels c)
      (rj_cropCenters job) (rj_cropFrac job) 0 0 = Some m"
    "\<forall>out w h. m = Some (out, w, h) \<longrightarrow> 0 < w \<and> 0 < h \<and> w * h * 3 \<le> int (length out)"
    using buildMontage_safe [OF assms(1) ok assms(3), of "le_F E" "le_D E" "lc_montageCols c" "lc_montageMaxPixels c"
        "rj_cropCenters job" "rj_cropFrac job"] by (elim exE conjE)
  show ?thesis
  proof (cases m)
    case None
    then show ?thesis using m single by (simp add: review_picture_def Let_def f_def)
  next
    case (Some q)
    obtain out w h where q: "q = (out, w, h)" by (cases q)
    obtain r2 where "encodeRgb24ToJpeg (le_lib E) (le_D E) out w h (lc_montageMaxPixels c) = Some r2"
      using encode_safe [of w h out "le_lib E" "le_D E" "lc_montageMaxPixels c"] m(2) Some q by blast
    then show ?thesis using m(1) Some q single by (auto simp: review_picture_def Let_def f_def split: option.split)
  qed
qed

lemma add_caption_same [simp]:
  "ls_rings (add_caption D now job txt s) = ls_rings s" "ls_jobs (add_caption D now job txt s) = ls_jobs s"
  "ls_cfg (add_caption D now job txt s) = ls_cfg s" "ls_lastReview (add_caption D now job txt s) = ls_lastReview s"
  "ls_running (add_caption D now job txt s) = ls_running s"
  by (simp_all add: add_caption_def Let_def)

lemma processJob_ok:
  assumes "scale_fills (le_lib E)" and "job_ok job" and "llm_ok s"
  shows "\<exists>s' evs. processJob E t now job s = Some (s', evs) \<and> llm_ok s' \<and> ls_cfg s' = ls_cfg s"
proof (cases "rj_kind job = Narrate \<or> rj_frames job = []")
  case True
  then show ?thesis using assms(3) by (auto simp: processJob_def processReview_def)
next
  case False
  then obtain r where "review_picture E (ls_cfg s) job = Some r" using review_picture_safe [OF assms(1,2)] by blast
  then show ?thesis
    using False assms(3) by (auto simp: processJob_def processReview_def Let_def llm_ok_def split: option.split)
qed

lemma worker_turn_ok:
  assumes "scale_fills (le_lib E)" and "llm_ok s"
  shows "\<exists>s' evs stop. worker_turn E t now running ts s = Some (s', evs, stop) \<and> llm_ok s' \<and> ls_cfg s' = ls_cfg s"
proof (cases "ls_jobs s")
  case (Cons job jobs)
  have "llm_ok (s\<lparr>ls_jobs := jobs\<rparr>)" "job_ok job" using assms(2) Cons by (simp_all add: llm_ok_def)
  from processJob_ok [OF assms(1) this(2,1)] show ?thesis using Cons by (fastforce simp: worker_turn_def)
next
  case Nil
  then show ?thesis
    using assms(2) by (auto simp: worker_turn_def collectNarrateJobs_def llm_ok_def split: prod.split)
qed

section \<open>Runs\<close>

datatype llm_input =
    FrameStep int bytes
  | EventStep int "nat \<Rightarrow> int" string
  | WorkerStep "int \<times> int" int "nat \<Rightarrow> bool" "nat \<Rightarrow> int \<times> int"
  | StopStep

fun llm_step ::
  "('j, 'f, 'd) llm_env \<Rightarrow> llm_input \<Rightarrow> ('f, 'd) llm_state \<Rightarrow> (('f, 'd) llm_state \<times> 'd reasoning list) option" where
  "llm_step E (FrameStep now buf) s = map_option (\<lambda>s. (s, [])) (llm_on_frame (le_lib E) (le_D E) now buf s)"
| "llm_step E (EventStep now clk msg) s = map_option (\<lambda>(s, raised). (s, [])) (llm_handleEvent E now clk msg s)"
| "llm_step E (WorkerStep t now running ts) s = map_option (\<lambda>(s, evs, stop). (s, evs)) (worker_turn E t now running ts s)"
| "llm_step E StopStep s = Some (llm_stop s, [])"

fun llm_run ::
  "('j, 'f, 'd) llm_env \<Rightarrow> llm_input list \<Rightarrow> ('f, 'd) llm_state \<Rightarrow> (('f, 'd) llm_state \<times> 'd reasoning list) option" where
  "llm_run E [] s = Some (s, [])"
| "llm_run E (x # xs) s =
     Option.bind (llm_step E x s) (\<lambda>(s1, evs). map_option (\<lambda>(s2, evs2). (s2, evs @ evs2)) (llm_run E xs s1))"

lemma llm_step_ok:
  assumes "scale_fills (le_lib E)" and "llm_ok s" and "montage_frames (ls_cfg s) \<noteq> 1"
  shows "\<exists>s' evs. llm_step E x s = Some (s', evs) \<and> llm_ok s' \<and> ls_cfg s' = ls_cfg s"
proof (cases x)
  case (FrameStep now buf)
  then show ?thesis using llm_on_frame_ok [OF assms(1,2)] by fastforce
next
  case (EventStep now clk msg)
  obtain s' raised where "llm_handleEvent E now clk msg s = Some (s', raised)" "llm_ok s'" "ls_cfg s' = ls_cfg s"
    using handleEvent_ok [OF assms(2,3)] by blast
  then show ?thesis using EventStep by simp
next
  case (WorkerStep t now running ts)
  obtain s' evs stop where "worker_turn E t now running ts s = Some (s', evs, stop)" "llm_ok s'" "ls_cfg s' = ls_cfg s"
    using worker_turn_ok [OF assms(1,2)] by blast
  then show ?thesis using WorkerStep by simp
next
  case StopStep
  then show ?thesis using assms(2) by (simp add: llm_stop_def llm_ok_def)
qed

lemma llm_run_ok:
  "\<lbrakk>scale_fills (le_lib E); llm_ok s; montage_frames (ls_cfg s) \<noteq> 1\<rbrakk> \<Longrightarrow>
    \<exists>s' evs. llm_run E xs s = Some (s', evs) \<and> llm_ok s'"
proof (induction xs arbitrary: s)
  case (Cons x xs)
  obtain s1 evs where s1: "llm_step E x s = Some (s1, evs)" "llm_ok s1" "ls_cfg s1 = ls_cfg s"
    using llm_step_ok [OF Cons.prems] by blast
  obtain s2 evs2 where "llm_run E xs s1 = Some (s2, evs2)" "llm_ok s2"
    using Cons.IH [OF Cons.prems(1) s1(2)] Cons.prems(3) s1(3) by auto
  then show ?case using s1(1) by simp
qed simp


section \<open>The distance between reviews\<close>

text \<open>Requests for reviews, with their times, against the map of last reviews; the accepted ones.\<close>

fun dedup :: "u64 \<Rightarrow> (int \<times> u64) list \<Rightarrow> (u64 \<times> int) list \<Rightarrow> (u64 \<times> int) list \<times> (int \<times> u64) list" where
  "dedup W [] m = (m, [])"
| "dedup W ((t, k) # rs) m =
     (case review_due W t k m of
        None \<Rightarrow> dedup W rs m
      | Some m1 \<Rightarrow> (case dedup W rs m1 of (m2, acc) \<Rightarrow> (m2, (t, k) # acc)))"

lemma dedup_append:
  "dedup W (rs @ qs) m = (case dedup W rs m of (m1, a) \<Rightarrow> (case dedup W qs m1 of (m2, b) \<Rightarrow> (m2, a @ b)))"
  by (induction rs arbitrary: m) (auto split: option.splits prod.splits)

text \<open>The requests of a list of hits.\<close>

fun hit_requests :: "u32 \<Rightarrow> (nat \<Rightarrow> int) \<Rightarrow> nat \<Rightarrow> 'f Hit list \<Rightarrow> (int \<times> u64) list" where
  "hit_requests sid clk i [] = []"
| "hit_requests sid clk i (h # hs) = (clk i, trackKey sid (hit_trackId h)) # hit_requests sid clk (Suc i) hs"

definition job_key :: "('f, 'd) ReviewJob \<Rightarrow> u64" where
  "job_key j = trackKey (rj_streamId j) (rj_trackId j)"

lemma enqueue_hits_dedup:
  "dedup (lc_debounceUsec (ls_cfg s)) (hit_requests sid clk i hits) (ls_lastReview s) = (m, acc) \<Longrightarrow>
   ls_lastReview (enqueue_hits E ty sid pts frames sp clk i hits s) = m \<and>
   (\<exists>js. ls_jobs (enqueue_hits E ty sid pts frames sp clk i hits s) = ls_jobs s @ js \<and> map job_key js = map snd acc)"
proof (induction hits arbitrary: i s acc)
  case (Cons h hits)
  show ?case
  proof (cases "review_due (lc_debounceUsec (ls_cfg s)) (clk i) (trackKey sid (hit_trackId h)) (ls_lastReview s)")
    case None
    then show ?thesis using Cons by simp
  next
    case (Some lr)
    define job where "job = review_job E ty sid pts frames sp h (s\<lparr>ls_lastReview := lr\<rparr>)"
    define s1 where "s1 = s\<lparr>ls_lastReview := lr, ls_jobs := ls_jobs s @ [job]\<rparr>"
    have e: "enqueue_hits E ty sid pts frames sp clk i (h # hits) s = enqueue_hits E ty sid pts frames sp clk (Suc i) hits s1"
      using Some by (simp add: Let_def s1_def job_def)
    obtain acc' where a: "dedup (lc_debounceUsec (ls_cfg s)) (hit_requests sid clk (Suc i) hits) lr = (m, acc')"
      "acc = (clk i, trackKey sid (hit_trackId h)) # acc'"
      using Cons.prems Some by (auto split: prod.splits)
    have "job_key job = trackKey sid (hit_trackId h)" by (simp add: job_key_def job_def review_job_def Let_def)
    moreover have "dedup (lc_debounceUsec (ls_cfg s1)) (hit_requests sid clk (Suc i) hits) (ls_lastReview s1) = (m, acc')"
      using a(1) by (simp add: s1_def)
    note Cons.IH [OF this]
    ultimately have "ls_lastReview (enqueue_hits E ty sid pts frames sp clk (Suc i) hits s1) = m"
      "\<exists>js. ls_jobs (enqueue_hits E ty sid pts frames sp clk (Suc i) hits s1) = ls_jobs s @ js \<and> map job_key js = map snd acc"
      using a(2) by (auto simp: s1_def)
    then show ?thesis by (simp only: e)
  qed
qed simp

text \<open>The requests that an event makes.\<close>

definition event_requests ::
  "('j, 'f, 'd) llm_env \<Rightarrow> (nat \<Rightarrow> int) \<Rightarrow> string \<Rightarrow> ('f, 'd) llm_state \<Rightarrow> (int \<times> u64) list" where
  "event_requests E clk msg s =
     (case read_event E (ls_cfg s) msg of
        Some (Some (ty, sid, pts, hits)) \<Rightarrow>
          (if \<not> ls_active s \<or> sr_frames (ring_of sid s) = [] \<or>
              selectMontageFrames (le_nan_index E) (sr_frames (ring_of sid s)) (montage_frames (ls_cfg s)) \<in> {None, Some []}
           then [] else hit_requests sid clk 0 hits)
      | _ \<Rightarrow> [])"

lemma handleEvent_dedup:
  assumes h: "llm_handleEvent E now clk msg s = Some (s', raised)"
    and d: "dedup (lc_debounceUsec (ls_cfg s)) (event_requests E clk msg s) (ls_lastReview s) = (m, acc)"
  shows "ls_cfg s' = ls_cfg s \<and> ls_lastReview s' = m \<and> (\<exists>js. ls_jobs s' = ls_jobs s @ js \<and> map job_key js = map snd acc)"
proof (cases "ls_active s \<and> (\<exists>ty sid pts hits. read_event E (ls_cfg s) msg = Some (Some (ty, sid, pts, hits)))")
  case False
  then show ?thesis
    using h d by (cases "ls_active s") (auto simp: llm_handleEvent_def event_requests_def split: option.splits)
next
  case True
  then obtain ty sid pts hits where r: "read_event E (ls_cfg s) msg = Some (Some (ty, sid, pts, hits))" by blast
  let ?s = "record_hits (le_D E) sid now hits s"
  note eq = handleEvent_eq [OF conjunct1 [OF True] r, of now clk]
  show ?thesis
  proof (cases "sr_frames (ring_of sid s) = [] \<or>
      selectMontageFrames (le_nan_index E) (sr_frames (ring_of sid s)) (montage_frames (ls_cfg s)) \<in> {None, Some []}")
    case True
    then have "m = ls_lastReview s" "acc = []" using d r by (simp_all add: event_requests_def)
    moreover have "s' = ?s" using True h eq by (auto simp: Let_def split: if_splits)
    ultimately show ?thesis by simp
  next
    case False
    then obtain frames where f: "selectMontageFrames (le_nan_index E) (sr_frames (ring_of sid s)) (montage_frames (ls_cfg s)) = Some frames"
      "frames \<noteq> []" by auto
    have s': "s' = enqueue_hits E ty sid pts frames (span_of (le_D E) frames) clk 0 hits ?s"
      using h eq f False by simp
    have "dedup (lc_debounceUsec (ls_cfg ?s)) (hit_requests sid clk 0 hits) (ls_lastReview ?s) = (m, acc)"
      using d r f False True by (simp add: event_requests_def)
    from enqueue_hits_dedup [OF this, of E ty pts frames "span_of (le_D E) frames"] show ?thesis by (simp add: s')
  qed
qed

lemma review_due_map:
  assumes "review_due W t k m = Some m1" and "distinct (map fst m)"
  shows "distinct (map fst m1)" and "map_of m1 k = Some t"
    and "\<lbrakk>map_of m k' = Some t'; k' \<noteq> k\<rbrakk> \<Longrightarrow> map_of m1 k' = (if t - t' > 30 * 1000000000 then None else Some t')"
    and "map_of m k = Some t' \<Longrightarrow> W = 0 \<or> sint W * 1000 \<le> t - t'"
proof -
  have m1: "m1 = filter (\<lambda>p. \<not> t - snd p > 30 * 1000000000) (AList.update k t m)"
    using assms(1) by (simp add: review_due_def split: if_splits)
  have d: "distinct (map fst (AList.update k t m))" using assms(2) by (simp add: distinct_update)
  show "distinct (map fst m1)" using d distinct_filter_keys by (simp add: m1)
  show "map_of m1 k = Some t" by (simp add: m1 map_of_filter_distinct [OF d] update_conv')
  show "map_of m1 k' = (if t - t' > 30 * 1000000000 then None else Some t')" if "map_of m k' = Some t'" "k' \<noteq> k"
    using that by (simp add: m1 map_of_filter_distinct [OF d] update_conv')
  show "W = 0 \<or> sint W * 1000 \<le> t - t'" if "map_of m k = Some t'"
    using assms(1) that by (auto simp: review_due_def word_gt_0 split: if_splits)
qed

definition min_distance :: "u64 \<Rightarrow> int" where
  "min_distance W = min (sint W * 1000) (30 * 1000000000)"

lemma dedup_times: "\<lbrakk>dedup W rs m = (m', acc); \<forall>q \<in> set rs. b \<le> fst q\<rbrakk> \<Longrightarrow> \<forall>q \<in> set acc. b \<le> fst q"
proof (induction rs arbitrary: m acc)
  case (Cons q rs)
  then show ?case by (cases q) (fastforce split: option.splits prod.splits)
qed simp

text \<open>After a review of \<open>k\<close> at \<open>t\<close>, all later ones keep the distance.\<close>

lemma dedup_after:
  assumes "dedup W rs m = (m', acc)" and "sorted (map fst rs)" and "distinct (map fst m)"
    and "\<forall>q \<in> set rs. t \<le> fst q" and "map_of m k = Some t \<or> (\<forall>q \<in> set rs. 30 * 1000000000 < fst q - t)"
  shows "\<forall>q \<in> set acc. snd q = k \<longrightarrow> min_distance W \<le> fst q - t"
  using assms
proof (induction rs arbitrary: m acc)
  case Nil
  then show ?case by simp
next
  case (Cons q rs)
  obtain t1 k1 where q: "q = (t1, k1)" by (cases q)
  have srt: "sorted (map fst rs)" and le: "\<forall>q \<in> set rs. t1 \<le> fst q" using Cons.prems(2) q by auto
  have tt: "t \<le> t1" "\<forall>q \<in> set rs. t \<le> fst q" using Cons.prems(4) q by auto
  show ?case
  proof (cases "review_due W t1 k1 m")
    case None
    then show ?thesis using Cons.IH [OF _ srt Cons.prems(3) tt(2)] Cons.prems(1,5) q by auto
  next
    case (Some m1)
    obtain acc1 where a: "dedup W rs m1 = (m', acc1)" "acc = (t1, k1) # acc1"
      using Cons.prems(1) Some q by (auto split: prod.splits)
    note rd = review_due_map [OF Some Cons.prems(3)]
    have later: "\<forall>q \<in> set acc1. t1 \<le> fst q" using dedup_times [OF a(1) le] .
    consider (far) "30 * 1000000000 < t1 - t" | (same) "k1 = k" "map_of m k = Some t"
      | (other) "k1 \<noteq> k" "map_of m k = Some t" "t1 - t \<le> 30 * 1000000000"
      using Cons.prems(5) q by fastforce
    then show ?thesis
    proof cases
      case far
      then show ?thesis using later a(2) by (fastforce simp: min_distance_def)
    next
      case same
      then have "W = 0 \<or> sint W * 1000 \<le> t1 - t" using rd(4) by blast
      then have "min_distance W \<le> t1 - t" using tt(1) by (auto simp: min_distance_def)
      then show ?thesis using later a(2) by fastforce
    next
      case other
      then have "map_of m1 k = Some t" using rd(3) [of k t] by simp
      then show ?thesis using Cons.IH [OF a(1) srt rd(1) tt(2)] a(2) other(1) by auto
    qed
  qed
qed

lemma dedup_spaced:
  "\<lbrakk>dedup W rs m = (m', acc); sorted (map fst rs); distinct (map fst m)\<rbrakk> \<Longrightarrow>
    sorted_wrt (\<lambda>p q. snd p = snd q \<longrightarrow> min_distance W \<le> fst q - fst p) acc"
proof (induction rs arbitrary: m acc)
  case (Cons q rs)
  obtain t1 k1 where q: "q = (t1, k1)" by (cases q)
  have srt: "sorted (map fst rs)" and le: "\<forall>q \<in> set rs. t1 \<le> fst q" using Cons.prems(2) q by auto
  show ?case
  proof (cases "review_due W t1 k1 m")
    case None
    then show ?thesis using Cons.IH [OF _ srt Cons.prems(3)] Cons.prems(1) q by auto
  next
    case (Some m1)
    obtain acc1 where a: "dedup W rs m1 = (m', acc1)" "acc = (t1, k1) # acc1"
      using Cons.prems(1) Some q by (auto split: prod.splits)
    note rd = review_due_map [OF Some Cons.prems(3)]
    have "\<forall>q \<in> set acc1. snd q = k1 \<longrightarrow> min_distance W \<le> fst q - t1"
      using dedup_after [OF a(1) srt rd(1) le] rd(2) by blast
    then show ?thesis using Cons.IH [OF a(1) srt rd(1)] a(2) by auto
  qed
qed simp

text \<open>A run of events, with the requests that they make.\<close>

fun events_run ::
  "('j, 'f, 'd) llm_env \<Rightarrow> (int \<times> (nat \<Rightarrow> int) \<times> string) list \<Rightarrow> ('f, 'd) llm_state \<Rightarrow>
   (('f, 'd) llm_state \<times> (int \<times> u64) list) option" where
  "events_run E [] s = Some (s, [])"
| "events_run E ((now, clk, msg) # evs) s =
     Option.bind (llm_handleEvent E now clk msg s) (\<lambda>(s1, raised).
       map_option (\<lambda>(s2, reqs). (s2, event_requests E clk msg s @ reqs)) (events_run E evs s1))"

lemma events_run_dedup:
  "\<lbrakk>events_run E evs s = Some (s', reqs); dedup (lc_debounceUsec (ls_cfg s)) reqs (ls_lastReview s) = (m, acc)\<rbrakk> \<Longrightarrow>
    \<exists>js. ls_jobs s' = ls_jobs s @ js \<and> map job_key js = map snd acc"
proof (induction evs arbitrary: s reqs acc m)
  case (Cons e evs)
  obtain now clk msg where e: "e = (now, clk, msg)" by (cases e)
  obtain s1 raised reqs2 where h: "llm_handleEvent E now clk msg s = Some (s1, raised)"
    and r: "events_run E evs s1 = Some (s', reqs2)" and reqs: "reqs = event_requests E clk msg s @ reqs2"
    using Cons.prems(1) e by (auto simp: bind_eq_Some_conv)
  obtain m1 acc1 where d1: "dedup (lc_debounceUsec (ls_cfg s)) (event_requests E clk msg s) (ls_lastReview s) = (m1, acc1)"
    by (metis surj_pair)
  obtain m2 acc2 where d2: "dedup (lc_debounceUsec (ls_cfg s)) reqs2 m1 = (m2, acc2)" by (metis surj_pair)
  have acc: "acc = acc1 @ acc2" using Cons.prems(2) d1 d2 by (simp add: reqs dedup_append)
  note one = handleEvent_dedup [OF h d1]
  then have "dedup (lc_debounceUsec (ls_cfg s1)) reqs2 (ls_lastReview s1) = (m2, acc2)" using d2 by simp
  from Cons.IH [OF r this] one show ?case by (auto simp: acc)
qed simp

text \<open>
  However the events come, two reviews of one object are requested at least the configured time apart, or
  thirty seconds when more is configured, by the clock and not by the time stamps of the events.
\<close>
theorem reviews_keep_distance:
  assumes "events_run E evs s = Some (s', reqs)" and "sorted (map fst reqs)" and "ls_lastReview s = []"
  shows "\<exists>js times. ls_jobs s' = ls_jobs s @ js \<and> length times = length js \<and>
    sorted_wrt (\<lambda>p q. snd p = snd q \<longrightarrow> min_distance (lc_debounceUsec (ls_cfg s)) \<le> fst q - fst p) (zip times (map job_key js))"
proof -
  obtain m acc where d: "dedup (lc_debounceUsec (ls_cfg s)) reqs (ls_lastReview s) = (m, acc)" by (metis surj_pair)
  obtain js where js: "ls_jobs s' = ls_jobs s @ js" "map job_key js = map snd acc"
    using events_run_dedup [OF assms(1) d] by blast
  have "sorted_wrt (\<lambda>p q. snd p = snd q \<longrightarrow> min_distance (lc_debounceUsec (ls_cfg s)) \<le> fst q - fst p) acc"
    using dedup_spaced [OF d assms(2)] assms(3) by simp
  moreover have "zip (map fst acc) (map job_key js) = acc" by (simp add: js(2) zip_map_fst_snd)
  moreover have "length (map fst acc) = length js" using js(2) by (metis length_map)
  ultimately show ?thesis using js(1) by (intro exI [of _ js] exI [of _ "map fst acc"]) simp
qed

text \<open>
  With a window of sixty seconds an object is reviewed again after 31 seconds when another one was reviewed
  in between, because the map is pruned at thirty.
\<close>
lemma long_window_is_cut:
  "snd (dedup 60000000 [(0, 1), (30500000000, 2), (31000000000, 1)] []) = [(0, 1), (30500000000, 2), (31000000000, 1)]"
  by code_simp

section \<open>Stories\<close>

lemma narrate_job_key: "job_key (narrate_job F D key th) = key"
proof -
  have "push_bit 32 (ucast (ucast (drop_bit 32 key) :: u32)) OR ucast (ucast (key AND 0xffffffff) :: u32) = key"
    by (rule bit_word_eqI) (auto simp: bit_simps)
  then show ?thesis by (simp add: job_key_def narrate_job_def trackKey_def)
qed

abbreviation jobs_of :: "u64 \<Rightarrow> ('f, 'd) ReviewJob list \<Rightarrow> ('f, 'd) ReviewJob list" where
  "jobs_of key js \<equiv> filter (\<lambda>j. job_key j = key) js"

definition too_old :: "'d floats \<Rightarrow> int \<Rightarrow> ('f, 'd) TrackHist \<Rightarrow> bool" where
  "too_old D now th \<longleftrightarrow> fl_less D (fl_num D 300 1) (secs_of_ns D (now - th_lastSeen th))"

lemma collect_loop_key:
  "\<lbrakk>collect_loop F D c now hist = (hist', jobs); distinct (map fst hist)\<rbrakk> \<Longrightarrow>
    set (map fst hist') \<subseteq> set (map fst hist) \<and> distinct (map fst hist') \<and>
    (case map_of hist key of
       None \<Rightarrow> map_of hist' key = None \<and> jobs_of key jobs = []
     | Some th \<Rightarrow>
         map_of hist' key = (if too_old D now th then None
           else Some (if story_due D c now th then th\<lparr>th_narrated := True\<rparr> else th)) \<and>
         jobs_of key jobs = (if story_due D c now th then [narrate_job F D key th] else []))"
proof (induction hist arbitrary: hist' jobs)
  case (Cons q hist)
  obtain k th where q: "q = (k, th)" by (cases q)
  obtain h1 j1 where c: "collect_loop F D c now hist = (h1, j1)" by (metis surj_pair)
  have d: "distinct (map fst hist)" "k \<notin> fst ` set hist" using Cons.prems(2) q by auto
  note IH = Cons.IH [OF c d(1)]
  have eq: "hist' = (if too_old D now th then h1 else (k, if story_due D c now th then th\<lparr>th_narrated := True\<rparr> else th) # h1)"
    "jobs = (if story_due D c now th then narrate_job F D k th # j1 else j1)"
    using Cons.prems(1) c q by (auto simp: Let_def too_old_def)
  have sub: "set (map fst h1) \<subseteq> set (map fst hist)" "distinct (map fst h1)" using IH by auto
  have keys: "set (map fst hist') \<subseteq> set (map fst (q # hist)) \<and> distinct (map fst hist')"
    using sub d(2) by (auto simp: eq(1) q)
  show ?case
  proof (cases "k = key")
    case True
    then have n: "map_of hist key = None" using d(2) by (simp add: map_of_eq_None_iff)
    then have "map_of h1 key = None" "jobs_of key j1 = []" using IH by simp_all
    then show ?thesis using keys True by (simp add: eq q narrate_job_key)
  next
    case False
    then have "jobs_of key jobs = jobs_of key j1" "map_of hist' key = map_of h1 key" "map_of (q # hist) key = map_of hist key"
      by (simp_all add: eq q narrate_job_key)
    then show ?thesis using IH keys by (cases "map_of hist key") (simp_all del: map_of.simps)
  qed
qed simp

text \<open>The narrator has nothing left to tell of an object.\<close>

definition told :: "u64 \<Rightarrow> ('f, 'd) llm_state \<Rightarrow> bool" where
  "told key s \<longleftrightarrow> (\<forall>th. map_of (ls_trackHist s) key = Some th \<longrightarrow> th_narrated th \<or> th_captions th = [])"

definition hist_ok :: "('f, 'd) llm_state \<Rightarrow> bool" where
  "hist_ok s \<longleftrightarrow> distinct (map fst (ls_trackHist s)) \<and> lc_narratorMinCaptions (ls_cfg s) \<ge> 1"

lemma collect_told:
  assumes "collectNarrateJobs E now s = (s', jobs)" and "hist_ok s"
  shows "hist_ok s' \<and> length (jobs_of key jobs) \<le> 1 \<and> (told key s \<longrightarrow> jobs_of key jobs = [] \<and> told key s') \<and>
    (jobs_of key jobs \<noteq> [] \<longrightarrow> told key s')"
proof (cases "lc_narrate (ls_cfg s)")
  case False
  then show ?thesis using assms by (simp add: collectNarrateJobs_def)
next
  case True
  obtain hist where c: "collect_loop (le_F E) (le_D E) (ls_cfg s) now (ls_trackHist s) = (hist, jobs)"
    and s': "s' = s\<lparr>ls_trackHist := hist\<rparr>"
    using assms(1) True by (auto simp: collectNarrateJobs_def split: prod.splits)
  have "distinct (map fst (ls_trackHist s))" using assms(2) by (simp add: hist_ok_def)
  note k = collect_loop_key [OF c this, of key]
  have min: "\<not> story_due (le_D E) (ls_cfg s) now th" if "th_narrated th \<or> th_captions th = []" for th
    using that assms(2) by (auto simp: story_due_def hist_ok_def)
  show ?thesis
  proof (cases "map_of (ls_trackHist s) key")
    case None
    then show ?thesis using k assms(2) by (simp add: s' told_def hist_ok_def)
  next
    case (Some th)
    then show ?thesis using k assms(2) min [of th] by (auto simp: s' told_def hist_ok_def)
  qed
qed

lemma record_hit_told:
  "\<lbrakk>told key s; hist_ok s\<rbrakk> \<Longrightarrow> told key (record_hit D sid now h s) \<and> hist_ok (record_hit D sid now h s)"
  by (auto simp: told_def hist_ok_def record_hit_def add_point_def touch_hist_def hist_of_def TrackHist_init_def Let_def
      update_conv' distinct_update simp del: map_of_eq_Some_iff split: option.splits if_splits)

lemma record_hits_told:
  "\<lbrakk>told key s; hist_ok s\<rbrakk> \<Longrightarrow> told key (record_hits D sid now hits s) \<and> hist_ok (record_hits D sid now hits s)"
proof -
  have "told key s \<Longrightarrow> hist_ok s \<Longrightarrow>
      told key (fold (record_hit D sid now) hits s) \<and> hist_ok (fold (record_hit D sid now) hits s)"
    by (induction hits arbitrary: s) (simp_all add: record_hit_told)
  then show "\<lbrakk>told key s; hist_ok s\<rbrakk> \<Longrightarrow> told key (record_hits D sid now hits s) \<and> hist_ok (record_hits D sid now hits s)"
    by (simp add: record_hits_def)
qed

lemma hist_ok_record_hits: "hist_ok s \<Longrightarrow> hist_ok (record_hits D sid now hits s)"
proof -
  have "hist_ok s \<Longrightarrow> hist_ok (fold (record_hit D sid now) hits s)"
    by (induction hits arbitrary: s) (auto simp: record_hit_def hist_ok_def Let_def distinct_update)
  then show "hist_ok s \<Longrightarrow> hist_ok (record_hits D sid now hits s)" by (simp add: record_hits_def)
qed

text \<open>Scans of the narrator and observations, in any order.\<close>

datatype 'f story_step = Scan int | Observe u32 int "'f Hit list"

fun story_run ::
  "('j, 'f, 'd) llm_env \<Rightarrow> 'f story_step list \<Rightarrow> ('f, 'd) llm_state \<Rightarrow> ('f, 'd) llm_state \<times> ('f, 'd) ReviewJob list" where
  "story_run E [] s = (s, [])"
| "story_run E (Scan now # xs) s =
     (case collectNarrateJobs E now s of
        (s1, jobs) \<Rightarrow> (case story_run E xs s1 of (s2, jobs2) \<Rightarrow> (s2, jobs @ jobs2)))"
| "story_run E (Observe sid now hits # xs) s = story_run E xs (record_hits (le_D E) sid now hits s)"

lemma story_run_told:
  "\<lbrakk>story_run E xs s = (s', jobs); hist_ok s\<rbrakk> \<Longrightarrow>
    length (jobs_of key jobs) \<le> 1 \<and> (told key s \<longrightarrow> jobs_of key jobs = [])"
proof (induction E xs s arbitrary: jobs rule: story_run.induct)
  case (1 E s)
  then show ?case by simp
next
  case (2 E now xs s)
  obtain s1 j1 where c: "collectNarrateJobs E now s = (s1, j1)" by (metis surj_pair)
  obtain s2 j2 where r: "story_run E xs s1 = (s2, j2)" by (metis surj_pair)
  note k = collect_told [OF c 2(3), of key]
  have eq: "s' = s2" "jobs = j1 @ j2" using 2(2) c r by auto
  have IH: "length (jobs_of key j2) \<le> 1 \<and> (told key s1 \<longrightarrow> jobs_of key j2 = [])"
    using 2(1) [OF c [symmetric], of j2] r eq(1) k by blast
  show ?case using k IH by (cases "jobs_of key j1 = []") (auto simp: eq(2))
next
  case (3 E sid now hits xs s)
  have ok: "hist_ok (record_hits (le_D E) sid now hits s)" using 3(3) by (rule hist_ok_record_hits)
  have "story_run E xs (record_hits (le_D E) sid now hits s) = (s', jobs)" using 3(2) by simp
  from 3(1) [OF this ok] record_hits_told [OF _ 3(3), of key] show ?case by blast
qed

text \<open>
  C31. Between two captions of an object the narrator tells its story at most once, however often it scans, with
  any observations in between, also when the object is forgotten and comes back.
\<close>
theorem story_told_once:
  assumes "story_run E steps s = (s', jobs)" and "hist_ok s"
  shows "length (filter (\<lambda>j. job_key j = key) jobs) \<le> 1"
  using story_run_told [OF assms] by blast

section \<open>Examples\<close>

definition llm_texts :: "string \<rightharpoonup> jdoc" where
  "llm_texts msg =
     (if msg = ''alert'' then
        Some (JObj [(''type'', JStr ''alert''), (''stream_id'', JInt 1), (''pts_usec'', JInt 7), (''track_id'', JInt 4),
          (''label'', JStr ''car'')])
      else None)"

definition llm_demo_env :: "(jdoc, int, int) llm_env" where
  "llm_demo_env = \<lparr>le_J = jdoc_api llm_texts, le_K = jdoc_floats, le_F = int_floats, le_D = int_floats,
     le_X = \<lparr>c_float = (\<lambda>x. x), c_double = (\<lambda>x. x)\<rparr>, le_NF = \<lparr>nf_1f = (\<lambda>_. []), nf_2f = (\<lambda>_. []), nf_plus_1f = (\<lambda>_. [])\<rparr>,
     le_lib = paint_lib, le_curl = (\<lambda>_ _ _ _. None), le_nan_index = 0\<rparr>"

definition llm_demo_state :: "(int, int) llm_state" where
  "llm_demo_state = \<lparr>ls_cfg = (llm_cfg_init int_floats)\<lparr>lc_prompt := [], lc_montagePrompt := [], lc_narratorPrompt := []\<rparr>,
     ls_visionProvider = make_provider [] [] [] [] 0 False,
     ls_rings = [(1, \<lparr>sr_frames = [small_thumb], sr_lastSample = 0\<rparr>)], ls_lastReview = [],
     ls_trackHist = [(4294967300, TrackHist_init\<lparr>th_captions := [\<lparr>cap_tSec = 0, cap_text = ''x''\<rparr>, \<lparr>cap_tSec = 1, cap_text = ''y''\<rparr>]\<rparr>)],
     ls_jobs = [], ls_running = True, ls_active = True\<rparr>"


text \<open>Two alerts for one object, the second after two seconds.\<close>

definition llm_demo_events :: "(int \<times> (nat \<Rightarrow> int) \<times> string) list" where
  "llm_demo_events = [(0, (\<lambda>_. 0), ''alert''), (2000000000, (\<lambda>_. 2000000000), ''alert'')]"

lemma llm_demo_run:
  "(case events_run llm_demo_env llm_demo_events llm_demo_state of
      None \<Rightarrow> False | Some (s', reqs) \<Rightarrow> reqs = [(0, 4294967300), (2000000000, 4294967300)] \<and> length (ls_jobs s') = 1)"
  by code_simp

theorem reviews_keep_distance_witness:
  "\<exists>s' reqs js. events_run llm_demo_env llm_demo_events llm_demo_state = Some (s', reqs) \<and> ls_jobs s' = js \<and> length js = 1 \<and>
     length reqs = 2"
proof -
  obtain s' reqs where r: "events_run llm_demo_env llm_demo_events llm_demo_state = Some (s', reqs)"
    and q: "reqs = [(0, 4294967300), (2000000000, 4294967300)]" "length (ls_jobs s') = 1"
    using llm_demo_run by (cases "events_run llm_demo_env llm_demo_events llm_demo_state") auto
  have "sorted (map fst reqs)" "ls_lastReview llm_demo_state = []" by (simp_all add: q(1) llm_demo_state_def)
  from reviews_keep_distance [OF r this] r q show ?thesis by auto
qed

lemma llm_demo_story:
  "length (snd (story_run llm_demo_env [Scan 9000000000, Scan 10000000000] llm_demo_state)) = 1"
  by code_simp

theorem story_told_once_witness:
  "\<exists>s' jobs. story_run llm_demo_env [Scan 9000000000, Scan 10000000000] llm_demo_state = (s', jobs) \<and> length jobs = 1 \<and>
     length (filter (\<lambda>j. job_key j = 4294967300) jobs) \<le> 1"
proof -
  obtain s' jobs where r: "story_run llm_demo_env [Scan 9000000000, Scan 10000000000] llm_demo_state = (s', jobs)"
    by (metis surj_pair)
  have "hist_ok llm_demo_state" by (simp add: hist_ok_def llm_demo_state_def llm_cfg_init_def)
  from story_told_once [OF r this] llm_demo_story r show ?thesis by auto
qed

end
