(* ===== verification/Webrtc.thy ===== *)
theory Webrtc
  imports Frame_Queue Frame_Header Json_Api Std_Strings "HOL-Library.AList"
begin

text \<open>
  The WebRTC output, plugins/output_webrtc/output_webrtc.cpp: the viewers, the frame queue and its thread, the
  clean-up thread, the commands of the control server, and the plugin's handlers. The peer connections of
  libdatachannel are a parameter: a connection is a value of type \<open>'p\<close>, and each call on it gives its next
  state with its result, where the call may throw. The two hash tables are association lists. A step of the model is
  what happens under one lock, except that an offer is created in the step that creates its viewer.
\<close>

section \<open>Data\<close>

record WebStream =
  wst_camera_id :: u32
  wst_stream_id :: u32
  wst_codec :: string
  wst_width :: int
  wst_height :: int
  wst_frame_count :: u64
  wst_bytes_sent :: u64

record 'p ViewerSession =
  vs_viewer_id :: string
  vs_camera_id :: u32
  vs_peer :: 'p
  vs_last_activity :: int
  vs_connected :: bool
  vs_ssrc :: u32

record FrameData =
  fd_data :: bytes
  fd_timestamp :: u64
  fd_keyframe :: bool
  fd_camera_id :: u32
  fd_stream_id :: u32

text \<open>
  \<open>ws_tracks\<close> has the keys of the manager's map of tracks. \<open>ws_control\<close> is the control server when it exists,
  with its \<open>running_\<close>; \<open>ws_once\<close> is the flag of \<open>call_once\<close>.
\<close>

record 'p WebRTCService =
  ws_running :: bool
  ws_control :: "bool option"
  ws_once :: bool
  ws_streams :: "(string \<times> WebStream) list"
  ws_viewers :: "(string \<times> 'p ViewerSession) list"
  ws_tracks :: "string list"
  ws_frame_queue :: "FrameData list"
  ws_frames_processed :: u64
  ws_bytes_processed :: u64
  ws_created :: u64
  ws_dropped :: u64
  ws_next_ssrc :: u32

definition WebRTCService_init :: "'p WebRTCService" where
  "WebRTCService_init = \<lparr>ws_running = False, ws_control = None, ws_once = False, ws_streams = [], ws_viewers = [],
     ws_tracks = [], ws_frame_queue = [], ws_frames_processed = 0, ws_bytes_processed = 0, ws_created = 0,
     ws_dropped = 0, ws_next_ssrc = 1000\<rparr>"

text \<open>The library: \<open>None\<close>, or \<open>False\<close>, is an exception.\<close>

record 'p rtc_lib =
  rtc_add_track :: "u32 \<Rightarrow> 'p \<Rightarrow> 'p option"
  rtc_offer :: "'p \<Rightarrow> 'p \<times> string option option"     \<comment> \<open>setLocalDescription, localDescription\<close>
  rtc_answer :: "string \<Rightarrow> 'p \<Rightarrow> 'p \<times> bool"
  rtc_candidate :: "string \<Rightarrow> string \<Rightarrow> 'p \<Rightarrow> 'p \<times> bool"

section \<open>Streams\<close>

definition id_key :: "u32 \<Rightarrow> u32 \<Rightarrow> string" where
  "id_key camera_id stream_id = to_string (uint camera_id) @ '':'' @ to_string (uint stream_id)"

text \<open>\<open>params\<close>: the dimensions of the codec parameters when they are passed.\<close>

definition wr_registerStream ::
  "u32 \<Rightarrow> u32 \<Rightarrow> string \<Rightarrow> (int \<times> int) option \<Rightarrow> 'p WebRTCService \<Rightarrow> 'p WebRTCService" where
  "wr_registerStream camera_id stream_id codec params sv =
     sv\<lparr>ws_streams := AList.update (id_key camera_id stream_id)
       \<lparr>wst_camera_id = camera_id, wst_stream_id = stream_id, wst_codec = codec,
        wst_width = (case params of None \<Rightarrow> 0 | Some (w, h) \<Rightarrow> w), wst_height = (case params of None \<Rightarrow> 0 | Some (w, h) \<Rightarrow> h),
        wst_frame_count = 0, wst_bytes_sent = 0\<rparr> (ws_streams sv)\<rparr>"

definition wr_unregisterStream :: "u32 \<Rightarrow> u32 \<Rightarrow> 'p WebRTCService \<Rightarrow> 'p WebRTCService" where
  "wr_unregisterStream camera_id stream_id sv = sv\<lparr>ws_streams := AList.delete (id_key camera_id stream_id) (ws_streams sv)\<rparr>"

text \<open>The camera of the first stream with this identifier; 0 for none.\<close>

definition camera_of_stream :: "u32 \<Rightarrow> 'p WebRTCService \<Rightarrow> u32" where
  "camera_of_stream stream_id sv =
     (case find (\<lambda>(key, st). wst_stream_id st = stream_id) (ws_streams sv) of
        None \<Rightarrow> 0 | Some (key, st) \<Rightarrow> wst_camera_id st)"

definition max_frames :: nat where "max_frames = 250"

definition enqueue_frame :: "FrameData \<Rightarrow> FrameData list \<Rightarrow> FrameData list" where
  "enqueue_frame f q = (if length q > max_frames then tl q else q) @ [f]"

definition wr_pushFrame :: "zm_frame_hdr \<Rightarrow> bytes \<Rightarrow> 'p WebRTCService \<Rightarrow> 'p WebRTCService" where
  "wr_pushFrame hdr data sv =
     (if \<not> ws_running sv \<or> data = [] then sv
      else let stream_id = fh_stream_id hdr; camera_id = camera_of_stream stream_id sv in
        if camera_id = 0 then sv
        else sv\<lparr>ws_frame_queue := enqueue_frame \<lparr>fd_data = data, fd_timestamp = fh_pts_usec hdr,
                  fd_keyframe = ((fh_flags hdr AND 1) \<noteq> 0), fd_camera_id = camera_id, fd_stream_id = stream_id\<rparr> (ws_frame_queue sv),
                ws_frames_processed := ws_frames_processed sv + 1,
                ws_bytes_processed := ws_bytes_processed sv + of_nat (length data)\<rparr>)"

section \<open>Viewers\<close>

definition viewer_key :: "u32 \<Rightarrow> string \<Rightarrow> string" where
  "viewer_key camera_id viewer_id = to_string (uint camera_id) @ '':'' @ viewer_id"

definition rtp_key :: "u32 \<Rightarrow> string" where
  "rtp_key ssrc = to_string (uint ssrc)"

text \<open>\<open>fresh\<close> is the new connection, \<open>None\<close> if its constructor throws. The old session is gone in either case.\<close>

definition createViewerSession ::
  "'p rtc_lib \<Rightarrow> 'p option \<Rightarrow> int \<Rightarrow> u32 \<Rightarrow> string \<Rightarrow> 'p WebRTCService \<Rightarrow> 'p WebRTCService \<times> 'p ViewerSession option" where
  "createViewerSession R fresh now camera_id viewer_id sv =
     (let key = viewer_key camera_id viewer_id; ssrc = ws_next_ssrc sv;
          sv = sv\<lparr>ws_viewers := AList.delete key (ws_viewers sv), ws_next_ssrc := ssrc + 1\<rparr>
      in case Option.bind fresh (rtc_add_track R ssrc) of
           None \<Rightarrow> (sv, None)
         | Some pc \<Rightarrow>
             (let session = \<lparr>vs_viewer_id = viewer_id, vs_camera_id = camera_id, vs_peer = pc, vs_last_activity = now,
                             vs_connected = False, vs_ssrc = ssrc\<rparr>
              in (sv\<lparr>ws_tracks := List.insert (rtp_key ssrc) (ws_tracks sv),
                     ws_viewers := AList.update key session (ws_viewers sv)\<rparr>, Some session)))"

definition set_viewer :: "string \<Rightarrow> 'p ViewerSession \<Rightarrow> 'p WebRTCService \<Rightarrow> 'p WebRTCService" where
  "set_viewer key session sv = sv\<lparr>ws_viewers := AList.update key session (ws_viewers sv)\<rparr>"

definition createOffer ::
  "'p rtc_lib \<Rightarrow> 'p option \<Rightarrow> int \<Rightarrow> u32 \<Rightarrow> string \<Rightarrow> 'p WebRTCService \<Rightarrow> 'p WebRTCService \<times> string" where
  "createOffer R fresh now camera_id viewer_id sv =
     (case createViewerSession R fresh now camera_id viewer_id sv of
        (sv, None) \<Rightarrow> (sv, [])
      | (sv, Some session) \<Rightarrow>
          (case rtc_offer R (vs_peer session) of (pc, r) \<Rightarrow>
            (let sv = set_viewer (viewer_key camera_id viewer_id) (session\<lparr>vs_peer := pc\<rparr>) sv
             in case r of
                  None \<Rightarrow> (sv, [])
                | Some desc \<Rightarrow> (sv\<lparr>ws_created := ws_created sv + 1\<rparr>, case desc of None \<Rightarrow> [] | Some offer \<Rightarrow> offer))))"

definition setAnswer ::
  "'p rtc_lib \<Rightarrow> int \<Rightarrow> u32 \<Rightarrow> string \<Rightarrow> string \<Rightarrow> 'p WebRTCService \<Rightarrow> 'p WebRTCService \<times> bool" where
  "setAnswer R now camera_id viewer_id answer sv =
     (let key = viewer_key camera_id viewer_id in
      case map_of (ws_viewers sv) key of
        None \<Rightarrow> (sv, False)
      | Some session \<Rightarrow>
          (case rtc_answer R answer (vs_peer session) of (pc, done) \<Rightarrow>
             (let session = session\<lparr>vs_peer := pc\<rparr> in
              (set_viewer key (if done then session\<lparr>vs_connected := True, vs_last_activity := now\<rparr> else session) sv, done))))"

definition addIceCandidate ::
  "'p rtc_lib \<Rightarrow> int \<Rightarrow> u32 \<Rightarrow> string \<Rightarrow> string \<Rightarrow> string \<Rightarrow> 'p WebRTCService \<Rightarrow> 'p WebRTCService \<times> bool" where
  "addIceCandidate R now camera_id viewer_id candidate sdp_mid sv =
     (let key = viewer_key camera_id viewer_id in
      case map_of (ws_viewers sv) key of
        None \<Rightarrow> (sv, False)
      | Some session \<Rightarrow>
          (case rtc_candidate R candidate sdp_mid (vs_peer session) of (pc, done) \<Rightarrow>
             (let session = session\<lparr>vs_peer := pc\<rparr> in
              (set_viewer key (if done then session\<lparr>vs_last_activity := now\<rparr> else session) sv, done))))"

definition dropViewer :: "u32 \<Rightarrow> string \<Rightarrow> 'p WebRTCService \<Rightarrow> 'p WebRTCService \<times> bool" where
  "dropViewer camera_id viewer_id sv =
     (let key = viewer_key camera_id viewer_id in
      if map_of (ws_viewers sv) key = None then (sv, False)
      else (sv\<lparr>ws_viewers := AList.delete key (ws_viewers sv), ws_dropped := ws_dropped sv + 1\<rparr>, True))"

section \<open>The two threads\<close>

text \<open>What is handed to the track of a viewer, by the key of the track.\<close>

type_synonym sent = "string \<times> FrameData"

definition gets_frame :: "FrameData \<Rightarrow> 'p ViewerSession \<Rightarrow> bool" where
  "gets_frame f session \<longleftrightarrow> vs_camera_id session = fd_camera_id f \<and> vs_connected session"

definition sendFrame :: "string \<Rightarrow> FrameData \<Rightarrow> 'p WebRTCService \<Rightarrow> sent list" where
  "sendFrame key f sv = (if key \<in> set (ws_tracks sv) then [(key, f)] else [])"

text \<open>One frame of the queue; \<open>None\<close> when it is empty and the thread waits.\<close>

definition process_frame :: "int \<Rightarrow> 'p WebRTCService \<Rightarrow> ('p WebRTCService \<times> sent list) option" where
  "process_frame now sv =
     (case ws_frame_queue sv of
        [] \<Rightarrow> None
      | f # q \<Rightarrow>
          (let viewers = filter (gets_frame f) (map snd (ws_viewers sv));
               sends = concat (map (\<lambda>s. sendFrame (rtp_key (vs_ssrc s)) f sv) viewers);
               key = id_key (fd_camera_id f) (fd_stream_id f)
           in Some (sv\<lparr>ws_frame_queue := q,
                ws_viewers := map (\<lambda>(k, s). (k, if gets_frame f s then s\<lparr>vs_last_activity := now\<rparr> else s)) (ws_viewers sv),
                ws_streams := (case map_of (ws_streams sv) key of
                    None \<Rightarrow> ws_streams sv
                  | Some st \<Rightarrow> AList.update key (st\<lparr>wst_frame_count := wst_frame_count st + 1,
                      wst_bytes_sent := wst_bytes_sent st + of_nat (length (fd_data f))\<rparr>) (ws_streams sv))\<rparr>, sends)))"

definition viewer_timeout :: int where "viewer_timeout = 5 * 60 * 1000000000"

definition viewer_stale :: "int \<Rightarrow> 'p ViewerSession \<Rightarrow> bool" where
  "viewer_stale now session \<longleftrightarrow> \<not> vs_connected session \<or> now - vs_last_activity session > viewer_timeout"

definition cleanupStaleConnections :: "int \<Rightarrow> 'p WebRTCService \<Rightarrow> 'p WebRTCService" where
  "cleanupStaleConnections now sv =
     sv\<lparr>ws_viewers := filter (\<lambda>(k, s). \<not> viewer_stale now s) (ws_viewers sv),
        ws_dropped := ws_dropped sv + of_nat (length (filter (\<lambda>(k, s). viewer_stale now s) (ws_viewers sv)))\<rparr>"

section \<open>Control server\<close>

definition web_stream_stat :: "WebStream \<Rightarrow> (string \<times> json_scalar) list" where
  "web_stream_stat s =
     [(''camera_id'', ScalarInt (uint (wst_camera_id s))), (''stream_id'', ScalarInt (uint (wst_stream_id s))),
      (''codec'', ScalarStr (wst_codec s)), (''width'', ScalarInt (wst_width s)), (''height'', ScalarInt (wst_height s)),
      (''frame_count'', ScalarU64 (wst_frame_count s)), (''bytes_sent'', ScalarU64 (wst_bytes_sent s))]"

definition viewer_stat :: "'p ViewerSession \<Rightarrow> (string \<times> json_scalar) list" where
  "viewer_stat s =
     [(''viewer_id'', ScalarStr (vs_viewer_id s)), (''camera_id'', ScalarInt (uint (vs_camera_id s))),
      (''is_connected'', ScalarBool (vs_connected s)), (''ssrc'', ScalarInt (uint (vs_ssrc s)))]"

datatype wr_reply =
    WrReply "(string \<times> json_scalar) list"
  | WrStats "(string \<times> json_scalar) list" "(string \<times> json_scalar) list list" "(string \<times> json_scalar) list list"
  | WrException
  | WrInvalidJson

definition wr_getStatistics :: "'p WebRTCService \<Rightarrow> wr_reply" where
  "wr_getStatistics sv =
     WrStats [(''total_frames_processed'', ScalarU64 (ws_frames_processed sv)),
       (''total_bytes_processed'', ScalarU64 (ws_bytes_processed sv)),
       (''total_connections_created'', ScalarU64 (ws_created sv)), (''total_connections_dropped'', ScalarU64 (ws_dropped sv)),
       (''success'', ScalarBool True)]
       (map (web_stream_stat \<circ> snd) (ws_streams sv)) (map (viewer_stat \<circ> snd) (ws_viewers sv))"

definition json_at :: "'j json_api \<Rightarrow> 'j \<Rightarrow> string \<Rightarrow> string option" where
  "json_at J cmd member = Option.bind (j_field J cmd member) (j_string J)"

definition wr_process_command ::
  "'j json_api \<Rightarrow> 'p rtc_lib \<Rightarrow> 'p option \<Rightarrow> int \<Rightarrow> 'j \<Rightarrow> 'p WebRTCService \<Rightarrow> 'p WebRTCService \<times> wr_reply" where
  "wr_process_command J R fresh now cmd sv =
     (case (json_at J cmd ''command'', Option.bind (j_field J cmd ''camera_id'') (j_int J), json_at J cmd ''viewer_id'') of
        (Some command, Some c, Some viewer_id) \<Rightarrow>
          (let camera_id = of_int c :: u32;
               response = [(''command'', ScalarStr command), (''camera_id'', ScalarInt (uint camera_id)), (''viewer_id'', ScalarStr viewer_id)];
               success = (\<lambda>ok. WrReply (response @ [(''success'', ScalarBool ok)]))
           in if command = ''create_offer'' then
                (case createOffer R fresh now camera_id viewer_id sv of (sv, offer) \<Rightarrow>
                   (sv, WrReply (response @ [(''offer'', ScalarStr offer), (''success'', ScalarBool (offer \<noteq> []))])))
              else if command = ''set_answer'' then
                (case json_at J cmd ''answer'' of
                   None \<Rightarrow> (sv, WrException)
                 | Some answer \<Rightarrow> apsnd success (setAnswer R now camera_id viewer_id answer sv))
              else if command = ''add_ice_candidate'' then
                (case (json_at J cmd ''candidate'', j_value_string J cmd ''sdp_mid'' []) of
                   (Some candidate, Some sdp_mid) \<Rightarrow> apsnd success (addIceCandidate R now camera_id viewer_id candidate sdp_mid sv)
                 | _ \<Rightarrow> (sv, WrException))
              else if command = ''drop_viewer'' then apsnd success (dropViewer camera_id viewer_id sv)
              else if command = ''get_stats'' then (sv, wr_getStatistics sv)
              else (sv, WrReply (response @ [(''error'', ScalarStr ''Unknown command''), (''success'', ScalarBool False)])))
      | _ \<Rightarrow> (sv, WrException))"

definition wr_handle_line ::
  "'j json_api \<Rightarrow> 'p rtc_lib \<Rightarrow> 'p option \<Rightarrow> int \<Rightarrow> string \<Rightarrow> 'p WebRTCService \<Rightarrow> 'p WebRTCService \<times> wr_reply" where
  "wr_handle_line J R fresh now line sv =
     (let line = (if line \<noteq> [] \<and> last line = char_of (13 :: nat) then butlast line else line) in
      case j_parse J line of None \<Rightarrow> (sv, WrInvalidJson) | Some cmd \<Rightarrow> wr_process_command J R fresh now cmd sv)"

section \<open>Service and plugin\<close>

definition wr_initialize :: "'p WebRTCService \<Rightarrow> 'p WebRTCService" where
  "wr_initialize sv = (if ws_running sv then sv else sv\<lparr>ws_running := True, ws_tracks := []\<rparr>)"

definition wr_shutdown :: "'p WebRTCService \<Rightarrow> 'p WebRTCService" where
  "wr_shutdown sv = sv\<lparr>ws_running := False, ws_control := map_option (\<lambda>_. False) (ws_control sv), ws_viewers := [], ws_streams := []\<rparr>"

text \<open>\<open>listening\<close>: the server could bind its port.\<close>

definition wr_startControlServer :: "bool \<Rightarrow> 'p WebRTCService \<Rightarrow> 'p WebRTCService" where
  "wr_startControlServer listening sv = sv\<lparr>ws_control := Some listening\<rparr>"

record WebRTCPluginInstance =
  wp_camera_id :: u32
  wp_stream_id :: u32
  wp_codec :: string

text \<open>The members are read in the order of the code; an exception or no configuration gives -1.\<close>

definition webrtc_parse_config :: "'j json_api \<Rightarrow> string option \<Rightarrow> WebRTCPluginInstance option" where
  "webrtc_parse_config J json_cfg =
     Option.bind (Option.bind json_cfg (j_parse J)) (\<lambda>config.
     Option.bind (j_value_int J config ''camera_id'' 0) (\<lambda>camera_id.
     Option.bind (j_value_int J config ''stream_id'' 0) (\<lambda>stream_id.
     Option.bind (j_value_string J config ''codec'' ''h264'') (\<lambda>codec.
     Some \<lparr>wp_camera_id = of_int camera_id, wp_stream_id = of_int stream_id, wp_codec = codec\<rparr>))))"

definition webrtc_start ::
  "'j json_api \<Rightarrow> bool \<Rightarrow> string option \<Rightarrow> 'p WebRTCService \<Rightarrow> 'p WebRTCService \<times> WebRTCPluginInstance option" where
  "webrtc_start J listening json_cfg sv =
     (case webrtc_parse_config J json_cfg of
        None \<Rightarrow> (sv, None)
      | Some p \<Rightarrow>
          (let sv = (if ws_once sv then sv else wr_startControlServer listening (wr_initialize (sv\<lparr>ws_once := True\<rparr>)))
           in (wr_registerStream (wp_camera_id p) (wp_stream_id p) (wp_codec p) None sv, Some p)))"

text \<open>The destructor of the instance takes the stream out a second time.\<close>

definition webrtc_stop :: "WebRTCPluginInstance \<Rightarrow> 'p WebRTCService \<Rightarrow> 'p WebRTCService" where
  "webrtc_stop p sv =
     wr_unregisterStream (wp_camera_id p) (wp_stream_id p) (wr_unregisterStream (wp_camera_id p) (wp_stream_id p) sv)"

definition webrtc_on_frame :: "WebRTCPluginInstance option \<Rightarrow> bytes \<Rightarrow> 'p WebRTCService \<Rightarrow> 'p WebRTCService" where
  "webrtc_on_frame instance buf sv =
     (if instance = None \<or> length buf < sizeof_frame_hdr then sv
      else if fh_hw_type (frame_hdr buf) = ZM_FRAME_COMPRESSED_AUDIO then sv
      else wr_pushFrame (frame_hdr buf) (drop sizeof_frame_hdr buf) sv)"

section \<open>Runs\<close>

text \<open>
  What can happen to the service. \<open>Line\<close> is a command of a client with the connection that the library would
  create for it.
\<close>

datatype 'p wr_input =
    WrStart bool "string option"
  | WrStop WebRTCPluginInstance
  | WrFrame "WebRTCPluginInstance option" bytes
  | WrProcess int
  | WrCleanup int
  | WrLine "'p option" int string

datatype wr_out = Sent sent | Reply wr_reply

fun wr_step :: "'j json_api \<Rightarrow> 'p rtc_lib \<Rightarrow> 'p wr_input \<Rightarrow> 'p WebRTCService \<Rightarrow> 'p WebRTCService \<times> wr_out list" where
  "wr_step J R (WrStart listening cfg) sv = (fst (webrtc_start J listening cfg sv), [])"
| "wr_step J R (WrStop p) sv = (webrtc_stop p sv, [])"
| "wr_step J R (WrFrame p buf) sv = (webrtc_on_frame p buf sv, [])"
| "wr_step J R (WrProcess now) sv =
     (case process_frame now sv of None \<Rightarrow> (sv, []) | Some (sv, sends) \<Rightarrow> (sv, map Sent sends))"
| "wr_step J R (WrCleanup now) sv = (cleanupStaleConnections now sv, [])"
| "wr_step J R (WrLine fresh now line) sv =
     (if ws_control sv = Some True then apsnd (\<lambda>r. [Reply r]) (wr_handle_line J R fresh now line sv) else (sv, []))"

fun wr_run :: "'j json_api \<Rightarrow> 'p rtc_lib \<Rightarrow> 'p wr_input list \<Rightarrow> 'p WebRTCService \<Rightarrow> 'p WebRTCService \<times> wr_out list" where
  "wr_run J R [] sv = (sv, [])"
| "wr_run J R (x # xs) sv =
     (case wr_step J R x sv of (sv, out) \<Rightarrow> (case wr_run J R xs sv of (sv, outs) \<Rightarrow> (sv, out @ outs)))"

section \<open>The frame queue as a queue\<close>

definition frame_deq :: "FrameData list \<Rightarrow> (FrameData \<times> FrameData list) option" where
  "frame_deq q = (case q of [] \<Rightarrow> None | f # q \<Rightarrow> Some (f, q))"

lemma enqueue_frame_newest:
  "length q \<le> max_frames + 1 \<Longrightarrow> enqueue_frame f q = newest (max_frames + 1) (q @ [f])"
  using newest_snoc [of "max_frames + 1" q f] by (auto simp: enqueue_frame_def Suc_le_eq)

interpretation webrtc_q: dropping_fifo "\<lambda>q. length q \<le> max_frames + 1" "\<lambda>q. q" frame_deq enqueue_frame
    "\<lambda>_. max_frames + 1" "\<lambda>_. True"
  by unfold_locales (auto simp: frame_deq_def enqueue_frame_newest split: list.splits)

end
