(* ===== verification/Webrtc_Properties.thy ===== *)
theory Webrtc_Properties
  imports Webrtc
begin

text \<open>
  What the WebRTC output promises: the sessions stay apart, a frame goes to the viewers of its camera only, and
  a connected viewer gets the newest frames of a burst in order.
\<close>

section \<open>Keys\<close>

lemma nat_digits_inj: "nat_digits m = nat_digits n \<Longrightarrow> m = n"
  by (metis nat_digits_props)

lemma to_string_uint_inj: "to_string (uint (a :: u32)) = to_string (uint b) \<Longrightarrow> a = b"
  using nat_digits_inj [of "nat (uint a)" "nat (uint b)"] by (simp add: to_string_def word_unat_eq_iff)

lemma rtp_key_inj [simp]: "rtp_key a = rtp_key b \<longleftrightarrow> a = b"
  using to_string_uint_inj by (auto simp: rtp_key_def)

lemma colon_not_digit: "CHR '':'' \<notin> set (to_string (uint (a :: u32)))"
proof -
  have "CHR '':'' \<notin> set (nat_digits (nat (uint a)))"
    using nat_digits_props [of "nat (uint a)"] by (auto simp: is_digit_char_def)
  then show ?thesis by (simp add: to_string_def)
qed

text \<open>The first colon ends the camera, so the keys of two viewers differ, whatever their identifiers hold.\<close>

lemma split_at_first: "\<lbrakk>a @ c # s = b @ c # t; c \<notin> set a; c \<notin> set b\<rbrakk> \<Longrightarrow> a = b \<and> s = t"
  by (induction a arbitrary: b) (force simp: Cons_eq_append_conv append_eq_Cons_conv)+

lemma viewer_key_inj: "viewer_key a v = viewer_key b w \<longleftrightarrow> a = b \<and> v = w"
  using split_at_first [of "to_string (uint a)" "CHR '':''" v "to_string (uint b)" w] colon_not_digit [of a] colon_not_digit [of b]
    to_string_uint_inj [of a b]
  by (auto simp: viewer_key_def)

section \<open>The invariant\<close>

text \<open>The parts of a session that never change.\<close>

definition vsig :: "'p ViewerSession \<Rightarrow> u32 \<times> string \<times> u32" where
  "vsig s = (vs_camera_id s, vs_viewer_id s, vs_ssrc s)"

abbreviation vsigs :: "(string \<times> 'p ViewerSession) list \<Rightarrow> (string \<times> u32 \<times> string \<times> u32) list" where
  "vsigs vs \<equiv> map (\<lambda>(k, s). (k, vsig s)) vs"

definition sessions_ok :: "string list \<Rightarrow> u32 \<Rightarrow> (string \<times> u32 \<times> string \<times> u32) list \<Rightarrow> bool" where
  "sessions_ok tracks bound vs \<longleftrightarrow>
     distinct (map fst vs) \<and> distinct (map (snd \<circ> snd \<circ> snd) vs) \<and>
     (\<forall>(k, cam, vid, ssrc) \<in> set vs. k = viewer_key cam vid \<and> rtp_key ssrc \<in> set tracks \<and> ssrc < bound)"

definition frames_ok :: "FrameData list \<Rightarrow> bool" where
  "frames_ok q \<longleftrightarrow> length q \<le> max_frames + 1 \<and> (\<forall>f \<in> set q. fd_camera_id f \<noteq> 0 \<and> fd_data f \<noteq> [])"

definition webrtc_ok :: "nat \<Rightarrow> 'p WebRTCService \<Rightarrow> bool" where
  "webrtc_ok n sv \<longleftrightarrow>
     sessions_ok (ws_tracks sv) (ws_next_ssrc sv) (vsigs (ws_viewers sv)) \<and> frames_ok (ws_frame_queue sv) \<and>
     unat (ws_next_ssrc sv) \<le> 1000 + n \<and> (if ws_once sv then ws_running sv else ws_control sv = None \<and> ws_viewers sv = [])"

lemma webrtc_ok_init: "webrtc_ok 0 WebRTCService_init"
  by (simp add: webrtc_ok_def WebRTCService_init_def sessions_ok_def frames_ok_def)

lemma sessions_ok_filter: "sessions_ok t b vs \<Longrightarrow> sessions_ok t b (filter P vs)"
  by (auto simp: sessions_ok_def distinct_filter_keys distinct_map_filter)

lemma sessions_ok_snoc:
  assumes "sessions_ok t b vs" "viewer_key cam vid \<notin> fst ` set vs" "b < b + 1"
  shows "sessions_ok (List.insert (rtp_key b) t) (b + 1) (vs @ [(viewer_key cam vid, cam, vid, b)])"
  using assms by (fastforce simp: sessions_ok_def)

lemma vsigs_update_same: "\<lbrakk>map_of vs k = Some s; vsig s' = vsig s\<rbrakk> \<Longrightarrow> vsigs (AList.update k s' vs) = vsigs vs"
  by (induction vs) (auto split: if_splits)

lemma vsigs_delete: "vsigs (AList.delete k vs) = filter (\<lambda>p. fst p \<noteq> k) (vsigs vs)"
  by (induction vs) (auto simp: AList.delete_eq)

lemma fst_vsigs [simp]: "map fst (vsigs vs) = map fst vs" "fst ` set (vsigs vs) = fst ` set vs"
  by (auto simp: case_prod_beta' image_image)

section \<open>Every step keeps it\<close>

lemma set_viewer_ok:
  "\<lbrakk>webrtc_ok n sv; map_of (ws_viewers sv) key = Some s; vsig s' = vsig s\<rbrakk> \<Longrightarrow> webrtc_ok n (set_viewer key s' sv)"
  by (cases "ws_once sv") (auto simp: webrtc_ok_def set_viewer_def vsigs_update_same)

lemma webrtc_ok_mono: "webrtc_ok n sv \<Longrightarrow> n \<le> m \<Longrightarrow> webrtc_ok m sv"
  by (simp add: webrtc_ok_def)

lemma webrtc_ok_Suc: "webrtc_ok n sv \<Longrightarrow> webrtc_ok (Suc n) sv"
  by (simp add: webrtc_ok_def)

lemma dropped_keeps [simp]:
  "webrtc_ok n (sv\<lparr>ws_dropped := d\<rparr>) = webrtc_ok n sv" "webrtc_ok n (sv\<lparr>ws_created := d\<rparr>) = webrtc_ok n sv"
  "webrtc_ok n (sv\<lparr>ws_streams := st\<rparr>) = webrtc_ok n sv"
  "webrtc_ok n (sv\<lparr>ws_frames_processed := d\<rparr>) = webrtc_ok n sv" "webrtc_ok n (sv\<lparr>ws_bytes_processed := d\<rparr>) = webrtc_ok n sv"
  by (simp_all add: webrtc_ok_def)

lemma update_viewers_ok:
  assumes "webrtc_ok n sv" "vsigs vs = filter P (vsigs (ws_viewers sv))"
  shows "webrtc_ok n (sv\<lparr>ws_viewers := vs\<rparr>)"
proof -
  have "vs = []" if "ws_viewers sv = []" using that assms(2) by simp
  then show ?thesis using assms sessions_ok_filter by (auto simp: webrtc_ok_def)
qed

lemma delete_viewer_ok: "webrtc_ok n sv \<Longrightarrow> webrtc_ok n (sv\<lparr>ws_viewers := AList.delete key (ws_viewers sv)\<rparr>)"
  by (erule update_viewers_ok) (rule vsigs_delete)

lemma dropViewer_ok: "webrtc_ok n sv \<Longrightarrow> webrtc_ok n (fst (dropViewer cam vid sv))"
  using delete_viewer_ok [of n sv] by (simp add: dropViewer_def Let_def)

lemma vsigs_filter: "vsigs (filter (\<lambda>(k, s). P s) vs) = filter (\<lambda>p. \<exists>k s. p = (k, vsig s) \<and> P s \<and> (k, s) \<in> set vs) (vsigs vs)
    \<or> \<not> distinct (map fst vs)"
proof (induction vs)
  case (Cons e vs)
  obtain k s where e: "e = (k, s)" by fastforce
  show ?case
  proof (cases "distinct (map fst (e # vs))")
    case True
    have 1: "filter (\<lambda>p. \<exists>k s. p = (k, vsig s) \<and> P s \<and> (k, s) \<in> set (e # vs)) (vsigs vs) =
        filter (\<lambda>p. \<exists>k s. p = (k, vsig s) \<and> P s \<and> (k, s) \<in> set vs) (vsigs vs)"
      using True by (intro filter_cong) (force simp: e)+
    have 2: "(\<exists>k' s'. (k, vsig s) = (k', vsig s') \<and> P s' \<and> (k', s') \<in> set (e # vs)) \<longleftrightarrow> P s"
      using True by (force simp: e)
    show ?thesis using Cons True 1 2 by (simp add: e)
  qed simp
qed simp

lemma distinct_viewers: "webrtc_ok n sv \<Longrightarrow> distinct (map fst (ws_viewers sv))"
  by (simp add: webrtc_ok_def sessions_ok_def case_prod_beta' comp_def)

lemma cleanup_ok: "webrtc_ok n sv \<Longrightarrow> webrtc_ok n (cleanupStaleConnections now sv)"
  unfolding cleanupStaleConnections_def
  using update_viewers_ok [of n sv "filter (\<lambda>(k, s). \<not> viewer_stale now s) (ws_viewers sv)"]
    vsigs_filter [of "\<lambda>s. \<not> viewer_stale now s" "ws_viewers sv"] distinct_viewers [of n sv]
  by auto

lemma alist_update_new: "k \<notin> fst ` set xs \<Longrightarrow> AList.update k v xs = xs @ [(k, v)]"
  by (induction xs) auto

lemma createViewer_ok:
  assumes ok: "webrtc_ok n sv" and on: "ws_once sv" and small: "n < 2 ^ 32 - 1001"
    and r: "createViewerSession R fresh now cam vid sv = (sv', r)"
  shows "webrtc_ok (Suc n) sv' \<and> ws_once sv' \<and>
    (\<forall>s. r = Some s \<longrightarrow> map_of (ws_viewers sv') (viewer_key cam vid) = Some s)"
proof -
  let ?k = "viewer_key cam vid"
  let ?vs = "AList.delete ?k (ws_viewers sv)"
  let ?b = "ws_next_ssrc sv"
  have b: "?b < ?b + 1" "unat (?b + 1) = unat ?b + 1"
    using ok small by (auto simp: webrtc_ok_def word_less_nat_alt unat_word_ariths)
  have d: "sessions_ok (ws_tracks sv) ?b (vsigs ?vs)"
    using delete_viewer_ok [OF ok, of ?k] by (simp add: webrtc_ok_def)
  have fresh_key: "?k \<notin> fst ` set (vsigs ?vs)"
    using delete_notin_dom [of ?k "ws_viewers sv"] by (simp only: fst_vsigs not_False_eq_True)
  have mono: "sessions_ok (ws_tracks sv) (?b + 1) (vsigs ?vs)"
    using d b(1) by (fastforce simp: sessions_ok_def)
  have upd: "AList.update ?k s ?vs = ?vs @ [(?k, s)]" for s
    by (rule alist_update_new) (rule delete_notin_dom)
  show ?thesis
    using ok on r mono sessions_ok_snoc [OF d fresh_key b(1)] b(2)
    by (auto simp: createViewerSession_def Let_def webrtc_ok_def upd vsig_def delete_conv' map_add_def split: option.splits)
qed

lemma createOffer_ok:
  assumes ok: "webrtc_ok n sv" and on: "ws_once sv" and small: "n < 2 ^ 32 - 1001"
  shows "webrtc_ok (Suc n) (fst (createOffer R fresh now cam vid sv))"
proof -
  obtain sv' r where c: "createViewerSession R fresh now cam vid sv = (sv', r)" by (metis surj_pair)
  note k = createViewer_ok [OF ok on small c]
  show ?thesis
  proof (cases r)
    case (Some s)
    obtain pc d where o: "rtc_offer R (vs_peer s) = (pc, d)" by (metis surj_pair)
    have "webrtc_ok (Suc n) (set_viewer (viewer_key cam vid) (s\<lparr>vs_peer := pc\<rparr>) sv')"
      using k Some by (intro set_viewer_ok) (auto simp: vsig_def)
    then show ?thesis using c Some o by (simp add: createOffer_def Let_def split: option.split)
  qed (use k c in \<open>simp add: createOffer_def\<close>)
qed

lemma setAnswer_ok: "webrtc_ok n sv \<Longrightarrow> webrtc_ok n (fst (setAnswer R now cam vid a sv))"
  by (auto simp: setAnswer_def Let_def vsig_def intro!: set_viewer_ok split: option.splits prod.splits)

lemma addIceCandidate_ok: "webrtc_ok n sv \<Longrightarrow> webrtc_ok n (fst (addIceCandidate R now cam vid a b sv))"
  by (auto simp: addIceCandidate_def Let_def vsig_def intro!: set_viewer_ok split: option.splits prod.splits)

lemma process_command_ok:
  assumes ok: "webrtc_ok n sv" and on: "ws_once sv" and small: "n < 2 ^ 32 - 1001"
  shows "webrtc_ok (Suc n) (fst (wr_process_command J R fresh now cmd sv))"
proof -
  have m: "webrtc_ok (Suc n) x" if "webrtc_ok n x" for x :: "'a WebRTCService" using that by (rule webrtc_ok_mono) simp
  note keep = m [OF ok] m [OF setAnswer_ok [OF ok]] m [OF addIceCandidate_ok [OF ok]] m [OF dropViewer_ok [OF ok]]
    createOffer_ok [OF ok on small]
  show ?thesis
    unfolding wr_process_command_def Let_def
    by (simp add: keep case_prod_beta split: option.split)
qed

lemma vsigs_touch: "vsigs (map (\<lambda>(k, s). (k, if P s then s\<lparr>vs_last_activity := now\<rparr> else s)) vs) = vsigs vs"
  by (auto simp: vsig_def)

lemma process_frame_ok: "\<lbrakk>webrtc_ok n sv; process_frame now sv = Some (sv', sends)\<rbrakk> \<Longrightarrow> webrtc_ok n sv'"
  by (auto simp: process_frame_def Let_def webrtc_ok_def frames_ok_def vsigs_touch simp del: map_map split: list.splits)

text \<open>The frame that a push puts into the queue.\<close>

definition accepted :: "'p WebRTCService \<Rightarrow> zm_frame_hdr \<times> bytes \<Rightarrow> FrameData option" where
  "accepted sv = (\<lambda>(hdr, data).
     if \<not> ws_running sv \<or> data = [] \<or> camera_of_stream (fh_stream_id hdr) sv = 0 then None
     else Some \<lparr>fd_data = data, fd_timestamp = fh_pts_usec hdr, fd_keyframe = ((fh_flags hdr AND 1) \<noteq> 0),
       fd_camera_id = camera_of_stream (fh_stream_id hdr) sv, fd_stream_id = fh_stream_id hdr\<rparr>)"

lemma pushFrame_queue:
  "ws_frame_queue (wr_pushFrame hdr data sv) =
    (case accepted sv (hdr, data) of None \<Rightarrow> ws_frame_queue sv | Some f \<Rightarrow> enqueue_frame f (ws_frame_queue sv))"
  by (simp add: wr_pushFrame_def accepted_def Let_def)

lemma pushFrame_keeps [simp]:
  "ws_streams (wr_pushFrame hdr data sv) = ws_streams sv" "ws_running (wr_pushFrame hdr data sv) = ws_running sv"
  "ws_viewers (wr_pushFrame hdr data sv) = ws_viewers sv" "ws_tracks (wr_pushFrame hdr data sv) = ws_tracks sv"
  "ws_next_ssrc (wr_pushFrame hdr data sv) = ws_next_ssrc sv" "ws_once (wr_pushFrame hdr data sv) = ws_once sv"
  "ws_control (wr_pushFrame hdr data sv) = ws_control sv"
  by (simp_all add: wr_pushFrame_def Let_def)

lemma accepted_sound: "accepted sv p = Some f \<Longrightarrow> fd_camera_id f \<noteq> 0 \<and> fd_data f \<noteq> []"
  by (auto simp: accepted_def split: prod.splits if_splits)

lemma enqueue_ok: "\<lbrakk>frames_ok q; fd_camera_id f \<noteq> 0; fd_data f \<noteq> []\<rbrakk> \<Longrightarrow> frames_ok (enqueue_frame f q)"
  by (cases q) (auto simp: frames_ok_def enqueue_frame_def)

lemma pushFrame_ok: "webrtc_ok n sv \<Longrightarrow> webrtc_ok n (wr_pushFrame hdr data sv)"
  using accepted_sound [of sv "(hdr, data)"] enqueue_ok
  by (auto simp: webrtc_ok_def pushFrame_queue split: option.split)

lemma start_ok: "webrtc_ok n sv \<Longrightarrow> webrtc_ok n (fst (webrtc_start J listening cfg sv))"
  by (auto simp: webrtc_start_def Let_def wr_registerStream_def wr_startControlServer_def wr_initialize_def webrtc_ok_def
      sessions_ok_def split: option.split if_splits)

lemma handle_line_ok:
  assumes "webrtc_ok n sv" "ws_once sv" "n < 2 ^ 32 - 1001"
  shows "webrtc_ok (Suc n) (fst (wr_handle_line J R fresh now line sv))"
  unfolding wr_handle_line_def Let_def
  by (simp add: process_command_ok [OF assms] webrtc_ok_Suc [OF assms(1)] split: option.split)

lemma wr_step_ok: "\<lbrakk>webrtc_ok n sv; n < 2 ^ 32 - 1001; wr_step J R x sv = (sv', out)\<rbrakk> \<Longrightarrow> webrtc_ok (Suc n) sv'"
proof (induction J R x sv rule: wr_step.induct)
  case (1 J R listening cfg sv)
  from webrtc_ok_Suc [OF start_ok [OF 1(1), of J listening cfg]] 1(3) show ?case by simp
next
  case (2 J R p sv)
  then show ?case by (auto simp: webrtc_stop_def wr_unregisterStream_def intro: webrtc_ok_mono)
next
  case (3 J R p buf sv)
  then show ?case by (auto simp: webrtc_on_frame_def intro: webrtc_ok_mono pushFrame_ok split: if_splits)
next
  case (4 J R now sv)
  then show ?case by (auto intro: webrtc_ok_mono process_frame_ok split: option.splits)
next
  case (5 J R now sv)
  then show ?case by (auto intro: webrtc_ok_mono cleanup_ok)
next
  case (6 J R fresh now line sv)
  have "ws_once sv" if "ws_control sv = Some True" using 6(1) that by (cases "ws_once sv") (auto simp: webrtc_ok_def)
  then show ?case
    using 6(2,3) handle_line_ok [OF 6(1) _ 6(2), of J R fresh now line] webrtc_ok_Suc [OF 6(1)]
    by (cases "ws_control sv = Some True") (auto simp: apsnd_def map_prod_def split: prod.splits)
qed

lemma wr_run_ok:
  "\<lbrakk>webrtc_ok n sv; n + length xs < 2 ^ 32 - 1001; wr_run J R xs sv = (sv', outs)\<rbrakk> \<Longrightarrow> webrtc_ok (n + length xs) sv'"
proof (induction J R xs sv arbitrary: n outs sv' rule: wr_run.induct)
  case (2 J R x xs sv)
  obtain sv1 out where s: "wr_step J R x sv = (sv1, out)" by (metis surj_pair)
  obtain sv2 rest where r: "wr_run J R xs sv1 = (sv2, rest)" by (metis surj_pair)
  have "webrtc_ok (Suc n) sv1" by (rule wr_step_ok [OF 2(2) _ s]) (use 2(3) in simp)
  from 2(1) [OF s [symmetric] this _ r] 2(3,4) s r show ?case by simp
qed simp

section \<open>Frames stay with their camera\<close>

lemma process_frame_sends:
  assumes "process_frame now sv = Some (sv', sends)" "(key, f) \<in> set sends"
  shows "\<exists>q. ws_frame_queue sv = f # q \<and> (\<exists>(k, s) \<in> set (ws_viewers sv). gets_frame f s \<and> key = rtp_key (vs_ssrc s))"
  using assms
  by (force simp: process_frame_def Let_def sendFrame_def simp del: rtp_key_inj split: list.splits if_splits)

lemma step_sent:
  "\<lbrakk>wr_step J R x sv = (sv', out); Sent e \<in> set out\<rbrakk> \<Longrightarrow> \<exists>now sends. process_frame now sv = Some (sv', sends) \<and> e \<in> set sends"
  by (cases x) (fastforce simp: apsnd_def map_prod_def split: option.splits if_splits prod.splits)+

lemma distinct_ssrc:
  assumes "webrtc_ok n sv" "(k, s) \<in> set (ws_viewers sv)" "(k', s') \<in> set (ws_viewers sv)" "vs_ssrc s = vs_ssrc s'"
  shows "(k', s') = (k, s)"
proof -
  have "distinct (map (\<lambda>p. vs_ssrc (snd p)) (ws_viewers sv))"
    using assms(1) by (simp add: webrtc_ok_def sessions_ok_def comp_def case_prod_beta' vsig_def)
  then have "inj_on (\<lambda>p. vs_ssrc (snd p)) (set (ws_viewers sv))" by (simp add: distinct_map)
  from inj_onD [OF this, of "(k', s')" "(k, s)"] assms(2-4) show ?thesis by simp
qed


section \<open>A viewer's stream\<close>

fun drain :: "int list \<Rightarrow> 'p WebRTCService \<Rightarrow> 'p WebRTCService \<times> sent list" where
  "drain [] sv = (sv, [])"
| "drain (now # nows) sv =
     (case process_frame now sv of
        None \<Rightarrow> (sv, [])
      | Some (sv, sends) \<Rightarrow> (case drain nows sv of (sv, rest) \<Rightarrow> (sv, sends @ rest)))"

definition sent_to :: "u32 \<Rightarrow> sent list \<Rightarrow> sent list" where
  "sent_to ssrc sends = filter (\<lambda>e. fst e = rtp_key ssrc) sends"

lemma sent_to_append [simp]: "sent_to r (xs @ ys) = sent_to r xs @ sent_to r ys" "sent_to r [] = []"
  by (simp_all add: sent_to_def)

lemma sends_of_one:
  "\<lbrakk>distinct (map vs_ssrc ss); \<forall>s \<in> set ss. rtp_key (vs_ssrc s) \<in> set (ws_tracks sv); s \<in> set ss\<rbrakk> \<Longrightarrow>
    sent_to (vs_ssrc s) (concat (map (\<lambda>s. sendFrame (rtp_key (vs_ssrc s)) f sv) (filter P ss))) =
      (if P s then [(rtp_key (vs_ssrc s), f)] else [])"
proof (induction ss)
  case (Cons a ss)
  have none: "sent_to (vs_ssrc a) (concat (map (\<lambda>s. sendFrame (rtp_key (vs_ssrc s)) f sv) (filter P ss))) = []"
    using Cons.prems(1) by (auto simp: sent_to_def filter_empty_conv sendFrame_def image_iff split: if_splits)
  show ?case
  proof (cases "s = a")
    case True
    then show ?thesis using Cons.prems none by (auto simp: sent_to_def sendFrame_def)
  next
    case False
    then have "vs_ssrc s \<noteq> vs_ssrc a" using Cons.prems by (auto simp: image_iff)
    with False show ?thesis using Cons by (auto simp: sent_to_def sendFrame_def)
  qed
qed simp

lemma session_facts:
  assumes "webrtc_ok n sv"
  shows "distinct (map vs_ssrc (map snd (ws_viewers sv)))"
    and "\<forall>s \<in> set (map snd (ws_viewers sv)). rtp_key (vs_ssrc s) \<in> set (ws_tracks sv)"
  using assms by (auto simp: webrtc_ok_def sessions_ok_def vsig_def comp_def case_prod_beta')

text \<open>A live session \<open>s\<close> whose viewer has answered.\<close>

definition live :: "u32 \<times> string \<times> u32 \<Rightarrow> 'p WebRTCService \<Rightarrow> bool" where
  "live sg sv \<longleftrightarrow> (\<exists>s \<in> snd ` set (ws_viewers sv). vsig s = sg \<and> vs_connected s)"

lemma process_frame_live:
  assumes "webrtc_ok n sv" "live (cam, vid, ssrc) sv" "process_frame now sv = Some (sv', sends)" "ws_frame_queue sv = f # q"
  shows "webrtc_ok n sv' \<and> live (cam, vid, ssrc) sv' \<and> ws_frame_queue sv' = q \<and>
    sent_to ssrc sends = (if fd_camera_id f = cam then [(rtp_key ssrc, f)] else [])"
proof -
  obtain k s where s: "(k, s) \<in> set (ws_viewers sv)" "vsig s = (cam, vid, ssrc)" "vs_connected s"
    using assms(2) by (auto simp: live_def)
  have "live (cam, vid, ssrc) sv'"
    using s assms(3,4) by (force simp: live_def process_frame_def Let_def vsig_def)
  moreover have "sent_to ssrc sends = (if gets_frame f s then [(rtp_key ssrc, f)] else [])"
    using sends_of_one [OF session_facts [OF assms(1)], of s f "gets_frame f"] s assms(3,4)
    by (force simp: process_frame_def Let_def vsig_def)
  ultimately show ?thesis
    using process_frame_ok [OF assms(1,3)] assms(3,4) s by (auto simp: process_frame_def Let_def gets_frame_def vsig_def)
qed

lemma drain_sends:
  "\<lbrakk>webrtc_ok n sv; live (cam, vid, ssrc) sv; length (ws_frame_queue sv) \<le> length nows\<rbrakk> \<Longrightarrow>
    sent_to ssrc (snd (drain nows sv)) = map (Pair (rtp_key ssrc)) (filter (\<lambda>f. fd_camera_id f = cam) (ws_frame_queue sv))"
proof (induction nows sv rule: drain.induct)
  case (2 now nows sv)
  show ?case
  proof (cases "ws_frame_queue sv")
    case Nil
    then show ?thesis by (simp add: process_frame_def)
  next
    case (Cons f q)
    obtain sv' sends where p: "process_frame now sv = Some (sv', sends)" using Cons by (simp add: process_frame_def Let_def)
    note k = process_frame_live [OF 2(2,3) p Cons]
    have "sent_to ssrc (snd (drain nows sv')) = map (Pair (rtp_key ssrc)) (filter (\<lambda>f. fd_camera_id f = cam) q)"
      using 2(1) [OF p refl] k 2(4) Cons by simp
    then show ?thesis using k p Cons by (simp add: case_prod_beta)
  qed
qed simp

lemma accepted_cong: "\<lbrakk>ws_streams sv' = ws_streams sv; ws_running sv' = ws_running sv\<rbrakk> \<Longrightarrow> accepted sv' = accepted sv"
proof -
  assume r: "ws_streams sv' = ws_streams sv" "ws_running sv' = ws_running sv"
  then have "camera_of_stream i sv' = camera_of_stream i sv" for i by (simp add: camera_of_stream_def)
  then show ?thesis by (simp add: accepted_def r cong: if_cong)
qed

abbreviation push_all :: "(zm_frame_hdr \<times> bytes) list \<Rightarrow> 'p WebRTCService \<Rightarrow> 'p WebRTCService" where
  "push_all \<equiv> fold (\<lambda>(hdr, data). wr_pushFrame hdr data)"

lemma push_all_queue: "ws_frame_queue (push_all ps sv) = fold enqueue_frame (List.map_filter (accepted sv) ps) (ws_frame_queue sv)"
proof (induction ps arbitrary: sv)
  case (Cons p ps)
  obtain hdr data where p: "p = (hdr, data)" by fastforce
  have "accepted (wr_pushFrame hdr data sv) = accepted sv" by (rule accepted_cong) simp_all
  with Cons show ?case by (simp add: p pushFrame_queue map_filter_simps split: option.split)
qed (simp add: map_filter_simps)

lemma push_all_ok: "webrtc_ok n sv \<Longrightarrow> webrtc_ok n (push_all ps sv)"
  by (induction ps arbitrary: sv) (auto intro: pushFrame_ok)

lemma push_all_viewers [simp]: "ws_viewers (push_all ps sv) = ws_viewers sv"
  by (induction ps arbitrary: sv) auto


section \<open>An example\<close>

definition wr_texts :: "string \<rightharpoonup> jdoc" where
  "wr_texts = map_of [
     (''cfg7'', JObj [(''camera_id'', JInt 7), (''stream_id'', JInt 3)]),
     (''cfg8'', JObj [(''camera_id'', JInt 8), (''stream_id'', JInt 4)]),
     (''offer'', JObj [(''command'', JStr ''create_offer''), (''camera_id'', JInt 7), (''viewer_id'', JStr ''ann'')]),
     (''offer8'', JObj [(''command'', JStr ''create_offer''), (''camera_id'', JInt 8), (''viewer_id'', JStr ''ann'')]),
     (''answer'', JObj [(''command'', JStr ''set_answer''), (''camera_id'', JInt 7), (''viewer_id'', JStr ''ann''), (''answer'', JStr ''sdp'')]),
     (''answer8'', JObj [(''command'', JStr ''set_answer''), (''camera_id'', JInt 8), (''viewer_id'', JStr ''ann''), (''answer'', JStr ''sdp'')])]"

definition demo_rtc :: "nat rtc_lib" where
  "demo_rtc = \<lparr>rtc_add_track = (\<lambda>ssrc p. Some p), rtc_offer = (\<lambda>p. (p, Some (Some ''v=0''))),
     rtc_answer = (\<lambda>a p. (p + 1, a \<noteq> [])), rtc_candidate = (\<lambda>c m p. (p, c \<noteq> []))\<rparr>"

definition wr_demo_video :: "u32 \<Rightarrow> bytes" where
  "wr_demo_video sid = frame_hdr_bytes \<lparr>fh_stream_id = sid, fh_hw_type = 100, fh_handle = 0, fh_bytes = 2, fh_flags = 1, fh_pts_usec = 40\<rparr> @ [9, 5]"

definition wr_demo_inputs :: "nat wr_input list" where
  "wr_demo_inputs = [WrStart True (Some ''cfg7''), WrStart True (Some ''cfg8''), WrLine (Some 0) 1 ''offer'', WrLine (Some 0) 2 ''offer8'',
     WrLine None 3 ''answer'', WrLine None 4 ''answer8'']"

abbreviation "wr_demo_instance \<equiv> \<lparr>wp_camera_id = 7, wp_stream_id = 3, wp_codec = ''h264''\<rparr>"

definition wr_demo_state :: "nat WebRTCService" where
  "wr_demo_state = fst (wr_run (jdoc_api wr_texts) demo_rtc wr_demo_inputs WebRTCService_init)"

definition wr_demo_state2 :: "nat WebRTCService" where
  "wr_demo_state2 = fst (wr_run (jdoc_api wr_texts) demo_rtc (wr_demo_inputs @ [WrFrame (Some wr_demo_instance) (wr_demo_video 4)]) WebRTCService_init)"

lemma wr_demo_sends:
  "snd (wr_step (jdoc_api wr_texts) demo_rtc (WrProcess 5) wr_demo_state2) =
    [Sent (''1001'', \<lparr>fd_data = [9, 5], fd_timestamp = 40, fd_keyframe = True, fd_camera_id = 8, fd_stream_id = 4\<rparr>)]"
  by code_simp

lemma wr_demo_ready:
  "ws_frame_queue wr_demo_state = []" "map (vsig \<circ> snd) (ws_viewers wr_demo_state) = [(7, ''ann'', 1000), (8, ''ann'', 1001)]"
  "map (vs_connected \<circ> snd) (ws_viewers wr_demo_state) = [True, True]"
  by code_simp+

lemma run_pair: "wr_run J R xs sv = (fst (wr_run J R xs sv), snd (wr_run J R xs sv))"
  by simp


abbreviation wr_demo_burst :: "(zm_frame_hdr \<times> bytes) list" where
  "wr_demo_burst \<equiv> [(frame_hdr (wr_demo_video 3), [1]), (frame_hdr (wr_demo_video 4), [2]), (frame_hdr (wr_demo_video 3), [3])]"

lemma wr_demo_accepted:
  "map fd_data (filter (\<lambda>f. fd_camera_id f = 7) (newest (max_frames + 1) (List.map_filter (accepted wr_demo_state) wr_demo_burst))) = [[1], [3]]"
  by code_simp


section \<open>What goes wrong\<close>

text \<open>A viewer that has an offer and has not answered yet is thrown out by the next clean-up, however recent it is.\<close>

lemma cleanup_drops_unanswered:
  assumes "createOffer R fresh now cam vid sv = (sv', offer)"
  shows "snd (setAnswer R t cam vid answer (cleanupStaleConnections t' sv')) = False"
proof -
  have gone: "map_of (filter (\<lambda>(k, s). \<not> viewer_stale t' s) (AList.update key s vs)) key = None"
    if "\<not> vs_connected s" "key \<notin> fst ` set vs" for key and s :: "'a ViewerSession" and vs
    using that by (auto simp: alist_update_new map_of_eq_None_iff viewer_stale_def)
  have without: "map_of (filter P vs) key = None" if "key \<notin> fst ` set vs" for P key and vs :: "(string \<times> 'a ViewerSession) list"
    using that by (auto simp: map_of_eq_None_iff)
  have up: "AList.update k x (AList.update k y vs) = AList.update k x vs" for k and x y :: "'a ViewerSession" and vs by simp
  have n: "viewer_key cam vid \<notin> fst ` set (AList.delete (viewer_key cam vid) (ws_viewers sv))" by (rule delete_notin_dom)
  have "map_of (ws_viewers (cleanupStaleConnections t' sv')) (viewer_key cam vid) = None"
    using assms n
    by (auto simp: createOffer_def createViewerSession_def Let_def cleanupStaleConnections_def set_viewer_def up gone
        without split: option.splits prod.splits)
  then show ?thesis by (simp add: setAnswer_def Let_def)
qed

text \<open>A stream of camera 0, the default of the configuration, never delivers a frame.\<close>

lemma camera_zero_is_mute:
  "camera_of_stream (fh_stream_id hdr) sv = 0 \<Longrightarrow> wr_pushFrame hdr data sv = sv"
  by (simp add: wr_pushFrame_def)

text \<open>Of two cameras whose streams have the same identifier, one gets the frames of both.\<close>

lemma same_stream_id_mixes:
  assumes "ws_streams sv = (k, st) # rest" "wst_stream_id st = fh_stream_id hdr" "accepted sv (hdr, data) = Some f"
  shows "fd_camera_id f = wst_camera_id st"
  using assms by (auto simp: accepted_def camera_of_stream_def split: if_splits)

end
