(* ===== verification/Pixels.thy ===== *)
theory Pixels
  imports Prelude
begin

text \<open>
  Picture buffers: loops whose body may leave the buffer, an access to an interleaved row-major buffer with its
  bounds check, and the order of a scan. \<open>None\<close> is undefined behaviour.
\<close>

section \<open>Loops that may fail\<close>

fun fold_opt :: "('a \<Rightarrow> 's \<Rightarrow> 's option) \<Rightarrow> 'a list \<Rightarrow> 's \<Rightarrow> 's option" where
  "fold_opt f [] s = Some s"
| "fold_opt f (x # xs) s = Option.bind (f x s) (fold_opt f xs)"

lemma fold_opt_append: "fold_opt f (xs @ ys) s = Option.bind (fold_opt f xs s) (fold_opt f ys)"
  by (induction xs arbitrary: s) (auto split: Option.bind_splits)

text \<open>A loop that keeps an invariant and never fails.\<close>

lemma fold_opt_inv:
  assumes "I s" "\<And>x s. x \<in> set xs \<Longrightarrow> I s \<Longrightarrow> \<exists>t. f x s = Some t \<and> I t"
  shows "\<exists>t. fold_opt f xs s = Some t \<and> I t"
  using assms by (induction xs arbitrary: s) fastforce+

text \<open>The same when each turn also does its part \<open>g\<close> of a function on states.\<close>

lemma fold_opt_fold:
  assumes "I s" "\<And>x s. x \<in> set xs \<Longrightarrow> I s \<Longrightarrow> f x s = Some (g x s) \<and> I (g x s)"
  shows "fold_opt f xs s = Some (fold g xs s) \<and> I (fold g xs s)"
  using assms by (induction xs arbitrary: s) auto

section \<open>Machine integers\<close>

definition int_ok :: "int \<Rightarrow> bool" where
  "int_ok i \<longleftrightarrow> - (2 ^ 31) \<le> i \<and> i < 2 ^ 31"

section \<open>Accesses\<close>

definition get_px :: "nat \<Rightarrow> 'a list \<Rightarrow> 'a option" where
  "get_px i px = (if i < length px then Some (px ! i) else None)"

definition set_px :: "nat \<Rightarrow> 'a \<Rightarrow> 'a list \<Rightarrow> 'a list option" where
  "set_px i v px = (if i < length px then Some (px[i := v]) else None)"

text \<open>Channel \<open>c\<close> of the pixel \<open>(x, y)\<close> in rows of \<open>w\<close> pixels of \<open>ch\<close> bytes.\<close>

definition px_index :: "int \<Rightarrow> nat \<Rightarrow> int \<times> int \<Rightarrow> nat \<Rightarrow> nat" where
  "px_index w ch p c = nat (snd p * w + fst p) * ch + c"

definition in_picture :: "int \<Rightarrow> int \<Rightarrow> int \<times> int \<Rightarrow> bool" where
  "in_picture w h p \<longleftrightarrow> 0 \<le> fst p \<and> fst p < w \<and> 0 \<le> snd p \<and> snd p < h"

lemma px_index_bound:
  assumes "in_picture w h p" "c < ch"
  shows "px_index w ch p c < nat (w * h) * ch"
proof -
  obtain x y where p: "p = (x, y)" by fastforce
  have xy: "0 \<le> x" "x < w" "0 \<le> y" "y + 1 \<le> h" using assms(1) by (auto simp: in_picture_def p)
  have "y * w + x < (y + 1) * w" using xy by (simp add: algebra_simps)
  also have "\<dots> \<le> w * h" using mult_right_mono [OF xy(4), of w] xy by (simp add: mult.commute)
  finally have "nat (y * w + x) + 1 \<le> nat (w * h)" using xy by (simp add: nat_less_iff [symmetric] Suc_le_eq)
  then have "(nat (y * w + x) + 1) * ch \<le> nat (w * h) * ch" by (rule mult_right_mono) simp
  then show ?thesis using assms(2) by (simp add: px_index_def p)
qed

lemma px_index_inj:
  assumes "in_picture w h p" "in_picture w h q" "c < ch" "d < ch" "px_index w ch p c = px_index w ch q d"
  shows "p = q \<and> c = d"
proof -
  obtain x y u v where p: "p = (x, y)" "q = (u, v)" by fastforce
  have r: "0 \<le> x" "x < w" "0 \<le> y" "0 \<le> u" "u < w" "0 \<le> v" using assms(1,2) by (auto simp: in_picture_def p)
  have "c = d" using assms(3-5) by (metis px_index_def mod_less mod_mult_self3)
  moreover have "nat (y * w + x) = nat (v * w + u)"
    using assms(3-5) \<open>c = d\<close> by (simp add: px_index_def p)
  then have e: "y * w + x = v * w + u" using r by (metis add_nonneg_nonneg eq_nat_nat_iff mult_nonneg_nonneg order_le_less order_le_less_trans)
  have "y = v" using arg_cong [OF e, of "\<lambda>z. z div w"] r by simp
  ultimately show ?thesis using e by (simp add: p)
qed

text \<open>The pixels of \<open>[x0, x1) \<times> [y0, y1)\<close>, row by row.\<close>

definition scan :: "int \<Rightarrow> int \<Rightarrow> int \<Rightarrow> int \<Rightarrow> (int \<times> int) list" where
  "scan x0 y0 x1 y1 = concat (map (\<lambda>y. map (\<lambda>x. (x, y)) [x0..x1 - 1]) [y0..y1 - 1])"

lemma set_scan [simp]: "(x, y) \<in> set (scan x0 y0 x1 y1) \<longleftrightarrow> x0 \<le> x \<and> x < x1 \<and> y0 \<le> y \<and> y < y1"
  by (force simp: scan_def)

text \<open>All channels of a pixel; writing channel \<open>c\<close> takes the value \<open>v c\<close>.\<close>

definition read_pixel :: "int \<Rightarrow> nat \<Rightarrow> int \<times> int \<Rightarrow> 'a list \<Rightarrow> 'a list option" where
  "read_pixel w ch p px = those (map (\<lambda>c. get_px (px_index w ch p c) px) [0..<ch])"

definition write_pixel :: "int \<Rightarrow> nat \<Rightarrow> int \<times> int \<Rightarrow> (nat \<Rightarrow> 'a option) \<Rightarrow> 'a list \<Rightarrow> 'a list option" where
  "write_pixel w ch p v px = fold_opt (\<lambda>c px. Option.bind (v c) (\<lambda>b. set_px (px_index w ch p c) b px)) [0..<ch] px"

lemma those_map_Some: "(\<And>x. x \<in> set xs \<Longrightarrow> f x = Some (g x)) \<Longrightarrow> those (map f xs) = Some (map g xs)"
  by (induction xs) auto

lemma read_pixel_in:
  "\<lbrakk>in_picture w h p; nat (w * h) * ch \<le> length px\<rbrakk> \<Longrightarrow>
    read_pixel w ch p px = Some (map (\<lambda>c. px ! px_index w ch p c) [0..<ch])"
  unfolding read_pixel_def
  by (rule those_map_Some) (use px_index_bound in \<open>fastforce simp: get_px_def\<close>)

definition painted :: "int \<Rightarrow> nat \<Rightarrow> int \<times> int \<Rightarrow> (nat \<Rightarrow> 'a) \<Rightarrow> 'a list \<Rightarrow> 'a list" where
  "painted w ch p v px = fold (\<lambda>c px. px[px_index w ch p c := v c]) [0..<ch] px"

lemma length_painted [simp]: "length (painted w ch p v px) = length px"
proof -
  have "length (fold (\<lambda>c px. px[px_index w ch p c := v c]) cs px) = length px" for cs
    by (induction cs arbitrary: px) auto
  then show ?thesis by (simp add: painted_def)
qed

lemma write_pixel_in:
  fixes px :: "'a list"
  assumes "in_picture w h p" "nat (w * h) * ch \<le> length px" "\<And>c. c < ch \<Longrightarrow> u c = Some (v c)"
  shows "write_pixel w ch p u px = Some (painted w ch p v px)"
  unfolding write_pixel_def painted_def
proof (rule fold_opt_fold [where I = "\<lambda>q. length q = length px", THEN conjunct1])
  show "length px = length px" ..
  fix c and q :: "'a list" assume "c \<in> set [0..<ch]" "length q = length px"
  then show "Option.bind (u c) (\<lambda>b. set_px (px_index w ch p c) b q) = Some (q[px_index w ch p c := v c]) \<and>
      length (q[px_index w ch p c := v c]) = length px"
    using assms(2,3) px_index_bound [OF assms(1), of c ch] by (simp add: set_px_def)
qed

lemma fold_update_nth:
  "i < length px \<Longrightarrow> fold (\<lambda>c px. px[base + c := v c]) cs px ! i = (if i - base \<in> set cs \<and> base \<le> i then v (i - base) else px ! i)"
  by (induction cs arbitrary: px) (auto simp: nth_list_update)

lemma painted_at:
  assumes "in_picture w h p" "in_picture w h q" "nat (w * h) * ch \<le> length px" "c < ch"
  shows "painted w ch p v px ! px_index w ch q c = (if q = p then v c else px ! px_index w ch q c)"
proof -
  let ?b = "nat (snd p * w + fst p) * ch" and ?i = "px_index w ch q c"
  have i: "?i < length px" using px_index_bound [OF assms(2,4)] assms(3) by simp
  have "painted w ch p v px ! ?i = (if ?i - ?b \<in> set [0..<ch] \<and> ?b \<le> ?i then v (?i - ?b) else px ! ?i)"
    using fold_update_nth [OF i, of ?b v "[0..<ch]"] by (simp add: painted_def px_index_def)
  moreover have "?i - ?b = c" "?b \<le> ?i" if "q = p" using that by (simp_all add: px_index_def)
  moreover have "q = p" if "?i - ?b < ch" "?b \<le> ?i"
    using px_index_inj [OF assms(2,1,4) that(1)] that(2) by (simp add: px_index_def)
  ultimately show ?thesis using assms(4) by (cases "q = p") (auto simp del: px_index_def)
qed

text \<open>Behind the picture nothing is written.\<close>

lemma painted_behind:
  assumes "in_picture w h p" "nat (w * h) * ch \<le> i" "i < length px"
  shows "painted w ch p v px ! i = px ! i"
proof -
  let ?b = "nat (snd p * w + fst p) * ch"
  have "\<not> (i - ?b < ch \<and> ?b \<le> i)"
    using px_index_bound [OF assms(1), of "i - ?b" ch] assms(2) by (auto simp: px_index_def)
  then show ?thesis using fold_update_nth [OF assms(3), of ?b v "[0..<ch]"] by (auto simp: painted_def px_index_def)
qed

section \<open>Painting many pixels\<close>

definition paint_all :: "int \<Rightarrow> nat \<Rightarrow> (int \<times> int \<Rightarrow> bool) \<Rightarrow> (int \<times> int \<Rightarrow> nat \<Rightarrow> 'a) \<Rightarrow> (int \<times> int) list \<Rightarrow> 'a list \<Rightarrow> 'a list" where
  "paint_all w ch P v ps px = fold (\<lambda>p px. if P p then painted w ch p (v p) px else px) ps px"

lemma length_paint_all [simp]: "length (paint_all w ch P v ps px) = length px"
  unfolding paint_all_def by (induction ps arbitrary: px) auto

lemma paint_all_at:
  assumes "\<And>p. p \<in> set ps \<Longrightarrow> in_picture w h p" "in_picture w h q" "nat (w * h) * ch \<le> length px" "c < ch"
  shows "paint_all w ch P v ps px ! px_index w ch q c = (if q \<in> set ps \<and> P q then v q c else px ! px_index w ch q c)"
  using assms unfolding paint_all_def
  by (induction ps arbitrary: px) (auto simp: painted_at [where h = h])

lemma paint_all_behind:
  assumes "\<And>p. p \<in> set ps \<Longrightarrow> in_picture w h p" "nat (w * h) * ch \<le> i" "i < length px"
  shows "paint_all w ch P v ps px ! i = px ! i"
  using assms unfolding paint_all_def
  by (induction ps arbitrary: px) (auto simp: painted_behind [where h = h])

lemma paint_loop:
  fixes px :: "'a list"
  assumes "\<And>p. p \<in> set ps \<Longrightarrow> in_picture w h p" "nat (w * h) * ch \<le> length px"
    and "\<And>p c. p \<in> set ps \<Longrightarrow> P p \<Longrightarrow> c < ch \<Longrightarrow> u p c = Some (v p c)"
  shows "fold_opt (\<lambda>p px. if P p then write_pixel w ch p (u p) px else Some px) ps px = Some (paint_all w ch P v ps px)"
  unfolding paint_all_def
proof (rule fold_opt_fold [where I = "\<lambda>q. length q = length px", THEN conjunct1])
  fix p and q :: "'a list" assume "p \<in> set ps" "length q = length px"
  then show "(if P p then write_pixel w ch p (u p) q else Some q) = Some (if P p then painted w ch p (v p) q else q) \<and>
      length (if P p then painted w ch p (v p) q else q) = length px"
    using assms write_pixel_in [of w h p ch q "u p" "v p"] by auto
qed simp

end
