(* ===== verification/Privacy_Mask.thy ===== *)
theory Privacy_Mask
  imports Pixels Floats Frame_Header
begin

text \<open>
  The privacy mask, plugins/privacy_mask: mask_util.hpp and privacy_mask.cpp. The arithmetic of \<open>float\<close> and its
  roundings are parameters. \<open>None\<close> is undefined behaviour: an access outside of the buffer, or an integer out of the range of
  \<open>int\<close>; the coordinates of pixels stay inside the picture, so overflow is checked where the configuration comes in.
\<close>

section \<open>Geometry\<close>

record 'f MaskPt =
  mk_x :: 'f
  mk_y :: 'f

text \<open>\<open>std::floor\<close> and \<open>std::ceil\<close> as integers; \<open>None\<close> for a value that is no finite number.\<close>

record 'f rounding =
  rd_floor :: "'f \<Rightarrow> int option"
  rd_ceil :: "'f \<Rightarrow> int option"

record BBox =
  bb_x0 :: int
  bb_y0 :: int
  bb_x1 :: int
  bb_y1 :: int

definition bbox_valid :: "BBox \<Rightarrow> bool" where
  "bbox_valid b \<longleftrightarrow> bb_x1 b > bb_x0 b \<and> bb_y1 b > bb_y0 b"

definition to_int :: "int option \<Rightarrow> int option" where
  "to_int r = Option.bind r (\<lambda>i. if int_ok i then Some i else None)"

definition polygon_bbox :: "'f floats \<Rightarrow> 'f rounding \<Rightarrow> 'f MaskPt list \<Rightarrow> int \<Rightarrow> int \<Rightarrow> BBox option" where
  "polygon_bbox F Rd poly w h =
     (if poly = [] \<or> w \<le> 0 \<or> h \<le> 0 then Some \<lparr>bb_x0 = 0, bb_y0 = 0, bb_x1 = 0, bb_y1 = 0\<rparr>
      else let p0 = hd poly;
          minx = fold (\<lambda>p m. fl_min F m (mk_x p)) poly (mk_x p0); maxx = fold (\<lambda>p m. fl_max F m (mk_x p)) poly (mk_x p0);
          miny = fold (\<lambda>p m. fl_min F m (mk_y p)) poly (mk_y p0); maxy = fold (\<lambda>p m. fl_max F m (mk_y p)) poly (mk_y p0)
        in Option.bind (to_int (rd_floor Rd minx)) (\<lambda>x0. Option.bind (to_int (rd_floor Rd miny)) (\<lambda>y0.
           Option.bind (to_int (rd_ceil Rd maxx)) (\<lambda>x1. Option.bind (to_int (rd_ceil Rd maxy)) (\<lambda>y1.
             if \<not> int_ok (x1 + 1) \<or> \<not> int_ok (y1 + 1) then None
             else Some \<lparr>bb_x0 = max 0 x0, bb_y0 = max 0 y0, bb_x1 = min w (x1 + 1), bb_y1 = min h (y1 + 1)\<rparr>)))))"

definition mask_ray_crosses :: "'f floats \<Rightarrow> 'f \<Rightarrow> 'f \<Rightarrow> 'f MaskPt \<Rightarrow> 'f MaskPt \<Rightarrow> bool" where
  "mask_ray_crosses F x y pi pj \<longleftrightarrow>
     fl_less F y (mk_y pi) \<noteq> fl_less F y (mk_y pj) \<and>
     (let t = fl_div F (fl_sub F y (mk_y pi)) (fl_sub F (mk_y pj) (mk_y pi));
          xcross = fl_add F (mk_x pi) (fl_mul F t (fl_sub F (mk_x pj) (mk_x pi)))
      in fl_less F x xcross)"

fun mask_edges :: "'f floats \<Rightarrow> 'f \<Rightarrow> 'f \<Rightarrow> 'f MaskPt \<Rightarrow> 'f MaskPt list \<Rightarrow> bool \<Rightarrow> bool" where
  "mask_edges F x y pj [] inside = inside"
| "mask_edges F x y pj (pi # ps) inside = mask_edges F x y pi ps (if mask_ray_crosses F x y pi pj then \<not> inside else inside)"

definition mask_point_in_polygon :: "'f floats \<Rightarrow> 'f MaskPt list \<Rightarrow> 'f \<Rightarrow> 'f \<Rightarrow> bool" where
  "mask_point_in_polygon F poly x y = (if length poly < 3 then False else mask_edges F x y (last poly) poly False)"

definition centre_inside :: "'f floats \<Rightarrow> 'f MaskPt list \<Rightarrow> int \<times> int \<Rightarrow> bool" where
  "centre_inside F poly p =
     mask_point_in_polygon F poly (fl_add F (fl_num F (fst p) 1) (fl_num F 1 2)) (fl_add F (fl_num F (snd p) 1) (fl_num F 1 2))"

section \<open>The three masks\<close>

definition black_region ::
  "'f floats \<Rightarrow> 'f rounding \<Rightarrow> int \<Rightarrow> int \<Rightarrow> nat \<Rightarrow> 'f MaskPt list \<Rightarrow> bytes \<Rightarrow> bytes option" where
  "black_region F Rd w h ch poly px =
     (if w \<le> 0 \<or> h \<le> 0 \<or> ch = 0 then Some px
      else Option.bind (polygon_bbox F Rd poly w h) (\<lambda>b.
        if \<not> bbox_valid b then Some px
        else fold_opt (\<lambda>p px. if centre_inside F poly p then write_pixel w ch p (\<lambda>c. Some 0) px else Some px)
          (scan (bb_x0 b) (bb_y0 b) (bb_x1 b) (bb_y1 b)) px))"

text \<open>The values that \<open>for (i = from; i < to; i += step)\<close> takes.\<close>

function stepped :: "int \<Rightarrow> int \<Rightarrow> int \<Rightarrow> int list" where
  "stepped i e s = (if i < e \<and> 0 < s then i # stepped (i + s) e s else [])"
  by auto
termination by (relation "measure (\<lambda>(i, e, s). nat (e - i))") auto

declare stepped.simps [simp del]

text \<open>The two passes over a block: the sums and the number of the inside pixels, then their average.\<close>

definition sum_pixel :: "int \<Rightarrow> nat \<Rightarrow> bytes \<Rightarrow> int \<times> int \<Rightarrow> int list \<times> int \<Rightarrow> (int list \<times> int) option" where
  "sum_pixel w ch px p acc =
     Option.bind (read_pixel w ch p px) (\<lambda>vs. Some (map2 (\<lambda>s v. s + uint v) (fst acc) vs, snd acc + 1))"

definition block_average :: "nat \<Rightarrow> int list \<times> int \<Rightarrow> bytes" where
  "block_average ch acc = take 4 (map (\<lambda>s. of_int (s div snd acc)) (fst acc) @ replicate 4 0)"

definition pixelate_block ::
  "'f floats \<Rightarrow> 'f MaskPt list \<Rightarrow> int \<Rightarrow> nat \<Rightarrow> BBox \<Rightarrow> int \<Rightarrow> int \<times> int \<Rightarrow> bytes \<Rightarrow> bytes option" where
  "pixelate_block F poly w ch b block corner px =
     (let bx = fst corner; by0 = snd corner in
      if \<not> int_ok (bx + block) \<or> \<not> int_ok (by0 + block) then None
      else let ps = scan bx by0 (min (bx + block) (bb_x1 b)) (min (by0 + block) (bb_y1 b)) in
        Option.bind (fold_opt (\<lambda>p acc. if centre_inside F poly p then sum_pixel w ch px p acc else Some acc) ps (replicate ch 0, 0)) (\<lambda>acc.
          if snd acc = 0 then Some px
          else let avg = block_average ch acc
            in fold_opt (\<lambda>p px. if centre_inside F poly p then write_pixel w ch p (\<lambda>c. get_px c avg) px else Some px) ps px))"

definition pixelate_region ::
  "'f floats \<Rightarrow> 'f rounding \<Rightarrow> int \<Rightarrow> int \<Rightarrow> nat \<Rightarrow> 'f MaskPt list \<Rightarrow> int \<Rightarrow> bytes \<Rightarrow> bytes option" where
  "pixelate_region F Rd w h ch poly block px =
     (if w \<le> 0 \<or> h \<le> 0 \<or> ch = 0 then Some px
      else let block = (if block < 1 then 1 else block) in
        Option.bind (polygon_bbox F Rd poly w h) (\<lambda>b.
          if \<not> bbox_valid b then Some px
          else fold_opt (pixelate_block F poly w ch b block)
            (concat (map (\<lambda>y. map (\<lambda>x. (x, y)) (stepped (bb_x0 b) (bb_x1 b) block)) (stepped (bb_y0 b) (bb_y1 b) block))) px))"

text \<open>The copy of the bounding box, row by row; \<open>at\<close> reads it with the coordinates clamped.\<close>

definition box_copy :: "int \<Rightarrow> nat \<Rightarrow> BBox \<Rightarrow> bytes \<Rightarrow> bytes option" where
  "box_copy w ch b px =
     map_option concat (those (map (\<lambda>y.
       let start = nat (y * w + bb_x0 b) * ch; n = nat (bb_x1 b - bb_x0 b) * ch
       in if start + n \<le> length px then Some (take n (drop start px)) else None) [bb_y0 b..bb_y1 b - 1]))"

definition blur_at :: "BBox \<Rightarrow> nat \<Rightarrow> bytes \<Rightarrow> int \<Rightarrow> int \<Rightarrow> nat \<Rightarrow> int option" where
  "blur_at b ch src x y c =
     (let bw = bb_x1 b - bb_x0 b; bh = bb_y1 b - bb_y0 b; x = min (max x 0) (bw - 1); y = min (max y 0) (bh - 1)
      in map_option uint (get_px (px_index bw ch (x, y) c) src))"

definition blur_window :: "int \<Rightarrow> (int \<times> int) list" where
  "blur_window radius = concat (map (\<lambda>dy. map (\<lambda>dx. (dx, dy)) [- radius..radius]) [- radius..radius])"

definition blur_value :: "BBox \<Rightarrow> nat \<Rightarrow> bytes \<Rightarrow> int \<Rightarrow> int \<times> int \<Rightarrow> nat \<Rightarrow> u8 option" where
  "blur_value b ch src radius p c =
     (let x = fst p - bb_x0 b; y = snd p - bb_y0 b; n = (2 * radius + 1) * (2 * radius + 1) in
      if \<not> int_ok n \<or> \<not> int_ok (radius + 1) \<or> \<not> int_ok (x + radius) \<or> \<not> int_ok (y + radius) then None
      else map_option (\<lambda>acc. of_int (acc div n))
        (fold_opt (\<lambda>d acc. map_option (\<lambda>v. acc + v) (blur_at b ch src (x + fst d) (y + snd d) c)) (blur_window radius) 0))"

definition blur_region ::
  "'f floats \<Rightarrow> 'f rounding \<Rightarrow> int \<Rightarrow> int \<Rightarrow> nat \<Rightarrow> 'f MaskPt list \<Rightarrow> int \<Rightarrow> bytes \<Rightarrow> bytes option" where
  "blur_region F Rd w h ch poly radius px =
     (if w \<le> 0 \<or> h \<le> 0 \<or> ch = 0 then Some px
      else let radius = (if radius < 1 then 1 else radius) in
        Option.bind (polygon_bbox F Rd poly w h) (\<lambda>b.
          if \<not> bbox_valid b then Some px
          else Option.bind (box_copy w ch b px) (\<lambda>src.
            fold_opt (\<lambda>p px. if centre_inside F poly p then write_pixel w ch p (blur_value b ch src radius p) px else Some px)
              (scan (bb_x0 b) (bb_y0 b) (bb_x1 b) (bb_y1 b)) px)))"

section \<open>The plugin\<close>

datatype MaskMode = Black | Blur | Pixelate

record 'f PrivacyMaskCtx =
  pm_frameWidth :: int
  pm_frameHeight :: int
  pm_mode :: MaskMode
  pm_blurSize :: int
  pm_streamFilter :: "int list"
  pm_regions :: "'f MaskPt list list"

definition PrivacyMaskCtx_init :: "'f PrivacyMaskCtx" where
  "PrivacyMaskCtx_init = \<lparr>pm_frameWidth = 0, pm_frameHeight = 0, pm_mode = Black, pm_blurSize = 16, pm_streamFilter = [], pm_regions = []\<rparr>"

definition channels_for_hw_type :: "u32 \<Rightarrow> nat" where
  "channels_for_hw_type t = (if t = ZM_FRAME_RGB24 then 3 else if t = ZM_FRAME_GRAYSCALE then 1 else 0)"

definition apply_region :: "'f floats \<Rightarrow> 'f rounding \<Rightarrow> 'f PrivacyMaskCtx \<Rightarrow> nat \<Rightarrow> 'f MaskPt list \<Rightarrow> bytes \<Rightarrow> bytes option" where
  "apply_region F Rd ctx ch poly px =
     (let w = pm_frameWidth ctx; h = pm_frameHeight ctx in
      case pm_mode ctx of
        Black \<Rightarrow> black_region F Rd w h ch poly px
      | Pixelate \<Rightarrow> pixelate_region F Rd w h ch poly (pm_blurSize ctx) px
      | Blur \<Rightarrow> blur_region F Rd w h ch poly (pm_blurSize ctx) px)"

text \<open>Whether a frame is masked, and the frame that is forwarded.\<close>

definition maskable :: "'f PrivacyMaskCtx \<Rightarrow> bytes \<Rightarrow> bool" where
  "maskable ctx buf \<longleftrightarrow> length buf \<ge> sizeof_frame_hdr \<and>
     (let hdr = frame_hdr buf; channels = channels_for_hw_type (fh_hw_type hdr); w = pm_frameWidth ctx; h = pm_frameHeight ctx in
      channels \<noteq> 0 \<and> pm_regions ctx \<noteq> [] \<and>
      (pm_streamFilter ctx = [] \<or> sint (fh_stream_id hdr) \<in> set (pm_streamFilter ctx)) \<and>
      w > 0 \<and> h > 0 \<and> length buf \<ge> sizeof_frame_hdr + nat (w * h) * channels)"

definition privacy_mask_on_frame :: "'f floats \<Rightarrow> 'f rounding \<Rightarrow> 'f PrivacyMaskCtx \<Rightarrow> bytes \<Rightarrow> bytes option" where
  "privacy_mask_on_frame F Rd ctx buf =
     (if \<not> maskable ctx buf then Some buf
      else map_option ((@) (take sizeof_frame_hdr buf))
        (fold_opt (apply_region F Rd ctx (channels_for_hw_type (fh_hw_type (frame_hdr buf)))) (pm_regions ctx) (drop sizeof_frame_hdr buf)))"

section \<open>Configuration\<close>

fun pm_streams :: "'j json_api \<Rightarrow> 'j list \<Rightarrow> 'f PrivacyMaskCtx + 'f PrivacyMaskCtx \<Rightarrow> 'f PrivacyMaskCtx + 'f PrivacyMaskCtx" where
  "pm_streams J [] c = c"
| "pm_streams J (v # vs) c = pm_streams J vs (cfg_step (j_int J v) (\<lambda>n x. x\<lparr>pm_streamFilter := pm_streamFilter x @ [n]\<rparr>) c)"

text \<open>The points of a polygon; \<open>None\<close> is the exception of a coordinate that is no number.\<close>

fun pm_points :: "'j json_api \<Rightarrow> ('j, 'f) json_float \<Rightarrow> 'j list \<Rightarrow> 'f MaskPt list option" where
  "pm_points J K [] = Some []"
| "pm_points J K (pt # pts) =
     (let rest = pm_points J K pts in
      if \<not> j_is_array J pt then rest
      else case j_elements J pt of
        a # b # _ \<Rightarrow> Option.bind (jf_get K a) (\<lambda>x. Option.bind (jf_get K b) (\<lambda>y. map_option ((#) \<lparr>mk_x = x, mk_y = y\<rparr>) rest))
      | _ \<Rightarrow> rest)"

fun pm_polys ::
  "'j json_api \<Rightarrow> ('j, 'f) json_float \<Rightarrow> 'j list \<Rightarrow> 'f PrivacyMaskCtx + 'f PrivacyMaskCtx \<Rightarrow> 'f PrivacyMaskCtx + 'f PrivacyMaskCtx" where
  "pm_polys J K [] c = c"
| "pm_polys J K (poly # polys) c =
     pm_polys J K polys
       (if \<not> j_is_array J poly then c
        else cfg_step (pm_points J K (j_elements J poly))
          (\<lambda>pts x. if length pts \<ge> 3 then x\<lparr>pm_regions := pm_regions x @ [pts]\<rparr> else x) c)"

definition privacy_mask_start :: "'j json_api \<Rightarrow> ('j, 'f) json_float \<Rightarrow> string option \<Rightarrow> 'f PrivacyMaskCtx" where
  "privacy_mask_start J K json_cfg =
     (case j_parse J (case json_cfg of None \<Rightarrow> ''{}'' | Some s \<Rightarrow> s) of
        None \<Rightarrow> PrivacyMaskCtx_init
      | Some j \<Rightarrow> cfg_result (
          let c = Inr PrivacyMaskCtx_init;
              c = cfg_step (j_value_int J j ''frame_width'' 0) (\<lambda>v x. x\<lparr>pm_frameWidth := v\<rparr>) c;
              c = cfg_step (j_value_int J j ''frame_height'' 0) (\<lambda>v x. x\<lparr>pm_frameHeight := v\<rparr>) c;
              c = cfg_step (j_value_int J j ''blur_size'' 16) (\<lambda>v x. x\<lparr>pm_blurSize := max 1 v\<rparr>) c;
              c = cfg_step (j_value_string J j ''mode'' ''black'')
                    (\<lambda>m x. x\<lparr>pm_mode := (if m = ''blur'' then Blur else if m = ''pixelate'' then Pixelate else Black)\<rparr>) c;
              c = (case j_field J j ''stream_filter'' of
                     None \<Rightarrow> c | Some a \<Rightarrow> if j_is_array J a then pm_streams J (j_elements J a) c else c)
          in case j_field J j ''regions'' of
               None \<Rightarrow> c | Some a \<Rightarrow> if j_is_array J a then pm_polys J K (j_elements J a) c else c))"

end
