(* ===== verification/Privacy_Properties.thy ===== *)
theory Privacy_Properties
  imports Privacy_Mask Geometry_Exact
begin

text \<open>
  What the privacy mask promises: it never leaves its buffers, whatever the arithmetic does, it changes nothing
  outside of the polygons, and the black mask leaves nothing of the picture inside of them.
\<close>

section \<open>One region\<close>

abbreviation box_scan :: "BBox \<Rightarrow> (int \<times> int) list" where
  "box_scan b \<equiv> scan (bb_x0 b) (bb_y0 b) (bb_x1 b) (bb_y1 b)"

lemma polygon_bbox_bounds:
  "\<lbrakk>polygon_bbox F Rd poly w h = Some b; 0 < w; 0 < h\<rbrakk> \<Longrightarrow>
    0 \<le> bb_x0 b \<and> 0 \<le> bb_y0 b \<and> bb_x1 b \<le> w \<and> bb_y1 b \<le> h"
  by (auto simp: polygon_bbox_def Let_def split: if_splits Option.bind_splits)

lemma box_scan_in:
  "\<lbrakk>polygon_bbox F Rd poly w h = Some b; 0 < w; 0 < h; p \<in> set (box_scan b)\<rbrakk> \<Longrightarrow> in_picture w h p"
  using polygon_bbox_bounds [of F Rd poly w h b] by (cases p) (auto simp: in_picture_def)

text \<open>What every mask of a region keeps to: pixels that are not inside, and what is behind the picture.\<close>

definition only_inside :: "'f floats \<Rightarrow> int \<Rightarrow> int \<Rightarrow> nat \<Rightarrow> 'f MaskPt list \<Rightarrow> bytes \<Rightarrow> bytes \<Rightarrow> bool" where
  "only_inside F w h ch poly px px' \<longleftrightarrow> length px' = length px \<and>
     (\<forall>q c. in_picture w h q \<and> c < ch \<and> \<not> centre_inside F poly q \<longrightarrow> px' ! px_index w ch q c = px ! px_index w ch q c) \<and>
     (\<forall>i. nat (w * h) * ch \<le> i \<and> i < length px \<longrightarrow> px' ! i = px ! i)"

lemma only_inside_refl [simp]: "only_inside F w h ch poly px px"
  by (simp add: only_inside_def)

lemma only_inside_trans: "\<lbrakk>only_inside F w h ch poly a b; only_inside F w h ch poly b c\<rbrakk> \<Longrightarrow> only_inside F w h ch poly a c"
  by (simp add: only_inside_def)

lemma paint_only_inside:
  assumes "\<And>p. p \<in> set ps \<Longrightarrow> in_picture w h p" "nat (w * h) * ch \<le> length px"
  shows "only_inside F w h ch poly px (paint_all w ch (centre_inside F poly) v ps px)"
  unfolding only_inside_def
  using paint_all_at [OF assms(1) _ assms(2), where v = v] paint_all_behind [OF assms(1), where v = v and px = px and ch = ch]
  by auto

lemma black_region_paint:
  assumes "polygon_bbox F Rd poly w h = Some b" "0 < w" "0 < h" "0 < ch" "nat (w * h) * ch \<le> length px" "bbox_valid b"
  shows "black_region F Rd w h ch poly px = Some (paint_all w ch (centre_inside F poly) (\<lambda>_ _. 0) (box_scan b) px)"
  using assms paint_loop [of "box_scan b" w h ch px "centre_inside F poly" "\<lambda>p c. Some 0" "\<lambda>_ _. 0"] box_scan_in [OF assms(1-3)]
  by (simp add: black_region_def)

lemma black_region_ok:
  assumes "polygon_bbox F Rd poly w h = Some b" "0 < w" "0 < h" "0 < ch" "nat (w * h) * ch \<le> length px"
  shows "\<exists>px'. black_region F Rd w h ch poly px = Some px' \<and> only_inside F w h ch poly px px'"
proof (cases "bbox_valid b")
  case True
  show ?thesis
    using black_region_paint [OF assms True] paint_only_inside [OF box_scan_in [OF assms(1-3)] assms(5)] by blast
next
  case False
  then show ?thesis using assms(1-4) by (simp add: black_region_def)
qed

section \<open>Pixelating\<close>

text \<open>The average of channel \<open>c\<close> over the pixels of a block that are inside.\<close>

definition mean_inside :: "int \<Rightarrow> nat \<Rightarrow> (int \<times> int \<Rightarrow> bool) \<Rightarrow> bytes \<Rightarrow> (int \<times> int) list \<Rightarrow> nat \<Rightarrow> u8" where
  "mean_inside w ch P px ps c =
     of_int ((\<Sum>p\<leftarrow>filter P ps. uint (px ! px_index w ch p c)) div int (length (filter P ps)))"

lemma sum_block:
  assumes "\<And>p. p \<in> set ps \<Longrightarrow> in_picture w h p" "nat (w * h) * ch \<le> length px" "length ss = ch"
  shows "fold_opt (\<lambda>p acc. if P p then sum_pixel w ch px p acc else Some acc) ps (ss, n) =
    Some (map (\<lambda>c. ss ! c + (\<Sum>p\<leftarrow>filter P ps. uint (px ! px_index w ch p c))) [0..<ch], n + int (length (filter P ps)))"
  using assms
proof (induction ps arbitrary: ss n)
  case Nil
  then show ?case by (auto intro: nth_equalityI)
next
  case (Cons p ps)
  have r: "read_pixel w ch p px = Some (map (\<lambda>c. px ! px_index w ch p c) [0..<ch])"
    using Cons.prems by (intro read_pixel_in) auto
  have "map2 (\<lambda>s v. s + uint v) ss (map (\<lambda>c. px ! px_index w ch p c) [0..<ch]) =
      map (\<lambda>c. ss ! c + uint (px ! px_index w ch p c)) [0..<ch]"
    using Cons.prems(3) by (auto intro!: nth_equalityI)
  then show ?case
    using Cons.IH [of ss n] Cons.IH [of "map (\<lambda>c. ss ! c + uint (px ! px_index w ch p c)) [0..<ch]" "n + 1"] Cons.prems r
    by (auto simp: sum_pixel_def)
qed

lemma paint_nothing: "(\<And>p. p \<in> set ps \<Longrightarrow> \<not> P p) \<Longrightarrow> paint_all w ch P v ps px = px"
  unfolding paint_all_def by (induction ps arbitrary: px) auto

definition block_scan :: "BBox \<Rightarrow> int \<Rightarrow> int \<times> int \<Rightarrow> (int \<times> int) list" where
  "block_scan b block corner =
     scan (fst corner) (snd corner) (min (fst corner + block) (bb_x1 b)) (min (snd corner + block) (bb_y1 b))"

definition sizes_fit :: "int \<Rightarrow> int \<Rightarrow> int \<Rightarrow> bool" where
  "sizes_fit w h s \<longleftrightarrow> s \<le> 23169 \<and> int_ok (w + s) \<and> int_ok (h + s)"

lemma pixelate_block_paint:
  assumes inp: "\<And>p. p \<in> set (box_scan b) \<Longrightarrow> in_picture w h p" and len: "nat (w * h) * ch \<le> length px" and ch: "ch \<le> 4"
    and corner: "corner \<in> set (box_scan b)" and block: "0 < block" "sizes_fit w h block"
  shows "pixelate_block F poly w ch b block corner px =
    Some (paint_all w ch (centre_inside F poly)
      (\<lambda>p. mean_inside w ch (centre_inside F poly) px (block_scan b block corner)) (block_scan b block corner) px)"
proof -
  let ?ps = "block_scan b block corner" and ?P = "centre_inside F poly"
  have ok: "int_ok (fst corner + block)" "int_ok (snd corner + block)"
    using inp [OF corner] block by (auto simp: in_picture_def int_ok_def sizes_fit_def)
  have ps: "in_picture w h p" if "p \<in> set ?ps" for p
    using corner that by (intro inp) (cases corner; cases p; auto simp: block_scan_def)
  let ?tot = "map (\<lambda>c. \<Sum>p\<leftarrow>filter ?P ?ps. uint (px ! px_index w ch p c)) [0..<ch]"
  have acc: "fold_opt (\<lambda>p acc. if ?P p then sum_pixel w ch px p acc else Some acc) ?ps (replicate ch 0, 0) =
      Some (?tot, int (length (filter ?P ?ps)))"
    using sum_block [OF ps len, where ss = "replicate ch 0" and P = ?P and n = 0] by (simp cong: map_cong)
  have avg: "get_px c (block_average ch (?tot, int (length (filter ?P ?ps)))) = Some (mean_inside w ch ?P px ?ps c)" if "c < ch" for c
    using that ch by (auto simp: get_px_def block_average_def mean_inside_def nth_append)
  show ?thesis
  proof (cases "filter ?P ?ps = []")
    case True
    then have "paint_all w ch ?P v ?ps px = px" for v by (intro paint_nothing) (auto simp: filter_empty_conv)
    then show ?thesis using True acc ok by (simp add: pixelate_block_def Let_def block_scan_def [symmetric])
  next
    case False
    have "fold_opt (\<lambda>p px. if ?P p then write_pixel w ch p (\<lambda>c. get_px c (block_average ch (?tot, int (length (filter ?P ?ps))))) px else Some px) ?ps px =
        Some (paint_all w ch ?P (\<lambda>p. mean_inside w ch ?P px ?ps) ?ps px)"
      by (rule paint_loop [OF ps len]) (use avg in auto)
    then show ?thesis using False acc ok by (simp add: pixelate_block_def Let_def block_scan_def [symmetric])
  qed
qed

text \<open>The blocks of the grid are disjoint and cover the box.\<close>

lemma set_stepped: "x \<in> set (stepped i e s) \<Longrightarrow> i \<le> x \<and> x < e"
proof (induction i e s rule: stepped.induct)
  case (1 i e s)
  then show ?case by (auto simp: stepped.simps [of i e s] split: if_splits)
qed

lemma stepped_apart: "sorted_wrt (\<lambda>a b. a + s \<le> b) (stepped i e s)"
proof (induction i e s rule: stepped.induct)
  case (1 i e s)
  then show ?case using set_stepped [of _ "i + s" e s] by (auto simp: stepped.simps [of i e s])
qed

lemma stepped_cover: "\<lbrakk>i \<le> x; x < e; 0 < s\<rbrakk> \<Longrightarrow> \<exists>k \<in> set (stepped i e s). k \<le> x \<and> x < k + s"
proof (induction i e s rule: stepped.induct)
  case (1 i e s)
  then show ?case by (cases "x < i + s") (auto simp: stepped.simps [of i e s])
qed

lemma sorted_wrt_distinct_gap: "\<lbrakk>sorted_wrt (\<lambda>a b. a + s \<le> b) xs; (0::int) < s\<rbrakk> \<Longrightarrow> distinct xs"
  by (induction xs) auto

lemma sorted_wrt_cases: "\<lbrakk>sorted_wrt R xs; a \<in> set xs; b \<in> set xs\<rbrakk> \<Longrightarrow> a = b \<or> R a b \<or> R b a"
  by (induction xs) auto

lemma stepped_gap:
  assumes "a \<in> set (stepped i e s)" "b \<in> set (stepped i e s)" "a \<le> x" "x < a + s" "b \<le> x" "x < b + s"
  shows "a = b"
  using sorted_wrt_cases [OF stepped_apart assms(1,2)] assms(3-6) by auto

definition grid :: "BBox \<Rightarrow> int \<Rightarrow> (int \<times> int) list" where
  "grid b block = concat (map (\<lambda>y. map (\<lambda>x. (x, y)) (stepped (bb_x0 b) (bb_x1 b) block)) (stepped (bb_y0 b) (bb_y1 b) block))"

lemma set_grid: "(x, y) \<in> set (grid b block) \<longleftrightarrow> x \<in> set (stepped (bb_x0 b) (bb_x1 b) block) \<and> y \<in> set (stepped (bb_y0 b) (bb_y1 b) block)"
  by (auto simp: grid_def)

lemma grid_in_box: "k \<in> set (grid b block) \<Longrightarrow> k \<in> set (box_scan b)"
  using set_stepped by (cases k) (force simp: set_grid)

lemma grid_disjoint:
  "\<lbrakk>k \<in> set (grid b block); l \<in> set (grid b block); q \<in> set (block_scan b block k); q \<in> set (block_scan b block l)\<rbrakk> \<Longrightarrow> k = l"
  by (cases k; cases l; cases q) (auto simp: set_grid block_scan_def intro: stepped_gap)

lemma mem_scan: "p \<in> set (scan x0 y0 x1 y1) \<longleftrightarrow> x0 \<le> fst p \<and> fst p < x1 \<and> y0 \<le> snd p \<and> snd p < y1"
  by (cases p) simp

lemma grid_cover:
  assumes "q \<in> set (box_scan b)" "0 < block"
  shows "\<exists>k \<in> set (grid b block). q \<in> set (block_scan b block k)"
proof -
  have r: "bb_x0 b \<le> fst q" "fst q < bb_x1 b" "bb_y0 b \<le> snd q" "snd q < bb_y1 b" using assms(1) by (simp_all add: mem_scan)
  obtain x y where "x \<in> set (stepped (bb_x0 b) (bb_x1 b) block)" "x \<le> fst q" "fst q < x + block"
    "y \<in> set (stepped (bb_y0 b) (bb_y1 b) block)" "y \<le> snd q" "snd q < y + block"
    using stepped_cover [OF r(1,2) assms(2)] stepped_cover [OF r(3,4) assms(2)] by auto
  then show ?thesis using r by (intro bexI [of _ "(x, y)"]) (auto simp: block_scan_def mem_scan set_grid)
qed

lemma distinct_rows: "\<lbrakk>distinct xs; distinct ys\<rbrakk> \<Longrightarrow> distinct (concat (map (\<lambda>y. map (\<lambda>x. (x, y)) xs) ys))"
  by (induction ys) (auto simp: distinct_map inj_on_def)

lemma distinct_grid: "0 < block \<Longrightarrow> distinct (grid b block)"
  unfolding grid_def by (intro distinct_rows sorted_wrt_distinct_gap [OF stepped_apart])

lemma block_in_box: "\<lbrakk>k \<in> set (grid b block); q \<in> set (block_scan b block k)\<rbrakk> \<Longrightarrow> q \<in> set (box_scan b)"
  using grid_in_box [of k b block] by (auto simp: block_scan_def mem_scan)

text \<open>All blocks: each inside pixel gets the mean of its block, taken from the picture before.\<close>

lemma mean_inside_cong:
  "(\<And>p. p \<in> set ps \<Longrightarrow> px ! px_index w ch p c = px' ! px_index w ch p c) \<Longrightarrow> mean_inside w ch P px ps c = mean_inside w ch P px' ps c"
  unfolding mean_inside_def by (intro arg_cong [where f = "\<lambda>x. of_int (x div _)"] arg_cong [where f = sum_list] map_cong) auto

definition block_step :: "int \<Rightarrow> nat \<Rightarrow> (int \<times> int \<Rightarrow> bool) \<Rightarrow> BBox \<Rightarrow> int \<Rightarrow> int \<times> int \<Rightarrow> bytes \<Rightarrow> bytes" where
  "block_step w ch P b block k px = paint_all w ch P (\<lambda>p. mean_inside w ch P px (block_scan b block k)) (block_scan b block k) px"

lemma fold_blocks:
  assumes "distinct ks" "\<And>k. k \<in> set ks \<Longrightarrow> k \<in> set (grid b block)" "\<And>p. p \<in> set (box_scan b) \<Longrightarrow> in_picture w h p"
    and "nat (w * h) * ch \<le> length px" "in_picture w h q" "c < ch"
  shows "fold (block_step w ch P b block) ks px ! px_index w ch q c =
    (if P q then case find (\<lambda>k. q \<in> set (block_scan b block k)) ks of
        None \<Rightarrow> px ! px_index w ch q c | Some k \<Rightarrow> mean_inside w ch P px (block_scan b block k) c
     else px ! px_index w ch q c)"
  using assms
proof (induction ks arbitrary: px)
  case (Cons a ks)
  let ?px = "block_step w ch P b block a px"
  have inp: "in_picture w h p" if "p \<in> set (block_scan b block a)" for p
    by (rule Cons.prems(3) [OF block_in_box [OF Cons.prems(2) that]]) simp
  have at: "?px ! px_index w ch p d = (if p \<in> set (block_scan b block a) \<and> P p then mean_inside w ch P px (block_scan b block a) d
      else px ! px_index w ch p d)" if "in_picture w h p" "d < ch" for p d
    unfolding block_step_def by (rule paint_all_at [OF inp that(1) Cons.prems(4) that(2)])
  have same: "mean_inside w ch P ?px (block_scan b block k) c = mean_inside w ch P px (block_scan b block k) c" if "k \<in> set ks" for k
  proof (rule mean_inside_cong)
    fix p assume p: "p \<in> set (block_scan b block k)"
    have "p \<notin> set (block_scan b block a)" using grid_disjoint [OF Cons.prems(2) Cons.prems(2) p, of a] Cons.prems(1) that by auto
    moreover have "in_picture w h p" by (rule Cons.prems(3) [OF block_in_box [OF Cons.prems(2) p]]) (use that in simp)
    ultimately show "?px ! px_index w ch p c = px ! px_index w ch p c" using at Cons.prems(6) by simp
  qed
  have IH: "fold (block_step w ch P b block) ks ?px ! px_index w ch q c =
    (if P q then case find (\<lambda>k. q \<in> set (block_scan b block k)) ks of
        None \<Rightarrow> ?px ! px_index w ch q c | Some k \<Rightarrow> mean_inside w ch P ?px (block_scan b block k) c
     else ?px ! px_index w ch q c)"
  proof (rule Cons.IH)
    show "k \<in> set (grid b block)" if "k \<in> set ks" for k by (rule Cons.prems(2)) (use that in simp)
    show "in_picture w h p" if "p \<in> set (box_scan b)" for p by (rule Cons.prems(3) [OF that])
  qed (use Cons.prems(1,4-6) in \<open>simp_all add: block_step_def\<close>)
  show ?case
  proof (cases "q \<in> set (block_scan b block a)")
    case True
    have "find (\<lambda>k. q \<in> set (block_scan b block k)) ks = None"
      unfolding find_None_iff
    proof
      assume "\<exists>k. k \<in> set ks \<and> q \<in> set (block_scan b block k)"
      then obtain k where k: "k \<in> set ks" "q \<in> set (block_scan b block k)" by auto
      have "k = a" by (rule grid_disjoint [OF Cons.prems(2) Cons.prems(2) k(2) True]) (use k in simp_all)
      then show False using k(1) Cons.prems(1) by simp
    qed
    then show ?thesis using IH True at [OF Cons.prems(5,6)] by simp
  next
    case False
    then show ?thesis using IH at [OF Cons.prems(5,6)] same
      by (auto split: option.split dest: find_Some_mem)
  qed
qed simp

lemma block_step_only: "\<lbrakk>k \<in> set (grid b block); \<And>p. p \<in> set (box_scan b) \<Longrightarrow> in_picture w h p; nat (w * h) * ch \<le> length px\<rbrakk> \<Longrightarrow>
    only_inside F w h ch poly px (block_step w ch (centre_inside F poly) b block k px)"
  unfolding block_step_def by (rule paint_only_inside) (auto dest: block_in_box)

lemma fold_blocks_only:
  assumes "\<And>k. k \<in> set ks \<Longrightarrow> k \<in> set (grid b block)" "\<And>p. p \<in> set (box_scan b) \<Longrightarrow> in_picture w h p"
    and "nat (w * h) * ch \<le> length px"
  shows "only_inside F w h ch poly px (fold (block_step w ch (centre_inside F poly) b block) ks px)"
  using assms(1,3)
proof (induction ks arbitrary: px)
  case (Cons k ks)
  have "only_inside F w h ch poly px (block_step w ch (centre_inside F poly) b block k px)"
    by (rule block_step_only [OF Cons.prems(1) assms(2) Cons.prems(2)]) auto
  moreover have "only_inside F w h ch poly (block_step w ch (centre_inside F poly) b block k px)
      (fold (block_step w ch (centre_inside F poly) b block) ks (block_step w ch (centre_inside F poly) b block k px))"
    by (rule Cons.IH) (use Cons.prems in \<open>auto simp: block_step_def\<close>)
  ultimately show ?case by (auto intro: only_inside_trans)
qed simp

lemma at_least_one: "(if n < 1 then 1 else n) = max 1 (n :: int)"
  by (simp add: max_def)

lemma pixelate_region_fold:
  assumes b: "polygon_bbox F Rd poly w h = Some b" "0 < w" "0 < h" and ch: "0 < ch" "ch \<le> 4"
    and len: "nat (w * h) * ch \<le> length px" and v: "bbox_valid b" and fit: "sizes_fit w h (max 1 block)"
  shows "pixelate_region F Rd w h ch poly block px =
    Some (fold (block_step w ch (centre_inside F poly) b (max 1 block)) (grid b (max 1 block)) px)"
proof -
  have "fold_opt (pixelate_block F poly w ch b (max 1 block)) (grid b (max 1 block)) px =
      Some (fold (block_step w ch (centre_inside F poly) b (max 1 block)) (grid b (max 1 block)) px)"
  proof (rule fold_opt_fold [where I = "\<lambda>q. length q = length px", THEN conjunct1])
    fix k and q :: bytes assume k: "k \<in> set (grid b (max 1 block))" "length q = length px"
    have "pixelate_block F poly w ch b (max 1 block) k q = Some (block_step w ch (centre_inside F poly) b (max 1 block) k q)"
      unfolding block_step_def
      by (rule pixelate_block_paint [OF box_scan_in [OF b] _ ch(2) grid_in_box [OF k(1)] _ fit]) (use k(2) len in simp_all)
    then show "pixelate_block F poly w ch b (max 1 block) k q = Some (block_step w ch (centre_inside F poly) b (max 1 block) k q) \<and>
        length (block_step w ch (centre_inside F poly) b (max 1 block) k q) = length px"
      using k(2) by (simp add: block_step_def)
  qed simp
  then show ?thesis
    using b ch v by (simp add: pixelate_region_def Let_def grid_def at_least_one)
qed

lemma pixelate_region_ok:
  assumes "polygon_bbox F Rd poly w h = Some b" "0 < w" "0 < h" "0 < ch" "ch \<le> 4" "nat (w * h) * ch \<le> length px"
    "sizes_fit w h (max 1 block)"
  shows "\<exists>px'. pixelate_region F Rd w h ch poly block px = Some px' \<and> only_inside F w h ch poly px px'"
proof (cases "bbox_valid b")
  case True
  show ?thesis
    using pixelate_region_fold [OF assms(1-6) True assms(7)] fold_blocks_only [OF _ box_scan_in [OF assms(1-3)] assms(6)] by auto
next
  case False
  then show ?thesis using assms(1-4) by (simp add: pixelate_region_def Let_def)
qed

section \<open>Blurring\<close>

lemma row_bound:
  assumes "0 \<le> x0" "x1 \<le> w" "x0 < x1" "0 \<le> y" "y < h"
  shows "nat (y * w + x0) * ch + nat (x1 - x0) * ch \<le> nat (w * h) * ch"
proof -
  have "y * w + x1 \<le> (y + 1) * w" using assms(2) by (simp add: algebra_simps)
  also have "\<dots> \<le> h * w" by (rule mult_right_mono) (use assms in simp_all)
  finally have "nat (y * w + x0) + nat (x1 - x0) \<le> nat (w * h)"
    using assms by (simp add: nat_add_distrib [symmetric] mult.commute)
  from mult_right_mono [OF this, of ch] show ?thesis by (simp add: add_mult_distrib)
qed

lemma length_concat_same: "(\<And>r. r \<in> set rs \<Longrightarrow> length r = n) \<Longrightarrow> length (concat rs) = length rs * n"
  by (induction rs) auto

lemma box_copy_ok:
  assumes b: "polygon_bbox F Rd poly w h = Some b" "0 < w" "0 < h" "bbox_valid b" and len: "nat (w * h) * ch \<le> length px"
  shows "\<exists>src. box_copy w ch b px = Some src \<and> length src = nat ((bb_x1 b - bb_x0 b) * (bb_y1 b - bb_y0 b)) * ch"
proof -
  note r = polygon_bbox_bounds [OF b(1-3)]
  have v: "bb_x0 b < bb_x1 b" "bb_y0 b < bb_y1 b" using b(4) by (simp_all add: bbox_valid_def)
  let ?n = "nat (bb_x1 b - bb_x0 b) * ch"
  let ?rows = "map (\<lambda>y. take ?n (drop (nat (y * w + bb_x0 b) * ch) px)) [bb_y0 b..bb_y1 b - 1]"
  have row: "nat (y * w + bb_x0 b) * ch + ?n \<le> length px" if "y \<in> set [bb_y0 b..bb_y1 b - 1]" for y
    using row_bound [of "bb_x0 b" "bb_x1 b" w y h ch] r v that len by simp
  have "box_copy w ch b px = Some (concat ?rows)"
    unfolding box_copy_def Let_def by (subst those_map_Some [where g = "\<lambda>y. take ?n (drop (nat (y * w + bb_x0 b) * ch) px)"]) (use row in auto)
  moreover have "length (concat ?rows) = length ?rows * ?n"
    by (rule length_concat_same) (use row in fastforce)
  ultimately show ?thesis using v by (simp add: nat_mult_distrib mult.assoc mult.commute mult.left_commute)
qed

lemma blur_value_ok:
  assumes v: "bbox_valid b" and src: "length src = nat ((bb_x1 b - bb_x0 b) * (bb_y1 b - bb_y0 b)) * ch"
    and p: "p \<in> set (box_scan b)" "in_picture w h p" "0 \<le> bb_x0 b" "0 \<le> bb_y0 b" and c: "c < ch"
    and r: "1 \<le> radius" "sizes_fit w h radius"
  shows "\<exists>x. blur_value b ch src radius p c = Some x"
proof -
  have at: "\<exists>v. blur_at b ch src x y c = Some v" for x y :: int
  proof -
    let ?q = "(min (max x 0) (bb_x1 b - bb_x0 b - 1), min (max y 0) (bb_y1 b - bb_y0 b - 1))"
    have "in_picture (bb_x1 b - bb_x0 b) (bb_y1 b - bb_y0 b) ?q" using v by (auto simp: in_picture_def bbox_valid_def)
    from px_index_bound [OF this c] show ?thesis by (simp add: blur_at_def Let_def get_px_def src)
  qed
  have "\<exists>t. fold_opt (\<lambda>d acc. map_option (\<lambda>v. acc + v) (blur_at b ch src (fst p - bb_x0 b + fst d) (snd p - bb_y0 b + snd d) c))
      (blur_window radius) 0 = Some t \<and> True"
    by (rule fold_opt_inv) (use at in \<open>auto simp: option.map_sel\<close>)
  moreover have "(2 * radius + 1) * (2 * radius + 1) \<le> (2 * 23169 + 1) * (2 * 23169 + 1)"
    using r by (intro mult_mono) (auto simp: sizes_fit_def)
  then have "int_ok ((2 * radius + 1) * (2 * radius + 1))" using r by (auto simp: int_ok_def intro: order_trans [of _ 0])
  moreover have "int_ok (radius + 1)" "int_ok (fst p - bb_x0 b + radius)" "int_ok (snd p - bb_y0 b + radius)"
    using p r by (auto simp: int_ok_def sizes_fit_def in_picture_def mem_scan)
  ultimately show ?thesis by (auto simp: blur_value_def Let_def)
qed

lemma blur_region_ok:
  assumes "polygon_bbox F Rd poly w h = Some b" "0 < w" "0 < h" "0 < ch" "nat (w * h) * ch \<le> length px" "sizes_fit w h (max 1 radius)"
  shows "\<exists>px'. blur_region F Rd w h ch poly radius px = Some px' \<and> only_inside F w h ch poly px px'"
proof (cases "bbox_valid b")
  case True
  obtain src where src: "box_copy w ch b px = Some src"
    "length src = nat ((bb_x1 b - bb_x0 b) * (bb_y1 b - bb_y0 b)) * ch"
    using box_copy_ok [OF assms(1-3) True assms(5)] by auto
  have val: "blur_value b ch src (max 1 radius) p c = Some (the (blur_value b ch src (max 1 radius) p c))"
    if "p \<in> set (box_scan b)" "c < ch" for p c
    using blur_value_ok [OF True src(2) that(1) box_scan_in [OF assms(1-3) that(1)] _ _ that(2) _ assms(6)]
      polygon_bbox_bounds [OF assms(1-3)] by fastforce
  have "fold_opt (\<lambda>p px. if centre_inside F poly p then write_pixel w ch p (blur_value b ch src (max 1 radius) p) px else Some px) (box_scan b) px =
      Some (paint_all w ch (centre_inside F poly) (\<lambda>p c. the (blur_value b ch src (max 1 radius) p c)) (box_scan b) px)"
    by (rule paint_loop [OF box_scan_in [OF assms(1-3)] assms(5)]) (use val in auto)
  then have "blur_region F Rd w h ch poly radius px =
      Some (paint_all w ch (centre_inside F poly) (\<lambda>p c. the (blur_value b ch src (max 1 radius) p c)) (box_scan b) px)"
    using assms(1-4) True src(1) by (simp add: blur_region_def Let_def at_least_one)
  then show ?thesis using paint_only_inside [OF box_scan_in [OF assms(1-3)] assms(5)] by blast
next
  case False
  then show ?thesis using assms(1-4) by (simp add: blur_region_def Let_def)
qed

section \<open>Frames\<close>

lemma apply_region_ok:
  assumes "polygon_bbox F Rd poly (pm_frameWidth ctx) (pm_frameHeight ctx) \<noteq> None" "0 < pm_frameWidth ctx" "0 < pm_frameHeight ctx"
    and "0 < ch" "ch \<le> 4" "nat (pm_frameWidth ctx * pm_frameHeight ctx) * ch \<le> length px"
    and "sizes_fit (pm_frameWidth ctx) (pm_frameHeight ctx) (max 1 (pm_blurSize ctx))"
  shows "\<exists>px'. apply_region F Rd ctx ch poly px = Some px' \<and> only_inside F (pm_frameWidth ctx) (pm_frameHeight ctx) ch poly px px'"
proof -
  obtain b where b: "polygon_bbox F Rd poly (pm_frameWidth ctx) (pm_frameHeight ctx) = Some b" using assms(1) by auto
  show ?thesis
    using black_region_ok [OF b assms(2-4,6)] pixelate_region_ok [OF b assms(2-7)] blur_region_ok [OF b assms(2-4,6,7)]
    by (cases "pm_mode ctx") (simp_all add: apply_region_def Let_def)
qed

definition masked_pixel :: "'f floats \<Rightarrow> 'f PrivacyMaskCtx \<Rightarrow> int \<times> int \<Rightarrow> bool" where
  "masked_pixel F ctx q \<longleftrightarrow> (\<exists>poly \<in> set (pm_regions ctx). centre_inside F poly q)"

text \<open>The configuration asks for no integer outside of \<open>int\<close>.\<close>

definition mask_config_ok :: "'f floats \<Rightarrow> 'f rounding \<Rightarrow> 'f PrivacyMaskCtx \<Rightarrow> bool" where
  "mask_config_ok F Rd ctx \<longleftrightarrow>
     (\<forall>poly \<in> set (pm_regions ctx). polygon_bbox F Rd poly (pm_frameWidth ctx) (pm_frameHeight ctx) \<noteq> None) \<and>
     sizes_fit (pm_frameWidth ctx) (pm_frameHeight ctx) (max 1 (pm_blurSize ctx))"

text \<open>The byte of a frame that holds channel \<open>c\<close> of a pixel.\<close>

definition frame_px :: "'f PrivacyMaskCtx \<Rightarrow> nat \<Rightarrow> bytes \<Rightarrow> int \<times> int \<Rightarrow> nat \<Rightarrow> u8" where
  "frame_px ctx ch buf q c = buf ! (sizeof_frame_hdr + px_index (pm_frameWidth ctx) ch q c)"

abbreviation frame_channels :: "bytes \<Rightarrow> nat" where
  "frame_channels buf \<equiv> channels_for_hw_type (fh_hw_type (frame_hdr buf))"

lemma channels_small: "channels_for_hw_type t \<le> 4"
  by (simp add: channels_for_hw_type_def)

lemma maskable_facts:
  assumes "maskable ctx buf"
  shows "sizeof_frame_hdr \<le> length buf" "0 < pm_frameWidth ctx" "0 < pm_frameHeight ctx" "0 < frame_channels buf"
    "nat (pm_frameWidth ctx * pm_frameHeight ctx) * frame_channels buf \<le> length (drop sizeof_frame_hdr buf)"
  using assms by (auto simp: maskable_def Let_def)

lemma regions_loop:
  assumes "mask_config_ok F Rd ctx" "0 < pm_frameWidth ctx" "0 < pm_frameHeight ctx" "0 < ch" "ch \<le> 4"
    and "nat (pm_frameWidth ctx * pm_frameHeight ctx) * ch \<le> length px" "set polys \<subseteq> set (pm_regions ctx)"
  shows "\<exists>px'. fold_opt (apply_region F Rd ctx ch) polys px = Some px' \<and> length px' = length px \<and>
    (\<forall>q c. in_picture (pm_frameWidth ctx) (pm_frameHeight ctx) q \<and> c < ch \<and> (\<forall>poly \<in> set polys. \<not> centre_inside F poly q) \<longrightarrow>
      px' ! px_index (pm_frameWidth ctx) ch q c = px ! px_index (pm_frameWidth ctx) ch q c) \<and>
    (\<forall>i. nat (pm_frameWidth ctx * pm_frameHeight ctx) * ch \<le> i \<and> i < length px \<longrightarrow> px' ! i = px ! i)"
  using assms(6,7)
proof (induction polys arbitrary: px)
  case (Cons poly polys)
  have "polygon_bbox F Rd poly (pm_frameWidth ctx) (pm_frameHeight ctx) \<noteq> None"
    "sizes_fit (pm_frameWidth ctx) (pm_frameHeight ctx) (max 1 (pm_blurSize ctx))"
    using assms(1) Cons.prems(2) by (auto simp: mask_config_ok_def)
  from apply_region_ok [OF this(1) assms(2-5) Cons.prems(1) this(2)] obtain px1 where 1: "apply_region F Rd ctx ch poly px = Some px1"
    "only_inside F (pm_frameWidth ctx) (pm_frameHeight ctx) ch poly px px1" by blast
  have len: "length px1 = length px" using 1(2) by (simp add: only_inside_def)
  have "set polys \<subseteq> set (pm_regions ctx)" using Cons.prems(2) by simp
  from Cons.IH [OF _ this, of px1] len Cons.prems(1) obtain px' where 2: "fold_opt (apply_region F Rd ctx ch) polys px1 = Some px'"
    "length px' = length px" "\<forall>q c. in_picture (pm_frameWidth ctx) (pm_frameHeight ctx) q \<and> c < ch \<and> (\<forall>poly \<in> set polys. \<not> centre_inside F poly q) \<longrightarrow>
      px' ! px_index (pm_frameWidth ctx) ch q c = px1 ! px_index (pm_frameWidth ctx) ch q c"
    "\<forall>i. nat (pm_frameWidth ctx * pm_frameHeight ctx) * ch \<le> i \<and> i < length px \<longrightarrow> px' ! i = px1 ! i" by auto
  show ?case using 1 2 by (simp add: only_inside_def)
qed simp

text \<open>
  C20. For every mode and whatever the floating-point arithmetic answers, as long as the configured numbers fit
  into \<open>int\<close>: masking a frame reads and writes inside of its buffers only and forwards a frame of the same length
  with the same header, in which every pixel whose centre lies in no polygon, and every byte behind the picture,
  is as it was.
\<close>

theorem privacy_mask_safe:
  assumes "mask_config_ok F Rd ctx" "maskable ctx buf"
  shows "\<exists>buf'. privacy_mask_on_frame F Rd ctx buf = Some buf' \<and> length buf' = length buf \<and>
    take sizeof_frame_hdr buf' = take sizeof_frame_hdr buf \<and>
    (\<forall>q c. in_picture (pm_frameWidth ctx) (pm_frameHeight ctx) q \<and> c < frame_channels buf \<and> \<not> masked_pixel F ctx q \<longrightarrow>
      frame_px ctx (frame_channels buf) buf' q c = frame_px ctx (frame_channels buf) buf q c) \<and>
    (\<forall>i. sizeof_frame_hdr + nat (pm_frameWidth ctx * pm_frameHeight ctx) * frame_channels buf \<le> i \<and> i < length buf \<longrightarrow> buf' ! i = buf ! i)"
proof -
  note m = maskable_facts [OF assms(2)]
  let ?px = "drop sizeof_frame_hdr buf" and ?ch = "frame_channels buf" and ?n = sizeof_frame_hdr
  obtain px' where px': "fold_opt (apply_region F Rd ctx ?ch) (pm_regions ctx) ?px = Some px'" "length px' = length ?px"
    "\<forall>q c. in_picture (pm_frameWidth ctx) (pm_frameHeight ctx) q \<and> c < ?ch \<and> (\<forall>poly \<in> set (pm_regions ctx). \<not> centre_inside F poly q) \<longrightarrow>
      px' ! px_index (pm_frameWidth ctx) ?ch q c = ?px ! px_index (pm_frameWidth ctx) ?ch q c"
    "\<forall>i. nat (pm_frameWidth ctx * pm_frameHeight ctx) * ?ch \<le> i \<and> i < length ?px \<longrightarrow> px' ! i = ?px ! i"
    using regions_loop [OF assms(1) m(2,3,4) channels_small m(5) order_refl] by auto
  have nth: "(take ?n buf @ px') ! (?n + i) = px' ! i" "buf ! (?n + i) = ?px ! i" for i
    using m(1) by (simp_all add: nth_append)
  have behind: "(take ?n buf @ px') ! i = buf ! i"
    if "?n + nat (pm_frameWidth ctx * pm_frameHeight ctx) * ?ch \<le> i" "i < length buf" for i
  proof -
    have "?n \<le> i" using that(1) by simp
    then obtain j where i: "i = ?n + j" using le_Suc_ex by blast
    then have "px' ! j = ?px ! j" using px'(4) that by simp
    then show ?thesis unfolding i nth .
  qed
  have "privacy_mask_on_frame F Rd ctx buf = Some (take ?n buf @ px')"
    using assms(2) px'(1) by (simp add: privacy_mask_on_frame_def)
  moreover have "length (take ?n buf @ px') = length buf" "take ?n (take ?n buf @ px') = take ?n buf"
    using m(1) px'(2) by simp_all
  moreover have "frame_px ctx ?ch (take ?n buf @ px') q c = frame_px ctx ?ch buf q c"
    if "in_picture (pm_frameWidth ctx) (pm_frameHeight ctx) q" "c < ?ch" "\<not> masked_pixel F ctx q" for q c
    unfolding frame_px_def nth using px'(3) [rule_format, of q c] that by (simp add: masked_pixel_def)
  ultimately show ?thesis using behind by blast
qed

section \<open>Exact arithmetic\<close>

definition real_rounding :: "real rounding" where
  "real_rounding = \<lparr>rd_floor = (\<lambda>x. Some \<lfloor>x\<rfloor>), rd_ceil = (\<lambda>x. Some \<lceil>x\<rceil>)\<rparr>"

text \<open>The even-odd rule: the edges to the right of a point that the horizontal ray from it crosses.\<close>

definition edges_of :: "'f MaskPt list \<Rightarrow> ('f MaskPt \<times> 'f MaskPt) list" where
  "edges_of poly = zip poly (last poly # poly)"

definition crossings :: "'f floats \<Rightarrow> 'f MaskPt list \<Rightarrow> 'f \<Rightarrow> 'f \<Rightarrow> nat" where
  "crossings F poly x y = length (filter (\<lambda>(pi, pj). mask_ray_crosses F x y pi pj) (edges_of poly))"

lemma mask_edges_odd:
  "mask_edges F x y pj ps inside \<longleftrightarrow> inside \<noteq> odd (length (filter (\<lambda>(pi, pj). mask_ray_crosses F x y pi pj) (zip ps (pj # ps))))"
  by (induction ps arbitrary: pj inside) auto

lemma inside_even_odd: "mask_point_in_polygon F poly x y \<longleftrightarrow> 3 \<le> length poly \<and> odd (crossings F poly x y)"
  by (auto simp: mask_point_in_polygon_def mask_edges_odd crossings_def edges_of_def)

definition crossing_x :: "real \<Rightarrow> real MaskPt \<Rightarrow> real MaskPt \<Rightarrow> real" where
  "crossing_x y p q = mk_x p + (y - mk_y p) / (mk_y q - mk_y p) * (mk_x q - mk_x p)"

lemma mask_ray_crosses_real:
  "mask_ray_crosses real_floats x y p q \<longleftrightarrow> (y < mk_y p) \<noteq> (y < mk_y q) \<and> x < crossing_x y p q"
  by (simp add: mask_ray_crosses_def crossing_x_def Let_def)

lemma crossing_x_between:
  assumes "(y < mk_y p) \<noteq> (y < mk_y q)"
  shows "min (mk_x p) (mk_x q) \<le> crossing_x y p q \<and> crossing_x y p q \<le> max (mk_x p) (mk_x q)"
proof -
  let ?s = "(y - mk_y p) / (mk_y q - mk_y p)"
  have "0 \<le> ?s \<and> ?s \<le> 1" using assms by (auto simp: divide_simps)
  then show ?thesis using range_of_segment [of ?s "crossing_x y p q" "mk_x p" "mk_x q"] by (simp add: crossing_x_def)
qed

text \<open>Left of all corners the number of crossings is even: it counts the changes of side around the polygon.\<close>

lemma changes_even:
  "mask_edges real_floats x y pj ps inside \<longleftrightarrow> inside \<noteq> ((y < mk_y pj) \<noteq> (y < mk_y (last (pj # ps))))"
  if "\<forall>p \<in> set (pj # ps). x < mk_x p"
  using that
proof (induction ps arbitrary: pj inside)
  case (Cons p ps)
  have "x < min (mk_x p) (mk_x pj)" using Cons.prems by simp
  then have "mask_ray_crosses real_floats x y p pj \<longleftrightarrow> (y < mk_y p) \<noteq> (y < mk_y pj)"
    using crossing_x_between [of y p pj] by (auto simp: mask_ray_crosses_real)
  then show ?case using Cons by auto
qed simp

lemma no_crossing:
  assumes "\<And>p q. \<lbrakk>p \<in> set (pj # ps); q \<in> set (pj # ps)\<rbrakk> \<Longrightarrow> \<not> mask_ray_crosses F x y p q"
  shows "mask_edges F x y pj ps inside = inside"
  using assms by (induction ps arbitrary: pj inside) auto

lemma inside_box:
  assumes "mask_point_in_polygon real_floats poly x y"
  shows "\<exists>p \<in> set poly. mk_x p \<le> x" "\<exists>p \<in> set poly. x < mk_x p" "\<exists>p \<in> set poly. mk_y p \<le> y" "\<exists>p \<in> set poly. y < mk_y p"
proof -
  have n: "poly \<noteq> []" and e: "mask_edges real_floats x y (last poly) poly False"
    using assms by (auto simp: mask_point_in_polygon_def split: if_splits)
  have l: "set (last poly # poly) = set poly" using n by auto
  show "\<exists>p \<in> set poly. mk_x p \<le> x"
  proof (rule ccontr)
    assume "\<not> ?thesis"
    then have "\<forall>p \<in> set (last poly # poly). x < mk_x p" unfolding l by auto
    from changes_even [OF this] e n show False by simp
  qed
  have c: "\<exists>p q. p \<in> set poly \<and> q \<in> set poly \<and> mask_ray_crosses real_floats x y p q"
    using no_crossing [of "last poly" poly real_floats x y False] e unfolding l by blast
  then obtain p q where pq: "p \<in> set poly" "q \<in> set poly" "(y < mk_y p) \<noteq> (y < mk_y q)" "x < crossing_x y p q"
    by (auto simp: mask_ray_crosses_real)
  show "\<exists>p \<in> set poly. x < mk_x p"
  proof -
    have "x < max (mk_x p) (mk_x q)" using crossing_x_between [OF pq(3)] pq(4) by linarith
    then show ?thesis using pq(1,2) by (auto simp: max_def split: if_splits)
  qed
  show "\<exists>p \<in> set poly. mk_y p \<le> y" "\<exists>p \<in> set poly. y < mk_y p" using pq(1-3) by (metis not_less)+
qed

lemma fold_min_le: "p \<in> set ps \<or> m \<le> f p \<Longrightarrow> fold (\<lambda>p m. min m (f p)) ps m \<le> (f p :: real)"
proof (induction ps arbitrary: m)
  case (Cons a ps)
  then show ?case using Cons.IH [of "min m (f a)"] by (auto simp: min_def split: if_splits)
qed auto

lemma fold_max_ge: "p \<in> set ps \<or> f p \<le> m \<Longrightarrow> (f p :: real) \<le> fold (\<lambda>p m. max m (f p)) ps m"
proof (induction ps arbitrary: m)
  case (Cons a ps)
  then show ?case using Cons.IH [of "max m (f a)"] by (auto simp: max_def split: if_splits)
qed auto

lemma fl_min_max_real [simp]: "fl_min real_floats = min" "fl_max real_floats = max"
  by (auto simp: fun_eq_iff fl_min_def fl_max_def)

text \<open>The box of a polygon has every pixel of the picture whose centre is inside.\<close>

lemma centre_in_box:
  assumes b: "polygon_bbox real_floats real_rounding poly w h = Some b" and q: "in_picture w h q" "centre_inside real_floats poly q"
  shows "q \<in> set (box_scan b)"
proof -
  let ?x = "of_int (fst q) + (1 / 2 :: real)" and ?y = "of_int (snd q) + (1 / 2 :: real)"
  have "mask_point_in_polygon real_floats poly ?x ?y" using q(2) by (simp add: centre_inside_def real_floats_def)
  note i = inside_box [OF this]
  have n: "poly \<noteq> []" "0 < w" "0 < h" using i(1) q(1) by (auto simp: in_picture_def)
  let ?lo = "\<lambda>f. fold (\<lambda>p m. min m (f p)) poly (f (hd poly))" and ?hi = "\<lambda>f. fold (\<lambda>p m. max m (f p)) poly (f (hd poly))"
  have r: "?lo mk_x \<le> ?x" "?x < ?hi mk_x" "?lo mk_y \<le> ?y" "?y < ?hi mk_y"
    using i fold_min_le [of _ poly _ mk_x] fold_max_ge [of _ poly mk_x] fold_min_le [of _ poly _ mk_y] fold_max_ge [of _ poly mk_y]
    by (meson order_trans order_less_le_trans)+
  have "\<lfloor>?lo mk_x\<rfloor> \<le> fst q" "fst q < \<lceil>?hi mk_x\<rceil> + 1" "\<lfloor>?lo mk_y\<rfloor> \<le> snd q" "snd q < \<lceil>?hi mk_y\<rceil> + 1"
    using r by linarith+
  then show ?thesis
    using b n q(1)
    by (auto simp: polygon_bbox_def real_rounding_def to_int_def Let_def mem_scan in_picture_def split: if_splits Option.bind_splits)
qed

lemma black_region_exact:
  assumes "polygon_bbox real_floats real_rounding poly w h = Some b" "0 < w" "0 < h" "0 < ch" "nat (w * h) * ch \<le> length px"
  shows "\<exists>px'. black_region real_floats real_rounding w h ch poly px = Some px' \<and> length px' = length px \<and>
    (\<forall>q c. in_picture w h q \<and> c < ch \<longrightarrow>
      px' ! px_index w ch q c = (if centre_inside real_floats poly q then 0 else px ! px_index w ch q c))"
proof (cases "bbox_valid b")
  case True
  have "paint_all w ch (centre_inside real_floats poly) (\<lambda>_ _. 0) (box_scan b) px ! px_index w ch q c =
      (if centre_inside real_floats poly q then 0 else px ! px_index w ch q c)" if "in_picture w h q" "c < ch" for q c
    using paint_all_at [OF box_scan_in [OF assms(1-3)] that(1) assms(5) that(2)] centre_in_box [OF assms(1) that(1)] by simp
  then show ?thesis using black_region_paint [OF assms True] by simp
next
  case False
  have "\<not> centre_inside real_floats poly q" if "in_picture w h q" for q
    using centre_in_box [OF assms(1) that] False by (auto simp: bbox_valid_def mem_scan)
  then show ?thesis using False assms(1-4) by (simp add: black_region_def)
qed

lemma black_loop:
  assumes "mask_config_ok real_floats real_rounding ctx" "0 < pm_frameWidth ctx" "0 < pm_frameHeight ctx" "0 < ch" "pm_mode ctx = Black"
    and "nat (pm_frameWidth ctx * pm_frameHeight ctx) * ch \<le> length px" "set polys \<subseteq> set (pm_regions ctx)"
  shows "\<exists>px'. fold_opt (apply_region real_floats real_rounding ctx ch) polys px = Some px' \<and> length px' = length px \<and>
    (\<forall>q c. in_picture (pm_frameWidth ctx) (pm_frameHeight ctx) q \<and> c < ch \<longrightarrow>
      px' ! px_index (pm_frameWidth ctx) ch q c =
        (if \<exists>poly \<in> set polys. centre_inside real_floats poly q then 0 else px ! px_index (pm_frameWidth ctx) ch q c))"
  using assms(6,7)
proof (induction polys arbitrary: px)
  case (Cons poly polys)
  obtain b where b: "polygon_bbox real_floats real_rounding poly (pm_frameWidth ctx) (pm_frameHeight ctx) = Some b"
    using assms(1) Cons.prems(2) by (auto simp: mask_config_ok_def)
  from black_region_exact [OF b assms(2-4) Cons.prems(1)] obtain px1 where
    1: "apply_region real_floats real_rounding ctx ch poly px = Some px1" "length px1 = length px"
    "\<forall>q c. in_picture (pm_frameWidth ctx) (pm_frameHeight ctx) q \<and> c < ch \<longrightarrow>
      px1 ! px_index (pm_frameWidth ctx) ch q c = (if centre_inside real_floats poly q then 0 else px ! px_index (pm_frameWidth ctx) ch q c)"
    using assms(5) by (auto simp: apply_region_def Let_def)
  have "set polys \<subseteq> set (pm_regions ctx)" using Cons.prems(2) by simp
  from Cons.IH [OF _ this, of px1] 1(2) Cons.prems(1) obtain px' where
    2: "fold_opt (apply_region real_floats real_rounding ctx ch) polys px1 = Some px'" "length px' = length px"
    "\<forall>q c. in_picture (pm_frameWidth ctx) (pm_frameHeight ctx) q \<and> c < ch \<longrightarrow>
      px' ! px_index (pm_frameWidth ctx) ch q c =
        (if \<exists>poly \<in> set polys. centre_inside real_floats poly q then 0 else px1 ! px_index (pm_frameWidth ctx) ch q c)" by auto
  show ?case using 1 2 by (auto simp del: split_paired_All)
qed simp

text \<open>
  C19. With exact arithmetic the black mask is exact: in the frame that is forwarded a pixel is black in every channel if its
  centre is inside of one of the polygons by the even-odd rule (the ray to the right crosses an odd number of edges), and
  as it was otherwise. The bounding box that the loop is limited to loses none of these pixels.
\<close>

theorem black_mask_exact:
  assumes "mask_config_ok real_floats real_rounding ctx" "maskable ctx buf" "pm_mode ctx = Black"
  shows "\<exists>buf'. privacy_mask_on_frame real_floats real_rounding ctx buf = Some buf' \<and>
    (\<forall>q c. in_picture (pm_frameWidth ctx) (pm_frameHeight ctx) q \<and> c < frame_channels buf \<longrightarrow>
      frame_px ctx (frame_channels buf) buf' q c =
        (if \<exists>poly \<in> set (pm_regions ctx). 3 \<le> length poly \<and> odd (crossings real_floats poly (of_int (fst q) + 1 / 2) (of_int (snd q) + 1 / 2))
         then 0 else frame_px ctx (frame_channels buf) buf q c))"
proof -
  note m = maskable_facts [OF assms(2)]
  have inside: "centre_inside real_floats poly q \<longleftrightarrow>
      3 \<le> length poly \<and> odd (crossings real_floats poly (of_int (fst q) + 1 / 2) (of_int (snd q) + 1 / 2))" for poly q
    by (simp add: centre_inside_def inside_even_odd real_floats_def)
  obtain px' where px': "fold_opt (apply_region real_floats real_rounding ctx (frame_channels buf)) (pm_regions ctx) (drop sizeof_frame_hdr buf) = Some px'"
    "\<forall>q c. in_picture (pm_frameWidth ctx) (pm_frameHeight ctx) q \<and> c < frame_channels buf \<longrightarrow>
      px' ! px_index (pm_frameWidth ctx) (frame_channels buf) q c =
        (if \<exists>poly \<in> set (pm_regions ctx). centre_inside real_floats poly q then 0
         else drop sizeof_frame_hdr buf ! px_index (pm_frameWidth ctx) (frame_channels buf) q c)"
    using black_loop [OF assms(1) m(2,3,4) assms(3) m(5) order_refl] by blast
  have nth: "(take sizeof_frame_hdr buf @ px') ! (sizeof_frame_hdr + i) = px' ! i"
    "buf ! (sizeof_frame_hdr + i) = drop sizeof_frame_hdr buf ! i" for i
    using m(1) by (simp_all add: nth_append)
  show ?thesis
  proof (rule exI [of _ "take sizeof_frame_hdr buf @ px'"], rule conjI)
    show "privacy_mask_on_frame real_floats real_rounding ctx buf = Some (take sizeof_frame_hdr buf @ px')"
      using assms(2) px'(1) by (simp add: privacy_mask_on_frame_def)
  qed (use px'(2) in \<open>unfold frame_px_def nth inside\<close>)
qed

section \<open>The mosaic\<close>

text \<open>The corner of the block that a pixel lies in.\<close>

definition block_corner :: "BBox \<Rightarrow> int \<Rightarrow> int \<times> int \<Rightarrow> int \<times> int" where
  "block_corner b block q =
     (bb_x0 b + (fst q - bb_x0 b) div block * block, bb_y0 b + (snd q - bb_y0 b) div block * block)"

lemma stepped_mem: "i + int k * s < e \<Longrightarrow> 0 < s \<Longrightarrow> i + int k * s \<in> set (stepped i e s)"
proof (induction k arbitrary: i)
  case 0
  then show ?case by (simp add: stepped.simps [of i e s])
next
  case (Suc k)
  have "0 \<le> s * int k" using Suc.prems(2) by simp
  moreover have "i + s + s * int k < e" using Suc.prems(1) by (simp add: algebra_simps)
  ultimately have "i < e" using Suc.prems(2) by linarith
  moreover have "i + s + int k * s \<in> set (stepped (i + s) e s)"
    using Suc.IH [of "i + s"] Suc.prems by (simp add: algebra_simps)
  ultimately show ?case using Suc.prems(2) by (simp add: stepped.simps [of i e s] algebra_simps)
qed

lemma corner_of:
  fixes i x s e :: int
  assumes "i \<le> x" "x < e" "0 < s"
  defines "k \<equiv> i + (x - i) div s * s"
  shows "k \<in> set (stepped i e s) \<and> k \<le> x \<and> x < k + s"
proof -
  have d: "0 \<le> (x - i) div s" using assms by (simp add: pos_imp_zdiv_nonneg_iff)
  have m: "(x - i) div s * s \<le> x - i" "x - i < (x - i) div s * s + s"
    using div_mult_mod_eq [of "x - i" s] pos_mod_bound [OF assms(3), of "x - i"] pos_mod_sign [OF assms(3), of "x - i"] by linarith+
  then show ?thesis using stepped_mem [of i "nat ((x - i) div s)" s e] d assms by simp
qed

lemma block_of_corner:
  assumes "q \<in> set (box_scan b)" "0 < block"
  shows "block_corner b block q \<in> set (grid b block) \<and> q \<in> set (block_scan b block (block_corner b block q))"
proof -
  have r: "bb_x0 b \<le> fst q" "fst q < bb_x1 b" "bb_y0 b \<le> snd q" "snd q < bb_y1 b" using assms(1) by (simp_all add: mem_scan)
  show ?thesis
    using corner_of [OF r(1,2) assms(2)] corner_of [OF r(3,4) assms(2)] r
    by (simp add: block_corner_def set_grid block_scan_def mem_scan)
qed

text \<open>
  C21. The mosaic, for any arithmetic: with an edge that fits into the integers, every pixel of the region gets, in every channel, the
  average of its own block, taken over the pixels of the block that are in the region, with the values that they had before
  any block was written. All other pixels keep their value.
\<close>

theorem pixelate_means:
  assumes "polygon_bbox F Rd poly w h = Some b" "0 < w" "0 < h" "0 < ch" "ch \<le> 4" "nat (w * h) * ch \<le> length px"
    and "bbox_valid b" "sizes_fit w h (max 1 block)"
  shows "\<exists>px'. pixelate_region F Rd w h ch poly block px = Some px' \<and>
    (\<forall>q c. in_picture w h q \<and> c < ch \<longrightarrow>
      px' ! px_index w ch q c =
        (if centre_inside F poly q \<and> q \<in> set (box_scan b)
         then mean_inside w ch (centre_inside F poly) px (block_scan b (max 1 block) (block_corner b (max 1 block) q)) c
         else px ! px_index w ch q c))"
proof -
  let ?n = "max 1 block" and ?P = "centre_inside F poly"
  have val: "fold (block_step w ch ?P b ?n) (grid b ?n) px ! px_index w ch q c =
      (if ?P q \<and> q \<in> set (box_scan b) then mean_inside w ch ?P px (block_scan b ?n (block_corner b ?n q)) c else px ! px_index w ch q c)"
    if q: "in_picture w h q" "c < ch" for q c
  proof -
    have "find (\<lambda>k. q \<in> set (block_scan b ?n k)) (grid b ?n) = (if q \<in> set (box_scan b) then Some (block_corner b ?n q) else None)"
    proof (cases "q \<in> set (box_scan b)")
      case True
      have "0 < ?n" by simp
      note c = block_of_corner [OF True this]
      have "find (\<lambda>k. q \<in> set (block_scan b ?n k)) (grid b ?n) \<noteq> None"
        unfolding find_None_iff using c by blast
      then obtain k where k: "find (\<lambda>k. q \<in> set (block_scan b ?n k)) (grid b ?n) = Some k" by blast
      from find_Some_mem [OF k] have "k = block_corner b ?n q" using c by (intro grid_disjoint [of _ b ?n _ q]) auto
      with k True show ?thesis by simp
    next
      case False
      have "find (\<lambda>k. q \<in> set (block_scan b ?n k)) (grid b ?n) = None"
        unfolding find_None_iff using block_in_box False by blast
      then show ?thesis using False by simp
    qed
    then show ?thesis
      using fold_blocks [OF distinct_grid _ box_scan_in [OF assms(1-3)] assms(6) q, where block = ?n and P = ?P] by simp
  qed
  then show ?thesis using pixelate_region_fold [OF assms] val by blast
qed

section \<open>An example\<close>

text \<open>A grey picture of 4 by 2 pixels and a region over its left half.\<close>

definition left_half :: "'f floats \<Rightarrow> 'f MaskPt list" where
  "left_half F = [\<lparr>mk_x = fl_num F 0 1, mk_y = fl_num F 0 1\<rparr>, \<lparr>mk_x = fl_num F 2 1, mk_y = fl_num F 0 1\<rparr>,
     \<lparr>mk_x = fl_num F 2 1, mk_y = fl_num F 2 1\<rparr>, \<lparr>mk_x = fl_num F 0 1, mk_y = fl_num F 2 1\<rparr>]"

definition mask_demo :: "'f floats \<Rightarrow> MaskMode \<Rightarrow> 'f PrivacyMaskCtx" where
  "mask_demo F mode = PrivacyMaskCtx_init\<lparr>pm_frameWidth := 4, pm_frameHeight := 2, pm_mode := mode, pm_blurSize := 2, pm_regions := [left_half F]\<rparr>"

definition grey_demo :: bytes where
  "grey_demo = frame_hdr_bytes \<lparr>fh_stream_id = 1, fh_hw_type = 102, fh_handle = 0, fh_bytes = 8, fh_flags = 0, fh_pts_usec = 7\<rparr> @
     [10, 20, 30, 40, 50, 60, 70, 80]"

definition int_rounding :: "int rounding" where
  "int_rounding = \<lparr>rd_floor = Some, rd_ceil = Some\<rparr>"

lemma mask_demo_ok: "mask_config_ok int_floats int_rounding (mask_demo int_floats Pixelate)" "maskable (mask_demo int_floats Pixelate) grey_demo"
  by code_simp+

theorem privacy_mask_safe_witness:
  "\<exists>buf'. privacy_mask_on_frame int_floats int_rounding (mask_demo int_floats Pixelate) grey_demo = Some buf' \<and> length buf' = length grey_demo"
  using privacy_mask_safe [OF mask_demo_ok] by blast

lemma mask_demo_box: "polygon_bbox int_floats int_rounding (left_half int_floats) 4 2 = Some \<lparr>bb_x0 = 0, bb_y0 = 0, bb_x1 = 3, bb_y1 = 2\<rparr>"
  by code_simp

theorem pixelate_means_witness:
  "\<exists>px'. pixelate_region int_floats int_rounding 4 2 1 (left_half int_floats) 2 [10, 20, 30, 40, 50, 60, 70, 80] = Some px' \<and>
     px' ! px_index 4 1 (0, 1) 0 = 35 \<and> px' ! px_index 4 1 (3, 1) 0 = 80"
proof -
  let ?px = "[10, 20, 30, 40, 50, 60, 70, 80] :: bytes" and ?b = "\<lparr>bb_x0 = 0, bb_y0 = 0, bb_x1 = 3, bb_y1 = 2\<rparr>"
  have v: "bbox_valid ?b" "sizes_fit 4 2 (max 1 2)" by code_simp+
  have e: "centre_inside int_floats (left_half int_floats) (0, 1)" "\<not> centre_inside int_floats (left_half int_floats) (3, 1)"
    "(0, 1) \<in> set (box_scan ?b)" "?px ! px_index 4 1 (3, 1) 0 = 80"
    "mean_inside 4 1 (centre_inside int_floats (left_half int_floats)) ?px (block_scan ?b (max 1 2) (block_corner ?b (max 1 2) (0, 1))) 0 = 35"
    by code_simp+
  have i: "in_picture 4 2 (0, 1)" "in_picture 4 2 (3, 1)" by (simp_all add: in_picture_def)
  from pixelate_means [OF mask_demo_box _ _ _ _ _ v, of 1 ?px] e i show ?thesis by fastforce
qed

lemma left_half_real:
  "left_half real_floats = [\<lparr>mk_x = 0, mk_y = 0\<rparr>, \<lparr>mk_x = 2, mk_y = 0\<rparr>, \<lparr>mk_x = 2, mk_y = 2\<rparr>, \<lparr>mk_x = 0, mk_y = 2\<rparr>]"
  by (simp add: left_half_def real_floats_def)

lemma mask_demo_real_ok:
  "mask_config_ok real_floats real_rounding (mask_demo real_floats Black)" "maskable (mask_demo real_floats Black) grey_demo"
  by (simp_all add: mask_config_ok_def mask_demo_def PrivacyMaskCtx_init_def left_half_real polygon_bbox_def real_rounding_def to_int_def
      int_ok_def sizes_fit_def Let_def maskable_def grey_demo_def channels_for_hw_type_def ZM_FRAME_RGB24_def ZM_FRAME_GRAYSCALE_def
      sizeof_frame_hdr_def length_frame_hdr_bytes [unfolded sizeof_frame_hdr_def])

lemma left_half_crossings:
  "crossings real_floats (left_half real_floats) (1 / 2) (1 / 2) = 1" "crossings real_floats (left_half real_floats) (5 / 2) (1 / 2) = 0"
  by (simp_all add: crossings_def edges_of_def left_half_real mask_ray_crosses_real crossing_x_def)

theorem black_mask_exact_witness:
  "\<exists>buf'. privacy_mask_on_frame real_floats real_rounding (mask_demo real_floats Black) grey_demo = Some buf' \<and>
     frame_px (mask_demo real_floats Black) 1 buf' (0, 0) 0 = 0 \<and> frame_px (mask_demo real_floats Black) 1 buf' (2, 0) 0 = 30"
proof -
  let ?c = "mask_demo real_floats Black"
  have d: "pm_mode ?c = Black" "pm_frameWidth ?c = 4" "pm_frameHeight ?c = 2" "pm_regions ?c = [left_half real_floats]"
    by (simp_all add: mask_demo_def)
  have one: "frame_channels grey_demo = 1" by code_simp
  have old: "frame_px ?c 1 grey_demo (2, 0) 0 = 30"
    by (simp add: frame_px_def mask_demo_def px_index_def grey_demo_def nth_append)
  have n: "length (left_half real_floats) = 4" by (simp add: left_half_real)
  obtain buf' where b: "privacy_mask_on_frame real_floats real_rounding ?c grey_demo = Some buf'"
    "\<forall>q c. in_picture 4 2 q \<and> c < 1 \<longrightarrow> frame_px ?c 1 buf' q c =
      (if \<exists>poly \<in> set [left_half real_floats]. 3 \<le> length poly \<and> odd (crossings real_floats poly (of_int (fst q) + 1 / 2) (of_int (snd q) + 1 / 2))
       then 0 else frame_px ?c 1 grey_demo q c)"
    using black_mask_exact [OF mask_demo_real_ok d(1)] unfolding one d(2-4) by blast
  have "in_picture 4 2 (0, 0)" "in_picture 4 2 (2, 0)" by (simp_all add: in_picture_def)
  then show ?thesis
    using b(1) b(2) [rule_format, of "(0, 0)" 0] b(2) [rule_format, of "(2, 0)" 0] left_half_crossings old n by simp
qed

section \<open>What goes wrong\<close>

text \<open>
  A frame that does not fit the configured dimensions is forwarded with the picture in it, and with
  the default dimensions this is every frame.
\<close>

lemma unsized_frames_pass_unmasked:
  "pm_frameWidth ctx = 0 \<or> length buf < sizeof_frame_hdr + nat (pm_frameWidth ctx * pm_frameHeight ctx) * frame_channels buf \<Longrightarrow>
    privacy_mask_on_frame F Rd ctx buf = Some buf"
  by (auto simp: privacy_mask_on_frame_def maskable_def Let_def)

text \<open>A blur size from 23170 on overflows the kernel's count.\<close>

lemma large_blur_overflows: "23170 \<le> radius \<Longrightarrow> blur_value b ch src radius p c = None"
proof -
  assume "23170 \<le> radius"
  then have "(2 * 23170 + 1) * (2 * 23170 + 1) \<le> (2 * radius + 1) * (2 * radius + 1)" by (intro mult_mono) auto
  then show ?thesis by (simp add: blur_value_def Let_def int_ok_def)
qed

end
