(* ===== verification/Snapshot.thy ===== *)
theory Snapshot
  imports Store
begin

text \<open>
  The snapshot plugin, plugins/store_snapshot: snapshot_util.hpp and store_snapshot.cpp. The JPEG encoder, the
  clocks, the time zone and the file system are parameters. An event is one step here; its two locked regions
  are \<open>snap_check\<close> and \<open>take_snapshot\<close>.
\<close>

section \<open>Which events\<close>

definition snapshot_trigger_defaults :: "string list" where
  "snapshot_trigger_defaults = [''detection'', ''motion'', ''face'', ''lpr'', ''analytics'', ''audio_event'']"

definition should_snapshot :: "string list \<Rightarrow> string \<Rightarrow> int \<Rightarrow> int \<Rightarrow> int \<Rightarrow> bool" where
  "should_snapshot trigger_types ty now_ms last_ms min_interval_ms =
     (if ty = [] then False
      else if ty \<notin> set (if trigger_types = [] then snapshot_trigger_defaults else trigger_types) then False
      else if min_interval_ms \<le> 0 then True
      else now_ms - last_ms \<ge> min_interval_ms)"

section \<open>State\<close>

record StoreSnapshotState =
  sn_root :: string
  sn_trigger_types :: "string list"
  sn_min_interval_ms :: int
  sn_jpeg_quality :: int
  sn_frame_width :: int
  sn_frame_height :: int
  sn_stream_filter :: "u32 list"
  sn_running :: bool
  sn_latest_frame :: bytes
  sn_latest_width :: int
  sn_latest_height :: int
  sn_latest_stream_id :: u32
  sn_latest_pts_usec :: int
  sn_have_frame :: bool
  sn_last_snapshot_ms :: int
  sn_warned_no_frame :: bool

definition StoreSnapshotState_init :: "string \<Rightarrow> StoreSnapshotState" where
  "StoreSnapshotState_init root = \<lparr>sn_root = root, sn_trigger_types = [], sn_min_interval_ms = 2000, sn_jpeg_quality = 5,
     sn_frame_width = 0, sn_frame_height = 0, sn_stream_filter = [], sn_running = False, sn_latest_frame = [],
     sn_latest_width = 0, sn_latest_height = 0, sn_latest_stream_id = 0, sn_latest_pts_usec = 0, sn_have_frame = False,
     sn_last_snapshot_ms = 0, sn_warned_no_frame = False\<rparr>"

text \<open>The outside at one event: the clock is read twice, and the file may not be writable.\<close>

record 'j snap_env =
  sv_J :: "'j json_api"
  sv_now_ms :: int
  sv_path_ms :: int
  sv_localtime :: "int \<Rightarrow> tm"
  sv_jpeg :: "bytes \<Rightarrow> int \<Rightarrow> int \<Rightarrow> int \<Rightarrow> bytes option"
  sv_writable :: bool

datatype snap_act = SnapWrite string bytes | SnapPublish string u32 | SnapForward bytes

definition make_snapshot_path :: "'j snap_env \<Rightarrow> string \<Rightarrow> u32 \<Rightarrow> string" where
  "make_snapshot_path E root stream_id =
     (let ms = sv_path_ms E; t = sv_localtime E (ms div 1000); millis = ms mod 1000;
          dir = snprintf_cut 512 (root @ ''/'' @ fmt_0d 4 (tm_year t + 1900) @ ''-'' @ fmt_0d 2 (tm_mon t + 1) @ ''-'' @ fmt_0d 2 (tm_mday t));
          name = snprintf_cut 256 (''snap-'' @ to_string (uint stream_id) @ ''-'' @ fmt_0d 2 (tm_hour t) @ ''-'' @ fmt_0d 2 (tm_min t) @
                   ''-'' @ fmt_0d 2 (tm_sec t) @ ''-'' @ fmt_0d 3 millis @ ''.jpg'')
      in dir @ ''/'' @ name)"

definition snap_stream_allowed :: "StoreSnapshotState \<Rightarrow> u32 \<Rightarrow> bool" where
  "snap_stream_allowed st sid \<longleftrightarrow> sn_stream_filter st = [] \<or> sid \<in> set (sn_stream_filter st)"

section \<open>Events\<close>

text \<open>The encoder with the checks in front of it; the quality is forced into its range.\<close>

definition snap_encode :: "'j snap_env \<Rightarrow> bytes \<Rightarrow> int \<Rightarrow> int \<Rightarrow> int \<Rightarrow> bytes option" where
  "snap_encode E rgb width height quality =
     (if width \<le> 0 \<or> height \<le> 0 then None
      else let quality = (if quality < 2 then 2 else quality); quality = (if quality > 31 then 31 else quality)
        in sv_jpeg E rgb width height quality)"

text \<open>The new state, and the actions when the throttle's slot was taken.\<close>

definition take_snapshot :: "'j snap_env \<Rightarrow> int \<Rightarrow> StoreSnapshotState \<Rightarrow> StoreSnapshotState \<times> snap_act list option" where
  "take_snapshot E now_ms st =
     (if \<not> sn_have_frame st \<or> sn_latest_frame st = [] then (st\<lparr>sn_warned_no_frame := True\<rparr>, None)
      else let rgb = sn_latest_frame st; width = sn_latest_width st; height = sn_latest_height st; stream_id = sn_latest_stream_id st;
          st = st\<lparr>sn_last_snapshot_ms := now_ms\<rparr>
        in (st, Some (
          if width \<le> 0 \<or> height \<le> 0 then []
          else if int (length rgb) < width * height * 3 then []
          else case snap_encode E rgb width height (sn_jpeg_quality st) of
            None \<Rightarrow> []
          | Some jpeg \<Rightarrow>
              let path = make_snapshot_path E (sn_root st) stream_id
              in if \<not> sv_writable E then [] else [SnapWrite path jpeg, SnapPublish path stream_id])))"

text \<open>The first part of the callback: \<open>None\<close> is an exception, \<open>Some False\<close> an early return.\<close>

definition snap_check :: "'j snap_env \<Rightarrow> string \<Rightarrow> StoreSnapshotState \<Rightarrow> bool option" where
  "snap_check E msg st =
     (let J = sv_J E in
      if \<not> sn_running st then Some False
      else case j_parse J msg of
        None \<Rightarrow> Some False
      | Some j \<Rightarrow>
          let ty = (case j_field J j ''type'' of
              None \<Rightarrow> [] | Some v \<Rightarrow> if j_is_string J v then (case j_string J v of None \<Rightarrow> [] | Some s \<Rightarrow> s) else [])
          in if ty = [] then Some False
             else map_option (\<lambda>sid. snap_stream_allowed st (ucast sid) \<and>
               should_snapshot (sn_trigger_types st) ty (sv_now_ms E) (sn_last_snapshot_ms st) (sn_min_interval_ms st))
               (j_value_u64 J j ''stream_id'' 0))"

definition snap_event_cb :: "'j snap_env \<Rightarrow> string \<Rightarrow> StoreSnapshotState \<Rightarrow> (StoreSnapshotState \<times> snap_act list option) option" where
  "snap_event_cb E msg st =
     map_option (\<lambda>go. if go then take_snapshot E (sv_now_ms E) st else (st, None)) (snap_check E msg st)"

section \<open>Frames\<close>

definition snap_handle_frame :: "bytes \<Rightarrow> StoreSnapshotState \<Rightarrow> StoreSnapshotState \<times> snap_act list" where
  "snap_handle_frame buf st =
     (if length buf < sizeof_frame_hdr then (st, [SnapForward buf])
      else let hdr = frame_hdr buf; payload = drop sizeof_frame_hdr buf;
          st = (if fh_hw_type hdr = ZM_FRAME_RGB24 \<and> snap_stream_allowed st (fh_stream_id hdr) \<and> payload \<noteq> []
                then st\<lparr>sn_latest_frame := payload, sn_latest_width := sn_frame_width st, sn_latest_height := sn_frame_height st,
                        sn_latest_stream_id := fh_stream_id hdr, sn_latest_pts_usec := sint (ucast (fh_pts_usec hdr) :: 64 word),
                        sn_have_frame := True\<rparr>
                else st)
        in (st, [SnapForward buf]))"

section \<open>Start and stop\<close>

definition integer_streams :: "'j json_api \<Rightarrow> 'j option \<Rightarrow> u32 list" where
  "integer_streams J field =
     (case field of
        None \<Rightarrow> []
      | Some arr \<Rightarrow>
          if j_is_array J arr
          then List.map_filter (\<lambda>s. if j_is_integer J s then map_option of_int (j_int J s) else None) (j_elements J arr) else [])"

text \<open>\<open>None\<close> is the result -1.\<close>

definition snap_handle_start :: "'j json_api \<Rightarrow> string \<Rightarrow> string option \<Rightarrow> StoreSnapshotState option" where
  "snap_handle_start J default_root json_cfg =
     Option.bind (j_parse J (case json_cfg of None \<Rightarrow> ''{}'' | Some s \<Rightarrow> s)) (\<lambda>j.
     Option.bind (j_value_string J j ''root'' default_root) (\<lambda>root.
     Option.bind (value_long J j ''min_interval_ms'' 2000) (\<lambda>interval.
     Option.bind (j_value_int J j ''jpeg_quality'' 5) (\<lambda>quality.
     Option.bind (j_value_int J j ''frame_width'' 0) (\<lambda>width.
     Option.bind (j_value_int J j ''frame_height'' 0) (\<lambda>height.
       let quality = (if quality < 2 then 2 else quality); quality = (if quality > 31 then 31 else quality)
       in Some ((StoreSnapshotState_init root)\<lparr>sn_min_interval_ms := (if interval < 0 then 0 else interval), sn_jpeg_quality := quality,
            sn_frame_width := width, sn_frame_height := height,
            sn_trigger_types := string_elements J (j_field J j ''trigger_types''),
            sn_stream_filter := integer_streams J (j_field J j ''stream_filter''), sn_running := True\<rparr>)))))))"

definition snap_handle_stop :: "StoreSnapshotState \<Rightarrow> StoreSnapshotState" where
  "snap_handle_stop st = st\<lparr>sn_running := False\<rparr>"

section \<open>Runs\<close>

datatype 'j snap_step = SnapFrame bytes | SnapEvent "'j snap_env" string

text \<open>
  A run with one event at a time; \<open>None\<close> when an exception leaves the callback. The result lists, for each slot
  taken, the time and the actions.
\<close>

fun snap_run :: "'j snap_step list \<Rightarrow> StoreSnapshotState \<Rightarrow> (StoreSnapshotState \<times> (int \<times> snap_act list) list) option" where
  "snap_run [] st = Some (st, [])"
| "snap_run (SnapFrame buf # xs) st = snap_run xs (fst (snap_handle_frame buf st))"
| "snap_run (SnapEvent E msg # xs) st =
     Option.bind (snap_event_cb E msg st) (\<lambda>(st, slot).
       map_option (map_prod id (\<lambda>slots. (case slot of None \<Rightarrow> [] | Some acts \<Rightarrow> [(sv_now_ms E, acts)]) @ slots)) (snap_run xs st))"

section \<open>What a run writes\<close>

definition snap_accepts :: "StoreSnapshotState \<Rightarrow> bytes \<Rightarrow> bool" where
  "snap_accepts st buf \<longleftrightarrow> sizeof_frame_hdr < length buf \<and> fh_hw_type (frame_hdr buf) = ZM_FRAME_RGB24 \<and>
     snap_stream_allowed st (fh_stream_id (frame_hdr buf))"

text \<open>The last picture of a run that the plugin keeps.\<close>

fun last_accepted :: "StoreSnapshotState \<Rightarrow> 'j snap_step list \<Rightarrow> bytes option" where
  "last_accepted st [] = None"
| "last_accepted st (SnapFrame buf # xs) =
     (case last_accepted st xs of None \<Rightarrow> if snap_accepts st buf then Some buf else None | Some b \<Rightarrow> Some b)"
| "last_accepted st (SnapEvent E msg # xs) = last_accepted st xs"

lemma last_accepted_snoc [simp]:
  "last_accepted st (xs @ [SnapFrame buf]) = (if snap_accepts st buf then Some buf else last_accepted st xs)"
  "last_accepted st (xs @ [SnapEvent E msg]) = last_accepted st xs"
  by (induction st xs rule: last_accepted.induct) (auto split: option.splits)

text \<open>The configuration, which nothing changes, and the kept picture, which is that of the steps so far.\<close>

definition snap_cfg_eq :: "StoreSnapshotState \<Rightarrow> StoreSnapshotState \<Rightarrow> bool" where
  "snap_cfg_eq st st' \<longleftrightarrow> sn_min_interval_ms st' = sn_min_interval_ms st \<and> sn_stream_filter st' = sn_stream_filter st \<and>
     sn_frame_width st' = sn_frame_width st \<and> sn_frame_height st' = sn_frame_height st \<and>
     sn_jpeg_quality st' = sn_jpeg_quality st \<and> sn_root st' = sn_root st"

definition keeps_latest :: "StoreSnapshotState \<Rightarrow> 'j snap_step list \<Rightarrow> StoreSnapshotState \<Rightarrow> bool" where
  "keeps_latest st0 ys st \<longleftrightarrow> (case last_accepted st0 ys of
     None \<Rightarrow> \<not> sn_have_frame st
   | Some buf \<Rightarrow> sn_latest_frame st = drop sizeof_frame_hdr buf \<and> sn_latest_width st = sn_frame_width st0 \<and>
       sn_latest_height st = sn_frame_height st0 \<and> sn_latest_stream_id st = fh_stream_id (frame_hdr buf))"

lemma snap_cfg_refl [simp]: "snap_cfg_eq st st"
  by (simp add: snap_cfg_eq_def)

lemma snap_cfg_trans: "\<lbrakk>snap_cfg_eq a b; snap_cfg_eq b c\<rbrakk> \<Longrightarrow> snap_cfg_eq a c"
  by (simp add: snap_cfg_eq_def)

lemma frame_keeps [simp]:
  "snap_cfg_eq st0 (fst (snap_handle_frame buf st)) = snap_cfg_eq st0 st"
  "sn_last_snapshot_ms (fst (snap_handle_frame buf st)) = sn_last_snapshot_ms st"
  "sn_min_interval_ms (fst (snap_handle_frame buf st)) = sn_min_interval_ms st"
  by (simp_all add: snap_handle_frame_def Let_def snap_cfg_eq_def)

lemma frame_latest:
  assumes "snap_cfg_eq st0 st" "keeps_latest st0 ys st"
  shows "keeps_latest st0 (ys @ [SnapFrame buf]) (fst (snap_handle_frame buf st))"
  using assms
  by (auto simp: keeps_latest_def snap_cfg_eq_def snap_handle_frame_def snap_accepts_def snap_stream_allowed_def Let_def
      split: option.splits)

lemma take_snapshot_state:
  assumes "take_snapshot E now st = (st', slot)"
  shows "st' = (if slot = None then st\<lparr>sn_warned_no_frame := True\<rparr> else st\<lparr>sn_last_snapshot_ms := now\<rparr>)"
  using assms by (auto simp: take_snapshot_def Let_def split: if_splits)

lemma check_throttle:
  assumes "snap_check E msg st = Some True" "0 < sn_min_interval_ms st"
  shows "sn_min_interval_ms st \<le> sv_now_ms E - sn_last_snapshot_ms st"
  using assms by (auto simp: snap_check_def should_snapshot_def Let_def split: option.splits if_splits)

text \<open>One event, however its callback ends.\<close>

lemma event_cb_state:
  assumes "snap_event_cb E msg st = Some (st', slot)"
  shows "st' = st \<and> slot = None \<or> snap_check E msg st = Some True \<and>
    st' = (if slot = None then st\<lparr>sn_warned_no_frame := True\<rparr> else st\<lparr>sn_last_snapshot_ms := sv_now_ms E\<rparr>)"
proof -
  obtain go where go: "snap_check E msg st = Some go"
    and res: "(if go then take_snapshot E (sv_now_ms E) st else (st, None)) = (st', slot)"
    using assms by (auto simp: snap_event_cb_def)
  show ?thesis
  proof (cases go)
    case True
    with res have "take_snapshot E (sv_now_ms E) st = (st', slot)" by simp
    from take_snapshot_state [OF this] go True show ?thesis by simp
  next
    case False with res show ?thesis by simp
  qed
qed

lemma snap_event_cb_cases:
  assumes "snap_event_cb E msg st = Some (st', slot)"
  shows "snap_cfg_eq st st'"
    "keeps_latest st0 (ys @ [SnapEvent E msg]) st' = keeps_latest st0 ys st"
    "sn_last_snapshot_ms st' = (if slot = None then sn_last_snapshot_ms st else sv_now_ms E)"
    "\<lbrakk>slot \<noteq> None; 0 < sn_min_interval_ms st\<rbrakk> \<Longrightarrow> sn_min_interval_ms st \<le> sv_now_ms E - sn_last_snapshot_ms st"
  using event_cb_state [OF assms] check_throttle [of E msg st]
  by (auto simp: snap_cfg_eq_def keeps_latest_def split: option.splits if_splits)

definition picture_of :: "StoreSnapshotState \<Rightarrow> 'j snap_env \<Rightarrow> bytes option \<Rightarrow> snap_act list \<Rightarrow> bool" where
  "picture_of st E latest acts \<longleftrightarrow> acts = [] \<or>
     (\<exists>buf jpeg. latest = Some buf \<and>
        sn_frame_width st * sn_frame_height st * 3 \<le> int (length (drop sizeof_frame_hdr buf)) \<and>
        snap_encode E (drop sizeof_frame_hdr buf) (sn_frame_width st) (sn_frame_height st) (sn_jpeg_quality st) = Some jpeg \<and>
        (let path = make_snapshot_path E (sn_root st) (fh_stream_id (frame_hdr buf))
         in acts = [SnapWrite path jpeg, SnapPublish path (fh_stream_id (frame_hdr buf))]))"

lemma event_picture:
  assumes "snap_event_cb E msg st = Some (st', Some acts)" "snap_cfg_eq st0 st" "keeps_latest st0 ys st"
  shows "picture_of st0 E (last_accepted st0 ys) acts"
proof -
  have taken: "take_snapshot E (sv_now_ms E) st = (st', Some acts)"
    using assms(1) by (auto simp: snap_event_cb_def split: if_splits)
  hence "sn_have_frame st" by (auto simp: take_snapshot_def split: if_splits)
  with assms(3) obtain buf where "last_accepted st0 ys = Some buf"
    by (auto simp: keeps_latest_def split: option.splits)
  with taken assms(2,3) show ?thesis
    by (auto simp: take_snapshot_def keeps_latest_def snap_cfg_eq_def picture_of_def Let_def split: option.splits if_splits)
qed

definition slot_at :: "StoreSnapshotState \<Rightarrow> 'j snap_step list \<Rightarrow> int \<times> snap_act list \<Rightarrow> bool" where
  "slot_at st xs slot \<longleftrightarrow> (\<exists>ys E msg zs. xs = ys @ SnapEvent E msg # zs \<and> fst slot = sv_now_ms E \<and>
     picture_of st E (last_accepted st ys) (snd slot))"

lemma run_slots:
  assumes "snap_run xs st = Some (st', slots)" "snap_cfg_eq st0 st" "keeps_latest st0 ys st" "0 < sn_min_interval_ms st0"
  shows "sorted_wrt (\<lambda>a b. fst a + sn_min_interval_ms st0 \<le> fst b) slots \<and>
    (\<forall>a \<in> set slots. sn_last_snapshot_ms st + sn_min_interval_ms st0 \<le> fst a \<and> slot_at st0 (ys @ xs) a)"
  using assms
proof (induction xs st arbitrary: ys st' slots rule: snap_run.induct)
  case (1 st) thus ?case by simp
next
  case (2 buf xs st)
  show ?case
    using "2.IH" [of st' slots "ys @ [SnapFrame buf]"] "2.prems" by (simp add: frame_latest)
next
  case (3 E msg xs st)
  obtain s1 slot rest where cb: "snap_event_cb E msg st = Some (s1, slot)" and run: "snap_run xs s1 = Some (st', rest)"
    and slots: "slots = (case slot of None \<Rightarrow> [] | Some acts \<Rightarrow> [(sv_now_ms E, acts)]) @ rest"
    using "3.prems"(1) by (auto simp: bind_eq_Some_conv)
  note ev = snap_event_cb_cases [OF cb]
  have interval: "sn_min_interval_ms st = sn_min_interval_ms st0" using "3.prems"(2) by (simp add: snap_cfg_eq_def)
  have IH: "sorted_wrt (\<lambda>a b. fst a + sn_min_interval_ms st0 \<le> fst b) rest \<and>
    (\<forall>a \<in> set rest. sn_last_snapshot_ms s1 + sn_min_interval_ms st0 \<le> fst a \<and> slot_at st0 ((ys @ [SnapEvent E msg]) @ xs) a)"
    using cb run "3.prems" by (intro "3.IH") (simp_all add: ev(2) snap_cfg_trans [OF _ ev(1)])
  show ?case
  proof (cases slot)
    case None thus ?thesis using IH slots ev(3) by simp
  next
    case (Some acts)
    have "picture_of st0 E (last_accepted st0 ys) acts" using cb "3.prems"(2,3) unfolding Some by (rule event_picture)
    hence "slot_at st0 (ys @ SnapEvent E msg # xs) (sv_now_ms E, acts)" by (auto simp: slot_at_def)
    moreover have "sn_last_snapshot_ms st + sn_min_interval_ms st0 \<le> sv_now_ms E"
      using ev(4) "3.prems"(4) by (simp add: Some interval)
    ultimately show ?thesis using IH slots ev(3) "3.prems"(4) by (auto simp: Some)
  qed
qed


definition snap_texts :: "string \<rightharpoonup> jdoc" where
  "snap_texts = map_of [
     (''cfg'', JObj [(''frame_width'', JInt 1), (''frame_height'', JInt 1), (''trigger_types'', JArr [JStr ''motion'']),
        (''stream_filter'', JArr [JInt 7])]),
     (''m'', JObj [(''type'', JStr ''motion''), (''stream_id'', JInt 7)]),
     (''f'', JObj [(''type'', JStr ''face''), (''stream_id'', JInt 7)])]"

definition snap_demo_frame :: "u32 \<Rightarrow> u8 \<Rightarrow> bytes" where
  "snap_demo_frame stream b =
     frame_hdr_bytes \<lparr>fh_stream_id = stream, fh_hw_type = ZM_FRAME_RGB24, fh_handle = 0, fh_bytes = 3, fh_flags = 0, fh_pts_usec = 9\<rparr> @
     [b, b, b]"

definition snap_demo_env :: "int \<Rightarrow> jdoc snap_env" where
  "snap_demo_env now = \<lparr>sv_J = jdoc_api snap_texts, sv_now_ms = now, sv_path_ms = now + 1,
     sv_localtime = (\<lambda>s. \<lparr>tm_year = 126, tm_mon = 0, tm_mday = 31, tm_hour = s div 3600, tm_min = s div 60, tm_sec = s\<rparr>),
     sv_jpeg = (\<lambda>rgb w h q. Some (255 # rgb)), sv_writable = True\<rparr>"

definition snap_demo_steps :: "jdoc snap_step list" where
  "snap_demo_steps = [SnapEvent (snap_demo_env 1000) ''m'', SnapFrame (snap_demo_frame 7 1), SnapEvent (snap_demo_env 3000) ''m'',
     SnapFrame (snap_demo_frame 8 2), SnapFrame (snap_demo_frame 7 3), SnapEvent (snap_demo_env 4999) ''m'',
     SnapEvent (snap_demo_env 5000) ''f'', SnapEvent (snap_demo_env 5001) ''m'', SnapEvent (snap_demo_env 9000) ''x'']"

lemma snap_demo_run:
  "Option.bind (snap_handle_start (jdoc_api snap_texts) ''/r'' (Some ''cfg''))
     (\<lambda>st. map_option (\<lambda>r. (sn_min_interval_ms st, snd r)) (snap_run snap_demo_steps st)) =
   Some (2000,
     [(3000, [SnapWrite ''/r/2026-01-31/snap-7-00-00-03-001.jpg'' [255, 1, 1, 1],
        SnapPublish ''/r/2026-01-31/snap-7-00-00-03-001.jpg'' 7]),
      (5001, [SnapWrite ''/r/2026-01-31/snap-7-00-00-05-002.jpg'' [255, 3, 3, 3],
        SnapPublish ''/r/2026-01-31/snap-7-00-00-05-002.jpg'' 7])])"
  by code_simp


text \<open>Two publishers: both pass the check before either reserves its slot, and both write.\<close>

lemma publishers_race:
  assumes "snap_check E m st = Some True" "sn_have_frame st" "sn_latest_frame st \<noteq> []"
  shows "snd (take_snapshot E (sv_now_ms E) st) \<noteq> None \<and>
    snd (take_snapshot E (sv_now_ms E) (fst (take_snapshot E (sv_now_ms E) st))) = snd (take_snapshot E (sv_now_ms E) st)"
  using assms by (simp add: take_snapshot_def Let_def)

text \<open>With the default dimensions 0 by 0 every trigger takes a slot and writes nothing.\<close>

lemma unsized_never_written:
  assumes "sn_latest_width st \<le> 0" "take_snapshot E now st = (st', Some acts)"
  shows "acts = []"
  using assms by (auto simp: take_snapshot_def Let_def split: if_splits)

end
