(* ===== verification/Event_Outputs.thy ===== *)
theory Event_Outputs
  imports Json_Api
begin

text \<open>
  The two plugins that send events away: plugins/output_webhook (webhook_util.hpp, output_webhook.cpp) and
  plugins/output_mqtt (mqtt_topic.hpp, output_mqtt.cpp). libcurl and libmosquitto are the actions they are asked to
  do, each with the result that it returned where the code looks at it. Both handle an event in two parts, the
  second under a mutex, and stop in two parts; \<open>event_sink\<close> is what is proved of this scheme once for both.
\<close>

section \<open>Callbacks and stop, interleaved\<close>

datatype sink_step =
    Arrive string     \<comment> \<open>a callback, up to the mutex\<close>
  | Enter nat         \<comment> \<open>one of the callbacks that wait takes the mutex\<close>
  | Disarm            \<comment> \<open>stop clears the flag\<close>
  | Teardown          \<comment> \<open>stop, under the mutex\<close>

text \<open>The messages that wait for the mutex are part of the state.\<close>

fun sink_run ::
  "('s \<Rightarrow> string \<Rightarrow> 'm option) \<Rightarrow> ('s \<Rightarrow> 'm \<Rightarrow> 'a list) \<Rightarrow> ('s \<Rightarrow> 's) \<Rightarrow> ('s \<Rightarrow> 's \<times> 'a list) \<Rightarrow>
   sink_step list \<Rightarrow> 's \<times> 'm list \<Rightarrow> ('s \<times> 'm list) \<times> 'a list" where
  "sink_run wants emit disarm teardown [] c = (c, [])"
| "sink_run wants emit disarm teardown (Arrive p # xs) (s, ms) =
     sink_run wants emit disarm teardown xs (s, case wants s p of None \<Rightarrow> ms | Some m \<Rightarrow> ms @ [m])"
| "sink_run wants emit disarm teardown (Enter i # xs) (s, ms) =
     (if i < length ms
      then map_prod id ((@) (emit s (ms ! i))) (sink_run wants emit disarm teardown xs (s, take i ms @ drop (Suc i) ms))
      else sink_run wants emit disarm teardown xs (s, ms))"
| "sink_run wants emit disarm teardown (Disarm # xs) (s, ms) = sink_run wants emit disarm teardown xs (disarm s, ms)"
| "sink_run wants emit disarm teardown (Teardown # xs) (s, ms) =
     map_prod id ((@) (snd (teardown s))) (sink_run wants emit disarm teardown xs (fst (teardown s), ms))"

lemma sink_run_append:
  "fst (sink_run w e d t (as @ bs) c) = fst (sink_run w e d t bs (fst (sink_run w e d t as c)))"
  "snd (sink_run w e d t (as @ bs) c) =
     snd (sink_run w e d t as c) @ snd (sink_run w e d t bs (fst (sink_run w e d t as c)))"
proof (induction as arbitrary: c)
  case (Cons a as)
  { case 1 show ?case using Cons(1) by (cases c; cases a) simp_all }
  { case 2 show ?case using Cons(2) by (cases c; cases a) simp_all }
qed simp_all

definition serial :: "string list \<Rightarrow> sink_step list" where
  "serial ps = concat (map (\<lambda>p. [Arrive p, Enter 0]) ps)"

locale event_sink =
  fixes wants :: "'s \<Rightarrow> string \<Rightarrow> 'm option"
    and emit :: "'s \<Rightarrow> 'm \<Rightarrow> 'a list"
    and disarm :: "'s \<Rightarrow> 's"
    and teardown :: "'s \<Rightarrow> 's \<times> 'a list"
    and live :: "'s \<Rightarrow> bool"
  assumes emit_dead: "\<not> live s \<Longrightarrow> emit s m = []"
    and wants_dead: "\<not> live s \<Longrightarrow> wants s p = None"
    and disarm_dead: "\<not> live (disarm s)"
    and teardown_dead: "\<not> live s \<Longrightarrow> \<not> live (fst (teardown s))"
begin

lemma dead_quiet:
  "\<lbrakk>\<not> live s; Teardown \<notin> set xs\<rbrakk> \<Longrightarrow> snd (sink_run wants emit disarm teardown xs (s, ms)) = []"
proof (induction xs arbitrary: s ms)
  case (Cons x xs) thus ?case by (cases x) (auto simp: emit_dead wants_dead disarm_dead)
qed simp

lemma serial_run:
  "sink_run wants emit disarm teardown (serial ps @ xs) (s, []) =
   map_prod id ((@) (concat (map (\<lambda>p. case wants s p of None \<Rightarrow> [] | Some m \<Rightarrow> emit s m) ps)))
     (sink_run wants emit disarm teardown xs (s, []))"
proof (induction ps)
  case Nil show ?case by (cases "sink_run wants emit disarm teardown xs (s, [])") (simp add: serial_def)
next
  case (Cons p ps)
  have "serial (p # ps) @ xs = Arrive p # Enter 0 # serial ps @ xs" by (simp add: serial_def)
  then show ?case using Cons by (cases "sink_run wants emit disarm teardown xs (s, [])") (auto split: option.split)
qed

text \<open>An orderly stop: nothing is sent after the flag is cleared, whoever still waits.\<close>

lemma serial_then_stop:
  assumes "Teardown \<notin> set ys" "Teardown \<notin> set zs"
  shows "snd (sink_run wants emit disarm teardown (serial ps @ Disarm # ys @ Teardown # zs) (s, [])) =
    concat (map (\<lambda>p. case wants s p of None \<Rightarrow> [] | Some m \<Rightarrow> emit s m) ps) @
    snd (teardown (fst (fst (sink_run wants emit disarm teardown ys (disarm s, [])))))"
proof -
  have dead: "\<not> live (fst (fst (sink_run wants emit disarm teardown ys (t, ms))))" if "\<not> live t" for t ms
    using that
  proof (induction ys arbitrary: t ms)
    case (Cons y ys) thus ?case by (cases y) (auto simp: disarm_dead teardown_dead)
  qed simp
  obtain t ms where t: "fst (sink_run wants emit disarm teardown ys (disarm s, [])) = (t, ms)" by fastforce
  have "\<not> live t" using dead [OF disarm_dead, of s "[]"] t by simp
  then have "snd (sink_run wants emit disarm teardown zs (fst (teardown t), ms)) = []"
    by (intro dead_quiet teardown_dead assms)
  moreover have "snd (sink_run wants emit disarm teardown ys (disarm s, [])) = []"
    by (intro dead_quiet disarm_dead assms)
  ultimately show ?thesis by (simp add: serial_run sink_run_append t)
qed

end

text \<open>The \<open>type\<close> of an event, empty when there is none or the text is not JSON.\<close>

definition event_type_of :: "'j json_api \<Rightarrow> string \<Rightarrow> string" where
  "event_type_of J payload =
     (case j_parse J payload of
        None \<Rightarrow> []
      | Some j \<Rightarrow>
          (case j_field J j ''type'' of
             None \<Rightarrow> []
           | Some v \<Rightarrow> if j_is_string J v then (case j_string J v of None \<Rightarrow> [] | Some s \<Rightarrow> s) else []))"

section \<open>The webhook\<close>

definition type_allowed :: "string list \<Rightarrow> string \<Rightarrow> bool" where
  "type_allowed allow ty \<longleftrightarrow> allow = [] \<or> ty \<in> set allow"

record WebhookState =
  wh_url :: string
  wh_timeoutMs :: int
  wh_authHeader :: string
  wh_haveAuthHeader :: bool
  wh_eventTypes :: "string list"
  wh_curl :: bool
  wh_headers :: "string list"
  wh_running :: bool

datatype curl_act = GlobalInit | EasyInit bool | EasySetup string "string list" int | EasyPost string
  | EasyCleanup | SlistFree | GlobalCleanup

definition WebhookState_init :: WebhookState where
  "WebhookState_init = \<lparr>wh_url = [], wh_timeoutMs = 2000, wh_authHeader = [], wh_haveAuthHeader = False,
     wh_eventTypes = [], wh_curl = False, wh_headers = [], wh_running = False\<rparr>"

definition webhook_wants :: "'j json_api \<Rightarrow> WebhookState \<Rightarrow> string \<Rightarrow> string option" where
  "webhook_wants J st payload =
     (if \<not> wh_running st then None
      else if wh_url st = [] then None
      else if wh_eventTypes st \<noteq> [] \<and> \<not> type_allowed (wh_eventTypes st) (event_type_of J payload) then None
      else Some payload)"

text \<open>The result of the transfer is only logged.\<close>

definition webhook_emit :: "WebhookState \<Rightarrow> string \<Rightarrow> curl_act list" where
  "webhook_emit st payload = (if \<not> wh_running st \<or> \<not> wh_curl st then [] else [EasyPost payload])"

definition webhook_config :: "'j json_api \<Rightarrow> string option \<Rightarrow> WebhookState" where
  "webhook_config J json_cfg =
     (case j_parse J (case json_cfg of None \<Rightarrow> ''{}'' | Some s \<Rightarrow> s) of
        None \<Rightarrow> WebhookState_init
      | Some j \<Rightarrow>
          cfg_result (let
              c = cfg_step (j_value_string J j ''url'' []) (\<lambda>v x. x\<lparr>wh_url := v\<rparr>) (Inr WebhookState_init);
              c = cfg_step (value_long J j ''timeout_ms'' 2000) (\<lambda>v x. x\<lparr>wh_timeoutMs := v\<rparr>) c;
              c = (case j_field J j ''auth_header'' of
                     None \<Rightarrow> c
                   | Some v \<Rightarrow> if j_is_string J v
                       then cfg_step (j_string J v) (\<lambda>v x. x\<lparr>wh_authHeader := v, wh_haveAuthHeader := v \<noteq> []\<rparr>) c else c)
            in cfg_step (Some (string_elements J (j_field J j ''event_types''))) (\<lambda>v x. x\<lparr>wh_eventTypes := v\<rparr>) c))"

text \<open>\<open>None\<close> as the new state is the result -1.\<close>

definition output_webhook_start :: "'j json_api \<Rightarrow> bool \<Rightarrow> string option \<Rightarrow> WebhookState option \<times> curl_act list" where
  "output_webhook_start J easy_ok json_cfg =
     (let st = webhook_config J json_cfg in
      if \<not> easy_ok then (None, [GlobalInit, EasyInit False, GlobalCleanup])
      else let headers = ''Content-Type: application/json'' # (if wh_haveAuthHeader st then [wh_authHeader st] else [])
        in (Some (st\<lparr>wh_curl := True, wh_headers := headers, wh_running := True\<rparr>),
            [GlobalInit, EasyInit True, EasySetup (wh_url st) headers (wh_timeoutMs st)]))"

definition webhook_disarm :: "WebhookState \<Rightarrow> WebhookState" where
  "webhook_disarm st = st\<lparr>wh_running := False\<rparr>"

definition webhook_teardown :: "WebhookState \<Rightarrow> WebhookState \<times> curl_act list" where
  "webhook_teardown st =
     (st\<lparr>wh_curl := False, wh_headers := []\<rparr>,
      (if wh_curl st then [EasyCleanup] else []) @ (if wh_headers st \<noteq> [] then [SlistFree] else []) @ [GlobalCleanup])"

interpretation wh: event_sink "webhook_wants J" webhook_emit webhook_disarm webhook_teardown wh_running
  by unfold_locales (simp_all add: webhook_wants_def webhook_emit_def webhook_disarm_def webhook_teardown_def)

section \<open>MQTT\<close>

definition topic_for :: "string \<Rightarrow> string \<Rightarrow> string" where
  "topic_for base ty = (if ty = [] then base @ ''/event'' else base @ ''/'' @ ty)"

record MqttState =
  mq_host :: string
  mq_port :: int
  mq_baseTopic :: string
  mq_clientId :: string
  mq_username :: string
  mq_password :: string
  mq_haveUsername :: bool
  mq_havePassword :: bool
  mq_qos :: int
  mq_mosq :: bool
  mq_running :: bool

datatype mosq_act = LibInit | MosqNew string bool | SetUserPw string "string option" | MosqConnect string int bool
  | LoopStart bool | MosqPublish string string int | LoopStop | MosqDisconnect | MosqDestroy | LibCleanup

definition MqttState_init :: MqttState where
  "MqttState_init = \<lparr>mq_host = ''localhost'', mq_port = 1883, mq_baseTopic = ''zm-next'', mq_clientId = ''zm-next'',
     mq_username = [], mq_password = [], mq_haveUsername = False, mq_havePassword = False, mq_qos = 0,
     mq_mosq = False, mq_running = False\<rparr>"

definition mqtt_wants :: "'j json_api \<Rightarrow> MqttState \<Rightarrow> string \<Rightarrow> (string \<times> string) option" where
  "mqtt_wants J st payload =
     (if \<not> mq_running st then None
      else Some (topic_for (mq_baseTopic st) (event_type_of J payload), payload))"

definition mqtt_emit :: "MqttState \<Rightarrow> string \<times> string \<Rightarrow> mosq_act list" where
  "mqtt_emit st m = (if \<not> mq_running st \<or> \<not> mq_mosq st then [] else [MosqPublish (fst m) (snd m) (mq_qos st)])"

definition mqtt_config :: "'j json_api \<Rightarrow> string option \<Rightarrow> MqttState" where
  "mqtt_config J json_cfg =
     (case j_parse J (case json_cfg of None \<Rightarrow> ''{}'' | Some s \<Rightarrow> s) of
        None \<Rightarrow> MqttState_init
      | Some j \<Rightarrow>
          cfg_result (let
              c = cfg_step (j_value_string J j ''host'' ''localhost'') (\<lambda>v x. x\<lparr>mq_host := v\<rparr>) (Inr MqttState_init);
              c = cfg_step (j_value_int J j ''port'' 1883) (\<lambda>v x. x\<lparr>mq_port := v\<rparr>) c;
              c = cfg_step (j_value_string J j ''base_topic'' ''zm-next'') (\<lambda>v x. x\<lparr>mq_baseTopic := v\<rparr>) c;
              c = cfg_step (j_value_string J j ''client_id'' ''zm-next'') (\<lambda>v x. x\<lparr>mq_clientId := v\<rparr>) c;
              c = cfg_step (j_value_int J j ''qos'' 0) (\<lambda>v x. x\<lparr>mq_qos := v\<rparr>) c;
              c = (case j_field J j ''username'' of
                     None \<Rightarrow> c
                   | Some v \<Rightarrow> if j_is_string J v
                       then cfg_step (j_string J v) (\<lambda>v x. x\<lparr>mq_username := v, mq_haveUsername := True\<rparr>) c else c)
            in case j_field J j ''password'' of
                 None \<Rightarrow> c
               | Some v \<Rightarrow> if j_is_string J v
                   then cfg_step (j_string J v) (\<lambda>v x. x\<lparr>mq_password := v, mq_havePassword := True\<rparr>) c else c))"

definition output_mqtt_start ::
  "'j json_api \<Rightarrow> bool \<Rightarrow> bool \<Rightarrow> bool \<Rightarrow> string option \<Rightarrow> MqttState option \<times> mosq_act list" where
  "output_mqtt_start J new_ok connect_ok loop_ok json_cfg =
     (let st = mqtt_config J json_cfg;
          acts = [LibInit, MosqNew (mq_clientId st) new_ok]
      in if \<not> new_ok then (None, acts @ [LibCleanup])
         else let acts = acts @ (if mq_haveUsername st
                    then [SetUserPw (mq_username st) (if mq_havePassword st then Some (mq_password st) else None)] else []) @
                  [MosqConnect (mq_host st) (mq_port st) connect_ok]
           in if \<not> connect_ok then (None, acts @ [MosqDestroy, LibCleanup])
              else let acts = acts @ [LoopStart loop_ok]
                in if \<not> loop_ok then (None, acts @ [MosqDisconnect, MosqDestroy, LibCleanup])
                   else (Some (st\<lparr>mq_mosq := True, mq_running := True\<rparr>), acts))"

definition mqtt_disarm :: "MqttState \<Rightarrow> MqttState" where
  "mqtt_disarm st = st\<lparr>mq_running := False\<rparr>"

definition mqtt_teardown :: "MqttState \<Rightarrow> MqttState \<times> mosq_act list" where
  "mqtt_teardown st =
     (if mq_mosq st then (st\<lparr>mq_mosq := False\<rparr>, [LoopStop, MosqDisconnect, MosqDestroy, LibCleanup]) else (st, []))"

interpretation mq: event_sink "mqtt_wants J" mqtt_emit mqtt_disarm mqtt_teardown mq_running
  by unfold_locales (simp_all add: mqtt_wants_def mqtt_emit_def mqtt_disarm_def mqtt_teardown_def)

section \<open>What is sent\<close>

abbreviation webhook_run where
  "webhook_run J \<equiv> sink_run (webhook_wants J) webhook_emit webhook_disarm webhook_teardown"

abbreviation mqtt_run where
  "mqtt_run J \<equiv> sink_run (mqtt_wants J) mqtt_emit mqtt_disarm mqtt_teardown"

lemma disarmed_teardown:
  "Teardown \<notin> set ys \<Longrightarrow> snd (webhook_teardown (fst (fst (webhook_run J ys (webhook_disarm s, ms))))) = snd (webhook_teardown s)"
proof -
  have "wh_curl (fst (fst (webhook_run J ys c))) = wh_curl (fst c) \<and> wh_headers (fst (fst (webhook_run J ys c))) = wh_headers (fst c)"
    if "Teardown \<notin> set ys" for c
    using that
  proof (induction ys arbitrary: c)
    case (Cons y ys) thus ?case by (cases c; cases y) (auto simp: webhook_disarm_def)
  qed simp
  then show "Teardown \<notin> set ys \<Longrightarrow> ?thesis" by (simp add: webhook_teardown_def webhook_disarm_def)
qed


definition wh_texts :: "string \<rightharpoonup> jdoc" where
  "wh_texts = map_of [
     (''cfg'', JObj [(''url'', JStr ''http://h''), (''auth_header'', JStr ''X: y''), (''event_types'', JArr [JStr ''face'', JInt 1])]),
     (''a'', JObj [(''type'', JStr ''face'')]), (''b'', JObj [(''type'', JStr ''motion'')]), (''c'', JObj [(''type'', JInt 3)])]"

lemma wh_demo_start:
  "output_webhook_start (jdoc_api wh_texts) True (Some ''cfg'') =
     (Some \<lparr>wh_url = ''http://h'', wh_timeoutMs = 2000, wh_authHeader = ''X: y'', wh_haveAuthHeader = True, wh_eventTypes = [''face''],
        wh_curl = True, wh_headers = [''Content-Type: application/json'', ''X: y''], wh_running = True\<rparr>,
      [GlobalInit, EasyInit True, EasySetup ''http://h'' [''Content-Type: application/json'', ''X: y''] 2000])"
  by code_simp

lemma wh_demo_filter:
  "filter (\<lambda>p. wh_url (webhook_config (jdoc_api wh_texts) (Some ''cfg'')) \<noteq> [] \<and>
      type_allowed (wh_eventTypes (webhook_config (jdoc_api wh_texts) (Some ''cfg''))) (event_type_of (jdoc_api wh_texts) p))
     [''a'', ''b'', ''x'', ''c'', ''a''] = [''a'', ''a'']"
  by code_simp


section \<open>The broker's handle\<close>

text \<open>What libmosquitto asks of its user: the calls that are legal in each state of the library and its handle.\<close>

datatype mosq_phase = Down | Inited | Created | Connected | Looping

fun mosq_step :: "mosq_act \<Rightarrow> mosq_phase \<Rightarrow> mosq_phase option" where
  "mosq_step LibInit Down = Some Inited"
| "mosq_step (MosqNew _ ok) Inited = Some (if ok then Created else Inited)"
| "mosq_step (SetUserPw _ _) Created = Some Created"
| "mosq_step (MosqConnect _ _ ok) Created = Some (if ok then Connected else Created)"
| "mosq_step (LoopStart ok) Connected = Some (if ok then Looping else Connected)"
| "mosq_step (MosqPublish _ _ _) Looping = Some Looping"
| "mosq_step LoopStop Looping = Some Connected"
| "mosq_step MosqDisconnect Connected = Some Created"
| "mosq_step MosqDestroy Created = Some Inited"
| "mosq_step LibCleanup Inited = Some Down"
| "mosq_step _ _ = None"

fun mosq_trace :: "mosq_act list \<Rightarrow> mosq_phase \<Rightarrow> mosq_phase option" where
  "mosq_trace [] ph = Some ph"
| "mosq_trace (a # as) ph = Option.bind (mosq_step a ph) (mosq_trace as)"

lemma mosq_trace_append [simp]: "mosq_trace (as @ bs) ph = Option.bind (mosq_trace as ph) (mosq_trace bs)"
proof (induction as arbitrary: ph)
  case (Cons a as) then show ?case by (cases "mosq_step a ph") simp_all
qed simp

definition mqtt_phase :: "MqttState \<Rightarrow> mosq_phase" where
  "mqtt_phase st = (if mq_mosq st then Looping else Down)"

lemma mqtt_run_trace:
  "mosq_trace (snd (mqtt_run J xs (st, ms))) (mqtt_phase st) = Some (mqtt_phase (fst (fst (mqtt_run J xs (st, ms)))))"
proof (induction xs arbitrary: st ms)
  case (Cons x xs)
  show ?case
  proof (cases x)
    case (Arrive p) then show ?thesis using Cons by (simp split: option.split)
  next
    case (Enter i)
    have "mosq_trace (mqtt_emit st m) (mqtt_phase st) = Some (mqtt_phase st)" for m
      by (simp add: mqtt_emit_def mqtt_phase_def)
    then show ?thesis using Cons Enter by simp
  next
    case Disarm
    have "mqtt_phase (mqtt_disarm st) = mqtt_phase st" by (simp add: mqtt_disarm_def mqtt_phase_def)
    then show ?thesis using Cons [of "mqtt_disarm st" ms] Disarm by simp
  next
    case Teardown
    have "mosq_trace (snd (mqtt_teardown st)) (mqtt_phase st) = Some (mqtt_phase (fst (mqtt_teardown st)))"
      by (simp add: mqtt_teardown_def mqtt_phase_def)
    then show ?thesis using Cons [of "fst (mqtt_teardown st)" ms] Teardown by simp
  qed
qed simp

lemma mqtt_start_trace:
  "mosq_trace (snd (output_mqtt_start J n c l cfg)) Down =
     Some (case fst (output_mqtt_start J n c l cfg) of None \<Rightarrow> Down | Some st \<Rightarrow> mqtt_phase st)"
  by (simp add: output_mqtt_start_def mqtt_phase_def Let_def)

text \<open>
  C24. The MQTT output keeps to the protocol of its library on every path: whatever of creating, connecting and starting
  the loop fails, and however callbacks, the clearing of the flag and the teardown interleave afterwards, every call is
  legal where it comes; in particular nothing is published before the loop runs or on a destroyed handle. A start that
  fails leaves nothing behind, and after the teardown, when it is the last step, the library is down again.
\<close>

theorem mqtt_follows_protocol:
  "(fst (output_mqtt_start J new_ok connect_ok loop_ok cfg) = None \<and>
      mosq_trace (snd (output_mqtt_start J new_ok connect_ok loop_ok cfg)) Down = Some Down) \<or>
   (\<exists>st. fst (output_mqtt_start J new_ok connect_ok loop_ok cfg) = Some st \<and>
      (\<forall>xs. \<exists>ph. mosq_trace (snd (output_mqtt_start J new_ok connect_ok loop_ok cfg) @ snd (mqtt_run J xs (st, []))) Down = Some ph) \<and>
      (\<forall>xs. mosq_trace (snd (output_mqtt_start J new_ok connect_ok loop_ok cfg) @
         snd (mqtt_run J (xs @ [Teardown]) (st, []))) Down = Some Down))"
proof (cases "fst (output_mqtt_start J new_ok connect_ok loop_ok cfg)")
  case None then show ?thesis by (simp add: mqtt_start_trace)
next
  case (Some st)
  have "mqtt_phase (fst (fst (mqtt_run J (xs @ [Teardown]) c))) = Down" for xs c
    by (cases "fst (mqtt_run J xs c)") (simp add: sink_run_append mqtt_teardown_def mqtt_phase_def)
  then show ?thesis by (simp add: mqtt_start_trace Some mqtt_run_trace)
qed

text \<open>The broker's topic is made from the event: nothing keeps a wildcard or a further level out of it.\<close>

lemma topic_from_any_type:
  assumes "mq_running st" "mq_mosq st" "event_type_of J p \<noteq> []"
  shows "snd (mqtt_run J (serial [p]) (st, [])) = [MosqPublish (mq_baseTopic st @ ''/'' @ event_type_of J p) p (mq_qos st)]"
  using assms by (simp add: serial_def mqtt_wants_def mqtt_emit_def topic_for_def)

end
