(* ===== verification/Motion_Pixel_Diff.thy ===== *)
theory Motion_Pixel_Diff
  imports "HOL-Library.Signed_Division" Pixels Floats Frame_Header Std_Strings
begin

text \<open>
  The pixel-difference motion detector, plugins/motion_pixel_diff/motion_pixel_diff.hpp and motion_pixel_diff.cpp. The SIMD
  library enters with its lane width and its absolute value, Boost's geometry with a bounding box and a point test, the
  JPEG encoder, clocks and files as arguments. \<open>None\<close> is undefined behaviour: an access outside of a buffer or an \<open>int\<close>
  out of its range.
\<close>

section \<open>Configuration and state\<close>

record 'f MotionConfig =
  mc_frameWidth :: int
  mc_frameHeight :: int
  mc_globalThreshold :: int
  mc_minPixels :: int
  mc_downscale :: int
  mc_outWidth :: int
  mc_outHeight :: int
  mc_zoneAware :: bool
  mc_enableBackgroundUpdate :: bool
  mc_backgroundLearningRate :: 'f
  mc_enableMotionMap :: bool
  mc_enableFiltering :: bool
  mc_plateExport :: bool
  mc_plateRefreshSecs :: int
  mc_plateDir :: string
  mc_plateOnIllumChange :: bool

record 'p ZoneConfig =
  zo_id :: int
  zo_type :: string
  zo_polygon :: "'p list"
  zo_checkMethod :: string
  zo_minAlarmPixels :: int
  zo_maxAlarmPixels :: int
  zo_minBlobPixels :: int
  zo_maxBlobPixels :: int
  zo_minBlobs :: int
  zo_maxBlobs :: int

record ZoneMotionResult =
  zr_zoneId :: int
  zr_motionDetected :: bool
  zr_pixelCount :: int
  zr_blobCount :: "int option"      \<comment> \<open>\<open>None\<close>: not initialised\<close>
  zr_blobs :: "(int \<times> int \<times> int \<times> int) list"

record MotionResult =
  mr_hasGlobalMotion :: bool
  mr_totalMotionPixels :: int
  mr_zoneResults :: "ZoneMotionResult list"
  mr_motionMap :: bytes

record 'f PixelDifferenceDetector =
  pd_width :: int
  pd_height :: int
  pd_effectiveWidth :: int
  pd_effectiveHeight :: int
  pd_config :: "'f MotionConfig"
  pd_background :: bytes
  pd_backgroundReady :: bool
  pd_frameCount :: nat

text \<open>The libraries: lanes of a vector, its \<open>abs\<close>, the corners of a polygon's box as integers, the point test.\<close>

record 'p pd_libs =
  lib_lanes :: nat
  lib_abs :: "u8 \<Rightarrow> u8"
  lib_envelope :: "'p list \<Rightarrow> int \<times> int \<times> int \<times> int"   \<comment> \<open>min x, min y, max x, max y\<close>
  lib_within :: "int \<times> int \<Rightarrow> 'p list \<Rightarrow> bool"

definition MotionConfig_init :: "'f floats \<Rightarrow> 'f MotionConfig" where
  "MotionConfig_init F = \<lparr>mc_frameWidth = 1280, mc_frameHeight = 720, mc_globalThreshold = 25, mc_minPixels = 800,
     mc_downscale = 1, mc_outWidth = 0, mc_outHeight = 0, mc_zoneAware = True, mc_enableBackgroundUpdate = True,
     mc_backgroundLearningRate = fl_num F 1 32, mc_enableMotionMap = False, mc_enableFiltering = True,
     mc_plateExport = False, mc_plateRefreshSecs = 120, mc_plateDir = [], mc_plateOnIllumChange = True\<rparr>"

definition PixelDifferenceDetector_init :: "'f floats \<Rightarrow> 'f PixelDifferenceDetector" where
  "PixelDifferenceDetector_init F = \<lparr>pd_width = 0, pd_height = 0, pd_effectiveWidth = 0, pd_effectiveHeight = 0,
     pd_config = MotionConfig_init F, pd_background = [], pd_backgroundReady = False, pd_frameCount = 0\<rparr>"

definition pd_initialize :: "int \<Rightarrow> int \<Rightarrow> 'f MotionConfig \<Rightarrow> 'f PixelDifferenceDetector \<Rightarrow> 'f PixelDifferenceDetector option" where
  "pd_initialize width height config d =
     (let (ew, eh) = (if mc_downscale config = 2 then (width sdiv 2, height sdiv 2)
            else if mc_downscale config = 0 \<and> mc_outWidth config > 0 \<and> mc_outHeight config > 0
              then (mc_outWidth config, mc_outHeight config) else (width, height))
      in if \<not> int_ok (ew * eh) \<or> ew * eh < 0 then None
         else Some (d\<lparr>pd_width := width, pd_height := height, pd_config := config, pd_frameCount := 0,
           pd_effectiveWidth := ew, pd_effectiveHeight := eh, pd_background := replicate (nat (ew * eh)) 0,
           pd_backgroundReady := False\<rparr>))"

definition pd_reset :: "'f PixelDifferenceDetector \<Rightarrow> 'f PixelDifferenceDetector" where
  "pd_reset d = d\<lparr>pd_backgroundReady := False, pd_frameCount := 0, pd_background := replicate (length (pd_background d)) 0\<rparr>"

section \<open>Difference and background\<close>

definition lane_motion :: "'p pd_libs \<Rightarrow> int \<Rightarrow> u8 \<Rightarrow> u8 \<Rightarrow> u8" where
  "lane_motion L threshold f b = (if lib_abs L (f - b) > word_of_int threshold then 255 else 0)"

definition scalar_motion :: "int \<Rightarrow> u8 \<Rightarrow> u8 \<Rightarrow> u8" where
  "scalar_motion threshold f b = (if \<bar>uint f - uint b\<bar> > threshold then 255 else 0)"

text \<open>Whole vectors first, the remaining pixels one by one.\<close>

definition generateMotionMap :: "'p pd_libs \<Rightarrow> bytes \<Rightarrow> 'f PixelDifferenceDetector \<Rightarrow> bytes option" where
  "generateMotionMap L frame d =
     (let bg = pd_background d; n = length bg; t = mc_globalThreshold (pd_config d); vectors = n div lib_lanes L * lib_lanes L
      in those (map (\<lambda>i. map_option (\<lambda>f. if i < vectors then lane_motion L t f (bg ! i) else scalar_motion t f (bg ! i))
           (get_px i frame)) [0..<n]))"

definition bg_alpha :: "'f floats \<Rightarrow> 'f \<Rightarrow> int" where
  "bg_alpha F rate = fl_to_int F (fl_mul F (fl_sub F (fl_num F 1 1) rate) (fl_num F 256 1))"

definition blend :: "int \<Rightarrow> u8 \<Rightarrow> u8 \<Rightarrow> u8 option" where
  "blend alpha b f =
     (let v = uint b * alpha + uint f * (256 - alpha)
      in if int_ok (uint b * alpha) \<and> int_ok (uint f * (256 - alpha)) \<and> int_ok v then Some (word_of_int (v div 256)) else None)"

definition updateBackground :: "'f floats \<Rightarrow> bytes \<Rightarrow> 'f PixelDifferenceDetector \<Rightarrow> 'f PixelDifferenceDetector option" where
  "updateBackground F frame d =
     (let bg = pd_background d; alpha = bg_alpha F (mc_backgroundLearningRate (pd_config d))
      in map_option (\<lambda>bg. d\<lparr>pd_background := bg\<rparr>)
           (those (map (\<lambda>i. Option.bind (get_px i frame) (blend alpha (bg ! i))) [0..<length bg])))"

section \<open>Zones\<close>

text \<open>The pixels of a zone's box: \<open>min x, max x, min y, max y\<close>, cut to the picture.\<close>

definition zone_bounds :: "'p pd_libs \<Rightarrow> 'f PixelDifferenceDetector \<Rightarrow> 'p ZoneConfig \<Rightarrow> int \<times> int \<times> int \<times> int" where
  "zone_bounds L d z =
     (case lib_envelope L (zo_polygon z) of (x0, y0, x1, y1) \<Rightarrow>
        (max 0 x0, min (pd_width d - 1) x1, max 0 y0, min (pd_height d - 1) y1))"

definition moving_in_zone :: "'p pd_libs \<Rightarrow> bytes \<Rightarrow> 'f PixelDifferenceDetector \<Rightarrow> 'p ZoneConfig \<Rightarrow> int \<times> int \<Rightarrow> bool" where
  "moving_in_zone L motionMap d z p =
     (lib_within L p (zo_polygon z) \<and>
      (let idx = snd p * pd_width d + fst p in idx < int (length motionMap) \<and> motionMap ! nat idx > 0))"

definition detectMotionInZone :: "'p pd_libs \<Rightarrow> bytes \<Rightarrow> 'f PixelDifferenceDetector \<Rightarrow> 'p ZoneConfig \<Rightarrow> int" where
  "detectMotionInZone L motionMap d z =
     (if zo_polygon z = [] then 0
      else case zone_bounds L d z of (minX, maxX, minY, maxY) \<Rightarrow>
        int (length (filter (moving_in_zone L motionMap d z) (scan minX minY (maxX + 1) (maxY + 1)))))"

definition grid_starts :: "int \<Rightarrow> int \<Rightarrow> int list" where
  "grid_starts lo hi = map (\<lambda>k. lo + 8 * int k) [0..<nat ((hi - lo + 7) div 8)]"

definition findBlobs ::
  "'p pd_libs \<Rightarrow> bytes \<Rightarrow> 'f PixelDifferenceDetector \<Rightarrow> 'p ZoneConfig \<Rightarrow> (int \<times> int \<times> int \<times> int) list" where
  "findBlobs L motionMap d z =
     (if zo_polygon z = [] then []
      else case zone_bounds L d z of (minX, maxX, minY, maxY) \<Rightarrow>
        concat (map (\<lambda>gy. concat (map (\<lambda>gx.
          let px = filter (moving_in_zone L motionMap d z) (scan gx gy (min (gx + 8) maxX) (min (gy + 8) maxY));
              motionCount = int (length px)
          in if motionCount \<ge> zo_minBlobPixels z \<and> (zo_maxBlobPixels z = 0 \<or> motionCount \<le> zo_maxBlobPixels z)
             then [(fold min (map fst px) (pd_width d), fold min (map snd px) (pd_height d),
                    fold max (map fst px) 0, fold max (map snd px) 0)] else [])
          (grid_starts minX maxX))) (grid_starts minY maxY)))"

definition zone_result :: "'p pd_libs \<Rightarrow> bytes \<Rightarrow> 'f PixelDifferenceDetector \<Rightarrow> 'p ZoneConfig \<Rightarrow> ZoneMotionResult" where
  "zone_result L motionMap d z =
     (let count = detectMotionInZone L motionMap d z;
          detected = (zo_minAlarmPixels z = 0 \<or> count \<ge> zo_minAlarmPixels z) \<and> (zo_maxAlarmPixels z = 0 \<or> count \<le> zo_maxAlarmPixels z)
      in if detected \<and> zo_checkMethod z = ''Blobs''
         then (let blobs = findBlobs L motionMap d z; n = int (length blobs)
               in \<lparr>zr_zoneId = zo_id z,
                   zr_motionDetected = (zo_minBlobs z = 0 \<or> n \<ge> zo_minBlobs z) \<and> (zo_maxBlobs z = 0 \<or> n \<le> zo_maxBlobs z),
                   zr_pixelCount = count, zr_blobCount = Some n, zr_blobs = blobs\<rparr>)
         else \<lparr>zr_zoneId = zo_id z, zr_motionDetected = detected, zr_pixelCount = count, zr_blobCount = None, zr_blobs = []\<rparr>)"

section \<open>One picture\<close>

definition downsample :: "bytes \<Rightarrow> int \<Rightarrow> int \<Rightarrow> int \<Rightarrow> bytes option" where
  "downsample frame width pw ph =
     those (map (\<lambda>(x, y).
       let at = (\<lambda>dx dy. map_option uint (get_px (nat ((y * 2 + dy) * width + x * 2 + dx)) frame))
       in Option.bind (at 0 0) (\<lambda>a. Option.bind (at 1 0) (\<lambda>b. Option.bind (at 0 1) (\<lambda>c. Option.bind (at 1 1) (\<lambda>e.
            Some (word_of_int ((a + b + c + e) div 4) :: u8)))))) (scan 0 0 pw ph))"

text \<open>The pixels that are compared, with their number of columns and rows.\<close>

definition compared_frame :: "bytes \<Rightarrow> 'f PixelDifferenceDetector \<Rightarrow> (bytes \<times> int \<times> int) option" where
  "compared_frame frame d =
     (if mc_downscale (pd_config d) = 2
      then (let pw = pd_width d sdiv 2; ph = pd_height d sdiv 2
            in map_option (\<lambda>px. (px, pw, ph)) (downsample frame (pd_width d) pw ph))
      else Some (frame, pd_width d, pd_height d))"

definition MotionResult_none :: MotionResult where
  "MotionResult_none = \<lparr>mr_hasGlobalMotion = False, mr_totalMotionPixels = 0, mr_zoneResults = [], mr_motionMap = []\<rparr>"

text \<open>\<open>memcpy\<close> of the first picture into the background.\<close>

definition first_background :: "bytes \<Rightarrow> int \<Rightarrow> bytes \<Rightarrow> bytes option" where
  "first_background frame n bg =
     (if 0 \<le> n \<and> nat n \<le> length frame \<and> nat n \<le> length bg then Some (take (nat n) frame @ drop (nat n) bg) else None)"

definition detectMotion ::
  "'f floats \<Rightarrow> 'p pd_libs \<Rightarrow> bytes \<Rightarrow> 'p ZoneConfig list \<Rightarrow> 'f PixelDifferenceDetector \<Rightarrow>
   ('f PixelDifferenceDetector \<times> MotionResult) option" where
  "detectMotion F L frame zones d =
     (let d = d\<lparr>pd_frameCount := pd_frameCount d + 1\<rparr>; c = pd_config d in
      Option.bind (compared_frame frame d) (\<lambda>(px, pw, ph).
        if \<not> pd_backgroundReady d
        then map_option (\<lambda>bg. (d\<lparr>pd_background := bg, pd_backgroundReady := True\<rparr>, MotionResult_none))
               (first_background px (pw * ph) (pd_background d))
        else Option.bind (generateMotionMap L px d) (\<lambda>motionMap.
          let total_px = int (length (filter (\<lambda>v. v > 0) motionMap));
              result = \<lparr>mr_hasGlobalMotion = (total_px \<ge> mc_minPixels c), mr_totalMotionPixels = total_px,
                mr_zoneResults = (if mc_zoneAware c \<and> zones \<noteq> []
                  then map (zone_result L motionMap d) (filter (\<lambda>z. zo_type z = ''Active'') zones) else []),
                mr_motionMap = (if mc_enableMotionMap c then motionMap else [])\<rparr>
          in map_option (\<lambda>d. (d, result)) (if mc_enableBackgroundUpdate c then updateBackground F px d else Some d))))"

section \<open>The background plate\<close>

record 'f MotionPixelDiffCtx =
  px_detector :: "'f PixelDifferenceDetector"
  px_config :: "'f MotionConfig"
  px_monitorId :: int
  px_lastPlate :: int
  px_havePlate :: bool
  px_lastPlateLuma :: int

record plate_env =
  pe_now_ns :: int
  pe_wall_ms :: u64
  pe_gray_jpeg :: "bytes \<Rightarrow> int \<Rightarrow> int \<Rightarrow> bytes option"
  pe_writable :: bool

datatype pd_act = PlateFile string bytes | PlateEvent int string u64 int int string
  | PixelMotion int int nat | ZoneMotion int int int "int option option" | PdForward bytes

definition illum_bucket :: "int \<Rightarrow> string" where
  "illum_bucket luma = (if luma < 60 then ''night'' else if luma > 170 then ''day'' else ''dusk'')"

definition maybe_write_plate :: "plate_env \<Rightarrow> 'f MotionPixelDiffCtx \<Rightarrow> 'f MotionPixelDiffCtx \<times> pd_act list" where
  "maybe_write_plate V ctx =
     (let cfg = px_config ctx; bg = pd_background (px_detector ctx) in
      if \<not> mc_plateExport cfg \<or> \<not> pd_backgroundReady (px_detector ctx) then (ctx, [])
      else if mc_plateDir cfg = [] then (ctx, [])
      else if bg = [] then (ctx, [])
      else let luma = sum_list (map uint bg) div int (length bg);
          first = \<not> px_havePlate ctx;
          due = first \<or> pe_now_ns V - px_lastPlate ctx \<ge> mc_plateRefreshSecs cfg * 1000000000;
          illum = mc_plateOnIllumChange cfg \<and> \<not> first \<and> \<bar>luma - px_lastPlateLuma ctx\<bar> > 25
        in if \<not> due \<and> \<not> illum then (ctx, [])
           else let w = pd_effectiveWidth (px_detector ctx); h = pd_effectiveHeight (px_detector ctx)
             in if w \<le> 0 \<or> h \<le> 0 \<or> w * h \<noteq> int (length bg) then (ctx, [])
                else case pe_gray_jpeg V bg w h of
                  None \<Rightarrow> (ctx, [])
                | Some jpeg \<Rightarrow>
                    let path = mc_plateDir cfg @ ''/plate-'' @ to_string (uint (pe_wall_ms V)) @ ''.jpg''
                    in if \<not> pe_writable V then (ctx, [])
                       else (ctx\<lparr>px_lastPlate := pe_now_ns V, px_havePlate := True, px_lastPlateLuma := luma\<rparr>,
                             [PlateFile path jpeg, PlateEvent (px_monitorId ctx) path (pe_wall_ms V) w h (illum_bucket luma)]))"

section \<open>The plugin\<close>

definition MotionPixelDiffCtx_init :: "'f floats \<Rightarrow> 'f MotionPixelDiffCtx" where
  "MotionPixelDiffCtx_init F = \<lparr>px_detector = PixelDifferenceDetector_init F, px_config = MotionConfig_init F, px_monitorId = 0,
     px_lastPlate = 0, px_havePlate = False, px_lastPlateLuma = - 1000\<rparr>"

definition on_config :: "('f MotionConfig \<Rightarrow> 'f MotionConfig) \<Rightarrow> 'f MotionPixelDiffCtx \<Rightarrow> 'f MotionPixelDiffCtx" where
  "on_config upd ctx = ctx\<lparr>px_config := upd (px_config ctx)\<rparr>"

definition motion_pixel_diff_start ::
  "'j json_api \<Rightarrow> ('j, 'f) json_float \<Rightarrow> 'f floats \<Rightarrow> string option \<Rightarrow> 'f MotionPixelDiffCtx" where
  "motion_pixel_diff_start J K F json_cfg =
     (case Option.bind json_cfg (j_parse J) of
        None \<Rightarrow> MotionPixelDiffCtx_init F
      | Some j \<Rightarrow>
          (let c = Inr (MotionPixelDiffCtx_init F);
               c = cfg_step (j_value_int J j ''frame_width'' 1280) (\<lambda>v. on_config (\<lambda>x. x\<lparr>mc_frameWidth := v\<rparr>)) c;
               c = cfg_step (j_value_int J j ''frame_height'' 720) (\<lambda>v. on_config (\<lambda>x. x\<lparr>mc_frameHeight := v\<rparr>)) c;
               c = cfg_step (j_value_int J j ''threshold'' 25) (\<lambda>v. on_config (\<lambda>x. x\<lparr>mc_globalThreshold := v\<rparr>)) c;
               c = cfg_step (j_value_int J j ''min_pixels'' 800) (\<lambda>v. on_config (\<lambda>x. x\<lparr>mc_minPixels := v\<rparr>)) c;
               c = cfg_step (j_value_int J j ''downscale'' 1) (\<lambda>v. on_config (\<lambda>x. x\<lparr>mc_downscale := v\<rparr>)) c;
               c = cfg_step (j_value_int J j ''out_width'' 0) (\<lambda>v. on_config (\<lambda>x. x\<lparr>mc_outWidth := v\<rparr>)) c;
               c = cfg_step (j_value_int J j ''out_height'' 0) (\<lambda>v. on_config (\<lambda>x. x\<lparr>mc_outHeight := v\<rparr>)) c;
               c = cfg_step (j_value_bool J j ''zone_aware'' True) (\<lambda>v. on_config (\<lambda>x. x\<lparr>mc_zoneAware := v\<rparr>)) c;
               c = cfg_step (j_value_bool J j ''enable_background_update'' True)
                     (\<lambda>v. on_config (\<lambda>x. x\<lparr>mc_enableBackgroundUpdate := v\<rparr>)) c;
               c = cfg_step (jf_value K j ''background_learning_rate'' (fl_num F 1 32))
                     (\<lambda>v. on_config (\<lambda>x. x\<lparr>mc_backgroundLearningRate := v\<rparr>)) c;
               c = cfg_step (j_value_bool J j ''enable_motion_map'' False) (\<lambda>v. on_config (\<lambda>x. x\<lparr>mc_enableMotionMap := v\<rparr>)) c;
               c = cfg_step (j_value_bool J j ''enable_filtering'' True) (\<lambda>v. on_config (\<lambda>x. x\<lparr>mc_enableFiltering := v\<rparr>)) c;
               c = cfg_step (j_value_bool J j ''plate_export'' False) (\<lambda>v. on_config (\<lambda>x. x\<lparr>mc_plateExport := v\<rparr>)) c;
               c = cfg_step (j_value_int J j ''plate_refresh_secs'' 120) (\<lambda>v. on_config (\<lambda>x. x\<lparr>mc_plateRefreshSecs := v\<rparr>)) c;
               c = cfg_step (j_value_string J j ''plate_dir'' []) (\<lambda>v. on_config (\<lambda>x. x\<lparr>mc_plateDir := v\<rparr>)) c;
               c = cfg_step (j_value_bool J j ''plate_on_illum_change'' True) (\<lambda>v. on_config (\<lambda>x. x\<lparr>mc_plateOnIllumChange := v\<rparr>)) c
           in cfg_result (cfg_step (j_value_int J j ''monitor_id'' 0) (\<lambda>v ctx. ctx\<lparr>px_monitorId := v\<rparr>) c)))"

definition motion_events :: "MotionResult \<Rightarrow> 'f MotionPixelDiffCtx \<Rightarrow> pd_act list" where
  "motion_events result ctx =
     (if mr_hasGlobalMotion result
      then [PixelMotion (px_monitorId ctx) (mr_totalMotionPixels result) (pd_frameCount (px_detector ctx))] else []) @
     map (\<lambda>z. ZoneMotion (px_monitorId ctx) (zr_zoneId z) (zr_pixelCount z)
         (case zr_blobCount z of None \<Rightarrow> None | Some n \<Rightarrow> Some (if n > 0 then Some n else None)))
       (filter zr_motionDetected (mr_zoneResults result))"

text \<open>
  A frame. \<open>initialized\<close> is a static variable: one for all instances of the plugin in the process, so it comes in and
  goes out beside the state of this instance.
\<close>

definition motion_pixel_diff_on_frame ::
  "'f floats \<Rightarrow> 'p pd_libs \<Rightarrow> plate_env \<Rightarrow> bytes \<Rightarrow> bool \<Rightarrow> 'f MotionPixelDiffCtx \<Rightarrow>
   (bool \<times> 'f MotionPixelDiffCtx \<times> pd_act list) option" where
  "motion_pixel_diff_on_frame F L V buf initialized ctx =
     (if length buf < sizeof_frame_hdr then Some (initialized, ctx, [])
      else if fh_hw_type (frame_hdr buf) \<noteq> ZM_FRAME_GRAYSCALE then Some (initialized, ctx, [PdForward buf])
      else Option.bind
        (if initialized then Some (px_detector ctx)
         else pd_initialize (mc_frameWidth (px_config ctx)) (mc_frameHeight (px_config ctx)) (px_config ctx) (px_detector ctx)) (\<lambda>d.
        Option.bind (detectMotion F L (drop sizeof_frame_hdr buf) [] d) (\<lambda>(d, result).
          case maybe_write_plate V (ctx\<lparr>px_detector := d\<rparr>) of
            (ctx, plate) \<Rightarrow> Some (True, ctx, plate @ motion_events result ctx @ [PdForward buf]))))"

section \<open>The background settles\<close>

definition settled :: "int \<Rightarrow> u8 \<Rightarrow> u8 \<Rightarrow> bool" where
  "settled beta b f \<longleftrightarrow> b \<le> f \<and> beta * (uint f - uint b) < 256"

text \<open>How much a pixel moves towards the picture, for a weight \<open>beta\<close> of the picture.\<close>

lemma step_between:
  assumes "0 < beta" "beta \<le> 256"
  shows "b \<le> f \<Longrightarrow> 0 \<le> beta * (f - b) div 256 \<and> beta * (f - b) div 256 \<le> f - (b :: int)"
    "f < b \<Longrightarrow> f - b \<le> beta * (f - b) div 256 \<and> beta * (f - b) div 256 \<le> - 1"
proof -
  show "0 \<le> beta * (f - b) div 256 \<and> beta * (f - b) div 256 \<le> f - b" if "b \<le> f"
  proof -
    have "beta * (f - b) \<le> 256 * (f - b)" using assms that by (intro mult_right_mono) simp_all
    then have "beta * (f - b) div 256 \<le> 256 * (f - b) div 256" by (rule zdiv_mono1) simp
    moreover have "0 \<le> beta * (f - b)" using assms that by simp
    ultimately show ?thesis by (simp add: pos_imp_zdiv_nonneg_iff)
  qed
  show "f - b \<le> beta * (f - b) div 256 \<and> beta * (f - b) div 256 \<le> - 1" if "f < b"
  proof -
    have "256 * (f - b) \<le> beta * (f - b)" using assms that by (intro mult_right_mono_neg) simp_all
    then have "256 * (f - b) div 256 \<le> beta * (f - b) div 256" by (rule zdiv_mono1) simp
    moreover have "beta * (f - b) < 0" using assms that by (simp add: mult_pos_neg)
    then have "beta * (f - b) div 256 < 0" by (simp add: neg_imp_zdiv_neg_iff div_neg_pos_less0)
    ultimately show ?thesis by simp
  qed
qed

lemma uint_u8: "\<lbrakk>0 \<le> x; x \<le> 255\<rbrakk> \<Longrightarrow> uint (word_of_int x :: u8) = x"
  by (simp add: uint_word_of_int)

lemma blend_Some:
  assumes "0 \<le> alpha" "alpha < 256"
  shows "\<exists>v. blend alpha b f = Some v \<and> uint v = uint b + (256 - alpha) * (uint f - uint b) div 256"
proof -
  have r: "0 \<le> uint b" "uint b \<le> 255" "0 \<le> uint f" "uint f \<le> 255"
    using uint_bounded [of b] uint_bounded [of f] by simp_all
  have 1: "uint b * alpha \<le> 255 * 256" using r assms by (intro mult_mono) simp_all
  have 2: "uint f * (256 - alpha) \<le> 255 * 256" using r assms by (intro mult_mono) simp_all
  have e: "uint b * alpha + uint f * (256 - alpha) = uint b * 256 + (256 - alpha) * (uint f - uint b)"
    by (simp add: algebra_simps)
  have "0 \<le> uint b * alpha" "0 \<le> uint f * (256 - alpha)" using r assms by simp_all
  then have some: "blend alpha b f = Some (word_of_int (uint b + (256 - alpha) * (uint f - uint b) div 256))"
    using 1 2 e by (simp add: blend_def int_ok_def Let_def)
  have "0 \<le> uint b + (256 - alpha) * (uint f - uint b) div 256 \<and> uint b + (256 - alpha) * (uint f - uint b) div 256 \<le> 255"
  proof (cases "uint b \<le> uint f")
    case True
    then show ?thesis using step_between(1) [of "256 - alpha" "uint b" "uint f"] assms r by linarith
  next
    case False
    then show ?thesis using step_between(2) [of "256 - alpha" "uint f" "uint b"] assms r by linarith
  qed
  then have "uint (word_of_int (uint b + (256 - alpha) * (uint f - uint b) div 256) :: u8) =
    uint b + (256 - alpha) * (uint f - uint b) div 256" by (intro uint_u8) simp_all
  with some show ?thesis by blast
qed

text \<open>A pixel that is not settled comes nearer; a settled one stays.\<close>

lemma blend_nearer:
  assumes "0 \<le> alpha" "alpha < 256" "blend alpha b f = Some v"
  shows "settled (256 - alpha) b f \<Longrightarrow> v = b"
    "\<not> settled (256 - alpha) b f \<Longrightarrow> \<bar>uint f - uint v\<bar> < \<bar>uint f - uint b\<bar>"
proof -
  have v: "uint v = uint b + (256 - alpha) * (uint f - uint b) div 256" using blend_Some [OF assms(1,2), of b f] assms(3) by simp
  show "v = b" if "settled (256 - alpha) b f"
  proof -
    have "0 \<le> (256 - alpha) * (uint f - uint b)" "(256 - alpha) * (uint f - uint b) < 256"
      using that assms by (simp_all add: settled_def word_le_def)
    then have "uint v = uint b" by (simp add: v)
    then show ?thesis by (rule word_uint_eqI)
  qed
  show "\<bar>uint f - uint v\<bar> < \<bar>uint f - uint b\<bar>" if ns: "\<not> settled (256 - alpha) b f"
  proof (cases "uint b \<le> uint f")
    case True
    then have "256 \<le> (256 - alpha) * (uint f - uint b)" using ns by (simp add: settled_def word_le_def)
    then have "256 div 256 \<le> (256 - alpha) * (uint f - uint b) div 256" by (rule zdiv_mono1) simp
    then show ?thesis using step_between(1) [of "256 - alpha" "uint b" "uint f"] assms True v by auto
  next
    case False
    then show ?thesis using step_between(2) [of "256 - alpha" "uint f" "uint b"] assms v by auto
  qed
qed

text \<open>A detector whose buffers have the size of the pictures.\<close>

definition pd_fits :: "'f floats \<Rightarrow> 'f PixelDifferenceDetector \<Rightarrow> bool" where
  "pd_fits F d \<longleftrightarrow> 0 \<le> pd_width d \<and> 0 \<le> pd_height d \<and> 0 \<le> bg_alpha F (mc_backgroundLearningRate (pd_config d)) \<and>
     bg_alpha F (mc_backgroundLearningRate (pd_config d)) < 256 \<and>
     (mc_downscale (pd_config d) = 2 \<longrightarrow> length (pd_background d) = nat ((pd_width d sdiv 2) * (pd_height d sdiv 2))) \<and>
     (mc_downscale (pd_config d) \<noteq> 2 \<longrightarrow> length (pd_background d) = nat (pd_width d * pd_height d))"

lemma half_size: "0 \<le> (w :: int) \<Longrightarrow> w sdiv 2 = w div 2"
  by (simp add: signed_divide_int_def sgn_if)

lemma downsample_Some:
  assumes "0 \<le> w" "0 \<le> h" "nat (w * h) \<le> length frame"
  shows "\<exists>px. downsample frame w (w sdiv 2) (h sdiv 2) = Some px \<and> length px = nat ((w sdiv 2) * (h sdiv 2))"
proof -
  have at: "\<exists>v. get_px (nat ((y * 2 + dy) * w + x * 2 + dx)) frame = Some v"
    if "(x, y) \<in> set (scan 0 0 (w div 2) (h div 2))" "dx \<in> {0, 1}" "dy \<in> {0, 1}" for x y dx dy
  proof -
    have "in_picture w h (x * 2 + dx, y * 2 + dy)" using that by (auto simp: in_picture_def)
    from px_index_bound [OF this, of 0 1] assms(3)
    have "nat ((y * 2 + dy) * w + (x * 2 + dx)) < length frame"
      by (simp add: px_index_def del: nat_less_iff zless_nat_conj zless_nat_eq_int_zless nat_mono_iff)
    then have "nat ((y * 2 + dy) * w + x * 2 + dx) < length frame" by (simp add: add.assoc)
    then show ?thesis by (simp add: get_px_def)
  qed
  have len: "length (scan 0 0 x1 y1) = nat (x1 * y1)" if "0 \<le> x1" "0 \<le> y1" for x1 y1
    using that by (simp add: scan_def length_concat o_def sum_list_triv nat_mult_distrib mult.commute)
  define f where "f = (\<lambda>(x, y).
       let at = (\<lambda>dx dy. map_option uint (get_px (nat ((y * 2 + dy) * w + x * 2 + dx)) frame))
       in Option.bind (at 0 0) (\<lambda>a. Option.bind (at 1 0) (\<lambda>b. Option.bind (at 0 1) (\<lambda>c. Option.bind (at 1 1) (\<lambda>e.
            Some (word_of_int ((a + b + c + e) div 4) :: u8))))))"
  have "\<exists>v. f p = Some v" if p: "p \<in> set (scan 0 0 (w div 2) (h div 2))" for p
  proof -
    obtain x y where xy: "p = (x, y)" by fastforce
    show ?thesis using at [of x y 0 0] at [of x y 1 0] at [of x y 0 1] at [of x y 1 1] p
      by (auto simp: f_def xy Let_def add.assoc)
  qed
  then obtain g where g: "\<And>p. p \<in> set (scan 0 0 (w div 2) (h div 2)) \<Longrightarrow> f p = Some (g p)" by metis
  have "downsample frame w (w sdiv 2) (h sdiv 2) = Some (map g (scan 0 0 (w div 2) (h div 2)))"
    unfolding downsample_def half_size [OF assms(1)] half_size [OF assms(2)]
    using those_map_Some [of "scan 0 0 (w div 2) (h div 2)" f g] g by (simp add: f_def)
  then show ?thesis using assms by (simp add: half_size len)
qed

lemma process_fits:
  assumes "pd_fits F d" "nat (pd_width d * pd_height d) \<le> length frame"
  shows "\<exists>px pw ph. compared_frame frame d = Some (px, pw, ph) \<and> length (pd_background d) = nat (pw * ph) \<and>
    0 \<le> pw * ph \<and> length (pd_background d) \<le> length px"
proof (cases "mc_downscale (pd_config d) = 2")
  case True
  have "0 \<le> pd_width d" "0 \<le> pd_height d" using assms(1) by (simp_all add: pd_fits_def)
  with downsample_Some [OF _ _ assms(2)] True assms(1) show ?thesis
    by (auto simp: compared_frame_def pd_fits_def half_size Let_def)
next
  case False with assms show ?thesis by (simp add: compared_frame_def pd_fits_def)
qed

lemma motion_map_Some:
  "length (pd_background d) \<le> length px \<Longrightarrow> \<exists>m. generateMotionMap L px d = Some m \<and> length m = length (pd_background d)"
  unfolding generateMotionMap_def Let_def
  by (subst those_map_Some [where g = "\<lambda>i. if i < length (pd_background d) div lib_lanes L * lib_lanes L
      then lane_motion L (mc_globalThreshold (pd_config d)) (px ! i) (pd_background d ! i)
      else scalar_motion (mc_globalThreshold (pd_config d)) (px ! i) (pd_background d ! i)"]) (auto simp: get_px_def)

lemma update_Some:
  assumes "pd_fits F d" "length (pd_background d) \<le> length px"
  shows "\<exists>bg. updateBackground F px d = Some (d\<lparr>pd_background := bg\<rparr>) \<and> length bg = length (pd_background d) \<and>
    (\<forall>i < length bg. blend (bg_alpha F (mc_backgroundLearningRate (pd_config d))) (pd_background d ! i) (px ! i) = Some (bg ! i))"
proof -
  let ?a = "bg_alpha F (mc_backgroundLearningRate (pd_config d))"
  define g where "g i = the (blend ?a (pd_background d ! i) (px ! i))" for i
  have g: "blend ?a (pd_background d ! i) (px ! i) = Some (g i)" for i
    using blend_Some [of ?a "pd_background d ! i" "px ! i"] assms(1) by (auto simp: pd_fits_def g_def)
  have "those (map (\<lambda>i. Option.bind (get_px i px) (blend ?a (pd_background d ! i))) [0..<length (pd_background d)]) =
    Some (map g [0..<length (pd_background d)])"
    by (rule those_map_Some) (use assms(2) g in \<open>auto simp: get_px_def\<close>)
  then show ?thesis
    by (intro exI [of _ "map g [0..<length (pd_background d)]"] conjI) (simp_all add: updateBackground_def g)
qed

text \<open>The same picture again and again.\<close>

fun detect_n :: "'f floats \<Rightarrow> 'p pd_libs \<Rightarrow> bytes \<Rightarrow> nat \<Rightarrow> 'f PixelDifferenceDetector \<Rightarrow> 'f PixelDifferenceDetector option" where
  "detect_n F L frame 0 d = Some d"
| "detect_n F L frame (Suc n) d = Option.bind (detectMotion F L frame [] d) (\<lambda>(d, _). detect_n F L frame n d)"

lemma count_only [simp]:
  "compared_frame frame (d\<lparr>pd_frameCount := k\<rparr>) = compared_frame frame d"
  "pd_fits F (d\<lparr>pd_frameCount := k\<rparr>) = pd_fits F d"
  "generateMotionMap L px (d\<lparr>pd_frameCount := k\<rparr>) = generateMotionMap L px d"
  "updateBackground F px (d\<lparr>pd_frameCount := k\<rparr>) =
     map_option (\<lambda>d. d\<lparr>pd_frameCount := k\<rparr>) (updateBackground F px d)"
     apply (simp_all add: compared_frame_def pd_fits_def generateMotionMap_def Let_def)
  apply (cases d)
  apply (simp add: updateBackground_def Let_def option.map_comp o_def)
  done

lemma process_same:
  "\<lbrakk>pd_width e = pd_width d; pd_height e = pd_height d; pd_config e = pd_config d\<rbrakk> \<Longrightarrow> compared_frame frame e = compared_frame frame d"
  by (simp add: compared_frame_def)

text \<open>One picture on a detector that fits: it never leaves a buffer, and keeps its sizes.\<close>

lemma detect_fits:
  assumes "pd_fits F d" "nat (pd_width d * pd_height d) \<le> length frame"
  shows "\<exists>d' r. detectMotion F L frame zones d = Some (d', r) \<and> pd_fits F d' \<and> pd_width d' = pd_width d \<and>
    pd_height d' = pd_height d \<and> pd_config d' = pd_config d \<and> length (pd_background d') = length (pd_background d) \<and>
    pd_effectiveWidth d' = pd_effectiveWidth d \<and> pd_effectiveHeight d' = pd_effectiveHeight d \<and> pd_backgroundReady d'"
proof -
  obtain px pw ph where px: "compared_frame frame d = Some (px, pw, ph)" "length (pd_background d) = nat (pw * ph)"
    "0 \<le> pw * ph" "length (pd_background d) \<le> length px" using process_fits [OF assms] by blast
  show ?thesis
  proof (cases "pd_backgroundReady d")
    case False
    have "first_background px (pw * ph) (pd_background d) = Some (take (nat (pw * ph)) px)"
      using px by (simp add: first_background_def)
    moreover have "length (take (nat (pw * ph)) px) = length (pd_background d)" using px by simp
    ultimately show ?thesis using False px(1) assms(1) by (simp add: detectMotion_def pd_fits_def Let_def del: length_take)
  next
    case True
    obtain m where m: "generateMotionMap L px d = Some m"
      using motion_map_Some [of d px L] px(4) by auto
    obtain bg where bg: "updateBackground F px d = Some (d\<lparr>pd_background := bg\<rparr>)" "length bg = length (pd_background d)"
      using update_Some [OF assms(1), of px] px(4) by auto
    show ?thesis using True px(1) assms(1) bg(2) by (simp add: detectMotion_def m bg(1) pd_fits_def Let_def)
  qed
qed

lemma detect_background:
  assumes "pd_fits F d" "pd_backgroundReady d" "mc_enableBackgroundUpdate (pd_config d)"
    "compared_frame frame d = Some (px, pw, ph)" "length (pd_background d) \<le> length px"
    "detectMotion F L frame zones d = Some (d', r)" "i < length (pd_background d)"
  shows "blend (bg_alpha F (mc_backgroundLearningRate (pd_config d))) (pd_background d ! i) (px ! i) = Some (pd_background d' ! i)"
proof -
  obtain m where m: "generateMotionMap L px d = Some m"
    using motion_map_Some [of d px L] assms(5) by auto
  obtain bg where bg: "updateBackground F px d = Some (d\<lparr>pd_background := bg\<rparr>)" "length bg = length (pd_background d)"
    "\<forall>i < length bg. blend (bg_alpha F (mc_backgroundLearningRate (pd_config d))) (pd_background d ! i) (px ! i) = Some (bg ! i)"
    using update_Some [OF assms(1), of px] assms(5) by auto
  have "pd_background d' = bg"
    using assms(2-4,6) by (auto simp: detectMotion_def m bg(1) Let_def)
  with bg(2,3) assms(7) show ?thesis by simp
qed

lemma settle_steps:
  assumes "pd_fits F d" "pd_backgroundReady d" "mc_enableBackgroundUpdate (pd_config d)"
    "compared_frame frame d = Some (px, pw, ph)" "length (pd_background d) \<le> length px" "nat (pd_width d * pd_height d) \<le> length frame"
    "\<forall>i < length (pd_background d). settled (256 - bg_alpha F (mc_backgroundLearningRate (pd_config d))) (pd_background d ! i) (px ! i) \<or>
       \<bar>uint (px ! i) - uint (pd_background d ! i)\<bar> \<le> int n"
  shows "\<exists>d'. detect_n F L frame n d = Some d' \<and> pd_fits F d' \<and> pd_backgroundReady d' \<and> pd_config d' = pd_config d \<and>
    pd_width d' = pd_width d \<and> pd_height d' = pd_height d \<and> length (pd_background d') = length (pd_background d) \<and>
    (\<forall>i < length (pd_background d).
       settled (256 - bg_alpha F (mc_backgroundLearningRate (pd_config d))) (pd_background d' ! i) (px ! i))"
  using assms
proof (induction n arbitrary: d)
  case 0
  have "settled beta b f" if "\<bar>uint f - uint b\<bar> \<le> 0" for beta b f
    using that by (simp add: settled_def word_le_def)
  then show ?case using 0 by auto
next
  case (Suc n)
  let ?a = "bg_alpha F (mc_backgroundLearningRate (pd_config d))"
  obtain d1 r where d1: "detectMotion F L frame [] d = Some (d1, r)" "pd_fits F d1" "pd_width d1 = pd_width d"
    "pd_height d1 = pd_height d" "pd_config d1 = pd_config d" "length (pd_background d1) = length (pd_background d)" "pd_backgroundReady d1"
    using detect_fits [OF Suc.prems(1,6)] by metis
  have a: "0 \<le> ?a" "?a < 256" using Suc.prems(1) by (simp_all add: pd_fits_def)
  have nearer: "settled (256 - ?a) (pd_background d1 ! i) (px ! i) \<or> \<bar>uint (px ! i) - uint (pd_background d1 ! i)\<bar> \<le> int n"
    if "i < length (pd_background d)" for i
  proof -
    note b = detect_background [OF Suc.prems(1-5) d1(1) that]
    show ?thesis using blend_nearer [OF a b] Suc.prems(7) that
      by (cases "settled (256 - ?a) (pd_background d ! i) (px ! i)") fastforce+
  qed
  have "compared_frame frame d1 = Some (px, pw, ph)" using Suc.prems(4) process_same [OF d1(3-5)] by simp
  with Suc.IH [of d1] d1 Suc.prems(3,5,6) nearer show ?case by auto
qed

text \<open>
  C25. Under a picture that does not change the background settles: for every rate of learning above zero, every
  resolution and both scalings, 255 turns lead to a background that no further turn changes. What remains is one-sided: no
  pixel of the background is brighter than the picture's, and it is darker by less than 256 / beta steps, where beta / 256
  is the rate in fixed point (8 / 256 by default: the background stops up to 31 levels below the picture).
\<close>

theorem background_settles:
  assumes "pd_fits F d" "pd_backgroundReady d" "mc_enableBackgroundUpdate (pd_config d)"
    "nat (pd_width d * pd_height d) \<le> length frame" "255 \<le> n"
  shows "\<exists>d' px pw ph. detect_n F L frame n d = Some d' \<and> compared_frame frame d = Some (px, pw, ph) \<and>
    (\<forall>i < length (pd_background d). pd_background d' ! i \<le> px ! i \<and>
       (256 - bg_alpha F (mc_backgroundLearningRate (pd_config d))) * (uint (px ! i) - uint (pd_background d' ! i)) < 256) \<and>
    (\<exists>d'' r. detectMotion F L frame [] d' = Some (d'', r) \<and> pd_background d'' = pd_background d')"
proof -
  let ?a = "bg_alpha F (mc_backgroundLearningRate (pd_config d))"
  obtain px pw ph where px: "compared_frame frame d = Some (px, pw, ph)" "length (pd_background d) \<le> length px"
    using process_fits [OF assms(1,4)] by blast
  have "\<bar>uint (f :: u8) - uint b\<bar> \<le> int n" for f b :: u8
  proof -
    have "uint f < 256" "uint b < 256" "0 \<le> uint f" "0 \<le> uint b" using uint_bounded [of f] uint_bounded [of b] by simp_all
    then show ?thesis using assms(5) by linarith
  qed
  then obtain d' where d': "detect_n F L frame n d = Some d'" "pd_fits F d'" "pd_backgroundReady d'" "pd_config d' = pd_config d"
    "pd_width d' = pd_width d" "pd_height d' = pd_height d" "length (pd_background d') = length (pd_background d)"
    "\<forall>i < length (pd_background d). settled (256 - ?a) (pd_background d' ! i) (px ! i)"
    using settle_steps [OF assms(1-3) px assms(4), of n L] by blast
  have fits: "nat (pd_width d' * pd_height d') \<le> length frame" using d' assms(4) by simp
  have px': "compared_frame frame d' = Some (px, pw, ph)" using px(1) process_same [OF d'(5,6,4)] by simp
  obtain d'' r where r: "detectMotion F L frame [] d' = Some (d'', r)" "length (pd_background d'') = length (pd_background d')"
    using detect_fits [OF d'(2) fits] by metis
  have upd: "mc_enableBackgroundUpdate (pd_config d')" and len: "length (pd_background d') \<le> length px" using d' assms(3) px by simp_all
  have a: "0 \<le> ?a" "?a < 256" using assms(1) by (simp_all add: pd_fits_def)
  have "pd_background d'' ! i = pd_background d' ! i" if "i < length (pd_background d')" for i
  proof -
    have "blend ?a (pd_background d' ! i) (px ! i) = Some (pd_background d'' ! i)"
      using detect_background [OF d'(2,3) upd px' len r(1) that] d'(4) by simp
    from blend_nearer(1) [OF a this] d'(7,8) that show ?thesis by simp
  qed
  with r(2) have "pd_background d'' = pd_background d'" by (simp add: nth_equalityI)
  with d'(1,8) px(1) r(1) show ?thesis by (auto simp: settled_def)
qed

text \<open>Fixed-point numbers with eight binary places, to evaluate with.\<close>

definition fixed_floats :: "int floats" where
  "fixed_floats = int_floats\<lparr>fl_num := (\<lambda>n d. n * 256 div d), fl_mul := (\<lambda>x y. x * y div 256), fl_to_int := (\<lambda>x. x div 256)\<rparr>"

definition two_pixels :: "int PixelDifferenceDetector" where
  "two_pixels = (PixelDifferenceDetector_init fixed_floats)\<lparr>pd_width := 2, pd_height := 1, pd_background := [70, 200], pd_backgroundReady := True\<rparr>"

text \<open>Vectors of two lanes, and polygons that are given by two corners of a box.\<close>

definition demo_libs :: "(int \<times> int) pd_libs" where
  "demo_libs = \<lparr>lib_lanes = 2, lib_abs = (\<lambda>v. if sint v < 0 then - v else v),
     lib_envelope = (\<lambda>ps. (Min (set (map fst ps)), Min (set (map snd ps)), Max (set (map fst ps)), Max (set (map snd ps)))),
     lib_within = (\<lambda>p ps. list_ex (\<lambda>q. fst q \<le> fst p \<and> snd q \<le> snd p) ps \<and> list_ex (\<lambda>q. fst p \<le> fst q \<and> snd p \<le> snd q) ps)\<rparr>"

lemma two_pixels_facts:
  "pd_fits fixed_floats two_pixels" "pd_backgroundReady two_pixels" "mc_enableBackgroundUpdate (pd_config two_pixels)"
  "nat (pd_width two_pixels * pd_height two_pixels) \<le> length [100, 40 :: u8]" "(255 :: nat) \<le> 255"
  "bg_alpha fixed_floats (mc_backgroundLearningRate (pd_config two_pixels)) = 248" "length (pd_background two_pixels) = 2"
  "compared_frame [100, 40] two_pixels = Some ([100, 40], 2, 1)"
  by code_simp+

theorem background_settles_witness:
  "\<exists>d'. detect_n fixed_floats demo_libs [100, 40] 255 two_pixels = Some d' \<and> pd_background d' ! 0 \<le> 100 \<and>
     8 * (uint (100 :: u8) - uint (pd_background d' ! 0)) < 256 \<and> pd_background d' ! 1 \<le> 40"
proof -
  obtain d' where d': "detect_n fixed_floats demo_libs [100, 40] 255 two_pixels = Some d'"
    and i: "\<And>i. i < 2 \<Longrightarrow> pd_background d' ! i \<le> [100, 40] ! i \<and> 8 * (uint ([100, 40 :: u8] ! i) - uint (pd_background d' ! i)) < 256"
    using background_settles [OF two_pixels_facts(1-5), of demo_libs] two_pixels_facts(6-8) by auto
  show ?thesis using d' i [of 0] i [of 1] by auto
qed

text \<open>A rise in brightness by 26 to 31 levels is motion for ever.\<close>

lemma faint_rise_is_motion_for_ever:
  assumes "25 < uint f - uint b" "uint f - uint b \<le> 31"
  shows "blend 248 b f = Some b \<and> scalar_motion 25 f b = 255"
proof -
  have s: "settled 8 b f" using assms by (simp add: settled_def word_le_def)
  obtain v where v: "blend 248 b f = Some v" using blend_Some [of 248 b f] by auto
  have "v = b" using blend_nearer(1) [OF _ _ v] s by simp
  with v assms show ?thesis by (simp add: scalar_motion_def)
qed

text \<open>The absolute value of an unsigned lane is the lane: a pixel that darkens by one level is motion.\<close>

lemma vector_darkening_is_motion:
  assumes "\<And>v. lib_abs L v = v" "f - b = 255" "0 \<le> t" "t < 255"
  shows "lane_motion L t f b = 255"
proof -
  have "(word_of_int t :: u8) < 255" using assms(3,4) by (simp add: word_less_def uint_word_of_int)
  then show ?thesis using assms by (simp add: lane_motion_def)
qed

section \<open>The plugin in a pipeline\<close>

fun pd_run ::
  "'f floats \<Rightarrow> 'p pd_libs \<Rightarrow> (plate_env \<times> bytes) list \<Rightarrow> bool \<Rightarrow> 'f MotionPixelDiffCtx \<Rightarrow>
   (bool \<times> 'f MotionPixelDiffCtx \<times> pd_act list) option" where
  "pd_run F L [] i ctx = Some (i, ctx, [])"
| "pd_run F L ((V, buf) # xs) i ctx =
     Option.bind (motion_pixel_diff_on_frame F L V buf i ctx) (\<lambda>(i, ctx, acts).
       map_option (map_prod id (map_prod id ((@) acts))) (pd_run F L xs i ctx))"

fun pd_forwarded :: "pd_act list \<Rightarrow> bytes list" where
  "pd_forwarded [] = []"
| "pd_forwarded (PdForward b # as) = b # pd_forwarded as"
| "pd_forwarded (_ # as) = pd_forwarded as"

lemma pd_forwarded_append [simp]: "pd_forwarded (as @ bs) = pd_forwarded as @ pd_forwarded bs"
  by (induction as rule: pd_forwarded.induct) simp_all

lemma plate_keeps:
  "maybe_write_plate V ctx = (ctx', acts) \<Longrightarrow> pd_forwarded acts = [] \<and> px_detector ctx' = px_detector ctx \<and> px_config ctx' = px_config ctx"
  by (auto simp: maybe_write_plate_def Let_def split: if_splits option.splits)

lemma motion_events_keep: "pd_forwarded (motion_events r ctx) = []"
proof -
  have "pd_forwarded (map (\<lambda>z. ZoneMotion (m z) (k z) (p z) (q z)) zs) = []" for m k p q and zs :: "ZoneMotionResult list"
    by (induction zs) simp_all
  then show ?thesis by (simp add: motion_events_def)
qed

definition pd_sized :: "'f floats \<Rightarrow> 'f MotionConfig \<Rightarrow> bool" where
  "pd_sized F c \<longleftrightarrow> 0 \<le> mc_frameWidth c \<and> 0 \<le> mc_frameHeight c \<and> int_ok (mc_frameWidth c * mc_frameHeight c) \<and>
     (mc_downscale c = 0 \<longrightarrow> mc_outWidth c \<le> 0 \<or> mc_outHeight c \<le> 0) \<and>
     0 \<le> bg_alpha F (mc_backgroundLearningRate c) \<and> bg_alpha F (mc_backgroundLearningRate c) < 256"

definition pd_inv :: "'f floats \<Rightarrow> 'f MotionConfig \<Rightarrow> bool \<Rightarrow> 'f MotionPixelDiffCtx \<Rightarrow> bool" where
  "pd_inv F c i ctx \<longleftrightarrow> px_config ctx = c \<and> (i \<longrightarrow> pd_fits F (px_detector ctx) \<and>
     pd_width (px_detector ctx) = mc_frameWidth c \<and> pd_height (px_detector ctx) = mc_frameHeight c)"

lemma initialize_fits:
  assumes "pd_sized F c"
  shows "\<exists>d'. pd_initialize (mc_frameWidth c) (mc_frameHeight c) c d = Some d' \<and> pd_fits F d' \<and>
    pd_width d' = mc_frameWidth c \<and> pd_height d' = mc_frameHeight c"
proof -
  let ?w = "mc_frameWidth c" and ?h = "mc_frameHeight c"
  have n: "0 \<le> ?w" "0 \<le> ?h" "int_ok (?w * ?h)" using assms by (simp_all add: pd_sized_def)
  have "?w div 2 * (?h div 2) \<le> ?w * ?h" using n by (intro mult_mono) simp_all
  moreover have "0 \<le> ?w div 2 * (?h div 2)" using n by (simp add: pos_imp_zdiv_nonneg_iff)
  ultimately have "int_ok (?w div 2 * (?h div 2))" "0 \<le> ?w div 2 * (?h div 2)" using n(3) unfolding int_ok_def by linarith+
  then have ok: "int_ok (?w div 2 * (?h div 2))" "\<not> ?w div 2 * (?h div 2) < 0" by simp_all
  have whole: "\<not> ?w * ?h < 0" using n by (simp add: not_less)
  show ?thesis
  proof (cases "mc_downscale c = 2")
    case True
    then show ?thesis using assms n by (simp add: pd_initialize_def pd_sized_def pd_fits_def half_size ok)
  next
    case False
    then have "\<not> (mc_downscale c = 0 \<and> mc_outWidth c > 0 \<and> mc_outHeight c > 0)" using assms by (auto simp: pd_sized_def)
    then have "(if mc_downscale c = 2 then (?w sdiv 2, ?h sdiv 2)
      else if mc_downscale c = 0 \<and> mc_outWidth c > 0 \<and> mc_outHeight c > 0 then (mc_outWidth c, mc_outHeight c) else (?w, ?h)) = (?w, ?h)"
      using False by (simp only: if_False)
    then show ?thesis using assms n False whole unfolding pd_initialize_def by (simp add: pd_sized_def pd_fits_def)
  qed
qed

lemma on_frame_inv:
  assumes "pd_sized F c" "pd_inv F c i ctx"
    "sizeof_frame_hdr \<le> length buf \<Longrightarrow> fh_hw_type (frame_hdr buf) = ZM_FRAME_GRAYSCALE \<Longrightarrow>
       nat (mc_frameWidth c * mc_frameHeight c) \<le> length buf - sizeof_frame_hdr"
  shows "\<exists>i' ctx' acts. motion_pixel_diff_on_frame F L V buf i ctx = Some (i', ctx', acts) \<and> pd_inv F c i' ctx' \<and>
    pd_forwarded acts = (if length buf < sizeof_frame_hdr then [] else [buf])"
proof (cases "length buf < sizeof_frame_hdr \<or> fh_hw_type (frame_hdr buf) \<noteq> ZM_FRAME_GRAYSCALE")
  case True then show ?thesis using assms(2) by (auto simp: motion_pixel_diff_on_frame_def)
next
  case False
  obtain d where d: "(if i then Some (px_detector ctx)
      else pd_initialize (mc_frameWidth (px_config ctx)) (mc_frameHeight (px_config ctx)) (px_config ctx) (px_detector ctx)) = Some d"
    "pd_fits F d" "pd_width d = mc_frameWidth c" "pd_height d = mc_frameHeight c"
    using initialize_fits [OF assms(1), of "px_detector ctx"] assms(2) by (cases i) (auto simp: pd_inv_def)
  have "nat (pd_width d * pd_height d) \<le> length (drop sizeof_frame_hdr buf)" using assms(3) False d by simp
  from detect_fits [OF d(2) this, of L "[]"] obtain d' r where
    r: "detectMotion F L (drop sizeof_frame_hdr buf) [] d = Some (d', r)" "pd_fits F d'" "pd_width d' = pd_width d" "pd_height d' = pd_height d"
    by metis
  obtain ctx' plate where pl: "maybe_write_plate V (ctx\<lparr>px_detector := d'\<rparr>) = (ctx', plate)" by fastforce
  show ?thesis using False d(3,4) r(2-4) assms(2) plate_keeps [OF pl]
    by (intro exI [of _ True]) (simp add: motion_pixel_diff_on_frame_def d(1) r(1) pl pd_inv_def motion_events_keep)
qed

text \<open>
  C26. With sizes that fit, the detector never leaves a buffer: from any start whose configuration has a picture of at
  least no pixels, leaves the custom output size alone and learns at a rate above zero, and for frames of which the grey
  ones carry at least a picture, every run is defined, whatever the lanes and the absolute value of the vector library; and
  every frame that has a header is passed on once, unchanged and in order, beside the events.
\<close>

theorem pixel_diff_safe:
  assumes "pd_sized F (px_config (motion_pixel_diff_start J K F cfg))"
    "\<forall>x \<in> set xs. sizeof_frame_hdr \<le> length (snd x) \<and> fh_hw_type (frame_hdr (snd x)) = ZM_FRAME_GRAYSCALE \<longrightarrow>
       nat (mc_frameWidth (px_config (motion_pixel_diff_start J K F cfg)) * mc_frameHeight (px_config (motion_pixel_diff_start J K F cfg)))
         \<le> length (snd x) - sizeof_frame_hdr"
  shows "\<exists>i ctx acts. pd_run F L xs False (motion_pixel_diff_start J K F cfg) = Some (i, ctx, acts) \<and>
    pd_forwarded acts = filter (\<lambda>b. sizeof_frame_hdr \<le> length b) (map snd xs)"
proof -
  let ?c = "px_config (motion_pixel_diff_start J K F cfg)"
  have "\<exists>i' ctx' acts. pd_run F L xs i ctx = Some (i', ctx', acts) \<and>
      pd_forwarded acts = filter (\<lambda>b. sizeof_frame_hdr \<le> length b) (map snd xs)" if "pd_inv F ?c i ctx" for i ctx
    using assms(2) that
  proof (induction xs arbitrary: i ctx)
    case (Cons x xs)
    obtain V buf where x: "x = (V, buf)" by fastforce
    obtain i1 ctx1 acts1 where 1: "motion_pixel_diff_on_frame F L V buf i ctx = Some (i1, ctx1, acts1)" "pd_inv F ?c i1 ctx1"
      "pd_forwarded acts1 = (if length buf < sizeof_frame_hdr then [] else [buf])"
      using on_frame_inv [OF assms(1) Cons.prems(2), of buf L V] Cons.prems(1) by (auto simp: x)
    with Cons.IH [OF _ 1(2)] Cons.prems(1) show ?case by (auto simp: x)
  qed simp
  then show ?thesis by (simp add: pd_inv_def)
qed

definition pd_texts :: "string \<rightharpoonup> jdoc" where
  "pd_texts = map_of [(''cfg'', JObj [(''frame_width'', JInt 2), (''frame_height'', JInt 1), (''min_pixels'', JInt 1),
     (''background_learning_rate'', JInt 256)])]"

definition pd_start_demo :: "int MotionPixelDiffCtx" where
  "pd_start_demo = motion_pixel_diff_start (jdoc_api pd_texts) jdoc_floats fixed_floats (Some ''cfg'')"

definition grey_frame :: "u8 \<Rightarrow> u8 \<Rightarrow> bytes" where
  "grey_frame a b = frame_hdr_bytes \<lparr>fh_stream_id = 1, fh_hw_type = ZM_FRAME_GRAYSCALE, fh_handle = 0, fh_bytes = 2, fh_flags = 0,
     fh_pts_usec = 7\<rparr> @ [a, b]"

definition no_plates :: plate_env where
  "no_plates = \<lparr>pe_now_ns = 0, pe_wall_ms = 0, pe_gray_jpeg = (\<lambda>_ _ _. None), pe_writable = False\<rparr>"

definition pd_demo_frames :: "(plate_env \<times> bytes) list" where
  "pd_demo_frames = [(no_plates, grey_frame 10 10), (no_plates, [1, 2]), (no_plates, grey_frame 10 60)]"

lemma pd_demo_facts:
  "pd_sized fixed_floats (px_config pd_start_demo)"
  "list_all (\<lambda>x. sizeof_frame_hdr \<le> length (snd x) \<and> fh_hw_type (frame_hdr (snd x)) = ZM_FRAME_GRAYSCALE \<longrightarrow>
     nat (mc_frameWidth (px_config pd_start_demo) * mc_frameHeight (px_config pd_start_demo)) \<le> length (snd x) - sizeof_frame_hdr)
     pd_demo_frames"
  "filter (\<lambda>b. sizeof_frame_hdr \<le> length b) (map snd pd_demo_frames) = [grey_frame 10 10, grey_frame 10 60]"
  by code_simp+

theorem pixel_diff_safe_witness:
  "\<exists>i ctx acts. pd_run fixed_floats demo_libs pd_demo_frames False
       (motion_pixel_diff_start (jdoc_api pd_texts) jdoc_floats fixed_floats (Some ''cfg'')) = Some (i, ctx, acts) \<and>
     pd_forwarded acts = [grey_frame 10 10, grey_frame 10 60]"
  using pixel_diff_safe [OF pd_demo_facts(1,2) [unfolded pd_start_demo_def list_all_iff], of demo_libs] pd_demo_facts(3) by simp

text \<open>The limits of it. A custom output size, or a picture shorter than configured, is an access outside of a buffer.\<close>

lemma custom_size_overruns:
  assumes "mc_downscale (pd_config d) = 0" "\<not> pd_backgroundReady d" "length (pd_background d) < nat (pd_width d * pd_height d)"
  shows "detectMotion F L frame zones d = None"
  using assms by (simp add: detectMotion_def compared_frame_def first_background_def Let_def)

lemma short_frame_overruns:
  assumes "mc_downscale (pd_config d) = 1" "\<not> pd_backgroundReady d" "length frame < nat (pd_width d * pd_height d)"
  shows "detectMotion F L frame zones d = None"
  using assms by (simp add: detectMotion_def compared_frame_def first_background_def Let_def)

text \<open>A second instance finds the static flag set: its detector stays without a size and sees no motion.\<close>

definition pd_blind :: "'f MotionPixelDiffCtx \<Rightarrow> bool" where
  "pd_blind ctx \<longleftrightarrow> pd_background (px_detector ctx) = [] \<and> pd_width (px_detector ctx) = 0 \<and> pd_height (px_detector ctx) = 0 \<and>
     0 < mc_minPixels (pd_config (px_detector ctx)) \<and> mc_downscale (pd_config (px_detector ctx)) = 1"

lemma second_instance_is_blind:
  assumes "pd_blind ctx" "sizeof_frame_hdr \<le> length buf"
  shows "\<exists>ctx'. motion_pixel_diff_on_frame F L V buf True ctx = Some (True, ctx', [PdForward buf]) \<and> pd_blind ctx'"
  using assms
  by (auto simp: motion_pixel_diff_on_frame_def detectMotion_def compared_frame_def first_background_def generateMotionMap_def
      updateBackground_def maybe_write_plate_def motion_events_def MotionResult_none_def pd_blind_def Let_def not_less)

end
