(* ===== verification/Review_Matte.thy ===== *)
theory Review_Matte
  imports Pixels Floats Privacy_Mask
begin

text \<open>
  The mattes and cutouts of the review exporter: plugins/review_export/review_matte.hpp and \<open>build_cutout\<close> of
  review_export.cpp. Arithmetic, roundings and the sorting of the crossings of a row are parameters. \<open>None\<close> is an
  access outside of a buffer, an overflow of \<open>int\<close>, or the conversion of a value that has no \<open>int\<close>.
\<close>

section \<open>Mattes\<close>

record 'f roundings = "'f rounding" +
  rd_round :: "'f \<Rightarrow> int option"

text \<open>The crossings of the row at height \<open>yc\<close> with the edges that end in the points of a list.\<close>

fun row_crossings :: "'f floats \<Rightarrow> 'f \<Rightarrow> 'f \<Rightarrow> 'f \<times> 'f \<Rightarrow> ('f \<times> 'f) list \<Rightarrow> 'f list" where
  "row_crossings F ox yc pj [] = []"
| "row_crossings F ox yc pj (pi # ps) =
     (let (xi, yi) = pi; (xj, yj) = pj
      in if (fl_leq F yi yc \<and> fl_less F yc yj) \<or> (fl_leq F yj yc \<and> fl_less F yc yi)
         then [fl_sub F (fl_add F xi (fl_mul F (fl_div F (fl_sub F yc yi) (fl_sub F yj yi)) (fl_sub F xj xi))) ox] else []) @
     row_crossings F ox yc pi ps"

fun spans :: "'a list \<Rightarrow> ('a \<times> 'a) list" where
  "spans (a # b # xs) = (a, b) # spans xs"
| "spans _ = []"

definition fill_span :: "'f floats \<Rightarrow> 'f roundings \<Rightarrow> int \<Rightarrow> int \<Rightarrow> 'f \<times> 'f \<Rightarrow> bytes \<Rightarrow> bytes option" where
  "fill_span F Rd w y ab matte =
     Option.bind (to_int (rd_ceil Rd (fl_sub F (fst ab) (fl_num F 1 2)))) (\<lambda>x0.
     Option.bind (to_int (rd_floor Rd (fl_sub F (snd ab) (fl_num F 1 2)))) (\<lambda>x1.
       fold_opt (\<lambda>x matte. set_px (nat (y * w + x)) 255 matte) [max 0 x0..min (w - 1) x1] matte))"

definition fill_polygon ::
  "'f floats \<Rightarrow> 'f roundings \<Rightarrow> ('f list \<Rightarrow> 'f list) \<Rightarrow> int \<Rightarrow> int \<Rightarrow> ('f \<times> 'f) list \<Rightarrow> 'f \<Rightarrow> 'f \<Rightarrow> bytes option" where
  "fill_polygon F Rd srt w h poly ox oy =
     (if length poly < 3 then Some (replicate (nat (w * h)) 255)
      else fold_opt (\<lambda>y matte.
          let yc = fl_add F (fl_add F (fl_num F y 1) (fl_num F 1 2)) oy
          in fold_opt (fill_span F Rd w y) (spans (srt (row_crossings F ox yc (last poly) poly))) matte)
        [0..h - 1] (replicate (nat (w * h)) 0))"

definition window9 :: "(int \<times> int) list" where
  "window9 = concat (map (\<lambda>dy. map (\<lambda>dx. (dx, dy)) [- 1..1]) [- 1..1])"

definition box_blur3 :: "int \<Rightarrow> int \<Rightarrow> bytes \<Rightarrow> bytes option" where
  "box_blur3 w h m =
     (if w < 3 \<or> h < 3 then Some m
      else fold_opt (\<lambda>p out.
          Option.bind (fold_opt (\<lambda>d s. map_option (\<lambda>v. s + uint v) (get_px (nat ((snd p + snd d) * w + (fst p + fst d))) m)) window9 0)
            (\<lambda>s. set_px (nat (snd p * w + fst p)) (of_int (s div 9)) out))
        (scan 1 1 (w - 1) (h - 1)) m)"

text \<open>The coordinate in the small mask of a coordinate in the large one.\<close>

definition source_coord :: "'f floats \<Rightarrow> int \<Rightarrow> int \<Rightarrow> int \<Rightarrow> 'f" where
  "source_coord F v s d = (if d > 1 then fl_div F (fl_mul F (fl_num F v 1) (fl_num F (s - 1) 1)) (fl_num F (d - 1) 1) else fl_zero F)"

definition alpha_at :: "'f floats \<Rightarrow> bytes \<Rightarrow> int \<Rightarrow> int \<Rightarrow> int \<Rightarrow> 'f option" where
  "alpha_at F src sw x y =
     (if 0 \<le> x \<and> 0 \<le> y then map_option (\<lambda>v. fl_num F (uint v) 1) (get_px (nat (y * sw + x)) src) else None)"

definition upsample_alpha :: "'f floats \<Rightarrow> bytes \<Rightarrow> int \<Rightarrow> int \<Rightarrow> int \<Rightarrow> int \<Rightarrow> bytes option" where
  "upsample_alpha F src sw sh dw dh =
     (let dst = replicate (nat (dw * dh)) 255 in
      if sw < 1 \<or> sh < 1 \<or> int (length src) < sw * sh \<or> dw < 1 \<or> dh < 1 then Some dst
      else fold_opt (\<lambda>p dst.
          let fy = source_coord F (snd p) sh dh; y0 = fl_to_int F fy; y1 = min (sh - 1) (y0 + 1); wy = fl_sub F fy (fl_num F y0 1);
              fx = source_coord F (fst p) sw dw; x0 = fl_to_int F fx; x1 = min (sw - 1) (x0 + 1); wx = fl_sub F fx (fl_num F x0 1)
          in Option.bind (alpha_at F src sw x0 y0) (\<lambda>a. Option.bind (alpha_at F src sw x1 y0) (\<lambda>b.
             Option.bind (alpha_at F src sw x0 y1) (\<lambda>c. Option.bind (alpha_at F src sw x1 y1) (\<lambda>d.
               let top = fl_add F a (fl_mul F (fl_sub F b a) wx); bot = fl_add F c (fl_mul F (fl_sub F d c) wx)
               in set_px (nat (snd p * dw + fst p))
                    (of_int (fl_to_int F (fl_add F (fl_add F top (fl_mul F (fl_sub F bot top) wy)) (fl_num F 1 2)))) dst)))))
        (scan 0 0 dw dh) dst)"

definition premultiply_rgb :: "bytes \<Rightarrow> bytes \<Rightarrow> bytes" where
  "premultiply_rgb rgb matte =
     (let n = min (length matte) (length rgb div 3)
      in map (\<lambda>i. if i div 3 < n then of_int (uint (rgb ! i) * uint (matte ! (i div 3)) div 255) else rgb ! i) [0..<length rgb])"

section \<open>Cutouts\<close>

definition std_clamp :: "int \<Rightarrow> int \<Rightarrow> int \<Rightarrow> int" where
  "std_clamp v lo hi = (if v < lo then lo else if hi < v then hi else v)"

record ('f, 'd) cut_env =
  ce_F :: "'f floats"
  ce_D :: "'d floats"
  ce_R :: "'f roundings"
  ce_sort :: "'f list \<Rightarrow> 'f list"
  ce_jpeg :: "bytes \<Rightarrow> int \<Rightarrow> int \<Rightarrow> bytes option"

definition crop_rgb :: "bytes \<Rightarrow> int \<Rightarrow> int \<Rightarrow> int \<Rightarrow> int \<Rightarrow> int \<Rightarrow> bytes option" where
  "crop_rgb rgb fw ix iy iw ih =
     map_option concat (those (map (\<lambda>y.
       let start = nat ((iy + y) * fw + ix) * 3; n = nat iw * 3
       in if start + n \<le> length rgb then Some (take n (drop start rgb)) else None) [0..ih - 1]))"

definition scaled_size :: "'d floats \<Rightarrow> int \<Rightarrow> int \<Rightarrow> int \<Rightarrow> int \<times> int" where
  "scaled_size D iw ih maxEdge =
     (let longEdge = max iw ih
      in if longEdge > maxEdge
         then (let s = fl_div D (fl_num D maxEdge 1) (fl_num D longEdge 1)
               in (max 1 (fl_to_int D (fl_mul D (fl_num D iw 1) s)), max 1 (fl_to_int D (fl_mul D (fl_num D ih 1) s))))
         else (iw, ih))"

definition scale_nearest :: "bytes \<Rightarrow> int \<Rightarrow> int \<Rightarrow> int \<Rightarrow> int \<Rightarrow> bytes option" where
  "scale_nearest crop iw ih dw dh =
     (if dw = iw \<and> dh = ih then Some crop
      else map_option concat (those (map (\<lambda>p.
        if \<not> int_ok (snd p * ih) \<or> \<not> int_ok (fst p * iw) then None
        else read_pixel iw 3 (min (iw - 1) (fst p * iw div dw), min (ih - 1) (snd p * ih div dh)) crop) (scan 0 0 dw dh))))"

text \<open>The box of a detection, cut to the picture: left, top, width, height.\<close>

definition cut_rect :: "'f roundings \<Rightarrow> int \<Rightarrow> int \<Rightarrow> 'f list \<Rightarrow> (int \<times> int \<times> int \<times> int) option" where
  "cut_rect R fw fh bbox =
     Option.bind (to_int (rd_floor R (bbox ! 0))) (\<lambda>b0. Option.bind (to_int (rd_floor R (bbox ! 1))) (\<lambda>b1.
     Option.bind (to_int (rd_round R (bbox ! 2))) (\<lambda>b2. Option.bind (to_int (rd_round R (bbox ! 3))) (\<lambda>b3.
       let ix = std_clamp b0 0 (fw - 1); iy = std_clamp b1 0 (fh - 1)
       in Some (ix, iy, std_clamp b2 1 (fw - ix), std_clamp b3 1 (fh - iy))))))"

text \<open>\<open>Some None\<close> is the result \<open>false\<close>; otherwise the picture and its size.\<close>

definition build_cutout ::
  "('f, 'd) cut_env \<Rightarrow> bytes \<Rightarrow> int \<Rightarrow> int \<Rightarrow> 'f list \<Rightarrow> ('f \<times> 'f) list \<Rightarrow> bytes \<Rightarrow> int \<Rightarrow> int \<Rightarrow> int \<Rightarrow> int \<Rightarrow>
   (bytes \<times> int \<times> int) option option" where
  "build_cutout C rgb fw fh bbox poly alpha alphaW alphaH maxEdge feather =
     Option.bind (cut_rect (ce_R C) fw fh bbox) (\<lambda>(ix, iy, iw, ih).
       if iw < 2 \<or> ih < 2 then Some None
       else Option.bind (crop_rgb rgb fw ix iy iw ih) (\<lambda>crop.
         Option.bind (if alpha \<noteq> [] \<and> alphaW > 0 \<and> alphaH > 0 then upsample_alpha (ce_F C) alpha alphaW alphaH iw ih
             else fill_polygon (ce_F C) (ce_R C) (ce_sort C) iw ih poly (fl_num (ce_F C) ix 1) (fl_num (ce_F C) iy 1)) (\<lambda>matte.
         Option.bind (fold_opt (\<lambda>_ m. box_blur3 iw ih m) [0..<nat feather] matte) (\<lambda>matte.
           let (dw, dh) = scaled_size (ce_D C) iw ih maxEdge
           in map_option (\<lambda>src. map_option (\<lambda>jpeg. (jpeg, dw, dh)) (ce_jpeg C src dw dh))
                (scale_nearest (premultiply_rgb crop matte) iw ih dw dh)))))"

section \<open>Staying inside of the buffers\<close>

text \<open>
  The platform's conversions give some \<open>int\<close> for every value, and a coordinate scaled down stays in its picture. These are the
  only assumptions about the arithmetic.
\<close>

definition converts :: "'f floats \<Rightarrow> 'f roundings \<Rightarrow> bool" where
  "converts F R \<longleftrightarrow> (\<forall>v. to_int (rd_floor R v) \<noteq> None \<and> to_int (rd_ceil R v) \<noteq> None \<and> to_int (rd_round R v) \<noteq> None) \<and>
     (\<forall>v s d. 0 \<le> v \<and> v < d \<and> 1 \<le> s \<longrightarrow> 0 \<le> fl_to_int F (source_coord F v s d) \<and> fl_to_int F (source_coord F v s d) < s)"

lemma pixel_bound:
  assumes "0 \<le> x" "x < w" "0 \<le> y" "y < h"
  shows "nat (y * w + x) < nat (w * h)"
proof -
  have "in_picture w h (x, y)" using assms by (simp add: in_picture_def)
  from px_index_bound [OF this zero_less_one] have "px_index w 1 (x, y) 0 < nat (w * h)" unfolding mult_1_right .
  moreover have "px_index w 1 (x, y) 0 = nat (y * w + x)" by (simp add: px_index_def)
  ultimately show ?thesis by metis
qed

lemma set_px_in: "i < length px \<Longrightarrow> \<exists>q. set_px i v px = Some q \<and> length q = length px"
  by (simp add: set_px_def)

lemma fill_span_in:
  assumes "converts F R" "0 \<le> y" "y < h" "length m = nat (w * h)"
  shows "\<exists>q. fill_span F R w y ab m = Some q \<and> length q = nat (w * h)"
proof -
  obtain x0 x1 where x: "to_int (rd_ceil R (fl_sub F (fst ab) (fl_num F 1 2))) = Some x0"
    "to_int (rd_floor R (fl_sub F (snd ab) (fl_num F 1 2))) = Some x1"
    using assms(1) unfolding converts_def by blast
  have "\<exists>q. fold_opt (\<lambda>x m. set_px (nat (y * w + x)) 255 m) [max 0 x0..min (w - 1) x1] m = Some q \<and> length q = nat (w * h)"
  proof (rule fold_opt_inv)
    fix x and q :: bytes assume "x \<in> set [max 0 x0..min (w - 1) x1]" "length q = nat (w * h)"
    then show "\<exists>t. set_px (nat (y * w + x)) 255 q = Some t \<and> length t = nat (w * h)"
    proof -
      assume "x \<in> set [max 0 x0..min (w - 1) x1]" and q: "length q = nat (w * h)"
      then have "nat (y * w + x) < length q" unfolding q using assms(2,3) by (intro pixel_bound) auto
      with set_px_in q show ?thesis by metis
    qed
  qed (fact assms(4))
  then show ?thesis by (simp add: fill_span_def x)
qed

lemma fill_polygon_in:
  assumes "converts F R"
  shows "\<exists>m. fill_polygon F R srt w h poly ox oy = Some m \<and> length m = nat (w * h)"
proof (cases "length poly < 3")
  case False
  have "\<exists>q. fold_opt (\<lambda>y m. let yc = fl_add F (fl_add F (fl_num F y 1) (fl_num F 1 2)) oy
      in fold_opt (fill_span F R w y) (spans (srt (row_crossings F ox yc (last poly) poly))) m) [0..h - 1] (replicate (nat (w * h)) 0) = Some q \<and>
    length q = nat (w * h)"
    unfolding Let_def
    by (rule fold_opt_inv, simp, rule fold_opt_inv, simp, rule fill_span_in [OF assms]) auto
  with False show ?thesis by (simp add: fill_polygon_def)
qed (simp add: fill_polygon_def)

lemma box_blur3_in:
  assumes "length m = nat (w * h)"
  shows "\<exists>q. box_blur3 w h m = Some q \<and> length q = nat (w * h)"
proof (cases "w < 3 \<or> h < 3")
  case False
  have "\<exists>q. fold_opt (\<lambda>p out.
          Option.bind (fold_opt (\<lambda>d s. map_option (\<lambda>v. s + uint v) (get_px (nat ((snd p + snd d) * w + (fst p + fst d))) m)) window9 0)
            (\<lambda>s. set_px (nat (snd p * w + fst p)) (of_int (s div 9)) out))
        (scan 1 1 (w - 1) (h - 1)) m = Some q \<and> length q = nat (w * h)"
  proof (rule fold_opt_inv)
    fix p and out :: bytes assume p: "p \<in> set (scan 1 1 (w - 1) (h - 1))" and out: "length out = nat (w * h)"
    obtain x y where xy: "p = (x, y)" by fastforce
    have r: "1 \<le> x" "x < w - 1" "1 \<le> y" "y < h - 1" using p by (simp_all add: xy)
    have "\<exists>s. fold_opt (\<lambda>d s. map_option (\<lambda>v. s + uint v) (get_px (nat ((snd p + snd d) * w + (fst p + fst d))) m)) window9 (0 :: int) = Some s \<and> True"
    proof (rule fold_opt_inv)
      fix d and s :: int assume d: "d \<in> set window9"
      have "- 1 \<le> fst d \<and> fst d \<le> 1 \<and> - 1 \<le> snd d \<and> snd d \<le> 1" using d by (auto simp: window9_def)
      then have "nat ((y + snd d) * w + (x + fst d)) < nat (w * h)" using r by (intro pixel_bound) auto
      then show "\<exists>t. map_option (\<lambda>v. s + uint v) (get_px (nat ((snd p + snd d) * w + (fst p + fst d))) m) = Some t \<and> True"
        by (simp add: xy get_px_def assms)
    qed simp
    then obtain s where "fold_opt (\<lambda>d s. map_option (\<lambda>v. s + uint v) (get_px (nat ((snd p + snd d) * w + (fst p + fst d))) m)) window9 (0 :: int) = Some s"
      by blast
    moreover have "nat (y * w + x) < length out" unfolding out using r by (intro pixel_bound) auto
    then obtain t where "set_px (nat (y * w + x)) (of_int (s div 9)) out = Some t" "length t = nat (w * h)"
      using set_px_in out by metis
    ultimately show "\<exists>t. Option.bind (fold_opt (\<lambda>d s. map_option (\<lambda>v. s + uint v) (get_px (nat ((snd p + snd d) * w + (fst p + fst d))) m)) window9 0)
            (\<lambda>s. set_px (nat (snd p * w + fst p)) (of_int (s div 9)) out) = Some t \<and> length t = nat (w * h)"
      by (simp add: xy)
  qed (fact assms)
  with False show ?thesis by (simp add: box_blur3_def)
qed (simp add: box_blur3_def assms)

lemma upsample_alpha_in:
  assumes "converts F R"
  shows "\<exists>q. upsample_alpha F src sw sh dw dh = Some q \<and> length q = nat (dw * dh)"
proof (cases "sw < 1 \<or> sh < 1 \<or> int (length src) < sw * sh \<or> dw < 1 \<or> dh < 1")
  case False
  have at: "\<exists>v. alpha_at F src sw x y = Some v" if "0 \<le> x" "x < sw" "0 \<le> y" "y < sh" for x y
  proof -
    have "nat (y * sw + x) < nat (sw * sh)" using that by (rule pixel_bound)
    also have "\<dots> \<le> length src" using False by (simp add: nat_le_iff)
    finally show ?thesis using that by (simp add: alpha_at_def get_px_def)
  qed
  show ?thesis
    unfolding upsample_alpha_def if_not_P [OF False] Let_def
  proof (rule fold_opt_inv, simp, goal_cases)
    case (1 p dst)
    obtain x y where xy: "p = (x, y)" by fastforce
    have r: "0 \<le> x" "x < dw" "0 \<le> y" "y < dh" using 1(1) by (simp_all add: xy)
    let ?x = "fl_to_int F (source_coord F x sw dw)" and ?y = "fl_to_int F (source_coord F y sh dh)"
    have "0 \<le> ?x" "?x < sw" "0 \<le> ?y" "?y < sh" using assms r False unfolding converts_def by auto
    moreover from this have "0 \<le> min (sw - 1) (?x + 1)" "min (sw - 1) (?x + 1) < sw" "0 \<le> min (sh - 1) (?y + 1)" "min (sh - 1) (?y + 1) < sh"
      by auto
    ultimately obtain a b c d where "alpha_at F src sw ?x ?y = Some a" "alpha_at F src sw (min (sw - 1) (?x + 1)) ?y = Some b"
      "alpha_at F src sw ?x (min (sh - 1) (?y + 1)) = Some c" "alpha_at F src sw (min (sw - 1) (?x + 1)) (min (sh - 1) (?y + 1)) = Some d"
      using at by meson
    moreover have "nat (y * dw + x) < length dst" unfolding 1(2) using r by (intro pixel_bound) auto
    then have "\<exists>t. set_px (nat (y * dw + x)) v dst = Some t \<and> length t = nat (dw * dh)" for v
      using set_px_in 1(2) by metis
    ultimately show ?case by (simp add: xy)
  qed
qed (simp add: upsample_alpha_def)

lemma length_those: "those xs = Some ys \<Longrightarrow> length ys = length xs"
  by (induction xs arbitrary: ys) (auto split: option.splits)

text \<open>The concatenation of parts that all exist and have the same length.\<close>

lemma concat_those:
  assumes "\<And>x. x \<in> set xs \<Longrightarrow> \<exists>v. f x = Some v \<and> length v = n"
  shows "\<exists>q. map_option concat (those (map f xs)) = Some q \<and> length q = length xs * n"
  using assms
proof (induction xs)
  case (Cons x xs)
  obtain v q where "f x = Some v" "length v = n" "map_option concat (those (map f xs)) = Some q" "length q = length xs * n"
    using Cons.IH Cons.prems by (metis list.set_intros)
  then show ?case by auto
qed simp

lemma crop_rgb_in:
  assumes "nat (fw * fh) * 3 \<le> length rgb" "0 \<le> ix" "0 \<le> iy" "0 < iw" "0 \<le> ih" "ix + iw \<le> fw" "iy + ih \<le> fh"
  shows "\<exists>q. crop_rgb rgb fw ix iy iw ih = Some q \<and> length q = nat (iw * ih) * 3"
proof -
  have row: "nat ((iy + y) * fw + ix) * 3 + nat iw * 3 \<le> length rgb" if "0 \<le> y" "y < ih" for y
  proof -
    have "nat ((iy + y) * fw + (ix + iw - 1)) < nat (fw * fh)" using that assms by (intro pixel_bound) auto
    moreover have "nat ((iy + y) * fw + (ix + iw - 1)) = nat ((iy + y) * fw + ix) + nat iw - 1"
    proof -
      have "0 \<le> (iy + y) * fw" using that assms by simp
      then show ?thesis using assms by (simp add: nat_add_distrib [symmetric] nat_diff_distrib) 
    qed
    ultimately have "nat ((iy + y) * fw + ix) + nat iw \<le> nat (fw * fh)" using assms(4) by linarith
    then show ?thesis using assms(1) by linarith
  qed
  have "\<exists>q. crop_rgb rgb fw ix iy iw ih = Some q \<and> length q = length [0..ih - 1] * (nat iw * 3)"
    unfolding crop_rgb_def Let_def
    by (rule concat_those) (use row in \<open>force simp: min_def\<close>)
  then show ?thesis using assms by (simp add: nat_mult_distrib mult.commute mult.left_commute)
qed

lemma length_scan: "\<lbrakk>0 \<le> x1; 0 \<le> y1\<rbrakk> \<Longrightarrow> length (scan 0 0 x1 y1) = nat (x1 * y1)"
  by (simp add: scan_def length_concat o_def sum_list_triv nat_mult_distrib mult.commute)

lemma scale_nearest_in:
  assumes "length crop = nat (iw * ih) * 3" "0 < iw" "0 < ih" "iw \<le> 46340" "ih \<le> 46340" "0 < dw" "0 < dh" "dw \<le> max iw ih" "dh \<le> max iw ih"
  shows "\<exists>q. scale_nearest crop iw ih dw dh = Some q \<and> length q = nat (dw * dh) * 3"
proof (cases "dw = iw \<and> dh = ih")
  case False
  have px: "\<exists>v. (if \<not> int_ok (snd p * ih) \<or> \<not> int_ok (fst p * iw) then None
        else read_pixel iw 3 (min (iw - 1) (fst p * iw div dw), min (ih - 1) (snd p * ih div dh)) crop) = Some v \<and> length v = 3"
    if p: "p \<in> set (scan 0 0 dw dh)" for p
  proof -
    obtain x y where xy: "p = (x, y)" by fastforce
    have r: "0 \<le> x" "x < dw" "0 \<le> y" "y < dh" using p by (simp_all add: xy)
    have b: "y \<le> 46340" "x \<le> 46340" using r assms by linarith+
    have "y * ih \<le> 46340 * 46340" using b assms r by (intro mult_mono) auto
    moreover have "x * iw \<le> 46340 * 46340" using b assms r by (intro mult_mono) auto
    moreover have "0 \<le> y * ih" "0 \<le> x * iw" using r assms by simp_all
    ultimately have ok: "int_ok (y * ih)" "int_ok (x * iw)" by (simp_all add: int_ok_def)
    have "in_picture iw ih (min (iw - 1) (x * iw div dw), min (ih - 1) (y * ih div dh))"
      using r assms by (simp add: in_picture_def pos_imp_zdiv_nonneg_iff min_less_iff_disj)
    from read_pixel_in [OF this, of 3 crop] assms(1) show ?thesis by (simp add: xy ok)
  qed
  have "\<exists>q. scale_nearest crop iw ih dw dh = Some q \<and> length q = length (scan 0 0 dw dh) * 3"
    unfolding scale_nearest_def if_not_P [OF False] by (rule concat_those) (fact px)
  then show ?thesis using assms by (simp add: length_scan)
qed (use assms in \<open>simp add: scale_nearest_def\<close>)

text \<open>
  A cutout never leaves a buffer, whatever the box, the polygon and the small mask are, and the encoder is given a full picture
  of the size that is reported.
\<close>

definition cut_laws :: "('f, 'd) cut_env \<Rightarrow> int \<Rightarrow> bool" where
  "cut_laws C maxEdge \<longleftrightarrow> converts (ce_F C) (ce_R C) \<and>
     (\<forall>iw ih. 2 \<le> iw \<and> 2 \<le> ih \<longrightarrow> fst (scaled_size (ce_D C) iw ih maxEdge) \<le> max iw ih \<and>
        snd (scaled_size (ce_D C) iw ih maxEdge) \<le> max iw ih)"

lemma std_clamp_range: "lo \<le> hi \<Longrightarrow> lo \<le> std_clamp v lo hi \<and> std_clamp v lo hi \<le> hi"
  by (simp add: std_clamp_def)

lemma scaled_size_pos: "0 < iw \<Longrightarrow> 0 < ih \<Longrightarrow> 0 < fst (scaled_size D iw ih e) \<and> 0 < snd (scaled_size D iw ih e)"
  by (simp add: scaled_size_def Let_def less_max_iff_disj)

lemma length_premultiply [simp]: "length (premultiply_rgb rgb m) = length rgb"
  by (simp add: premultiply_rgb_def Let_def)

lemma cut_rect_in:
  assumes "converts F R" "0 < fw" "0 < fh"
  shows "\<exists>ix iy iw ih. cut_rect R fw fh bbox = Some (ix, iy, iw, ih) \<and> 0 \<le> ix \<and> ix + iw \<le> fw \<and> 0 \<le> iy \<and> iy + ih \<le> fh \<and>
    1 \<le> iw \<and> 1 \<le> ih"
proof -
  have some: "\<exists>i. to_int (rd_floor R v) = Some i" "\<exists>i. to_int (rd_round R v) = Some i" for v
    using assms(1) by (auto simp: converts_def)
  obtain b0 b1 b2 b3 where b: "to_int (rd_floor R (bbox ! 0)) = Some b0" "to_int (rd_floor R (bbox ! 1)) = Some b1"
    "to_int (rd_round R (bbox ! 2)) = Some b2" "to_int (rd_round R (bbox ! 3)) = Some b3"
    using some(1) [of "bbox ! 0"] some(1) [of "bbox ! 1"] some(2) [of "bbox ! 2"] some(2) [of "bbox ! 3"] by blast
  have "0 \<le> std_clamp b0 0 (fw - 1) \<and> std_clamp b0 0 (fw - 1) \<le> fw - 1" "0 \<le> std_clamp b1 0 (fh - 1) \<and> std_clamp b1 0 (fh - 1) \<le> fh - 1"
    using assms(2,3) std_clamp_range [of 0 "fw - 1" b0] std_clamp_range [of 0 "fh - 1" b1] by linarith+
  moreover from this have "1 \<le> std_clamp b2 1 (fw - std_clamp b0 0 (fw - 1)) \<and> std_clamp b2 1 (fw - std_clamp b0 0 (fw - 1)) \<le> fw - std_clamp b0 0 (fw - 1)"
    "1 \<le> std_clamp b3 1 (fh - std_clamp b1 0 (fh - 1)) \<and> std_clamp b3 1 (fh - std_clamp b1 0 (fh - 1)) \<le> fh - std_clamp b1 0 (fh - 1)"
    by (simp_all add: std_clamp_range)
  ultimately show ?thesis by (simp add: cut_rect_def b b(2) [unfolded One_nat_def] Let_def)
qed

lemma build_cutout_in:
  assumes "cut_laws C maxEdge" "0 < fw" "0 < fh" "fw \<le> 46340" "fh \<le> 46340" "nat (fw * fh) * 3 \<le> length rgb"
  shows "\<exists>r. build_cutout C rgb fw fh bbox poly alpha alphaW alphaH maxEdge feather = Some r \<and>
    (\<forall>jpeg w h. r = Some (jpeg, w, h) \<longrightarrow> 0 < w \<and> 0 < h \<and>
       (\<exists>src. ce_jpeg C src w h = Some jpeg \<and> length src = nat (w * h) * 3))"
proof -
  have conv: "converts (ce_F C) (ce_R C)" using assms(1) by (simp add: cut_laws_def)
  obtain ix iy iw ih where box: "cut_rect (ce_R C) fw fh bbox = Some (ix, iy, iw, ih)" "0 \<le> ix" "ix + iw \<le> fw" "0 \<le> iy" "iy + ih \<le> fh"
    "1 \<le> iw" "1 \<le> ih"
    using cut_rect_in [OF conv assms(2,3)] by metis
  note bc = build_cutout_def [of C rgb fw fh bbox] box(1)
  show ?thesis
  proof (cases "iw < 2 \<or> ih < 2")
    case True then show ?thesis by (simp add: bc)
  next
    case False
    obtain crop where crop: "crop_rgb rgb fw ix iy iw ih = Some crop" "length crop = nat (iw * ih) * 3"
      using crop_rgb_in [OF assms(6), of ix iy iw ih] box by auto
    obtain m where m: "(if alpha \<noteq> [] \<and> alphaW > 0 \<and> alphaH > 0 then upsample_alpha (ce_F C) alpha alphaW alphaH iw ih
        else fill_polygon (ce_F C) (ce_R C) (ce_sort C) iw ih poly (fl_num (ce_F C) ix 1) (fl_num (ce_F C) iy 1)) = Some m"
      "length m = nat (iw * ih)"
      using upsample_alpha_in [OF conv] fill_polygon_in [OF conv] by (metis (full_types))
    have "\<exists>q. fold_opt (\<lambda>_ m. box_blur3 iw ih m) [0..<nat feather] m = Some q \<and> length q = nat (iw * ih)"
      by (rule fold_opt_inv) (use m(2) box_blur3_in in auto)
    then obtain q where q: "fold_opt (\<lambda>_ m. box_blur3 iw ih m) [0..<nat feather] m = Some q" by blast
    obtain dw dh where d: "scaled_size (ce_D C) iw ih maxEdge = (dw, dh)" by fastforce
    have dr: "0 < dw" "0 < dh" "dw \<le> max iw ih" "dh \<le> max iw ih"
    proof -
      have "2 \<le> iw" "2 \<le> ih" using False by auto
      with assms(1) have "fst (dw, dh) \<le> max iw ih \<and> snd (dw, dh) \<le> max iw ih" unfolding cut_laws_def d [symmetric] by blast
      then show "dw \<le> max iw ih" "dh \<le> max iw ih" by simp_all
      show "0 < dw" "0 < dh" using scaled_size_pos [of iw ih "ce_D C" maxEdge] False by (simp_all add: d)
    qed
    obtain src where src: "scale_nearest (premultiply_rgb crop q) iw ih dw dh = Some src" "length src = nat (dw * dh) * 3"
      using scale_nearest_in [of "premultiply_rgb crop q" iw ih dw dh] crop(2) False box assms(4,5) dr by auto
    show ?thesis
      using dr src(2) by (cases "ce_jpeg C src dw dh") (auto simp: bc False crop(1) m(1) q d src(1))
  qed
qed

end
