(* ===== verification/Review_Export.thy ===== *)
theory Review_Export
  imports "HOL-Library.Signed_Division" Review_Matte Frame_Header Std_Strings Base64
begin

text \<open>
  The exporter of cutouts for a motion synopsis, plugins/review_export/review_export.cpp. The JSON library, the file
  system, the JPEG encoder and the clock are parameters; the manifest is a record of its members. Time stamps are
  unbounded integers, which agree with the code while their differences are below \<open>2 ^ 63\<close>. \<open>None\<close> is undefined
  behaviour in a cutout; \<open>Inl\<close> is an exception that leaves the callback, with the state at that point.
\<close>

section \<open>State\<close>

record Plate =
  pl_path :: string
  pl_wallclock_ms :: u64
  pl_w :: int
  pl_h :: int
  pl_illum :: string

record 'f Sample =
  sm_pts_us :: int
  sm_wallclock_ms :: u64
  sm_bbox :: "'f list"
  sm_polygon :: "('f \<times> 'f) list"
  sm_alpha :: bytes
  sm_alpha_w :: int
  sm_alpha_h :: int
  sm_jpeg :: bytes
  sm_cutout_w :: int
  sm_cutout_h :: int

record 'f Tube =
  tb_label :: string
  tb_class_id :: int
  tb_t_start_us :: int
  tb_t_end_us :: int
  tb_last_sample_pts :: "int option"       \<comment> \<open>\<open>None\<close>: \<open>INT64_MIN\<close>\<close>
  tb_samples :: "'f Sample list"

record 'f ReviewState =
  rv_running :: bool
  rv_monitorId :: int
  rv_frameW :: int
  rv_frameH :: int
  rv_sampleFps :: int
  rv_cutoutMaxEdge :: int
  rv_feather :: int
  rv_ringSize :: nat
  rv_maxSamples :: int
  rv_matchTolUs :: int
  rv_streamFilter :: "int list"
  rv_anchor :: "(int \<times> u64) option"
  rv_ring :: "(int \<times> bytes) list"
  rv_plates :: "Plate list"
  rv_collecting :: bool
  rv_clipToken :: string
  rv_collPts :: "(int \<times> int) option"
  rv_tubes :: "(u64 \<times> 'f Tube) list"       \<comment> \<open>\<open>std::map\<close>: ascending keys\<close>
  rv_bufferedSamples :: int
  rv_bufferWarned :: bool

definition Tube_init :: "'f Tube" where
  "Tube_init = \<lparr>tb_label = [], tb_class_id = - 1, tb_t_start_us = 0, tb_t_end_us = 0, tb_last_sample_pts = None, tb_samples = []\<rparr>"

definition ReviewState_init :: "'f ReviewState" where
  "ReviewState_init = \<lparr>rv_running = False, rv_monitorId = 0, rv_frameW = 0, rv_frameH = 0, rv_sampleFps = 4,
     rv_cutoutMaxEdge = 256, rv_feather = 1, rv_ringSize = 8, rv_maxSamples = 2000, rv_matchTolUs = 100000,
     rv_streamFilter = [], rv_anchor = None, rv_ring = [], rv_plates = [], rv_collecting = False, rv_clipToken = [],
     rv_collPts = None, rv_tubes = [], rv_bufferedSamples = 0, rv_bufferWarned = False\<rparr>"

text \<open>\<open>map::operator[]\<close> followed by an assignment.\<close>

fun tubes_put :: "u64 \<Rightarrow> 'a \<Rightarrow> (u64 \<times> 'a) list \<Rightarrow> (u64 \<times> 'a) list" where
  "tubes_put k v [] = [(k, v)]"
| "tubes_put k v ((l, w) # xs) =
     (if k < l then (k, v) # (l, w) # xs else if k = l then (k, v) # xs else (l, w) # tubes_put k v xs)"

definition tube_of :: "u64 \<Rightarrow> 'f ReviewState \<Rightarrow> 'f Tube" where
  "tube_of tid st = (case map_of (rv_tubes st) tid of None \<Rightarrow> Tube_init | Some t \<Rightarrow> t)"

definition wallclock_for :: "'f ReviewState \<Rightarrow> int \<Rightarrow> u64" where
  "wallclock_for st pts = (case rv_anchor st of None \<Rightarrow> 0 | Some (p, w) \<Rightarrow> w + of_int ((pts - p) sdiv 1000))"

text \<open>The frame of the ring that is nearest, the first of several.\<close>

definition nearest_frame :: "'f ReviewState \<Rightarrow> int \<Rightarrow> bytes option" where
  "nearest_frame st pts =
     map_option snd (fst (fold (\<lambda>f (best, bestd). if \<bar>fst f - pts\<bar> < bestd then (Some f, \<bar>fst f - pts\<bar>) else (best, bestd))
       (rv_ring st) (None, rv_matchTolUs st + 1)))"

definition reset_collection :: "'f ReviewState \<Rightarrow> 'f ReviewState" where
  "reset_collection st = st\<lparr>rv_collecting := False, rv_clipToken := [], rv_collPts := None, rv_tubes := [],
     rv_bufferedSamples := 0, rv_bufferWarned := False\<rparr>"

section \<open>Detections\<close>

type_synonym 'f attempt = "'f ReviewState + 'f ReviewState"

text \<open>The soft mask of a detection; \<open>None\<close> is an exception.\<close>

definition soft_mask :: "'j json_api \<Rightarrow> 'j \<Rightarrow> (bytes \<times> int \<times> int) option" where
  "soft_mask J d =
     (case j_field J d ''mask'' of
        None \<Rightarrow> Some ([], 0, 0)
      | Some m \<Rightarrow>
          if \<not> j_is_object J m then Some ([], 0, 0)
          else Option.bind (j_value_string J m ''format'' []) (\<lambda>format.
            if format \<noteq> ''alpha'' then Some ([], 0, 0)
            else Option.bind (j_value_int J m ''w'' 0) (\<lambda>w. Option.bind (j_value_int J m ''h'' 0) (\<lambda>h.
              map_option (\<lambda>data. let alpha = b64_decode data
                in if (of_nat (length alpha) :: u64) \<noteq> of_int w * of_int h then ([], 0, 0) else (alpha, w, h))
                (j_value_string J m ''data'' [])))))"

fun polygon_points :: "'j json_api \<Rightarrow> ('j, 'f) json_float \<Rightarrow> 'j list \<Rightarrow> ('f \<times> 'f) list option" where
  "polygon_points J K [] = Some []"
| "polygon_points J K (p # ps) =
     (if \<not> j_is_array J p then polygon_points J K ps
      else case j_elements J p of
        a # b # _ \<Rightarrow> Option.bind (jf_get K a) (\<lambda>x. Option.bind (jf_get K b) (\<lambda>y. map_option ((#) (x, y)) (polygon_points J K ps)))
      | _ \<Rightarrow> polygon_points J K ps)"

definition min_gap :: "'f ReviewState \<Rightarrow> int" where
  "min_gap st = (if rv_sampleFps st > 0 then 1000000 div rv_sampleFps st else 0)"

text \<open>A sample goes to the end of its track's tube; the first one also names the tube.\<close>

definition add_sample :: "'j json_api \<Rightarrow> 'j \<Rightarrow> u64 \<Rightarrow> 'f Sample \<Rightarrow> 'f ReviewState \<Rightarrow> 'f attempt" where
  "add_sample J d tid s st =
     (let tube = tube_of tid st; pts = sm_pts_us s;
          finish = (\<lambda>tube. st\<lparr>rv_tubes := tubes_put tid (tube\<lparr>tb_t_end_us := pts, tb_last_sample_pts := Some pts,
              tb_samples := tb_samples tube @ [s]\<rparr>) (rv_tubes st), rv_bufferedSamples := rv_bufferedSamples st + 1\<rparr>)
      in if tb_samples tube \<noteq> [] then Inr (finish tube)
         else case j_value_string J d ''label'' [] of
           None \<Rightarrow> Inl st
         | Some label \<Rightarrow>
             let tube = tube\<lparr>tb_label := label\<rparr>
             in case j_value_int J d ''class_id'' (- 1) of
               None \<Rightarrow> Inl (st\<lparr>rv_tubes := tubes_put tid tube (rv_tubes st)\<rparr>)
             | Some c \<Rightarrow> Inr (finish (tube\<lparr>tb_class_id := c, tb_t_start_us := pts\<rparr>)))"

definition sample_detection ::
  "('f, 'd) cut_env \<Rightarrow> 'j json_api \<Rightarrow> ('j, 'f) json_float \<Rightarrow> int \<Rightarrow> bytes \<Rightarrow> 'j \<Rightarrow> 'f ReviewState \<Rightarrow> 'f attempt option" where
  "sample_detection C J K pts frame d st =
     (case j_value_u64 J d ''track_id'' 0 of
        None \<Rightarrow> Some (Inl st)
      | Some tid \<Rightarrow>
          if tid = 0 then Some (Inr st)
          else case j_field J d ''bbox'' of
            None \<Rightarrow> Some (Inr st)
          | Some b \<Rightarrow>
              if \<not> j_is_array J b \<or> length (j_elements J b) < 4 then Some (Inr st)
              else let minGap = min_gap st; tube = tube_of tid st; st = st\<lparr>rv_tubes := tubes_put tid tube (rv_tubes st)\<rparr>
                in if (case tb_last_sample_pts tube of None \<Rightarrow> False | Some t \<Rightarrow> pts - t < minGap) then Some (Inr st)
                   else case those (map (jf_get K) (take 4 (j_elements J b))) of
                     None \<Rightarrow> Some (Inl st)
                   | Some bbox \<Rightarrow>
                       (case soft_mask J d of
                          None \<Rightarrow> Some (Inl st)
                        | Some (alpha, aw, ah) \<Rightarrow>
                            (case (if alpha = [] then (case j_field J d ''polygon'' of None \<Rightarrow> Some []
                                 | Some p \<Rightarrow> if j_is_array J p then polygon_points J K (j_elements J p) else Some []) else Some []) of
                               None \<Rightarrow> Some (Inl st)
                             | Some poly \<Rightarrow>
                                 map_option (\<lambda>cut. case cut of None \<Rightarrow> Inr st
                                   | Some (jpeg, w, h) \<Rightarrow> add_sample J d tid \<lparr>sm_pts_us = pts, sm_wallclock_ms = wallclock_for st pts,
                                       sm_bbox = bbox, sm_polygon = poly, sm_alpha = alpha, sm_alpha_w = aw, sm_alpha_h = ah,
                                       sm_jpeg = jpeg, sm_cutout_w = w, sm_cutout_h = h\<rparr> st)
                                   (build_cutout C frame (rv_frameW st) (rv_frameH st) bbox poly alpha aw ah
                                      (rv_cutoutMaxEdge st) (rv_feather st)))))"

fun sample_each_detection ::
  "('f, 'd) cut_env \<Rightarrow> 'j json_api \<Rightarrow> ('j, 'f) json_float \<Rightarrow> int \<Rightarrow> bytes \<Rightarrow> 'j list \<Rightarrow> 'f ReviewState \<Rightarrow> 'f attempt option" where
  "sample_each_detection C J K pts frame [] st = Some (Inr st)"
| "sample_each_detection C J K pts frame (d # ds) st =
     (if rv_bufferedSamples st \<ge> rv_maxSamples st then Some (Inr (st\<lparr>rv_bufferWarned := True\<rparr>))
      else Option.bind (sample_detection C J K pts frame d st) (\<lambda>r.
        case r of Inl st \<Rightarrow> Some (Inl st) | Inr st \<Rightarrow> sample_each_detection C J K pts frame ds st))"

definition on_tracked_detection :: "('f, 'd) cut_env \<Rightarrow> 'j json_api \<Rightarrow> ('j, 'f) json_float \<Rightarrow> 'j \<Rightarrow> 'f ReviewState \<Rightarrow> 'f attempt option" where
  "on_tracked_detection C J K j st =
     (if \<not> rv_collecting st then Some (Inr st)
      else case j_value_int J j ''stream_id'' 0 of
        None \<Rightarrow> Some (Inl st)
      | Some sid \<Rightarrow>
          if rv_streamFilter st \<noteq> [] \<and> sid \<notin> set (rv_streamFilter st) then Some (Inr st)
          else case j_field J j ''detections'' of
            None \<Rightarrow> Some (Inr st)
          | Some ds \<Rightarrow>
              if \<not> j_is_array J ds then Some (Inr st)
              else case value_long J j ''pts_usec'' 0 of
                None \<Rightarrow> Some (Inl st)
              | Some pts \<Rightarrow>
                  (case nearest_frame st pts of
                     None \<Rightarrow> Some (Inr st)
                   | Some frame \<Rightarrow> sample_each_detection C J K pts frame (j_elements J ds) st))"

definition on_background_plate :: "'j json_api \<Rightarrow> 'j \<Rightarrow> 'f ReviewState \<Rightarrow> 'f attempt" where
  "on_background_plate J j st =
     (case Option.bind (j_value_string J j ''path'' []) (\<lambda>path. Option.bind (j_value_u64 J j ''wallclock_ms'' 0) (\<lambda>wall.
        Option.bind (j_value_int J j ''w'' 0) (\<lambda>w. Option.bind (j_value_int J j ''h'' 0) (\<lambda>h. Option.bind (j_value_string J j ''illum'' [])
          (\<lambda>illum. Some \<lparr>pl_path = path, pl_wallclock_ms = wall, pl_w = w, pl_h = h, pl_illum = illum\<rparr>))))) of
        None \<Rightarrow> Inl st
      | Some pl \<Rightarrow>
          if pl_path pl = [] then Inr st
          else let ps = rv_plates st @ [pl] in Inr (st\<lparr>rv_plates := drop (length ps - 8) ps\<rparr>))"

section \<open>The end of a recording\<close>

datatype 'f matte_kind = AlphaMatte int int string | PolygonMatte "('f \<times> 'f) list"

record 'f SampleRef =
  sr_pts_us :: int
  sr_wallclock_ms :: u64
  sr_bbox :: "'f list"
  sr_cutout :: string
  sr_cutout_w :: int
  sr_cutout_h :: int
  sr_mask :: "'f matte_kind"

record 'f TubeRef =
  tr_track_id :: u64
  tr_label :: string
  tr_class_id :: int
  tr_t_start_us :: int
  tr_t_end_us :: int
  tr_samples :: "'f SampleRef list"

record 'f Manifest =
  mf_monitor_id :: int
  mf_event_id :: int
  mf_clip_token :: string
  mf_clip_path :: string
  mf_t_start_us :: int
  mf_t_end_us :: int
  mf_source_w :: int
  mf_source_h :: int
  mf_sample_fps :: int
  mf_cause :: string
  mf_plates :: "(string \<times> Plate) list"
  mf_tubes :: "'f TubeRef list"

text \<open>The file system: creating the directory, copying a plate, writing a cutout may fail.\<close>

record review_files =
  rf_mkdir :: "string \<Rightarrow> bool"
  rf_copy :: "string \<Rightarrow> string \<Rightarrow> bool"
  rf_write :: "string \<Rightarrow> bool"

datatype 'f review_act = ReviewCopy string string | ReviewFile string bytes | ReviewManifestFile string "'f Manifest"
  | ReviewPublish "'f Manifest" | ReviewForward bytes

definition matte_ref :: "'f Sample \<Rightarrow> 'f matte_kind" where
  "matte_ref s = (if sm_alpha s \<noteq> [] \<and> sm_alpha_w s > 0 \<and> sm_alpha_h s > 0
     then AlphaMatte (sm_alpha_w s) (sm_alpha_h s) (b64_encode (sm_alpha s)) else PolygonMatte (sm_polygon s))"

definition cutout_name :: "nat \<Rightarrow> string" where
  "cutout_name i = snprintf_cut 32 (fmt_0d 6 (int i) @ ''.jpg'')"

text \<open>The cutouts of a tube that could be written; the numbers run on over the others.\<close>

definition write_samples :: "review_files \<Rightarrow> string \<Rightarrow> string \<Rightarrow> 'f Sample list \<Rightarrow> 'f SampleRef list \<times> 'f review_act list" where
  "write_samples R synDir tdir samples =
     (let written = filter (\<lambda>(i, s). rf_write R (path_join (path_join synDir tdir) (cutout_name i))) (zip [0..<length samples] samples)
      in (map (\<lambda>(i, s). \<lparr>sr_pts_us = sm_pts_us s, sr_wallclock_ms = sm_wallclock_ms s, sr_bbox = sm_bbox s,
             sr_cutout = tdir @ ''/'' @ cutout_name i, sr_cutout_w = sm_cutout_w s, sr_cutout_h = sm_cutout_h s, sr_mask = matte_ref s\<rparr>) written,
          map (\<lambda>(i, s). ReviewFile (path_join (path_join synDir tdir) (cutout_name i)) (sm_jpeg s)) written))"

definition write_tube :: "review_files \<Rightarrow> string \<Rightarrow> u64 \<times> 'f Tube \<Rightarrow> 'f TubeRef list \<times> 'f review_act list" where
  "write_tube R synDir kt =
     (let (tid, tube) = kt in
      if tb_samples tube = [] then ([], [])
      else case write_samples R synDir (CHR ''t'' # to_string (uint tid)) (tb_samples tube) of (refs, acts) \<Rightarrow>
        (if refs = [] then [] else [\<lparr>tr_track_id = tid, tr_label = tb_label tube, tr_class_id = tb_class_id tube,
            tr_t_start_us = tb_t_start_us tube, tr_t_end_us = tb_t_end_us tube, tr_samples = refs\<rparr>], acts))"

definition finalize_locked ::
  "review_files \<Rightarrow> int \<Rightarrow> string \<Rightarrow> string \<Rightarrow> 'f ReviewState \<Rightarrow> 'f Manifest option \<times> 'f review_act list" where
  "finalize_locked R event_id clip_path cause st =
     (if rv_tubes st = [] \<or> clip_path = [] then (None, [])
      else let synDir = path_join (parent_path clip_path) ''synopsis'' in
        if \<not> rf_mkdir R synDir then (None, [])
        else let (plates, plate_acts) = (if rv_plates st = [] then ([], [])
               else let pl = last (rv_plates st); base = path_filename (pl_path pl); dst = path_join synDir base
                 in if rf_copy R (pl_path pl) dst then ([(base, pl)], [ReviewCopy (pl_path pl) dst]) else ([], []));
             tubes = map (write_tube R synDir) (rv_tubes st);
             acts = plate_acts @ concat (map snd tubes);
             manifest = \<lparr>mf_monitor_id = rv_monitorId st, mf_event_id = event_id, mf_clip_token = rv_clipToken st,
               mf_clip_path = clip_path, mf_t_start_us = (case rv_collPts st of None \<Rightarrow> 0 | Some (a, b) \<Rightarrow> a),
               mf_t_end_us = (case rv_collPts st of None \<Rightarrow> 0 | Some (a, b) \<Rightarrow> b), mf_source_w = rv_frameW st,
               mf_source_h = rv_frameH st, mf_sample_fps = rv_sampleFps st, mf_cause = cause, mf_plates = plates,
               mf_tubes = concat (map fst tubes)\<rparr>
          in if mf_tubes manifest = [] then (None, acts)
             else (Some manifest, acts @ (if rf_write R (path_join synDir ''manifest.json'')
                 then [ReviewManifestFile (path_join synDir ''manifest.json'') manifest] else [])))"

section \<open>Events and frames\<close>

text \<open>The part under the lock and the publication behind it, when no exception ended the callback.\<close>

definition review_dispatch ::
  "('f, 'd) cut_env \<Rightarrow> review_files \<Rightarrow> 'j json_api \<Rightarrow> ('j, 'f) json_float \<Rightarrow> string \<Rightarrow> string \<Rightarrow> 'j \<Rightarrow> 'f ReviewState \<Rightarrow>
   ('f attempt \<times> 'f review_act list) option" where
  "review_dispatch C R J K ty event j st =
     (if ty = ''tracked_detection'' then map_option (\<lambda>r. (r, [])) (on_tracked_detection C J K j st)
      else if ty = ''background_plate'' then Some (on_background_plate J j st, [])
      else if event = ''RecordingOpening''
      then (let st = (reset_collection st)\<lparr>rv_collecting := True\<rparr>
            in case j_value_string J j ''clip_token'' [] of
                 None \<Rightarrow> Some (Inl st, []) | Some t \<Rightarrow> Some (Inr (st\<lparr>rv_clipToken := t\<rparr>), []))
      else if event = ''EventClip'' \<and> rv_collecting st
      then (case Option.bind (j_value_int J j ''event_id'' 0) (\<lambda>i. Option.bind (j_value_string J j ''path'' []) (\<lambda>p.
               map_option (\<lambda>c. (i, p, c)) (j_value_string J j ''cause'' []))) of
              None \<Rightarrow> Some (Inl st, [])
            | Some (i, p, c) \<Rightarrow>
                (case finalize_locked R i p c st of (m, acts) \<Rightarrow>
                   Some (Inr (reset_collection st), acts @ (case m of None \<Rightarrow> [] | Some m \<Rightarrow> [ReviewPublish m]))))
      else Some (Inr st, []))"

definition review_handleEvent ::
  "('f, 'd) cut_env \<Rightarrow> review_files \<Rightarrow> 'j json_api \<Rightarrow> ('j, 'f) json_float \<Rightarrow> string \<Rightarrow> 'f ReviewState \<Rightarrow>
   ('f attempt \<times> 'f review_act list) option" where
  "review_handleEvent C R J K msg st =
     (if \<not> rv_running st then Some (Inr st, [])
      else case j_parse J msg of
        None \<Rightarrow> Some (Inr st, [])
      | Some j \<Rightarrow>
          if \<not> j_is_object J j then Some (Inr st, [])
          else case j_value_string J j ''type'' [] of
            None \<Rightarrow> Some (Inl st, [])
          | Some ty \<Rightarrow>
              (case j_value_string J j ''event'' [] of
                 None \<Rightarrow> Some (Inl st, []) | Some event \<Rightarrow> review_dispatch C R J K ty event j st))"

definition review_wants :: "'f ReviewState \<Rightarrow> bytes \<Rightarrow> bool" where
  "review_wants st buf \<longleftrightarrow> sizeof_frame_hdr \<le> length buf \<and>
     (let hdr = frame_hdr buf in
      fh_hw_type hdr = ZM_FRAME_RGB24 \<and> rv_frameW st > 0 \<and> rv_frameH st > 0 \<and>
      length buf \<ge> sizeof_frame_hdr + nat (rv_frameW st * rv_frameH st) * 3 \<and>
      (rv_streamFilter st = [] \<or> sint (fh_stream_id hdr) \<in> set (rv_streamFilter st)))"

text \<open>A frame that is kept: the anchor of the clock, the ring, the span of the recording.\<close>

definition keep_anchor :: "u64 \<Rightarrow> int \<Rightarrow> 'f ReviewState \<Rightarrow> 'f ReviewState" where
  "keep_anchor wall_ms pts st = (if rv_anchor st = None then st\<lparr>rv_anchor := Some (pts, wall_ms)\<rparr> else st)"

definition keep_ring :: "int \<Rightarrow> bytes \<Rightarrow> 'f ReviewState \<Rightarrow> 'f ReviewState" where
  "keep_ring pts rgb st =
     (let ring = rv_ring st @ [(pts, rgb)] in st\<lparr>rv_ring := drop (length ring - rv_ringSize st) ring\<rparr>)"

definition keep_span :: "int \<Rightarrow> 'f ReviewState \<Rightarrow> 'f ReviewState" where
  "keep_span pts st =
     (if rv_collecting st
      then st\<lparr>rv_collPts := Some (case rv_collPts st of None \<Rightarrow> (pts, pts) | Some (a, _) \<Rightarrow> (a, pts))\<rparr> else st)"

definition review_export_on_frame :: "u64 \<Rightarrow> bytes \<Rightarrow> 'f ReviewState \<Rightarrow> 'f ReviewState \<times> 'f review_act list" where
  "review_export_on_frame wall_ms buf st =
     (if \<not> review_wants st buf then (st, [ReviewForward buf])
      else let pts = sint (ucast (fh_pts_usec (frame_hdr buf)) :: 64 word);
          rgb = take (nat (rv_frameW st * rv_frameH st) * 3) (drop sizeof_frame_hdr buf)
        in (keep_span pts (keep_ring pts rgb (keep_anchor wall_ms pts st)), [ReviewForward buf]))"

section \<open>Start and stop\<close>

definition review_export_start :: "'j json_api \<Rightarrow> string option \<Rightarrow> 'f ReviewState" where
  "review_export_start J json_cfg =
     (let st = (case j_parse J (case json_cfg of None \<Rightarrow> ''{}'' | Some s \<Rightarrow> s) of
        None \<Rightarrow> ReviewState_init
      | Some j \<Rightarrow> cfg_result (
          let c = Inr ReviewState_init;
              c = cfg_step (j_value_int J j ''monitor_id'' 0) (\<lambda>v x. x\<lparr>rv_monitorId := v\<rparr>) c;
              c = cfg_step (j_value_int J j ''frame_width'' 0) (\<lambda>v x. x\<lparr>rv_frameW := v\<rparr>) c;
              c = cfg_step (j_value_int J j ''frame_height'' 0) (\<lambda>v x. x\<lparr>rv_frameH := v\<rparr>) c;
              c = cfg_step (j_value_int J j ''sample_fps'' 4) (\<lambda>v x. x\<lparr>rv_sampleFps := v\<rparr>) c;
              c = cfg_step (j_value_int J j ''cutout_max_edge'' 256) (\<lambda>v x. x\<lparr>rv_cutoutMaxEdge := v\<rparr>) c;
              c = cfg_step (j_value_int J j ''feather'' 1) (\<lambda>v x. x\<lparr>rv_feather := v\<rparr>) c;
              c = cfg_step (j_value_int J j ''ring_size'' 8) (\<lambda>v x. x\<lparr>rv_ringSize := unat (of_int v :: u64)\<rparr>) c;
              c = cfg_step (j_value_int J j ''max_samples'' 2000) (\<lambda>v x. x\<lparr>rv_maxSamples := v\<rparr>) c
          in case j_field J j ''stream_filter'' of
               None \<Rightarrow> c
             | Some a \<Rightarrow> if j_is_array J a
                 then cfg_step (those (map (j_int J) (j_elements J a))) (\<lambda>v x. x\<lparr>rv_streamFilter := v\<rparr>) c else c))
      in st\<lparr>rv_ringSize := (if rv_ringSize st < 1 then 1 else if rv_ringSize st > 64 then 64 else rv_ringSize st),
            rv_maxSamples := (if rv_maxSamples st < 1 then 1 else rv_maxSamples st), rv_running := True\<rparr>)"

definition review_export_stop :: "'f ReviewState \<Rightarrow> 'f ReviewState" where
  "review_export_stop st = st\<lparr>rv_running := False\<rparr>"

text \<open>A run of frames and events; an exception goes to the publisher and the plugin goes on with the state it left.\<close>

datatype review_step = ReviewFrame u64 bytes | ReviewEvent string

fun review_run ::
  "('f, 'd) cut_env \<Rightarrow> review_files \<Rightarrow> 'j json_api \<Rightarrow> ('j, 'f) json_float \<Rightarrow> review_step list \<Rightarrow> 'f ReviewState \<Rightarrow>
   ('f ReviewState \<times> 'f review_act list) option" where
  "review_run C R J K [] st = Some (st, [])"
| "review_run C R J K (ReviewFrame wall buf # xs) st =
     (case review_export_on_frame wall buf st of (st, acts) \<Rightarrow> map_option (map_prod id ((@) acts)) (review_run C R J K xs st))"
| "review_run C R J K (ReviewEvent msg # xs) st =
     Option.bind (review_handleEvent C R J K msg st) (\<lambda>(r, acts).
       map_option (map_prod id ((@) acts)) (review_run C R J K xs (cfg_result r)))"

end
