(* ===== verification/Review_Properties.thy ===== *)
theory Review_Properties
  imports Review_Export
begin

text \<open>
  What the exporter collects and publishes: the invariant of its state over frames and events, with exceptions at any
  place, and what follows for the manifests.
\<close>

section \<open>Tubes\<close>

lemma tubes_put_set: "set (tubes_put k v xs) \<subseteq> insert (k, v) (set xs)"
  by (induction k v xs rule: tubes_put.induct) auto

lemma tubes_put_sorted:
  "sorted_wrt (<) (map fst xs) \<Longrightarrow> sorted_wrt (<) (map fst (tubes_put k v xs))"
proof (induction k v xs rule: tubes_put.induct)
  case (2 k v l w xs)
  have "fst ` set (tubes_put k v xs) \<subseteq> insert k (fst ` set xs)" using tubes_put_set [of k v xs] by auto
  moreover have "\<forall>y \<in> fst ` set xs. l < y" using 2(2) by simp
  ultimately have "l < k \<Longrightarrow> \<forall>y \<in> fst ` set (tubes_put k v xs). l < y" by blast
  with 2 show ?case by (auto simp: not_less_iff_gr_or_eq intro: less_trans)
qed simp

lemma tubes_put_sum:
  fixes g :: "'a \<Rightarrow> int"
  assumes "sorted_wrt (<) (map fst xs)"
  shows "sum_list (map (g \<circ> snd) (tubes_put k v xs)) =
    sum_list (map (g \<circ> snd) xs) + g v - (case map_of xs k of None \<Rightarrow> 0 | Some w \<Rightarrow> g w)"
  using assms
proof (induction k v xs rule: tubes_put.induct)
  case (2 k v l w xs)
  have "map_of xs k = None" if "k < l"
    using that 2(2) by (force simp: map_of_eq_None_iff dest: less_trans)
  with 2 show ?case by auto
qed simp

definition tube_ok :: "int \<Rightarrow> 'f Tube \<Rightarrow> bool" where
  "tube_ok gap t \<longleftrightarrow> sorted_wrt (\<lambda>a b. sm_pts_us a + gap \<le> sm_pts_us b) (tb_samples t) \<and>
     tb_last_sample_pts t = (if tb_samples t = [] then None else Some (sm_pts_us (last (tb_samples t))))"

definition sample_count :: "'f Tube \<Rightarrow> int" where
  "sample_count t = int (length (tb_samples t))"

lemma tube_init_ok [simp]: "tube_ok gap Tube_init" "sample_count Tube_init = 0"
  by (simp_all add: tube_ok_def sample_count_def Tube_init_def)

lemma sorted_wrt_snoc_last:
  assumes "sorted_wrt (\<lambda>a b. f a + gap \<le> f b) xs" "xs \<noteq> [] \<Longrightarrow> f (last xs) + gap \<le> f s" "0 \<le> (gap :: int)"
  shows "sorted_wrt (\<lambda>a b. f a + gap \<le> f b) (xs @ [s])"
proof -
  have "f a + gap \<le> f s" if a: "a \<in> set xs" for a
  proof -
    obtain ys zs where xs: "xs = ys @ a # zs" using a by (auto simp: in_set_conv_decomp)
    show ?thesis
    proof (cases zs rule: rev_cases)
      case Nil then show ?thesis using assms(2) by (simp add: xs)
    next
      case (snoc us z)
      then have "f a + gap \<le> f z" using assms(1) by (simp add: xs sorted_wrt_append)
      with assms(2,3) snoc show ?thesis by (simp add: xs)
    qed
  qed
  with assms(1) show ?thesis by (simp add: sorted_wrt_append)
qed

section \<open>The invariant\<close>

definition rv_settings where
  "rv_settings st = (rv_frameW st, rv_frameH st, rv_sampleFps st, rv_cutoutMaxEdge st, rv_ringSize st, rv_maxSamples st)"

definition rv_ok :: "'f ReviewState \<Rightarrow> bool" where
  "rv_ok st \<longleftrightarrow> 1 \<le> rv_maxSamples st \<and> sorted_wrt (<) (map fst (rv_tubes st)) \<and>
     (\<forall>t \<in> snd ` set (rv_tubes st). tube_ok (min_gap st) t) \<and>
     rv_bufferedSamples st = sum_list (map (sample_count \<circ> snd) (rv_tubes st)) \<and> rv_bufferedSamples st \<le> rv_maxSamples st \<and>
     length (rv_ring st) \<le> rv_ringSize st \<and> length (rv_plates st) \<le> 8 \<and>
     (\<forall>f \<in> set (rv_ring st). 0 < rv_frameW st \<and> 0 < rv_frameH st \<and> length (snd f) = nat (rv_frameW st * rv_frameH st) * 3)"

lemma min_gap_upd [simp]:
  "min_gap (st\<lparr>rv_tubes := a\<rparr>) = min_gap st" "min_gap (st\<lparr>rv_bufferedSamples := b\<rparr>) = min_gap st"
  "min_gap (st\<lparr>rv_bufferWarned := c\<rparr>) = min_gap st" "min_gap (st\<lparr>rv_collecting := c\<rparr>) = min_gap st"
  "min_gap (st\<lparr>rv_clipToken := d\<rparr>) = min_gap st" "min_gap (st\<lparr>rv_collPts := e\<rparr>) = min_gap st"
  "min_gap (st\<lparr>rv_ring := f\<rparr>) = min_gap st" "min_gap (st\<lparr>rv_plates := g\<rparr>) = min_gap st"
  "min_gap (st\<lparr>rv_anchor := h\<rparr>) = min_gap st"
  by (simp_all add: min_gap_def)

lemma min_gap_nonneg: "0 \<le> min_gap st"
  by (simp add: min_gap_def pos_imp_zdiv_nonneg_iff)

lemma tube_of_ok: "rv_ok st \<Longrightarrow> tube_ok (min_gap st) (tube_of tid st)"
  by (auto simp: rv_ok_def tube_of_def dest!: map_of_SomeD split: option.split)

text \<open>A tube is replaced by one with \<open>n\<close> more samples.\<close>

lemma put_ok:
  assumes "rv_ok st" "tube_ok (min_gap st) t" "sample_count t = sample_count (tube_of tid st) + n"
    "rv_bufferedSamples st + n \<le> rv_maxSamples st"
  shows "rv_ok (st\<lparr>rv_tubes := tubes_put tid t (rv_tubes st), rv_bufferedSamples := rv_bufferedSamples st + n\<rparr>)"
proof -
  let ?xs = "rv_tubes st"
  have s: "sorted_wrt (<) (map fst ?xs)" using assms(1) by (simp add: rv_ok_def)
  have "(case map_of ?xs tid of None \<Rightarrow> 0 | Some w \<Rightarrow> sample_count w) = sample_count (tube_of tid st)"
    by (simp add: tube_of_def split: option.split)
  then have sum: "sum_list (map (sample_count \<circ> snd) (tubes_put tid t ?xs)) = rv_bufferedSamples st + n"
    using assms(1,3) tubes_put_sum [OF s, of sample_count tid t] by (simp add: rv_ok_def)
  have "\<forall>u \<in> snd ` set (tubes_put tid t ?xs). tube_ok (min_gap st) u"
    using assms(1,2) tubes_put_set [of tid t ?xs] by (auto simp: rv_ok_def)
  moreover have "min_gap (st\<lparr>rv_tubes := tubes_put tid t ?xs, rv_bufferedSamples := rv_bufferedSamples st + n\<rparr>) = min_gap st"
    by (simp add: min_gap_def)
  ultimately show ?thesis using assms(1,4) sum tubes_put_sorted [OF s] by (simp add: rv_ok_def)
qed

lemma put_same_ok:
  assumes "rv_ok st" "tube_ok (min_gap st) t" "sample_count t = sample_count (tube_of tid st)"
  shows "rv_ok (st\<lparr>rv_tubes := tubes_put tid t (rv_tubes st)\<rparr>)"
proof -
  have "st\<lparr>rv_tubes := tubes_put tid t (rv_tubes st), rv_bufferedSamples := rv_bufferedSamples st + 0\<rparr> = st\<lparr>rv_tubes := tubes_put tid t (rv_tubes st)\<rparr>"
    by simp
  moreover have "rv_bufferedSamples st + 0 \<le> rv_maxSamples st" "sample_count t = sample_count (tube_of tid st) + 0"
    using assms(1,3) by (simp_all add: rv_ok_def)
  ultimately show ?thesis using put_ok [OF assms(1,2)] by metis
qed

lemma map_of_tubes_put: "sorted_wrt (<) (map fst xs) \<Longrightarrow> map_of (tubes_put k v xs) = (map_of xs)(k \<mapsto> v)"
  by (induction k v xs rule: tubes_put.induct) (auto simp: fun_eq_iff)

lemma cfg_result_simps [simp]: "cfg_result (Inl st) = st" "cfg_result (Inr st) = st"
  by (simp_all add: cfg_result_def)

lemma add_sample_ok:
  assumes "rv_ok st" "rv_bufferedSamples st < rv_maxSamples st"
    "\<And>t. tb_last_sample_pts (tube_of tid st) = Some t \<Longrightarrow> t + min_gap st \<le> sm_pts_us s"
  shows "rv_ok (cfg_result (add_sample J d tid s st)) \<and> rv_settings (cfg_result (add_sample J d tid s st)) = rv_settings st"
proof -
  let ?t = "tube_of tid st"
  have t: "tube_ok (min_gap st) ?t" using assms(1) by (rule tube_of_ok)
  have fin: "rv_ok (st\<lparr>rv_tubes := tubes_put tid (t'\<lparr>tb_t_end_us := e, tb_last_sample_pts := Some (sm_pts_us s), tb_samples := tb_samples t' @ [s]\<rparr>) (rv_tubes st),
      rv_bufferedSamples := rv_bufferedSamples st + 1\<rparr>)" if "tb_samples t' = tb_samples ?t" for t' e
  proof (rule put_ok [OF assms(1)])
    have "sorted_wrt (\<lambda>a b. sm_pts_us a + min_gap st \<le> sm_pts_us b) (tb_samples ?t @ [s])"
      using t assms(3) min_gap_nonneg by (intro sorted_wrt_snoc_last) (auto simp: tube_ok_def)
    then show "tube_ok (min_gap st) (t'\<lparr>tb_t_end_us := e, tb_last_sample_pts := Some (sm_pts_us s), tb_samples := tb_samples t' @ [s]\<rparr>)"
      using that by (simp add: tube_ok_def)
  qed (use that assms(2) in \<open>simp_all add: sample_count_def\<close>)
  have named: "rv_ok (st\<lparr>rv_tubes := tubes_put tid (?t\<lparr>tb_label := l\<rparr>) (rv_tubes st)\<rparr>)" for l
    by (rule put_same_ok [OF assms(1)]) (use t in \<open>simp_all add: tube_ok_def sample_count_def\<close>)
  show ?thesis
    using fin [of ?t] fin [of "?t\<lparr>tb_label := l, tb_class_id := c, tb_t_start_us := sm_pts_us s\<rparr>" for l c] named assms(1)
    by (auto simp: add_sample_def rv_settings_def Let_def split: option.split)
qed

section \<open>Events keep the invariant\<close>

definition review_laws :: "('f, 'd) cut_env \<Rightarrow> 'f ReviewState \<Rightarrow> bool" where
  "review_laws C st \<longleftrightarrow> cut_laws C (rv_cutoutMaxEdge st) \<and> rv_frameW st \<le> 46340 \<and> rv_frameH st \<le> 46340"

lemma review_laws_same: "rv_settings st' = rv_settings st \<Longrightarrow> review_laws C st' = review_laws C st"
  by (simp add: review_laws_def rv_settings_def)

definition frame_fits_review :: "'f ReviewState \<Rightarrow> bytes \<Rightarrow> bool" where
  "frame_fits_review st b \<longleftrightarrow> 0 < rv_frameW st \<and> 0 < rv_frameH st \<and> nat (rv_frameW st * rv_frameH st) * 3 \<le> length b"

lemma tube_of_put:
  assumes "rv_ok st"
  shows "tube_of tid (st\<lparr>rv_tubes := tubes_put tid t (rv_tubes st)\<rparr>) = t"
  using assms by (simp add: tube_of_def rv_ok_def map_of_tubes_put)

lemma sample_detection_ok:
  assumes "rv_ok st" "review_laws C st" "rv_bufferedSamples st < rv_maxSamples st" "frame_fits_review st frame"
  shows "\<exists>r. sample_detection C J K pts frame d st = Some r \<and> rv_ok (cfg_result r) \<and> rv_settings (cfg_result r) = rv_settings st"
proof -
  have fin: "\<exists>q. map_option f (build_cutout C frame (rv_frameW st) (rv_frameH st) bbox poly alpha aw ah (rv_cutoutMaxEdge st) (rv_feather st)) = Some (f q)"
    for f :: "_ \<Rightarrow> 'a attempt" and bbox poly alpha aw ah
    using build_cutout_in [of C "rv_cutoutMaxEdge st" "rv_frameW st" "rv_frameH st" frame bbox poly alpha aw ah "rv_feather st"] assms(2,4)
    by (auto simp: review_laws_def frame_fits_review_def)
  have kept: "rv_ok (st\<lparr>rv_tubes := tubes_put tid (tube_of tid st) (rv_tubes st)\<rparr>)" for tid
    by (rule put_same_ok [OF assms(1) tube_of_ok [OF assms(1)]]) simp
  have added: "rv_ok (cfg_result (add_sample J d tid s (st\<lparr>rv_tubes := tubes_put tid (tube_of tid st) (rv_tubes st)\<rparr>))) \<and>
      rv_settings (cfg_result (add_sample J d tid s (st\<lparr>rv_tubes := tubes_put tid (tube_of tid st) (rv_tubes st)\<rparr>))) = rv_settings st"
    if "\<not> (case tb_last_sample_pts (tube_of tid st) of None \<Rightarrow> False | Some t \<Rightarrow> sm_pts_us s - t < min_gap st)" for tid and s :: "'a Sample"
  proof -
    let ?st = "st\<lparr>rv_tubes := tubes_put tid (tube_of tid st) (rv_tubes st)\<rparr>"
    have "min_gap ?st = min_gap st" "rv_settings ?st = rv_settings st" by (simp_all add: min_gap_def rv_settings_def)
    with add_sample_ok [OF kept, of tid tid s J d] that assms(3) show ?thesis by (auto simp: tube_of_put [OF assms(1)] split: option.splits)
  qed
  have same: "rv_settings (st\<lparr>rv_tubes := x\<rparr>) = rv_settings st" "min_gap (st\<lparr>rv_tubes := x\<rparr>) = min_gap st" for x
    by (simp_all add: rv_settings_def min_gap_def)
  show ?thesis
  proof (cases "j_value_u64 J d ''track_id'' 0")
    case None then show ?thesis using assms(1) by (simp add: sample_detection_def)
  next
    case (Some tid)
    show ?thesis
    proof (cases "tid = 0 \<or> (case j_field J d ''bbox'' of None \<Rightarrow> True | Some b \<Rightarrow> \<not> j_is_array J b \<or> length (j_elements J b) < 4)")
      case True then show ?thesis using Some assms(1) by (auto simp: sample_detection_def split: option.splits)
    next
      case False
      then obtain b where b: "tid \<noteq> 0" "j_field J d ''bbox'' = Some b" "j_is_array J b" "\<not> length (j_elements J b) < 4"
        by (auto split: option.splits)
      let ?st = "st\<lparr>rv_tubes := tubes_put tid (tube_of tid st) (rv_tubes st)\<rparr>"
      show ?thesis
      proof (cases "case tb_last_sample_pts (tube_of tid st) of None \<Rightarrow> False | Some t \<Rightarrow> pts - t < min_gap st")
        case True
        then have "sample_detection C J K pts frame d st = Some (Inr ?st)"
          using Some b by (simp add: sample_detection_def same Let_def)
        then show ?thesis using kept [of tid] by (simp add: same)
      next
        case False
        define rest where "rest = (case those (map (jf_get K) (take 4 (j_elements J b))) of
            None \<Rightarrow> None
          | Some bbox \<Rightarrow> (case soft_mask J d of None \<Rightarrow> None
            | Some (alpha, aw, ah) \<Rightarrow> map_option (\<lambda>poly. (bbox, alpha, aw, ah, poly))
               (if alpha = [] then (case j_field J d ''polygon'' of None \<Rightarrow> Some []
                 | Some p \<Rightarrow> if j_is_array J p then polygon_points J K (j_elements J p) else Some []) else Some [])))"
        have eq: "sample_detection C J K pts frame d st = (case rest of None \<Rightarrow> Some (Inl ?st)
          | Some (bbox, alpha, aw, ah, poly) \<Rightarrow>
              map_option (\<lambda>cut. case cut of None \<Rightarrow> Inr ?st
                | Some (jpeg, w, h) \<Rightarrow> add_sample J d tid \<lparr>sm_pts_us = pts, sm_wallclock_ms = wallclock_for ?st pts,
                    sm_bbox = bbox, sm_polygon = poly, sm_alpha = alpha, sm_alpha_w = aw, sm_alpha_h = ah,
                    sm_jpeg = jpeg, sm_cutout_w = w, sm_cutout_h = h\<rparr> ?st)
                (build_cutout C frame (rv_frameW st) (rv_frameH st) bbox poly alpha aw ah (rv_cutoutMaxEdge st) (rv_feather st)))"
          using Some b False by (simp add: sample_detection_def same rest_def Let_def split: option.split)
        show ?thesis
        proof (cases rest)
          case None then show ?thesis using kept [of tid] by (simp add: eq same)
        next
          case (Some x)
          obtain bbox alpha aw ah poly where x: "x = (bbox, alpha, aw, ah, poly)" by (metis prod_cases5)
          obtain q where q: "build_cutout C frame (rv_frameW st) (rv_frameH st) bbox poly alpha aw ah (rv_cutoutMaxEdge st) (rv_feather st) = Some q"
            using fin [of "\<lambda>_. Inr st"] by (metis option.map_disc_iff not_None_eq)
          have new: "rv_ok (cfg_result (add_sample J d tid s ?st))" "rv_settings (cfg_result (add_sample J d tid s ?st)) = rv_settings st"
            if "sm_pts_us s = pts" for s
          proof -
            have "\<not> (case tb_last_sample_pts (tube_of tid st) of None \<Rightarrow> False | Some t \<Rightarrow> sm_pts_us s - t < min_gap st)"
              using False unfolding that .
            from added [OF this] show "rv_ok (cfg_result (add_sample J d tid s ?st))" "rv_settings (cfg_result (add_sample J d tid s ?st)) = rv_settings st"
              by simp_all
          qed
          show ?thesis
          proof (cases q)
            case None then show ?thesis using kept [of tid] by (simp add: eq Some x q same)
          next
            case (Some y)
            obtain jpeg w h where "y = (jpeg, w, h)" by (metis prod_cases3)
            with Some \<open>rest = Some x\<close> show ?thesis by (simp add: eq x q new)
          qed
        qed
      qed
    qed
  qed
qed

lemma sample_detections_ok:
  assumes "rv_ok st" "review_laws C st" "frame_fits_review st frame"
  shows "\<exists>r. sample_each_detection C J K pts frame ds st = Some r \<and> rv_ok (cfg_result r) \<and> rv_settings (cfg_result r) = rv_settings st"
  using assms
proof (induction ds arbitrary: st)
  case Nil then show ?case by simp
next
  case (Cons d ds)
  show ?case
  proof (cases "rv_bufferedSamples st \<ge> rv_maxSamples st")
    case True
    then show ?thesis using Cons.prems(1) by (simp add: rv_ok_def rv_settings_def)
  next
    case False
    then obtain r where r: "sample_detection C J K pts frame d st = Some r" "rv_ok (cfg_result r)" "rv_settings (cfg_result r) = rv_settings st"
      using sample_detection_ok [OF Cons.prems(1,2) _ Cons.prems(3), of J K pts d] by auto
    show ?thesis
    proof (cases r)
      case (Inl s) then show ?thesis using r False by simp
    next
      case (Inr s)
      have "review_laws C s" "frame_fits_review s frame"
        using r Inr Cons.prems(2,3) by (simp_all add: review_laws_def frame_fits_review_def rv_settings_def)
      with Cons.IH [of s] r Inr False show ?thesis by auto
    qed
  qed
qed

lemma nearest_in_ring: "nearest_frame st pts = Some b \<Longrightarrow> b \<in> snd ` set (rv_ring st)"
proof -
  have "fst (fold (\<lambda>f (best, bestd). if \<bar>fst f - pts\<bar> < bestd then (Some f, \<bar>fst f - pts\<bar>) else (best, bestd)) xs (b0, d0)) = Some f \<Longrightarrow>
      f \<in> set xs \<or> b0 = Some f" for xs and b0 :: "(int \<times> bytes) option" and d0 f
    by (induction xs arbitrary: b0 d0) (auto split: if_splits)
  from this [of "rv_ring st" None] show "nearest_frame st pts = Some b \<Longrightarrow> b \<in> snd ` set (rv_ring st)"
    unfolding nearest_frame_def by blast
qed

lemma on_tracked_detection_ok:
  assumes "rv_ok st" "review_laws C st"
  shows "\<exists>r. on_tracked_detection C J K j st = Some r \<and> rv_ok (cfg_result r) \<and> rv_settings (cfg_result r) = rv_settings st"
proof -
  have "\<exists>r. sample_each_detection C J K pts frame ds st = Some r \<and> rv_ok (cfg_result r) \<and> rv_settings (cfg_result r) = rv_settings st"
    if "nearest_frame st pts = Some frame" for pts frame ds
  proof (rule sample_detections_ok [OF assms])
    show "frame_fits_review st frame"
      using nearest_in_ring [OF that] assms(1) by (auto simp: frame_fits_review_def rv_ok_def)
  qed
  then show ?thesis using assms(1) by (auto simp: on_tracked_detection_def split: option.split)
qed

lemma reset_ok: "rv_ok st \<Longrightarrow> rv_ok (reset_collection st) \<and> rv_settings (reset_collection st) = rv_settings st"
  by (simp add: rv_ok_def reset_collection_def rv_settings_def)

lemma plate_ok:
  "rv_ok st \<Longrightarrow> rv_ok (cfg_result (on_background_plate J j st)) \<and> rv_settings (cfg_result (on_background_plate J j st)) = rv_settings st"
  by (auto simp: on_background_plate_def rv_ok_def rv_settings_def Let_def split: option.split)

section \<open>Manifests\<close>

text \<open>
  A manifest refers to at least one tube, each track once; a tube has at least one cutout; the cutouts of a track are at least
  the sampling interval apart; all together they respect the cap; and every cutout that is named has been written before.
\<close>

definition manifest_ok :: "'f ReviewState \<Rightarrow> 'f review_act list \<Rightarrow> 'f Manifest \<Rightarrow> bool" where
  "manifest_ok st acts m \<longleftrightarrow> mf_tubes m \<noteq> [] \<and> sorted_wrt (<) (map tr_track_id (mf_tubes m)) \<and>
     (\<forall>t \<in> set (mf_tubes m). tr_samples t \<noteq> [] \<and> sorted_wrt (\<lambda>a b. sr_pts_us a + min_gap st \<le> sr_pts_us b) (tr_samples t) \<and>
        (\<forall>s \<in> set (tr_samples t). \<exists>jpeg. ReviewFile (path_join (path_join (parent_path (mf_clip_path m)) ''synopsis'') (sr_cutout s)) jpeg \<in> set acts)) \<and>
     sum_list (map (\<lambda>t. int (length (tr_samples t))) (mf_tubes m)) \<le> rv_maxSamples st"

lemma path_join_assoc:
  "\<lbrakk>t \<noteq> []; last t \<noteq> CHR ''/''; s \<noteq> []\<rbrakk> \<Longrightarrow> path_join (path_join s t) n = path_join s (t @ ''/'' @ n)"
  by (simp add: path_join_def)

lemma sorted_wrt_filter_map:
  "sorted_wrt (\<lambda>a b. f (snd a) + g \<le> (f (snd b) :: int)) (filter P (zip is xs))" if "sorted_wrt (\<lambda>a b. f a + g \<le> f b) xs"
  using that
proof (induction xs arbitrary: "is")
  case (Cons x xs)
  show ?case using Cons by (cases "is") (auto dest: set_zip_rightD)
qed simp

lemma write_samples_ok:
  assumes "write_samples R d t xs = (refs, acts)" "sorted_wrt (\<lambda>a b. sm_pts_us a + g \<le> sm_pts_us b) xs" "t \<noteq> []" "last t \<noteq> CHR ''/''" "d \<noteq> []"
  shows "sorted_wrt (\<lambda>a b. sr_pts_us a + g \<le> sr_pts_us b) refs \<and> length refs \<le> length xs \<and>
    (\<forall>s \<in> set refs. \<exists>jpeg. ReviewFile (path_join d (sr_cutout s)) jpeg \<in> set acts)"
proof -
  let ?w = "filter (\<lambda>(i, s). rf_write R (path_join (path_join d t) (cutout_name i))) (zip [0..<length xs] xs)"
  have "sorted_wrt (\<lambda>a b. sm_pts_us (snd a) + g \<le> sm_pts_us (snd b)) ?w" by (rule sorted_wrt_filter_map [OF assms(2)])
  moreover have "length ?w \<le> length xs" using length_filter_le [of _ "zip [0..<length xs] xs"] by (simp add: case_prod_beta)
  moreover have "refs = map (\<lambda>(i, s). \<lparr>sr_pts_us = sm_pts_us s, sr_wallclock_ms = sm_wallclock_ms s, sr_bbox = sm_bbox s,
             sr_cutout = t @ ''/'' @ cutout_name i, sr_cutout_w = sm_cutout_w s, sr_cutout_h = sm_cutout_h s, sr_mask = matte_ref s\<rparr>) ?w"
    "acts = map (\<lambda>(i, s). ReviewFile (path_join (path_join d t) (cutout_name i)) (sm_jpeg s)) ?w"
    using assms(1) by (simp_all add: write_samples_def Let_def)
  moreover have "path_join d (t @ ''/'' @ n) = path_join (path_join d t) n" for n
    using path_join_assoc [OF assms(3-5)] by simp
  ultimately show ?thesis by (force simp: sorted_wrt_map case_prod_beta)
qed

lemma last_digits: "last (CHR ''t'' # to_string (uint (w :: u64))) \<noteq> CHR ''/''"
proof -
  have "set (nat_digits n) \<subseteq> Collect is_digit_char \<and> nat_digits n \<noteq> []" for n using nat_digits_props by auto
  then have "is_digit_char (last (nat_digits (nat (uint w))))" by (metis last_in_set mem_Collect_eq subsetD)
  moreover have "nat_digits (nat (uint w)) \<noteq> []" using nat_digits_props by auto
  ultimately show ?thesis by (auto simp: to_string_def is_digit_char_def)
qed

lemma write_tube_ok:
  assumes "write_tube R d (tid, tube) = (refs, acts)" "tube_ok gap tube" "d \<noteq> []"
  shows "refs = [] \<or> (\<exists>t. refs = [t] \<and> tr_track_id t = tid \<and> tr_samples t \<noteq> [] \<and>
    sorted_wrt (\<lambda>a b. sr_pts_us a + gap \<le> sr_pts_us b) (tr_samples t) \<and>
    int (length (tr_samples t)) \<le> sample_count tube \<and>
    (\<forall>s \<in> set (tr_samples t). \<exists>jpeg. ReviewFile (path_join d (sr_cutout s)) jpeg \<in> set acts))"
proof (cases "tb_samples tube = []")
  case True then show ?thesis using assms(1) by (simp add: write_tube_def)
next
  case False
  obtain rs as where w: "write_samples R d (CHR ''t'' # to_string (uint tid)) (tb_samples tube) = (rs, as)" by fastforce
  have "sorted_wrt (\<lambda>a b. sm_pts_us a + gap \<le> sm_pts_us b) (tb_samples tube)" using assms(2) by (simp add: tube_ok_def)
  from write_samples_ok [OF w this _ last_digits assms(3)] have rs: "sorted_wrt (\<lambda>a b. sr_pts_us a + gap \<le> sr_pts_us b) rs"
    "length rs \<le> length (tb_samples tube)" "\<forall>s \<in> set rs. \<exists>jpeg. ReviewFile (path_join d (sr_cutout s)) jpeg \<in> set as" by auto
  have refs: "refs = (if rs = [] then [] else [\<lparr>tr_track_id = tid, tr_label = tb_label tube, tr_class_id = tb_class_id tube,
            tr_t_start_us = tb_t_start_us tube, tr_t_end_us = tb_t_end_us tube, tr_samples = rs\<rparr>])" "acts = as"
    using assms(1) False by (simp_all add: write_tube_def w)
  show ?thesis
  proof (cases "rs = []")
    case True then show ?thesis by (simp add: refs)
  next
    case ne: False
    then show ?thesis using rs by (simp add: refs sample_count_def)
  qed
qed

lemma write_tubes_ok:
  assumes "sorted_wrt (<) (map fst xs)" "\<forall>t \<in> snd ` set xs. tube_ok gap t" "d \<noteq> []"
  shows "sorted_wrt (<) (map tr_track_id (concat (map (fst \<circ> write_tube R d) xs))) \<and>
    tr_track_id ` set (concat (map (fst \<circ> write_tube R d) xs)) \<subseteq> fst ` set xs \<and>
    sum_list (map (\<lambda>t. int (length (tr_samples t))) (concat (map (fst \<circ> write_tube R d) xs))) \<le> sum_list (map (sample_count \<circ> snd) xs) \<and>
    (\<forall>t \<in> set (concat (map (fst \<circ> write_tube R d) xs)). tr_samples t \<noteq> [] \<and>
       sorted_wrt (\<lambda>a b. sr_pts_us a + gap \<le> sr_pts_us b) (tr_samples t) \<and>
       (\<forall>s \<in> set (tr_samples t). \<exists>jpeg. ReviewFile (path_join d (sr_cutout s)) jpeg \<in> set (concat (map (snd \<circ> write_tube R d) xs))))"
  using assms(1,2)
proof (induction xs)
  case (Cons x xs)
  obtain tid tube refs acts where x: "x = (tid, tube)" "write_tube R d (tid, tube) = (refs, acts)" by (metis surj_pair)
  have ok: "tube_ok gap tube" using Cons.prems(2) by (simp add: x)
  let ?rest = "concat (map (fst \<circ> write_tube R d) xs)"
  have IH: "sorted_wrt (<) (map tr_track_id ?rest)" "tr_track_id ` set ?rest \<subseteq> fst ` set xs"
    "sum_list (map (\<lambda>t. int (length (tr_samples t))) ?rest) \<le> sum_list (map (sample_count \<circ> snd) xs)"
    "\<forall>t \<in> set ?rest. tr_samples t \<noteq> [] \<and> sorted_wrt (\<lambda>a b. sr_pts_us a + gap \<le> sr_pts_us b) (tr_samples t) \<and>
       (\<forall>s \<in> set (tr_samples t). \<exists>jpeg. ReviewFile (path_join d (sr_cutout s)) jpeg \<in> set (concat (map (snd \<circ> write_tube R d) xs)))"
  proof -
    have "sorted_wrt (<) (map fst xs)" "\<forall>t \<in> snd ` set xs. tube_ok gap t" using Cons.prems by simp_all
    note ih = Cons.IH [OF this]
    show "sorted_wrt (<) (map tr_track_id ?rest)" using ih by (rule conjunct1)
    show "tr_track_id ` set ?rest \<subseteq> fst ` set xs" using ih [THEN conjunct2] by (rule conjunct1)
    show "sum_list (map (\<lambda>t. int (length (tr_samples t))) ?rest) \<le> sum_list (map (sample_count \<circ> snd) xs)"
      using ih [THEN conjunct2, THEN conjunct2] by (rule conjunct1)
    show "\<forall>t \<in> set ?rest. tr_samples t \<noteq> [] \<and> sorted_wrt (\<lambda>a b. sr_pts_us a + gap \<le> sr_pts_us b) (tr_samples t) \<and>
       (\<forall>s \<in> set (tr_samples t). \<exists>jpeg. ReviewFile (path_join d (sr_cutout s)) jpeg \<in> set (concat (map (snd \<circ> write_tube R d) xs)))"
      using ih [THEN conjunct2, THEN conjunct2] by (rule conjunct2)
  qed
  have new: "\<forall>y \<in> tr_track_id ` set ?rest. tid < y"
  proof -
    have "\<forall>y \<in> fst ` set xs. tid < y" using Cons.prems(1) by (simp add: x)
    with IH(2) show ?thesis by blast
  qed
  consider "refs = []" | t where "refs = [t]" "tr_track_id t = tid" "tr_samples t \<noteq> []"
    "sorted_wrt (\<lambda>a b. sr_pts_us a + gap \<le> sr_pts_us b) (tr_samples t)" "int (length (tr_samples t)) \<le> sample_count tube"
    "\<forall>s \<in> set (tr_samples t). \<exists>jpeg. ReviewFile (path_join d (sr_cutout s)) jpeg \<in> set acts"
    using write_tube_ok [OF x(2) ok assms(3)] by blast
  note cases = this
  have split: "concat (map (fst \<circ> write_tube R d) (x # xs)) = refs @ ?rest"
    "set (concat (map (snd \<circ> write_tube R d) (x # xs))) = set acts \<union> set (concat (map (snd \<circ> write_tube R d) xs))"
    by (simp_all add: x)
  have count: "0 \<le> sample_count tube" by (simp add: sample_count_def)
  show ?case
    unfolding split
  proof (intro conjI)
    show "sorted_wrt (<) (map tr_track_id (refs @ ?rest))"
      using cases IH(1) new by cases (simp_all only: append_Nil append_Cons list.map sorted_wrt.simps, simp)
    show "tr_track_id ` set (refs @ ?rest) \<subseteq> fst ` set (x # xs)"
      using cases IH(2) by cases (auto simp: x simp del: o_apply)
    show "sum_list (map (\<lambda>t. int (length (tr_samples t))) (refs @ ?rest)) \<le> sum_list (map (sample_count \<circ> snd) (x # xs))"
      using cases IH(3) count by cases (simp_all add: x)
    show "\<forall>t \<in> set (refs @ ?rest). tr_samples t \<noteq> [] \<and> sorted_wrt (\<lambda>a b. sr_pts_us a + gap \<le> sr_pts_us b) (tr_samples t) \<and>
       (\<forall>s \<in> set (tr_samples t). \<exists>jpeg. ReviewFile (path_join d (sr_cutout s)) jpeg \<in> set acts \<union> set (concat (map (snd \<circ> write_tube R d) xs)))"
    proof
      fix t assume "t \<in> set (refs @ ?rest)"
      then consider "t \<in> set refs" | "t \<in> set ?rest" by auto
      then show "tr_samples t \<noteq> [] \<and> sorted_wrt (\<lambda>a b. sr_pts_us a + gap \<le> sr_pts_us b) (tr_samples t) \<and>
       (\<forall>s \<in> set (tr_samples t). \<exists>jpeg. ReviewFile (path_join d (sr_cutout s)) jpeg \<in> set acts \<union> set (concat (map (snd \<circ> write_tube R d) xs)))"
      proof cases
        case 1 with cases show ?thesis by cases auto
      next
        case 2 with IH(4) show ?thesis by blast
      qed
    qed
  qed
qed simp

lemma finalize_ok:
  assumes "rv_ok st" "finalize_locked R i p c st = (Some m, acts)"
  shows "manifest_ok st acts m"
proof -
  let ?d = "path_join (parent_path p) ''synopsis''"
  have d: "?d \<noteq> []" by (simp add: path_join_def)
  define plate where "plate = (if rv_plates st = [] then ([], [])
      else let pl = last (rv_plates st); base = path_filename (pl_path pl); dst = path_join ?d base
        in if rf_copy R (pl_path pl) dst then ([(base, pl)], [ReviewCopy (pl_path pl) dst]) else ([], []))"
  obtain ps pa where pl: "plate = (ps, pa)" by fastforce
  let ?T = "concat (map (fst \<circ> write_tube R ?d) (rv_tubes st))" and ?A = "concat (map (snd \<circ> write_tube R ?d) (rv_tubes st))"
  have m: "mf_clip_path m = p" "mf_tubes m = ?T" "?T \<noteq> []" "set ?A \<subseteq> set acts"
    using assms(2) unfolding finalize_locked_def plate_def [symmetric] Let_def pl prod.case
    by (auto simp: plate_def [symmetric, unfolded Let_def] pl o_def split: if_splits)
  have s: "sorted_wrt (<) (map fst (rv_tubes st))" "\<forall>t \<in> snd ` set (rv_tubes st). tube_ok (min_gap st) t"
    "sum_list (map (sample_count \<circ> snd) (rv_tubes st)) \<le> rv_maxSamples st"
    using assms(1) by (simp_all add: rv_ok_def)
  note wt = write_tubes_ok [OF s(1,2) d, of R]
  show ?thesis
    unfolding manifest_ok_def m(1,2)
  proof (intro conjI)
    show "?T \<noteq> []" by (fact m(3))
    show "sorted_wrt (<) (map tr_track_id ?T)" using wt by (rule conjunct1)
    show "sum_list (map (\<lambda>t. int (length (tr_samples t))) ?T) \<le> rv_maxSamples st"
      using wt [THEN conjunct2, THEN conjunct2, THEN conjunct1] s(3) by (rule order_trans)
    show "\<forall>t \<in> set ?T. tr_samples t \<noteq> [] \<and> sorted_wrt (\<lambda>a b. sr_pts_us a + min_gap st \<le> sr_pts_us b) (tr_samples t) \<and>
        (\<forall>s \<in> set (tr_samples t). \<exists>jpeg. ReviewFile (path_join ?d (sr_cutout s)) jpeg \<in> set acts)"
      using wt [THEN conjunct2, THEN conjunct2, THEN conjunct2] m(4) by blast
  qed
qed

lemma manifest_ok_settings: "rv_settings st' = rv_settings st \<Longrightarrow> manifest_ok st' acts m = manifest_ok st acts m"
  by (simp add: manifest_ok_def rv_settings_def min_gap_def)

lemma finalize_publishes_nothing: "ReviewPublish m \<notin> set (snd (finalize_locked R i p c st))"
proof -
  have w: "ReviewPublish m \<notin> set (snd (write_tube R d kt))" for d kt
    by (auto simp: write_tube_def write_samples_def Let_def split: prod.splits)
  show ?thesis
    using w by (auto simp: finalize_locked_def Let_def split: prod.splits if_splits)
qed

lemma opened_ok:
  "rv_ok st \<Longrightarrow> rv_ok ((reset_collection st)\<lparr>rv_collecting := True, rv_clipToken := t\<rparr>)"
  "rv_ok st \<Longrightarrow> rv_ok ((reset_collection st)\<lparr>rv_collecting := True\<rparr>)"
  "rv_settings ((reset_collection st)\<lparr>rv_collecting := True, rv_clipToken := t\<rparr>) = rv_settings st"
  "rv_settings ((reset_collection st)\<lparr>rv_collecting := True\<rparr>) = rv_settings st"
  by (simp_all add: rv_ok_def reset_collection_def rv_settings_def)

definition event_good :: "'f ReviewState \<Rightarrow> 'f attempt \<times> 'f review_act list \<Rightarrow> bool" where
  "event_good st ra \<longleftrightarrow> rv_ok (cfg_result (fst ra)) \<and> rv_settings (cfg_result (fst ra)) = rv_settings st \<and>
     (\<forall>m. ReviewPublish m \<in> set (snd ra) \<longrightarrow> manifest_ok st (snd ra) m)"

lemma clip_ok:
  assumes "rv_ok st" "finalize_locked R i p c st = (m, acts)"
  shows "event_good st (Inr (reset_collection st), acts @ (case m of None \<Rightarrow> [] | Some m \<Rightarrow> [ReviewPublish m]))"
proof -
  have "ReviewPublish n \<notin> set acts" for n using finalize_publishes_nothing [of n R i p c st] by (simp add: assms(2))
  moreover have "manifest_ok st (acts @ [ReviewPublish n]) n" if "m = Some n" for n
    using finalize_ok [of st R i p c n acts] assms that unfolding manifest_ok_def by fastforce
  ultimately show ?thesis using reset_ok [OF assms(1)] by (cases m) (auto simp: event_good_def)
qed

lemma dispatch_ok:
  assumes "rv_ok st" "review_laws C st"
  shows "\<exists>ra. review_dispatch C R J K ty event j st = Some ra \<and> event_good st ra"
proof -
  consider (tracked) "ty = ''tracked_detection''" | (plate) "ty \<noteq> ''tracked_detection''" "ty = ''background_plate''"
    | (opened) "ty \<noteq> ''tracked_detection''" "ty \<noteq> ''background_plate''" "event = ''RecordingOpening''"
    | (clip) "ty \<noteq> ''tracked_detection''" "ty \<noteq> ''background_plate''" "event = ''EventClip''" "rv_collecting st"
    | (other) "ty \<noteq> ''tracked_detection''" "ty \<noteq> ''background_plate''" "event \<noteq> ''RecordingOpening''" "\<not> (event = ''EventClip'' \<and> rv_collecting st)"
    by auto
  then show ?thesis
  proof cases
    case tracked
    then show ?thesis using on_tracked_detection_ok [OF assms, of J K j] by (auto simp: review_dispatch_def event_good_def)
  next
    case plate
    then show ?thesis using plate_ok [OF assms(1), of J j] by (simp add: review_dispatch_def event_good_def)
  next
    case opened
    then show ?thesis using opened_ok(1,2) [OF assms(1)]
      by (cases "j_value_string J j ''clip_token'' []") (simp_all add: review_dispatch_def event_good_def opened_ok(3,4) Let_def)
  next
    case other
    then have "review_dispatch C R J K ty event j st = Some (Inr st, [])" by (auto simp: review_dispatch_def)
    then show ?thesis using assms(1) by (simp add: event_good_def)
  next
    case clip
    define args where "args = Option.bind (j_value_int J j ''event_id'' 0) (\<lambda>i. Option.bind (j_value_string J j ''path'' []) (\<lambda>p.
                          map_option (\<lambda>c. (i, p, c)) (j_value_string J j ''cause'' [])))"
    have eq: "review_dispatch C R J K ty event j st = (case args of None \<Rightarrow> Some (Inl st, [])
      | Some (i, p, c) \<Rightarrow> (case finalize_locked R i p c st of (m, acts) \<Rightarrow>
          Some (Inr (reset_collection st), acts @ (case m of None \<Rightarrow> [] | Some m \<Rightarrow> [ReviewPublish m]))))"
      using clip by (simp add: review_dispatch_def args_def)
    show ?thesis
    proof (cases args)
      case None then show ?thesis using assms(1) by (simp add: eq event_good_def)
    next
      case (Some a)
      obtain i p c where a: "a = (i, p, c)" by (metis prod_cases3)
      obtain m acts where m: "finalize_locked R i p c st = (m, acts)" by fastforce
      show ?thesis using clip_ok [OF assms(1) m] by (simp add: eq Some a m)
    qed
  qed
qed

lemma review_handleEvent_ok:
  assumes "rv_ok st" "review_laws C st"
  shows "\<exists>ra. review_handleEvent C R J K msg st = Some ra \<and> event_good st ra"
  using dispatch_ok [OF assms, of R J K] assms(1)
  by (simp add: review_handleEvent_def event_good_def split: option.split)

section \<open>Frames and runs\<close>

lemma keep_ok:
  assumes "rv_ok st"
  shows "rv_ok (keep_anchor w pts st) \<and> rv_settings (keep_anchor w pts st) = rv_settings st"
    "rv_ok (keep_span pts st) \<and> rv_settings (keep_span pts st) = rv_settings st"
  using assms by (simp_all add: rv_ok_def rv_settings_def keep_anchor_def keep_span_def)

lemma keep_ring_ok:
  assumes "rv_ok st" "0 < rv_frameW st" "0 < rv_frameH st" "length rgb = nat (rv_frameW st * rv_frameH st) * 3"
  shows "rv_ok (keep_ring pts rgb st) \<and> rv_settings (keep_ring pts rgb st) = rv_settings st"
proof -
  define ring where "ring = rv_ring st @ [(pts, rgb)]"
  have "\<forall>f \<in> set ring. length (snd f) = nat (rv_frameW st * rv_frameH st) * 3"
    using assms by (auto simp: ring_def rv_ok_def)
  then have "\<forall>f \<in> set (drop n ring). length (snd f) = nat (rv_frameW st * rv_frameH st) * 3" for n
    by (meson in_set_dropD)
  moreover have "length (drop (length ring - rv_ringSize st) ring) \<le> rv_ringSize st" by simp
  ultimately show ?thesis
    using assms(1-3) unfolding keep_ring_def ring_def [symmetric] Let_def by (simp add: rv_ok_def rv_settings_def)
qed

lemma review_on_frame_ok:
  assumes "rv_ok st"
  shows "\<exists>st'. review_export_on_frame w buf st = (st', [ReviewForward buf]) \<and> rv_ok st' \<and> rv_settings st' = rv_settings st"
proof (cases "review_wants st buf")
  case False then show ?thesis using assms by (simp add: review_export_on_frame_def)
next
  case True
  define pts where "pts = sint (ucast (fh_pts_usec (frame_hdr buf)) :: 64 word)"
  define rgb where "rgb = take (nat (rv_frameW st * rv_frameH st) * 3) (drop sizeof_frame_hdr buf)"
  have b: "0 < rv_frameW st" "0 < rv_frameH st" "length rgb = nat (rv_frameW st * rv_frameH st) * 3"
    using True by (auto simp: review_wants_def rgb_def Let_def min_def)
  let ?s = "keep_anchor w pts st"
  have s: "rv_ok ?s" "rv_settings ?s = rv_settings st" using keep_ok(1) [OF assms] by auto
  then have "rv_frameW ?s = rv_frameW st" "rv_frameH ?s = rv_frameH st" by (simp_all add: rv_settings_def)
  then have t: "rv_ok (keep_ring pts rgb ?s)" "rv_settings (keep_ring pts rgb ?s) = rv_settings st"
    using keep_ring_ok [OF s(1), of rgb pts] b s(2) by auto
  have "review_export_on_frame w buf st = (keep_span pts (keep_ring pts rgb ?s), [ReviewForward buf])"
    using True by (simp add: review_export_on_frame_def pts_def rgb_def Let_def)
  then show ?thesis using keep_ok(2) [OF t(1), of pts] t(2) by auto
qed

lemma manifest_ok_more:
  assumes "manifest_ok st acts m" "set acts \<subseteq> set bs" "rv_settings st' = rv_settings st"
  shows "manifest_ok st' bs m"
proof -
  have e: "min_gap st' = min_gap st" "rv_maxSamples st' = rv_maxSamples st" using assms(3) by (simp_all add: rv_settings_def min_gap_def)
  from assms(1,2) show ?thesis unfolding manifest_ok_def e by blast
qed

lemma review_run_ok:
  assumes "rv_ok st" "review_laws C st"
  shows "\<exists>st' acts. review_run C R J K xs st = Some (st', acts) \<and> rv_ok st' \<and> rv_settings st' = rv_settings st \<and>
    (\<forall>m. ReviewPublish m \<in> set acts \<longrightarrow> manifest_ok st acts m)"
  using assms
proof (induction xs arbitrary: st)
  case Nil then show ?case by simp
next
  case (Cons x xs)
  have step: "\<exists>s1 a1. review_run C R J K (x # xs) st = map_option (map_prod id ((@) a1)) (review_run C R J K xs s1) \<and> rv_ok s1 \<and>
    rv_settings s1 = rv_settings st \<and> (\<forall>m. ReviewPublish m \<in> set a1 \<longrightarrow> manifest_ok st a1 m)"
  proof (cases x)
    case (ReviewFrame w buf)
    from review_on_frame_ok [OF Cons.prems(1), of w buf] show ?thesis by (force simp: ReviewFrame)
  next
    case (ReviewEvent msg)
    obtain ra where ra: "review_handleEvent C R J K msg st = Some ra" "event_good st ra"
      using review_handleEvent_ok [OF Cons.prems] by blast
    show ?thesis
      by (rule exI [of _ "cfg_result (fst ra)"], rule exI [of _ "snd ra"])
        (use ra in \<open>simp add: ReviewEvent event_good_def case_prod_beta\<close>)
  qed
  then obtain s1 a1 where s: "review_run C R J K (x # xs) st = map_option (map_prod id ((@) a1)) (review_run C R J K xs s1)" "rv_ok s1"
    "rv_settings s1 = rv_settings st" "\<forall>m. ReviewPublish m \<in> set a1 \<longrightarrow> manifest_ok st a1 m" by blast
  obtain s2 a2 where t: "review_run C R J K xs s1 = Some (s2, a2)" "rv_ok s2" "rv_settings s2 = rv_settings s1"
    "\<forall>m. ReviewPublish m \<in> set a2 \<longrightarrow> manifest_ok s1 a2 m"
    using Cons.IH [OF s(2)] Cons.prems(2) review_laws_same [OF s(3)] by blast
  have "manifest_ok st (a1 @ a2) m" if "ReviewPublish m \<in> set (a1 @ a2)" for m
  proof (cases "ReviewPublish m \<in> set a1")
    case True then show ?thesis using manifest_ok_more [of st a1 m "a1 @ a2" st] s(4) by simp
  next
    case False then show ?thesis using that manifest_ok_more [of s1 a2 m "a1 @ a2" st] t(4) s(3) by simp
  qed
  then show ?case using s t by simp
qed

definition rv_empty :: "'f ReviewState \<Rightarrow> bool" where
  "rv_empty st \<longleftrightarrow> rv_tubes st = [] \<and> rv_ring st = [] \<and> rv_plates st = [] \<and> rv_bufferedSamples st = 0"

lemma cfg_step_inv:
  "\<lbrakk>P (cfg_result c); \<And>v x. P x \<Longrightarrow> P (upd v x)\<rbrakk> \<Longrightarrow> P (cfg_result (cfg_step value upd c))"
  by (auto simp: cfg_step_def cfg_result_def split: sum.split option.split)

lemma review_start_ok: "rv_ok (review_export_start J cfg)"
proof -
  have step: "rv_empty (cfg_result (cfg_step v upd c))" if "rv_empty (cfg_result c)" "\<And>v x. rv_empty (upd v x) = rv_empty x"
    for v and upd :: "_ \<Rightarrow> 'f ReviewState \<Rightarrow> 'f ReviewState" and c
    by (rule cfg_step_inv) (use that in auto)
  have upd: "rv_empty (x\<lparr>rv_monitorId := a\<rparr>) = rv_empty x" "rv_empty (x\<lparr>rv_frameW := a\<rparr>) = rv_empty x"
    "rv_empty (x\<lparr>rv_frameH := a\<rparr>) = rv_empty x" "rv_empty (x\<lparr>rv_sampleFps := a\<rparr>) = rv_empty x"
    "rv_empty (x\<lparr>rv_cutoutMaxEdge := a\<rparr>) = rv_empty x" "rv_empty (x\<lparr>rv_feather := a\<rparr>) = rv_empty x"
    "rv_empty (x\<lparr>rv_ringSize := n\<rparr>) = rv_empty x" "rv_empty (x\<lparr>rv_maxSamples := a\<rparr>) = rv_empty x"
    "rv_empty (x\<lparr>rv_streamFilter := l\<rparr>) = rv_empty x" for x :: "'f ReviewState" and a n l
    by (simp_all add: rv_empty_def)
  have init: "rv_empty (ReviewState_init :: 'f ReviewState)" by (simp add: rv_empty_def ReviewState_init_def)
  have final: "rv_empty st \<Longrightarrow> rv_ok (st\<lparr>rv_ringSize := n, rv_maxSamples := if rv_maxSamples st < 1 then 1 else rv_maxSamples st,
      rv_running := True\<rparr>)" for st :: "'f ReviewState" and n
    by (simp add: rv_empty_def rv_ok_def)
  show ?thesis
    unfolding review_export_start_def Let_def
    by (rule final) (auto simp: init upd step split: option.split)
qed


text \<open>Integer arithmetic with conversions that saturate obeys the laws.\<close>

definition saturate :: "int \<Rightarrow> int option" where
  "saturate v = Some (max (- (2 ^ 31)) (min (2 ^ 31 - 1) v))"

definition int_cut_env :: "(int, int) cut_env" where
  "int_cut_env = \<lparr>ce_F = int_floats, ce_D = int_floats,
     ce_R = \<lparr>rd_floor = saturate, rd_ceil = saturate, rd_round = saturate\<rparr>, ce_sort = sort, ce_jpeg = (\<lambda>src w h. Some (255 # src))\<rparr>"

lemma int_source_coord:
  assumes "0 \<le> v" "v < d" "1 \<le> s"
  shows "0 \<le> source_coord int_floats v s d \<and> source_coord int_floats v s d < s"
proof (cases "d > 1")
  case True
  have "v * (s - 1) \<le> (d - 1) * (s - 1)" using assms by (intro mult_right_mono) auto
  then have "v * (s - 1) div (d - 1) \<le> (d - 1) * (s - 1) div (d - 1)" using True by (intro zdiv_mono1) auto
  then show ?thesis using True assms by (simp add: source_coord_def int_floats_def pos_imp_zdiv_nonneg_iff)
next
  case False then show ?thesis using assms by (simp add: source_coord_def int_floats_def fl_zero_def)
qed

lemma int_cut_laws: "0 \<le> e \<Longrightarrow> cut_laws int_cut_env e"
  using int_source_coord
  by (auto simp: cut_laws_def converts_def int_cut_env_def saturate_def to_int_def int_ok_def scaled_size_def Let_def)
    (simp_all add: int_floats_def)

definition review_texts :: "string \<rightharpoonup> jdoc" where
  "review_texts = map_of [
     (''cfg'', JObj [(''frame_width'', JInt 2), (''frame_height'', JInt 2), (''monitor_id'', JInt 3)]),
     (''o'', JObj [(''event'', JStr ''RecordingOpening''), (''clip_token'', JStr ''k'')]),
     (''d'', JObj [(''type'', JStr ''tracked_detection''), (''pts_usec'', JInt 9), (''detections'', JArr [
        JObj [(''track_id'', JInt 5), (''bbox'', JArr [JInt 0, JInt 0, JInt 2, JInt 2]), (''label'', JStr ''cat'')]])]),
     (''c'', JObj [(''event'', JStr ''EventClip''), (''event_id'', JInt 8), (''path'', JStr ''/m/e/v.mp4'')])]"

definition review_demo_files :: review_files where
  "review_demo_files = \<lparr>rf_mkdir = (\<lambda>_. True), rf_copy = (\<lambda>_ _. True), rf_write = (\<lambda>_. True)\<rparr>"

definition review_demo_frame :: bytes where
  "review_demo_frame = frame_hdr_bytes \<lparr>fh_stream_id = 1, fh_hw_type = ZM_FRAME_RGB24, fh_handle = 0, fh_bytes = 12, fh_flags = 0,
     fh_pts_usec = 9\<rparr> @ [1, 2, 3, 4, 5, 6, 7, 8, 9, 10, 11, 12]"

definition review_demo_steps :: "review_step list" where
  "review_demo_steps = [ReviewEvent ''o'', ReviewFrame 77 review_demo_frame, ReviewEvent ''d'', ReviewEvent ''d'', ReviewEvent ''c'']"

definition published :: "'f review_act list \<Rightarrow> (u64 \<times> string list) list list" where
  "published acts = map (\<lambda>m. map (\<lambda>t. (tr_track_id t, map sr_cutout (tr_samples t))) (mf_tubes m))
     (List.map_filter (\<lambda>a. case a of ReviewPublish m \<Rightarrow> Some m | _ \<Rightarrow> None) acts)"

lemma review_demo_run:
  "map_option (\<lambda>r. published (snd r))
     (review_run int_cut_env review_demo_files (jdoc_api review_texts) jdoc_floats review_demo_steps
       (review_export_start (jdoc_api review_texts) (Some ''cfg''))) = Some [[(5, [''t5/000000.jpg''])]]"
  by code_simp

lemma published_one:
  assumes "published acts = [x]"
  shows "\<exists>m. ReviewPublish m \<in> set acts \<and> map (\<lambda>t. (tr_track_id t, map sr_cutout (tr_samples t))) (mf_tubes m) = x"
proof -
  obtain m where m: "List.map_filter (\<lambda>a. case a of ReviewPublish m \<Rightarrow> Some m | _ \<Rightarrow> None) acts = [m]"
    "map (\<lambda>t. (tr_track_id t, map sr_cutout (tr_samples t))) (mf_tubes m) = x"
    using assms by (auto simp: published_def)
  then have "m \<in> set (List.map_filter (\<lambda>a. case a of ReviewPublish m \<Rightarrow> Some m | _ \<Rightarrow> None) acts)" by simp
  then have "ReviewPublish m \<in> set acts" by (auto simp: List.map_filter_def split: review_act.splits)
  with m(2) show ?thesis by blast
qed

lemma review_demo_laws: "review_laws int_cut_env (review_export_start (jdoc_api review_texts) (Some ''cfg''))"
proof -
  have "rv_cutoutMaxEdge (review_export_start (jdoc_api review_texts) (Some ''cfg'') :: int ReviewState) = 256"
    "rv_frameW (review_export_start (jdoc_api review_texts) (Some ''cfg'') :: int ReviewState) = 2"
    "rv_frameH (review_export_start (jdoc_api review_texts) (Some ''cfg'') :: int ReviewState) = 2"
    by code_simp+
  then show ?thesis using int_cut_laws [of 256] by (simp add: review_laws_def)
qed


text \<open>A size of the soft mask with two negative numbers passes the check of its length.\<close>

lemma negative_mask_size_accepted:
  "soft_mask (jdoc_api Map.empty) (JObj [(''mask'', JObj [(''format'', JStr ''alpha''), (''w'', JInt (- 1)), (''h'', JInt (- 1)),
      (''data'', JStr ''AA'')])]) = Some ([0], - 1, - 1)"
  by code_simp

end
