(* ===== verification/Spec2Isabelle.thy ===== *)
theory Spec2Isabelle
  imports Capture_Thread Zm_Core Store_Properties Motion_Gate Mse_Properties Rtsp_Properties
    Tracker_Properties Describe_Vlm Alert_Properties Analytics_Properties Geometry_Exact Llm_Properties Webrtc_Properties
    Privacy_Properties Snapshot Event_Outputs Motion_Pixel_Diff Review_Properties
begin

text \<open>
  ZM-Next runs one worker process for each camera. The worker loads a pipeline of plugins, reads frames
  from its input plugin, passes them from stage to stage, and serves live consumers over a Unix socket.
  This library models the worker's core and its own plugins as functions on explicit states and proves
  what makes them correct.

  How the parts interact. \<open>zm-core.cpp\<close> (\<open>Zm_Core\<close>) loads the pipeline file (\<open>Pipeline_Loader\<close>), has the
  plugin manager create and start the plugins (\<open>Plugin_Manager\<close>) and connects the event bus
  (\<open>Event_Bus\<close>) with the worker link. The input plugin hands every frame to the capture thread's
  adapter, which pushes it into a ring of slots (\<open>Shm_Ring\<close>); the capture thread (\<open>Capture_Thread\<close>)
  pops the frames, gives them to the link and to the stages of the pipeline. A stage
  (\<open>Stage_Runner\<close>) has a queue that drops its oldest frame when it is full, and a thread that calls the
  plugin. The link (\<open>Link_Message\<close>, \<open>Link_Client\<close>, \<open>Worker_Link\<close>, \<open>Link_Loop\<close>) frames media, codec
  parameters and events in the stream-socket protocol (\<open>Stream_Protocol\<close>), with a bounded queue for each
  consumer.

  The plugins follow. The RTSP input feeds the ring. The recorder, the snapshots, the MSE and the WebRTC output
  take compressed or decoded frames. The motion gate and the privacy mask stand between stages and change or
  drop frames. The detector of pixel differences and the others publish events on the bus; tracker, spatial rules and alert policy turn them
  into events of objects, and the scene describer and the event reviewer ask a language model about them. The
  webhook and MQTT outputs send events away. The review exporter keeps the recent frames, cuts the tracked objects
  out of them while the recorder has a clip open, and publishes a manifest when the clip is closed.

  Theories and sources, under src/:
  \<^item> \<open>Prelude\<close>: integer widths, little-endian bytes (core/src/stream_socket_protocol.cpp), \<open>memcpy\<close>.
  \<^item> \<open>Frame_Queue\<close>: the two queue disciplines as locales; interpreted for the ring, the stage queue and
    the segment buffer of the MSE output.
  \<^item> \<open>Stream_Protocol\<close>: core/src/stream_socket_protocol.cpp, header and bodies of HELLO, EVENT, STATS.
    Round trips, and the exact inputs on which the parsers fail.
  \<^item> \<open>Base64\<close>: plugins/common/base64.hpp and the decoder in core/src/WorkerLink.cpp. Round trip.
  \<^item> \<open>Event_Bus\<close>: core/include/zm/EventBus.hpp. Refinement of a map of live subscriptions.
  \<^item> \<open>Shm_Ring\<close>: core/src/ShmRing.cpp, as whole calls and as single memory steps of two threads. First in,
    first out under every interleaving of one producer and one consumer.
  \<^item> \<open>Stage_Runner\<close>: core/src/StageRunner.cpp. No frame is lost without being counted.
  \<^item> \<open>Pipeline_Loader\<close>: core/src/PipelineLoader.cpp. The loaded plugins form a forest.
  \<^item> \<open>Plugin_Manager\<close>: core/src/PluginManager.cpp. Wiring of the stages, order of starts and stops.
  \<^item> \<open>Frame_Header\<close>, \<open>Capture_Thread\<close>: core/include/zm_plugin.h, core/src/CaptureThread.cpp.
  \<^item> \<open>Link_Message\<close>, \<open>Link_Client\<close>, \<open>Worker_Link\<close>, \<open>Link_Loop\<close>: core/src/WorkerLink.cpp. The link's
    invariant over all its operations, the byte stream of a consumer under partial writes, replay at a
    join, generations, reassembly of inbound bytes.
  \<^item> \<open>Zm_Core\<close>: src/zm-core.cpp. Commands from consumers, the bridge between bus and link, shutdown.
  \<^item> \<open>Store_Buffer\<close>, \<open>Store\<close>, \<open>Store_Properties\<close>: plugins/store/store.cpp and event_trigger.hpp. The
    pre-roll buffer, clips and segments, the assignment of event ids.
  \<^item> \<open>Motion_Gate\<close>: plugins/motion_gate/motion_gate.cpp and motion_diff.hpp.
  \<^item> \<open>Mse_H264\<close>, \<open>Mse_Fragmenter\<close>, \<open>Mse_Service\<close>, \<open>Mse_Properties\<close>: plugins/output_mse/output_mse.cpp.
  \<^item> \<open>Rtsp_Config\<close>, \<open>Rtsp_Capture\<close>, \<open>Rtsp_Properties\<close>: plugins/capture_rtsp_multi. Configuration, the life of a
    stream's connection as a protocol, its back-off, what it delivers.
  \<^item> \<open>Webrtc\<close>, \<open>Webrtc_Properties\<close>: plugins/output_webrtc/output_webrtc.cpp. Sessions, queue, threads, commands:
    frames stay with their camera, and what a viewer is sent.
  \<^item> \<open>Pixels\<close>, \<open>Privacy_Mask\<close>, \<open>Privacy_Properties\<close>: plugins/privacy_mask. Memory safety of the three masks for any
    arithmetic, exactness of the black mask and of the mosaic.
  \<^item> \<open>Snapshot\<close>: plugins/store_snapshot. Which events take a picture, how often, and of which frame.
  \<^item> \<open>Event_Outputs\<close>: plugins/output_webhook and plugins/output_mqtt as two interpretations of one locale of an output
    with a lock. What is sent, and the protocol of the MQTT library's handle.
  \<^item> \<open>Motion_Pixel_Diff\<close>: plugins/motion_pixel_diff. The background model settles, and its buffers are enough for the
    sizes that fit; lemmas show the sizes that do not.
  \<^item> \<open>Review_Matte\<close>, \<open>Review_Export\<close>, \<open>Review_Properties\<close>: plugins/review_export. Mattes, cutouts, tubes, the manifest of a
    clip; bounded buffers and sound manifests over runs that exceptions may interrupt.
  \<^item> \<open>Floats\<close>: the arithmetic of float and double as a record of operations.
  \<^item> \<open>Tracker\<close>, \<open>Tracker_Properties\<close>: plugins/tracker. Tracks and detections match one to one, identifiers are new.
  \<^item> \<open>Alert_Policy\<close>, \<open>Alert_Properties\<close>: plugins/alert_policy. One alert for each new object.
  \<^item> \<open>Analytics\<close>, \<open>Analytics_Properties\<close>, \<open>Geometry_Exact\<close>: plugins/analytics_rules. Zones and lines as automata for each
    object, and the crossing test for exact arithmetic.
  \<^item> \<open>Llm_Montage\<close>, \<open>Vlm_Client\<close>, \<open>Llm_Review\<close>, \<open>Llm_Events\<close> with \<open>Llm_Montage_Properties\<close>, \<open>Llm_Properties\<close>:
    plugins/llm_event_review and plugins/describe_vlm/vlm_client.hpp. Pictures, prompts, reviews, stories: memory safety, distance
    between reviews, each story once.
  \<^item> \<open>Describe_Vlm\<close>: plugins/describe_vlm/describe_vlm.cpp. Trigger, throttle, request.
  \<^item> \<open>Json_Api\<close>, \<open>Std_Strings\<close>: the JSON library as a parameter, and what is used of the C++ library's
    strings.

  Conventions. A class is a record, with one definition for each method, that returns the new state, the
  calls it makes to the outside as a list of actions, and its result. Results of system calls and of
  libraries (sockets, FFmpeg, nlohmann::json, the file system, clocks) are arguments. An exception or an
  error return is a value. \<open>None\<close> as the result of a parser that works on raw memory stands for undefined
  behaviour (a read outside of the buffer, an overflow of \<open>int\<close>), so that a theorem with \<open>Some\<close> excludes
  it. Integers that can wrap keep their width; sizes of containers in memory are natural numbers.
  Threads appear as interleavings where the code shares memory without a lock (the ring), otherwise each
  locked region is one operation.

  Bounds and fuel. \<open>free_clip_path\<close> searches through one name more than there are files and therefore
  always ends with a free one. \<open>grow\<close> doubles a buffer on unbounded numbers; results from 2^64 on stand for
  the code's loop that does not end, and \<open>frag_rep\<close> bounds the sizes below that. Everything else is
  structural recursion or has its measure.

  Floating point. The plugins that compute with float or double take the operations as an argument. What is
  proved of them holds for every interpretation, IEEE numbers included, unless the theorem names the exact
  reals: then it says what the formulas mean and leaves rounding aside.

  Not modelled: the plugins that wrap decoders, encoders and inference engines (FFmpeg, ONNX Runtime, CUDA, OpenVINO,
  Vulkan, OpenCL) and the post-processing of their results; the drawing of overlays; the hybrid motion detector and
  the motion of zones; log messages; accepting and resolving sockets; loading of shared objects;
  benchmarks, tests and tools.
\<close>

section \<open>From the plugin's frame to the consumer\<close>

lemma tap_media_video:
  assumes "sizeof_frame_hdr < length b" and "fh_hw_type (frame_hdr b) = ZM_FRAME_COMPRESSED"
    and "lk_running lk"
  shows "lk_clients (tap_media b lk) = filter (\<lambda>c. \<not> cl_dead c)
    (map (enqueue_client (lk_cfg lk)
        (media_msg 1 (fh_flags (frame_hdr b) AND 1 \<noteq> 0) (fh_pts_usec (frame_hdr b))
          (drop sizeof_frame_hdr b) lk) True False False) (lk_clients lk))"
proof -
  have "wire_stream 1 = stream_id_code Video" by (simp add: wire_stream_def)
  then show ?thesis
    using assms sendMedia_clients [OF assms(3), of "drop sizeof_frame_hdr b" 1]
    by (simp add: tap_media_def Let_def)
qed

lemma tapped_frame_reaches_consumers:
  assumes "length b \<le> 1024 * 1024"
    and "sizeof_frame_hdr < length b" and "fh_hw_type (frame_hdr b) = ZM_FRAME_COMPRESSED"
    and "lk_running lk" and "clients_ok lk"
    and "c \<in> set (lk_clients lk)" and "\<not> cl_dead c" and "cl_want_video c"
  shows "\<exists>m c' n. frame_ok m \<and> frame_body m = drop sizeof_frame_hdr b \<and>
    h_pts_us (frame_header m) = fh_pts_usec (frame_hdr b) \<and>
    filter msg_control (take n (cl_queue c)) = [] \<and>
    cl_written c' @ cl_queue c' = cl_written c @ drop n (cl_queue c) @ [m] \<and>
    (c' \<in> set (lk_clients (tap_media b lk)) \<or> cl_dead c')"
proof -
  define m where "m = media_msg 1 (fh_flags (frame_hdr b) AND 1 \<noteq> 0) (fh_pts_usec (frame_hdr b))
    (drop sizeof_frame_hdr b) lk"
  define c' where "c' = enqueue_client (lk_cfg lk) m True False False c"
  have fm: "frame_ok m"
    unfolding m_def media_msg_def by (rule frame_ok_makeMedia) (use assms(1) in simp)
  have hm: "frame_body m = drop sizeof_frame_hdr b" "h_pts_us (frame_header m) = fh_pts_usec (frame_hdr b)"
    by (simp_all add: m_def media_msg_def link_header_def)
  have w: "wanted m True False False c" using assms(8) by (simp add: wanted_def)
  have pos: "0 < wire_size m" by (simp add: m_def media_msg_def)
  have ok: "client_ok c" using assms(5,6) by (simp add: clients_ok_def)
  obtain ds where ds: "cl_queue c = ds @ drop (length ds) (cl_queue c)" "filter msg_control ds = []"
    "cl_written c' @ cl_queue c' = cl_written c @ drop (length ds) (cl_queue c) @ [m]"
    using enqueue_client_stream [OF ok pos assms(7) w, of "lk_cfg lk"] unfolding c'_def by metis
  have "take (length ds) (cl_queue c) = ds" using ds(1) by (metis append_eq_conv_conj)
  moreover have "c' \<in> set (lk_clients (tap_media b lk)) \<or> cl_dead c'"
    using assms(6) by (auto simp: tap_media_video [OF assms(2-4)] c'_def m_def)
  ultimately show ?thesis using fm hm ds by metis
qed

text \<open>
  A video frame that the capture thread takes from the ring becomes the last message of every live
  consumer that wants video, as one legal frame of the protocol whose body is the frame's payload and
  whose time stamp is the plugin's; only messages that are not control are dropped before it, from the
  front of the queue, and a consumer is removed only when its socket failed.
\<close>
theorem captured_frame_reaches_consumers:
  assumes "ring_ok r" and "rg_slotSize r \<le> 1024 * 1024" and "ring_take r = Some (b, r')"
    and "sizeof_frame_hdr < length b" and "fh_hw_type (frame_hdr b) = ZM_FRAME_COMPRESSED"
    and "lk_running lk" and "clients_ok lk"
    and "c \<in> set (lk_clients lk)" and "\<not> cl_dead c" and "cl_want_video c"
  shows "\<exists>m c' n. frame_ok m \<and> frame_body m = drop sizeof_frame_hdr b \<and>
    h_pts_us (frame_header m) = fh_pts_usec (frame_hdr b) \<and>
    filter msg_control (take n (cl_queue c)) = [] \<and>
    cl_written c' @ cl_queue c' = cl_written c @ drop n (cl_queue c) @ [m] \<and>
    (c' \<in> set (lk_clients (tap_media b lk)) \<or> cl_dead c')"
  by (rule tapped_frame_reaches_consumers)
    (use assms ring_take_bound [OF assms(1,3)] in simp_all)

definition demo_video_frame :: bytes where
  "demo_video_frame = [0, 0, 0, 0, 100, 0, 0, 0] @ replicate 24 0 @ [7]"

theorem captured_frame_reaches_consumers_witness:
  "\<exists>r r' m (c' :: Client). ring_take r = Some (demo_video_frame, r') \<and> frame_ok m \<and> frame_body m = [7] \<and>
     cl_written c' @ cl_queue c' = [m]"
proof -
  let ?r = "ShmRing_new 2 40 (replicate 80 0)" let ?c = "(Client_init 5 [])\<lparr>cl_want_video := True\<rparr>"
  let ?lk = "(link_init Config_default)\<lparr>lk_running := True, lk_clients := [?c]\<rparr>"
  have ok: "ring_ok ?r" by (rule ring_ok_new) simp_all
  have len: "length demo_video_frame = 33" by (simp add: demo_video_frame_def)
  have "ring_room ?r demo_video_frame"
    by (simp add: ring_room_def len) (simp add: ShmRing_new_def ring_used_def)
  from ring_push_accepts [OF ok this] obtain r where
    r: "ring_push demo_video_frame ?r = (True, r)" "ring_contents r = [demo_video_frame]" "ring_ok r"
    by auto
  have "rg_slotSize r = 40"
    using r(1) by (auto simp: ring_push_def Let_def ShmRing_new_def split: if_splits)
  then have sz: "rg_slotSize r \<le> 1024 * 1024" by simp
  obtain r' where t: "ring_take r = Some (demo_video_frame, r')"
    using rq.deq_cons [OF r(3,2)] by blast
  have hw: "fh_hw_type (frame_hdr demo_video_frame) = ZM_FRAME_COMPRESSED"
    by (simp add: demo_video_frame_def frame_hdr_def get_u32_def ZM_FRAME_COMPRESSED_def)
  have cl: "clients_ok ?lk" "lk_running ?lk" "?c \<in> set (lk_clients ?lk)" "\<not> cl_dead ?c" "cl_want_video ?c"
    by (simp_all add: clients_ok_def client_ok_def Client_init_def link_init_def Config_default_def)
  have hl: "sizeof_frame_hdr < length demo_video_frame" by (simp add: len sizeof_frame_hdr_def)
  from captured_frame_reaches_consumers [OF r(3) sz t hl hw cl(2,1,3,4,5)]
  obtain m and c' :: Client and n where w: "frame_ok m" "frame_body m = drop sizeof_frame_hdr demo_video_frame"
    "cl_written c' @ cl_queue c' = cl_written ?c @ drop n (cl_queue ?c) @ [m]"
    by blast
  have "frame_body m = [7]" using w(2) by (simp add: demo_video_frame_def sizeof_frame_hdr_def)
  moreover have "cl_written c' @ cl_queue c' = [m]" using w(3) by (simp add: Client_init_def)
  ultimately show ?thesis using t w(1) by blast
qed

section \<open>From the camera to the consumer\<close>

text \<open>
  C1. A video packet that the RTSP input reads while it is connected, of 4 bytes up to the ring's slot, comes
  out of the ring behind the frames that are in it already, as a frame with the packet's bytes; when the
  capture thread taps that frame, every live consumer that wants video gets one legal frame of the
  protocol with the packet's bytes and its time stamp in microseconds.
\<close>
theorem camera_packet_reaches_consumers:
  assumes "rs_running st" and "rs_connected st" and "stream_ready st"
    and "te_read E = ReadPacket p" and "vp_stream_index p = rs_video_stream_index st"
    and "vp_data p = Some d" and "4 \<le> length d" and "length d + sizeof_frame_hdr \<le> rg_slotSize r"
    and "rg_slotSize r \<le> 1024 * 1024" and "ring_ok r" and "ring_used r + 1 < rg_slotCount r"
  shows "\<exists>b st' r'. capture_loop_turn A cfg E st = (st', [FrameOut b, SleepUs 100, SleepMs 1], True) \<and>
    takes ring_take (length (ring_contents r) + 1) (host_api_on_frame_adapter (Some b) r) =
      (ring_contents r @ [b], r') \<and>
    (\<forall>lk c. lk_running lk \<longrightarrow> clients_ok lk \<longrightarrow> c \<in> set (lk_clients lk) \<longrightarrow> \<not> cl_dead c \<longrightarrow> cl_want_video c \<longrightarrow>
      (\<exists>m c' n. frame_ok m \<and> frame_body m = d \<and>
        h_pts_us (frame_header m) =
          of_int (video_pts A (stream_time_base st (rs_video_stream_index st)) (te_now E) p) \<and>
        filter msg_control (take n (cl_queue c)) = [] \<and>
        cl_written c' @ cl_queue c' = cl_written c @ drop n (cl_queue c) @ [m] \<and>
        (c' \<in> set (lk_clients (tap_media b lk)) \<or> cl_dead c')))"
proof -
  let ?pts = "video_pts A (stream_time_base st (rs_video_stream_index st)) (te_now E) p"
  define h where "h = \<lparr>fh_stream_id = rc_stream_id cfg, fh_hw_type = ZM_FRAME_COMPRESSED,
    fh_handle = vp_address p, fh_bytes = of_nat (length d), fh_flags = (if vp_key p then 1 else 0),
    fh_pts_usec = of_int ?pts\<rparr>"
  define b where "b = frame_hdr_bytes h @ d"
  have sz: "vp_size p = length d" and d: "d \<noteq> []" using assms(6,7) by (auto simp: vp_size_def)
  have fmt: "rs_fmt_ctx st \<noteq> None" "rs_packet st" using assms(3) by (auto simp: stream_ready_def)
  have "length d \<le> 10 * 1024 * 1024" using assms(8,9) by simp
  then have turn: "\<exists>st'. capture_loop_turn A cfg E st = (st', [FrameOut b, SleepUs 100, SleepMs 1], True)"
    using assms(1,2,4-7) fmt sz d
    by (simp add: capture_loop_turn_def read_and_publish_def process_and_publish_frame_def
        frame_of_packet_def b_def h_def)
  have len: "length b = length d + sizeof_frame_hdr" by (simp add: b_def)
  then have room: "ring_room r b" using assms(8,11) by (simp add: ring_room_def)
  let ?r = "host_api_on_frame_adapter (Some b) r"
  have r: "ring_ok ?r" "ring_contents ?r = ring_contents r @ [b]"
    using adapter_result [OF assms(10), of "Some b"] len room by simp_all
  obtain xs r' where t: "takes ring_take (length (ring_contents r) + 1) ?r = (xs, r')"
    by (cases "takes ring_take (length (ring_contents r) + 1) ?r")
  from rq.takes_contents [OF r(1) t] r(2) have xs: "xs = ring_contents r @ [b]" by simp
  have hw: "sizeof_frame_hdr < length b" "fh_hw_type (frame_hdr b) = ZM_FRAME_COMPRESSED" "length b \<le> 1024 * 1024"
    using len assms(8,9) d by (simp_all add: b_def h_def)
  have bd: "drop sizeof_frame_hdr b = d" "fh_pts_usec (frame_hdr b) = of_int ?pts"
    by (simp_all add: b_def h_def)
  show ?thesis
    using turn t unfolding xs bd [symmetric]
    by (intro exI [of _ b]) (use tapped_frame_reaches_consumers [OF hw(3,1,2)] in blast)
qed

definition demo_connected :: StreamState where
  "demo_connected = demo_stream\<lparr>rs_connected := True, rs_codec_ctx := True, rs_packet := True,
     rs_fmt_ctx := Some [\<lparr>as_media = MediaVideo, as_time_base = (1, 90000), as_codecpar = demo_par\<rparr>],
     rs_video_stream_index := 0\<rparr>"

definition demo_packet :: RtspPacket where
  "demo_packet = \<lparr>vp_stream_index = 0, vp_data = Some [0, 0, 0, 1, 0x65], vp_address = 4096, vp_key = True,
     vp_pts = Some 90000, vp_dts = None\<rparr>"

theorem camera_packet_reaches_consumers_witness:
  "\<exists>b st' r'. capture_loop_turn demo_lib demo_cfg
       \<lparr>te_connect = demo_connect, te_jitter = 0, te_read = ReadPacket demo_packet, te_now = 0\<rparr> demo_connected =
       (st', [FrameOut b, SleepUs 100, SleepMs 1], True) \<and>
     takes ring_take 1 (host_api_on_frame_adapter (Some b) (ShmRing_new 2 40 (replicate 80 0))) = ([b], r') \<and>
     video_pts demo_lib (stream_time_base demo_connected 0) 0 demo_packet = 1000000"
proof -
  let ?r = "ShmRing_new 2 40 (replicate 80 0)"
  let ?E = "\<lparr>te_connect = demo_connect, te_jitter = 0, te_read = ReadPacket demo_packet, te_now = 0\<rparr>"
  have ok: "ring_ok ?r" by (rule ring_ok_new) simp_all
  have st: "rs_running demo_connected" "rs_connected demo_connected" "stream_ready demo_connected"
    by (simp_all add: demo_connected_def demo_stream_def StreamState_init_def stream_ready_def)
  have p: "te_read ?E = ReadPacket demo_packet" "vp_stream_index demo_packet = rs_video_stream_index demo_connected"
    "vp_data demo_packet = Some [0, 0, 0, 1, 0x65]" "4 \<le> length [0, 0, 0, 1, 0x65 :: u8]"
    by (simp_all add: demo_packet_def demo_connected_def)
  have rg: "length [0, 0, 0, 1, 0x65 :: u8] + sizeof_frame_hdr \<le> rg_slotSize ?r" "rg_slotSize ?r \<le> 1024 * 1024"
    "ring_used ?r + 1 < rg_slotCount ?r"
    by (simp_all add: ShmRing_new_def sizeof_frame_hdr_def ring_used_def)
  have "video_pts demo_lib (stream_time_base demo_connected 0) 0 demo_packet = 1000000"
    by (simp add: video_pts_def stream_time_base_def demo_packet_def demo_connected_def demo_lib_def)
  moreover have "ring_contents ?r = []" by simp
  ultimately show ?thesis
    using camera_packet_reaches_consumers [OF st p rg(1,2) ok rg(3), of demo_lib demo_cfg] by auto
qed

end
